(* ===== verification/Kompact_Prelude.thy ===== *)
theory Kompact_Prelude
  imports Main "HOL-Library.Word" "HOL-Library.AList"
begin

unbundle bit_operations_syntax

section \<open>Shared types and lemmas\<close>

text \<open>
  What every component of the development shares: the machine integer types of the Rust
  sources, the result of a Rust function that can return, fail or panic, the text and
  byte views of strings, the documented behaviour of the third-party crates \<open>bytes\<close> and
  \<open>uuid\<close> (as a parameter of the models that use them), and generic lemmas on lists, bits
  and association lists.
\<close>

named_theorems rust_simps \<open>definitions of the Rust control-flow helpers\<close>
named_theorems codec_simps \<open>reading back what has been written\<close>

type_synonym u8 = "8 word"
type_synonym u16 = "16 word"
type_synonym u32 = "32 word"
type_synonym u64 = "64 word"
type_synonym u128 = "128 word"

text \<open>A \<open>uuid::Uuid\<close> is an opaque 128 bit identifier.\<close>
type_synonym uuid = u128

subsection \<open>Results of Rust functions\<close>

text \<open>
  \<open>Ok\<close> and \<open>Err\<close> are Rust's \<open>Result\<close>; \<open>Panic\<close> is a panic (a failed assertion, an
  out-of-range index, an \<open>expect\<close> on the wrong variant, reading past the end of a buffer).
\<close>

datatype ('a, 'e) rresult = Ok 'a | Err 'e | Panic

fun rbind :: "('a, 'e) rresult \<Rightarrow> ('a \<Rightarrow> ('b, 'e) rresult) \<Rightarrow> ('b, 'e) rresult" where
  "rbind (Ok a) f = f a"
| "rbind (Err e) f = Err e"
| "rbind Panic f = Panic"

fun rmap_err :: "('e \<Rightarrow> 'f) \<Rightarrow> ('a, 'e) rresult \<Rightarrow> ('a, 'f) rresult" where
  "rmap_err f (Ok a) = Ok a"
| "rmap_err f (Err e) = Err (f e)"
| "rmap_err f Panic = Panic"

text \<open>\<open>Option\<close>-valued helpers whose \<open>None\<close> is a panic of the source.\<close>

definition or_panic :: "'a option \<Rightarrow> ('a, 'e) rresult" where
  "or_panic x = (case x of None \<Rightarrow> Panic | Some a \<Rightarrow> Ok a)"

text \<open>\<open>Result::expect\<close> and \<open>Result::unwrap\<close>.\<close>

fun expect_ok :: "('a, 'e) rresult \<Rightarrow> ('a, 'f) rresult" where
  "expect_ok (Ok a) = Ok a"
| "expect_ok (Err e) = Panic"
| "expect_ok Panic = Panic"

text \<open>
  \<open>SerError\<close> of \<open>core/src/serialisation/core.rs\<close>: its kind and message, without the source
  location and backtrace that the error type also records.
\<close>

datatype ser_error =
  InvalidData string | InvalidType string | BufferError string | NoBuffersAvailable string
  | NoClone | ThirdParty string | Unknown string

lemma or_panic_simps [simp]: "or_panic None = Panic" "or_panic (Some a) = Ok a"
  by (simp_all add: or_panic_def)

lemma rbind_eq_Ok: "rbind r f = Ok b \<longleftrightarrow> (\<exists>a. r = Ok a \<and> f a = Ok b)"
  by (cases r) auto

lemma rbind_eq_Panic: "rbind r f = Panic \<longleftrightarrow> r = Panic \<or> (\<exists>a. r = Ok a \<and> f a = Panic)"
  by (cases r) auto

lemma rbind_assoc: "rbind (rbind r f) g = rbind r (\<lambda>a. rbind (f a) g)"
  by (cases r) auto

subsection \<open>Strings and bytes\<close>

text \<open>
  A Rust \<open>String\<close> is its UTF-8 bytes. Every character the sources compare against is ASCII,
  and an ASCII byte never occurs inside a multi-byte UTF-8 sequence, so splitting and
  searching by bytes is what the source does by characters.
\<close>

definition as_bytes :: "string \<Rightarrow> u8 list" where
  "as_bytes s = map (\<lambda>c. of_nat (of_char c)) s"

definition from_utf8_unchecked :: "u8 list \<Rightarrow> string" where
  "from_utf8_unchecked bs = map (\<lambda>b. char_of (unat b)) bs"

lemma length_as_bytes [simp]: "length (as_bytes s) = length s"
  by (simp add: as_bytes_def)

lemma of_char_lt_256: "(of_char c :: nat) < 256"
  using of_char_mod_256 [of c] by (metis mod_less_divisor zero_less_numeral)

lemma unat_of_nat_of_char: "unat (of_nat (of_char c) :: u8) = of_char c"
  using of_char_lt_256 [of c] by (simp add: unat_of_nat take_bit_eq_mod)

lemma from_utf8_as_bytes [simp, codec_simps]: "from_utf8_unchecked (as_bytes s) = s"
  by (induction s) (simp_all add: as_bytes_def from_utf8_unchecked_def unat_of_nat_of_char)

text \<open>Rust's \<open>str::split\<close> on one character: always at least one part.\<close>

fun split_on :: "char \<Rightarrow> string \<Rightarrow> string list" where
  "split_on c [] = [[]]"
| "split_on c (x # xs) =
     (if x = c then [] # split_on c xs
      else (case split_on c xs of [] \<Rightarrow> [[x]] | p # ps \<Rightarrow> (x # p) # ps))"

text \<open>Rust's \<open>join\<close> with a one-character separator.\<close>

fun join_with :: "char \<Rightarrow> string list \<Rightarrow> string" where
  "join_with c [] = []"
| "join_with c [p] = p"
| "join_with c (p # q # ps) = p @ c # join_with c (q # ps)"

lemma split_on_not_Nil [simp]: "split_on c s \<noteq> []"
  by (induction s) (auto split: list.splits)

lemma split_on_no_sep: "c \<notin> set s \<Longrightarrow> split_on c s = [s]"
  by (induction s) auto

lemma split_on_append:
  "c \<notin> set p \<Longrightarrow> split_on c (p @ c # s) = p # split_on c s"
  by (induction p) auto

lemma split_on_join:
  "ps \<noteq> [] \<Longrightarrow> \<forall>p \<in> set ps. c \<notin> set p \<Longrightarrow> split_on c (join_with c ps) = ps"
  by (induction c ps rule: join_with.induct) (auto simp: split_on_no_sep split_on_append)

lemma split_on_parts_no_sep: "p \<in> set (split_on c s) \<Longrightarrow> c \<notin> set p"
proof (induction s arbitrary: p)
  case (Cons x xs)
  show ?case
  proof (cases "split_on c xs")
    case (Cons q qs)
    with Cons.prems Cons.IH show ?thesis by (auto split: if_splits)
  qed simp
qed simp

lemma join_split_on: "join_with c (split_on c s) = s"
proof (induction s)
  case (Cons x xs)
  obtain p ps where "split_on c xs = p # ps" by (cases "split_on c xs") auto
  with Cons show ?case by (cases ps) auto
qed simp

subsection \<open>Big-endian byte lists\<close>

lemma unat_less_power: "unat (w :: 'a::len word) < 2 ^ LENGTH('a)"
  by (rule unsigned_less)

fun be_bytes :: "nat \<Rightarrow> nat \<Rightarrow> u8 list" where
  "be_bytes 0 x = []"
| "be_bytes (Suc n) x = be_bytes n (x div 256) @ [of_nat (x mod 256)]"

definition be_val :: "u8 list \<Rightarrow> nat" where
  "be_val bs = foldl (\<lambda>a b. a * 256 + unat b) 0 bs"

lemma length_be_bytes [simp]: "length (be_bytes n x) = n"
  by (induction n arbitrary: x) auto

lemma be_val_Nil [simp]: "be_val [] = 0"
  by (simp add: be_val_def)

lemma be_val_snoc [simp]: "be_val (bs @ [b]) = be_val bs * 256 + unat b"
  by (simp add: be_val_def)

lemma be_val_be_bytes: "be_val (be_bytes n x) = x mod 256 ^ n"
proof (induction n arbitrary: x)
  case (Suc n)
  have "be_val (be_bytes (Suc n) x) = (x div 256) mod 256 ^ n * 256 + x mod 256"
    by (simp add: Suc unat_of_nat take_bit_eq_mod)
  also have "\<dots> = x mod 256 ^ Suc n"
    by (simp add: mod_mult2_eq mult.commute)
  finally show ?case .
qed simp

lemma be_val_bound: "be_val bs < 256 ^ length bs"
proof (induction bs rule: rev_induct)
  case (snoc b bs)
  have "unat b < 256" using unat_less_power [of b] by simp
  with snoc have "be_val bs * 256 + unat b < 256 ^ length bs * 256" by linarith
  then show ?case by (simp add: mult.commute)
qed simp

lemma be_bytes_be_val: "be_bytes (length bs) (be_val bs) = bs"
proof (induction bs rule: rev_induct)
  case (snoc b bs)
  have "unat b < 256" using unat_less_power [of b] by simp
  then have "(be_val bs * 256 + unat b) div 256 = be_val bs"
    and "(be_val bs * 256 + unat b) mod 256 = unat b" by simp_all
  with snoc show ?case by simp
qed simp

subsection \<open>The \<open>bytes\<close> and \<open>uuid\<close> crates\<close>

text \<open>
  The sources write and read multi-byte integers through the \<open>Buf\<close> and \<open>BufMut\<close> traits of
  the \<open>bytes\<close> crate and turn UUIDs into bytes with the \<open>uuid\<close> crate. Neither is part of the
  repository, so these operations are a parameter (a record) of every model that uses
  them. A write yields the bytes it appends; a read yields \<open>None\<close> where the crate panics.
\<close>

record buf_ops =
  op_put_u16 :: "u16 \<Rightarrow> u8 list"
  op_put_u32 :: "u32 \<Rightarrow> u8 list"
  op_put_u64 :: "u64 \<Rightarrow> u8 list"
  op_put_u128 :: "u128 \<Rightarrow> u8 list"
  op_get_u16 :: "u8 list \<Rightarrow> (u16 \<times> u8 list) option"
  op_get_u32 :: "u8 list \<Rightarrow> (u32 \<times> u8 list) option"
  op_get_u64 :: "u8 list \<Rightarrow> (u64 \<times> u8 list) option"
  op_get_u128 :: "u8 list \<Rightarrow> (u128 \<times> u8 list) option"
  op_uuid_bytes :: "uuid \<Rightarrow> u8 list"
  op_uuid_from :: "u8 list \<Rightarrow> uuid"

text \<open>
  The documented behaviour: integers are written in big-endian order, a read takes them
  off the front of the buffer and panics when there are too few bytes, and the sixteen
  bytes of a UUID give the same UUID back.
\<close>

definition bytes_documented :: "buf_ops \<Rightarrow> bool" where
  "bytes_documented ops \<longleftrightarrow>
     (\<forall>w. op_put_u16 ops w = be_bytes 2 (unat w)) \<and>
     (\<forall>w. op_put_u32 ops w = be_bytes 4 (unat w)) \<and>
     (\<forall>w. op_put_u64 ops w = be_bytes 8 (unat w)) \<and>
     (\<forall>w. op_put_u128 ops w = be_bytes 16 (unat w)) \<and>
     (\<forall>bs. op_get_u16 ops bs =
        (if length bs < 2 then None else Some (of_nat (be_val (take 2 bs)), drop 2 bs))) \<and>
     (\<forall>bs. op_get_u32 ops bs =
        (if length bs < 4 then None else Some (of_nat (be_val (take 4 bs)), drop 4 bs))) \<and>
     (\<forall>bs. op_get_u64 ops bs =
        (if length bs < 8 then None else Some (of_nat (be_val (take 8 bs)), drop 8 bs))) \<and>
     (\<forall>bs. op_get_u128 ops bs =
        (if length bs < 16 then None else Some (of_nat (be_val (take 16 bs)), drop 16 bs))) \<and>
     (\<forall>u. length (op_uuid_bytes ops u) = 16 \<and> op_uuid_from ops (op_uuid_bytes ops u) = u)"

text \<open>A concrete instance, used wherever a witness needs one.\<close>

definition be_buf_ops :: buf_ops where
  "be_buf_ops = \<lparr>
     op_put_u16 = (\<lambda>w. be_bytes 2 (unat w)),
     op_put_u32 = (\<lambda>w. be_bytes 4 (unat w)),
     op_put_u64 = (\<lambda>w. be_bytes 8 (unat w)),
     op_put_u128 = (\<lambda>w. be_bytes 16 (unat w)),
     op_get_u16 = (\<lambda>bs. if length bs < 2 then None
        else Some (of_nat (be_val (take 2 bs)), drop 2 bs)),
     op_get_u32 = (\<lambda>bs. if length bs < 4 then None
        else Some (of_nat (be_val (take 4 bs)), drop 4 bs)),
     op_get_u64 = (\<lambda>bs. if length bs < 8 then None
        else Some (of_nat (be_val (take 8 bs)), drop 8 bs)),
     op_get_u128 = (\<lambda>bs. if length bs < 16 then None
        else Some (of_nat (be_val (take 16 bs)), drop 16 bs)),
     op_uuid_bytes = (\<lambda>w. be_bytes 16 (unat w)),
     op_uuid_from = (\<lambda>bs. of_nat (be_val bs))\<rparr>"

lemma of_nat_mod_256_power:
  "(of_nat (unat (w :: 'a::len word) mod 256 ^ n) :: 'a word) = w" if "LENGTH('a) = 8 * n"
proof -
  have "(256::nat) ^ n = 2 ^ LENGTH('a)"
    by (simp add: that power_mult)
  then have "unat w mod 256 ^ n = unat w"
    using unat_less_power [of w] by simp
  then show ?thesis by simp
qed

lemmas be_word_inverse =
  of_nat_mod_256_power [where 'a = 16 and n = 2, simplified]
  of_nat_mod_256_power [where 'a = 32 and n = 4, simplified]
  of_nat_mod_256_power [where 'a = 128 and n = 16, simplified]
  of_nat_mod_256_power [where 'a = 64 and n = 8, simplified]

locale bytes_api =
  fixes ops :: buf_ops
  assumes documented: "bytes_documented ops"
begin

lemma put_lengths [simp]:
  "length (op_put_u16 ops w16) = 2" "length (op_put_u32 ops w32) = 4"
  "length (op_put_u64 ops w64) = 8" "length (op_put_u128 ops w128) = 16" "length (op_uuid_bytes ops u) = 16"
  using documented by (simp_all add: bytes_documented_def)

lemma get_put_u16 [simp]: "op_get_u16 ops (op_put_u16 ops w @ rest) = Some (w, rest)"
  using documented be_word_inverse(1)
  by (simp add: bytes_documented_def be_val_be_bytes)

lemma get_put_u32 [simp]: "op_get_u32 ops (op_put_u32 ops w @ rest) = Some (w, rest)"
  using documented be_word_inverse(2)
  by (simp add: bytes_documented_def be_val_be_bytes)

lemma get_put_u64 [simp]: "op_get_u64 ops (op_put_u64 ops w @ rest) = Some (w, rest)"
  using documented be_word_inverse(4)
  by (simp add: bytes_documented_def be_val_be_bytes)

lemma get_put_u128 [simp]: "op_get_u128 ops (op_put_u128 ops w @ rest) = Some (w, rest)"
  using documented be_word_inverse(3)
  by (simp add: bytes_documented_def be_val_be_bytes)

lemma uuid_from_bytes [simp]: "op_uuid_from ops (op_uuid_bytes ops u) = u"
  using documented by (simp add: bytes_documented_def)

lemma get_u16_eq:
  "op_get_u16 ops bs =
     (if length bs < 2 then None else Some (of_nat (be_val (take 2 bs)), drop 2 bs))"
  using documented by (simp add: bytes_documented_def)

lemma get_u32_eq:
  "op_get_u32 ops bs =
     (if length bs < 4 then None else Some (of_nat (be_val (take 4 bs)), drop 4 bs))"
  using documented by (simp add: bytes_documented_def)

lemma get_u128_eq:
  "op_get_u128 ops bs =
     (if length bs < 16 then None else Some (of_nat (be_val (take 16 bs)), drop 16 bs))"
  using documented by (simp add: bytes_documented_def)

end

lemma be_buf_ops_documented [simp]: "bytes_documented be_buf_ops"
  using be_word_inverse(3)
  by (simp add: bytes_documented_def be_buf_ops_def be_val_be_bytes)

interpretation be: bytes_api be_buf_ops
  by unfold_locales simp

end
