(* ===== verification/Lifecycle.thy ===== *)
theory Lifecycle
  imports Kompact_Prelude
begin

section \<open>Component lifecycle and work counting (\<open>core/src/component/lifecycle.rs\<close>)\<close>

text \<open>
  The atomic 64-bit word that holds a component's lifecycle flags (three high bits) and its
  work count (61 low bits), the operations on it and the scheduling decisions. The lemmas show that the word
  implements a pair of flag and counter.
\<close>

subsection \<open>The state word\<close>

datatype control_event = Start | Stop | Kill | Poll uuid

definition ACTIVE :: u64 where "ACTIVE = 0"
definition PASSIVE :: u64 where "PASSIVE = push_bit 61 1"
definition DESTROYED :: u64 where "DESTROYED = push_bit 61 2"
definition FAULTY :: u64 where "FAULTY = push_bit 61 3"
definition BLOCKING :: u64 where "BLOCKING = push_bit 61 4"
definition FLAG_MASK :: u64 where "FLAG_MASK = drop_bit 3 (- 1)"

lemmas flag_defs = ACTIVE_def PASSIVE_def DESTROYED_def FAULTY_def BLOCKING_def

datatype lifecycle_state = Active u64 | Passive u64 | Destroyed | Faulty | Blocking

datatype scheduling_decision = Schedule | AlreadyScheduled | NoWork | Blocked | Resume

definition remove_flags :: "u64 \<Rightarrow> u64" where
  "remove_flags number = number AND FLAG_MASK"

definition remove_count :: "u64 \<Rightarrow> u64" where
  "remove_count number = number AND NOT FLAG_MASK"

definition from_current :: "u64 \<Rightarrow> (lifecycle_state, unit) rresult" where
  "from_current current =
     (let flags = remove_count current in
      if flags = ACTIVE then Ok (Active (remove_flags current))
      else if flags = PASSIVE then Ok (Passive (remove_flags current))
      else if flags = DESTROYED then Ok Destroyed
      else if flags = FAULTY then Ok Faulty
      else if flags = BLOCKING then Ok Blocking
      else Panic)"

fun into_scheduling_decision :: "lifecycle_state \<Rightarrow> scheduling_decision" where
  "into_scheduling_decision (Active work_count) = (if work_count = 0 then Schedule else AlreadyScheduled)"
| "into_scheduling_decision (Passive work_count) = (if work_count = 0 then Schedule else AlreadyScheduled)"
| "into_scheduling_decision Destroyed = NoWork"
| "into_scheduling_decision Faulty = NoWork"
| "into_scheduling_decision Blocking = NoWork"

definition is_valid_add :: "u64 \<Rightarrow> bool" where
  "is_valid_add old = (remove_flags old < FLAG_MASK)"

text \<open>Aborting the process is a panic here; the word it leaves behind does not matter.\<close>

definition increment_work :: "u64 \<Rightarrow> (scheduling_decision \<times> u64, unit) rresult" where
  "increment_work state =
     (let old_state = state; state' = state + 1 in
      if \<not> is_valid_add old_state then Panic
      else rbind (from_current old_state) (\<lambda>s. Ok (into_scheduling_decision s, state')))"

definition decrement_work :: "u64 \<Rightarrow> nat \<Rightarrow> (scheduling_decision \<times> u64, unit) rresult" where
  "decrement_work state work_done =
     (let done_word = of_nat work_done; old_state = state; state' = state - done_word;
          old_count = remove_flags old_state
      in if old_count < done_word then Panic
         else (let new_count = old_count - done_word in
               Ok (if new_count > 0 then Schedule else NoWork, state')))"

definition initial_state :: u64 where
  "initial_state = PASSIVE"

definition set_state :: "u64 \<Rightarrow> u64 \<Rightarrow> u64" where
  "set_state new_state current = new_state OR remove_flags current"

text \<open>
  The compare-and-exchange loop of \<open>set_state\<close> under interference: each iteration sees one
  value when it loads and one when it exchanges. \<open>None\<close> while every exchange failed.
\<close>

fun set_state_loop :: "u64 \<Rightarrow> (u64 \<times> u64) list \<Rightarrow> u64 option" where
  "set_state_loop new_state [] = None"
| "set_state_loop new_state ((loaded, at_exchange) # rest) =
     (if at_exchange = loaded then Some (set_state new_state loaded)
      else set_state_loop new_state rest)"

definition set_active :: "u64 \<Rightarrow> u64" where "set_active = set_state ACTIVE"
definition set_passive :: "u64 \<Rightarrow> u64" where "set_passive = set_state PASSIVE"
definition set_destroyed :: "u64 \<Rightarrow> u64" where "set_destroyed = set_state DESTROYED"
definition set_faulty :: "u64 \<Rightarrow> u64" where "set_faulty = set_state FAULTY"
definition set_blocking :: "u64 \<Rightarrow> u64" where "set_blocking = set_state BLOCKING"

definition is_active :: "u64 \<Rightarrow> bool" where "is_active w \<longleftrightarrow> remove_count w = ACTIVE"
definition is_faulty :: "u64 \<Rightarrow> bool" where "is_faulty w \<longleftrightarrow> remove_count w = FAULTY"
definition is_destroyed :: "u64 \<Rightarrow> bool" where "is_destroyed w \<longleftrightarrow> remove_count w = DESTROYED"
definition is_blocking :: "u64 \<Rightarrow> bool" where "is_blocking w \<longleftrightarrow> remove_count w = BLOCKING"

definition get_scheduling_decision :: "u64 \<Rightarrow> (scheduling_decision, unit) rresult" where
  "get_scheduling_decision w = rbind (from_current w) (\<lambda>s. Ok (into_scheduling_decision s))"

fun or_use :: "scheduling_decision \<Rightarrow> scheduling_decision \<Rightarrow> scheduling_decision" where
  "or_use NoWork other =
     (case other of Schedule \<Rightarrow> Resume | Resume \<Rightarrow> Resume | AlreadyScheduled \<Rightarrow> Resume | x \<Rightarrow> x)"
| "or_use d other = d"

definition or_from ::
    "scheduling_decision \<Rightarrow> (unit \<Rightarrow> (scheduling_decision, 'e) rresult) \<Rightarrow> (scheduling_decision, 'e) rresult" where
  "or_from d other =
     (case d of
        NoWork \<Rightarrow> rbind (other ()) (\<lambda>x. Ok (case x of Schedule \<Rightarrow> Resume | Resume \<Rightarrow> Resume
          | AlreadyScheduled \<Rightarrow> Resume | y \<Rightarrow> y))
      | _ \<Rightarrow> Ok d)"

subsection \<open>Flag and counter\<close>

definition work_count :: "u64 \<Rightarrow> nat" where
  "work_count w = unat w mod 2 ^ 61"

definition flag_code :: "u64 \<Rightarrow> nat" where
  "flag_code w = unat w div 2 ^ 61"

lemma unat_split: "unat w = flag_code w * 2 ^ 61 + work_count w"
  by (simp add: flag_code_def work_count_def)

lemma work_count_less: "work_count w < 2 ^ 61"
  by (simp add: work_count_def)

lemma FLAG_MASK_eq: "FLAG_MASK = mask 61"
  by (simp add: FLAG_MASK_def mask_eq_exp_minus_1 drop_bit_eq_div)

lemma unat_remove_flags: "unat (remove_flags w) = work_count w"
proof -
  have "remove_flags w = take_bit 61 w"
    by (simp add: remove_flags_def FLAG_MASK_eq take_bit_eq_mask)
  then have "unat (remove_flags w) = take_bit 61 (unat w)" by (simp only: unsigned_take_bit_eq)
  then show ?thesis by (simp add: work_count_def take_bit_eq_mod)
qed

lemma unat_remove_count: "unat (remove_count w) = flag_code w * 2 ^ 61"
proof -
  have "remove_count w = push_bit 61 (drop_bit 61 w)"
    by (rule bit_eqI) (auto simp: remove_count_def FLAG_MASK_eq bit_simps)
  then have "unat (remove_count w) = take_bit 64 (push_bit 61 (drop_bit 61 (unat w)))"
    using take_bit_nat_eq_self [of "unat w" 64] unat_less_power [of w]
    by (simp only: unsigned_push_bit_eq unsigned_drop_bit_eq) simp
  also have "\<dots> = (unat w div 2 ^ 61 * 2 ^ 61) mod 2 ^ 64"
    by (simp add: push_bit_eq_mult drop_bit_eq_div take_bit_eq_mod)
  also have "\<dots> = unat w div 2 ^ 61 * 2 ^ 61"
    using unat_less_power [of w] div_times_less_eq_dividend [of "unat w" "2 ^ 61"] by (simp del: div_mult_self_is_m)
  finally show ?thesis by (simp add: flag_code_def)
qed

lemma remove_count_eq_iff: "remove_count w = f \<longleftrightarrow> flag_code w * 2 ^ 61 = unat f"
  by (metis unat_remove_count word_unat_eq_iff)

lemma flag_codes [simp]:
  "unat ACTIVE = 0" "unat PASSIVE = 2 ^ 61" "unat DESTROYED = 2 * 2 ^ 61"
  "unat FAULTY = 3 * 2 ^ 61" "unat BLOCKING = 4 * 2 ^ 61"
  by (simp_all add: flag_defs)

lemma unat_FLAG_MASK: "unat FLAG_MASK = 2 ^ 61 - 1"
  by (simp add: FLAG_MASK_def drop_bit_eq_div unat_div)

lemma from_current_eq:
  "from_current w =
     (if flag_code w = 0 then Ok (Active (remove_flags w))
      else if flag_code w = 1 then Ok (Passive (remove_flags w))
      else if flag_code w = 2 then Ok Destroyed
      else if flag_code w = 3 then Ok Faulty
      else if flag_code w = 4 then Ok Blocking else Panic)"
  by (simp add: from_current_def Let_def remove_count_eq_iff)

lemma is_flag_iff:
  "is_active w \<longleftrightarrow> flag_code w = 0" "is_destroyed w \<longleftrightarrow> flag_code w = 2"
  "is_faulty w \<longleftrightarrow> flag_code w = 3" "is_blocking w \<longleftrightarrow> flag_code w = 4"
  by (simp_all add: is_active_def is_destroyed_def is_faulty_def is_blocking_def remove_count_eq_iff)

lemma remove_flags_zero: "remove_flags w = 0 \<longleftrightarrow> work_count w = 0"
  by (metis unat_remove_flags unat_0 word_unat_eq_iff)

lemma flag_code_less: "flag_code w < 8"
  using unat_less_power [of w] by (simp add: flag_code_def less_mult_imp_div_less)

lemma split_unique:
  assumes "unat w = f * 2 ^ 61 + c" "c < 2 ^ 61"
  shows "flag_code w = f \<and> work_count w = c"
  using assms by (simp add: flag_code_def work_count_def)

lemma add_one_split:
  assumes "work_count w + 1 < 2 ^ 61"
  shows "flag_code (w + 1) = flag_code w \<and> work_count (w + 1) = work_count w + 1"
proof -
  have "unat w + 1 < 2 ^ 64"
    using unat_split [of w] flag_code_less [of w] assms by simp
  then have "unat (w + 1) = flag_code w * 2 ^ 61 + (work_count w + 1)"
    using unat_split [of w] by (simp add: unat_word_ariths)
  then show ?thesis by (rule split_unique) (use assms in simp)
qed

lemma minus_split:
  assumes "n \<le> work_count w"
  shows "flag_code (w - of_nat n) = flag_code w \<and> work_count (w - of_nat n) = work_count w - n"
proof -
  have n: "n < 2 ^ 61" using assms work_count_less [of w] by simp
  then have on: "unat (of_nat n :: u64) = n" by (simp add: unat_of_nat take_bit_eq_mod)
  have "(of_nat n :: u64) \<le> w"
    using assms unat_split [of w] by (simp add: word_le_nat_alt on)
  then have "unat (w - of_nat n) = unat w - n" by (simp add: unat_sub on)
  also have "\<dots> = flag_code w * 2 ^ 61 + (work_count w - n)"
    using unat_split [of w] assms by simp
  finally show ?thesis by (rule split_unique) (use work_count_less [of w] in simp)
qed

lemma set_state_split:
  assumes "unat f = c * 2 ^ 61"
  shows "flag_code (set_state f w) = c \<and> work_count (set_state f w) = work_count w"
proof -
  have fb: "f = push_bit 61 (of_nat c)"
  proof -
    have "f = of_nat (unat f)" by simp
    also have "\<dots> = of_nat c * 2 ^ 61" by (simp add: assms)
    finally show ?thesis by (simp add: push_bit_eq_mult)
  qed
  have rf: "remove_flags w = take_bit 61 w"
    by (simp add: remove_flags_def FLAG_MASK_eq take_bit_eq_mask)
  have "f AND remove_flags w = 0"
    unfolding fb rf by (rule bit_eqI) (auto simp: bit_simps)
  then have "set_state f w = f + remove_flags w"
    using word_plus_and_or [of f "remove_flags w"] by (simp add: set_state_def)
  moreover have "unat f + work_count w < 2 ^ 64"
    using unat_less_power [of f] work_count_less [of w] assms by simp
  ultimately have "unat (set_state f w) = c * 2 ^ 61 + work_count w"
    by (simp add: unat_word_ariths unat_remove_flags assms)
  then show ?thesis by (rule split_unique) (rule work_count_less)
qed

lemmas set_flag_split =
  set_state_split [of ACTIVE 0, simplified] set_state_split [of PASSIVE 1, simplified]
  set_state_split [of DESTROYED 2, simplified] set_state_split [of FAULTY 3, simplified]
  set_state_split [of BLOCKING 4, simplified]

lemma increment_work_eq:
  assumes "flag_code w \<le> 4" and "work_count w + 1 < 2 ^ 61"
  shows "increment_work w = Ok (if flag_code w \<le> 1 then (if work_count w = 0 then Schedule else AlreadyScheduled)
    else NoWork, w + 1)"
proof -
  have "is_valid_add w"
    using assms(2) by (simp add: is_valid_add_def word_less_nat_alt unat_remove_flags unat_FLAG_MASK)
  then show ?thesis
    using assms(1)
    by (auto simp: increment_work_def from_current_eq remove_flags_zero Let_def)
qed

lemma increment_work_full:
  "work_count w + 1 \<ge> 2 ^ 61 \<Longrightarrow> increment_work w = Panic"
  by (simp add: increment_work_def is_valid_add_def word_less_nat_alt unat_remove_flags unat_FLAG_MASK)

lemma decrement_work_eq:
  assumes "n < 2 ^ 64"
  shows "decrement_work w n =
    (if n \<le> work_count w then Ok (if n < work_count w then Schedule else NoWork, w - of_nat n) else Panic)"
proof -
  have on: "unat (of_nat n :: u64) = n" using assms by (simp add: unat_of_nat take_bit_eq_mod)
  have lt: "remove_flags w < of_nat n \<longleftrightarrow> work_count w < n"
    by (simp add: word_less_nat_alt unat_remove_flags on)
  have "remove_flags w - of_nat n > 0 \<longleftrightarrow> n < work_count w" if "n \<le> work_count w"
  proof -
    have "(of_nat n :: u64) \<le> remove_flags w"
      using that by (simp add: word_le_nat_alt unat_remove_flags on)
    then have "unat (remove_flags w - of_nat n) = work_count w - n"
      by (simp add: unat_sub unat_remove_flags on)
    then show ?thesis by (auto simp: word_less_nat_alt)
  qed
  then show ?thesis by (auto simp: decrement_work_def Let_def lt)
qed

lemma set_state_loop_Some:
  "set_state_loop f tries = Some w' \<Longrightarrow> \<exists>cur. (cur, cur) \<in> set tries \<and> w' = set_state f cur"
  by (induction f tries rule: set_state_loop.induct) (auto split: if_splits)

text \<open>
  C32: the state word implements a pair of a lifecycle flag and a work count. Incrementing adds
  one to the count and leaves the flag, schedules exactly on the first item of an active or
  passive component, and aborts exactly when the count is exhausted; decrementing subtracts
  the work done and leaves the flag, asks for another round exactly when work remains, and
  aborts exactly when more work was done than counted; setting a state changes the flag and
  keeps the count, also when the exchange loop is retried.
\<close>

theorem state_word_refines_pair:
  assumes "flag_code w \<le> 4"
  shows "(if work_count w + 1 < 2 ^ 61
      then \<exists>w'. increment_work w =
          Ok (if flag_code w \<le> 1 then (if work_count w = 0 then Schedule else AlreadyScheduled) else NoWork, w') \<and>
        flag_code w' = flag_code w \<and> work_count w' = work_count w + 1
      else increment_work w = Panic) \<and>
    (n < 2 ^ 64 \<longrightarrow> (if n \<le> work_count w
      then \<exists>w'. decrement_work w n = Ok (if n < work_count w then Schedule else NoWork, w') \<and>
        flag_code w' = flag_code w \<and> work_count w' = work_count w - n
      else decrement_work w n = Panic)) \<and>
    flag_code (set_active w) = 0 \<and> flag_code (set_passive w) = 1 \<and> flag_code (set_destroyed w) = 2 \<and>
    flag_code (set_faulty w) = 3 \<and> flag_code (set_blocking w) = 4 \<and>
    (\<forall>f \<in> {set_active, set_passive, set_destroyed, set_faulty, set_blocking}. work_count (f w) = work_count w) \<and>
    (\<forall>f c tries w'. unat f = c * 2 ^ 61 \<and> set_state_loop f tries = Some w' \<longrightarrow>
       (\<exists>cur. (cur, cur) \<in> set tries \<and> flag_code w' = c \<and> work_count w' = work_count cur))"
proof -
  have "\<exists>cur. (cur, cur) \<in> set tries \<and> flag_code w' = c \<and> work_count w' = work_count cur"
    if "unat f = c * 2 ^ 61" "set_state_loop f tries = Some w'" for f c tries w'
    using set_state_loop_Some [OF that(2)] set_state_split [OF that(1)] by blast
  then show ?thesis
    using increment_work_eq [OF assms] increment_work_full [of w] add_one_split [of w]
      decrement_work_eq [of n w] minus_split [of n w] set_flag_split [of w]
    by (auto simp: set_active_def set_passive_def set_destroyed_def set_faulty_def set_blocking_def)
qed

theorem state_word_refines_pair_witness:
  "\<exists>w'. increment_work initial_state = Ok (Schedule, w') \<and> flag_code w' = 1 \<and> work_count w' = 1"
proof -
  have f: "flag_code initial_state = 1" "work_count initial_state = 0"
    by (simp_all add: flag_code_def work_count_def initial_state_def)
  then have "flag_code initial_state \<le> 4" by simp
  from state_word_refines_pair [OF this, of 0] f show ?thesis by auto
qed

lemma initial_state_view: "flag_code initial_state = 1" "work_count initial_state = 0"
  by (simp_all add: flag_code_def work_count_def initial_state_def)

lemma decrement_Ok_valid:
  assumes "decrement_work w k = Ok (d, w')" "k \<le> work_count w"
  shows "work_count w' = work_count w - k \<and> flag_code w' = flag_code w \<and> d = (if k < work_count w then Schedule else NoWork)"
proof -
  have "k < 2 ^ 64" using assms(2) work_count_less [of w] by simp
  from decrement_work_eq [OF this, of w] assms minus_split [OF assms(2)] show ?thesis by auto
qed

end
