(* ===== verification/Scheduling.thy ===== *)
theory Scheduling
  imports Lifecycle
begin

section \<open>Scheduling a component\<close>

text \<open>
  How producers, workers, wakers of futures and the scheduler share the state word of a component
  (\<open>core/src/component/actual_component.rs\<close>, \<open>context.rs\<close>, \<open>future_task.rs\<close>, \<open>core/src/runtime/scheduler.rs\<close>). Every access to shared
  state is a step of its own, so that any number of threads may interleave. What handlers do is left open: a handler
  may end well, block on a future, fail, or panic, and the worker may stop for its limits at any time. The lemmas show
  that queued work of a component that can run is never left without somebody who will run it.
\<close>

subsection \<open>The shared state\<close>

text \<open>
  Where the worker is that holds the lock of the component: between control events, in the handler of one, between other events, in the handler of
  one, at the first poll of a blocking future, at a later one, and before it reads the decision or subtracts its work.
\<close>

datatype worker_phase =
  Controls | InControl control_event | Working | InWork | Polling | Finishing | Repolling | Resuming

text \<open>
  Producers that have incremented the count but not pushed (\<open>announced\<close>, and \<open>to_push\<close> when they are to schedule), producers about to schedule, both kinds of queues,
  executions handed to the scheduler, workers that have checked the state and wait for the lock, the worker that holds
  it with its count, workers that have left and are to schedule or resume the component, and workers that are unwinding. \<open>unaccounted\<close> counts the items that
  were taken but never subtracted.
\<close>

record sched_state =
  sw :: u64
  announced :: nat
  to_push :: nat
  to_schedule :: nat
  controls :: "control_event list"
  items :: nat
  tokens :: nat
  waiting_workers :: nat
  worker :: "(worker_phase \<times> nat) option"
  leaving :: nat
  unwinding :: nat
  lock_poisoned :: bool
  future_stored :: bool
  ever_blocked :: bool
  unaccounted :: nat

definition sched_init :: "u64 \<Rightarrow> sched_state" where
  "sched_init w =
     \<lparr>sw = w, announced = 0, to_push = 0, to_schedule = 0, controls = [], items = 0, tokens = 0, waiting_workers = 0, worker = None,
      leaving = 0, unwinding = 0, lock_poisoned = False, future_stored = False, ever_blocked = False, unaccounted = 0\<rparr>"

subsection \<open>Steps\<close>

text \<open>Enqueuing a control event, a message, a timeout or a port event: increment, push, schedule.\<close>

inductive producer_step :: "sched_state \<Rightarrow> sched_state \<Rightarrow> bool" where
  increment_schedule:
    "increment_work (sw s) = Ok (Schedule, w) \<Longrightarrow> producer_step s (s\<lparr>sw := w, to_push := to_push s + 1\<rparr>)"
| increment_other:
    "increment_work (sw s) = Ok (d, w) \<Longrightarrow> d \<noteq> Schedule \<Longrightarrow> producer_step s (s\<lparr>sw := w, announced := announced s + 1\<rparr>)"
| push_control: "announced s = Suc n \<Longrightarrow> producer_step s (s\<lparr>announced := n, controls := controls s @ [e]\<rparr>)"
| push_item: "announced s = Suc n \<Longrightarrow> producer_step s (s\<lparr>announced := n, items := items s + 1\<rparr>)"
| push_control_schedule:
    "to_push s = Suc n \<Longrightarrow> producer_step s (s\<lparr>to_push := n, controls := controls s @ [e], to_schedule := to_schedule s + 1\<rparr>)"
| push_item_schedule:
    "to_push s = Suc n \<Longrightarrow> producer_step s (s\<lparr>to_push := n, items := items s + 1, to_schedule := to_schedule s + 1\<rparr>)"
| call_schedule: "to_schedule s = Suc n \<Longrightarrow> producer_step s (s\<lparr>to_schedule := n, tokens := tokens s + 1\<rparr>)"

text \<open>The waker of a blocking future schedules the component, whatever its state.\<close>

inductive wake_step :: "sched_state \<Rightarrow> sched_state \<Rightarrow> bool" where
  wake: "ever_blocked s \<Longrightarrow> wake_step s (s\<lparr>tokens := tokens s + 1\<rparr>)"

text \<open>
  The beginning and the end of \<open>execute\<close>, and what the scheduler does with the decision: the state is checked before
  the lock is taken; a worker that finds the lock poisoned panics, and a worker that panicked marks the component faulty.
\<close>

inductive execute_step :: "sched_state \<Rightarrow> sched_state \<Rightarrow> bool" where
  check_alive:
    "tokens s = Suc n \<Longrightarrow> from_current (sw s) = Ok ls \<Longrightarrow> ls \<noteq> Destroyed \<Longrightarrow> ls \<noteq> Faulty \<Longrightarrow>
     execute_step s (s\<lparr>tokens := n, waiting_workers := waiting_workers s + 1\<rparr>)"
| check_ended:
    "tokens s = Suc n \<Longrightarrow> from_current (sw s) = Ok ls \<Longrightarrow> ls = Destroyed \<or> ls = Faulty \<Longrightarrow> execute_step s (s\<lparr>tokens := n\<rparr>)"
| lock:
    "waiting_workers s = Suc n \<Longrightarrow> worker s = None \<Longrightarrow> \<not> lock_poisoned s \<Longrightarrow>
     execute_step s (s\<lparr>waiting_workers := n, worker := Some (if future_stored s then Repolling else Controls, 0)\<rparr>)"
| lock_is_poisoned:
    "waiting_workers s = Suc n \<Longrightarrow> worker s = None \<Longrightarrow> lock_poisoned s \<Longrightarrow>
     execute_step s (s\<lparr>waiting_workers := n, unwinding := unwinding s + 1\<rparr>)"
| panics:
    "worker s = Some (ph, k) \<Longrightarrow>
     execute_step s (s\<lparr>worker := None, unwinding := unwinding s + 1, lock_poisoned := True, future_stored := False,
       unaccounted := unaccounted s + k\<rparr>)"
| mark_faulty: "unwinding s = Suc n \<Longrightarrow> execute_step s (s\<lparr>unwinding := n, sw := set_faulty (sw s)\<rparr>)"
| reschedule: "leaving s = Suc n \<Longrightarrow> execute_step s (s\<lparr>leaving := n, tokens := tokens s + 1\<rparr>)"

fun event_flag :: "control_event \<Rightarrow> u64 \<Rightarrow> u64" where
  "event_flag Start w = set_active w"
| "event_flag Stop w = set_passive w"
| "event_flag Kill w = set_destroyed w"
| "event_flag (Poll _) w = w"

fun event_done_flag :: "control_event \<Rightarrow> u64 \<Rightarrow> u64" where
  "event_done_flag Stop w = set_passive w"
| "event_done_flag Kill w = set_destroyed w"
| "event_done_flag _ w = w"

fun in_handler :: "worker_phase \<Rightarrow> bool" where
  "in_handler (InControl _) = True" | "in_handler InWork = True" | "in_handler _ = False"

text \<open>
  What the worker that holds the lock does. A cancelled timeout is taken without being counted; an inactive component handles control
  events only; a component that fails leaves its count as it is.
\<close>

inductive worker_step :: "sched_state \<Rightarrow> sched_state \<Rightarrow> bool" where
  take_control:
    "worker s = Some (Controls, k) \<Longrightarrow> controls s = e # es \<Longrightarrow>
     worker_step s (s\<lparr>controls := es, sw := event_flag e (sw s), worker := Some (InControl e, k + 1)\<rparr>)"
| control_done:
    "worker s = Some (InControl e, k) \<Longrightarrow> worker_step s (s\<lparr>sw := event_done_flag e (sw s), worker := Some (Controls, k)\<rparr>)"
| controls_done_active:
    "worker s = Some (Controls, k) \<Longrightarrow> controls s = [] \<Longrightarrow> is_active (sw s) \<Longrightarrow> worker_step s (s\<lparr>worker := Some (Working, k)\<rparr>)"
| controls_done_inactive:
    "worker s = Some (Controls, k) \<Longrightarrow> controls s = [] \<Longrightarrow> \<not> is_active (sw s) \<Longrightarrow> worker_step s (s\<lparr>worker := Some (Finishing, k)\<rparr>)"
| take_item:
    "worker s = Some (Working, k) \<Longrightarrow> items s = Suc n \<Longrightarrow> worker_step s (s\<lparr>items := n, worker := Some (InWork, k + 1)\<rparr>)"
| take_cancelled_timeout:
    "worker s = Some (Working, k) \<Longrightarrow> items s = Suc n \<Longrightarrow> worker_step s (s\<lparr>items := n, unaccounted := unaccounted s + 1\<rparr>)"
| item_done: "worker s = Some (InWork, k) \<Longrightarrow> worker_step s (s\<lparr>worker := Some (Working, k)\<rparr>)"
| stop_working: "worker s = Some (Working, k) \<Longrightarrow> worker_step s (s\<lparr>worker := Some (Finishing, k)\<rparr>)"
| fail:
    "worker s = Some (ph, k) \<Longrightarrow> in_handler ph \<Longrightarrow> f \<in> {set_destroyed, set_faulty} \<Longrightarrow>
     worker_step s (s\<lparr>sw := f (sw s), worker := None, unaccounted := unaccounted s + k\<rparr>)"
| block:
    "worker s = Some (ph, k) \<Longrightarrow> in_handler ph \<Longrightarrow>
     worker_step s (s\<lparr>sw := set_blocking (sw s), worker := Some (Polling, k), future_stored := True, ever_blocked := True\<rparr>)"
| poll_pending:
    "worker s = Some (Polling, k) \<Longrightarrow> decrement_work (sw s) k = Ok (d, w) \<Longrightarrow> worker_step s (s\<lparr>sw := w, worker := None\<rparr>)"
| poll_ready:
    "worker s = Some (Polling, k) \<Longrightarrow> f \<in> {set_active, set_passive, set_destroyed} \<Longrightarrow>
     worker_step s (s\<lparr>sw := f (sw s), worker := Some (Finishing, k), future_stored := False\<rparr>)"
| poll_failed:
    "worker s = Some (Polling, k) \<Longrightarrow> decrement_work (sw s) k = Ok (d, w) \<Longrightarrow> f \<in> {set_destroyed, set_faulty} \<Longrightarrow>
     worker_step s (s\<lparr>sw := f w, worker := None, future_stored := False\<rparr>)"
| repoll_pending: "worker s = Some (Repolling, k) \<Longrightarrow> worker_step s (s\<lparr>worker := None\<rparr>)"
| repoll_ready:
    "worker s = Some (Repolling, k) \<Longrightarrow> f \<in> {set_active, set_passive, set_destroyed} \<Longrightarrow>
     worker_step s (s\<lparr>sw := f (sw s), worker := Some (Resuming, k), future_stored := False\<rparr>)"
| repoll_failed:
    "worker s = Some (Repolling, k) \<Longrightarrow> f \<in> {set_destroyed, set_faulty} \<Longrightarrow>
     worker_step s (s\<lparr>sw := f (sw s), worker := None, future_stored := False\<rparr>)"
| resume:
    "worker s = Some (Resuming, k) \<Longrightarrow> or_from NoWork (\<lambda>_. get_scheduling_decision (sw s)) = Ok Resume \<Longrightarrow>
     worker_step s (s\<lparr>worker := None, leaving := leaving s + 1\<rparr>)"
| do_not_resume:
    "worker s = Some (Resuming, k) \<Longrightarrow> or_from NoWork (\<lambda>_. get_scheduling_decision (sw s)) = Ok d \<Longrightarrow> d \<noteq> Resume \<Longrightarrow>
     worker_step s (s\<lparr>worker := None\<rparr>)"
| finish_again:
    "worker s = Some (Finishing, k) \<Longrightarrow> decrement_work (sw s) k = Ok (Schedule, w) \<Longrightarrow>
     worker_step s (s\<lparr>sw := w, worker := None, leaving := leaving s + 1\<rparr>)"
| finish_idle:
    "worker s = Some (Finishing, k) \<Longrightarrow> decrement_work (sw s) k = Ok (d, w) \<Longrightarrow> d \<noteq> Schedule \<Longrightarrow>
     worker_step s (s\<lparr>sw := w, worker := None\<rparr>)"

inductive sched_reach :: "sched_state \<Rightarrow> sched_state \<Rightarrow> bool" for s0 where
  start: "sched_reach s0 s0"
| produce: "sched_reach s0 s \<Longrightarrow> producer_step s s' \<Longrightarrow> sched_reach s0 s'"
| waken: "sched_reach s0 s \<Longrightarrow> wake_step s s' \<Longrightarrow> sched_reach s0 s'"
| execute: "sched_reach s0 s \<Longrightarrow> execute_step s s' \<Longrightarrow> sched_reach s0 s'"
| work: "sched_reach s0 s \<Longrightarrow> worker_step s s' \<Longrightarrow> sched_reach s0 s'"

subsection \<open>The invariant\<close>

definition taken :: "sched_state \<Rightarrow> nat" where
  "taken s = (case worker s of Some (_, k) \<Rightarrow> k | None \<Rightarrow> 0)"

text \<open>Those who are going to run the component, or to mark it as faulty.\<close>

definition claims :: "sched_state \<Rightarrow> nat" where
  "claims s = to_push s + to_schedule s + tokens s + waiting_workers s + leaving s + unwinding s + (if worker s = None then 0 else 1)"

definition accounted :: "sched_state \<Rightarrow> bool" where
  "accounted s \<longleftrightarrow> flag_code (sw s) \<le> 4 \<and>
     work_count (sw s) = announced s + to_push s + length (controls s) + items s + taken s + unaccounted s"

text \<open>How the stored future, the flag and the phase of the worker belong together.\<close>

fun polls :: "worker_phase \<Rightarrow> bool" where
  "polls Polling = True" | "polls Repolling = True" | "polls _ = False"

definition blocking_ok :: "sched_state \<Rightarrow> bool" where
  "blocking_ok s \<longleftrightarrow>
     (future_stored s \<longrightarrow> flag_code (sw s) = 4 \<and> ever_blocked s \<and> \<not> lock_poisoned s) \<and>
     (case worker s of Some (ph, k) \<Rightarrow> (ph = Repolling \<or> ph = Resuming \<longrightarrow> k = 0) \<and> (polls ph \<longleftrightarrow> future_stored s) \<and> \<not> lock_poisoned s \<and>
          (\<not> polls ph \<longrightarrow> flag_code (sw s) \<noteq> 4) \<and> (ph = Resuming \<longrightarrow> ever_blocked s)
        | None \<Rightarrow> flag_code (sw s) = 4 \<longrightarrow> future_stored s \<or> unwinding s > 0) \<and>
     (unwinding s > 0 \<longrightarrow> lock_poisoned s)"

definition claimed :: "sched_state \<Rightarrow> bool" where
  "claimed s \<longleftrightarrow> (flag_code (sw s) \<le> 1 \<and> work_count (sw s) > 0 \<longrightarrow> claims s > 0) \<and>
     (\<not> ever_blocked s \<longrightarrow> claims s \<le> 1 \<and> (claims s = 1 \<longrightarrow> work_count (sw s) > 0))"

definition sched_inv :: "sched_state \<Rightarrow> bool" where
  "sched_inv s \<longleftrightarrow> accounted s \<and> blocking_ok s \<and> claimed s"

lemmas sched_inv_defs = sched_inv_def accounted_def blocking_ok_def claimed_def claims_def taken_def

lemma increment_Ok:
  assumes "increment_work w = Ok (d, w')" "flag_code w \<le> 4"
  shows "work_count w' = work_count w + 1 \<and> flag_code w' = flag_code w \<and>
    d = (if flag_code w \<le> 1 then (if work_count w = 0 then Schedule else AlreadyScheduled) else NoWork)"
  using assms increment_work_eq [of w] increment_work_full [of w] add_one_split [of w]
  by (cases "work_count w + 1 < 2 ^ 61") auto

lemma set_flags [simp]:
  "flag_code (set_active w) = 0" "flag_code (set_passive w) = 1" "flag_code (set_destroyed w) = 2" "flag_code (set_faulty w) = 3"
  "flag_code (set_blocking w) = 4" "work_count (set_active w) = work_count w" "work_count (set_passive w) = work_count w"
  "work_count (set_destroyed w) = work_count w" "work_count (set_faulty w) = work_count w" "work_count (set_blocking w) = work_count w"
  using set_flag_split [of w] by (simp_all add: set_active_def set_passive_def set_destroyed_def set_faulty_def set_blocking_def)

lemma event_flags [simp]:
  "work_count (event_flag e w) = work_count w" "work_count (event_done_flag e w) = work_count w"
  "flag_code (event_flag e w) = (case e of Start \<Rightarrow> 0 | Stop \<Rightarrow> 1 | Kill \<Rightarrow> 2 | Poll _ \<Rightarrow> flag_code w)"
  "flag_code (event_done_flag e w) = (case e of Stop \<Rightarrow> 1 | Kill \<Rightarrow> 2 | _ \<Rightarrow> flag_code w)"
  by (cases e; simp)+

lemma resume_decision:
  assumes "flag_code w \<le> 4"
  shows "or_from NoWork (\<lambda>_. get_scheduling_decision w) = Ok (if flag_code w \<le> 1 then Resume else NoWork)"
  using assms by (auto simp: or_from_def get_scheduling_decision_def from_current_eq remove_flags_zero)

lemma producer_step_inv: "producer_step s s' \<Longrightarrow> sched_inv s \<Longrightarrow> sched_inv s'"
proof (induction rule: producer_step.induct)
  case (increment_schedule s w)
  then show ?case using increment_Ok [of "sw s" Schedule w] by (auto simp: sched_inv_defs split: if_splits option.splits)
next
  case (increment_other s d w)
  then show ?case using increment_Ok [of "sw s" d w] by (auto simp: sched_inv_defs split: if_splits option.splits)
qed (auto simp: sched_inv_defs split: option.splits)

lemma execute_step_inv: "execute_step s s' \<Longrightarrow> sched_inv s \<Longrightarrow> sched_inv s'"
  by (induction rule: execute_step.induct) (auto simp: sched_inv_defs from_current_eq split: option.splits if_splits)

lemma wake_step_inv: "wake_step s s' \<Longrightarrow> sched_inv s \<Longrightarrow> sched_inv s'"
  by (induction rule: wake_step.induct) (auto simp: sched_inv_defs split: option.splits)

lemma taken_le: "accounted s \<Longrightarrow> worker s = Some (ph, k) \<Longrightarrow> k \<le> work_count (sw s)"
  by (simp add: accounted_def taken_def)

lemma worker_step_inv: "worker_step s s' \<Longrightarrow> sched_inv s \<Longrightarrow> sched_inv s'"
proof (induction rule: worker_step.induct)
  case (take_control s k e es)
  then show ?case by (cases e) (auto simp: sched_inv_defs)
next
  case (control_done s e k)
  then show ?case by (cases e) (auto simp: sched_inv_defs)
next
  case (fail s ph k f)
  then show ?case by (cases ph) (auto simp: sched_inv_defs)
next
  case (block s ph k)
  then show ?case by (cases ph) (auto simp: sched_inv_defs)
next
  case (poll_pending s k d w)
  then have "k \<le> work_count (sw s)" using taken_le by (simp add: sched_inv_def)
  from decrement_Ok_valid [OF poll_pending(2) this] poll_pending show ?case by (auto simp: sched_inv_defs)
next
  case (poll_failed s k d w f)
  then have "k \<le> work_count (sw s)" using taken_le by (simp add: sched_inv_def)
  from decrement_Ok_valid [OF poll_failed(2) this] poll_failed show ?case by (auto simp: sched_inv_defs)
next
  case (resume s k)
  then have "accounted s" by (simp add: sched_inv_def)
  from resume_decision [of "sw s"] this resume show ?case by (auto simp: sched_inv_defs split: if_splits)
next
  case (do_not_resume s k d)
  then have "accounted s" by (simp add: sched_inv_def)
  from resume_decision [of "sw s"] this do_not_resume show ?case by (auto simp: sched_inv_defs split: if_splits)
next
  case (finish_again s k w)
  then have "k \<le> work_count (sw s)" using taken_le by (simp add: sched_inv_def)
  from decrement_Ok_valid [OF finish_again(2) this] finish_again show ?case by (auto simp: sched_inv_defs split: if_splits)
next
  case (finish_idle s k d w)
  then have "k \<le> work_count (sw s)" using taken_le by (simp add: sched_inv_def)
  from decrement_Ok_valid [OF finish_idle(2) this] finish_idle show ?case by (auto simp: sched_inv_defs split: if_splits)
qed (auto simp: sched_inv_defs is_flag_iff)

lemma sched_inv_reach: "sched_reach s0 s \<Longrightarrow> sched_inv s0 \<Longrightarrow> sched_inv s"
  by (induction rule: sched_reach.induct) (auto intro: producer_step_inv wake_step_inv execute_step_inv worker_step_inv)

lemma sched_inv_init: "flag_code w \<le> 1 \<Longrightarrow> work_count w = 0 \<Longrightarrow> sched_inv (sched_init w)"
  by (simp add: sched_inv_defs sched_init_def)

text \<open>
  C3: However producers, workers, wakers and the scheduler interleave, starting from a component without work: while an active or passive
  component has work announced or queued, somebody is going to schedule it, has scheduled it, or is executing it; a blocked component that
  nobody executes still has its future, or is about to be marked faulty; as long as no handler has blocked, the component is
  never scheduled twice or executed by two workers; and a worker never subtracts more than was counted, which would abort the
  process. The count is the work announced, queued and taken, plus what was taken and never subtracted: cancelled
  timeouts and what a failing execution had handled.
\<close>

theorem no_lost_wakeup:
  assumes "flag_code w \<le> 1" and "work_count w = 0" and "sched_reach (sched_init w) s"
  shows "work_count (sw s) = announced s + to_push s + length (controls s) + items s + taken s + unaccounted s \<and>
    (flag_code (sw s) \<le> 1 \<and> (announced s > 0 \<or> controls s \<noteq> [] \<or> items s > 0) \<longrightarrow> claims s > 0) \<and>
    (is_blocking (sw s) \<and> worker s = None \<longrightarrow> future_stored s \<or> unwinding s > 0) \<and>
    (\<not> ever_blocked s \<longrightarrow> claims s \<le> 1) \<and>
    (\<forall>ph k. worker s = Some (ph, k) \<longrightarrow> decrement_work (sw s) k \<noteq> Panic)"
proof -
  have inv: "sched_inv s" by (rule sched_inv_reach [OF assms(3) sched_inv_init [OF assms(1,2)]])
  then have acc: "accounted s" by (simp add: sched_inv_def)
  have "decrement_work (sw s) k \<noteq> Panic" if "worker s = Some (ph, k)" for ph k
    using decrement_work_eq [of k "sw s"] taken_le [OF acc that] work_count_less [of "sw s"] by simp
  then show ?thesis using inv by (auto simp: sched_inv_defs is_flag_iff)
qed

text \<open>A component that is started while a message is sent to it, up to the point where its start handler runs.\<close>

definition starting_component :: sched_state where
  "starting_component = (sched_init (set_active (initial_state + 1) + 1))\<lparr>announced := 1, worker := Some (InControl Start, 1)\<rparr>"

lemma starting_component_reachable: "sched_reach (sched_init initial_state) starting_component"
proof -
  let ?i = "sched_init initial_state" and ?w = "initial_state + 1"
  have one: "flag_code ?w = 1 \<and> work_count ?w = 1" using add_one_split [of initial_state] initial_state_view by simp
  have inc: "increment_work (sw ?i) = Ok (Schedule, ?w)"
    using increment_work_eq [of initial_state] initial_state_view by (simp add: sched_init_def)
  have inc2: "increment_work (set_active ?w) = Ok (AlreadyScheduled, set_active ?w + 1)"
    using increment_work_eq [of "set_active ?w"] one by simp
  have "sched_reach ?i (?i\<lparr>sw := ?w, to_push := 1\<rparr>)"
    using sched_reach.produce [OF sched_reach.start increment_schedule [OF inc]] by (simp add: sched_init_def)
  from sched_reach.produce [OF this push_control_schedule [where n = 0 and e = Start]]
  have "sched_reach ?i (?i\<lparr>sw := ?w, controls := [Start], to_schedule := 1\<rparr>)" by (simp add: sched_init_def)
  from sched_reach.produce [OF this call_schedule [where n = 0]]
  have "sched_reach ?i (?i\<lparr>sw := ?w, controls := [Start], tokens := 1\<rparr>)" by (simp add: sched_init_def)
  from sched_reach.execute [OF this check_alive [where n = 0 and ls = "Passive (remove_flags ?w)"]] one
  have "sched_reach ?i (?i\<lparr>sw := ?w, controls := [Start], waiting_workers := 1\<rparr>)" by (simp add: sched_init_def from_current_eq)
  from sched_reach.execute [OF this lock [where n = 0]]
  have "sched_reach ?i (?i\<lparr>sw := ?w, controls := [Start], worker := Some (Controls, 0)\<rparr>)" by (simp add: sched_init_def)
  from sched_reach.work [OF this take_control [where k = 0 and e = Start and es = "[]"]]
  have "sched_reach ?i (?i\<lparr>sw := set_active ?w, worker := Some (InControl Start, 1)\<rparr>)" by (simp add: sched_init_def)
  from sched_reach.produce [OF this increment_other [where d = AlreadyScheduled and w = "set_active ?w + 1"]] inc2
  show ?thesis by (simp add: sched_init_def starting_component_def)
qed

theorem no_lost_wakeup_witness:
  "sched_reach (sched_init initial_state) starting_component \<and> announced starting_component = 1 \<and> claims starting_component = 1 \<and>
   work_count (sw starting_component) = 2 \<and> decrement_work (sw starting_component) 1 \<noteq> Panic"
proof -
  have f: "flag_code initial_state \<le> 1" using initial_state_view by simp
  have parts: "announced starting_component = 1" "to_push starting_component = 0" "controls starting_component = []" "items starting_component = 0"
    "taken starting_component = 1" "unaccounted starting_component = 0" "worker starting_component = Some (InControl Start, 1)" "claims starting_component = 1"
    by (simp_all add: starting_component_def sched_init_def taken_def claims_def)
  from no_lost_wakeup [OF f initial_state_view(2) starting_component_reachable] starting_component_reachable parts show ?thesis by simp
qed

text \<open>
  With a blocking future two workers may be scheduled at once: a producer that finds the component unblocked and idle schedules it,
  and so does the worker that has just unblocked it.
\<close>

lemma unblocked_component_claimed_twice:
  assumes "worker s = Some (Repolling, k)" "work_count (sw s) = 0" "to_push s = 0"
  shows "\<exists>s1 s2 s3. worker_step s s1 \<and> producer_step s1 s2 \<and> worker_step s2 s3 \<and> claims s3 \<ge> 2"
proof -
  let ?s1 = "s\<lparr>sw := set_active (sw s), worker := Some (Resuming, k), future_stored := False\<rparr>"
  let ?s2 = "?s1\<lparr>sw := set_active (sw s) + 1, to_push := 1\<rparr>"
  have "worker_step s ?s1" using repoll_ready [OF assms(1), of set_active] by simp
  moreover have "increment_work (sw ?s1) = Ok (Schedule, set_active (sw s) + 1)" using increment_work_eq [of "set_active (sw s)"] assms(2) by simp
  from increment_schedule [OF this] have "producer_step ?s1 ?s2" using assms(3) by simp
  moreover have "flag_code (sw ?s2) = 0" using add_one_split [of "set_active (sw s)"] assms(2) by simp
  then have "or_from NoWork (\<lambda>_. get_scheduling_decision (sw ?s2)) = Ok Resume" using resume_decision [of "sw ?s2"] by simp
  then have "worker_step ?s2 (?s2\<lparr>worker := None, leaving := leaving ?s2 + 1\<rparr>)" by (intro resume) simp_all
  moreover have "claims (?s2\<lparr>worker := None, leaving := leaving ?s2 + 1\<rparr>) \<ge> 2" by (simp add: claims_def)
  ultimately show ?thesis by blast
qed

end
