(* ===== verification/Bit_Fields.thy ===== *)
theory Bit_Fields
  imports Kompact_Prelude
begin

section \<open>Sub-byte bit fields (\<open>core/src/messaging/bitfields.rs\<close>)\<close>

text \<open>
  The bit twiddling helpers on one byte and the \<open>BitFieldExt\<close> operations \<open>check_field\<close>,
  \<open>store\<close> and \<open>get_as\<close> on a byte slice. A shift by more than seven positions panics in the
  source, so the helpers return \<open>None\<close> there. The lemmas show that a checked field never
  panics, that storing writes exactly the bits of the field and leaves all others alone,
  and that reading it back gives the low bits of what was stored.
\<close>

datatype bitfield_error = Overflow | TryFromErr

text \<open>The trait \<open>BitField\<close> with the conversions its users supply.\<close>

record 'f bit_field =
  POS :: nat
  WIDTH :: nat
  into_u8 :: "'f \<Rightarrow> u8"
  try_from_u8 :: "u8 \<Rightarrow> 'f option"

definition BITS_PER_BYTE :: nat where
  "BITS_PER_BYTE = 8"

definition byte_bit_offset :: "nat \<Rightarrow> nat \<times> nat" where
  "byte_bit_offset idx = (idx div BITS_PER_BYTE, idx mod BITS_PER_BYTE)"

definition get_bit :: "u8 \<Rightarrow> nat \<Rightarrow> u8 option" where
  "get_bit target pos = (if pos < 8 then Some (drop_bit pos target AND 1) else None)"

definition test_bit :: "u8 \<Rightarrow> nat \<Rightarrow> bool option" where
  "test_bit target pos = map_option (\<lambda>b. b = 1) (get_bit target pos)"

definition set_bit_at :: "u8 \<Rightarrow> nat \<Rightarrow> u8 option" where
  "set_bit_at target pos = (if pos < 8 then Some (target OR push_bit pos 1) else None)"

definition set_bit_to :: "u8 \<Rightarrow> nat \<Rightarrow> u8 \<Rightarrow> u8 option" where
  "set_bit_to target pos val =
     (if pos < 8 then Some ((target AND NOT (push_bit pos 1)) OR push_bit pos val) else None)"

definition unset_bit_at :: "u8 \<Rightarrow> nat \<Rightarrow> u8 option" where
  "unset_bit_at target pos = (if pos < 8 then Some (target AND NOT (push_bit pos 1)) else None)"

definition toggle_bit :: "u8 \<Rightarrow> nat \<Rightarrow> u8 option" where
  "toggle_bit target pos = (if pos < 8 then Some (target XOR push_bit pos 1) else None)"

definition check_field :: "'f bit_field \<Rightarrow> u8 list \<Rightarrow> (unit, bitfield_error) rresult" where
  "check_field F bs =
     (if WIDTH F > BITS_PER_BYTE then Err Overflow
      else if POS F + WIDTH F > BITS_PER_BYTE * length bs then Err Overflow
      else Ok ())"

text \<open>
  The body of \<open>(0..width).for_each\<close> in \<open>store\<close>, over the indices still to do. Indexing the
  slice out of range panics.
\<close>

fun store_loop :: "nat \<Rightarrow> u8 \<Rightarrow> nat list \<Rightarrow> u8 list \<Rightarrow> u8 list option" where
  "store_loop pos repr [] bs = Some bs"
| "store_loop pos repr (i # is) bs =
     (let idx = pos + i; byte = idx div 8; bit = idx mod 8 in
      if byte < length bs then
        (case get_bit repr i of
           None \<Rightarrow> None
         | Some v \<Rightarrow> (case set_bit_to (bs ! byte) bit v of
             None \<Rightarrow> None
           | Some b \<Rightarrow> store_loop pos repr is (bs[byte := b])))
      else None)"

definition bf_store :: "'f bit_field \<Rightarrow> 'f \<Rightarrow> u8 list \<Rightarrow> (u8 list, bitfield_error) rresult" where
  "bf_store F field bs =
     rbind (check_field F bs)
       (\<lambda>_. or_panic (store_loop (POS F) (into_u8 F field) [0..<WIDTH F] bs))"

text \<open>The same loop of \<open>get_as\<close>, which fills the byte \<open>repr\<close>.\<close>

fun get_loop :: "nat \<Rightarrow> u8 list \<Rightarrow> nat list \<Rightarrow> u8 \<Rightarrow> u8 option" where
  "get_loop pos bs [] repr = Some repr"
| "get_loop pos bs (i # is) repr =
     (let idx = pos + i; byte = idx div 8; bit = idx mod 8 in
      if byte < length bs then
        (case get_bit (bs ! byte) bit of
           None \<Rightarrow> None
         | Some v \<Rightarrow> (case set_bit_to repr i v of
             None \<Rightarrow> None
           | Some r \<Rightarrow> get_loop pos bs is r))
      else None)"

definition bf_get_as :: "'f bit_field \<Rightarrow> u8 list \<Rightarrow> ('f, bitfield_error) rresult" where
  "bf_get_as F bs =
     rbind (check_field F bs)
       (\<lambda>_. rbind (or_panic (get_loop (POS F) bs [0..<WIDTH F] 0))
         (\<lambda>repr. case try_from_u8 F repr of None \<Rightarrow> Err TryFromErr | Some f \<Rightarrow> Ok f))"

subsection \<open>One byte\<close>

lemma get_bit_eq: "pos < 8 \<Longrightarrow> get_bit t pos = Some (of_bool (bit t pos))"
  by (simp add: get_bit_def and_one_eq mod_2_eq_odd bit_iff_odd_drop_bit)

lemma set_bit_to_bit:
  assumes "pos < 8"
  shows "\<exists>b. set_bit_to t pos (of_bool p) = Some b \<and>
    (\<forall>j < 8. bit b j = (if j = pos then p else bit t j))"
  using assms
  by (auto simp: set_bit_to_def bit_simps bit_1_iff)

text \<open>The bit with index \<open>i\<close> of a slice, low bit of the first byte first.\<close>

definition slice_bit :: "u8 list \<Rightarrow> nat \<Rightarrow> bool" where
  "slice_bit bs i = bit (bs ! (i div 8)) (i mod 8)"

lemma slice_bit_update:
  assumes "idx div 8 < length bs" and "i div 8 < length bs"
    and "\<forall>j < 8. bit b j = (if j = idx mod 8 then p else bit (bs ! (idx div 8)) j)"
  shows "slice_bit (bs[idx div 8 := b]) i = (if i = idx then p else slice_bit bs i)"
proof (cases "i div 8 = idx div 8")
  case True
  then have "i = idx \<longleftrightarrow> i mod 8 = idx mod 8"
    by (metis div_mult_mod_eq)
  with True assms show ?thesis by (simp add: slice_bit_def)
next
  case False
  then show ?thesis by (auto simp: slice_bit_def)
qed

lemma store_loop_spec:
  assumes "\<forall>i \<in> set is. i < 8 \<and> (pos + i) div 8 < length bs" and "distinct is"
  shows "\<exists>bs'. store_loop pos repr is bs = Some bs' \<and> length bs' = length bs \<and>
    (\<forall>k. k div 8 < length bs \<longrightarrow>
       slice_bit bs' k = (if pos \<le> k \<and> k - pos \<in> set is then bit repr (k - pos)
                          else slice_bit bs k))"
  using assms
proof (induction "is" arbitrary: bs)
  case (Cons i "is")
  define byte where "byte = (pos + i) div 8"
  have bounds: "i < 8" "byte < length bs" using Cons.prems by (auto simp: byte_def)
  obtain b where b: "set_bit_to (bs ! byte) ((pos + i) mod 8) (of_bool (bit repr i)) = Some b"
    and bits: "\<forall>j < 8. bit b j = (if j = (pos + i) mod 8 then bit repr i else bit (bs ! byte) j)"
    using set_bit_to_bit [of "(pos + i) mod 8" "bs ! byte" "bit repr i"] by auto
  from Cons.prems have pre: "\<forall>i \<in> set is. i < 8 \<and> (pos + i) div 8 < length (bs[byte := b])" "distinct is"
    by auto
  obtain bs' where bs': "store_loop pos repr is (bs[byte := b]) = Some bs'"
    "length bs' = length bs"
    "\<And>k. k div 8 < length bs \<Longrightarrow>
       slice_bit bs' k = (if pos \<le> k \<and> k - pos \<in> set is then bit repr (k - pos)
                          else slice_bit (bs[byte := b]) k)"
    using Cons.IH [OF pre] by auto
  have "slice_bit (bs[byte := b]) k = (if k = pos + i then bit repr i else slice_bit bs k)"
    if "k div 8 < length bs" for k
    using slice_bit_update [of "pos + i" bs k b "bit repr i"] bounds bits that
    by (simp add: byte_def)
  moreover have "i \<notin> set is" using Cons.prems by simp
  ultimately show ?case
    using bs' b bounds by (auto simp: Let_def byte_def get_bit_eq)
qed simp

lemma get_loop_spec:
  assumes "\<forall>i \<in> set is. i < 8 \<and> (pos + i) div 8 < length bs" and "distinct is"
  shows "\<exists>r. get_loop pos bs is repr = Some r \<and>
    (\<forall>k < 8. bit r k = (if k \<in> set is then slice_bit bs (pos + k) else bit repr k))"
  using assms
proof (induction "is" arbitrary: repr)
  case (Cons i "is")
  have bounds: "i < 8" "(pos + i) div 8 < length bs" using Cons.prems by auto
  let ?v = "of_bool (slice_bit bs (pos + i)) :: u8"
  obtain r0 where r0: "set_bit_to repr i ?v = Some r0"
    and bits: "\<forall>j < 8. bit r0 j = (if j = i then slice_bit bs (pos + i) else bit repr j)"
    using set_bit_to_bit [of i repr "slice_bit bs (pos + i)"] bounds by auto
  from Cons.prems have "\<forall>i \<in> set is. i < 8 \<and> (pos + i) div 8 < length bs" "distinct is" by auto
  from Cons.IH [OF this, of r0] obtain r where r: "get_loop pos bs is r0 = Some r"
    "\<And>k. k < 8 \<Longrightarrow> bit r k = (if k \<in> set is then slice_bit bs (pos + k) else bit r0 k)"
    by auto
  have g: "get_bit (bs ! ((pos + i) div 8)) ((pos + i) mod 8) = Some ?v"
    by (simp add: get_bit_eq slice_bit_def)
  show ?case
    using r r0 bits bounds g by (auto simp: Let_def)
qed simp

subsection \<open>Fields\<close>

lemma check_field_bounds:
  assumes "check_field F bs = Ok ()"
  shows "\<forall>i \<in> set [0..<WIDTH F]. i < 8 \<and> (POS F + i) div 8 < length bs"
  using assms
  by (auto simp: check_field_def BITS_PER_BYTE_def less_mult_imp_div_less mult.commute
      split: if_splits)

lemma check_field_length: "length bs' = length bs \<Longrightarrow> check_field F bs' = check_field F bs"
  by (simp add: check_field_def)

lemma take_bit_u8_eqI:
  fixes r x :: u8
  assumes "\<And>k. k < 8 \<Longrightarrow> bit r k = (k < n \<and> bit x k)"
  shows "r = take_bit n x"
  using assms by (intro bit_eqI) (auto simp: bit_take_bit_iff dest: bit_imp_le_length)

text \<open>What reading back yields before the conversion: the low bits of what was stored.\<close>

lemma get_loop_take_bit:
  assumes "check_field F bs = Ok ()"
    and "\<And>k. k < WIDTH F \<Longrightarrow> slice_bit bs (POS F + k) = bit x k"
  shows "get_loop (POS F) bs [0..<WIDTH F] 0 = Some (take_bit (WIDTH F) (x :: u8))"
proof -
  obtain r where r: "get_loop (POS F) bs [0..<WIDTH F] 0 = Some r"
    "\<And>k. k < 8 \<Longrightarrow> bit r k = (if k \<in> set [0..<WIDTH F] then slice_bit bs (POS F + k) else bit (0::u8) k)"
    using get_loop_spec [OF check_field_bounds [OF assms(1)], of 0] by auto
  have "r = take_bit (WIDTH F) x"
    by (rule take_bit_u8_eqI) (use r(2) assms(2) in auto)
  with r(1) show ?thesis by simp
qed

lemma bf_store_spec:
  assumes "check_field F bs = Ok ()"
  shows "\<exists>bs'. bf_store F f bs = Ok bs' \<and> length bs' = length bs \<and>
    (\<forall>k < 8 * length bs. slice_bit bs' k =
       (if POS F \<le> k \<and> k < POS F + WIDTH F then bit (into_u8 F f) (k - POS F)
        else slice_bit bs k))"
proof -
  obtain bs' where bs': "store_loop (POS F) (into_u8 F f) [0..<WIDTH F] bs = Some bs'"
    "length bs' = length bs"
    "\<And>k. k div 8 < length bs \<Longrightarrow> slice_bit bs' k =
       (if POS F \<le> k \<and> k - POS F \<in> set [0..<WIDTH F] then bit (into_u8 F f) (k - POS F)
        else slice_bit bs k)"
    using store_loop_spec [OF check_field_bounds [OF assms], of "into_u8 F f"] by auto
  have "k div 8 < length bs" if "k < 8 * length bs" for k
    using that by (simp add: less_mult_imp_div_less mult.commute)
  with bs' assms show ?thesis
    by (intro exI [of _ bs']) (auto simp: bf_store_def)
qed

text \<open>
  for a field that passes \<open>check_field\<close>, \<open>store\<close> succeeds, keeps the length of the slice,
  changes no bit outside the field's range, and \<open>get_as\<close> on the result converts the low
  \<open>WIDTH\<close> bits of the stored representation; neither operation panics.
\<close>

theorem bf_store_get_as:
  assumes "check_field F bs = Ok ()"
  shows "\<exists>bs'. bf_store F f bs = Ok bs' \<and> length bs' = length bs \<and>
    (\<forall>k < 8 * length bs. \<not> (POS F \<le> k \<and> k < POS F + WIDTH F) \<longrightarrow>
       slice_bit bs' k = slice_bit bs k) \<and>
    bf_get_as F bs' =
      (case try_from_u8 F (take_bit (WIDTH F) (into_u8 F f)) of
         None \<Rightarrow> Err TryFromErr | Some f' \<Rightarrow> Ok f')"
proof -
  obtain bs' where bs': "bf_store F f bs = Ok bs'" "length bs' = length bs"
    "\<And>k. k < 8 * length bs \<Longrightarrow> slice_bit bs' k =
       (if POS F \<le> k \<and> k < POS F + WIDTH F then bit (into_u8 F f) (k - POS F)
        else slice_bit bs k)"
    using bf_store_spec [OF assms, of f] by auto
  have chk: "check_field F bs' = Ok ()"
    using assms by (simp add: check_field_length [OF bs'(2)])
  have "POS F + k < 8 * length bs" if "k < WIDTH F" for k
    using assms that by (auto simp: check_field_def BITS_PER_BYTE_def split: if_splits)
  then have "get_loop (POS F) bs' [0..<WIDTH F] 0 = Some (take_bit (WIDTH F) (into_u8 F f))"
    by (intro get_loop_take_bit chk) (simp add: bs'(3))
  with chk bs' show ?thesis by (auto simp: bf_get_as_def)
qed

definition nibble_field :: "u8 bit_field" where
  "nibble_field = \<lparr>POS = 6, WIDTH = 4, into_u8 = id, try_from_u8 = Some\<rparr>"

lemma nibble_field_ok: "check_field nibble_field [255, 0] = Ok ()"
  by (simp add: check_field_def nibble_field_def BITS_PER_BYTE_def)

theorem bf_store_get_as_witness:
  "bf_store nibble_field 10 [255, 0] = Ok [191, 2] \<and>
   bf_get_as nibble_field [191, 2] = Ok 10"
proof -
  have s: "bf_store nibble_field 10 [255, 0] = Ok [191, 2]" by code_simp
  have "take_bit 4 (10 :: u8) = 10" by simp
  with s bf_store_get_as [OF nibble_field_ok, of 10] show ?thesis
    by (auto simp: nibble_field_def)
qed

end
