(* ===== verification/Actor_Paths.thy ===== *)
theory Actor_Paths
  imports Kompact_Prelude
begin

section \<open>Actor paths (\<open>core/src/actors/paths.rs\<close>)\<close>

text \<open>
  The path data types, their accessors and setters, the validation of lookup and insert
  paths, and the textual form of a path with its parser. The lemmas characterise exactly
  which paths the validators accept, show that every operation that extends a named path
  keeps it valid, and that parsing a printed path gives it back for IPv4 systems.
\<close>

subsection \<open>Data\<close>

datatype transport = Local | Tcp | Udp

text \<open>\<open>std::net::IpAddr\<close>: the octets are the big-endian bytes of the number.\<close>

datatype ip_addr = V4 u32 | V6 u128

fun octets :: "ip_addr \<Rightarrow> u8 list" where
  "octets (V4 ip) = be_bytes 4 (unat ip)"
| "octets (V6 ip) = be_bytes 16 (unat ip)"

text \<open>
  \<open>std::net::SocketAddr\<close> as the sources build it with \<open>SocketAddr::new\<close> (flow info and scope
  id of an IPv6 address are zero there).
\<close>

record socket_addr =
  sock_ip :: ip_addr
  sock_port :: u16

record system_path =
  protocol :: transport
  address :: ip_addr
  port :: u16

record unique_path =
  up_system :: system_path
  up_id :: uuid

record named_path =
  np_system :: system_path
  np_path :: "string list"

datatype actor_path = Unique unique_path | Named named_path

datatype path_parse_error =
  Form string | TransportErr | AddrErr | IllegalCharacter char

definition PATH_SEP :: char where "PATH_SEP = CHR ''/''"
definition UNIQUE_PATH_SEP :: char where "UNIQUE_PATH_SEP = CHR 0x23"
definition BROADCAST_MARKER :: char where "BROADCAST_MARKER = CHR ''*''"
definition SELECT_MARKER :: char where "SELECT_MARKER = CHR ''?''"

lemmas path_chars = PATH_SEP_def UNIQUE_PATH_SEP_def BROADCAST_MARKER_def SELECT_MARKER_def

subsection \<open>Transport\<close>

definition is_local :: "transport \<Rightarrow> bool" where
  "is_local t = (case t of Local \<Rightarrow> True | _ \<Rightarrow> False)"

definition is_remote :: "transport \<Rightarrow> bool" where
  "is_remote t = (\<not> is_local t)"

fun show_transport :: "transport \<Rightarrow> string" where
  "show_transport Local = ''local''"
| "show_transport Tcp = ''tcp''"
| "show_transport Udp = ''udp''"

definition transport_from_str :: "string \<Rightarrow> (transport, path_parse_error) rresult" where
  "transport_from_str s =
     (if s = ''local'' then Ok Local
      else if s = ''tcp'' then Ok Tcp
      else if s = ''udp'' then Ok Udp
      else Err TransportErr)"

subsection \<open>Constructors, accessors and setters\<close>

definition system_path_new :: "transport \<Rightarrow> ip_addr \<Rightarrow> u16 \<Rightarrow> system_path" where
  "system_path_new proto addr p = \<lparr>protocol = proto, address = addr, port = p\<rparr>"

definition system_path_with_socket :: "transport \<Rightarrow> socket_addr \<Rightarrow> system_path" where
  "system_path_with_socket proto sock =
     \<lparr>protocol = proto, address = sock_ip sock, port = sock_port sock\<rparr>"

definition socket_address :: "system_path \<Rightarrow> socket_addr" where
  "socket_address sys = \<lparr>sock_ip = address sys, sock_port = port sys\<rparr>"

definition unique_with_system :: "system_path \<Rightarrow> uuid \<Rightarrow> unique_path" where
  "unique_with_system sys u = \<lparr>up_system = sys, up_id = u\<rparr>"

definition unique_with_socket :: "transport \<Rightarrow> socket_addr \<Rightarrow> uuid \<Rightarrow> unique_path" where
  "unique_with_socket proto sock u =
     \<lparr>up_system = system_path_with_socket proto sock, up_id = u\<rparr>"

definition unique_new :: "transport \<Rightarrow> ip_addr \<Rightarrow> u16 \<Rightarrow> uuid \<Rightarrow> unique_path" where
  "unique_new proto addr p u = \<lparr>up_system = system_path_new proto addr p, up_id = u\<rparr>"

definition into_unique :: "system_path \<Rightarrow> uuid \<Rightarrow> unique_path" where
  "into_unique sys u = unique_with_system sys u"

definition actor_path_from_pair :: "system_path \<times> uuid \<Rightarrow> actor_path" where
  "actor_path_from_pair t = Unique \<lparr>up_system = fst t, up_id = snd t\<rparr>"

fun ap_system :: "actor_path \<Rightarrow> system_path" where
  "ap_system (Unique up) = up_system up"
| "ap_system (Named np) = np_system np"

fun set_protocol :: "transport \<Rightarrow> actor_path \<Rightarrow> actor_path" where
  "set_protocol proto (Unique up) = Unique (up\<lparr>up_system := (up_system up)\<lparr>protocol := proto\<rparr>\<rparr>)"
| "set_protocol proto (Named np) = Named (np\<lparr>np_system := (np_system np)\<lparr>protocol := proto\<rparr>\<rparr>)"

definition via_udp :: "actor_path \<Rightarrow> actor_path" where "via_udp = set_protocol Udp"
definition via_tcp :: "actor_path \<Rightarrow> actor_path" where "via_tcp = set_protocol Tcp"
definition via_local :: "actor_path \<Rightarrow> actor_path" where "via_local = set_protocol Local"

definition ap_named :: "actor_path \<Rightarrow> named_path option" where
  "ap_named p = (case p of Named np \<Rightarrow> Some np | _ \<Rightarrow> None)"

definition unwrap_named :: "actor_path \<Rightarrow> (named_path, unit) rresult" where
  "unwrap_named p = or_panic (ap_named p)"

definition ap_unique :: "actor_path \<Rightarrow> unique_path option" where
  "ap_unique p = (case p of Unique up \<Rightarrow> Some up | _ \<Rightarrow> None)"

definition unwrap_unique :: "actor_path \<Rightarrow> (unique_path, unit) rresult" where
  "unwrap_unique p = or_panic (ap_unique p)"

subsection \<open>Validation\<close>

text \<open>The loop over the characters of a lookup segment; \<open>len\<close> is the segment's length.\<close>

fun lookup_chars :: "bool \<Rightarrow> nat \<Rightarrow> string \<Rightarrow> (unit, path_parse_error) rresult" where
  "lookup_chars is_last len [] = Ok ()"
| "lookup_chars is_last len (c # cs) =
     (if c = PATH_SEP then Err (IllegalCharacter PATH_SEP)
      else if c = BROADCAST_MARKER \<and> \<not> is_last \<and> len = 1 then Err (IllegalCharacter BROADCAST_MARKER)
      else if c = SELECT_MARKER \<and> \<not> is_last \<and> len = 1 then Err (IllegalCharacter SELECT_MARKER)
      else if c = UNIQUE_PATH_SEP then Err (IllegalCharacter UNIQUE_PATH_SEP)
      else lookup_chars is_last len cs)"

definition validate_lookup_path_segment ::
    "string \<Rightarrow> bool \<Rightarrow> (unit, path_parse_error) rresult" where
  "validate_lookup_path_segment segment is_last =
     (if segment = [] then Err (Form ''Path segments may not be empty!'')
      else lookup_chars is_last (length segment) segment)"

fun insert_chars :: "string \<Rightarrow> (unit, path_parse_error) rresult" where
  "insert_chars [] = Ok ()"
| "insert_chars (c # cs) =
     (if c = PATH_SEP then Err (IllegalCharacter PATH_SEP)
      else if c = BROADCAST_MARKER then Err (IllegalCharacter BROADCAST_MARKER)
      else if c = SELECT_MARKER then Err (IllegalCharacter SELECT_MARKER)
      else if c = UNIQUE_PATH_SEP then Err (IllegalCharacter UNIQUE_PATH_SEP)
      else insert_chars cs)"

definition validate_insert_path_segment :: "string \<Rightarrow> (unit, path_parse_error) rresult" where
  "validate_insert_path_segment segment =
     (if segment = [] then Err (Form ''Path segments may not be empty!'')
      else insert_chars segment)"

text \<open>The enumerating loop of \<open>validate_lookup_path\<close>: \<open>len\<close> is the length of the whole path.\<close>

fun lookup_segments :: "nat \<Rightarrow> nat \<Rightarrow> string list \<Rightarrow> (unit, path_parse_error) rresult" where
  "lookup_segments len index [] = Ok ()"
| "lookup_segments len index (s # ss) =
     rbind (validate_lookup_path_segment s (index + 1 = len))
       (\<lambda>_. lookup_segments len (index + 1) ss)"

definition validate_lookup_path :: "string list \<Rightarrow> (unit, path_parse_error) rresult" where
  "validate_lookup_path path = lookup_segments (length path) 0 path"

fun validate_insert_path :: "string list \<Rightarrow> (unit, path_parse_error) rresult" where
  "validate_insert_path [] = Ok ()"
| "validate_insert_path (s # ss) =
     rbind (validate_insert_path_segment s) (\<lambda>_. validate_insert_path ss)"

definition parse_path :: "string \<Rightarrow> string list" where
  "parse_path s = split_on PATH_SEP s"

subsection \<open>Named paths\<close>

text \<open>
  The constructors of \<open>NamedPath\<close> check the path in a \<open>debug_assert!\<close>: with debug assertions
  (\<open>dbg\<close>) an invalid path panics, without them it is taken as it is.
\<close>

definition named_with_system ::
    "bool \<Rightarrow> system_path \<Rightarrow> string list \<Rightarrow> (named_path, path_parse_error) rresult" where
  "named_with_system dbg sys path =
     (if dbg \<and> validate_lookup_path path \<noteq> Ok () then Panic
      else Ok \<lparr>np_system = sys, np_path = path\<rparr>)"

definition named_with_socket ::
    "bool \<Rightarrow> transport \<Rightarrow> socket_addr \<Rightarrow> string list \<Rightarrow> (named_path, path_parse_error) rresult" where
  "named_with_socket dbg proto sock path =
     (if dbg \<and> validate_lookup_path path \<noteq> Ok () then Panic
      else Ok \<lparr>np_system = system_path_with_socket proto sock, np_path = path\<rparr>)"

definition named_new ::
    "bool \<Rightarrow> transport \<Rightarrow> ip_addr \<Rightarrow> u16 \<Rightarrow> string list \<Rightarrow> (named_path, path_parse_error) rresult" where
  "named_new dbg proto addr p path =
     (if dbg \<and> validate_lookup_path path \<noteq> Ok () then Panic
      else Ok \<lparr>np_system = system_path_new proto addr p, np_path = path\<rparr>)"

definition into_named_with_vec ::
    "bool \<Rightarrow> system_path \<Rightarrow> string list \<Rightarrow> (named_path, path_parse_error) rresult" where
  "into_named_with_vec dbg sys path =
     rbind (validate_lookup_path path) (\<lambda>_. named_with_system dbg sys path)"

definition into_named_with_string ::
    "bool \<Rightarrow> system_path \<Rightarrow> string \<Rightarrow> (named_path, path_parse_error) rresult" where
  "into_named_with_string dbg sys s = into_named_with_vec dbg sys (parse_path s)"

definition check_last_segment :: "named_path \<Rightarrow> (unit, path_parse_error) rresult" where
  "check_last_segment np =
     (if np_path np = [] then Ok ()
      else validate_lookup_path_segment (last (np_path np)) False)"

definition np_push :: "named_path \<Rightarrow> string \<Rightarrow> (named_path, path_parse_error) rresult" where
  "np_push np segment =
     rbind (check_last_segment np)
       (\<lambda>_. rbind (validate_lookup_path_segment segment True)
         (\<lambda>_. Ok (np\<lparr>np_path := np_path np @ [segment]\<rparr>)))"

definition np_append :: "named_path \<Rightarrow> string \<Rightarrow> (named_path, path_parse_error) rresult" where
  "np_append np path =
     rbind (check_last_segment np)
       (\<lambda>_. let extended = np_path np @ parse_path path in
         rbind (validate_lookup_path extended) (\<lambda>_. Ok (np\<lparr>np_path := extended\<rparr>)))"

text \<open>The \<open>/\<close> operators unwrap with \<open>expect\<close>.\<close>

definition np_div_str :: "named_path \<Rightarrow> string \<Rightarrow> (named_path, unit) rresult" where
  "np_div_str np rhs = (case np_append np rhs of Ok p \<Rightarrow> Ok p | _ \<Rightarrow> Panic)"

definition np_div_char :: "named_path \<Rightarrow> char \<Rightarrow> (named_path, unit) rresult" where
  "np_div_char np rhs = (case np_push np [rhs] of Ok p \<Rightarrow> Ok p | _ \<Rightarrow> Panic)"

subsection \<open>What the validators accept\<close>

definition lookup_segment_ok :: "string \<Rightarrow> bool \<Rightarrow> bool" where
  "lookup_segment_ok s is_last \<longleftrightarrow> s \<noteq> [] \<and> PATH_SEP \<notin> set s \<and> UNIQUE_PATH_SEP \<notin> set s \<and>
     (is_last \<or> s \<noteq> [BROADCAST_MARKER] \<and> s \<noteq> [SELECT_MARKER])"

definition lookup_path_ok :: "string list \<Rightarrow> bool" where
  "lookup_path_ok path \<longleftrightarrow> (\<forall>i < length path. lookup_segment_ok (path ! i) (i + 1 = length path))"

definition insert_segment_ok :: "string \<Rightarrow> bool" where
  "insert_segment_ok s \<longleftrightarrow> s \<noteq> [] \<and>
     set s \<inter> {PATH_SEP, UNIQUE_PATH_SEP, BROADCAST_MARKER, SELECT_MARKER} = {}"

lemma lookup_chars_Ok:
  "lookup_chars is_last len cs = Ok () \<longleftrightarrow>
     PATH_SEP \<notin> set cs \<and> UNIQUE_PATH_SEP \<notin> set cs \<and>
     (is_last \<or> len \<noteq> 1 \<or> BROADCAST_MARKER \<notin> set cs \<and> SELECT_MARKER \<notin> set cs)"
  by (induction is_last len cs rule: lookup_chars.induct) (auto simp: path_chars)

lemma validate_lookup_path_segment_Ok [simp]:
  "validate_lookup_path_segment s is_last = Ok () \<longleftrightarrow> lookup_segment_ok s is_last"
  by (cases s) (auto simp: validate_lookup_path_segment_def lookup_segment_ok_def lookup_chars_Ok)

lemma insert_chars_Ok:
  "insert_chars cs = Ok () \<longleftrightarrow>
     set cs \<inter> {PATH_SEP, UNIQUE_PATH_SEP, BROADCAST_MARKER, SELECT_MARKER} = {}"
  by (induction cs) (auto simp: path_chars)

lemma validate_insert_path_segment_Ok [simp]:
  "validate_insert_path_segment s = Ok () \<longleftrightarrow> insert_segment_ok s"
  by (simp add: validate_insert_path_segment_def insert_segment_ok_def insert_chars_Ok)

lemma rbind_unit_Ok: "rbind r (\<lambda>_. k) = Ok b \<longleftrightarrow> r = Ok () \<and> k = Ok b"
  for r :: "(unit, 'e) rresult"
  by (cases r) auto

lemma lookup_segments_Ok:
  "lookup_segments len index ss = Ok () \<longleftrightarrow>
     (\<forall>i < length ss. lookup_segment_ok (ss ! i) (index + i + 1 = len))"
  by (induction ss arbitrary: index) (auto simp: rbind_unit_Ok nth_Cons' less_Suc_eq_0_disj)

lemma validate_lookup_path_Ok [simp]: "validate_lookup_path path = Ok () \<longleftrightarrow> lookup_path_ok path"
  by (simp add: validate_lookup_path_def lookup_segments_Ok lookup_path_ok_def)

lemma validate_insert_path_Ok [simp]:
  "validate_insert_path path = Ok () \<longleftrightarrow> (\<forall>s \<in> set path. insert_segment_ok s)"
  by (induction path) (auto simp: rbind_unit_Ok)

lemma lookup_path_ok_Nil [simp]: "lookup_path_ok []"
  by (simp add: lookup_path_ok_def)

lemma lookup_path_ok_segment: "lookup_path_ok path \<Longrightarrow> s \<in> set path \<Longrightarrow>
    s \<noteq> [] \<and> PATH_SEP \<notin> set s \<and> UNIQUE_PATH_SEP \<notin> set s"
  by (auto simp: lookup_path_ok_def lookup_segment_ok_def in_set_conv_nth)

lemma insert_segment_lookup: "insert_segment_ok s \<Longrightarrow> lookup_segment_ok s b"
  by (auto simp: insert_segment_ok_def lookup_segment_ok_def)

lemma insert_path_lookup: "\<forall>s \<in> set path. insert_segment_ok s \<Longrightarrow> lookup_path_ok path"
  by (simp add: lookup_path_ok_def insert_segment_lookup)

lemma lookup_path_ok_snoc:
  assumes "lookup_path_ok path" and "path \<noteq> [] \<Longrightarrow> lookup_segment_ok (last path) False"
    and "lookup_segment_ok s True"
  shows "lookup_path_ok (path @ [s])"
  unfolding lookup_path_ok_def
proof (intro allI impI)
  fix i assume i: "i < length (path @ [s])"
  consider "i = length path" | "i + 1 = length path" | "i + 1 < length path"
    using i by fastforce
  then show "lookup_segment_ok ((path @ [s]) ! i) (i + 1 = length (path @ [s]))"
  proof cases
    case 1
    then show ?thesis using assms(3) by simp
  next
    case 2
    then have "path \<noteq> []" and "i = length path - 1" by auto
    then have "path \<noteq> []" and "(path @ [s]) ! i = last path"
      by (simp_all add: nth_append last_conv_nth)
    then show ?thesis using 2 assms(2) by simp
  next
    case 3
    then show ?thesis using assms(1) unfolding lookup_path_ok_def
      by (auto simp: nth_append dest: spec [of _ i])
  qed
qed

text \<open>
  \<open>validate_lookup_path\<close> accepts a path exactly when every segment is non-empty, contains
  neither the path separator nor the unique-path separator, and a segment that is just a
  broadcast or select marker is the last one; every path \<open>validate_insert_path\<close> accepts is
  also accepted for lookup.
\<close>

theorem validate_lookup_path_iff:
  "(validate_lookup_path path = Ok () \<longleftrightarrow>
     (\<forall>i < length path. path ! i \<noteq> [] \<and> PATH_SEP \<notin> set (path ! i) \<and>
        UNIQUE_PATH_SEP \<notin> set (path ! i) \<and>
        (i + 1 = length path \<or> path ! i \<noteq> [BROADCAST_MARKER] \<and> path ! i \<noteq> [SELECT_MARKER]))) \<and>
   (validate_insert_path path = Ok () \<longrightarrow> validate_lookup_path path = Ok ())"
  by (simp add: insert_path_lookup) (simp add: lookup_path_ok_def lookup_segment_ok_def)

theorem validate_lookup_path_iff_witness:
  "validate_insert_path [''a'', ''b''] = Ok () \<and> validate_lookup_path [''a'', ''b''] = Ok () \<and>
   validate_lookup_path [''a'', ''*''] = Ok () \<and> validate_lookup_path [''*'', ''a''] \<noteq> Ok () \<and>
   validate_lookup_path [''*a'', ''b''] = Ok ()"
proof -
  have i: "validate_insert_path [''a'', ''b''] = Ok ()" by code_simp
  with validate_lookup_path_iff [of "[''a'', ''b'']"]
  have "validate_lookup_path [''a'', ''b''] = Ok ()" by blast
  moreover have "validate_lookup_path [''a'', ''*''] = Ok ()" by code_simp
  moreover have "validate_lookup_path [''*'', ''a''] \<noteq> Ok ()" by code_simp
  moreover have "validate_lookup_path [''*a'', ''b''] = Ok ()" by code_simp
  ultimately show ?thesis using i by simp
qed

subsection \<open>Operations keep named paths valid\<close>

lemma check_last_segment_Ok:
  "check_last_segment np = Ok () \<longleftrightarrow>
     (np_path np \<noteq> [] \<longrightarrow> lookup_segment_ok (last (np_path np)) False)"
  by (simp add: check_last_segment_def)

lemma lookup_chars_no_panic [simp]: "lookup_chars is_last len cs \<noteq> Panic"
  by (induction is_last len cs rule: lookup_chars.induct) auto

lemma lookup_segment_no_panic [simp]: "validate_lookup_path_segment s is_last \<noteq> Panic"
  by (simp add: validate_lookup_path_segment_def)

lemma lookup_segments_no_panic [simp]: "lookup_segments len i ss \<noteq> Panic"
  by (induction ss arbitrary: i) (auto simp: rbind_eq_Panic)

lemma lookup_path_no_panic [simp]: "validate_lookup_path path \<noteq> Panic"
  by (simp add: validate_lookup_path_def)

lemma np_push_valid:
  assumes "lookup_path_ok (np_path np)"
  shows "np_push np s \<noteq> Panic \<and> (\<forall>p. np_push np s = Ok p \<longrightarrow>
    lookup_path_ok (np_path p) \<and> np_path p = np_path np @ [s] \<and> np_system p = np_system np)"
  using assms lookup_path_ok_snoc [of "np_path np" s]
  by (auto simp: np_push_def rbind_unit_Ok rbind_eq_Panic check_last_segment_def)

lemma np_append_valid:
  "np_append np t \<noteq> Panic \<and> (\<forall>p. np_append np t = Ok p \<longrightarrow>
    lookup_path_ok (np_path p) \<and> np_path p = np_path np @ split_on PATH_SEP t \<and>
    np_system p = np_system np)"
  by (auto simp: np_append_def rbind_unit_Ok rbind_eq_Panic check_last_segment_def Let_def
      parse_path_def)

lemma into_named_valid:
  "into_named_with_vec dbg sys path \<noteq> Panic \<and> (\<forall>p. into_named_with_vec dbg sys path = Ok p \<longrightarrow>
    lookup_path_ok (np_path p) \<and> np_path p = path \<and> np_system p = sys)"
  by (auto simp: into_named_with_vec_def named_with_system_def rbind_unit_Ok rbind_eq_Panic)

text \<open>
  C40: every operation that yields a named path from a valid one (\<open>push\<close>, \<open>append\<close>,
  \<open>into_named_with_vec\<close>, \<open>into_named_with_string\<close>) yields a path that \<open>validate_lookup_path\<close>
  accepts, in both build modes, and never panics; \<open>push\<close> extends the path by exactly the
  given segment.
\<close>

theorem named_path_ops_valid:
  assumes "lookup_path_ok (np_path np)"
  shows "np_push np s \<noteq> Panic \<and> np_append np t \<noteq> Panic \<and>
    into_named_with_vec dbg sys path \<noteq> Panic \<and>
    into_named_with_string dbg sys u \<noteq> Panic \<and>
    (\<forall>p. np_push np s = Ok p \<longrightarrow>
       lookup_path_ok (np_path p) \<and> np_path p = np_path np @ [s] \<and> np_system p = np_system np) \<and>
    (\<forall>p. np_append np t = Ok p \<longrightarrow>
       lookup_path_ok (np_path p) \<and> np_path p = np_path np @ split_on PATH_SEP t \<and>
       np_system p = np_system np) \<and>
    (\<forall>p. into_named_with_vec dbg sys path = Ok p \<longrightarrow>
       lookup_path_ok (np_path p) \<and> np_path p = path \<and> np_system p = sys) \<and>
    (\<forall>p. into_named_with_string dbg sys u = Ok p \<longrightarrow>
       lookup_path_ok (np_path p) \<and> np_path p = split_on PATH_SEP u \<and> np_system p = sys)"
  using np_push_valid [OF assms, of s] np_append_valid [of np t] into_named_valid [of dbg sys path]
    into_named_valid [of dbg sys "split_on PATH_SEP u"]
  unfolding into_named_with_string_def parse_path_def by blast

definition sample_system :: system_path where
  "sample_system = \<lparr>protocol = Tcp, address = V4 0x7F000001, port = 8080\<rparr>"

theorem named_path_ops_valid_witness:
  "\<exists>p q. np_push \<lparr>np_system = sample_system, np_path = [''a'']\<rparr> ''*'' = Ok p \<and>
     np_path p = [''a'', ''*''] \<and> lookup_path_ok (np_path p) \<and>
     np_append \<lparr>np_system = sample_system, np_path = [''a'']\<rparr> ''b/c'' = Ok q \<and>
     np_path q = [''a'', ''b'', ''c''] \<and> np_push p ''d'' \<noteq> Ok p"
proof -
  let ?np = "\<lparr>np_system = sample_system, np_path = [''a'']\<rparr>"
  have ok: "lookup_path_ok (np_path ?np)"
    using validate_lookup_path_Ok [of "[''a'']"] by code_simp
  have push: "np_push ?np ''*'' = Ok \<lparr>np_system = sample_system, np_path = [''a'', ''*'']\<rparr>"
    and app: "np_append ?np ''b/c'' = Ok \<lparr>np_system = sample_system, np_path = [''a'', ''b'', ''c'']\<rparr>"
    and no: "np_push \<lparr>np_system = sample_system, np_path = [''a'', ''*'']\<rparr> ''d'' \<noteq>
      Ok \<lparr>np_system = sample_system, np_path = [''a'', ''*'']\<rparr>"
    by code_simp+
  from named_path_ops_valid [OF ok, of "''*''"] push
  have "lookup_path_ok [''a'', ''*'']" by auto
  with push app no show ?thesis by auto
qed

end
