(* ===== verification/Path_Text.thy ===== *)
theory Path_Text
  imports Actor_Paths
begin

section \<open>Textual actor paths (\<open>Display\<close> and \<open>FromStr\<close> in \<open>core/src/actors/paths.rs\<close>)\<close>

text \<open>
  Printing a path and parsing it back. The IPv4 part of the standard library's address
  syntax is modelled; the textual forms of IPv6 addresses and of UUIDs are parameters.
  The lemmas show that the parser gives back every printed path on an IPv4 system.
\<close>

subsection \<open>Decimal numbers and IPv4 socket addresses of the standard library\<close>

definition digit_char :: "nat \<Rightarrow> char" where
  "digit_char n = char_of (48 + n)"

definition is_digit :: "char \<Rightarrow> bool" where
  "is_digit c = (48 \<le> (of_char c :: nat) \<and> (of_char c :: nat) \<le> 57)"

fun show_dec :: "nat \<Rightarrow> string" where
  "show_dec n = (if n < 10 then [digit_char n] else show_dec (n div 10) @ [digit_char (n mod 10)])"

declare show_dec.simps [simp del]

definition dec_val :: "string \<Rightarrow> nat" where
  "dec_val s = foldl (\<lambda>a c. a * 10 + (of_char c - 48)) 0 s"

text \<open>\<open>read_number\<close> of the address parser: digits, as many as there are, within the bounds.\<close>

definition read_number :: "nat option \<Rightarrow> bool \<Rightarrow> nat \<Rightarrow> string \<Rightarrow> (nat \<times> string) option" where
  "read_number max_digits allow_zero_prefix bound s =
     (let ds = takeWhile is_digit s in
      if ds = [] then None
      else if (case max_digits of None \<Rightarrow> False | Some m \<Rightarrow> length ds > m) then None
      else if \<not> allow_zero_prefix \<and> hd ds = digit_char 0 \<and> length ds > 1 then None
      else if dec_val ds > bound then None
      else Some (dec_val ds, dropWhile is_digit s))"

definition expect_char :: "char \<Rightarrow> string \<Rightarrow> string option" where
  "expect_char c s = (case s of [] \<Rightarrow> None | x # xs \<Rightarrow> if x = c then Some xs else None)"

definition read_octet :: "string \<Rightarrow> (nat \<times> string) option" where
  "read_octet = read_number (Some 3) False 255"

definition read_dotted :: "string \<Rightarrow> (nat \<times> string) option" where
  "read_dotted s = Option.bind (expect_char (CHR ''.'') s) read_octet"

definition parse_socket_v4 :: "string \<Rightarrow> socket_addr option" where
  "parse_socket_v4 s =
     Option.bind (read_octet s) (\<lambda>(a, s1).
     Option.bind (read_dotted s1) (\<lambda>(b, s2).
     Option.bind (read_dotted s2) (\<lambda>(c, s3).
     Option.bind (read_dotted s3) (\<lambda>(d, s4).
     Option.bind (expect_char (CHR '':'') s4) (\<lambda>s5.
     Option.bind (read_number None True 65535 s5) (\<lambda>(p, s6).
       if s6 = [] then
         Some \<lparr>sock_ip = V4 (of_nat (be_val [of_nat a, of_nat b, of_nat c, of_nat d])),
               sock_port = of_nat p\<rparr>
       else None))))))"

text \<open>IPv6 text and UUID text.\<close>

record text_ops =
  op_show_ipv6 :: "u128 \<Rightarrow> string"
  op_parse_socket_v6 :: "string \<Rightarrow> socket_addr option"
  op_show_uuid :: "uuid \<Rightarrow> string"
  op_parse_uuid :: "string \<Rightarrow> uuid option"

text \<open>The documented UUID text: hexadecimal digits and hyphens, read back by the parser.\<close>

definition is_hex_or_hyphen :: "char \<Rightarrow> bool" where
  "is_hex_or_hyphen c \<longleftrightarrow> is_digit c \<or> c \<in> set ''abcdef-''"

lemma not_hex_seps: "\<not> is_hex_or_hyphen (CHR ''/'')" "\<not> is_hex_or_hyphen (CHR 0x23)"
  by (simp_all add: is_hex_or_hyphen_def is_digit_def)

definition uuid_text_documented :: "text_ops \<Rightarrow> bool" where
  "uuid_text_documented T \<longleftrightarrow>
     (\<forall>u. op_parse_uuid T (op_show_uuid T u) = Some u \<and>
          list_all is_hex_or_hyphen (op_show_uuid T u))"

definition parse_socket :: "text_ops \<Rightarrow> string \<Rightarrow> socket_addr option" where
  "parse_socket T s =
     (case parse_socket_v4 s of Some a \<Rightarrow> Some a | None \<Rightarrow> op_parse_socket_v6 T s)"

fun show_ip :: "text_ops \<Rightarrow> ip_addr \<Rightarrow> string" where
  "show_ip T (V4 ip) = join_with (CHR ''.'') (map (\<lambda>o8. show_dec (unat o8)) (octets (V4 ip)))"
| "show_ip T (V6 ip) = op_show_ipv6 T ip"

subsection \<open>Printing\<close>

definition show_system :: "text_ops \<Rightarrow> system_path \<Rightarrow> string" where
  "show_system T sys =
     show_transport (protocol sys) @ ''://'' @ show_ip T (address sys) @ '':'' @
     show_dec (unat (port sys))"

definition path_text :: "string list \<Rightarrow> string" where
  "path_text path = foldl (\<lambda>acc arg. acc @ [PATH_SEP] @ arg) [] path"

fun show_actor_path :: "text_ops \<Rightarrow> actor_path \<Rightarrow> string" where
  "show_actor_path T (Named np) = show_system T (np_system np) @ path_text (np_path np)"
| "show_actor_path T (Unique up) =
     show_system T (up_system up) @ [UNIQUE_PATH_SEP] @ op_show_uuid T (up_id up)"

subsection \<open>Parsing\<close>

text \<open>Rust's \<open>str::split\<close> on the pattern \<open>"://"\<close>.\<close>

function split_scheme :: "string \<Rightarrow> string list" where
  "split_scheme [] = [[]]"
| "split_scheme (x # xs) =
     (if take 3 (x # xs) = ''://'' then [] # split_scheme (drop 2 xs)
      else (case split_scheme xs of [] \<Rightarrow> [[x]] | p # ps \<Rightarrow> (x # p) # ps))"
  by pat_completeness auto
termination
  by (relation "measure length") auto

definition unique_from_str :: "text_ops \<Rightarrow> string \<Rightarrow> (unique_path, path_parse_error) rresult" where
  "unique_from_str T s =
     (let parts = split_scheme s in
      if length parts \<noteq> 2 then Err (Form s)
      else rbind (transport_from_str (parts ! 0)) (\<lambda>proto.
        let parts2 = split_on UNIQUE_PATH_SEP (parts ! 1) in
        if length parts2 \<noteq> 2 then Err (Form s)
        else case parse_socket T (parts2 ! 0) of
          None \<Rightarrow> Err AddrErr
        | Some sock \<Rightarrow> (case op_parse_uuid T (parts2 ! 1) of
            None \<Rightarrow> Err (Form s)
          | Some u \<Rightarrow> Ok (unique_with_socket proto sock u))))"

definition named_from_str ::
    "bool \<Rightarrow> text_ops \<Rightarrow> string \<Rightarrow> (named_path, path_parse_error) rresult" where
  "named_from_str dbg T s =
     (let s1 = split_scheme s in
      if length s1 \<noteq> 2 then Err (Form s)
      else rbind (transport_from_str (s1 ! 0)) (\<lambda>proto.
        let s2 = split_on PATH_SEP (s1 ! 1) in
        if s2 = [] then Err (Form s)
        else case parse_socket T (s2 ! 0) of
          None \<Rightarrow> Err AddrErr
        | Some sock \<Rightarrow>
            (let path = (if length s2 > 1 then drop 1 s2 else []) in
             rbind (validate_lookup_path path) (\<lambda>_. named_with_socket dbg proto sock path))))"

definition actor_path_from_str ::
    "bool \<Rightarrow> text_ops \<Rightarrow> string \<Rightarrow> (actor_path, path_parse_error) rresult" where
  "actor_path_from_str dbg T s =
     (if UNIQUE_PATH_SEP \<in> set s then rbind (unique_from_str T s) (\<lambda>p. Ok (Unique p))
      else rbind (named_from_str dbg T s) (\<lambda>p. Ok (Named p)))"

subsection \<open>Numbers read back\<close>

lemma of_char_digit_char: "n < 10 \<Longrightarrow> (of_char (digit_char n) :: nat) = 48 + n"
  by (simp add: digit_char_def)

lemma is_digit_digit_char: "n < 10 \<Longrightarrow> is_digit (digit_char n)"
  by (simp add: is_digit_def of_char_digit_char)

lemma show_dec_digits: "list_all is_digit (show_dec n)"
  by (induction n rule: show_dec.induct) (subst show_dec.simps, simp add: is_digit_digit_char)

lemma show_dec_not_Nil [simp]: "show_dec n \<noteq> []"
  by (subst show_dec.simps) simp

lemma dec_val_snoc: "dec_val (s @ [c]) = dec_val s * 10 + (of_char c - 48)"
  by (simp add: dec_val_def)

lemma dec_val_show_dec: "dec_val (show_dec n) = n"
proof (induction n rule: show_dec.induct)
  case (1 n)
  show ?case
  proof (cases "n < 10")
    case True
    then show ?thesis by (simp add: show_dec.simps [of n] dec_val_def of_char_digit_char)
  next
    case False
    then show ?thesis using 1
      by (simp add: show_dec.simps [of n] dec_val_snoc of_char_digit_char)
  qed
qed

lemma digit_char_inj: "a < 10 \<Longrightarrow> b < 10 \<Longrightarrow> digit_char a = digit_char b \<longleftrightarrow> a = b"
  by (metis add_left_cancel of_char_digit_char)

lemma show_dec_no_zero_prefix: "hd (show_dec n) = digit_char 0 \<Longrightarrow> n = 0"
proof (induction n rule: show_dec.induct)
  case (1 n)
  then show ?case
    by (cases "n < 10") (auto simp: show_dec.simps [of n] digit_char_inj)
qed

lemma length_show_dec_1: "n < 10 \<Longrightarrow> length (show_dec n) = 1"
  by (simp add: show_dec.simps [of n])

lemma length_show_dec_div: "length (show_dec n) \<le> Suc (length (show_dec (n div 10)))"
  by (subst show_dec.simps) simp

lemma length_show_dec_3: "n < 1000 \<Longrightarrow> length (show_dec n) \<le> 3"
  using length_show_dec_div [of n] length_show_dec_div [of "n div 10"]
    length_show_dec_1 [of "n div 10 div 10"] by linarith

lemma takeWhile_digits:
  assumes "list_all is_digit ds" and "rest = [] \<or> \<not> is_digit (hd rest)"
  shows "takeWhile is_digit (ds @ rest) = ds" "dropWhile is_digit (ds @ rest) = rest"
  using assms by (induction ds; cases rest; auto)+

lemma read_number_show_dec:
  assumes "n \<le> bound" and "rest = [] \<or> \<not> is_digit (hd rest)"
    and "\<forall>m. md = Some m \<longrightarrow> length (show_dec n) \<le> m"
  shows "read_number md z bound (show_dec n @ rest) = Some (n, rest)"
proof -
  have "\<not> (hd (show_dec n) = digit_char 0 \<and> length (show_dec n) > 1)"
    using show_dec_no_zero_prefix [of n] length_show_dec_1 [of n] by auto
  with assms show ?thesis
    by (auto simp: read_number_def Let_def takeWhile_digits [OF show_dec_digits]
        dec_val_show_dec split: option.splits)
qed

lemma read_octet_show:
  "rest = [] \<or> \<not> is_digit (hd rest) \<Longrightarrow> read_octet (show_dec (unat (b :: u8)) @ rest) = Some (unat b, rest)"
  using unat_less_power [of b] length_show_dec_3 [of "unat b"]
  by (simp add: read_octet_def read_number_show_dec)

lemma not_digit_seps [simp]:
  "\<not> is_digit (CHR ''.'')" "\<not> is_digit (CHR '':'')" "\<not> is_digit (CHR ''/'')"
  "\<not> is_digit (CHR 0x23)"
  by (simp_all add: is_digit_def)

lemma be_bytes_4:
  "be_bytes 4 x = [of_nat (x div 256 div 256 div 256 mod 256), of_nat (x div 256 div 256 mod 256),
     of_nat (x div 256 mod 256), of_nat (x mod 256)]"
proof -
  have "4 = Suc (Suc (Suc (Suc 0)))" by simp
  then show ?thesis by (simp only: be_bytes.simps append.simps)
qed

lemma octets_V4_four: "\<exists>a b c d. octets (V4 ip) = [a, b, c, d]"
  by (simp add: be_bytes_4)

lemma V4_of_octets: "of_nat (be_val (octets (V4 ip))) = ip"
  using be_word_inverse(2) [of ip] by (simp add: be_val_be_bytes)

definition host_text :: "text_ops \<Rightarrow> u32 \<Rightarrow> u16 \<Rightarrow> string" where
  "host_text T ip p = show_ip T (V4 ip) @ '':'' @ show_dec (unat p)"

lemma parse_socket_host:
  "parse_socket T (host_text T ip p) = Some \<lparr>sock_ip = V4 ip, sock_port = p\<rparr>"
proof -
  obtain a b c d where o4: "octets (V4 ip) = [a, b, c, d]" using octets_V4_four by blast
  have tx: "host_text T ip p = show_dec (unat a) @ CHR ''.'' # show_dec (unat b) @ CHR ''.'' #
      show_dec (unat c) @ CHR ''.'' # show_dec (unat d) @ CHR '':'' # show_dec (unat p)"
    unfolding host_text_def show_ip.simps o4 by simp
  have dot: "read_dotted (CHR ''.'' # show_dec (unat x) @ rest) = Some (unat x, rest)"
    if "rest = [] \<or> \<not> is_digit (hd rest)" for x :: u8 and rest
    using that by (simp add: read_dotted_def expect_char_def read_octet_show)
  have "read_number None True 65535 (show_dec (unat p)) = Some (unat p, [])"
    using read_number_show_dec [of "unat p" 65535 "[]" None True] unat_less_power [of p] by simp
  moreover have "of_nat (be_val [a, b, c, d]) = ip"
    using V4_of_octets [of ip] unfolding o4 .
  ultimately have "parse_socket_v4 (host_text T ip p) = Some \<lparr>sock_ip = V4 ip, sock_port = p\<rparr>"
    unfolding tx parse_socket_v4_def
    by (simp add: read_octet_show dot expect_char_def)
  then show ?thesis by (simp add: parse_socket_def)
qed

lemma host_text_chars: "c \<in> set (host_text T ip p) \<Longrightarrow> is_digit c \<or> c = CHR ''.'' \<or> c = CHR '':''"
proof -
  obtain a b c' d where o4: "octets (V4 ip) = [a, b, c', d]" using octets_V4_four by blast
  assume "c \<in> set (host_text T ip p)"
  then show ?thesis
    using show_dec_digits unfolding host_text_def show_ip.simps o4
    by (fastforce simp: list_all_iff)
qed

subsection \<open>Splitting\<close>

fun no_dslash :: "string \<Rightarrow> bool" where
  "no_dslash [] = True"
| "no_dslash [x] = True"
| "no_dslash (x # y # zs) = (\<not> (x = CHR ''/'' \<and> y = CHR ''/'') \<and> no_dslash (y # zs))"

lemma no_dslash_tl: "no_dslash (x # xs) \<Longrightarrow> no_dslash xs"
  by (cases xs) auto

lemma split_scheme_single: "no_dslash s \<Longrightarrow> split_scheme s = [s]"
proof (induction s)
  case (Cons x xs)
  have "take 3 (x # xs) \<noteq> ''://''"
  proof
    assume "take 3 (x # xs) = ''://''"
    then obtain zs where "x # xs = ''://'' @ zs" by (metis append_take_drop_id)
    with Cons.prems show False by simp
  qed
  with Cons show ?case by (simp add: no_dslash_tl)
qed simp

lemma split_scheme_prefix: "CHR '':'' \<notin> set p \<Longrightarrow> split_scheme (p @ ''://'' @ r) = p # split_scheme r"
  by (induction p) auto

lemma no_dslash_append: "CHR ''/'' \<notin> set xs \<Longrightarrow> no_dslash ys \<Longrightarrow> no_dslash (xs @ ys)"
proof (induction xs)
  case (Cons x xs)
  then show ?case by (cases "xs @ ys") auto
qed simp

lemma path_text_eq: "path_text path = concat (map ((#) PATH_SEP) path)"
proof -
  have "foldl (\<lambda>acc arg. acc @ [PATH_SEP] @ arg) acc path = acc @ concat (map ((#) PATH_SEP) path)"
    for acc by (induction path arbitrary: acc) auto
  then show ?thesis by (simp add: path_text_def)
qed

lemma no_dslash_path_text:
  "\<forall>s \<in> set path. s \<noteq> [] \<and> PATH_SEP \<notin> set s \<Longrightarrow> no_dslash (path_text path)"
proof (induction path)
  case (Cons s path)
  then obtain x xs where s: "s = x # xs" by (cases s) auto
  from Cons have "no_dslash (xs @ path_text path)" "x \<noteq> CHR ''/''"
    by (auto simp: s PATH_SEP_def intro!: no_dslash_append)
  then have "no_dslash (x # xs @ path_text path)"
    by (cases "xs @ path_text path") auto
  with \<open>x \<noteq> CHR ''/''\<close> show ?case by (simp add: path_text_eq s PATH_SEP_def)
qed (simp add: path_text_def)

lemma split_on_path_text:
  "PATH_SEP \<notin> set h \<Longrightarrow> \<forall>s \<in> set path. PATH_SEP \<notin> set s \<Longrightarrow>
    split_on PATH_SEP (h @ path_text path) = h # path"
  by (induction path arbitrary: h) (auto simp: path_text_eq split_on_no_sep split_on_append)

lemma transport_text [simp]:
  "transport_from_str (show_transport t) = Ok t" "CHR '':'' \<notin> set (show_transport t)"
  "CHR 0x23 \<notin> set (show_transport t)"
  by (cases t; simp add: transport_from_str_def)+

lemma show_system_V4:
  "address sys = V4 ip \<Longrightarrow>
    show_system T sys = show_transport (protocol sys) @ ''://'' @ host_text T ip (port sys)"
  by (simp add: show_system_def host_text_def)

lemma host_text_no_sep [simp]:
  "CHR ''/'' \<notin> set (host_text T ip p)" "CHR 0x23 \<notin> set (host_text T ip p)"
  using host_text_chars by fastforce+

subsection \<open>Round trip\<close>

lemma system_path_V4:
  "address sys = V4 ip \<Longrightarrow> \<lparr>protocol = protocol sys, address = V4 ip, port = port sys\<rparr> = sys"
  by (cases sys) simp

lemma named_round_trip:
  assumes "address (np_system np) = V4 ip" and "lookup_path_ok (np_path np)"
  shows "actor_path_from_str dbg T (show_actor_path T (Named np)) = Ok (Named np)"
proof -
  let ?h = "host_text T ip (port (np_system np))"
  note seg = lookup_path_ok_segment [OF assms(2)]
  have tx: "show_actor_path T (Named np) =
      show_transport (protocol (np_system np)) @ ''://'' @ (?h @ path_text (np_path np))"
    by (simp add: show_system_V4 [OF assms(1)])
  have nd: "no_dslash (?h @ path_text (np_path np))"
    using seg by (intro no_dslash_append no_dslash_path_text) auto
  have hash: "UNIQUE_PATH_SEP \<notin> set (show_actor_path T (Named np))"
    using seg unfolding tx by (auto simp: path_text_eq path_chars)
  have sp: "split_on PATH_SEP (?h @ path_text (np_path np)) = ?h # np_path np"
    using seg by (intro split_on_path_text) (auto simp: PATH_SEP_def)
  have "named_from_str dbg T (show_actor_path T (Named np)) = Ok np"
    using assms unfolding tx named_from_str_def
    by (simp add: split_scheme_prefix [simplified] split_scheme_single nd sp parse_socket_host
        validate_lookup_path_Ok [THEN iffD2, OF assms(2)] system_path_V4 Let_def
        named_with_socket_def system_path_with_socket_def)
      (auto simp: validate_lookup_path_def)
  with hash show ?thesis by (simp add: actor_path_from_str_def)
qed

lemma unique_round_trip:
  assumes "address (up_system up) = V4 ip" and "uuid_text_documented T"
  shows "actor_path_from_str dbg T (show_actor_path T (Unique up)) = Ok (Unique up)"
proof -
  let ?h = "host_text T ip (port (up_system up))" and ?u = "op_show_uuid T (up_id up)"
  have uuid: "op_parse_uuid T ?u = Some (up_id up)" "CHR ''/'' \<notin> set ?u" "CHR 0x23 \<notin> set ?u"
    using assms(2) not_hex_seps by (auto simp: uuid_text_documented_def list_all_iff)
  have tx: "show_actor_path T (Unique up) =
      show_transport (protocol (up_system up)) @ ''://'' @ (?h @ CHR 0x23 # ?u)"
    by (simp add: show_system_V4 [OF assms(1)] UNIQUE_PATH_SEP_def)
  have "no_dslash ([CHR 0x23] @ (?u @ []))"
    using uuid by (intro no_dslash_append) auto
  then have nd: "no_dslash (?h @ CHR 0x23 # ?u)"
    using uuid by (intro no_dslash_append) auto
  have sp: "split_on (CHR 0x23) (?h @ CHR 0x23 # ?u) = [?h, ?u]"
    by (simp add: split_on_append split_on_no_sep uuid)
  have "unique_from_str T (show_actor_path T (Unique up)) = Ok up"
    using assms uuid unfolding tx unique_from_str_def UNIQUE_PATH_SEP_def
    by (simp add: split_scheme_prefix [simplified] split_scheme_single nd sp parse_socket_host
        unique_with_socket_def system_path_with_socket_def)
  moreover have "UNIQUE_PATH_SEP \<in> set (show_actor_path T (Unique up))"
    by (simp add: tx UNIQUE_PATH_SEP_def)
  ultimately show ?thesis by (simp add: actor_path_from_str_def)
qed

text \<open>
  C37: for an actor path on an IPv4 system (with a valid lookup path when it is named),
  parsing the printed path yields the path itself, in both build modes.
\<close>

theorem actor_path_text_round_trip:
  assumes "uuid_text_documented T" and "address (ap_system p) = V4 ip"
    and "\<forall>np. p = Named np \<longrightarrow> lookup_path_ok (np_path np)"
  shows "actor_path_from_str dbg T (show_actor_path T p) = Ok p"
proof (cases p)
  case (Unique up)
  with assms show ?thesis using unique_round_trip [of up ip T dbg] by simp
next
  case (Named np)
  with assms show ?thesis using named_round_trip [of np ip dbg T] by simp
qed

text \<open>A concrete instance of the text parameters for witnesses: UUIDs in decimal.\<close>

definition dec_text_ops :: text_ops where
  "dec_text_ops = \<lparr>op_show_ipv6 = (\<lambda>_. ''::''), op_parse_socket_v6 = (\<lambda>_. None),
     op_show_uuid = (\<lambda>u. show_dec (unat u)), op_parse_uuid = (\<lambda>s. Some (of_nat (dec_val s)))\<rparr>"

lemma dec_text_ops_documented: "uuid_text_documented dec_text_ops"
  using show_dec_digits
  by (simp add: uuid_text_documented_def dec_text_ops_def dec_val_show_dec list_all_iff
      is_hex_or_hyphen_def)

theorem actor_path_text_round_trip_witness:
  "actor_path_from_str True dec_text_ops
     (show_actor_path dec_text_ops (Named \<lparr>np_system = sample_system, np_path = [''a'', ''*'']\<rparr>)) =
   Ok (Named \<lparr>np_system = sample_system, np_path = [''a'', ''*'']\<rparr>)"
proof -
  have "lookup_path_ok [''a'', ''*'']"
    using validate_lookup_path_Ok [of "[''a'', ''*'']"] by code_simp
  then show ?thesis
    by (intro actor_path_text_round_trip [where ip = "0x7F000001"])
      (simp_all add: dec_text_ops_documented sample_system_def)
qed

end
