(* ===== verification/Path_Framing.thy ===== *)
theory Path_Framing
  imports Bit_Fields Path_Text
begin

section \<open>Wire format of actor paths (\<open>core/src/messaging/framing.rs\<close>)\<close>

text \<open>
  The one-byte system path header built from three bit fields, and the serialisers and
  deserialisers of system and actor paths. A serialiser yields the bytes it appends to the
  buffer; a deserialiser takes the readable bytes and yields the value with the bytes left
  over. The lemmas show the round trip for IPv4 paths, what happens to IPv6 paths, whose
  header bits overlap, and which named paths survive.
\<close>

subsection \<open>Header fields\<close>

datatype address_type = IPv4 | IPv6 | Domain

datatype path_type = PT_Unique | PT_Named

fun address_type_u8 :: "address_type \<Rightarrow> u8" where
  "address_type_u8 IPv4 = 0" | "address_type_u8 IPv6 = 1" | "address_type_u8 Domain = 2"

fun path_type_u8 :: "path_type \<Rightarrow> u8" where
  "path_type_u8 PT_Unique = 0" | "path_type_u8 PT_Named = 1"

fun transport_u8 :: "transport \<Rightarrow> u8" where
  "transport_u8 Local = 0" | "transport_u8 Tcp = 1" | "transport_u8 Udp = 2"

definition address_type_try_from :: "u8 \<Rightarrow> (address_type, ser_error) rresult" where
  "address_type_try_from x =
     (if x = address_type_u8 IPv4 then Ok IPv4
      else if x = address_type_u8 IPv6 then Ok IPv6
      else Err (InvalidType ''Unsupported AddressType''))"

definition path_type_try_from :: "u8 \<Rightarrow> (path_type, ser_error) rresult" where
  "path_type_try_from x =
     (if x = path_type_u8 PT_Unique then Ok PT_Unique
      else if x = path_type_u8 PT_Named then Ok PT_Named
      else Err (InvalidType ''Unsupported PathType''))"

definition transport_try_from :: "u8 \<Rightarrow> (transport, ser_error) rresult" where
  "transport_try_from x =
     (if x = transport_u8 Local then Ok Local
      else if x = transport_u8 Udp then Ok Udp
      else if x = transport_u8 Tcp then Ok Tcp
      else Err (InvalidType ''Unsupported transport protocol''))"

definition ok_option :: "('a, 'e) rresult \<Rightarrow> 'a option" where
  "ok_option r = (case r of Ok a \<Rightarrow> Some a | _ \<Rightarrow> None)"

definition address_type_field :: "address_type bit_field" where
  "address_type_field = \<lparr>POS = 2, WIDTH = 2, into_u8 = address_type_u8,
     try_from_u8 = (\<lambda>x. ok_option (address_type_try_from x))\<rparr>"

definition path_type_field :: "path_type bit_field" where
  "path_type_field = \<lparr>POS = 7, WIDTH = 1, into_u8 = path_type_u8,
     try_from_u8 = (\<lambda>x. ok_option (path_type_try_from x))\<rparr>"

definition transport_field :: "transport bit_field" where
  "transport_field = \<lparr>POS = 0, WIDTH = 5, into_u8 = transport_u8,
     try_from_u8 = (\<lambda>x. ok_option (transport_try_from x))\<rparr>"

fun address_type_of_ip :: "ip_addr \<Rightarrow> address_type" where
  "address_type_of_ip (V4 _) = IPv4" | "address_type_of_ip (V6 _) = IPv6"

record system_path_header =
  hdr_storage :: "u8 list"
  hdr_path_type :: path_type
  hdr_protocol :: transport
  hdr_address_type :: address_type

text \<open>The three stores of \<open>from_path\<close> and \<open>from_system\<close>, each unwrapped with \<open>expect\<close>.\<close>

definition header_store ::
    "path_type \<Rightarrow> system_path \<Rightarrow> (system_path_header, ser_error) rresult" where
  "header_store pt sys =
     (let at = address_type_of_ip (address sys) in
      rbind (expect_ok (bf_store path_type_field pt [0])) (\<lambda>s1.
      rbind (expect_ok (bf_store transport_field (protocol sys) s1)) (\<lambda>s2.
      rbind (expect_ok (bf_store address_type_field at s2)) (\<lambda>s3.
        Ok \<lparr>hdr_storage = s3, hdr_path_type = pt, hdr_protocol = protocol sys,
            hdr_address_type = at\<rparr>))))"

definition header_from_path :: "actor_path \<Rightarrow> (system_path_header, ser_error) rresult" where
  "header_from_path p =
     header_store (case p of Unique _ \<Rightarrow> PT_Unique | Named _ \<Rightarrow> PT_Named) (ap_system p)"

definition header_from_system :: "system_path \<Rightarrow> (system_path_header, ser_error) rresult" where
  "header_from_system sys = header_store PT_Unique sys"

definition header_put_into :: "system_path_header \<Rightarrow> u8 list" where
  "header_put_into h = [hdr_storage h ! 0]"

definition header_try_from :: "u8 \<Rightarrow> (system_path_header, ser_error) rresult" where
  "header_try_from value =
     (let storage = [value] in
      rbind (rmap_err (\<lambda>_. InvalidData ''System Path could not be read.'')
              (bf_get_as path_type_field storage)) (\<lambda>pt.
      rbind (rmap_err (\<lambda>_. InvalidData ''System Path Transport could not be read.'')
              (bf_get_as transport_field storage)) (\<lambda>proto.
      rbind (rmap_err (\<lambda>_. InvalidData ''System Path AddressType could not be read.'')
              (bf_get_as address_type_field storage)) (\<lambda>at.
        Ok \<lparr>hdr_storage = storage, hdr_path_type = pt, hdr_protocol = proto,
            hdr_address_type = at\<rparr>))))"

subsection \<open>System paths\<close>

definition system_path_size_hint :: "system_path \<Rightarrow> nat option" where
  "system_path_size_hint sys =
     Some (1 + (case address sys of V4 _ \<Rightarrow> 4 | V6 _ \<Rightarrow> 16) + 2)"

definition system_path_put_into_buf :: "buf_ops \<Rightarrow> system_path \<Rightarrow> u8 list" where
  "system_path_put_into_buf ops sys = octets (address sys) @ op_put_u16 ops (port sys)"

definition system_path_serialise :: "buf_ops \<Rightarrow> system_path \<Rightarrow> (u8 list, ser_error) rresult" where
  "system_path_serialise ops sys =
     rbind (header_from_system sys) (\<lambda>h. Ok (header_put_into h @ system_path_put_into_buf ops sys))"

text \<open>\<open>Buf::get_u8\<close>: panics when nothing is left.\<close>

definition get_u8 :: "u8 list \<Rightarrow> (u8 \<times> u8 list, 'e) rresult" where
  "get_u8 bs = (case bs of [] \<Rightarrow> Panic | b # rest \<Rightarrow> Ok (b, rest))"

definition system_path_from_buf ::
    "buf_ops \<Rightarrow> u8 list \<Rightarrow> ((system_path_header \<times> system_path) \<times> u8 list, ser_error) rresult" where
  "system_path_from_buf ops buf =
     rbind (get_u8 buf) (\<lambda>(fields, b1).
     rbind (header_try_from fields) (\<lambda>header.
     rbind
       (case hdr_address_type header of
          IPv4 \<Rightarrow>
            if length b1 < 4 then Err (InvalidData ''Could not parse 4 bytes for IPv4 address'')
            else Ok (V4 (of_nat (be_val (take 4 b1))), drop 4 b1)
        | IPv6 \<Rightarrow>
            if length b1 < 16 then Err (InvalidData ''Could not parse 16 bytes for IPv6 address'')
            else Ok (V6 (of_nat (be_val (take 16 b1))), drop 16 b1)
        | Domain \<Rightarrow> Panic) (\<lambda>(addr, b2).
     rbind (or_panic (op_get_u16 ops b2)) (\<lambda>(p, b3).
       Ok ((header, system_path_new (hdr_protocol header) addr p), b3)))))"

definition system_path_deserialise ::
    "buf_ops \<Rightarrow> u8 list \<Rightarrow> (system_path \<times> u8 list, ser_error) rresult" where
  "system_path_deserialise ops buf =
     rbind (system_path_from_buf ops buf) (\<lambda>((h, sys), rest). Ok (sys, rest))"

subsection \<open>Actor paths\<close>

definition u16_try_from :: "nat \<Rightarrow> u16 option" where
  "u16_try_from n = (if n < 2 ^ 16 then Some (of_nat n) else None)"

definition u16_checked_add :: "u16 \<Rightarrow> u16 \<Rightarrow> u16 option" where
  "u16_checked_add a b = (if unat a + unat b < 2 ^ 16 then Some (a + b) else None)"

definition actor_path_size_hint :: "actor_path \<Rightarrow> nat option" where
  "actor_path_size_hint p =
     Option.bind (system_path_size_hint (ap_system p)) (\<lambda>size.
     Option.bind
       (case p of
          Unique _ \<Rightarrow> Some 16
        | Named np \<Rightarrow>
            Option.bind (u16_try_from (length (np_path np) * 5)) (\<lambda>name_len.
              map_option unat (u16_checked_add 2 name_len))) (\<lambda>rest. Some (size + rest)))"

definition actor_path_serialise :: "buf_ops \<Rightarrow> actor_path \<Rightarrow> (u8 list, ser_error) rresult" where
  "actor_path_serialise ops p =
     rbind (header_from_path p) (\<lambda>h.
       let prefix = header_put_into h @ system_path_put_into_buf ops (ap_system p) in
       (case p of
          Unique up \<Rightarrow> Ok (prefix @ op_uuid_bytes ops (up_id up))
        | Named np \<Rightarrow>
            (let data = as_bytes (join_with PATH_SEP (np_path np)) in
             case u16_try_from (length data) of
               None \<Rightarrow> Err (InvalidData ''Named path overflows designated 2 bytes length.'')
             | Some name_len \<Rightarrow> Ok (prefix @ op_put_u16 ops name_len @ data))))"

definition actor_path_deserialise ::
    "bool \<Rightarrow> buf_ops \<Rightarrow> u8 list \<Rightarrow> (actor_path \<times> u8 list, ser_error) rresult" where
  "actor_path_deserialise dbg ops buf =
     rbind (system_path_from_buf ops buf) (\<lambda>((header, sys), b1).
       case hdr_path_type header of
         PT_Unique \<Rightarrow>
           if length b1 < 16 then Err (InvalidData ''Could not get 16 bytes for UUID'')
           else Ok (Unique (unique_with_system sys (op_uuid_from ops (take 16 b1))), drop 16 b1)
       | PT_Named \<Rightarrow>
           rbind (or_panic (op_get_u16 ops b1)) (\<lambda>(name_len, b2).
             if length b2 < unat name_len
             then Err (InvalidData (''Could not get '' @ show_dec (unat name_len) @ '' bytes for path name''))
             else
               (let parts = split_on PATH_SEP (from_utf8_unchecked (take (unat name_len) b2)) in
                if parts = [] then Err (InvalidData ''Could not determine name for Named path type'')
                else rbind (expect_ok (named_with_system dbg sys parts))
                  (\<lambda>np. Ok (Named np, drop (unat name_len) b2)))))"

subsection \<open>The header byte\<close>

definition header_byte :: "path_type \<Rightarrow> transport \<Rightarrow> address_type \<Rightarrow> u8" where
  "header_byte pt t at = push_bit 7 (path_type_u8 pt) + transport_u8 t + push_bit 2 (address_type_u8 at)"

lemma store_path_type: "bf_store path_type_field pt [0] = Ok [push_bit 7 (path_type_u8 pt)]"
  by (cases pt; hypsubst; code_simp)

lemma store_transport:
  "bf_store transport_field t [push_bit 7 (path_type_u8 pt)] =
     Ok [push_bit 7 (path_type_u8 pt) + transport_u8 t]"
  by (cases pt; cases t; hypsubst; code_simp)

lemma store_address_type:
  "at \<noteq> Domain \<Longrightarrow> bf_store address_type_field at [push_bit 7 (path_type_u8 pt) + transport_u8 t] =
     Ok [header_byte pt t at]"
proof (cases at)
  case IPv4
  show ?thesis unfolding IPv4 by (cases pt; cases t; hypsubst; code_simp)
next
  case IPv6
  show ?thesis unfolding IPv6 by (cases pt; cases t; hypsubst; code_simp)
qed simp

lemma address_type_of_ip_not_Domain [simp]: "address_type_of_ip a \<noteq> Domain"
  by (cases a) auto

lemma header_store_byte:
  "header_store pt sys = Ok \<lparr>hdr_storage = [header_byte pt (protocol sys) (address_type_of_ip (address sys))],
     hdr_path_type = pt, hdr_protocol = protocol sys,
     hdr_address_type = address_type_of_ip (address sys)\<rparr>"
  by (simp add: header_store_def Let_def store_path_type store_transport store_address_type)

lemma header_try_from_IPv4:
  "header_try_from (header_byte pt t IPv4) = Ok \<lparr>hdr_storage = [header_byte pt t IPv4],
     hdr_path_type = pt, hdr_protocol = t, hdr_address_type = IPv4\<rparr>"
  by (cases pt; cases t; hypsubst; code_simp)

lemma header_try_from_IPv6:
  "header_try_from (header_byte pt t IPv6) =
     Err (InvalidData ''System Path Transport could not be read.'')"
  by (cases pt; cases t; hypsubst; code_simp)

subsection \<open>Reading back\<close>

lemma V4_of_be_bytes: "V4 (of_nat (be_val (be_bytes 4 (unat ip)))) = V4 ip"
  using be_word_inverse(2) [of ip] by (simp add: be_val_be_bytes)

context bytes_api
begin

lemma from_buf_V4:
  assumes "address sys = V4 ip"
  shows "system_path_from_buf ops
      (header_byte pt (protocol sys) IPv4 # system_path_put_into_buf ops sys @ rest) =
    Ok ((\<lparr>hdr_storage = [header_byte pt (protocol sys) IPv4], hdr_path_type = pt,
          hdr_protocol = protocol sys, hdr_address_type = IPv4\<rparr>, sys), rest)"
  using assms V4_of_be_bytes [of ip]
  by (simp add: system_path_from_buf_def get_u8_def header_try_from_IPv4
      system_path_put_into_buf_def system_path_new_def)

lemma from_buf_V6:
  "system_path_from_buf ops (header_byte pt t IPv6 # rest) =
     Err (InvalidData ''System Path Transport could not be read.'')"
  by (simp add: system_path_from_buf_def get_u8_def header_try_from_IPv6)

lemma system_path_serialise_eq:
  "system_path_serialise ops sys = Ok (header_byte PT_Unique (protocol sys)
     (address_type_of_ip (address sys)) # system_path_put_into_buf ops sys)"
  by (simp add: system_path_serialise_def header_from_system_def header_store_byte header_put_into_def)

lemma length_put_into_buf:
  "length (system_path_put_into_buf ops sys) = (case address sys of V4 _ \<Rightarrow> 4 | V6 _ \<Rightarrow> 16) + 2"
  by (simp add: system_path_put_into_buf_def split: ip_addr.splits)

lemma size_hint_exact:
  "system_path_serialise ops sys = Ok bs \<Longrightarrow> system_path_size_hint sys = Some (length bs)"
  by (auto simp: system_path_serialise_eq system_path_size_hint_def length_put_into_buf
      split: ip_addr.splits)

lemma system_path_round_trip_V4:
  assumes "address sys = V4 ip"
  shows "\<exists>bs. system_path_serialise ops sys = Ok bs \<and> system_path_size_hint sys = Some (length bs) \<and>
    system_path_deserialise ops (bs @ rest) = Ok (sys, rest)"
  using assms from_buf_V4 [of sys ip PT_Unique rest] size_hint_exact [of sys]
  by (simp add: system_path_serialise_eq system_path_deserialise_def)

lemma unique_round_trip_V4:
  assumes "address (up_system up) = V4 ip"
  shows "\<exists>bs. actor_path_serialise ops (Unique up) = Ok bs \<and>
    actor_path_size_hint (Unique up) = Some (length bs) \<and>
    actor_path_deserialise dbg ops (bs @ rest) = Ok (Unique up, rest)"
  using assms from_buf_V4 [of "up_system up" ip PT_Unique "op_uuid_bytes ops (up_id up) @ rest"]
  by (simp add: actor_path_serialise_def header_from_path_def header_store_byte header_put_into_def
      actor_path_deserialise_def unique_with_system_def length_put_into_buf actor_path_size_hint_def
      system_path_size_hint_def)

text \<open>The named part: length prefix, joined text, and the split on the way back.\<close>

lemma named_decode:
  assumes "address (np_system np) = V4 ip" and "length (join_with PATH_SEP (np_path np)) < 2 ^ 16"
  shows "\<exists>bs. actor_path_serialise ops (Named np) = Ok bs \<and>
    actor_path_deserialise dbg ops (bs @ rest) =
      rbind (expect_ok (named_with_system dbg (np_system np)
               (split_on PATH_SEP (join_with PATH_SEP (np_path np)))))
        (\<lambda>p. Ok (Named p, rest))"
proof -
  let ?data = "as_bytes (join_with PATH_SEP (np_path np))"
  have len: "u16_try_from (length ?data) = Some (of_nat (length ?data))"
    "unat (of_nat (length ?data) :: u16) = length ?data"
    using assms(2) by (simp_all add: u16_try_from_def unat_of_nat take_bit_eq_mod)
  show ?thesis
    using assms(1) len
      from_buf_V4 [of "np_system np" ip PT_Named "op_put_u16 ops (of_nat (length ?data)) @ ?data @ rest"]
    by (simp add: actor_path_serialise_def header_from_path_def header_store_byte header_put_into_def
        actor_path_deserialise_def Let_def)
qed

lemma actor_path_V6:
  assumes "address (ap_system p) = V6 ip" and "actor_path_serialise ops p = Ok bs"
  shows "actor_path_deserialise dbg ops (bs @ rest) =
    Err (InvalidData ''System Path Transport could not be read.'')"
  using assms
  by (cases p) (auto simp: actor_path_serialise_def header_from_path_def header_store_byte
      header_put_into_def actor_path_deserialise_def from_buf_V6 Let_def split: option.splits)

end

lemma named_round_trip_name:
  "path \<noteq> [] \<Longrightarrow> lookup_path_ok path \<Longrightarrow> split_on PATH_SEP (join_with PATH_SEP path) = path"
  by (rule split_on_join) (auto dest: lookup_path_ok_segment)

text \<open>
  serialising a system path with an IPv4 address succeeds, writes exactly the number of
  bytes \<open>size_hint\<close> announces, and deserialising these bytes, whatever follows them in the
  buffer, gives the path back and leaves what follows.
\<close>

theorem system_path_round_trip:
  assumes "bytes_documented ops" and "address sys = V4 ip"
  shows "\<exists>bs. system_path_serialise ops sys = Ok bs \<and> system_path_size_hint sys = Some (length bs) \<and>
    system_path_deserialise ops (bs @ rest) = Ok (sys, rest)"
  by (rule bytes_api.system_path_round_trip_V4 [OF bytes_api.intro]) (fact assms)+

theorem system_path_round_trip_witness:
  "\<exists>bs. system_path_serialise be_buf_ops sample_system = Ok bs \<and> length bs = 7 \<and>
     system_path_deserialise be_buf_ops (bs @ [9]) = Ok (sample_system, [9])"
proof -
  have a: "address sample_system = V4 0x7F000001" by (simp add: sample_system_def)
  have "system_path_size_hint sample_system = Some 7"
    by (simp add: system_path_size_hint_def sample_system_def)
  with system_path_round_trip [OF be_buf_ops_documented a, of "[9]"]
  show ?thesis by auto
qed

text \<open>
  a path with an IPv6 address is never readable: the address type bit written at position
  two lies inside the five bits read back as the transport protocol, so both deserialisers
  report that the transport could not be read on every serialised IPv6 path.
\<close>

theorem ipv6_paths_unreadable:
  assumes "bytes_documented ops" and "address (ap_system p) = V6 ip"
    and "system_path_serialise ops (ap_system p) = Ok sbs" and "actor_path_serialise ops p = Ok bs"
  shows "system_path_deserialise ops (sbs @ rest) =
      Err (InvalidData ''System Path Transport could not be read.'') \<and>
    actor_path_deserialise dbg ops (bs @ rest) =
      Err (InvalidData ''System Path Transport could not be read.'')"
proof -
  have api: "bytes_api ops" by (rule bytes_api.intro) (fact assms(1))
  show ?thesis
    using assms(2,3) bytes_api.actor_path_V6 [OF api assms(2,4)]
    by (auto simp: bytes_api.system_path_serialise_eq [OF api] system_path_deserialise_def
        bytes_api.from_buf_V6 [OF api])
qed

theorem ipv6_paths_unreadable_witness:
  "\<exists>sbs bs. system_path_serialise be_buf_ops (sample_system\<lparr>address := V6 1\<rparr>) = Ok sbs \<and>
     actor_path_serialise be_buf_ops
       (Unique \<lparr>up_system = sample_system\<lparr>address := V6 1\<rparr>, up_id = 7\<rparr>) = Ok bs \<and>
     actor_path_deserialise True be_buf_ops bs =
       Err (InvalidData ''System Path Transport could not be read.'')"
proof -
  let ?p = "Unique \<lparr>up_system = sample_system\<lparr>address := V6 1\<rparr>, up_id = 7\<rparr>"
  have a: "address (ap_system ?p) = V6 1" by simp
  obtain sbs where s: "system_path_serialise be_buf_ops (ap_system ?p) = Ok sbs"
    using be.system_path_serialise_eq by blast
  obtain bs where b: "actor_path_serialise be_buf_ops ?p = Ok bs"
    by (simp add: actor_path_serialise_def header_from_path_def header_store_byte)
  from ipv6_paths_unreadable [OF be_buf_ops_documented a s b, of "[]" True] s b
  show ?thesis by auto
qed

text \<open>
  C27: an actor path on an IPv4 system survives serialisation: a unique path always, and a
  named path when it has at least one segment, passes \<open>validate_lookup_path\<close> and its text
  fits the two length bytes. The bytes that follow are left in the buffer, and a named path
  whose text is longer is refused with an error.
\<close>

theorem actor_path_round_trip:
  assumes "bytes_documented ops" and "address (ap_system p) = V4 ip"
    and "\<And>np. p = Named np \<Longrightarrow> np_path np \<noteq> [] \<and> validate_lookup_path (np_path np) = Ok ()"
  shows "if \<exists>np. p = Named np \<and> length (join_with PATH_SEP (np_path np)) \<ge> 2 ^ 16
    then \<exists>e. actor_path_serialise ops p = Err e
    else \<exists>bs. actor_path_serialise ops p = Ok bs \<and>
      actor_path_deserialise dbg ops (bs @ rest) = Ok (p, rest)"
proof -
  have api: "bytes_api ops" by (rule bytes_api.intro) (fact assms(1))
  show ?thesis
  proof (cases p)
    case (Unique up)
    then show ?thesis
      using bytes_api.unique_round_trip_V4 [OF api, of up ip dbg rest] assms(2) by auto
  next
    case (Named np)
    have ok: "np_path np \<noteq> []" "lookup_path_ok (np_path np)" using assms(3) [OF Named] by auto
    show ?thesis
    proof (cases "length (join_with PATH_SEP (np_path np)) < 2 ^ 16")
      case True
      then show ?thesis
        using bytes_api.named_decode [OF api, of np ip dbg rest] assms(2) ok Named
        by (auto simp: named_round_trip_name named_with_system_def)
    next
      case False
      then show ?thesis using Named
        by (auto simp: actor_path_serialise_def header_from_path_def header_store_byte u16_try_from_def)
    qed
  qed
qed

theorem actor_path_round_trip_witness:
  "\<exists>bs. actor_path_serialise be_buf_ops
       (Named \<lparr>np_system = sample_system, np_path = [''a'', ''bc'']\<rparr>) = Ok bs \<and>
     actor_path_deserialise True be_buf_ops (bs @ [5]) =
       Ok (Named \<lparr>np_system = sample_system, np_path = [''a'', ''bc'']\<rparr>, [5])"
proof -
  let ?p = "Named \<lparr>np_system = sample_system, np_path = [''a'', ''bc'']\<rparr>"
  have a: "address (ap_system ?p) = V4 0x7F000001" by (simp add: sample_system_def)
  have v: "validate_lookup_path [''a'', ''bc''] = Ok ()" by code_simp
  then have "np_path np \<noteq> [] \<and> validate_lookup_path (np_path np) = Ok ()" if "?p = Named np" for np
    using that by auto
  from actor_path_round_trip [OF be_buf_ops_documented a this, of True "[5]"]
  show ?thesis by simp
qed

text \<open>
  the empty named path, which is the path of the dead letter box and passes
  \<open>validate_lookup_path\<close>, does not survive: its text is empty, the split on the way back
  yields one empty segment, and building the named path panics under debug assertions and
  otherwise gives the path with one empty segment.
\<close>

theorem empty_named_path_not_preserved:
  assumes "bytes_documented ops" and "address sys = V4 ip"
  shows "validate_lookup_path [] = Ok () \<and>
    (\<exists>bs. actor_path_serialise ops (Named \<lparr>np_system = sys, np_path = []\<rparr>) = Ok bs \<and>
      actor_path_deserialise dbg ops (bs @ rest) =
        (if dbg then Panic else Ok (Named \<lparr>np_system = sys, np_path = [[]]\<rparr>, rest)))"
proof -
  have api: "bytes_api ops" by (rule bytes_api.intro) (fact assms(1))
  have "\<not> lookup_path_ok [[]]" by (simp add: lookup_path_ok_def lookup_segment_ok_def)
  then show ?thesis
    using bytes_api.named_decode [OF api, of "\<lparr>np_system = sys, np_path = []\<rparr>" ip dbg rest] assms(2)
    by (auto simp: named_with_system_def)
qed

theorem empty_named_path_not_preserved_witness:
  "\<exists>bs. actor_path_serialise be_buf_ops (Named \<lparr>np_system = sample_system, np_path = []\<rparr>) = Ok bs \<and>
     actor_path_deserialise False be_buf_ops (bs @ []) =
       Ok (Named \<lparr>np_system = sample_system, np_path = [[]]\<rparr>, [])"
proof -
  have a: "address sample_system = V4 0x7F000001" by (simp add: sample_system_def)
  from empty_named_path_not_preserved [OF be_buf_ops_documented a, of False "[]"]
  show ?thesis by simp
qed

text \<open>A zero byte is the header of a unique path on a local IPv4 system.\<close>

lemma zero_header:
  "header_try_from 0 = Ok \<lparr>hdr_storage = [0], hdr_path_type = PT_Unique, hdr_protocol = Local, hdr_address_type = IPv4\<rparr>"
  by code_simp

lemma zero_system:
  "system_path_from_buf be_buf_ops (0 # 0 # 0 # 0 # 0 # 0 # 0 # t) =
     Ok ((\<lparr>hdr_storage = [0], hdr_path_type = PT_Unique, hdr_protocol = Local, hdr_address_type = IPv4\<rparr>,
          system_path_new Local (V4 (of_nat (be_val [0, 0, 0, 0]))) (of_nat (be_val [0, 0]))), t)"
  unfolding system_path_from_buf_def get_u8_def list.case rbind.simps prod.case zero_header
  by (simp add: be.get_u16_eq)

end
