(* ===== verification/Chunk_Lease.thy ===== *)
theory Chunk_Lease
  imports Kompact_Prelude
begin

section \<open>Chunk leases and references (\<open>core/src/net/buffers/chunk_lease.rs\<close>, \<open>chunk_ref.rs\<close>)\<close>

text \<open>
  A lease is a chain of byte slices, each with the lock of the buffer chunk it was cut from. A
  slice is the list of its bytes, a lock the number of its reference counter. The lemmas show
  the chain operations on the list of (lock, byte) cells of a lease: appending
  concatenates, splitting partitions, reading and turning a lease into a
  reference keep the unread bytes and the locks that protect them.
\<close>

subsection \<open>Leases\<close>

type_synonym lock = nat

datatype chunk_lease = ChunkLease (content: "u8 list") (write_pointer: nat) (read_pointer: nat)
  (chain_head_len: nat) (lock: lock) (chain: "chunk_lease option") (chain_len: nat)

definition lease_new :: "u8 list \<Rightarrow> lock \<Rightarrow> chunk_lease" where
  "lease_new c l = ChunkLease c (length c) 0 (length c) l None (length c)"

text \<open>\<open>Arc::new(())\<close> makes a lock nobody else holds: it is an argument.\<close>

definition lease_empty :: "lock \<Rightarrow> chunk_lease" where
  "lease_empty fresh = lease_new [] fresh"

definition capacity :: "chunk_lease \<Rightarrow> nat" where
  "capacity l = chain_len l"

fun append_to_chain :: "chunk_lease \<Rightarrow> chunk_lease \<Rightarrow> chunk_lease" where
  "append_to_chain (ChunkLease c w r h l ch n) new_tail =
     ChunkLease c w r h l
       (case ch of Some tail \<Rightarrow> Some (append_to_chain tail new_tail) | None \<Rightarrow> Some new_tail)
       (n + chain_len new_tail)"

text \<open>The second component of the result is the lease that is returned, the first is \<open>self\<close> afterwards.\<close>

fun split_at :: "lock \<Rightarrow> chunk_lease \<Rightarrow> nat \<Rightarrow> (chunk_lease \<times> chunk_lease, unit) rresult" where
  "split_at fresh (ChunkLease c w r h l ch n) position =
     (if \<not> position \<le> n then Panic
      else if position > h then
        (case ch of
           Some tail \<Rightarrow> rbind (split_at fresh tail (position - h))
             (\<lambda>(tail', ret). Ok (ChunkLease c w r h l (Some tail') position, ret))
         | None \<Rightarrow> Panic)
      else if position = h then
        Ok (ChunkLease c w r h l None position,
            (case ch of Some tail_chain \<Rightarrow> tail_chain | None \<Rightarrow> lease_empty fresh))
      else
        (let return_lease = lease_new (take (h - position) (drop position c)) l
         in Ok (ChunkLease (take position c) w r position l None position,
                (case ch of Some tail_chain \<Rightarrow> append_to_chain return_lease tail_chain
                  | None \<Rightarrow> return_lease))))"

fun get_chunk_at :: "chunk_lease \<Rightarrow> nat \<Rightarrow> (u8 list, unit) rresult" where
  "get_chunk_at (ChunkLease c w r h l ch n) pos =
     (if pos \<ge> h then (case ch of Some t \<Rightarrow> get_chunk_at t (pos - h) | None \<Rightarrow> Panic)
      else if pos \<le> length c then Ok (drop pos c) else Panic)"

definition lease_remaining :: "chunk_lease \<Rightarrow> nat" where
  "lease_remaining l = chain_len l - read_pointer l"

definition lease_chunk :: "chunk_lease \<Rightarrow> (u8 list, unit) rresult" where
  "lease_chunk l = get_chunk_at l (read_pointer l)"

fun set_read_pointer :: "nat \<Rightarrow> chunk_lease \<Rightarrow> chunk_lease" where
  "set_read_pointer r' (ChunkLease c w r h l ch n) = ChunkLease c w r' h l ch n"

definition lease_advance :: "nat \<Rightarrow> chunk_lease \<Rightarrow> chunk_lease" where
  "lease_advance cnt l = set_read_pointer (read_pointer l + cnt) l"

definition lease_remaining_mut :: "chunk_lease \<Rightarrow> nat" where
  "lease_remaining_mut l = chain_len l - write_pointer l"

text \<open>The loop of \<open>create_byte_clone\<close>; \<open>None\<close> is a loop that does not end.\<close>

partial_function (option) byte_clone_loop :: "chunk_lease \<Rightarrow> nat \<Rightarrow> u8 list \<Rightarrow> (u8 list, unit) rresult option" where
  "byte_clone_loop l rp buf =
     (if rp < chain_len l then
        (case get_chunk_at l rp of
           Ok read_bytes \<Rightarrow> byte_clone_loop l (rp + length read_bytes) (buf @ read_bytes)
         | Err e \<Rightarrow> Some (Err e)
         | Panic \<Rightarrow> Some Panic)
      else Some (Ok buf))"

definition create_byte_clone :: "chunk_lease \<Rightarrow> (u8 list, unit) rresult option" where
  "create_byte_clone l = byte_clone_loop l (read_pointer l) []"

subsection \<open>The cells of a lease\<close>

text \<open>The bytes of a lease in order, each with the lock that keeps its chunk from being reused.\<close>

fun lease_cells :: "chunk_lease \<Rightarrow> (lock \<times> u8) list" where
  "lease_cells (ChunkLease c w r h l ch n) =
     map (Pair l) c @ (case ch of Some t \<Rightarrow> lease_cells t | None \<Rightarrow> [])"

text \<open>The lengths are right, and only the first slice of a chain has been read from.\<close>

fun lease_wf :: "chunk_lease \<Rightarrow> bool" where
  "lease_wf (ChunkLease c w r h l ch n) \<longleftrightarrow>
     h = length c \<and>
     (case ch of Some t \<Rightarrow> lease_wf t \<and> read_pointer t = 0 \<and> n = h + chain_len t | None \<Rightarrow> n = h)"

lemma lease_new_facts [simp]:
  "lease_wf (lease_new c l)" "lease_cells (lease_new c l) = map (Pair l) c"
  "read_pointer (lease_new c l) = 0" "chain_len (lease_new c l) = length c"
  by (simp_all add: lease_new_def)

lemma lease_empty_facts [simp]:
  "lease_wf (lease_empty fresh)" "lease_cells (lease_empty fresh) = []"
  "read_pointer (lease_empty fresh) = 0" "chain_len (lease_empty fresh) = 0"
  by (simp_all add: lease_empty_def)

lemma length_cells: "lease_wf l \<Longrightarrow> length (lease_cells l) = chain_len l"
  by (induction l rule: lease_cells.induct) (auto split: option.splits)

lemma append_facts [simp]:
  "chain_len (append_to_chain l t) = chain_len l + chain_len t"
  "read_pointer (append_to_chain l t) = read_pointer l"
  "lock (append_to_chain l t) = lock l"
  "lease_cells (append_to_chain l t) = lease_cells l @ lease_cells t"
  by (induction l t rule: append_to_chain.induct) (auto split: option.splits)

lemma append_wf: "lease_wf l \<Longrightarrow> lease_wf t \<Longrightarrow> read_pointer t = 0 \<Longrightarrow> lease_wf (append_to_chain l t)"
  by (induction l t rule: append_to_chain.induct) (auto split: option.splits)

lemma split_at_spec:
  "lease_wf l \<Longrightarrow> p \<le> chain_len l \<Longrightarrow>
     \<exists>a t. split_at fresh l p = Ok (a, t) \<and> lease_wf a \<and> lease_wf t \<and> chain_len a = p \<and>
       chain_len t = chain_len l - p \<and> read_pointer a = read_pointer l \<and> read_pointer t = 0 \<and>
       lease_cells a = take p (lease_cells l) \<and> lease_cells t = drop p (lease_cells l)"
proof (induction fresh l p rule: split_at.induct)
  case (1 fresh c w r h l ch n p)
  consider "p > h" | "p = h" | "p < h" by linarith
  then show ?case
  proof cases
    case 1
    with "1.prems" obtain tl where tl: "ch = Some tl" by (cases ch) auto
    with "1.prems" 1 have pre: "lease_wf tl" "p - h \<le> chain_len tl" "read_pointer tl = 0" by auto
    obtain a t where "split_at fresh tl (p - h) = Ok (a, t)" "lease_wf a" "lease_wf t" "chain_len a = p - h"
      "chain_len t = chain_len tl - (p - h)" "read_pointer a = 0" "read_pointer t = 0"
      "lease_cells a = take (p - h) (lease_cells tl)" "lease_cells t = drop (p - h) (lease_cells tl)"
      using "1.IH" [OF _ 1 tl pre(1) pre(2)] "1.prems"(2) pre(3) by auto
    then show ?thesis using 1 tl "1.prems" by auto
  next
    case 2
    then show ?thesis using "1.prems" by (cases ch) auto
  next
    case 3
    then show ?thesis using "1.prems"
      by (cases ch) (auto simp: Let_def take_map drop_map append_wf)
  qed
qed

lemma get_chunk_at_spec:
  "lease_wf l \<Longrightarrow> p < chain_len l \<Longrightarrow>
     \<exists>bs rest. get_chunk_at l p = Ok bs \<and> bs \<noteq> [] \<and> drop p (map snd (lease_cells l)) = bs @ rest"
proof (induction l p rule: get_chunk_at.induct)
  case (1 c w r h l ch n p)
  then show ?case
    by (cases ch) (auto simp: comp_def)
qed

lemma get_chunk_at_panics: "lease_wf l \<Longrightarrow> chain_len l \<le> p \<Longrightarrow> get_chunk_at l p = Panic"
  by (induction l p rule: get_chunk_at.induct) (auto split: option.splits)

lemma byte_clone_loop_spec:
  "lease_wf l \<Longrightarrow> byte_clone_loop l rp buf = Some (Ok (buf @ drop rp (map snd (lease_cells l))))"
proof (induction "chain_len l - rp" arbitrary: rp buf rule: less_induct)
  case less
  show ?case
  proof (cases "rp < chain_len l")
    case True
    obtain bs rest where bs: "get_chunk_at l rp = Ok bs" "bs \<noteq> []" "drop rp (map snd (lease_cells l)) = bs @ rest"
      using get_chunk_at_spec [OF less.prems True] by blast
    have "drop (rp + length bs) (map snd (lease_cells l)) = rest"
      using bs(3) by (metis add.commute append_eq_conv_conj drop_drop)
    moreover have "chain_len l - (rp + length bs) < chain_len l - rp" using True bs(2) by (cases bs) auto
    ultimately show ?thesis
      using less.hyps [of "rp + length bs" "buf @ bs"] less.prems True bs
      by (subst byte_clone_loop.simps) simp
  next
    case False
    then show ?thesis using length_cells [OF less.prems] by (subst byte_clone_loop.simps) simp
  qed
qed

subsection \<open>References\<close>

datatype chunk_ref = ChunkRef (ref_content: "u8 list") (ref_read_pointer: nat) (ref_chain_head_len: nat)
  (ref_lock: lock) (ref_chain: "chunk_ref option") (ref_chain_len: nat)

definition ref_capacity :: "chunk_ref \<Rightarrow> nat" where
  "ref_capacity r = ref_chain_len r"

fun ref_append_to_chain :: "chunk_ref \<Rightarrow> chunk_ref \<Rightarrow> chunk_ref" where
  "ref_append_to_chain (ChunkRef c r h l ch n) new_tail =
     ChunkRef c r h l
       (case ch of Some tail \<Rightarrow> Some (ref_append_to_chain tail new_tail) | None \<Rightarrow> Some new_tail)
       (n + ref_chain_len new_tail)"

fun ref_get_chunk_at :: "chunk_ref \<Rightarrow> nat \<Rightarrow> (u8 list, unit) rresult" where
  "ref_get_chunk_at (ChunkRef c r h l ch n) pos =
     (if pos \<ge> h then (case ch of Some t \<Rightarrow> ref_get_chunk_at t (pos - h) | None \<Rightarrow> Panic)
      else if pos \<le> length c then Ok (drop pos c) else Panic)"

definition ref_remaining :: "chunk_ref \<Rightarrow> nat" where
  "ref_remaining r = ref_chain_len r - ref_read_pointer r"

definition ref_chunk :: "chunk_ref \<Rightarrow> (u8 list, unit) rresult" where
  "ref_chunk r = ref_get_chunk_at r (ref_read_pointer r)"

fun ref_advance :: "nat \<Rightarrow> chunk_ref \<Rightarrow> chunk_ref" where
  "ref_advance cnt (ChunkRef c r h l ch n) = ChunkRef c (r + cnt) h l ch n"

text \<open>The number of slices of a chain, for the termination of \<open>into_chunk_ref\<close>.\<close>

fun depth :: "chunk_lease \<Rightarrow> nat" where
  "depth (ChunkLease c w r h l ch n) = Suc (case ch of Some t \<Rightarrow> depth t | None \<Rightarrow> 0)"

lemma depth_pos [simp]: "0 < depth l"
  by (cases l) simp

lemma depth_new [simp]: "depth (lease_new c l) = 1"
  by (simp add: lease_new_def)

lemma depth_set_read_pointer [simp]: "depth (set_read_pointer r l) = depth l" "read_pointer (set_read_pointer r l) = r"
  by (cases l; simp)+

lemma depth_append [simp]: "depth (append_to_chain l t) = depth l + depth t"
  by (induction l t rule: append_to_chain.induct) (auto split: option.splits)

lemma split_at_depth: "split_at fresh l p = Ok (a, t) \<Longrightarrow> depth t \<le> depth l"
proof (induction fresh l p arbitrary: a t rule: split_at.induct)
  case (1 fresh c w r h l ch n p)
  then show ?case
    by (cases ch) (force simp: Let_def lease_empty_def rbind_eq_Ok split: if_splits)+
qed

function into_chunk_ref :: "lock \<Rightarrow> chunk_lease \<Rightarrow> (chunk_ref, unit) rresult" where
  "into_chunk_ref fresh l =
     (if read_pointer l > 0 then
        (case split_at fresh l (read_pointer l) of
           Ok (_, tail) \<Rightarrow> into_chunk_ref fresh (set_read_pointer 0 tail)
         | Err e \<Rightarrow> Err e
         | Panic \<Rightarrow> Panic)
      else
        (case chain l of
           None \<Rightarrow> Ok (ChunkRef (content l) (read_pointer l) (chain_head_len l) (lock l) None (chain_len l))
         | Some ch \<Rightarrow> rbind (into_chunk_ref fresh ch)
             (\<lambda>ch'. Ok (ChunkRef (content l) (read_pointer l) (chain_head_len l) (lock l) (Some ch') (chain_len l)))))"
  by pat_completeness auto
termination
proof (relation "measure (\<lambda>(_, l). 2 * depth l + (if read_pointer l > 0 then 1 else 0))")
  fix fresh l a t p assume "0 < read_pointer l" "split_at fresh l (read_pointer l) = Ok p" "(a, t) = p"
  then show "((fresh, set_read_pointer 0 t), fresh, l)
      \<in> measure (\<lambda>(_, l). 2 * depth l + (if read_pointer l > 0 then 1 else 0))"
    using split_at_depth [of fresh l "read_pointer l" a t] by simp
next
  fix fresh l ch assume "\<not> 0 < read_pointer l" "chain l = Some ch"
  then show "((fresh, ch), fresh, l) \<in> measure (\<lambda>(_, l). 2 * depth l + (if read_pointer l > 0 then 1 else 0))"
    by (cases l) simp
qed simp

declare into_chunk_ref.simps [simp del]

definition into_chunk_ref_with_tail :: "lock \<Rightarrow> chunk_lease \<Rightarrow> chunk_ref \<Rightarrow> (chunk_ref, unit) rresult" where
  "into_chunk_ref_with_tail fresh l tail =
     rbind (into_chunk_ref fresh l) (\<lambda>r. Ok (ref_append_to_chain r tail))"

definition into_chunk_ref_with_head :: "lock \<Rightarrow> chunk_lease \<Rightarrow> chunk_ref \<Rightarrow> (chunk_ref, unit) rresult" where
  "into_chunk_ref_with_head fresh l head =
     rbind (into_chunk_ref fresh l) (\<lambda>r. Ok (ref_append_to_chain head r))"

fun ref_cells :: "chunk_ref \<Rightarrow> (lock \<times> u8) list" where
  "ref_cells (ChunkRef c r h l ch n) = map (Pair l) c @ (case ch of Some t \<Rightarrow> ref_cells t | None \<Rightarrow> [])"

fun ref_wf :: "chunk_ref \<Rightarrow> bool" where
  "ref_wf (ChunkRef c r h l ch n) \<longleftrightarrow>
     h = length c \<and> (case ch of Some t \<Rightarrow> ref_wf t \<and> n = h + ref_chain_len t | None \<Rightarrow> n = h)"

lemma ref_append_facts [simp]:
  "ref_chain_len (ref_append_to_chain l t) = ref_chain_len l + ref_chain_len t"
  "ref_read_pointer (ref_append_to_chain l t) = ref_read_pointer l"
  "ref_cells (ref_append_to_chain l t) = ref_cells l @ ref_cells t"
  by (induction l t rule: ref_append_to_chain.induct) (auto split: option.splits)

lemma ref_append_wf [simp]: "ref_wf l \<Longrightarrow> ref_wf t \<Longrightarrow> ref_wf (ref_append_to_chain l t)"
  by (induction l t rule: ref_append_to_chain.induct) (auto split: option.splits)

lemma set_read_pointer_facts [simp]:
  "lease_wf (set_read_pointer r l) = lease_wf l" "lease_cells (set_read_pointer r l) = lease_cells l"
  "chain_len (set_read_pointer r l) = chain_len l"
  by (cases l; simp)+

lemma set_read_pointer_same [simp]: "read_pointer l = r \<Longrightarrow> set_read_pointer r l = l"
  by (cases l) simp

lemma into_chunk_ref_at_0:
  "into_chunk_ref fresh (ChunkLease c w 0 h l ch n) =
     (case ch of
        None \<Rightarrow> Ok (ChunkRef c 0 h l None n)
      | Some ch \<Rightarrow> rbind (into_chunk_ref fresh ch) (\<lambda>ch'. Ok (ChunkRef c 0 h l (Some ch') n)))"
  by (subst into_chunk_ref.simps) (simp split: option.splits)

lemma into_chunk_ref_unread:
  "lease_wf l \<Longrightarrow> read_pointer l = 0 \<Longrightarrow>
     \<exists>r. into_chunk_ref fresh l = Ok r \<and> ref_wf r \<and> ref_read_pointer r = 0 \<and> ref_cells r = lease_cells l \<and>
       ref_chain_len r = chain_len l"
proof (induction l rule: lease_cells.induct)
  case (1 c w r h l ch n)
  then show ?case
    by (cases ch) (force simp: into_chunk_ref_at_0)+
qed

lemma into_chunk_ref_spec:
  assumes "lease_wf l" "read_pointer l \<le> chain_len l"
  shows "\<exists>r. into_chunk_ref fresh l = Ok r \<and> ref_wf r \<and> ref_read_pointer r = 0 \<and>
    ref_cells r = drop (read_pointer l) (lease_cells l)"
proof (cases "read_pointer l > 0")
  case True
  obtain a t where "split_at fresh l (read_pointer l) = Ok (a, t)" "lease_wf t" "read_pointer t = 0"
    "lease_cells t = drop (read_pointer l) (lease_cells l)"
    using split_at_spec [OF assms, of fresh] by blast
  then show ?thesis using into_chunk_ref_unread [of t fresh] True
    by (simp add: into_chunk_ref.simps [of fresh l]) auto
next
  case False
  then show ?thesis using into_chunk_ref_unread [OF assms(1), of fresh] by auto
qed

lemma ref_get_chunk_at_spec:
  "ref_wf l \<Longrightarrow> p < ref_chain_len l \<Longrightarrow>
     \<exists>bs rest. ref_get_chunk_at l p = Ok bs \<and> bs \<noteq> [] \<and> drop p (map snd (ref_cells l)) = bs @ rest"
proof (induction l p rule: ref_get_chunk_at.induct)
  case (1 c r h l ch n p)
  then show ?case
    by (cases ch) (auto simp: comp_def)
qed

subsection \<open>The buffer interface\<close>

text \<open>
  The loop by which a consumer of the \<open>bytes::Buf\<close> interface reads everything
  (\<open>BufferEncoder::put\<close>): take the current chunk, then advance past it. \<open>None\<close> is a loop that
  does not end.
\<close>

partial_function (option) buf_drain ::
    "('b \<Rightarrow> nat) \<Rightarrow> ('b \<Rightarrow> (u8 list, unit) rresult) \<Rightarrow> (nat \<Rightarrow> 'b \<Rightarrow> 'b) \<Rightarrow> 'b \<Rightarrow> u8 list \<Rightarrow> (u8 list, unit) rresult option" where
  "buf_drain remaining chunk advance b acc =
     (if remaining b > 0 then
        (case chunk b of
           Ok bs \<Rightarrow> buf_drain remaining chunk advance (advance (length bs) b) (acc @ bs)
         | Err e \<Rightarrow> Some (Err e)
         | Panic \<Rightarrow> Some Panic)
      else Some (Ok acc))"

text \<open>
  What a consumer may rely on: the chunk is a non-empty prefix of the unread bytes while there
  are any, and advancing drops what was read.
\<close>

locale buf =
  fixes valid :: "'b \<Rightarrow> bool" and unread :: "'b \<Rightarrow> u8 list"
    and remaining :: "'b \<Rightarrow> nat" and chunk :: "'b \<Rightarrow> (u8 list, unit) rresult" and advance :: "nat \<Rightarrow> 'b \<Rightarrow> 'b"
  assumes remaining_unread: "valid b \<Longrightarrow> remaining b = length (unread b)"
    and chunk_prefix: "valid b \<Longrightarrow> unread b \<noteq> [] \<Longrightarrow> \<exists>bs rest. chunk b = Ok bs \<and> bs \<noteq> [] \<and> unread b = bs @ rest"
    and advance_valid: "valid b \<Longrightarrow> n \<le> length (unread b) \<Longrightarrow> valid (advance n b)"
    and advance_unread: "valid b \<Longrightarrow> n \<le> length (unread b) \<Longrightarrow> unread (advance n b) = drop n (unread b)"
begin

lemma drain_all: "valid b \<Longrightarrow> buf_drain remaining chunk advance b acc = Some (Ok (acc @ unread b))"
proof (induction "length (unread b)" arbitrary: b acc rule: less_induct)
  case less
  show ?case
  proof (cases "unread b = []")
    case True
    then show ?thesis using remaining_unread [OF less.prems] by (subst buf_drain.simps) simp
  next
    case False
    obtain bs rest where bs: "chunk b = Ok bs" "bs \<noteq> []" "unread b = bs @ rest"
      using chunk_prefix [OF less.prems False] by blast
    have next_b: "valid (advance (length bs) b)" "unread (advance (length bs) b) = rest"
      using advance_valid [OF less.prems] advance_unread [OF less.prems] bs(3) by auto
    have "length (unread (advance (length bs) b)) < length (unread b)" using bs(2,3) next_b(2) by simp
    from less.hyps [OF this next_b(1), of "acc @ bs"] show ?thesis
      using remaining_unread [OF less.prems] bs next_b(2) by (subst buf_drain.simps) simp
  qed
qed

end

definition lease_unread :: "chunk_lease \<Rightarrow> u8 list" where
  "lease_unread l = drop (read_pointer l) (map snd (lease_cells l))"

definition lease_valid :: "chunk_lease \<Rightarrow> bool" where
  "lease_valid l \<longleftrightarrow> lease_wf l \<and> read_pointer l \<le> chain_len l"

definition ref_unread :: "chunk_ref \<Rightarrow> u8 list" where
  "ref_unread l = drop (ref_read_pointer l) (map snd (ref_cells l))"

definition ref_valid :: "chunk_ref \<Rightarrow> bool" where
  "ref_valid l \<longleftrightarrow> ref_wf l \<and> ref_read_pointer l \<le> ref_chain_len l"

lemma ref_length_cells: "ref_wf l \<Longrightarrow> length (ref_cells l) = ref_chain_len l"
  by (induction l rule: ref_cells.induct) (auto split: option.splits)

lemma ref_advance_facts [simp]:
  "ref_wf (ref_advance n l) = ref_wf l" "ref_cells (ref_advance n l) = ref_cells l"
  "ref_chain_len (ref_advance n l) = ref_chain_len l" "ref_read_pointer (ref_advance n l) = ref_read_pointer l + n"
  by (cases l; simp)+

interpretation lease_buf: buf lease_valid lease_unread lease_remaining lease_chunk lease_advance
proof
  fix b n assume v: "lease_valid b"
  show "lease_remaining b = length (lease_unread b)"
    using v by (simp add: lease_remaining_def lease_unread_def lease_valid_def length_cells)
  show "lease_unread b \<noteq> [] \<Longrightarrow> \<exists>bs rest. lease_chunk b = Ok bs \<and> bs \<noteq> [] \<and> lease_unread b = bs @ rest"
    using v get_chunk_at_spec [of b "read_pointer b"]
    by (auto simp: lease_valid_def lease_unread_def lease_chunk_def length_cells)
  show "n \<le> length (lease_unread b) \<Longrightarrow> lease_valid (lease_advance n b)"
    using v by (auto simp: lease_valid_def lease_unread_def lease_advance_def length_cells)
  show "n \<le> length (lease_unread b) \<Longrightarrow> lease_unread (lease_advance n b) = drop n (lease_unread b)"
    by (simp add: lease_unread_def lease_advance_def add.commute)
qed

interpretation ref_buf: buf ref_valid ref_unread ref_remaining ref_chunk ref_advance
proof
  fix b n assume v: "ref_valid b"
  show "ref_remaining b = length (ref_unread b)"
    using v by (simp add: ref_remaining_def ref_unread_def ref_valid_def ref_length_cells)
  show "ref_unread b \<noteq> [] \<Longrightarrow> \<exists>bs rest. ref_chunk b = Ok bs \<and> bs \<noteq> [] \<and> ref_unread b = bs @ rest"
    using v ref_get_chunk_at_spec [of b "ref_read_pointer b"]
    by (auto simp: ref_valid_def ref_unread_def ref_chunk_def ref_length_cells)
  show "n \<le> length (ref_unread b) \<Longrightarrow> ref_valid (ref_advance n b)"
    using v by (auto simp: ref_valid_def ref_unread_def ref_length_cells)
  show "n \<le> length (ref_unread b) \<Longrightarrow> ref_unread (ref_advance n b) = drop n (ref_unread b)"
    by (simp add: ref_unread_def add.commute)
qed

text \<open>
  Splitting a lease at any position up to its capacity gives the two parts of its cells: no
  byte is lost, duplicated or moved, each stays protected by the lock of its chunk, and both
  parts are well-formed leases of the right lengths. Beyond the capacity it panics.
\<close>

theorem split_at_partitions_cells:
  assumes "lease_wf l"
  shows "(p \<le> capacity l \<longrightarrow>
           (\<exists>a t. split_at fresh l p = Ok (a, t) \<and> lease_wf a \<and> lease_wf t \<and> capacity a = p \<and>
              capacity t = capacity l - p \<and>
              lease_cells a = take p (lease_cells l) \<and> lease_cells t = drop p (lease_cells l) \<and>
              lease_cells (append_to_chain a t) = lease_cells l)) \<and>
         (capacity l < p \<longrightarrow> split_at fresh l p = Panic)"
proof (intro conjI impI)
  assume "p \<le> capacity l"
  then show "\<exists>a t. split_at fresh l p = Ok (a, t) \<and> lease_wf a \<and> lease_wf t \<and> capacity a = p \<and>
      capacity t = capacity l - p \<and> lease_cells a = take p (lease_cells l) \<and>
      lease_cells t = drop p (lease_cells l) \<and> lease_cells (append_to_chain a t) = lease_cells l"
    using split_at_spec [OF assms, of p fresh] by (auto simp: capacity_def)
next
  assume "capacity l < p"
  then show "split_at fresh l p = Panic" by (cases l) (simp add: capacity_def)
qed

theorem split_at_partitions_cells_witness:
  "\<exists>a t. split_at 9 (append_to_chain (lease_new [1, 2, 3] 7) (lease_new [4, 5] 8)) 2 = Ok (a, t) \<and>
     lease_cells a = [(7, 1), (7, 2)] \<and> lease_cells t = [(7, 3), (8, 4), (8, 5)]"
proof -
  have "lease_wf (append_to_chain (lease_new [1, 2, 3] 7) (lease_new [4, 5] 8))" by (simp add: append_wf)
  from split_at_partitions_cells [OF this, of 2 9] show ?thesis by (auto simp: capacity_def)
qed

text \<open>
  The bytes a consumer gets do not depend on how they are held: copying a lease, reading it
  chunk by chunk, and turning it into a reference and reading that one (also behind a head and
  in front of a tail) all end and give exactly the unread bytes, and the reference keeps the lock of
  each of them.
\<close>

theorem reading_agrees:
  assumes "lease_valid l" "ref_valid head" "ref_valid tail"
  shows "create_byte_clone l = Some (Ok (lease_unread l)) \<and>
         buf_drain lease_remaining lease_chunk lease_advance l [] = Some (Ok (lease_unread l)) \<and>
         (\<exists>r. into_chunk_ref fresh l = Ok r \<and> ref_cells r = drop (read_pointer l) (lease_cells l) \<and>
            buf_drain ref_remaining ref_chunk ref_advance r [] = Some (Ok (lease_unread l))) \<and>
         (\<exists>r. into_chunk_ref_with_head fresh l head = Ok r \<and>
            buf_drain ref_remaining ref_chunk ref_advance r [] = Some (Ok (ref_unread head @ lease_unread l))) \<and>
         (ref_read_pointer tail = 0 \<longrightarrow> (\<exists>r. into_chunk_ref_with_tail fresh l tail = Ok r \<and>
            buf_drain ref_remaining ref_chunk ref_advance r [] = Some (Ok (lease_unread l @ ref_unread tail))))"
proof -
  obtain r where r: "into_chunk_ref fresh l = Ok r" "ref_wf r" "ref_read_pointer r = 0"
    "ref_cells r = drop (read_pointer l) (lease_cells l)"
    using into_chunk_ref_spec [of l fresh] assms(1) by (auto simp: lease_valid_def)
  have un: "ref_unread r = lease_unread l" by (simp add: ref_unread_def lease_unread_def r(3,4) drop_map)
  have v: "ref_valid r" using r by (simp add: ref_valid_def)
  have h: "ref_valid (ref_append_to_chain head r)" "ref_unread (ref_append_to_chain head r) = ref_unread head @ lease_unread l"
    using assms(2) r(2,3) un ref_length_cells [of head] by (auto simp: ref_valid_def ref_unread_def)
  have t: "ref_valid (ref_append_to_chain r tail)"
    "ref_read_pointer tail = 0 \<Longrightarrow> ref_unread (ref_append_to_chain r tail) = lease_unread l @ ref_unread tail"
    using assms(3) r(2,3) un by (auto simp: ref_valid_def ref_unread_def)
  show ?thesis
    using byte_clone_loop_spec [of l "read_pointer l" "[]"] assms(1) lease_buf.drain_all [OF assms(1), of "[]"]
      ref_buf.drain_all [OF v, of "[]"] ref_buf.drain_all [OF h(1), of "[]"] ref_buf.drain_all [OF t(1), of "[]"]
      r h t un
    by (simp add: create_byte_clone_def lease_valid_def lease_unread_def into_chunk_ref_with_head_def
        into_chunk_ref_with_tail_def)
qed

theorem reading_agrees_witness:
  "\<exists>r. into_chunk_ref_with_head 9 (lease_advance 2 (append_to_chain (lease_new [1, 2, 3] 7) (lease_new [4, 5] 8)))
       (ChunkRef [0] 0 1 6 None 1) = Ok r \<and>
     buf_drain ref_remaining ref_chunk ref_advance r [] = Some (Ok [0, 3, 4, 5])"
proof -
  let ?l = "lease_advance 2 (append_to_chain (lease_new [1, 2, 3] 7) (lease_new [4, 5] 8))"
  have "lease_valid ?l" by (simp add: lease_valid_def lease_advance_def append_wf)
  moreover have "ref_valid (ChunkRef [0] 0 1 6 None 1)" by (simp add: ref_valid_def)
  ultimately show ?thesis
    using reading_agrees [of ?l "ChunkRef [0] 0 1 6 None 1" "ChunkRef [0] 0 1 6 None 1" 9]
    by (auto simp: lease_unread_def ref_unread_def lease_advance_def)
qed

end
