(* ===== verification/Net_Frames.thy ===== *)
theory Net_Frames
  imports Path_Framing Chunk_Lease
begin

section \<open>Network frames (\<open>core/src/net/frames.rs\<close>)\<close>

text \<open>
  The frames of the transport protocol: the head with its magic number, length and type, and
  the encoding and decoding of every frame. A destination is what was written to it and the
  room that is left; writing past the room panics, as the \<open>bytes\<close> crate does. The lemmas
  show the round trips of heads and frames and what malformed content does.
\<close>

subsection \<open>Data\<close>

definition MAGIC_NUM :: u32 where "MAGIC_NUM = 0xC0A1BA11"
definition FRAME_HEAD_LEN :: nat where "FRAME_HEAD_LEN = 4 + 4 + 1"

text \<open>\<open>InvalidMagicNum\<close> without the copy of the bytes behind the number, and no I/O errors.\<close>

datatype framing_error =
  BufferCapacity | UnsupportedFrameType | InvalidMagicNum u32 | InvalidFrame | SerialisationError
  | OptionError | NoData

datatype frame_type = FT_Data | FT_Hello | FT_Start | FT_Ack | FT_Bye | FT_Unknown

fun frame_type_u8 :: "frame_type \<Rightarrow> u8" where
  "frame_type_u8 FT_Data = 0x02" | "frame_type_u8 FT_Hello = 0x04" | "frame_type_u8 FT_Start = 0x05"
| "frame_type_u8 FT_Ack = 0x06" | "frame_type_u8 FT_Bye = 0x07" | "frame_type_u8 FT_Unknown = 0x08"

definition frame_type_from :: "u8 \<Rightarrow> frame_type" where
  "frame_type_from b =
     (if b = 0x02 then FT_Data else if b = 0x04 then FT_Hello else if b = 0x05 then FT_Start
      else if b = 0x06 then FT_Ack else if b = 0x07 then FT_Bye else FT_Unknown)"

datatype frame = DataFrame chunk_lease | Hello socket_addr | StartFrame socket_addr uuid | Ack | Bye

fun frame_type_of :: "frame \<Rightarrow> frame_type" where
  "frame_type_of (DataFrame _) = FT_Data" | "frame_type_of (Hello _) = FT_Hello"
| "frame_type_of (StartFrame _ _) = FT_Start" | "frame_type_of Ack = FT_Ack" | "frame_type_of Bye = FT_Bye"

record frame_head =
  head_type :: frame_type
  content_length :: nat

subsection \<open>Destinations\<close>

type_synonym dst = "u8 list \<times> nat"

fun put :: "u8 list \<Rightarrow> dst \<Rightarrow> (dst, framing_error) rresult" where
  "put bs (w, room) = (if length bs \<le> room then Ok (w @ bs, room - length bs) else Panic)"

subsection \<open>Frame heads\<close>

text \<open>\<open>content_length as u32\<close> keeps the low 32 bits.\<close>

definition head_encode_into :: "buf_ops \<Rightarrow> frame_head \<Rightarrow> dst \<Rightarrow> (dst, framing_error) rresult" where
  "head_encode_into ops h d =
     (if \<not> FRAME_HEAD_LEN \<le> snd d then Panic
      else rbind (put (op_put_u32 ops MAGIC_NUM) d) (\<lambda>d.
           rbind (put (op_put_u32 ops (of_nat (content_length h))) d) (\<lambda>d.
             put [frame_type_u8 (head_type h)] d)))"

definition head_decode_from :: "buf_ops \<Rightarrow> u8 list \<Rightarrow> (frame_head \<times> u8 list, framing_error) rresult" where
  "head_decode_from ops src =
     (if length src < FRAME_HEAD_LEN then Err NoData
      else rbind (or_panic (op_get_u32 ops src)) (\<lambda>(magic_check, src).
        if magic_check \<noteq> MAGIC_NUM then Err (InvalidMagicNum magic_check)
        else rbind (or_panic (op_get_u32 ops src)) (\<lambda>(len, src).
             rbind (get_u8 src) (\<lambda>(ty, src).
               Ok (\<lparr>head_type = frame_type_from ty, content_length = unat len\<rparr>, src)))))"

subsection \<open>Hello and Start\<close>

definition addr_encode_into :: "buf_ops \<Rightarrow> socket_addr \<Rightarrow> dst \<Rightarrow> (dst, framing_error) rresult" where
  "addr_encode_into ops addr d =
     rbind (put [case sock_ip addr of V4 _ \<Rightarrow> 4 | V6 _ \<Rightarrow> 6] d) (\<lambda>d.
     rbind (put (octets (sock_ip addr)) d) (\<lambda>d.
       put (op_put_u16 ops (sock_port addr)) d))"

text \<open>Version, address and port; a version other than 4 and 6 panics.\<close>

definition addr_decode_from :: "buf_ops \<Rightarrow> u8 list \<Rightarrow> (socket_addr \<times> u8 list, framing_error) rresult" where
  "addr_decode_from ops src =
     rbind (get_u8 src) (\<lambda>(version, src).
       if version = 4 then
         rbind (or_panic (op_get_u32 ops src)) (\<lambda>(ip, src).
         rbind (or_panic (op_get_u16 ops src)) (\<lambda>(p, src). Ok (\<lparr>sock_ip = V4 ip, sock_port = p\<rparr>, src)))
       else if version = 6 then
         rbind (or_panic (op_get_u128 ops src)) (\<lambda>(ip, src).
         rbind (or_panic (op_get_u16 ops src)) (\<lambda>(p, src). Ok (\<lparr>sock_ip = V6 ip, sock_port = p\<rparr>, src)))
       else Panic)"

definition hello_encode_into :: "buf_ops \<Rightarrow> socket_addr \<Rightarrow> dst \<Rightarrow> (dst, framing_error) rresult" where
  "hello_encode_into ops addr d = addr_encode_into ops addr d"

definition hello_decode_from :: "buf_ops \<Rightarrow> u8 list \<Rightarrow> (frame, framing_error) rresult" where
  "hello_decode_from ops src = rbind (addr_decode_from ops src) (\<lambda>(addr, _). Ok (Hello addr))"

fun hello_encoded_len :: "socket_addr \<Rightarrow> nat" where
  "hello_encoded_len addr = (case sock_ip addr of V4 _ \<Rightarrow> 1 + 4 + 2 | V6 _ \<Rightarrow> 1 + 16 + 2)"

definition start_encode_into :: "buf_ops \<Rightarrow> socket_addr \<Rightarrow> uuid \<Rightarrow> dst \<Rightarrow> (dst, framing_error) rresult" where
  "start_encode_into ops addr sid d =
     rbind (addr_encode_into ops addr d) (\<lambda>d. put (op_put_u128 ops sid) d)"

definition start_decode_from :: "buf_ops \<Rightarrow> u8 list \<Rightarrow> (frame, framing_error) rresult" where
  "start_decode_from ops src =
     rbind (addr_decode_from ops src) (\<lambda>(addr, src).
     rbind (or_panic (op_get_u128 ops src)) (\<lambda>(sid, _). Ok (StartFrame addr sid)))"

fun start_encoded_len :: "socket_addr \<Rightarrow> nat" where
  "start_encoded_len addr = (case sock_ip addr of V4 _ \<Rightarrow> 1 + 4 + 2 + 16 | V6 _ \<Rightarrow> 1 + 16 + 2 + 16)"

subsection \<open>Data frames\<close>

definition data_decode_from :: "chunk_lease \<Rightarrow> (frame, framing_error) rresult" where
  "data_decode_from payload = Ok (DataFrame payload)"

definition data_encoded_len :: "chunk_lease \<Rightarrow> nat" where
  "data_encoded_len payload = capacity payload"

text \<open>The loop puts the current chunk while something remains; it does not advance the payload.\<close>

partial_function (option) data_encode_loop :: "chunk_lease \<Rightarrow> dst \<Rightarrow> (dst, framing_error) rresult option" where
  "data_encode_loop payload d =
     (if lease_remaining payload > 0 then
        (case lease_chunk payload of
           Ok c \<Rightarrow> (case put c d of Ok d' \<Rightarrow> data_encode_loop payload d' | Err e \<Rightarrow> Some (Err e) | Panic \<Rightarrow> Some Panic)
         | _ \<Rightarrow> Some Panic)
      else Some (Ok d))"

definition data_encode_into :: "chunk_lease \<Rightarrow> dst \<Rightarrow> (dst, framing_error) rresult option" where
  "data_encode_into payload d =
     (if \<not> data_encoded_len payload \<le> snd d then Some Panic else data_encode_loop payload d)"

subsection \<open>Frames\<close>

fun frame_encoded_len :: "frame \<Rightarrow> nat" where
  "frame_encoded_len (DataFrame p) = data_encoded_len p"
| "frame_encoded_len (Hello addr) = hello_encoded_len addr"
| "frame_encoded_len (StartFrame addr _) = start_encoded_len addr"
| "frame_encoded_len _ = 0"

definition frame_encode_into :: "buf_ops \<Rightarrow> frame \<Rightarrow> dst \<Rightarrow> (dst, framing_error) rresult option" where
  "frame_encode_into ops f d =
     (case head_encode_into ops \<lparr>head_type = frame_type_of f, content_length = frame_encoded_len f\<rparr> d of
        Ok d \<Rightarrow>
          (case f of
             DataFrame p \<Rightarrow> data_encode_into p d
           | Hello addr \<Rightarrow> Some (hello_encode_into ops addr d)
           | StartFrame addr sid \<Rightarrow> Some (start_encode_into ops addr sid d)
           | Ack \<Rightarrow> Some (Ok d)
           | Bye \<Rightarrow> Some (Ok d))
      | r \<Rightarrow> Some r)"

text \<open>
  The content of a frame with a given head, as the decode buffer dispatches on it. The content
  is a lease; the multi-byte reads go through its \<open>Buf\<close> interface, that is, read its unread bytes.
\<close>

definition decode_content :: "buf_ops \<Rightarrow> frame_type \<Rightarrow> chunk_lease \<Rightarrow> (frame, framing_error) rresult" where
  "decode_content ops ty body =
     (case ty of
        FT_Data \<Rightarrow> rmap_err (\<lambda>_. InvalidFrame) (data_decode_from body)
      | FT_Hello \<Rightarrow> rmap_err (\<lambda>_. InvalidFrame) (hello_decode_from ops (lease_unread body))
      | FT_Start \<Rightarrow> rmap_err (\<lambda>_. InvalidFrame) (start_decode_from ops (lease_unread body))
      | FT_Bye \<Rightarrow> Ok Bye
      | FT_Ack \<Rightarrow> Ok Ack
      | FT_Unknown \<Rightarrow> Err UnsupportedFrameType)"

subsection \<open>Heads and addresses\<close>

lemma frame_type_from_u8 [simp]: "frame_type_from (frame_type_u8 ty) = ty"
  by (cases ty) (simp_all add: frame_type_from_def)

definition addr_bytes :: "socket_addr \<Rightarrow> u8 list" where
  "addr_bytes a = (case sock_ip a of V4 _ \<Rightarrow> 4 | V6 _ \<Rightarrow> 6) # octets (sock_ip a) @ be_bytes 2 (unat (sock_port a))"

definition head_bytes :: "frame_head \<Rightarrow> u8 list" where
  "head_bytes h = be_bytes 4 (unat MAGIC_NUM) @ be_bytes 4 (unat (of_nat (content_length h) :: u32)) @
     [frame_type_u8 (head_type h)]"

lemma length_head_bytes [simp]: "length (head_bytes h) = FRAME_HEAD_LEN"
  by (simp add: head_bytes_def FRAME_HEAD_LEN_def)

lemma length_addr_bytes: "length (addr_bytes a) = hello_encoded_len a"
  by (simp add: addr_bytes_def split: ip_addr.splits)

context bytes_api
begin

lemma put_eqs:
  "op_put_u16 ops w16 = be_bytes 2 (unat w16)" "op_put_u32 ops w32 = be_bytes 4 (unat w32)"
  "op_put_u128 ops w128 = be_bytes 16 (unat w128)"
  using documented by (simp_all add: bytes_documented_def)

lemma get_be:
  "op_get_u16 ops (be_bytes 2 (unat w16) @ rest) = Some (w16, rest)"
  "op_get_u32 ops (be_bytes 4 (unat w32) @ rest) = Some (w32, rest)"
  "op_get_u128 ops (be_bytes 16 (unat w128) @ rest) = Some (w128, rest)"
  using get_put_u16 [of w16 rest] get_put_u32 [of w32 rest] get_put_u128 [of w128 rest] by (simp_all only: put_eqs)

lemma head_encode: "FRAME_HEAD_LEN \<le> room \<Longrightarrow> head_encode_into ops h (w, room) = Ok (w @ head_bytes h, room - FRAME_HEAD_LEN)"
  by (auto simp: head_encode_into_def head_bytes_def put_eqs FRAME_HEAD_LEN_def)

lemma head_decode:
  "head_decode_from ops (head_bytes h @ rest) =
     Ok (\<lparr>head_type = head_type h, content_length = content_length h mod 2 ^ 32\<rparr>, rest)"
proof -
  define len :: u32 where "len = of_nat (content_length h)"
  have "head_decode_from ops (head_bytes h @ rest) = Ok (\<lparr>head_type = head_type h, content_length = unat len\<rparr>, rest)"
    by (simp add: head_decode_from_def head_bytes_def FRAME_HEAD_LEN_def len_def [symmetric] get_be get_u8_def)
  moreover have "unat len = content_length h mod 2 ^ 32" by (simp add: len_def unat_of_nat take_bit_eq_mod)
  ultimately show ?thesis by simp
qed

lemma addr_encode: "hello_encoded_len a \<le> room \<Longrightarrow> addr_encode_into ops a (w, room) = Ok (w @ addr_bytes a, room - hello_encoded_len a)"
  by (cases "sock_ip a") (auto simp: addr_encode_into_def addr_bytes_def put_eqs)

lemma addr_decode: "addr_decode_from ops (addr_bytes a @ rest) = Ok (a, rest)"
  by (cases a; cases "sock_ip a") (auto simp: addr_decode_from_def addr_bytes_def get_be get_u8_def)

end

subsection \<open>Frames on the wire\<close>

text \<open>The content of a control frame.\<close>

fun content_bytes :: "frame \<Rightarrow> u8 list" where
  "content_bytes (DataFrame p) = map snd (lease_cells p)"
| "content_bytes (Hello a) = addr_bytes a"
| "content_bytes (StartFrame a sid) = addr_bytes a @ be_bytes 16 (unat sid)"
| "content_bytes _ = []"

definition frame_bytes :: "frame \<Rightarrow> u8 list" where
  "frame_bytes f = head_bytes \<lparr>head_type = frame_type_of f, content_length = frame_encoded_len f\<rparr> @ content_bytes f"

fun is_data :: "frame \<Rightarrow> bool" where
  "is_data (DataFrame _) = True" | "is_data _ = False"

lemma length_content_bytes: "\<not> is_data f \<Longrightarrow> length (content_bytes f) = frame_encoded_len f"
  by (cases f) (auto simp: length_addr_bytes split: ip_addr.splits)

context bytes_api
begin

lemma frame_encode:
  assumes "\<not> is_data f" "length (frame_bytes f) \<le> room"
  shows "frame_encode_into ops f (w, room) = Some (Ok (w @ frame_bytes f, room - length (frame_bytes f)))"
proof -
  have "FRAME_HEAD_LEN \<le> room" "frame_encoded_len f \<le> room - FRAME_HEAD_LEN"
    using assms by (auto simp: frame_bytes_def length_content_bytes)
  then show ?thesis using assms(1)
    by (cases f; cases "case f of Hello a \<Rightarrow> sock_ip a | StartFrame a _ \<Rightarrow> sock_ip a | _ \<Rightarrow> V4 0")
      (auto simp: frame_encode_into_def head_encode hello_encode_into_def start_encode_into_def addr_encode
        frame_bytes_def put_eqs length_addr_bytes)
qed

lemma content_decode:
  assumes "\<not> is_data f" "lease_unread body = content_bytes f"
  shows "decode_content ops (frame_type_of f) body = Ok f"
  using assms addr_decode [of _ "[]"] get_be(3) [of _ "[]"]
  by (cases f) (auto simp: decode_content_def hello_decode_from_def start_decode_from_def addr_decode)

end

lemma content_length_small: "\<not> is_data f \<Longrightarrow> frame_encoded_len f mod 2 ^ 32 = frame_encoded_len f"
  by (cases f) (auto split: ip_addr.splits)

text \<open>
  What encoding a control frame writes is read back as the same frame: the head gives its
  type and exactly the length of its content, the content decodes to it, and what
  follows in the stream is left alone.
\<close>

theorem frame_roundtrip:
  assumes "bytes_documented ops" "\<not> is_data f" "length (frame_bytes f) \<le> room"
  shows "\<exists>written head body. frame_encode_into ops f (w, room) = Some (Ok (w @ written, room - length written)) \<and>
           length written = FRAME_HEAD_LEN + frame_encoded_len f \<and>
           head_decode_from ops (written @ rest) = Ok (head, body @ rest) \<and>
           head_type head = frame_type_of f \<and> content_length head = length body \<and>
           (\<forall>lease. lease_unread lease = body \<longrightarrow> decode_content ops (head_type head) lease = Ok f)"
proof -
  note api = bytes_api.intro [OF assms(1)]
  show ?thesis
    using bytes_api.frame_encode [OF api assms(2,3), of w]
      bytes_api.head_decode [OF api, of "\<lparr>head_type = frame_type_of f, content_length = frame_encoded_len f\<rparr>" "content_bytes f @ rest"]
      bytes_api.content_decode [OF api assms(2)] content_length_small [OF assms(2)] length_content_bytes [OF assms(2)]
    by (intro exI [of _ "frame_bytes f"] exI [of _ "content_bytes f"]
          exI [of _ "\<lparr>head_type = frame_type_of f, content_length = frame_encoded_len f\<rparr>"])
      (simp add: frame_bytes_def)
qed

theorem frame_roundtrip_witness:
  "\<exists>written head body.
     frame_encode_into be_buf_ops (StartFrame \<lparr>sock_ip = V4 0x7F000001, sock_port = 8080\<rparr> 42) ([], 64) = Some (Ok ([] @ written, 64 - length written)) \<and>
     head_decode_from be_buf_ops (written @ [1, 2]) = Ok (head, body @ [1, 2]) \<and> head_type head = FT_Start"
  using frame_roundtrip [of be_buf_ops "StartFrame \<lparr>sock_ip = V4 0x7F000001, sock_port = 8080\<rparr> 42" 64 "[]" "[1, 2]"]
  by (auto simp: frame_bytes_def FRAME_HEAD_LEN_def length_addr_bytes)

text \<open>
  A data frame with something to send is never encoded by \<open>Frame::encode_into\<close>: the loop puts the
  same chunk again and again until the destination is full, and panics.
\<close>

theorem data_frame_encoding_fails:
  assumes "lease_valid p" "lease_unread p \<noteq> []"
  shows "data_encode_into p (w, room) = Some Panic"
proof -
  obtain c rest where c: "lease_chunk p = Ok c" "c \<noteq> []" using lease_buf.chunk_prefix [OF assms] by blast
  have r: "0 < lease_remaining p" using lease_buf.remaining_unread [OF assms(1)] assms(2) by simp
  have "data_encode_loop p (w, room) = Some Panic" for w room
  proof (induction room arbitrary: w rule: less_induct)
    case (less room)
    show ?case
    proof (cases "length c \<le> room")
      case True
      then have "room - length c < room" using c(2) by (cases c) auto
      then show ?thesis using less.IH [of "room - length c" "w @ c"] c r True
        by (subst data_encode_loop.simps) simp
    next
      case False
      then show ?thesis using c r by (subst data_encode_loop.simps) simp
    qed
  qed
  then show ?thesis by (simp add: data_encode_into_def)
qed

text \<open>A Hello or Start frame whose version byte is neither 4 nor 6 panics instead of being rejected.\<close>

theorem faulty_hello_panics:
  assumes "lease_unread body = v # rest" "v \<noteq> 4" "v \<noteq> 6"
  shows "decode_content ops FT_Hello body = Panic \<and> decode_content ops FT_Start body = Panic"
  using assms
  by (simp add: decode_content_def hello_decode_from_def start_decode_from_def addr_decode_from_def get_u8_def)

end
