(* ===== verification/Buffer_Pool.thy ===== *)
theory Buffer_Pool
  imports Chunk_Lease "HOL-Library.Multiset"
begin

section \<open>Buffer chunks and the pool (\<open>core/src/net/buffers/mod.rs\<close>, \<open>buffer_pool.rs\<close>)\<close>

text \<open>
  The configuration of the buffers, the lockable buffer chunks and the pool that hands them
  out. How many holders the lock of a chunk has (\<open>Arc::strong_count\<close>) is an argument, since
  leases live outside the pool; the step relation at the end keeps it as part of the state. The
  lemmas show that a chunk is handed out only when no lease on it is left, that the pool
  never allocates more than its maximum, and that a successful reservation is honoured.
\<close>

subsection \<open>Configuration\<close>

record buffer_config =
  chunk_size :: nat
  initial_chunk_count :: nat
  max_chunk_count :: nat
  encode_buf_min_free_space :: nat

definition buffer_config_default :: buffer_config where
  "buffer_config_default = \<lparr>chunk_size = 128 * 1000, initial_chunk_count = 2, max_chunk_count = 1000,
     encode_buf_min_free_space = 64\<rparr>"

definition config_validate :: "buffer_config \<Rightarrow> (unit, unit) rresult" where
  "config_validate cfg =
     (if initial_chunk_count cfg > max_chunk_count cfg then Panic
      else if chunk_size cfg \<le> encode_buf_min_free_space cfg then Panic
      else if chunk_size cfg < 128 then Panic
      else if max_chunk_count cfg < 2 then Panic
      else Ok ())"

text \<open>
  \<open>from_config\<close>: each key that can be read (as a byte count or an integer) overrides its
  default, one that cannot be read keeps it, and one out of range of the target type panics. On a 64 bit
  platform every byte count fits.
\<close>

record raw_config =
  raw_chunk_size :: "nat option"
  raw_initial :: "int option"
  raw_max :: "int option"
  raw_min_remaining :: "nat option"

definition usize_of_int :: "int \<Rightarrow> (nat, unit) rresult" where
  "usize_of_int i = (if i < 0 then Panic else Ok (nat i))"

definition override :: "'x option \<Rightarrow> ('x \<Rightarrow> (nat, unit) rresult) \<Rightarrow> nat \<Rightarrow> (nat, unit) rresult" where
  "override v conv d = (case v of None \<Rightarrow> Ok d | Some x \<Rightarrow> conv x)"

definition buffer_config_from_config :: "raw_config \<Rightarrow> (buffer_config, unit) rresult" where
  "buffer_config_from_config raw =
     rbind (override (raw_chunk_size raw) Ok (chunk_size buffer_config_default)) (\<lambda>cs.
     rbind (override (raw_initial raw) usize_of_int (initial_chunk_count buffer_config_default)) (\<lambda>ic.
     rbind (override (raw_max raw) usize_of_int (max_chunk_count buffer_config_default)) (\<lambda>mc.
     rbind (override (raw_min_remaining raw) Ok (encode_buf_min_free_space buffer_config_default)) (\<lambda>mr.
       let cfg = \<lparr>chunk_size = cs, initial_chunk_count = ic, max_chunk_count = mc,
                  encode_buf_min_free_space = mr\<rparr>
       in rbind (config_validate cfg) (\<lambda>_. Ok cfg)))))"

subsection \<open>Buffer chunks\<close>

record buffer_chunk =
  chunk :: "u8 list"
  ref_count :: lock
  locked :: bool

definition from_chunk :: "u8 list \<Rightarrow> lock \<Rightarrow> buffer_chunk" where
  "from_chunk raw fresh = \<lparr>chunk = raw, ref_count = fresh, locked = False\<rparr>"

definition get_slice :: "buffer_chunk \<Rightarrow> nat \<Rightarrow> nat \<Rightarrow> (u8 list, unit) rresult" where
  "get_slice b from to =
     (if from < to \<and> to \<le> length (chunk b) \<and> \<not> locked b then Ok (take (to - from) (drop from (chunk b)))
      else Panic)"

definition get_lease :: "buffer_chunk \<Rightarrow> nat \<Rightarrow> nat \<Rightarrow> (chunk_lease, unit) rresult" where
  "get_lease b from to = rbind (get_slice b from to) (\<lambda>s. Ok (lease_new s (ref_count b)))"

text \<open>\<open>free\<close> also unlocks a chunk whose leases are all gone.\<close>

definition free :: "(lock \<Rightarrow> nat) \<Rightarrow> buffer_chunk \<Rightarrow> bool \<times> buffer_chunk" where
  "free strong_count b =
     (if locked b then
        if strong_count (ref_count b) < 2 then (True, b\<lparr>locked := False\<rparr>) else (False, b)
      else (True, b))"

definition lock_chunk :: "buffer_chunk \<Rightarrow> buffer_chunk" where
  "lock_chunk b = b\<lparr>locked := True\<rparr>"

subsection \<open>The pool\<close>

text \<open>
  The allocator is the chunk it delivers and the next lock, which nobody holds yet.
\<close>

record buffer_pool =
  pool :: "buffer_chunk list"
  pool_size :: nat
  alloc_chunk :: "u8 list"
  next_lock :: lock
  pool_chunk_size :: nat
  max_pool_size :: nat

definition new_buffer :: "buffer_pool \<Rightarrow> buffer_chunk \<times> buffer_pool" where
  "new_buffer p = (from_chunk (alloc_chunk p) (next_lock p), p\<lparr>next_lock := Suc (next_lock p)\<rparr>)"

fun push_initial :: "nat \<Rightarrow> buffer_pool \<Rightarrow> buffer_pool" where
  "push_initial 0 p = p"
| "push_initial (Suc n) p = (let (b, p') = new_buffer p in push_initial n (p'\<lparr>pool := b # pool p'\<rparr>))"

text \<open>The default allocator delivers zeroed chunks of the configured size, a custom one its own.\<close>

definition pool_with_config ::
    "lock \<Rightarrow> buffer_config \<Rightarrow> u8 list option \<Rightarrow> (buffer_pool, unit) rresult" where
  "pool_with_config l0 cfg custom =
     rbind (config_validate cfg) (\<lambda>_.
       let raw = (case custom of Some c \<Rightarrow> c | None \<Rightarrow> replicate (chunk_size cfg) 0)
       in Ok (push_initial (initial_chunk_count cfg)
            \<lparr>pool = [], pool_size = initial_chunk_count cfg, alloc_chunk = raw, next_lock = l0,
             pool_chunk_size = chunk_size cfg, max_pool_size = max_chunk_count cfg\<rparr>))"

definition increase_pool :: "buffer_pool \<Rightarrow> buffer_chunk option \<times> buffer_pool" where
  "increase_pool p =
     (if pool_size p \<ge> max_pool_size p then (None, p)
      else let (b, p') = new_buffer (p\<lparr>pool_size := pool_size p + 1\<rparr>) in (Some b, p'))"

text \<open>The first argument counts the iterations of the loop over the pool.\<close>

fun reclaim_loop :: "(lock \<Rightarrow> nat) \<Rightarrow> nat \<Rightarrow> buffer_pool \<Rightarrow> buffer_chunk option \<times> buffer_pool" where
  "reclaim_loop strong_count 0 p = increase_pool p"
| "reclaim_loop strong_count (Suc n) p =
     (case pool p of
        [] \<Rightarrow> reclaim_loop strong_count n p
      | b # bs \<Rightarrow>
          (let (is_free, b') = free strong_count b
           in if is_free then (Some b', p\<lparr>pool := bs\<rparr>)
              else reclaim_loop strong_count n (p\<lparr>pool := bs @ [b']\<rparr>)))"

definition try_reclaim :: "(lock \<Rightarrow> nat) \<Rightarrow> buffer_pool \<Rightarrow> buffer_chunk option \<times> buffer_pool" where
  "try_reclaim strong_count p = reclaim_loop strong_count (length (pool p)) p"

definition get_buffer :: "(lock \<Rightarrow> nat) \<Rightarrow> buffer_pool \<Rightarrow> buffer_chunk option \<times> buffer_pool" where
  "get_buffer strong_count p = try_reclaim strong_count p"

definition return_buffer :: "buffer_chunk \<Rightarrow> buffer_pool \<Rightarrow> buffer_pool" where
  "return_buffer b p = p\<lparr>pool := pool p @ [lock_chunk b]\<rparr>"

definition drain_returned :: "buffer_pool \<Rightarrow> buffer_chunk list \<times> buffer_pool" where
  "drain_returned p = (pool p, p\<lparr>pool := []\<rparr>)"

definition div_ceil :: "nat \<Rightarrow> nat \<Rightarrow> nat" where
  "div_ceil a b = (a + b - 1) div b"

text \<open>
  The loop of \<open>try_reserve\<close>: \<open>Err\<close> carries the pool, since the chunks reserved so far are
  dropped when the function returns early.
\<close>

fun reserve_loop :: "(lock \<Rightarrow> nat) \<Rightarrow> nat \<Rightarrow> buffer_chunk list \<Rightarrow> buffer_pool
    \<Rightarrow> (buffer_chunk list \<times> buffer_pool, buffer_pool) rresult" where
  "reserve_loop strong_count 0 reserved p = Ok (reserved, p)"
| "reserve_loop strong_count (Suc n) reserved p =
     (case try_reclaim strong_count p of
        (Some b, p') \<Rightarrow> reserve_loop strong_count n (reserved @ [b]) p'
      | (None, p') \<Rightarrow> Err p')"

definition pool_try_reserve :: "(lock \<Rightarrow> nat) \<Rightarrow> nat \<Rightarrow> buffer_pool \<Rightarrow> (buffer_pool, buffer_pool) rresult" where
  "pool_try_reserve strong_count bytes p =
     (let required = div_ceil bytes (pool_chunk_size p)
      in if required > max_pool_size p then Err p
         else if pool_size p > max_pool_size p then Panic
         else if required \<le> max_pool_size p - pool_size p then Ok p
         else (case reserve_loop strong_count required [] p of
                 Ok (reserved, p') \<Rightarrow> Ok (p'\<lparr>pool := rev reserved @ pool p'\<rparr>)
               | Err p' \<Rightarrow> Err p'
               | Panic \<Rightarrow> Panic))"

definition get_pool_sizes :: "buffer_pool \<Rightarrow> nat \<times> nat" where
  "get_pool_sizes p = (pool_size p, length (pool p))"

definition count_locked_chunks :: "(lock \<Rightarrow> nat) \<Rightarrow> buffer_pool \<Rightarrow> nat \<times> buffer_pool" where
  "count_locked_chunks strong_count p =
     (length (filter (\<lambda>b. \<not> fst (free strong_count b)) (pool p)),
      p\<lparr>pool := map (\<lambda>b. snd (free strong_count b)) (pool p)\<rparr>)"

subsection \<open>What one call of the pool does\<close>

definition is_free :: "(lock \<Rightarrow> nat) \<Rightarrow> buffer_chunk \<Rightarrow> bool" where
  "is_free sc b \<longleftrightarrow> \<not> locked b \<or> sc (ref_count b) < 2"

lemma free_eq: "free sc b = (is_free sc b, if is_free sc b then b\<lparr>locked := False\<rparr> else b)"
  by (auto simp: free_def is_free_def)

lemma reclaim_loop_none:
  "\<forall>x \<in> set xs. \<not> is_free sc x \<Longrightarrow> pool p = xs @ zs \<Longrightarrow>
     reclaim_loop sc (length xs) p = increase_pool (p\<lparr>pool := zs @ xs\<rparr>)"
proof (induction xs arbitrary: p zs)
  case (Cons x xs)
  then show ?case by (simp add: free_eq)
qed simp

lemma reclaim_loop_some:
  "\<forall>x \<in> set xs. \<not> is_free sc x \<Longrightarrow> is_free sc b \<Longrightarrow> pool p = xs @ b # ys \<Longrightarrow>
     reclaim_loop sc (length xs + Suc k) p = (Some (b\<lparr>locked := False\<rparr>), p\<lparr>pool := ys @ xs\<rparr>)"
proof (induction xs arbitrary: p ys)
  case (Cons x xs)
  then show ?case by (simp add: free_eq)
qed (simp add: free_eq)

text \<open>The result of a request, by whether the pool holds a free chunk.\<close>

lemma get_buffer_cases:
  obtains (reuse) xs b ys where "pool p = xs @ b # ys" "\<forall>x \<in> set xs. \<not> is_free sc x" "is_free sc b"
      "get_buffer sc p = (Some (b\<lparr>locked := False\<rparr>), p\<lparr>pool := ys @ xs\<rparr>)"
    | (alloc) "\<forall>x \<in> set (pool p). \<not> is_free sc x" "pool_size p < max_pool_size p"
      "get_buffer sc p = (Some (from_chunk (alloc_chunk p) (next_lock p)),
         p\<lparr>pool_size := pool_size p + 1, next_lock := Suc (next_lock p)\<rparr>)"
    | (full) "\<forall>x \<in> set (pool p). \<not> is_free sc x" "max_pool_size p \<le> pool_size p" "get_buffer sc p = (None, p)"
proof (cases "\<exists>x \<in> set (pool p). is_free sc x")
  case True
  then obtain xs b ys where *: "pool p = xs @ b # ys" "is_free sc b" "\<forall>x \<in> set xs. \<not> is_free sc x"
    using split_list_first_prop [of "pool p" "is_free sc"] by blast
  show ?thesis
    by (rule reuse [OF *(1,3,2)])
      (use reclaim_loop_some [OF *(3,2,1), of "length ys"] *(1) in \<open>simp add: get_buffer_def try_reclaim_def\<close>)
next
  case False
  then have "get_buffer sc p = increase_pool p"
    using reclaim_loop_none [of "pool p" sc p "[]"] by (simp add: get_buffer_def try_reclaim_def)
  with False show ?thesis
    by (cases "pool_size p < max_pool_size p")
      (auto simp: increase_pool_def new_buffer_def intro: alloc full)
qed

subsection \<open>Reservations\<close>

text \<open>Chunks the pool is certain to be able to hand out, whatever happens to the leases.\<close>

definition available :: "buffer_pool \<Rightarrow> nat" where
  "available p = length (filter (\<lambda>b. \<not> locked b) (pool p)) + (max_pool_size p - pool_size p)"

fun get_buffers :: "(lock \<Rightarrow> nat) list \<Rightarrow> buffer_pool \<Rightarrow> (buffer_chunk list \<times> buffer_pool) option" where
  "get_buffers [] p = Some ([], p)"
| "get_buffers (sc # scs) p =
     (case get_buffer sc p of
        (Some b, p') \<Rightarrow> map_option (\<lambda>(bs, p''). (b # bs, p'')) (get_buffers scs p')
      | (None, _) \<Rightarrow> None)"

lemma locked_of_not_free: "\<not> is_free sc x \<Longrightarrow> locked x"
  by (simp add: is_free_def)

lemma get_buffer_available:
  assumes "0 < available p"
  shows "\<exists>b p'. get_buffer sc p = (Some b, p') \<and> available p \<le> Suc (available p')"
proof (rule get_buffer_cases [of p sc])
  fix xs b ys assume a: "pool p = xs @ b # ys" "\<forall>x \<in> set xs. \<not> is_free sc x"
    "get_buffer sc p = (Some (b\<lparr>locked := False\<rparr>), p\<lparr>pool := ys @ xs\<rparr>)"
  then have "filter (\<lambda>b. \<not> locked b) xs = []" using locked_of_not_free by (auto simp: filter_empty_conv)
  with a show ?thesis by (simp add: available_def)
next
  assume a: "\<forall>x \<in> set (pool p). \<not> is_free sc x" "max_pool_size p \<le> pool_size p"
  then have "filter (\<lambda>b. \<not> locked b) (pool p) = []" using locked_of_not_free by (auto simp: filter_empty_conv)
  with a assms show ?thesis by (simp add: available_def)
qed (simp add: available_def)

lemma get_buffers_available: "length scs \<le> available p \<Longrightarrow> \<exists>bs p'. get_buffers scs p = Some (bs, p') \<and> length bs = length scs"
proof (induction scs arbitrary: p)
  case (Cons sc scs)
  obtain b p' where "get_buffer sc p = (Some b, p')" "available p \<le> Suc (available p')"
    using get_buffer_available [of p sc] Cons.prems by auto
  then show ?case using Cons.IH [of p'] Cons.prems by auto
qed simp

lemma get_buffer_unlocked: "get_buffer sc p = (Some b, p') \<Longrightarrow> \<not> locked b"
  by (rule get_buffer_cases [of p sc]) (auto simp: from_chunk_def)

text \<open>A pool that cannot hand out a chunk: all it holds are in use, and it may not allocate more.\<close>

definition exhausted :: "(lock \<Rightarrow> nat) \<Rightarrow> buffer_pool \<Rightarrow> bool" where
  "exhausted sc p \<longleftrightarrow> (\<forall>b \<in> set (pool p). \<not> is_free sc b) \<and> max_pool_size p \<le> pool_size p"

lemma get_buffer_None: "get_buffer sc p = (None, p') \<Longrightarrow> p' = p \<and> exhausted sc p"
  by (rule get_buffer_cases [of p sc]) (auto simp: exhausted_def)

text \<open>What a pool is after chunks were taken in exchange for others: unchanged, or not empty.\<close>

definition exchanged :: "buffer_pool \<Rightarrow> buffer_pool \<Rightarrow> bool" where
  "exchanged p p' \<longleftrightarrow> p' = p \<or> pool p' \<noteq> []"

lemma exchanged_refl [simp]: "exchanged p p"
  by (simp add: exchanged_def)

lemma exchanged_trans: "exchanged p q \<Longrightarrow> exchanged q r \<Longrightarrow> exchanged p r"
  by (auto simp: exchanged_def)

lemma exchanged_return [simp]: "exchanged p (return_buffer b q)"
  by (simp add: exchanged_def return_buffer_def)

text \<open>When no lease is alive, such a pool is never exhausted as long as it may allocate or holds a chunk.\<close>

lemma exchanged_not_exhausted:
  "exchanged p p' \<Longrightarrow> \<not> exhausted (\<lambda>_. 1) p \<Longrightarrow> \<not> exhausted (\<lambda>_. 1) p'"
  by (auto simp: exchanged_def exhausted_def is_free_def)

lemma reserve_loop_spec:
  "reserve_loop sc n rs p = Ok (rs', p') \<Longrightarrow> \<exists>new. rs' = rs @ new \<and> length new = n \<and> (\<forall>b \<in> set new. \<not> locked b)"
proof (induction n arbitrary: rs p)
  case (Suc n)
  then obtain b p1 where 1: "try_reclaim sc p = (Some b, p1)" "reserve_loop sc n (rs @ [b]) p1 = Ok (rs', p')"
    by (auto split: prod.splits option.splits)
  obtain new where "rs' = (rs @ [b]) @ new" "length new = n" "\<forall>b \<in> set new. \<not> locked b"
    using Suc.IH [OF 1(2)] by blast
  moreover have "\<not> locked b" using 1(1) get_buffer_unlocked by (simp add: get_buffer_def)
  ultimately show ?case by (intro exI [of _ "b # new"]) auto
qed simp

lemma reserve_available:
  assumes "pool_try_reserve sc n p = Ok p'"
  shows "div_ceil n (pool_chunk_size p) \<le> available p'"
proof (cases "div_ceil n (pool_chunk_size p) \<le> max_pool_size p - pool_size p")
  case True
  then have "p' = p" using assms by (auto simp: pool_try_reserve_def Let_def split: if_splits)
  then show ?thesis using True by (simp add: available_def)
next
  case False
  then obtain rs p1 where 1: "reserve_loop sc (div_ceil n (pool_chunk_size p)) [] p = Ok (rs, p1)"
    "p' = p1\<lparr>pool := rev rs @ pool p1\<rparr>"
    using assms by (auto simp: pool_try_reserve_def Let_def split: if_splits rresult.splits)
  have "length rs = div_ceil n (pool_chunk_size p)" "\<forall>b \<in> set rs. \<not> locked b"
    using reserve_loop_spec [OF 1(1)] by auto
  then have "length (filter (\<lambda>b. \<not> locked b) (rev rs)) = div_ceil n (pool_chunk_size p)" by (simp add: filter_id_conv)
  then show ?thesis by (simp add: available_def 1(2))
qed

text \<open>
  A successful reservation is honoured: as many requests as the reserved bytes need chunks
  then succeed, whatever leases are held or dropped meanwhile.
\<close>

theorem reservation_is_honoured:
  assumes "pool_try_reserve sc n p = Ok p'" "length scs = div_ceil n (pool_chunk_size p)"
  shows "\<exists>bs p''. get_buffers scs p' = Some (bs, p'') \<and> length bs = length scs"
  using get_buffers_available [of scs p'] reserve_available [OF assms(1)] assms(2) by simp

theorem reservation_is_honoured_witness:
  "\<exists>p p'. pool_with_config 0 \<lparr>chunk_size = 128, initial_chunk_count = 1, max_chunk_count = 3, encode_buf_min_free_space = 64\<rparr> None = Ok p \<and>
     pool_try_reserve (\<lambda>_. 1) 384 p = Ok p' \<and> get_pool_sizes p' = (3, 3) \<and>
     (\<exists>bs p''. get_buffers [\<lambda>_. 5, \<lambda>_. 5, \<lambda>_. 5] p' = Some (bs, p'') \<and> length bs = 3)"
proof -
  define raw where "raw = replicate 128 (0 :: u8)"
  define p where "p = \<lparr>pool = [from_chunk raw 0], pool_size = 1, alloc_chunk = raw, next_lock = 1,
    pool_chunk_size = 128, max_pool_size = 3\<rparr>"
  define p' where "p' = p\<lparr>pool := [from_chunk raw 2, from_chunk raw 1, from_chunk raw 0], pool_size := 3, next_lock := 3\<rparr>"
  have p: "pool_with_config 0 \<lparr>chunk_size = 128, initial_chunk_count = 1, max_chunk_count = 3, encode_buf_min_free_space = 64\<rparr> None = Ok p"
    by (simp add: pool_with_config_def config_validate_def new_buffer_def p_def raw_def Let_def)
  have "div_ceil 384 128 = 3" by (simp add: div_ceil_def)
  then have p': "pool_try_reserve (\<lambda>_. 1) 384 p = Ok p'"
    by (simp add: pool_try_reserve_def p_def p'_def try_reclaim_def increase_pool_def new_buffer_def
        from_chunk_def free_def numeral_3_eq_3)
  have "\<exists>bs p''. get_buffers [\<lambda>_. 5, \<lambda>_. 5, \<lambda>_. 5] p' = Some (bs, p'') \<and> length bs = length [\<lambda>_ :: lock. 5 :: nat, \<lambda>_. 5, \<lambda>_. 5]"
    by (rule reservation_is_honoured [OF p']) (simp add: div_ceil_def p_def)
  moreover have "get_pool_sizes p' = (3, 3)" by (simp add: get_pool_sizes_def p'_def p_def)
  ultimately show ?thesis using p p' by auto
qed

subsection \<open>Exclusive use\<close>

text \<open>
  The pool together with the chunks it has handed out and the number of holders of every lock. A
  lock that was not made yet will have one holder, its chunk.
\<close>

record pool_state =
  the_pool :: buffer_pool
  taken :: "buffer_chunk list"
  holders :: "lock \<Rightarrow> nat"

definition hold :: "lock \<Rightarrow> pool_state \<Rightarrow> pool_state" where
  "hold l s = s\<lparr>holders := (holders s)(l := holders s l + 1)\<rparr>"

inductive pool_step :: "pool_state \<Rightarrow> pool_state \<Rightarrow> bool" where
  Get: "get_buffer (holders s) (the_pool s) = (Some b, p') \<Longrightarrow> pool_step s (s\<lparr>the_pool := p', taken := b # taken s\<rparr>)"
| Return: "b \<in> set (taken s) \<Longrightarrow>
    pool_step s (s\<lparr>the_pool := return_buffer b (the_pool s), taken := remove1 b (taken s)\<rparr>)"
| Lease: "b \<in> set (taken s) \<Longrightarrow> get_lease b from to = Ok l \<Longrightarrow> pool_step s (hold (lock l) s)"
| Share: "1 < holders s l \<Longrightarrow> pool_step s (hold l s)"
| Release: "1 < holders s l \<Longrightarrow> pool_step s (s\<lparr>holders := (holders s)(l := holders s l - 1)\<rparr>)"
| Reserve: "pool_try_reserve (holders s) n (the_pool s) = Ok p' \<Longrightarrow> pool_step s (s\<lparr>the_pool := p'\<rparr>)"
| ReserveFails: "pool_try_reserve (holders s) n (the_pool s) = Err p' \<Longrightarrow> pool_step s (s\<lparr>the_pool := p'\<rparr>)"

inductive pool_reachable :: "pool_state \<Rightarrow> bool" where
  Init: "pool_with_config l0 cfg custom = Ok p \<Longrightarrow> pool_reachable \<lparr>the_pool = p, taken = [], holders = (\<lambda>_. 1)\<rparr>"
| Step: "pool_reachable s \<Longrightarrow> pool_step s s' \<Longrightarrow> pool_reachable s'"

text \<open>The invariant of the pool \<open>p\<close> with a list \<open>out\<close> of chunks that were taken out of it.\<close>

definition pool_inv :: "buffer_pool \<Rightarrow> buffer_chunk list \<Rightarrow> (lock \<Rightarrow> nat) \<Rightarrow> bool" where
  "pool_inv p out h \<longleftrightarrow>
     distinct (map ref_count (pool p @ out)) \<and> (\<forall>l \<in> set (map ref_count (pool p @ out)). l < next_lock p) \<and>
     (\<forall>b \<in> set (pool p). \<not> locked b \<longrightarrow> h (ref_count b) = 1) \<and>
     (\<forall>l \<ge> next_lock p. h l = 1) \<and> (\<forall>l. 1 \<le> h l) \<and>
     pool_size p \<le> max_pool_size p \<and> length (map ref_count (pool p @ out)) \<le> pool_size p"

lemma pool_inv_transfer:
  assumes "pool_inv p out h" "mset (map ref_count (pool p' @ out')) = mset (map ref_count (pool p @ out))"
    and "next_lock p' = next_lock p" "pool_size p' = pool_size p" "max_pool_size p' = max_pool_size p"
    and "\<forall>b \<in> set (pool p'). \<not> locked b \<longrightarrow> h (ref_count b) = 1"
  shows "pool_inv p' out' h"
proof -
  have "distinct (map ref_count (pool p' @ out'))"
    using mset_eq_imp_distinct_iff [OF assms(2)] assms(1) by (simp only: pool_inv_def)
  moreover have "set (map ref_count (pool p' @ out')) = set (map ref_count (pool p @ out))"
    using assms(2) by (rule mset_eq_setD)
  moreover have "length (map ref_count (pool p' @ out')) = length (map ref_count (pool p @ out))"
    using assms(2) by (rule mset_eq_length)
  ultimately show ?thesis using assms(1,3-6) by (simp only: pool_inv_def simp_thms) blast
qed

lemma get_buffer_inv:
  assumes "pool_inv p out h" "get_buffer h p = (Some b, p')"
  shows "pool_inv p' (b # out) h \<and> h (ref_count b) = 1 \<and> ref_count b \<notin> ref_count ` set out"
proof (rule get_buffer_cases [of p h])
  fix xs c ys assume a: "pool p = xs @ c # ys" "is_free h c"
    "get_buffer h p = (Some (c\<lparr>locked := False\<rparr>), p\<lparr>pool := ys @ xs\<rparr>)"
  have "1 \<le> h (ref_count c)" "\<not> locked c \<Longrightarrow> h (ref_count c) = 1" using assms(1) a(1) by (auto simp: pool_inv_def)
  with a(2) have "h (ref_count c) = 1" by (cases "locked c") (auto simp: is_free_def)
  moreover have "b = c\<lparr>locked := False\<rparr>" "p' = p\<lparr>pool := ys @ xs\<rparr>" using a(3) assms(2) by auto
  moreover have "pool_inv (p\<lparr>pool := ys @ xs\<rparr>) (c\<lparr>locked := False\<rparr> # out) h"
    by (rule pool_inv_transfer [OF assms(1)]) (use assms(1) a(1) in \<open>auto simp: pool_inv_def\<close>)
  ultimately show ?thesis using assms(1) a(1) by (auto simp: pool_inv_def)
next
  assume a: "pool_size p < max_pool_size p"
    "get_buffer h p = (Some (from_chunk (alloc_chunk p) (next_lock p)),
       p\<lparr>pool_size := pool_size p + 1, next_lock := Suc (next_lock p)\<rparr>)"
  then show ?thesis using assms by (auto simp: pool_inv_def from_chunk_def less_Suc_eq image_iff)
qed (use assms in auto)

lemma pool_inv_perm:
  assumes "pool_inv p out h" "mset out = mset out'"
  shows "pool_inv p out' h"
  by (rule pool_inv_transfer [OF assms(1)]) (use assms in \<open>simp_all add: pool_inv_def\<close>)

lemma pool_inv_forget: "pool_inv p (rs @ out) h \<Longrightarrow> pool_inv p out h"
  by (auto simp: pool_inv_def)

lemma pool_inv_back:
  assumes "pool_inv p (rs @ out) h" "\<forall>b \<in> set rs. h (ref_count b) = 1"
  shows "pool_inv (p\<lparr>pool := rev rs @ pool p\<rparr>) out h"
  by (rule pool_inv_transfer [OF assms(1)]) (use assms in \<open>auto simp: pool_inv_def\<close>)

lemma try_reclaim_None: "try_reclaim h p = (None, p') \<Longrightarrow> p' = p"
  by (rule get_buffer_cases [of p h]) (auto simp: get_buffer_def)

lemma reserve_loop_inv:
  assumes "pool_inv p (rs @ out) h" "\<forall>b \<in> set rs. h (ref_count b) = 1"
  shows "reserve_loop h n rs p = Ok (rs', p') \<Longrightarrow> pool_inv p' (rs' @ out) h \<and> (\<forall>b \<in> set rs'. h (ref_count b) = 1)"
    and "reserve_loop h n rs p = Err p' \<Longrightarrow> pool_inv p' out h"
  using assms
proof (induction n arbitrary: p rs)
  case (Suc n)
  have next_inv: "pool_inv p1 ((rs @ [b]) @ out) h \<and> (\<forall>c \<in> set (rs @ [b]). h (ref_count c) = 1)"
    if "try_reclaim h p = (Some b, p1)" "pool_inv p (rs @ out) h" "\<forall>c \<in> set rs. h (ref_count c) = 1" for p rs b p1
    using get_buffer_inv [OF that(2), of b p1] that(1,3) pool_inv_perm [of p1 "b # rs @ out" h "(rs @ [b]) @ out"]
    by (auto simp: get_buffer_def)
  {
    case 1
    then obtain b p1 where 11: "try_reclaim h p = (Some b, p1)" "reserve_loop h n (rs @ [b]) p1 = Ok (rs', p')"
      by (auto split: prod.splits option.splits)
    from next_inv [OF 11(1) 1(2,3)] show ?case using Suc.IH(1) [OF 11(2)] by blast
  next
    case 2
    show ?case
    proof (cases "try_reclaim h p")
      case (Pair r p1)
      show ?thesis
      proof (cases r)
        case None
        then show ?thesis using 2 Pair try_reclaim_None [of h p p1] pool_inv_forget by auto
      next
        case (Some b)
        with Pair 2(1) have 22: "try_reclaim h p = (Some b, p1)" "reserve_loop h n (rs @ [b]) p1 = Err p'" by auto
        from next_inv [OF 22(1) 2(2,3)] show ?thesis using Suc.IH(2) [OF 22(2)] by blast
      qed
    qed
  }
qed auto

lemma pool_try_reserve_inv:
  assumes "pool_inv p out h"
  shows "pool_try_reserve h n p = Ok p' \<Longrightarrow> pool_inv p' out h"
    and "pool_try_reserve h n p = Err p' \<Longrightarrow> pool_inv p' out h"
proof -
  assume "pool_try_reserve h n p = Ok p'"
  then show "pool_inv p' out h" using assms reserve_loop_inv(1) [of p "[]" out h]
    by (auto simp: pool_try_reserve_def Let_def pool_inv_back split: if_splits rresult.splits)
next
  assume "pool_try_reserve h n p = Err p'"
  then show "pool_inv p' out h" using assms reserve_loop_inv(2) [of p "[]" out h]
    by (auto simp: pool_try_reserve_def Let_def split: if_splits rresult.splits)
qed

lemma push_initial_inv:
  "pool_inv p [] (\<lambda>_. 1) \<Longrightarrow> n + length (pool p) \<le> pool_size p \<Longrightarrow> pool_inv (push_initial n p) [] (\<lambda>_. 1)"
proof (induction n arbitrary: p)
  case (Suc n)
  let ?p = "p\<lparr>next_lock := Suc (next_lock p), pool := from_chunk (alloc_chunk p) (next_lock p) # pool p\<rparr>"
  have "pool_inv ?p [] (\<lambda>_. 1)" using Suc.prems by (auto simp: pool_inv_def from_chunk_def less_Suc_eq)
  then show ?case using Suc.IH [of ?p] Suc.prems(2) by (simp add: new_buffer_def)
qed simp

lemma pool_with_config_inv:
  assumes "pool_with_config l0 cfg custom = Ok p"
  shows "pool_inv p [] (\<lambda>_. 1)"
proof -
  let ?raw = "case custom of Some c \<Rightarrow> c | None \<Rightarrow> replicate (chunk_size cfg) 0"
  let ?p0 = "\<lparr>pool = [], pool_size = initial_chunk_count cfg, alloc_chunk = ?raw, next_lock = l0,
      pool_chunk_size = chunk_size cfg, max_pool_size = max_chunk_count cfg\<rparr>"
  have "p = push_initial (initial_chunk_count cfg) ?p0" "initial_chunk_count cfg \<le> max_chunk_count cfg"
    using assms by (auto simp: pool_with_config_def config_validate_def Let_def split: if_splits)
  moreover have "initial_chunk_count cfg \<le> max_chunk_count cfg \<Longrightarrow> pool_inv ?p0 [] (\<lambda>_. 1)" by (simp add: pool_inv_def)
  ultimately show ?thesis using push_initial_inv [of ?p0 "initial_chunk_count cfg"] by simp
qed

lemma return_inv:
  assumes "pool_inv p out h" "b \<in> set out"
  shows "pool_inv (return_buffer b p) (remove1 b out) h"
proof -
  have "pool_inv p (b # remove1 b out) h" using assms by (intro pool_inv_perm [OF assms(1)]) simp
  then show ?thesis
    by (rule pool_inv_transfer) (use assms(1) in \<open>auto simp: pool_inv_def return_buffer_def lock_chunk_def\<close>)
qed

lemma hold_inv:
  assumes "pool_inv p out h" "1 < h l \<or> (\<exists>b \<in> set out. ref_count b = l)"
  shows "pool_inv p out (h(l := Suc (h l)))"
proof -
  have "\<forall>b \<in> set (pool p). \<not> locked b \<longrightarrow> ref_count b \<noteq> l" "l < next_lock p"
    using assms by (auto simp: pool_inv_def not_le [symmetric] dest: bspec)
  then show ?thesis using assms(1) by (auto simp: pool_inv_def)
qed

lemma release_inv: "pool_inv p out h \<Longrightarrow> 1 < h l \<Longrightarrow> pool_inv p out (h(l := h l - Suc 0))"
  by (auto simp: pool_inv_def)

lemma get_lease_lock: "get_lease b from to = Ok l \<Longrightarrow> lock l = ref_count b"
  by (auto simp: get_lease_def rbind_eq_Ok lease_new_def)

lemma pool_step_inv:
  "pool_step s s' \<Longrightarrow> pool_inv (the_pool s) (taken s) (holders s) \<Longrightarrow> pool_inv (the_pool s') (taken s') (holders s')"
  by (induction rule: pool_step.induct)
    (auto simp: hold_def get_lease_lock dest: get_buffer_inv pool_try_reserve_inv
      intro!: return_inv hold_inv release_inv)

lemma pool_reachable_inv: "pool_reachable s \<Longrightarrow> pool_inv (the_pool s) (taken s) (holders s)"
  by (induction rule: pool_reachable.induct) (auto dest: pool_with_config_inv pool_step_inv)

text \<open>
  C19: Whatever clients do with the chunks they were handed and with leases, references and
  reservations, a chunk that the pool hands out is unlocked, no lease or reference to its
  bytes is left, and no other client has it; and the pool never has more chunks
  allocated than its maximum.
\<close>

theorem handed_out_chunk_is_exclusive:
  assumes "pool_reachable s" "get_buffer (holders s) (the_pool s) = (Some b, p')"
  shows "\<not> locked b \<and> holders s (ref_count b) = 1 \<and> ref_count b \<notin> ref_count ` set (taken s) \<and>
         pool_size p' \<le> max_pool_size p' \<and> length (pool p') + length (b # taken s) \<le> pool_size p'"
  using get_buffer_inv [OF pool_reachable_inv [OF assms(1)] assms(2)] get_buffer_unlocked [OF assms(2)]
  by (auto simp: pool_inv_def)

theorem handed_out_chunk_is_exclusive_witness:
  "\<exists>s b p'. pool_reachable s \<and> get_buffer (holders s) (the_pool s) = (Some b, p') \<and> holders s (ref_count b) = 1"
proof -
  let ?cfg = "\<lparr>chunk_size = 128, initial_chunk_count = 1, max_chunk_count = 3, encode_buf_min_free_space = 64\<rparr>"
  define p where "p = \<lparr>pool = [from_chunk [1] 0], pool_size = 1, alloc_chunk = [1], next_lock = 1,
    pool_chunk_size = 128, max_pool_size = 3\<rparr>"
  let ?s = "\<lparr>the_pool = p, taken = [], holders = (\<lambda>_. 1)\<rparr>"
  have "pool_with_config 0 ?cfg (Some [1]) = Ok p"
    by (simp add: pool_with_config_def config_validate_def new_buffer_def p_def Let_def)
  then have r: "pool_reachable ?s" by (rule pool_reachable.Init)
  have g: "get_buffer (holders ?s) (the_pool ?s) = (Some (from_chunk [1] 0), p\<lparr>pool := []\<rparr>)"
    by (simp add: get_buffer_def try_reclaim_def free_def p_def from_chunk_def)
  show ?thesis using handed_out_chunk_is_exclusive [OF r g] r g by blast
qed

subsection \<open>A failed reservation\<close>

lemma reserve_loop_fails:
  "reserve_loop sc n rs p = Err p' \<Longrightarrow>
     mset (pool p') = mset (filter (\<lambda>b. \<not> is_free sc b) (pool p)) \<and> max_pool_size p' \<le> pool_size p' \<and>
     max_pool_size p' = max_pool_size p"
proof (induction n arbitrary: rs p)
  case (Suc n)
  show ?case
  proof (rule get_buffer_cases [of p sc])
    fix xs b ys assume "pool p = xs @ b # ys" "is_free sc b"
      "get_buffer sc p = (Some (b\<lparr>locked := False\<rparr>), p\<lparr>pool := ys @ xs\<rparr>)"
    then show ?thesis using Suc.IH [of "rs @ [b\<lparr>locked := False\<rparr>]" "p\<lparr>pool := ys @ xs\<rparr>"] Suc.prems
      by (simp add: get_buffer_def)
  next
    let ?b = "from_chunk (alloc_chunk p) (next_lock p)" and ?p = "p\<lparr>pool_size := pool_size p + 1, next_lock := Suc (next_lock p)\<rparr>"
    assume "get_buffer sc p = (Some ?b, ?p)"
    then show ?thesis using Suc.IH [of "rs @ [?b]" ?p] Suc.prems by (simp add: get_buffer_def)
  next
    assume "\<forall>x \<in> set (pool p). \<not> is_free sc x" "max_pool_size p \<le> pool_size p" "get_buffer sc p = (None, p)"
    then show ?thesis using Suc.prems by (simp add: get_buffer_def filter_id_conv [THEN iffD2])
  qed
qed simp

text \<open>
  A reservation that does not fit drops every chunk it had reclaimed or allocated so far, but
  their number stays in \<open>pool_size\<close>: the pool is left with only the chunks that are still leased,
  counts as full, and will never allocate again.
\<close>

theorem failed_reservation_loses_chunks:
  assumes "pool_try_reserve sc n p = Err p'" "div_ceil n (pool_chunk_size p) \<le> max_pool_size p"
  shows "mset (pool p') = mset (filter (\<lambda>b. \<not> is_free sc b) (pool p)) \<and> max_pool_size p' \<le> pool_size p' \<and>
         get_buffer sc p' = (None, p')"
proof -
  have "reserve_loop sc (div_ceil n (pool_chunk_size p)) [] p = Err p'"
    using assms by (auto simp: pool_try_reserve_def Let_def split: if_splits rresult.splits)
  then have l: "mset (pool p') = mset (filter (\<lambda>b. \<not> is_free sc b) (pool p))" "max_pool_size p' \<le> pool_size p'"
    using reserve_loop_fails by blast+
  then have "\<forall>x \<in> set (pool p'). \<not> is_free sc x" using mset_eq_setD [OF l(1)] by simp
  then show ?thesis using l by (cases rule: get_buffer_cases [of p' sc]) auto
qed

end
