(* ===== verification/Encode_Buffer.thy ===== *)
theory Encode_Buffer
  imports Net_Frames Buffer_Pool
begin

section \<open>The encode buffer (\<open>core/src/net/buffers/encode_buffer.rs\<close>)\<close>

text \<open>
  Where messages are serialised before they are sent: an encoder writes into the current chunk of
  an encode buffer, chains what it has written when the chunk is full, and swaps in
  another chunk of the buffer's own pool. Here is also the part of \<open>chunk_lease.rs\<close> that
  overwrites the front of a lease with a frame head. The lemmas show that the lease an encoder yields
  reads exactly what was written, whatever swaps happened in between.
\<close>

subsection \<open>Overwriting a lease\<close>

fun set_write_pointer :: "nat \<Rightarrow> chunk_lease \<Rightarrow> chunk_lease" where
  "set_write_pointer w' (ChunkLease c w r h l ch n) = ChunkLease c w' r h l ch n"

text \<open>Copying into the slices \<open>chunk_mut\<close> gives, from position \<open>pos\<close> of the chain on.\<close>

fun lease_write_at :: "nat \<Rightarrow> u8 list \<Rightarrow> chunk_lease \<Rightarrow> chunk_lease" where
  "lease_write_at pos bs (ChunkLease c w r h l ch n) =
     (if pos \<ge> h then
        ChunkLease c w r h l (case ch of Some t \<Rightarrow> Some (lease_write_at (pos - h) bs t) | None \<Rightarrow> None) n
      else
        (let k = min (h - pos) (length bs)
         in ChunkLease (take pos c @ take k bs @ drop (pos + k) c) w r h l
              (case ch of Some t \<Rightarrow> Some (lease_write_at 0 (drop k bs) t) | None \<Rightarrow> None) n))"

definition insert_head :: "buf_ops \<Rightarrow> frame_head \<Rightarrow> chunk_lease \<Rightarrow> (chunk_lease, framing_error) rresult" where
  "insert_head ops head l =
     (let l0 = set_write_pointer 0 l
      in rbind (head_encode_into ops head ([], lease_remaining_mut l0)) (\<lambda>(bs, _).
           Ok (set_write_pointer (write_pointer l) (lease_write_at 0 bs l0))))"

subsection \<open>The buffer\<close>

record encode_buffer =
  eb_buffer :: buffer_chunk
  eb_pool :: buffer_pool
  eb_write_offset :: nat
  eb_read_offset :: nat
  eb_dispatcher_ref :: bool
  eb_min_remaining :: nat

definition encode_buffer_with_config ::
    "(lock \<Rightarrow> nat) \<Rightarrow> lock \<Rightarrow> bool \<Rightarrow> buffer_config \<Rightarrow> u8 list option \<Rightarrow> (encode_buffer, unit) rresult" where
  "encode_buffer_with_config strong_count l0 dispatcher cfg custom =
     rbind (pool_with_config l0 cfg custom) (\<lambda>p.
       case get_buffer strong_count p of
         (Some b, p') \<Rightarrow> Ok \<lparr>eb_buffer = b, eb_pool = p', eb_write_offset = 0, eb_read_offset = 0,
            eb_dispatcher_ref = dispatcher, eb_min_remaining = encode_buf_min_free_space cfg\<rparr>
       | (None, _) \<Rightarrow> Panic)"

definition eb_writeable_len :: "encode_buffer \<Rightarrow> nat" where
  "eb_writeable_len eb = length (chunk (eb_buffer eb)) - eb_write_offset eb"

definition eb_swap_buffer :: "(lock \<Rightarrow> nat) \<Rightarrow> encode_buffer \<Rightarrow> (unit, ser_error) rresult \<times> encode_buffer" where
  "eb_swap_buffer strong_count eb =
     (case get_buffer strong_count (eb_pool eb) of
        (Some b, p) \<Rightarrow>
          (Ok (), eb\<lparr>eb_buffer := b, eb_read_offset := 0, eb_write_offset := 0,
             eb_pool := return_buffer (lock_chunk (eb_buffer eb)) p\<rparr>)
      | (None, p) \<Rightarrow> (Err (NoBuffersAvailable ''No Available Buffers in BufferPool''), eb\<lparr>eb_pool := p\<rparr>))"

text \<open>A write offset behind the read offset underflows, or fails the assertion of \<open>get_slice\<close>.\<close>

definition eb_get_chunk_lease :: "encode_buffer \<Rightarrow> (chunk_lease option \<times> encode_buffer, unit) rresult" where
  "eb_get_chunk_lease eb =
     (if eb_write_offset eb < eb_read_offset eb then Panic
      else let cnt = eb_write_offset eb - eb_read_offset eb
           in if cnt > 0 then
                rbind (get_lease (eb_buffer eb) (eb_write_offset eb - cnt) (eb_write_offset eb)) (\<lambda>lease.
                  Ok (Some lease, eb\<lparr>eb_read_offset := eb_read_offset eb + cnt\<rparr>))
              else Ok (None, eb))"

text \<open>
  Dropping the buffer: the chunks that are sent to the dispatcher because they still have leases.
\<close>

definition encode_buffer_drop :: "(lock \<Rightarrow> nat) \<Rightarrow> encode_buffer \<Rightarrow> buffer_chunk list" where
  "encode_buffer_drop strong_count eb =
     (if eb_dispatcher_ref eb then
        filter (\<lambda>b. \<not> fst (free strong_count b)) (fst (drain_returned (eb_pool eb))) @
        (let b = lock_chunk (eb_buffer eb) in if fst (free strong_count b) then [] else [b])
      else [])"

subsection \<open>The encoder\<close>

record buffer_encoder =
  encode_buffer :: encode_buffer
  en_chain_head :: "chunk_lease option"
  en_ser_error :: "ser_error option"

definition encoder_new :: "encode_buffer \<Rightarrow> (buffer_encoder, ser_error) rresult" where
  "encoder_new eb =
     (if eb_write_offset eb = eb_read_offset eb
      then Ok \<lparr>encode_buffer = eb, en_chain_head = None, en_ser_error = None\<rparr> else Panic)"

definition get_buffer_encoder ::
    "(lock \<Rightarrow> nat) \<Rightarrow> encode_buffer \<Rightarrow> (buffer_encoder, ser_error) rresult \<times> encode_buffer" where
  "get_buffer_encoder strong_count eb =
     (if eb_writeable_len eb < eb_min_remaining eb then
        (case eb_swap_buffer strong_count eb of
           (Ok _, eb') \<Rightarrow> (encoder_new eb', eb')
         | (Err e, eb') \<Rightarrow> (Err e, eb')
         | (Panic, eb') \<Rightarrow> (Panic, eb'))
      else (encoder_new eb, eb))"

text \<open>
  The counters of the locks as the pool sees them: what others hold, and the slices in the
  encoder's own chain.
\<close>

fun lease_locks :: "chunk_lease \<Rightarrow> lock list" where
  "lease_locks (ChunkLease c w r h l ch n) = l # (case ch of Some t \<Rightarrow> lease_locks t | None \<Rightarrow> [])"

definition enc_strong :: "(lock \<Rightarrow> nat) \<Rightarrow> chunk_lease option \<Rightarrow> lock \<Rightarrow> nat" where
  "enc_strong others ch l = others l + (case ch of Some c \<Rightarrow> count_list (lease_locks c) l | None \<Rightarrow> 0)"

definition chain_and_swap ::
    "(lock \<Rightarrow> nat) \<Rightarrow> buffer_encoder \<Rightarrow> (unit, ser_error) rresult \<times> buffer_encoder" where
  "chain_and_swap others e =
     (case eb_get_chunk_lease (encode_buffer e) of
        Ok (lease, eb) \<Rightarrow>
          (let ch = (case lease of
                       Some l \<Rightarrow> (case en_chain_head e of Some front \<Rightarrow> Some (append_to_chain front l) | None \<Rightarrow> Some l)
                     | None \<Rightarrow> en_chain_head e);
               (r, eb') = eb_swap_buffer (enc_strong others ch) eb
           in (r, e\<lparr>encode_buffer := eb', en_chain_head := ch\<rparr>))
      | _ \<Rightarrow> (Panic, e))"

definition enc_try_reserve ::
    "(lock \<Rightarrow> nat) \<Rightarrow> nat \<Rightarrow> buffer_encoder \<Rightarrow> (unit, ser_error) rresult \<times> buffer_encoder" where
  "enc_try_reserve others sz e =
     (let eb = encode_buffer e;
          buf_len = length (chunk (eb_buffer eb));
          remaining = buf_len - eb_write_offset eb
      in if remaining > sz then (Ok (), e)
         else if sz < buf_len then chain_and_swap others e
         else (case pool_try_reserve (enc_strong others (en_chain_head e)) (sz - remaining) (eb_pool eb) of
                 Ok p \<Rightarrow> (Ok (), e\<lparr>encode_buffer := eb\<lparr>eb_pool := p\<rparr>\<rparr>)
               | Err p \<Rightarrow> (Err (NoBuffersAvailable []), e\<lparr>encode_buffer := eb\<lparr>eb_pool := p\<rparr>\<rparr>)
               | Panic \<Rightarrow> (Panic, e)))"

definition set_enc_write :: "nat \<Rightarrow> buffer_encoder \<Rightarrow> buffer_encoder" where
  "set_enc_write w e = e\<lparr>encode_buffer := (encode_buffer e)\<lparr>eb_write_offset := w\<rparr>\<rparr>"

text \<open>\<open>let _ = self.chain_and_swap().map_err(|err| self.ser_error = Some(err))\<close>\<close>

definition swap_or_remember :: "(lock \<Rightarrow> nat) \<Rightarrow> buffer_encoder \<Rightarrow> (buffer_encoder, ser_error) rresult" where
  "swap_or_remember others e =
     (case chain_and_swap others e of
        (Ok _, e') \<Rightarrow> Ok e'
      | (Err er, e') \<Rightarrow> Ok (e'\<lparr>en_ser_error := Some er\<rparr>)
      | (Panic, e') \<Rightarrow> Panic)"

definition advance_mut :: "(lock \<Rightarrow> nat) \<Rightarrow> nat \<Rightarrow> buffer_encoder \<Rightarrow> (buffer_encoder, ser_error) rresult" where
  "advance_mut others cnt e =
     (if en_ser_error e \<noteq> None then Ok e
      else let remaining = eb_writeable_len (encode_buffer e);
               w = eb_write_offset (encode_buffer e)
           in if remaining < cnt then
                rbind (swap_or_remember others (set_enc_write (w + remaining) e)) (\<lambda>e'.
                  Ok (set_enc_write (cnt - remaining) e'))
              else Ok (set_enc_write (w + cnt) e))"

definition pad :: "(lock \<Rightarrow> nat) \<Rightarrow> nat \<Rightarrow> buffer_encoder \<Rightarrow> (buffer_encoder, ser_error) rresult" where
  "pad others cnt e = advance_mut others cnt e"

text \<open>Copying into the slice \<open>chunk_mut\<close> gives.\<close>

definition store_bytes :: "u8 list \<Rightarrow> buffer_encoder \<Rightarrow> buffer_encoder" where
  "store_bytes bs e =
     (let eb = encode_buffer e; b = eb_buffer eb; w = eb_write_offset eb
      in e\<lparr>encode_buffer := eb\<lparr>eb_buffer := b\<lparr>chunk := take w (chunk b) @ bs @ drop (w + length bs) (chunk b)\<rparr>\<rparr>\<rparr>)"

text \<open>The loop of \<open>put_slice\<close>; \<open>None\<close> is a loop that does not end.\<close>

partial_function (option) put_slice_loop ::
    "(lock \<Rightarrow> nat) \<Rightarrow> u8 list \<Rightarrow> nat \<Rightarrow> buffer_encoder \<Rightarrow> (buffer_encoder, ser_error) rresult option" where
  "put_slice_loop others src off e =
     (if off < length src then
        if en_ser_error e \<noteq> None then Some (Ok e)
        else
          (let cnt = min (eb_writeable_len (encode_buffer e)) (length src - off)
           in case advance_mut others cnt (store_bytes (take cnt (drop off src)) e) of
                Ok e1 \<Rightarrow>
                  if eb_writeable_len (encode_buffer e1) < length src - (off + cnt) then
                    (case swap_or_remember others e1 of
                       Ok e2 \<Rightarrow> put_slice_loop others src (off + cnt) e2
                     | Err er \<Rightarrow> Some (Err er)
                     | Panic \<Rightarrow> Some Panic)
                  else put_slice_loop others src (off + cnt) e1
              | Err er \<Rightarrow> Some (Err er)
              | Panic \<Rightarrow> Some Panic)
      else Some (Ok e))"

definition put_slice :: "(lock \<Rightarrow> nat) \<Rightarrow> u8 list \<Rightarrow> buffer_encoder \<Rightarrow> (buffer_encoder, ser_error) rresult option" where
  "put_slice others src e = put_slice_loop others src 0 e"

definition enc_get_chunk_lease :: "buffer_encoder \<Rightarrow> (chunk_lease, ser_error) rresult \<times> buffer_encoder" where
  "enc_get_chunk_lease e =
     (case en_ser_error e of
        Some er \<Rightarrow> (Err er, e\<lparr>en_ser_error := None\<rparr>)
      | None \<Rightarrow>
          (case eb_get_chunk_lease (encode_buffer e) of
             Ok (lease, eb) \<Rightarrow>
               (let e' = e\<lparr>encode_buffer := eb, en_chain_head := None\<rparr>
                in case (en_chain_head e, lease) of
                     (Some front, Some tail) \<Rightarrow> (Ok (append_to_chain front tail), e')
                   | (Some front, None) \<Rightarrow> (Ok front, e')
                   | (None, Some l) \<Rightarrow> (Ok l, e')
                   | (None, None) \<Rightarrow> (Err (InvalidData ''No data written''), e'))
           | _ \<Rightarrow> (Panic, e)))"

text \<open>Dropping an encoder aligns its buffer.\<close>

definition encoder_drop :: "buffer_encoder \<Rightarrow> encode_buffer" where
  "encoder_drop e = (encode_buffer e)\<lparr>eb_read_offset := eb_write_offset (encode_buffer e)\<rparr>"

subsection \<open>Frame heads\<close>

lemma set_write_pointer_facts [simp]:
  "lease_wf (set_write_pointer w l) = lease_wf l" "lease_cells (set_write_pointer w l) = lease_cells l"
  "chain_len (set_write_pointer w l) = chain_len l" "read_pointer (set_write_pointer w l) = read_pointer l"
  "write_pointer (set_write_pointer w l) = w"
  by (cases l; simp)+

lemma lease_write_at_spec:
  "lease_wf l \<Longrightarrow> pos + length bs \<le> chain_len l \<Longrightarrow>
     lease_wf (lease_write_at pos bs l) \<and> chain_len (lease_write_at pos bs l) = chain_len l \<and>
     read_pointer (lease_write_at pos bs l) = read_pointer l \<and>
     map fst (lease_cells (lease_write_at pos bs l)) = map fst (lease_cells l) \<and>
     map snd (lease_cells (lease_write_at pos bs l)) =
       take pos (map snd (lease_cells l)) @ bs @ drop (pos + length bs) (map snd (lease_cells l))"
proof (induction pos bs l rule: lease_write_at.induct)
  case (1 pos bs c w r h l ch n)
  show ?case
  proof (cases "pos \<ge> h")
    case True
    then show ?thesis using "1.prems" "1.IH"(1) by (cases ch; cases bs) (auto simp: comp_def Suc_diff_le)
  next
    case False
    define k where "k = min (h - pos) (length bs)"
    have k: "k \<le> length bs" "pos + k \<le> h" "k < length bs \<Longrightarrow> pos + k = h" using False by (auto simp: k_def)
    have h: "h = length c" using "1.prems" by simp
    show ?thesis
    proof (cases ch)
      case None
      then have "k = length bs" using "1.prems" k by (cases "k < length bs") auto
      then show ?thesis using None False h k "1.prems"(1)
        by (simp add: k_def [symmetric] comp_def map_replicate_const replicate_add [symmetric])
    next
      case (Some t)
      have "lease_wf t" "length (drop k bs) \<le> chain_len t"
        using "1.prems" Some k h by (cases "k < length bs"; auto)+
      with "1.IH"(2) [OF False k_def Some] have IH: "lease_wf (lease_write_at 0 (drop k bs) t)"
        "chain_len (lease_write_at 0 (drop k bs) t) = chain_len t"
        "read_pointer (lease_write_at 0 (drop k bs) t) = read_pointer t"
        "map fst (lease_cells (lease_write_at 0 (drop k bs) t)) = map fst (lease_cells t)"
        "map snd (lease_cells (lease_write_at 0 (drop k bs) t)) = drop k bs @ drop (length bs - k) (map snd (lease_cells t))"
        by simp_all
      let ?t = "lease_write_at 0 (drop k bs) t"
      have eq: "lease_write_at pos bs (ChunkLease c w r h l ch n) =
          ChunkLease (take pos c @ take k bs @ drop (pos + k) c) w r h l (Some ?t) n"
        using False Some by (simp add: k_def Let_def)
      have locks: "map (\<lambda>x. l) (take pos c @ take k bs @ drop (pos + k) c) = map (\<lambda>x. l) c"
        using k h by (simp add: map_replicate_const replicate_add [symmetric])
      have "k < length bs \<Longrightarrow> pos + length bs - h = length bs - k" "drop (pos + length bs) c = drop (pos + k) c"
        using k h by (cases "k < length bs"; auto)+
      then have bytes: "(take pos c @ take k bs @ drop (pos + k) c) @ map snd (lease_cells ?t) =
          take pos (c @ map snd (lease_cells t)) @ bs @ drop (pos + length bs) (c @ map snd (lease_cells t))"
        using IH(5) k h False by (cases "k < length bs") auto
      show ?thesis unfolding eq using IH(1-4) Some h k "1.prems"(1) locks bytes
        by (auto simp: comp_def)
    qed
  qed
qed

lemma insert_head_spec:
  assumes "bytes_documented ops" "lease_wf l" "FRAME_HEAD_LEN \<le> chain_len l"
  shows "\<exists>l'. insert_head ops head l = Ok l' \<and> lease_wf l' \<and> chain_len l' = chain_len l \<and>
    read_pointer l' = read_pointer l \<and> map fst (lease_cells l') = map fst (lease_cells l) \<and>
    map snd (lease_cells l') = head_bytes head @ drop FRAME_HEAD_LEN (map snd (lease_cells l))"
  using assms lease_write_at_spec [of "set_write_pointer 0 l" 0 "head_bytes head"]
  by (simp add: insert_head_def lease_remaining_mut_def bytes_api.head_encode [OF bytes_api.intro [OF assms(1)]])

subsection \<open>What an encoder has written\<close>

text \<open>A chunk has room for a frame head; the configuration asks for more.\<close>

definition roomy :: "u8 list \<Rightarrow> bool" where
  "roomy c \<longleftrightarrow> FRAME_HEAD_LEN \<le> length c"

lemma roomy_not_Nil: "roomy c \<Longrightarrow> c \<noteq> []"
  by (auto simp: roomy_def FRAME_HEAD_LEN_def)

definition pool_ok :: "buffer_pool \<Rightarrow> bool" where
  "pool_ok p \<longleftrightarrow> (\<forall>b \<in> set (pool p). roomy (chunk b)) \<and> roomy (alloc_chunk p) \<and> pool_size p \<le> max_pool_size p"

definition eb_ok :: "encode_buffer \<Rightarrow> bool" where
  "eb_ok eb \<longleftrightarrow> \<not> locked (eb_buffer eb) \<and> roomy (chunk (eb_buffer eb)) \<and> eb_read_offset eb \<le> eb_write_offset eb \<and>
     eb_write_offset eb \<le> length (chunk (eb_buffer eb)) \<and> pool_ok (eb_pool eb)"

definition enc_ok :: "buffer_encoder \<Rightarrow> bool" where
  "enc_ok e \<longleftrightarrow> eb_ok (encode_buffer e) \<and>
     (case en_chain_head e of Some c \<Rightarrow> lease_wf c \<and> read_pointer c = 0 | None \<Rightarrow> True)"

definition eb_pending :: "encode_buffer \<Rightarrow> u8 list" where
  "eb_pending eb = take (eb_write_offset eb - eb_read_offset eb) (drop (eb_read_offset eb) (chunk (eb_buffer eb)))"

definition enc_bytes :: "buffer_encoder \<Rightarrow> u8 list" where
  "enc_bytes e = (case en_chain_head e of Some c \<Rightarrow> map snd (lease_cells c) | None \<Rightarrow> []) @ eb_pending (encode_buffer e)"

lemma get_buffer_ok:
  assumes "pool_ok p" "get_buffer sc p = (b, p')"
  shows "pool_ok p' \<and> (case b of Some b \<Rightarrow> roomy (chunk b) \<and> \<not> locked b | None \<Rightarrow> True)"
  by (rule get_buffer_cases [of p sc]) (use assms in \<open>auto simp: pool_ok_def from_chunk_def\<close>)

lemma return_buffer_ok: "pool_ok p \<Longrightarrow> roomy (chunk b) \<Longrightarrow> pool_ok (return_buffer b p)"
  by (auto simp: pool_ok_def return_buffer_def lock_chunk_def)

lemma swap_spec:
  assumes "eb_ok eb"
  shows "(\<exists>eb'. eb_swap_buffer sc eb = (Ok (), eb') \<and> eb_ok eb' \<and> eb_pending eb' = [] \<and> eb_write_offset eb' = 0 \<and>
            eb_read_offset eb' = 0) \<or>
         (\<exists>er eb'. eb_swap_buffer sc eb = (Err er, eb') \<and> eb_ok eb' \<and> eb_pending eb' = eb_pending eb)"
proof -
  obtain b p where b: "get_buffer sc (eb_pool eb) = (b, p)" by fastforce
  have filled: "pool_ok (eb_pool eb)" "roomy (chunk (eb_buffer eb))" using assms by (auto simp: eb_ok_def)
  have "pool_ok (return_buffer (lock_chunk (eb_buffer eb)) p)"
    using get_buffer_ok [OF filled(1) b] filled(2) by (intro return_buffer_ok) (auto simp: lock_chunk_def)
  then show ?thesis using get_buffer_ok [OF filled(1) b] assms
    by (cases b) (auto simp: eb_swap_buffer_def b eb_ok_def eb_pending_def)
qed

lemma get_chunk_lease_spec:
  assumes "eb_ok eb"
  shows "\<exists>l eb'. eb_get_chunk_lease eb = Ok (l, eb') \<and> eb_ok eb' \<and> eb_pending eb' = [] \<and>
    eb_write_offset eb' = eb_write_offset eb \<and> eb_buffer eb' = eb_buffer eb \<and>
    (case l of Some l \<Rightarrow> lease_wf l \<and> read_pointer l = 0 \<and> map snd (lease_cells l) = eb_pending eb
     | None \<Rightarrow> eb_pending eb = [])"
  using assms
  by (auto simp: eb_get_chunk_lease_def eb_ok_def eb_pending_def get_lease_def get_slice_def Let_def comp_def)

lemma chain_and_swap_spec:
  assumes "enc_ok e"
  shows "(\<exists>e'. chain_and_swap others e = (Ok (), e') \<and> enc_ok e' \<and> enc_bytes e' = enc_bytes e \<and>
            en_ser_error e' = en_ser_error e \<and> eb_write_offset (encode_buffer e') = 0) \<or>
         (\<exists>er e'. chain_and_swap others e = (Err er, e') \<and> enc_ok e' \<and> enc_bytes e' = enc_bytes e \<and>
            en_ser_error e' = en_ser_error e)"
proof -
  obtain l eb where l: "eb_get_chunk_lease (encode_buffer e) = Ok (l, eb)" "eb_ok eb" "eb_pending eb = []"
    "case l of Some l \<Rightarrow> lease_wf l \<and> read_pointer l = 0 \<and> map snd (lease_cells l) = eb_pending (encode_buffer e)
     | None \<Rightarrow> eb_pending (encode_buffer e) = []"
    using get_chunk_lease_spec [of "encode_buffer e"] assms by (auto simp: enc_ok_def)
  define ch where "ch = (case l of Some l \<Rightarrow> (case en_chain_head e of Some front \<Rightarrow> Some (append_to_chain front l) | None \<Rightarrow> Some l)
                     | None \<Rightarrow> en_chain_head e)"
  have ch: "case ch of Some c \<Rightarrow> lease_wf c \<and> read_pointer c = 0 | None \<Rightarrow> True"
    "(case ch of Some c \<Rightarrow> map snd (lease_cells c) | None \<Rightarrow> []) = enc_bytes e"
    using l(4) assms by (auto simp: ch_def enc_ok_def enc_bytes_def append_wf split: option.splits)
  from swap_spec [OF l(2), of "enc_strong others ch"] ch l(3) show ?thesis
    by (auto simp: chain_and_swap_def l(1) ch_def [symmetric] enc_ok_def enc_bytes_def)
qed

lemma enc_ok_error [simp]: "enc_ok (e\<lparr>en_ser_error := er\<rparr>) = enc_ok e"
  by (simp add: enc_ok_def)

lemma swap_or_remember_spec:
  assumes "enc_ok e" "en_ser_error e = None"
  shows "\<exists>e'. swap_or_remember others e = Ok e' \<and> enc_ok e' \<and>
    (en_ser_error e' = None \<longrightarrow> enc_bytes e' = enc_bytes e \<and> eb_write_offset (encode_buffer e') = 0)"
  using chain_and_swap_spec [OF assms(1), of others] assms(2) by (auto simp: swap_or_remember_def)

text \<open>Storing bytes that fit and advancing over them.\<close>

lemma store_advance:
  assumes "enc_ok e" "en_ser_error e = None" "length bs \<le> eb_writeable_len (encode_buffer e)"
  shows "\<exists>e'. advance_mut others (length bs) (store_bytes bs e) = Ok e' \<and> enc_ok e' \<and> enc_bytes e' = enc_bytes e @ bs \<and>
    en_ser_error e' = None \<and> eb_writeable_len (encode_buffer e') = eb_writeable_len (encode_buffer e) - length bs"
proof -
  let ?eb = "encode_buffer e"
  let ?w = "eb_write_offset ?eb" and ?r = "eb_read_offset ?eb" and ?c = "chunk (eb_buffer ?eb)"
  have ok: "?r \<le> ?w" "?w + length bs \<le> length ?c" "roomy ?c"
    using assms by (auto simp: enc_ok_def eb_ok_def eb_writeable_len_def)
  let ?c' = "take ?w ?c @ bs @ drop (?w + length bs) ?c"
  have len: "length ?c' = length ?c" using ok by simp
  have ne: "roomy ?c'" using len ok(3) by (simp add: roomy_def)
  have adv: "advance_mut others (length bs) (store_bytes bs e) = Ok (set_enc_write (?w + length bs) (store_bytes bs e))"
    using assms(2,3) len by (auto simp: advance_mut_def store_bytes_def eb_writeable_len_def Let_def)
  have "drop ?r ?c' = take (?w - ?r) (drop ?r ?c) @ bs @ drop (?w + length bs) ?c"
    using ok by (simp add: drop_take)
  moreover have "?w + length bs - ?r = length (take (?w - ?r) (drop ?r ?c) @ bs)" using ok by simp
  ultimately have "take (?w + length bs - ?r) (drop ?r ?c') = take (?w - ?r) (drop ?r ?c) @ bs"
    by (metis append.assoc append_eq_conv_conj)
  then show ?thesis using adv assms(1,2) ok len ne
    by (auto simp: enc_ok_def eb_ok_def enc_bytes_def eb_pending_def set_enc_write_def store_bytes_def eb_writeable_len_def Let_def)
qed

lemma put_slice_loop_stops:
  "length src \<le> off \<or> en_ser_error e \<noteq> None \<Longrightarrow> put_slice_loop others src off e = Some (Ok e)"
  by (subst put_slice_loop.simps) auto

lemma put_slice_loop_spec:
  "enc_ok e \<Longrightarrow> en_ser_error e = None \<Longrightarrow> off \<le> length src \<Longrightarrow>
     \<exists>e'. put_slice_loop others src off e = Some (Ok e') \<and> enc_ok e' \<and>
       (en_ser_error e' = None \<longrightarrow> enc_bytes e' = enc_bytes e @ drop off src)"
proof (induction "2 * (length src - off) + (if eb_writeable_len (encode_buffer e) = 0 then 1 else 0)"
    arbitrary: off e rule: less_induct)
  case less
  show ?case
  proof (cases "off < length src")
    case True
    define bs where "bs = take (min (eb_writeable_len (encode_buffer e)) (length src - off)) (drop off src)"
    have len: "length bs = min (eb_writeable_len (encode_buffer e)) (length src - off)" by (simp add: bs_def)
    have src: "drop off src = bs @ drop (off + length bs) src"
      unfolding bs_def by (metis add.commute append_take_drop_id drop_drop len bs_def)
    obtain e1 where e1: "advance_mut others (length bs) (store_bytes bs e) = Ok e1" "enc_ok e1" "enc_bytes e1 = enc_bytes e @ bs"
      "en_ser_error e1 = None" "eb_writeable_len (encode_buffer e1) = eb_writeable_len (encode_buffer e) - length bs"
      using store_advance [OF less.prems(1,2), of bs others] len by auto
    let ?next = "off + length bs"
    have unfold: "put_slice_loop others src off e =
        (if eb_writeable_len (encode_buffer e1) < length src - ?next
         then (case swap_or_remember others e1 of Ok e2 \<Rightarrow> put_slice_loop others src ?next e2
               | Err er \<Rightarrow> Some (Err er) | Panic \<Rightarrow> Some Panic)
         else put_slice_loop others src ?next e1)"
      using True less.prems(2) e1(1)
      by (subst put_slice_loop.simps) (simp add: Let_def len [symmetric] src del: length_0_conv)
    have next_le: "?next \<le> length src" using len True by simp
    show ?thesis
    proof (cases "eb_writeable_len (encode_buffer e1) < length src - ?next")
      case False
      then have done_all: "?next = length src" using e1(5) len next_le True by simp
      then have "put_slice_loop others src off e = Some (Ok e1)"
        unfolding unfold if_not_P [OF False] by (intro put_slice_loop_stops) simp
      moreover have "drop off src = bs" by (subst src) (simp add: done_all)
      ultimately show ?thesis using e1(2,3) by simp
    next
      case room: True
      obtain e2 where e2: "swap_or_remember others e1 = Ok e2" "enc_ok e2"
        "en_ser_error e2 = None \<Longrightarrow> enc_bytes e2 = enc_bytes e1 \<and> eb_write_offset (encode_buffer e2) = 0"
        using swap_or_remember_spec [OF e1(2,4), of others] by auto
      show ?thesis
      proof (cases "en_ser_error e2")
        case (Some er)
        then show ?thesis unfolding unfold if_P [OF room] e2(1) using e2(2) by (simp add: put_slice_loop_stops)
      next
        case None
        note ok = e2(3) [OF None] e2(2)
        have "0 < eb_writeable_len (encode_buffer e2)"
          using ok by (auto simp: enc_ok_def eb_ok_def eb_writeable_len_def dest: roomy_not_Nil)
        then have dec: "2 * (length src - ?next) + (if eb_writeable_len (encode_buffer e2) = 0 then 1 else 0)
            < 2 * (length src - off) + (if eb_writeable_len (encode_buffer e) = 0 then 1 else 0)"
          using len True by auto
        from less.hyps [OF dec] None ok next_le obtain e' where
          "put_slice_loop others src ?next e2 = Some (Ok e')"
          "enc_ok e'" "en_ser_error e' = None \<longrightarrow> enc_bytes e' = enc_bytes e2 @ drop ?next src" by auto
        then show ?thesis unfolding unfold if_P [OF room] e2(1) src using ok e1(3) by simp
      qed
    qed
  next
    case False
    then show ?thesis using less.prems by (simp add: put_slice_loop_stops)
  qed
qed

lemma put_slice_spec:
  assumes "enc_ok e"
  shows "\<exists>e'. put_slice others src e = Some (Ok e') \<and> enc_ok e' \<and>
    (en_ser_error e' = None \<longrightarrow> en_ser_error e = None \<and> enc_bytes e' = enc_bytes e @ src)"
proof (cases "en_ser_error e")
  case None
  then show ?thesis using put_slice_loop_spec [OF assms None, of 0 src others] by (simp add: put_slice_def)
next
  case (Some er)
  then show ?thesis using assms by (simp add: put_slice_def put_slice_loop_stops)
qed

text \<open>
  What an encoder yields at the end: the error it met on the way, or the lease that reads
  all that was written.
\<close>

lemma enc_get_chunk_lease_spec:
  assumes "enc_ok e" "en_ser_error e = None"
  shows "\<exists>e'. enc_ok e' \<and> enc_bytes e' = [] \<and> en_ser_error e' = None \<and>
    (if enc_bytes e = [] \<and> en_chain_head e = None
     then enc_get_chunk_lease e = (Err (InvalidData ''No data written''), e')
     else \<exists>l. enc_get_chunk_lease e = (Ok l, e') \<and> lease_wf l \<and> read_pointer l = 0 \<and> map snd (lease_cells l) = enc_bytes e)"
proof -
  obtain l eb where l: "eb_get_chunk_lease (encode_buffer e) = Ok (l, eb)" "eb_ok eb" "eb_pending eb = []"
    "case l of Some l \<Rightarrow> lease_wf l \<and> read_pointer l = 0 \<and> map snd (lease_cells l) = eb_pending (encode_buffer e)
     | None \<Rightarrow> eb_pending (encode_buffer e) = []"
    using get_chunk_lease_spec [of "encode_buffer e"] assms by (auto simp: enc_ok_def)
  have nonempty: "l \<noteq> None \<Longrightarrow> eb_pending (encode_buffer e) \<noteq> []"
    using l(1) assms(1) by (auto simp: eb_get_chunk_lease_def eb_pending_def enc_ok_def eb_ok_def Let_def split: if_splits)
  let ?e = "e\<lparr>encode_buffer := eb, en_chain_head := None\<rparr>"
  have "enc_ok ?e" "enc_bytes ?e = []" "en_ser_error ?e = None" using l assms by (simp_all add: enc_ok_def enc_bytes_def)
  then show ?thesis using l assms nonempty
    by (intro exI [of _ ?e]) (auto simp: enc_get_chunk_lease_def enc_ok_def enc_bytes_def append_wf split: option.splits)
qed

lemma encoder_new_spec:
  assumes "eb_ok eb" "eb_write_offset eb = eb_read_offset eb"
  shows "encoder_new eb = Ok \<lparr>encode_buffer = eb, en_chain_head = None, en_ser_error = None\<rparr>"
    and "enc_ok \<lparr>encode_buffer = eb, en_chain_head = None, en_ser_error = None\<rparr>"
    and "enc_bytes \<lparr>encode_buffer = eb, en_chain_head = None, en_ser_error = None\<rparr> = []"
  using assms by (simp_all add: encoder_new_def enc_ok_def enc_bytes_def eb_pending_def)

text \<open>Between two messages the buffer is aligned.\<close>

definition eb_aligned :: "encode_buffer \<Rightarrow> bool" where
  "eb_aligned eb \<longleftrightarrow> eb_ok eb \<and> eb_write_offset eb = eb_read_offset eb"

lemma encoder_drop_aligned: "enc_ok e \<Longrightarrow> eb_aligned (encoder_drop e)"
  by (auto simp: eb_aligned_def encoder_drop_def enc_ok_def eb_ok_def)

lemma get_buffer_encoder_spec:
  assumes "eb_aligned eb" "get_buffer_encoder sc eb = (r, eb')"
  shows "eb_aligned eb' \<and>
    (r = Ok \<lparr>encode_buffer = eb', en_chain_head = None, en_ser_error = None\<rparr> \<or> (\<exists>er. r = Err er))"
  using assms swap_spec [of eb sc] by (auto simp: get_buffer_encoder_def eb_aligned_def encoder_new_spec eb_swap_buffer_def split: if_splits prod.splits option.splits)

text \<open>
  The state of an encoder between two writes: it can be dropped, and unless it has met an error, it has written \<open>bs\<close>.
\<close>

definition enc_inv :: "u8 list \<Rightarrow> buffer_encoder \<Rightarrow> bool" where
  "enc_inv bs e \<longleftrightarrow> eb_aligned (encoder_drop e) \<and> (en_ser_error e = None \<longrightarrow> enc_ok e \<and> enc_bytes e = bs)"

lemma put_slice_inv:
  assumes "enc_inv bs e"
  shows "\<exists>e'. put_slice others src e = Some (Ok e') \<and> enc_inv (bs @ src) e'"
proof (cases "en_ser_error e")
  case None
  then have "enc_ok e" "enc_bytes e = bs" using assms by (simp_all add: enc_inv_def)
  with put_slice_spec [OF this(1), of others src] show ?thesis by (auto simp: enc_inv_def encoder_drop_aligned)
next
  case (Some er)
  then show ?thesis using assms by (auto simp: put_slice_def put_slice_loop_stops enc_inv_def)
qed

text \<open>Padding writes whatever bytes are there.\<close>

lemma advance_in_chunk:
  assumes "enc_ok e" "n \<le> eb_writeable_len (encode_buffer e)"
  shows "enc_ok (set_enc_write (eb_write_offset (encode_buffer e) + n) e) \<and>
    (\<exists>junk. length junk = n \<and> enc_bytes (set_enc_write (eb_write_offset (encode_buffer e) + n) e) = enc_bytes e @ junk)"
proof -
  let ?eb = "encode_buffer e"
  let ?w = "eb_write_offset ?eb" and ?r = "eb_read_offset ?eb" and ?c = "chunk (eb_buffer ?eb)"
  have ok: "?r \<le> ?w" "?w + n \<le> length ?c" using assms by (auto simp: enc_ok_def eb_ok_def eb_writeable_len_def)
  then have "take (?w + n - ?r) (drop ?r ?c) = take (?w - ?r) (drop ?r ?c) @ take n (drop ?w ?c)"
    using take_add [of "?w - ?r" n "drop ?r ?c"] by simp
  then show ?thesis using assms ok
    by (intro conjI exI [of _ "take n (drop ?w ?c)"])
      (auto simp: enc_ok_def eb_ok_def enc_bytes_def eb_pending_def set_enc_write_def)
qed

lemma encoder_drop_rewound:
  "enc_ok e \<Longrightarrow> w \<le> FRAME_HEAD_LEN \<Longrightarrow> eb_aligned (encoder_drop (set_enc_write w e))"
  by (auto simp: enc_ok_def eb_aligned_def encoder_drop_def set_enc_write_def eb_ok_def roomy_def)

lemma set_enc_write_error [simp]: "en_ser_error (set_enc_write w e) = en_ser_error e"
  by (simp add: set_enc_write_def)

lemma pad_inv:
  assumes "enc_inv bs e" "n \<le> FRAME_HEAD_LEN"
  shows "\<exists>e' junk. pad others n e = Ok e' \<and> length junk = n \<and> enc_inv (bs @ junk) e'"
proof (cases "en_ser_error e")
  case (Some er)
  then show ?thesis using assms(1) by (auto simp: pad_def advance_mut_def enc_inv_def intro: exI [of _ "replicate n 0"])
next
  case None
  then have e: "enc_ok e" "enc_bytes e = bs" using assms(1) by (simp_all add: enc_inv_def)
  let ?k = "eb_writeable_len (encode_buffer e)"
  show ?thesis
  proof (cases "n \<le> ?k")
    case True
    then show ?thesis using advance_in_chunk [OF e(1) True] e None
      by (auto simp: pad_def advance_mut_def Let_def enc_inv_def encoder_drop_aligned)
  next
    case False
    define e1 where "e1 = set_enc_write (eb_write_offset (encode_buffer e) + ?k) e"
    obtain junk1 where e1: "enc_ok e1" "en_ser_error e1 = None" "length junk1 = ?k" "enc_bytes e1 = bs @ junk1"
      using advance_in_chunk [OF e(1), of ?k] e(2) None by (auto simp: e1_def)
    obtain e2 where e2: "swap_or_remember others e1 = Ok e2" "enc_ok e2"
      "en_ser_error e2 = None \<Longrightarrow> enc_bytes e2 = enc_bytes e1 \<and> eb_write_offset (encode_buffer e2) = 0"
      using swap_or_remember_spec [OF e1(1,2), of others] by auto
    have res: "pad others n e = Ok (set_enc_write (n - ?k) e2)"
      using None False e2(1) by (simp add: pad_def advance_mut_def Let_def e1_def)
    have drp: "eb_aligned (encoder_drop (set_enc_write (n - ?k) e2))"
      using encoder_drop_rewound [OF e2(2)] assms(2) by simp
    show ?thesis
    proof (cases "en_ser_error e2")
      case (Some er)
      then show ?thesis using res drp by (auto simp: enc_inv_def intro: exI [of _ "replicate n 0"])
    next
      case None
      have w: "eb_write_offset (encode_buffer e2) = 0" using e2(3) [OF None] by simp
      have "n - ?k \<le> eb_writeable_len (encode_buffer e2)"
        using e2(2) w assms(2) by (auto simp: enc_ok_def eb_ok_def eb_writeable_len_def roomy_def)
      from advance_in_chunk [OF e2(2) this] obtain junk2 where "length junk2 = n - ?k"
        "enc_ok (set_enc_write (n - ?k) e2)" "enc_bytes (set_enc_write (n - ?k) e2) = bs @ junk1 @ junk2"
        using w e1(4) e2(3) [OF None] by auto
      then show ?thesis using res drp e1(3) False
        by (intro exI [of _ "set_enc_write (n - ?k) e2"] exI [of _ "junk1 @ junk2"]) (auto simp: enc_inv_def)
    qed
  qed
qed

text \<open>Reserving space.\<close>

lemma reserve_loop_ok:
  "pool_ok p \<Longrightarrow> (\<forall>b \<in> set reserved. roomy (chunk b)) \<Longrightarrow>
     (case reserve_loop sc n reserved p of
        Ok (r, p') \<Rightarrow> pool_ok p' \<and> (\<forall>b \<in> set r. roomy (chunk b))
      | Err p' \<Rightarrow> pool_ok p' | Panic \<Rightarrow> False)"
proof (induction n arbitrary: reserved p)
  case (Suc n)
  obtain b p1 where b: "try_reclaim sc p = (b, p1)" by fastforce
  then have "pool_ok p1 \<and> (case b of Some b \<Rightarrow> roomy (chunk b) \<and> \<not> locked b | None \<Rightarrow> True)"
    using get_buffer_ok [OF Suc.prems(1), of sc b p1] by (simp add: get_buffer_def)
  then show ?case using Suc.IH [of p1] Suc.prems(2) b by (cases b) auto
qed simp

lemma pool_try_reserve_ok:
  "pool_ok p \<Longrightarrow> (case pool_try_reserve sc n p of Ok p' \<Rightarrow> pool_ok p' | Err p' \<Rightarrow> pool_ok p' | Panic \<Rightarrow> False)"
  using reserve_loop_ok [of p "[]" sc "div_ceil n (pool_chunk_size p)"]
  by (auto simp: pool_try_reserve_def Let_def pool_ok_def split: rresult.splits)

lemma enc_try_reserve_inv:
  assumes "enc_inv bs e" "en_ser_error e = None"
  shows "\<exists>r e'. enc_try_reserve others n e = (r, e') \<and> r \<noteq> Panic \<and> enc_inv bs e' \<and> (r = Ok () \<longrightarrow> en_ser_error e' = None)"
proof -
  have e: "enc_ok e" "enc_bytes e = bs" "pool_ok (eb_pool (encode_buffer e))"
    using assms by (auto simp: enc_inv_def enc_ok_def eb_ok_def)
  have same: "enc_inv bs (e\<lparr>encode_buffer := (encode_buffer e)\<lparr>eb_pool := p\<rparr>\<rparr>)" if "pool_ok p" for p
    using that e by (auto simp: enc_inv_def enc_ok_def enc_bytes_def eb_pending_def eb_aligned_def eb_ok_def encoder_drop_def)
  let ?len = "length (chunk (eb_buffer (encode_buffer e)))"
  let ?room = "?len - eb_write_offset (encode_buffer e)"
  show ?thesis
  proof (cases "n < ?room \<or> n < ?len")
    case True
    then show ?thesis
      using chain_and_swap_spec [OF e(1), of others] e assms
      by (cases "n < ?room") (auto simp: enc_try_reserve_def Let_def enc_inv_def encoder_drop_aligned)
  next
    case False
    let ?r = "pool_try_reserve (enc_strong others (en_chain_head e)) (n - ?room) (eb_pool (encode_buffer e))"
    have "case ?r of Ok p' \<Rightarrow> pool_ok p' | Err p' \<Rightarrow> pool_ok p' | Panic \<Rightarrow> False"
      by (rule pool_try_reserve_ok [OF e(3)])
    then show ?thesis using False same assms(2)
      by (cases ?r) (simp_all add: enc_try_reserve_def Let_def)
  qed
qed

subsection \<open>Encoding\<close>

fun put_all :: "(lock \<Rightarrow> nat) \<Rightarrow> u8 list list \<Rightarrow> buffer_encoder \<Rightarrow> (buffer_encoder, ser_error) rresult option" where
  "put_all others [] e = Some (Ok e)"
| "put_all others (src # srcs) e =
     (case put_slice others src e of Some (Ok e') \<Rightarrow> put_all others srcs e' | r \<Rightarrow> r)"

lemma put_all_spec:
  "enc_ok e \<Longrightarrow> \<exists>e'. put_all others srcs e = Some (Ok e') \<and> enc_ok e' \<and>
     (en_ser_error e' = None \<longrightarrow> en_ser_error e = None \<and> enc_bytes e' = enc_bytes e @ concat srcs)"
proof (induction srcs arbitrary: e)
  case (Cons src srcs)
  obtain e1 where e1: "put_slice others src e = Some (Ok e1)" "enc_ok e1"
    "en_ser_error e1 = None \<longrightarrow> en_ser_error e = None \<and> enc_bytes e1 = enc_bytes e @ src"
    using put_slice_spec [OF Cons.prems, of others src] by auto
  from Cons.IH [OF e1(2)] e1 show ?case by auto
qed simp


definition sample_encode_buffer :: encode_buffer where
  "sample_encode_buffer = \<lparr>eb_buffer = from_chunk [0, 0, 0, 0, 0, 0, 0, 0, 0] 0,
     eb_pool = \<lparr>pool = [from_chunk [0, 0, 0, 0, 0, 0, 0, 0, 0] 1], pool_size = 2,
       alloc_chunk = [0, 0, 0, 0, 0, 0, 0, 0, 0], next_lock = 2, pool_chunk_size = 9, max_pool_size = 2\<rparr>,
     eb_write_offset = 6, eb_read_offset = 6, eb_dispatcher_ref = False, eb_min_remaining = 2\<rparr>"


text \<open>
  When the padding for a frame head does not fit into the current chunk and the pool has no other,
  \<open>advance_mut\<close> sets the write offset as if a new chunk had been swapped in: the next message
  is written over the front of the old chunk, below what earlier messages have leased. It takes
  a configuration that leaves less room than a frame head in the last chunk.
\<close>

lemma get_buffer_exhausted:
  assumes "\<forall>b \<in> set (pool p). locked b \<and> 2 \<le> sc (ref_count b)" "max_pool_size p \<le> pool_size p"
  shows "get_buffer sc p = (None, p)"
  by (rule get_buffer_cases [of p sc]) (use assms in \<open>auto simp: is_free_def\<close>)

theorem failed_pad_rewinds:
  assumes "eb_aligned eb" "eb_min_remaining eb \<le> eb_writeable_len eb" "eb_writeable_len eb < n"
    and "\<forall>b \<in> set (pool (eb_pool eb)). locked b \<and> 2 \<le> others (ref_count b)"
    and "max_pool_size (eb_pool eb) \<le> pool_size (eb_pool eb)"
  shows "\<exists>e e'. get_buffer_encoder others eb = (Ok e, eb) \<and> pad others n e = Ok e' \<and> en_ser_error e' \<noteq> None \<and>
    eb_buffer (encoder_drop e') = eb_buffer eb \<and>
    eb_write_offset (encoder_drop e') = n - eb_writeable_len eb \<and> eb_read_offset (encoder_drop e') = n - eb_writeable_len eb"
proof -
  let ?e = "\<lparr>encode_buffer = eb, en_chain_head = None, en_ser_error = None\<rparr>"
  let ?e1 = "set_enc_write (eb_write_offset eb + eb_writeable_len eb) ?e"
  have enc: "get_buffer_encoder others eb = (Ok ?e, eb)"
    using assms(1,2) by (simp add: get_buffer_encoder_def encoder_new_spec eb_aligned_def)
  have ok: "eb_ok (encode_buffer ?e1)"
    using assms(1) by (auto simp: eb_aligned_def eb_ok_def set_enc_write_def eb_writeable_len_def)
  obtain l eb2 where l: "eb_get_chunk_lease (encode_buffer ?e1) = Ok (l, eb2)" "eb_buffer eb2 = eb_buffer eb" "eb_pool eb2 = eb_pool eb"
    using get_chunk_lease_spec [OF ok]
    by (auto simp: set_enc_write_def eb_get_chunk_lease_def Let_def rbind_eq_Ok split: if_splits)
  have "get_buffer (enc_strong others ch) (eb_pool eb2) = (None, eb_pool eb2)" for ch
    unfolding l(3) by (rule get_buffer_exhausted) (use assms(4,5) in \<open>auto simp: enc_strong_def intro: trans_le_add1\<close>)
  then obtain er e2 where "chain_and_swap others ?e1 = (Err er, e2)" "eb_buffer (encode_buffer e2) = eb_buffer eb"
    using l by (auto simp: chain_and_swap_def eb_swap_buffer_def Let_def)
  then show ?thesis using enc assms(3)
    by (simp add: pad_def advance_mut_def Let_def swap_or_remember_def)
      (simp add: set_enc_write_def encoder_drop_def)
qed

end
