(* ===== verification/Decode_Buffer.thy ===== *)
theory Decode_Buffer
  imports Net_Frames Buffer_Pool
begin

section \<open>The decode buffer (\<open>core/src/net/buffers/decode_buffer.rs\<close>)\<close>

text \<open>
  The incremental decoder of a connection: bytes are written into a buffer chunk, frames are
  cut out of it as leases, and when a chunk is used up the buffer is swapped, carrying an
  incomplete frame over by copying or by chaining. The lemmas show each operation on the stream of bytes
  that are still to be decoded, and that the frames come out as they were sent however the
  stream is cut into writes and chunks.
\<close>

subsection \<open>Operations\<close>

record decode_buffer =
  db_buffer :: buffer_chunk
  write_offset :: nat
  read_offset :: nat
  next_frame_head :: "frame_head option"
  chain_head :: "chunk_lease option"
  db_config :: buffer_config

definition decode_buffer_new :: "buffer_chunk \<Rightarrow> buffer_config \<Rightarrow> decode_buffer" where
  "decode_buffer_new b cfg = \<lparr>db_buffer = b, write_offset = 0, read_offset = 0, next_frame_head = None,
     chain_head = None, db_config = cfg\<rparr>"

definition readable_len :: "decode_buffer \<Rightarrow> nat" where
  "readable_len db =
     (case chain_head db of Some c \<Rightarrow> lease_remaining c | None \<Rightarrow> 0) + (write_offset db - read_offset db)"

definition writeable_len :: "decode_buffer \<Rightarrow> nat" where
  "writeable_len db = length (chunk (db_buffer db)) - write_offset db"

definition is_writeable :: "decode_buffer \<Rightarrow> bool" where
  "is_writeable db \<longleftrightarrow> writeable_len db > 8"

text \<open>\<open>get_writeable\<close>: the writable slice, by its bounds; the source panics on a locked chunk.\<close>

definition get_writeable :: "decode_buffer \<Rightarrow> ((nat \<times> nat) option, unit) rresult" where
  "get_writeable db =
     (if is_writeable db then
        rbind (get_slice (db_buffer db) (write_offset db) (length (chunk (db_buffer db))))
          (\<lambda>_. Ok (Some (write_offset db, length (chunk (db_buffer db)))))
      else Ok None)"

definition advance_writeable :: "nat \<Rightarrow> decode_buffer \<Rightarrow> decode_buffer" where
  "advance_writeable n db = db\<lparr>write_offset := write_offset db + n\<rparr>"

text \<open>What a reader of the socket does: write into the slice, then advance.\<close>

definition write_bytes :: "u8 list \<Rightarrow> decode_buffer \<Rightarrow> decode_buffer" where
  "write_bytes bs db =
     (let c = chunk (db_buffer db); w = write_offset db
      in advance_writeable (length bs)
           (db\<lparr>db_buffer := (db_buffer db)\<lparr>chunk := take w c @ bs @ drop (w + length bs) c\<rparr>\<rparr>))"

definition get_overflow :: "decode_buffer \<Rightarrow> (chunk_lease option \<times> decode_buffer, framing_error) rresult" where
  "get_overflow db =
     (let len = write_offset db - read_offset db
      in if len > 0 then
           (case get_lease (db_buffer db) (read_offset db) (write_offset db) of
              Ok lease \<Rightarrow> Ok (Some lease, db\<lparr>read_offset := read_offset db + len\<rparr>)
            | _ \<Rightarrow> Panic)
         else Ok (None, db))"

definition read_chunk_lease ::
    "lock \<Rightarrow> nat \<Rightarrow> decode_buffer \<Rightarrow> (chunk_lease \<times> decode_buffer, framing_error) rresult" where
  "read_chunk_lease fresh len db =
     (case chain_head db of
        Some c \<Rightarrow>
          (let db = db\<lparr>chain_head := None\<rparr>
           in if lease_remaining c > len then
                (case split_at fresh c len of
                   Ok (c', tail) \<Rightarrow> Ok (c', db\<lparr>chain_head := Some tail\<rparr>)
                 | _ \<Rightarrow> Panic)
              else if lease_remaining c = len then Ok (c, db)
              else
                (let tail_length = len - lease_remaining c
                 in case get_lease (db_buffer db) (read_offset db) (read_offset db + tail_length) of
                      Ok tail \<Rightarrow> Ok (append_to_chain c tail, db\<lparr>read_offset := read_offset db + tail_length\<rparr>)
                    | _ \<Rightarrow> Panic))
      | None \<Rightarrow>
          (case get_lease (db_buffer db) (read_offset db) (read_offset db + len) of
             Ok lease \<Rightarrow> Ok (lease, db\<lparr>read_offset := read_offset db + len\<rparr>)
           | _ \<Rightarrow> Panic))"

text \<open>The state after a failed decoding matters: the bytes of the head have been consumed.\<close>

definition decode_frame_head :: "buf_ops \<Rightarrow> lock \<Rightarrow> decode_buffer \<Rightarrow> (unit, framing_error) rresult \<times> decode_buffer" where
  "decode_frame_head ops fresh db =
     (if next_frame_head db = None \<and> readable_len db \<ge> FRAME_HEAD_LEN then
        (case read_chunk_lease fresh FRAME_HEAD_LEN db of
           Ok (lease, db') \<Rightarrow>
             (case head_decode_from ops (lease_unread lease) of
                Ok (h, _) \<Rightarrow> (Ok (), db'\<lparr>next_frame_head := Some h\<rparr>)
              | Err e \<Rightarrow> (Err e, db')
              | Panic \<Rightarrow> (Panic, db'))
         | Err e \<Rightarrow> (Err e, db)
         | Panic \<Rightarrow> (Panic, db))
      else (Ok (), db))"

definition has_frame :: "buf_ops \<Rightarrow> lock \<Rightarrow> decode_buffer \<Rightarrow> (bool, framing_error) rresult \<times> decode_buffer" where
  "has_frame ops fresh db =
     (case decode_frame_head ops fresh db of
        (Ok _, db') \<Rightarrow>
          (Ok (case next_frame_head db' of Some h \<Rightarrow> readable_len db' \<ge> content_length h | None \<Rightarrow> False), db')
      | (Err e, db') \<Rightarrow> (Err e, db')
      | (Panic, db') \<Rightarrow> (Panic, db'))"

definition get_frame :: "buf_ops \<Rightarrow> lock \<Rightarrow> decode_buffer \<Rightarrow> (frame, framing_error) rresult \<times> decode_buffer" where
  "get_frame ops fresh db =
     (case decode_frame_head ops fresh db of
        (Ok _, db1) \<Rightarrow>
          (case next_frame_head db1 of
             Some h \<Rightarrow>
               if readable_len db1 \<ge> content_length h then
                 (let db2 = db1\<lparr>next_frame_head := None\<rparr>
                  in if head_type h \<in> {FT_Data, FT_Hello, FT_Start} then
                       (case read_chunk_lease fresh (content_length h) db2 of
                          Ok (body, db3) \<Rightarrow> (decode_content ops (head_type h) body, db3)
                        | Err e \<Rightarrow> (Err e, db2)
                        | Panic \<Rightarrow> (Panic, db2))
                     else (decode_content ops (head_type h) (lease_empty fresh), db2))
               else (Err NoData, db1)
           | None \<Rightarrow> (Err NoData, db1))
      | (Err e, db1) \<Rightarrow> (Err e, db1)
      | (Panic, db1) \<Rightarrow> (Panic, db1))"

text \<open>The second component of the result is the chunk that was swapped out, locked.\<close>

definition swap_buffer ::
    "(lock \<Rightarrow> nat) \<Rightarrow> buffer_chunk \<Rightarrow> decode_buffer \<Rightarrow> (decode_buffer \<times> buffer_chunk, framing_error) rresult" where
  "swap_buffer strong_count other db =
     (let (is_fr, other) = free strong_count other
      in if \<not> is_fr then Panic
         else rbind (get_overflow db) (\<lambda>(overflow, db).
           let old = db_buffer db;
               db = db\<lparr>db_buffer := other, read_offset := 0, write_offset := 0\<rparr>
           in case overflow of
                None \<Rightarrow> Ok (db, lock_chunk old)
              | Some lease \<Rightarrow>
                  (let overflow_len = lease_remaining lease
                   in if overflow_len < writeable_len db \<and>
                         writeable_len db - overflow_len > encode_buf_min_free_space (db_config db)
                      then (case get_slice (db_buffer db) 0 overflow_len of
                              Ok _ \<Rightarrow> Ok (db\<lparr>db_buffer := other\<lparr>chunk := lease_unread lease @ drop overflow_len (chunk other)\<rparr>,
                                           write_offset := overflow_len\<rparr>, lock_chunk old)
                            | _ \<Rightarrow> Panic)
                      else Ok (db\<lparr>chain_head := Some (case chain_head db of Some c \<Rightarrow> append_to_chain c lease | None \<Rightarrow> lease)\<rparr>,
                               lock_chunk old))))"

subsection \<open>The stream of a decode buffer\<close>

definition unread :: "decode_buffer \<Rightarrow> u8 list" where
  "unread db = (case chain_head db of Some c \<Rightarrow> lease_unread c | None \<Rightarrow> []) @
     take (write_offset db - read_offset db) (drop (read_offset db) (chunk (db_buffer db)))"

text \<open>The bytes still to be decoded, with those of a head that was decoded ahead of its frame.\<close>

definition stream :: "decode_buffer \<Rightarrow> u8 list" where
  "stream db = (case next_frame_head db of Some h \<Rightarrow> head_bytes h | None \<Rightarrow> []) @ unread db"

definition db_wf :: "decode_buffer \<Rightarrow> bool" where
  "db_wf db \<longleftrightarrow> read_offset db \<le> write_offset db \<and> write_offset db \<le> length (chunk (db_buffer db)) \<and>
     \<not> locked (db_buffer db) \<and> (case chain_head db of Some c \<Rightarrow> lease_wf c \<and> read_pointer c = 0 | None \<Rightarrow> True) \<and>
     (case next_frame_head db of Some h \<Rightarrow> content_length h < 2 ^ 32 | None \<Rightarrow> True)"

lemma lease_unread_0: "lease_wf c \<Longrightarrow> read_pointer c = 0 \<Longrightarrow> lease_unread c = map snd (lease_cells c)"
  by (simp add: lease_unread_def)

lemma lease_unread_new [simp]: "lease_unread (lease_new bs l) = bs"
  by (simp add: lease_unread_def comp_def)

lemma readable_len_unread: "db_wf db \<Longrightarrow> readable_len db = length (unread db)"
  by (auto simp: readable_len_def unread_def db_wf_def lease_remaining_def lease_unread_def length_cells split: option.splits)

lemma get_lease_Ok:
  "from < to \<Longrightarrow> to \<le> length (chunk b) \<Longrightarrow> \<not> locked b \<Longrightarrow>
     get_lease b from to = Ok (lease_new (take (to - from) (drop from (chunk b))) (ref_count b))"
  by (simp add: get_lease_def get_slice_def)

lemma db_wf_head [simp]:
  "db_wf (db\<lparr>next_frame_head := Some h\<rparr>) \<longleftrightarrow> db_wf (db\<lparr>next_frame_head := None\<rparr>) \<and> content_length h < 2 ^ 32"
  "unread (db\<lparr>next_frame_head := x\<rparr>) = unread db" "readable_len (db\<lparr>next_frame_head := x\<rparr>) = readable_len db"
  by (auto simp: db_wf_def unread_def readable_len_def)

lemma db_wf_no_head: "db_wf db \<Longrightarrow> db_wf (db\<lparr>next_frame_head := None\<rparr>)"
  by (simp add: db_wf_def)

text \<open>The window of a chunk between the offsets, and what reading from it leaves.\<close>

definition window :: "nat \<Rightarrow> nat \<Rightarrow> 'a list \<Rightarrow> 'a list" where
  "window r w c = take (w - r) (drop r c)"

lemma unread_window:
  "unread db = (case chain_head db of Some c \<Rightarrow> lease_unread c | None \<Rightarrow> []) @
     window (read_offset db) (write_offset db) (chunk (db_buffer db))"
  by (simp add: unread_def window_def)

lemma window_take: "k \<le> w - r \<Longrightarrow> take k (drop r c) = take k (window r w c)"
  by (simp add: window_def min_def)

lemma window_prefix [simp]: "window 0 (length bs) (bs @ cs) = bs"
  by (simp add: window_def)

lemma window_facts [simp]:
  "window (r + k) w c = drop k (window r w c)"
  "w \<le> length c \<Longrightarrow> length (window r w c) = w - r"
  by (auto simp: window_def min_def drop_take add.commute)

lemma window_append:
  assumes "r \<le> w" "w \<le> length c"
  shows "window r (w + length bs) (take w c @ bs @ cs) = window r w c @ bs"
proof -
  have "drop r (take w c @ bs @ cs) = window r w c @ bs @ cs" using assms by (simp add: window_def drop_take)
  moreover have "w + length bs - r = length (window r w c) + length bs" using assms by simp
  ultimately show ?thesis by (simp add: window_def [of r "w + length bs"])
qed

text \<open>Reading a non-empty lease takes it off the front of the stream.\<close>

lemma read_chunk_lease_spec:
  assumes "db_wf db" "0 < n" "n \<le> length (unread db)"
  shows "\<exists>l db'. read_chunk_lease fresh n db = Ok (l, db') \<and> lease_wf l \<and> read_pointer l = 0 \<and>
    lease_unread l = take n (unread db) \<and> unread db' = drop n (unread db) \<and> db_wf db' \<and>
    next_frame_head db' = next_frame_head db \<and> db_config db' = db_config db"
proof (cases "chain_head db")
  case None
  have le: "n \<le> write_offset db - read_offset db" using assms None by (auto simp: unread_def db_wf_def)
  moreover have "read_offset db + n \<le> length (chunk (db_buffer db))" using le assms(1) by (auto simp: db_wf_def)
  ultimately have "get_lease (db_buffer db) (read_offset db) (read_offset db + n)
      = Ok (lease_new (take n (unread db)) (ref_count (db_buffer db)))"
    using assms None get_lease_Ok [of "read_offset db" "read_offset db + n" "db_buffer db"]
    by (simp add: db_wf_def unread_window window_take)
  then show ?thesis using assms None le
    by (simp add: read_chunk_lease_def unread_window db_wf_def)
next
  case (Some c)
  let ?m = "chain_len c"
  have c: "lease_wf c" "read_pointer c = 0" "lease_remaining c = ?m" "lease_unread c = map snd (lease_cells c)"
    "length (lease_cells c) = ?m"
    using assms(1) Some by (auto simp: db_wf_def lease_remaining_def lease_unread_def length_cells)
  consider "n < ?m" | "n = ?m" | "?m < n" by linarith
  then show ?thesis
  proof cases
    case 1
    obtain a t where "split_at fresh c n = Ok (a, t)" "lease_wf a" "lease_wf t" "read_pointer a = 0" "read_pointer t = 0"
      "lease_cells a = take n (lease_cells c)" "lease_cells t = drop n (lease_cells c)"
      using split_at_spec [OF c(1), of n fresh] 1 c(2) by auto
    then show ?thesis using 1 Some c assms(1)
      by (simp add: read_chunk_lease_def Let_def unread_window db_wf_def lease_unread_0 take_map drop_map)
  next
    case 2
    then show ?thesis using Some c assms(1) by (auto simp: read_chunk_lease_def Let_def unread_def db_wf_def)
  next
    case 3
    then obtain k where k: "n = ?m + k" "0 < k" by (metis less_imp_add_positive)
    have le: "k \<le> write_offset db - read_offset db" using assms Some c k by (auto simp: unread_def db_wf_def)
    moreover have "read_offset db + k \<le> length (chunk (db_buffer db))" using le assms(1) by (auto simp: db_wf_def)
    ultimately have g: "get_lease (db_buffer db) (read_offset db) (read_offset db + k)
        = Ok (lease_new (take k (window (read_offset db) (write_offset db) (chunk (db_buffer db)))) (ref_count (db_buffer db)))"
      using k assms(1) get_lease_Ok [of "read_offset db" "read_offset db + k" "db_buffer db"]
      by (simp add: db_wf_def window_take)
    have "lease_unread (append_to_chain c l) = lease_unread c @ map snd (lease_cells l)" for l
      using c by (simp add: lease_unread_def)
    moreover have "read_offset db + k \<le> write_offset db" using le assms(1) by (auto simp: db_wf_def)
    ultimately show ?thesis using k Some c g assms(1)
      by (simp add: read_chunk_lease_def Let_def unread_window db_wf_def append_wf comp_def)
  qed
qed

subsection \<open>Writing and swapping\<close>

lemma write_bytes_spec:
  assumes "db_wf db" "length bs \<le> writeable_len db"
  shows "stream (write_bytes bs db) = stream db @ bs" "db_wf (write_bytes bs db)"
proof -
  let ?c = "chunk (db_buffer db)" and ?w = "write_offset db" and ?r = "read_offset db"
  have le: "?r \<le> ?w" "?w + length bs \<le> length ?c" using assms by (auto simp: db_wf_def writeable_len_def)
  have "window ?r (?w + length bs) (take ?w ?c @ bs @ drop (?w + length bs) ?c) = window ?r ?w ?c @ bs"
    using le by (simp add: window_append)
  then show "stream (write_bytes bs db) = stream db @ bs"
    by (simp add: stream_def unread_window write_bytes_def advance_writeable_def Let_def)
  show "db_wf (write_bytes bs db)"
    using assms(1) le by (auto simp: db_wf_def write_bytes_def advance_writeable_def Let_def)
qed

lemma get_overflow_spec:
  assumes "db_wf db"
  shows "get_overflow db =
    Ok (if read_offset db < write_offset db
        then Some (lease_new (window (read_offset db) (write_offset db) (chunk (db_buffer db))) (ref_count (db_buffer db)))
        else None, db\<lparr>read_offset := write_offset db\<rparr>)"
  using assms get_lease_Ok [of "read_offset db" "write_offset db" "db_buffer db"]
  by (auto simp: get_overflow_def db_wf_def window_def Let_def)

lemma append_unread:
  "lease_wf c \<Longrightarrow> read_pointer c = 0 \<Longrightarrow> lease_unread (append_to_chain c (lease_new bs l)) = lease_unread c @ bs"
  by (simp add: lease_unread_def comp_def)

text \<open>Swapping buffers keeps the stream, whether the incomplete frame is copied or chained.\<close>

lemma swap_buffer_spec:
  assumes "db_wf db" "is_free sc other"
  shows "\<exists>db'. swap_buffer sc other db = Ok (db', lock_chunk (db_buffer db)) \<and> db_wf db' \<and> stream db' = stream db \<and>
    length (chunk (db_buffer db')) = length (chunk other)"
proof (cases "read_offset db < write_offset db")
  case False
  then show ?thesis using assms
    by (auto simp: swap_buffer_def free_eq get_overflow_spec Let_def db_wf_def stream_def unread_window window_def)
next
  case True
  define bs where "bs = window (read_offset db) (write_offset db) (chunk (db_buffer db))"
  define l where "l = lease_new bs (ref_count (db_buffer db))"
  have "0 < length bs" using True assms(1) by (simp add: bs_def db_wf_def)
  have ov: "get_overflow db = Ok (Some l, db\<lparr>read_offset := write_offset db\<rparr>)"
    using get_overflow_spec [OF assms(1)] True by (simp add: l_def bs_def)
  have st: "stream db = (case next_frame_head db of Some h \<Rightarrow> head_bytes h | None \<Rightarrow> []) @
      (case chain_head db of Some c \<Rightarrow> lease_unread c | None \<Rightarrow> []) @ bs"
    by (simp add: stream_def unread_window bs_def)
  have l: "lease_remaining l = length bs" "lease_unread l = bs" by (simp_all add: l_def lease_remaining_def)
  have wf: "chain_head db = Some c \<Longrightarrow> lease_wf c \<and> read_pointer c = 0"
    "next_frame_head db = Some h \<Longrightarrow> content_length h < 2 ^ 32" for c h
    using assms(1) by (simp_all add: db_wf_def)
  show ?thesis
  proof (cases "length bs < length (chunk other) \<and> length (chunk other) - length bs > encode_buf_min_free_space (db_config db)")
    case copy: True
    then have "get_slice (other\<lparr>locked := False\<rparr>) 0 (length bs) = Ok (take (length bs) (chunk other))"
      using \<open>0 < length bs\<close> by (simp add: get_slice_def)
    then show ?thesis using copy assms(2)
      by (simp add: swap_buffer_def free_eq ov Let_def writeable_len_def l st)
        (auto simp: db_wf_def stream_def unread_window split: option.splits dest: wf)
  next
    case chain: False
    have "lease_unread (append_to_chain c l) = lease_unread c @ bs" "lease_wf (append_to_chain c l)"
      if "chain_head db = Some c" for c
      using wf(1) [OF that] by (simp_all add: l_def append_unread append_wf)
    moreover have "lease_wf l" "read_pointer l = 0" by (simp_all add: l_def)
    ultimately show ?thesis using chain assms(2)
      by (simp add: swap_buffer_def free_eq ov Let_def writeable_len_def l st)
        (auto simp: db_wf_def stream_def unread_window window_def l split: option.splits dest: wf)
  qed
qed

subsection \<open>Frames\<close>

text \<open>Frames as a sender puts them on the wire, and when a received frame is the sent one.\<close>

fun sendable :: "frame \<Rightarrow> bool" where
  "sendable (DataFrame p) \<longleftrightarrow> lease_wf p \<and> read_pointer p = 0 \<and> 0 < capacity p \<and> capacity p < 2 ^ 32"
| "sendable _ \<longleftrightarrow> True"

fun same_frame :: "frame \<Rightarrow> frame \<Rightarrow> bool" where
  "same_frame (DataFrame p) (DataFrame q) \<longleftrightarrow> lease_valid q \<and> lease_unread p = lease_unread q"
| "same_frame f g \<longleftrightarrow> f = g"

definition frame_head_of :: "frame \<Rightarrow> frame_head" where
  "frame_head_of f = \<lparr>head_type = frame_type_of f, content_length = frame_encoded_len f\<rparr>"

lemma frame_bytes_split: "frame_bytes f = head_bytes (frame_head_of f) @ content_bytes f"
  by (simp add: frame_bytes_def frame_head_of_def)

lemma sendable_content: "sendable f \<Longrightarrow> length (content_bytes f) = frame_encoded_len f"
  by (cases f) (auto simp: length_cells data_encoded_len_def capacity_def length_addr_bytes split: ip_addr.splits)

lemma sendable_small: "sendable f \<Longrightarrow> frame_encoded_len f < 2 ^ 32"
  by (cases f) (auto simp: data_encoded_len_def split: ip_addr.splits)

lemma head_bytes_inj:
  assumes "content_length h < 2 ^ 32" "content_length k < 2 ^ 32" "head_bytes h = head_bytes k"
  shows "h = k"
  using be.head_decode [of h "[]"] be.head_decode [of k "[]"] assms by simp

lemma decode_frame_head_spec:
  assumes "bytes_documented ops" "db_wf db" "content_length h < 2 ^ 32" "stream db @ future = head_bytes h @ rest"
  shows "\<exists>db1. decode_frame_head ops fresh db = (Ok (), db1) \<and> db_wf db1 \<and> stream db1 = stream db \<and>
    next_frame_head db1 = (if FRAME_HEAD_LEN \<le> length (stream db) then Some h else None)"
proof (cases "next_frame_head db")
  case (Some k)
  have "take FRAME_HEAD_LEN (stream db @ future) = head_bytes k" using Some by (simp add: stream_def)
  then have "head_bytes k = head_bytes h" using assms(4) by simp
  moreover have "content_length k < 2 ^ 32" using assms(2) Some by (simp add: db_wf_def)
  ultimately have "k = h" using head_bytes_inj assms(3) by blast
  then show ?thesis using Some assms(2) by (simp add: decode_frame_head_def stream_def)
next
  case None
  then have st: "stream db = unread db" by (simp add: stream_def)
  show ?thesis
  proof (cases "FRAME_HEAD_LEN \<le> length (unread db)")
    case True
    have "0 < FRAME_HEAD_LEN" by (simp add: FRAME_HEAD_LEN_def)
    from read_chunk_lease_spec [OF assms(2) this True, of fresh] obtain l db1
      where l: "read_chunk_lease fresh FRAME_HEAD_LEN db = Ok (l, db1)" "lease_unread l = take FRAME_HEAD_LEN (unread db)"
        "unread db1 = drop FRAME_HEAD_LEN (unread db)" "db_wf db1" "next_frame_head db1 = None"
      using None by auto
    have hd: "take FRAME_HEAD_LEN (unread db) = head_bytes h"
      using arg_cong [OF assms(4), of "take FRAME_HEAD_LEN"] True st by simp
    have "head_decode_from ops (head_bytes h) = Ok (h, [])"
      using bytes_api.head_decode [OF bytes_api.intro [OF assms(1)], of h "[]"] assms(3) by simp
    moreover have "unread db = head_bytes h @ unread db1" using hd l(3) by (metis append_take_drop_id)
    ultimately show ?thesis using l None True st hd readable_len_unread [OF assms(2)] assms(3)
      by (simp add: decode_frame_head_def stream_def db_wf_no_head)
  next
    case False
    then show ?thesis using None st assms(2) readable_len_unread [OF assms(2)] by (simp add: decode_frame_head_def)
  qed
qed

text \<open>
  Whatever follows the bytes that have been received, the next frame is delivered exactly when all its
  bytes are there, and otherwise nothing is lost.
\<close>

lemma get_frame_spec:
  assumes "bytes_documented ops" "db_wf db" "sendable f" "stream db @ future = frame_bytes f @ rest"
  shows "if length (frame_bytes f) \<le> length (stream db)
         then \<exists>g db'. get_frame ops fresh db = (Ok g, db') \<and> same_frame f g \<and> db_wf db' \<and> stream db' @ future = rest
         else \<exists>db'. get_frame ops fresh db = (Err NoData, db') \<and> db_wf db' \<and> stream db' = stream db"
proof -
  let ?h = "frame_head_of f" and ?n = "frame_encoded_len f"
  have n: "length (content_bytes f) = ?n" "content_length ?h = ?n" "head_type ?h = frame_type_of f"
    using sendable_content [OF assms(3)] by (simp_all add: frame_head_of_def)
  have eq: "stream db @ future = head_bytes ?h @ (content_bytes f @ rest)" using assms(4) by (simp add: frame_bytes_split)
  have len: "length (frame_bytes f) = FRAME_HEAD_LEN + ?n" using n by (simp add: frame_bytes_split)
  have "content_length ?h < 2 ^ 32" using n(2) sendable_small [OF assms(3)] by simp
  from decode_frame_head_spec [OF assms(1,2) this eq, of fresh] obtain db1
    where db1: "decode_frame_head ops fresh db = (Ok (), db1)" "db_wf db1" "stream db1 = stream db"
      "next_frame_head db1 = (if FRAME_HEAD_LEN \<le> length (stream db) then Some ?h else None)" by blast
  show ?thesis
  proof (cases "FRAME_HEAD_LEN \<le> length (stream db)")
    case False
    then show ?thesis using db1 len by (simp add: get_frame_def)
  next
    case True
    then have hd: "next_frame_head db1 = Some ?h" using db1(4) by simp
    then have un: "stream db = head_bytes ?h @ unread db1" using db1(3) by (simp add: stream_def)
    then have lens: "length (stream db) = FRAME_HEAD_LEN + length (unread db1)" by simp
    have eq1: "unread db1 @ future = content_bytes f @ rest" using eq un by simp
    show ?thesis
    proof (cases "?n \<le> length (unread db1)")
      case False
      then show ?thesis using db1 hd len lens n readable_len_unread [OF db1(2)] by (simp add: get_frame_def)
    next
      case enough: True
      let ?db2 = "db1\<lparr>next_frame_head := None\<rparr>"
      have wf2: "db_wf ?db2" "unread ?db2 = unread db1" using db_wf_no_head [OF db1(2)] by simp_all
      have cont: "take ?n (unread db1) = content_bytes f" "drop ?n (unread db1) @ future = rest"
        using arg_cong [OF eq1, of "take ?n"] arg_cong [OF eq1, of "drop ?n"] n(1) enough by simp_all
      have get: "get_frame ops fresh db =
          (if head_type ?h \<in> {FT_Data, FT_Hello, FT_Start} then
             (case read_chunk_lease fresh ?n ?db2 of
                Ok (body, db3) \<Rightarrow> (decode_content ops (head_type ?h) body, db3)
              | Err e \<Rightarrow> (Err e, ?db2) | Panic \<Rightarrow> (Panic, ?db2))
           else (decode_content ops (head_type ?h) (lease_empty fresh), ?db2))"
        using db1 hd enough n(2) readable_len_unread [OF db1(2)] by (simp add: get_frame_def Let_def)
      have "\<exists>g db'. get_frame ops fresh db = (Ok g, db') \<and> same_frame f g \<and> db_wf db' \<and> stream db' @ future = rest"
      proof (cases "head_type ?h \<in> {FT_Data, FT_Hello, FT_Start}")
        case True
        then have "0 < ?n" using assms(3) n(3) by (cases f) (auto simp: data_encoded_len_def split: ip_addr.splits)
        from read_chunk_lease_spec [OF wf2(1) this, of fresh] obtain body db3
          where b: "read_chunk_lease fresh ?n ?db2 = Ok (body, db3)" "lease_unread body = content_bytes f"
            "lease_valid body" "unread db3 = drop ?n (unread db1)" "db_wf db3" "next_frame_head db3 = None"
          using enough cont(1) by (auto simp: lease_valid_def)
        have "\<exists>g. decode_content ops (frame_type_of f) body = Ok g \<and> same_frame f g"
        proof (cases "is_data f")
          case False
          then show ?thesis
            using bytes_api.content_decode [OF bytes_api.intro [OF assms(1)] False b(2)] by (cases f) auto
        next
          case True
          then show ?thesis using b(2,3) assms(3)
            by (cases f) (auto simp: decode_content_def data_decode_from_def lease_unread_0)
        qed
        then show ?thesis using get b cont n(3) True by (auto simp: stream_def)
      next
        case False
        then have "f = Ack \<or> f = Bye" using n(3) by (cases f) auto
        then show ?thesis using get False n wf2 cont by (auto simp: stream_def decode_content_def)
      qed
      then show ?thesis using len lens enough by simp
    qed
  qed
qed

subsection \<open>A connection\<close>

text \<open>
  What the owner of a decode buffer does, in any order: write what the socket delivered, swap in a
  free chunk, ask for the next frame. Writing more than the writable slice holds panics.
\<close>

datatype recv_op = Write "u8 list" | Swap "lock \<Rightarrow> nat" buffer_chunk | NextFrame

fun recv_run :: "buf_ops \<Rightarrow> lock \<Rightarrow> recv_op list \<Rightarrow> decode_buffer \<Rightarrow> (frame list \<times> decode_buffer, framing_error) rresult" where
  "recv_run ops fresh [] db = Ok ([], db)"
| "recv_run ops fresh (Write bs # os) db =
     (if length bs \<le> writeable_len db then recv_run ops fresh os (write_bytes bs db) else Panic)"
| "recv_run ops fresh (Swap sc other # os) db =
     rbind (swap_buffer sc other db) (\<lambda>(db', _). recv_run ops fresh os db')"
| "recv_run ops fresh (NextFrame # os) db =
     (case get_frame ops fresh db of
        (Ok g, db') \<Rightarrow> rbind (recv_run ops fresh os db') (\<lambda>(gs, db''). Ok (g # gs, db''))
      | (Err NoData, db') \<Rightarrow> recv_run ops fresh os db'
      | (Err e, _) \<Rightarrow> Err e
      | (Panic, _) \<Rightarrow> Panic)"

text \<open>The bytes written, and that every write fits and every chunk that is swapped in is free.\<close>

fun written :: "recv_op list \<Rightarrow> u8 list" where
  "written [] = []" | "written (Write bs # os) = bs @ written os" | "written (_ # os) = written os"

fun valid_ops :: "buf_ops \<Rightarrow> lock \<Rightarrow> recv_op list \<Rightarrow> decode_buffer \<Rightarrow> bool" where
  "valid_ops ops fresh [] db = True"
| "valid_ops ops fresh (Write bs # os) db \<longleftrightarrow> length bs \<le> writeable_len db \<and> valid_ops ops fresh os (write_bytes bs db)"
| "valid_ops ops fresh (Swap sc other # os) db \<longleftrightarrow> is_free sc other \<and>
     (case swap_buffer sc other db of Ok (db', _) \<Rightarrow> valid_ops ops fresh os db' | _ \<Rightarrow> False)"
| "valid_ops ops fresh (NextFrame # os) db \<longleftrightarrow> valid_ops ops fresh os (snd (get_frame ops fresh db))"

lemma head_bytes_not_Nil [simp]: "head_bytes h \<noteq> []"
  by (simp add: head_bytes_def)

lemma get_frame_empty: "db_wf db \<Longrightarrow> stream db = [] \<Longrightarrow> get_frame ops fresh db = (Err NoData, db)"
  using readable_len_unread [of db]
  by (auto simp: get_frame_def decode_frame_head_def stream_def FRAME_HEAD_LEN_def split: option.splits)

lemma recv_run_spec:
  assumes "bytes_documented ops"
  shows "db_wf db \<Longrightarrow> \<forall>f \<in> set fs. sendable f \<Longrightarrow> valid_ops ops fresh os db \<Longrightarrow>
    stream db @ written os @ future = concat (map frame_bytes fs) \<Longrightarrow>
    \<exists>k gs db'. recv_run ops fresh os db = Ok (gs, db') \<and> k \<le> length fs \<and> list_all2 same_frame (take k fs) gs \<and>
      db_wf db' \<and> stream db' @ future = concat (map frame_bytes (drop k fs))"
proof (induction os arbitrary: db fs)
  case Nil
  then show ?case by (intro exI [of _ 0]) simp
next
  case (Cons oper os)
  show ?case
  proof (cases oper)
    case (Write bs)
    then show ?thesis using Cons.IH [of "write_bytes bs db" fs] Cons.prems write_bytes_spec [of db bs] by auto
  next
    case (Swap sc other)
    obtain db' where "swap_buffer sc other db = Ok (db', lock_chunk (db_buffer db))" "db_wf db'" "stream db' = stream db"
      using swap_buffer_spec [OF Cons.prems(1), of sc other] Cons.prems(3) Swap by auto
    then show ?thesis using Cons.IH [of db' fs] Cons.prems Swap by auto
  next
    case NextFrame
    show ?thesis
    proof (cases fs)
      case Nil
      then have "stream db = []" using Cons.prems(4) by simp
      from get_frame_empty [OF Cons.prems(1) this] show ?thesis
        using Cons.IH [of db fs] Cons.prems NextFrame by auto
    next
      case (Cons f fs')
      have f: "sendable f" "stream db @ (written os @ future) = frame_bytes f @ concat (map frame_bytes fs')"
        using Cons.prems(2,4) Cons NextFrame by auto
      show ?thesis
      proof (cases "length (frame_bytes f) \<le> length (stream db)")
        case True
        then obtain g db1 where g: "get_frame ops fresh db = (Ok g, db1)" "same_frame f g" "db_wf db1"
          "stream db1 @ (written os @ future) = concat (map frame_bytes fs')"
          using get_frame_spec [OF assms Cons.prems(1) f, of fresh] by auto
        obtain k gs db' where "recv_run ops fresh os db1 = Ok (gs, db')" "k \<le> length fs'"
          "list_all2 same_frame (take k fs') gs" "db_wf db'" "stream db' @ future = concat (map frame_bytes (drop k fs'))"
          using Cons.IH [of db1 fs'] Cons.prems(2,3) Cons NextFrame g by auto
        then show ?thesis using g NextFrame Cons by (intro exI [of _ "Suc k"] exI [of _ "g # gs"]) auto
      next
        case False
        then obtain db1 where "get_frame ops fresh db = (Err NoData, db1)" "db_wf db1" "stream db1 = stream db"
          using get_frame_spec [OF assms Cons.prems(1) f, of fresh] by auto
        then show ?thesis using Cons.IH [of db1 fs] Cons.prems NextFrame by auto
      qed
    qed
  qed
qed

lemma recv_drain:
  assumes "bytes_documented ops"
  shows "db_wf db \<Longrightarrow> \<forall>f \<in> set fs. sendable f \<Longrightarrow> stream db = concat (map frame_bytes fs) \<Longrightarrow>
    \<exists>gs db'. recv_run ops fresh (replicate (length fs) NextFrame) db = Ok (gs, db') \<and> list_all2 same_frame fs gs \<and>
      stream db' = []"
proof (induction fs arbitrary: db)
  case (Cons f fs)
  obtain g db1 where "get_frame ops fresh db = (Ok g, db1)" "same_frame f g" "db_wf db1" "stream db1 = concat (map frame_bytes fs)"
    using get_frame_spec [OF assms Cons.prems(1), of f "[]" "concat (map frame_bytes fs)" fresh] Cons.prems by auto
  then show ?case using Cons.IH [of db1] Cons.prems(2) by auto
qed simp

text \<open>
  C9: However the bytes of a sequence of frames are cut into writes, and whenever buffers are
  swapped and frames asked for in between, the decoder reports no error, delivers the frames in order and
  unchanged as far as their bytes have arrived, and keeps the rest; once all bytes
  have arrived, asking for the remaining frames delivers them all.
\<close>

theorem frames_survive_chunking:
  assumes "bytes_documented ops" "db_wf db" "stream db = []" "\<forall>f \<in> set fs. sendable f"
    and "valid_ops ops fresh os db" "written os @ future = concat (map frame_bytes fs)"
  shows "\<exists>k gs db'. recv_run ops fresh os db = Ok (gs, db') \<and> list_all2 same_frame (take k fs) gs \<and>
           concat (map frame_bytes (take k fs)) @ stream db' = written os \<and>
           (future = [] \<longrightarrow> (\<exists>gs' db''. recv_run ops fresh (replicate (length fs - k) NextFrame) db' = Ok (gs', db'') \<and>
              list_all2 same_frame fs (gs @ gs')))"
proof -
  obtain k gs db' where k: "recv_run ops fresh os db = Ok (gs, db')" "k \<le> length fs" "list_all2 same_frame (take k fs) gs"
    "db_wf db'" "stream db' @ future = concat (map frame_bytes (drop k fs))"
    using recv_run_spec [OF assms(1,2,4,5), of future] assms(3,6) by auto
  have "concat (map frame_bytes fs) = concat (map frame_bytes (take k fs)) @ concat (map frame_bytes (drop k fs))"
    by (metis append_take_drop_id concat_append map_append)
  then have "concat (map frame_bytes (take k fs)) @ stream db' = written os"
    using k(5) assms(6) by (metis append_assoc append_same_eq)
  moreover have "\<exists>gs' db''. recv_run ops fresh (replicate (length fs - k) NextFrame) db' = Ok (gs', db'') \<and>
      list_all2 same_frame fs (gs @ gs')" if fut: "future = []"
  proof -
    have "\<forall>f \<in> set (drop k fs). sendable f" using assms(4) by (meson in_set_dropD)
    then obtain gs' db'' where "recv_run ops fresh (replicate (length fs - k) NextFrame) db' = Ok (gs', db'')"
      "list_all2 same_frame (drop k fs) gs'"
      using recv_drain [OF assms(1) k(4), of "drop k fs" fresh] k(5) fut by auto
    then show ?thesis using k(3) list_all2_appendI [of same_frame "take k fs" gs "drop k fs" gs'] by auto
  qed
  ultimately show ?thesis using k(1,3) by blast
qed

text \<open>An acknowledgement and a goodbye, cut in the middle, with a swap in between.\<close>

definition example_db :: decode_buffer where
  "example_db = decode_buffer_new \<lparr>chunk = replicate 13 0, ref_count = 1, locked = False\<rparr> buffer_config_default"

definition example_ops :: "recv_op list" where
  "example_ops = [Write (take 12 (frame_bytes Ack @ frame_bytes Bye)),
     Swap (\<lambda>_. 1) \<lparr>chunk = replicate 9 0, ref_count = 2, locked = True\<rparr>, Write (drop 12 (frame_bytes Ack @ frame_bytes Bye))]"

theorem frames_survive_chunking_witness:
  "\<exists>k gs db'. recv_run be_buf_ops 0 example_ops example_db = Ok (gs, db') \<and>
     (\<exists>gs' db''. recv_run be_buf_ops 0 (replicate (2 - k) NextFrame) db' = Ok (gs', db'') \<and> gs @ gs' = [Ack, Bye])"
proof -
  have "db_wf example_db" "stream example_db = []"
    by (simp_all add: example_db_def decode_buffer_new_def db_wf_def stream_def unread_def)
  moreover have "valid_ops be_buf_ops 0 example_ops example_db"
    by (simp add: example_ops_def example_db_def decode_buffer_new_def swap_buffer_def get_overflow_def get_lease_def
        get_slice_def free_def is_free_def writeable_len_def write_bytes_def advance_writeable_def frame_bytes_def
        FRAME_HEAD_LEN_def lease_remaining_def buffer_config_default_def Let_def)
  moreover have "written example_ops @ [] = concat (map frame_bytes [Ack, Bye])"
    by (simp add: example_ops_def del: take_append drop_append)
  ultimately have "\<exists>k gs db'. recv_run be_buf_ops 0 example_ops example_db = Ok (gs, db') \<and>
      list_all2 same_frame (take k [Ack, Bye]) gs \<and>
      concat (map frame_bytes (take k [Ack, Bye])) @ stream db' = written example_ops \<and>
      (([] :: u8 list) = [] \<longrightarrow> (\<exists>gs' db''. recv_run be_buf_ops 0 (replicate (length [Ack, Bye] - k) NextFrame) db' = Ok (gs', db'') \<and>
         list_all2 same_frame [Ack, Bye] (gs @ gs')))"
    by (intro frames_survive_chunking) simp_all
  moreover have "list_all2 same_frame [Ack, Bye] xs \<longleftrightarrow> xs = [Ack, Bye]" for xs
    by (auto simp: list_all2_Cons1)
  ultimately show ?thesis by (simp add: numeral_2_eq_2) blast
qed

text \<open>
  A head that announces an empty data, hello or start frame makes the decoder panic, because an
  empty lease cannot be cut out of a chunk.
\<close>

theorem empty_content_panics:
  assumes "db_wf db" "next_frame_head db = Some h" "chain_head db = None"
    and "content_length h = 0" "head_type h \<in> {FT_Data, FT_Hello, FT_Start}"
  shows "fst (get_frame ops fresh db) = Panic"
proof -
  have "decode_frame_head ops fresh db = (Ok (), db)" using assms(2) by (simp add: decode_frame_head_def)
  moreover have "read_chunk_lease fresh 0 (db\<lparr>next_frame_head := None\<rparr>) = Panic"
    using assms(3) by (simp add: read_chunk_lease_def get_lease_def get_slice_def)
  ultimately show ?thesis using assms by (simp add: get_frame_def Let_def)
qed

end
