(* ===== verification/Tcp_Channel.thy ===== *)
theory Tcp_Channel
  imports Decode_Buffer
begin

section \<open>TCP channels (\<open>network/src/transport/network_channel.rs\<close>)\<close>

text \<open>
  One TCP connection: its outbound queue, its decode buffer and the state of its handshake. The
  socket is the operating system's: what its next reads and writes return is part of
  the state, as a list of outcomes (an exhausted list would block), and so is what it
  has accepted. The lemmas show that draining the queue under partial writes, interrupts and
  errors neither loses, repeats nor reorders a byte, that receiving appends to the stream of
  the decode buffer, and how the handshake and the closing sequence end.
\<close>

subsection \<open>Sockets\<close>

datatype io_error = IoWouldBlock | IoInterrupted | IoInvalidInput | IoInvalidData | IoConnectionReset | IoBrokenPipe | IoOther

datatype write_outcome = Wrote nat | WriteFails io_error
datatype read_outcome = Received "u8 list" | ReadFails io_error

record tcp_stream =
  write_outcomes :: "write_outcome list"
  read_outcomes :: "read_outcome list"
  accepted :: "u8 list"
  is_shutdown :: bool
  nodelay_refused :: bool
  pending_error :: "io_error option"

text \<open>A write takes at most what it is offered, from the front.\<close>

definition stream_write :: "u8 list \<Rightarrow> tcp_stream \<Rightarrow> (nat, io_error) rresult \<times> tcp_stream" where
  "stream_write bs s =
     (case write_outcomes s of
        [] \<Rightarrow> (Err IoWouldBlock, s)
      | Wrote n # os \<Rightarrow>
          (Ok (min n (length bs)), s\<lparr>write_outcomes := os, accepted := accepted s @ take n bs\<rparr>)
      | WriteFails e # os \<Rightarrow> (Err e, s\<lparr>write_outcomes := os\<rparr>))"

text \<open>A read delivers at most what fits; what does not fit stays for the next one.\<close>

definition stream_read :: "nat \<Rightarrow> tcp_stream \<Rightarrow> (u8 list, io_error) rresult \<times> tcp_stream" where
  "stream_read room s =
     (case read_outcomes s of
        [] \<Rightarrow> (Err IoWouldBlock, s)
      | Received bs # os \<Rightarrow>
          (Ok (take room bs), s\<lparr>read_outcomes := (if room < length bs then Received (drop room bs) # os else os)\<rparr>)
      | ReadFails e # os \<Rightarrow> (Err e, s\<lparr>read_outcomes := os\<rparr>))"

text \<open>Setting the no-delay option changes nothing of what the model sees, but it can be refused.\<close>

definition set_nodelay :: "tcp_stream \<Rightarrow> (unit, io_error) rresult" where
  "set_nodelay s = (if nodelay_refused s then Err IoOther else Ok ())"

subsection \<open>Channels\<close>

datatype serialised_frame = SF_Bytes "u8 list" | SF_ChunkLease chunk_lease | SF_ChunkRef chunk_ref

datatype channel_state =
  Requested socket_addr uuid | Initialising | Initialised socket_addr uuid | ChConnected socket_addr uuid
  | CloseRequested socket_addr uuid | CloseReceived socket_addr uuid | ChClosed socket_addr uuid | ChError io_error

fun state_session_id :: "channel_state \<Rightarrow> uuid option" where
  "state_session_id (Requested _ sid) = Some sid"
| "state_session_id Initialising = None"
| "state_session_id (Initialised _ sid) = Some sid"
| "state_session_id (ChConnected _ sid) = Some sid"
| "state_session_id (CloseRequested _ sid) = Some sid"
| "state_session_id (CloseReceived _ sid) = Some sid"
| "state_session_id (ChClosed _ sid) = Some sid"
| "state_session_id (ChError _) = None"

record tcp_channel =
  ch_stream :: tcp_stream
  outbound_queue :: "serialised_frame list"
  ch_token :: nat
  ch_address :: socket_addr
  input_buffer :: decode_buffer
  ch_state :: channel_state
  ch_messages :: u32
  own_addr :: socket_addr
  nodelay :: bool

definition channel_new ::
    "tcp_stream \<Rightarrow> nat \<Rightarrow> socket_addr \<Rightarrow> buffer_chunk \<Rightarrow> channel_state \<Rightarrow> socket_addr \<Rightarrow> buffer_config \<Rightarrow> bool \<Rightarrow> tcp_channel" where
  "channel_new str tok addr b st own cfg nd =
     \<lparr>ch_stream = str, outbound_queue = [], ch_token = tok, ch_address = addr,
      input_buffer = decode_buffer_new b cfg, ch_state = st, ch_messages = 0, own_addr = own, nodelay = nd\<rparr>"

fun is_connected_state :: "channel_state \<Rightarrow> bool" where
  "is_connected_state (ChConnected _ _) = True" | "is_connected_state _ = False"

definition connected :: "tcp_channel \<Rightarrow> bool" where
  "connected ch = is_connected_state (ch_state ch)"

definition ch_session_id :: "tcp_channel \<Rightarrow> uuid option" where
  "ch_session_id ch = state_session_id (ch_state ch)"

subsection \<open>Sending\<close>

text \<open>\<open>Buf::chunk\<close> and \<open>Buf::remaining\<close> of a frame, and the part of it that a partial write leaves.\<close>

fun frame_chunk :: "serialised_frame \<Rightarrow> (u8 list, unit) rresult" where
  "frame_chunk (SF_Bytes bs) = Ok bs"
| "frame_chunk (SF_ChunkLease l) = lease_chunk l"
| "frame_chunk (SF_ChunkRef r) = ref_chunk r"

fun frame_remaining :: "serialised_frame \<Rightarrow> nat" where
  "frame_remaining (SF_Bytes bs) = length bs"
| "frame_remaining (SF_ChunkLease l) = lease_remaining l"
| "frame_remaining (SF_ChunkRef r) = ref_remaining r"

fun frame_advance :: "nat \<Rightarrow> serialised_frame \<Rightarrow> serialised_frame" where
  "frame_advance n (SF_Bytes bs) = SF_Bytes (drop n bs)"
| "frame_advance n (SF_ChunkLease l) = SF_ChunkLease (lease_advance n l)"
| "frame_advance n (SF_ChunkRef r) = SF_ChunkRef (ref_advance n r)"

definition write_serialized :: "serialised_frame \<Rightarrow> tcp_stream \<Rightarrow> (nat, io_error) rresult \<times> tcp_stream" where
  "write_serialized f s = (case frame_chunk f of Ok c \<Rightarrow> stream_write c s | _ \<Rightarrow> (Panic, s))"

definition MAX_INTERRUPTS :: nat where "MAX_INTERRUPTS = 9"

lemma write_consumes:
  "write_serialized f s = (Ok n, s') \<Longrightarrow> length (write_outcomes s') < length (write_outcomes s)"
  "write_serialized f s = (Err e, s') \<Longrightarrow> e \<noteq> IoWouldBlock \<Longrightarrow> length (write_outcomes s') < length (write_outcomes s)"
  by (auto simp: write_serialized_def stream_write_def split: rresult.splits list.splits write_outcome.splits)

text \<open>
  The loop of \<open>try_drain\<close>; the socket's list of outcomes gets shorter with every write that is
  repeated.
\<close>

function drain_loop :: "nat \<Rightarrow> nat \<Rightarrow> serialised_frame list \<Rightarrow> tcp_stream
    \<Rightarrow> (nat, io_error) rresult \<times> serialised_frame list \<times> tcp_stream" where
  "drain_loop interrupts sent_bytes q s =
     (case q of
        [] \<Rightarrow> (Ok sent_bytes, [], s)
      | f # rest \<Rightarrow>
          (case write_serialized f s of
             (Ok n, s') \<Rightarrow>
               drain_loop interrupts (sent_bytes + n)
                 (if n < frame_remaining f then frame_advance n f # rest else rest) s'
           | (Err e, s') \<Rightarrow>
               if e = IoWouldBlock then (Ok sent_bytes, f # rest, s')
               else if e = IoInterrupted then
                 if interrupts + 1 \<ge> MAX_INTERRUPTS then (Err e, f # rest, s')
                 else drain_loop (interrupts + 1) sent_bytes (f # rest) s'
               else (Err e, f # rest, s')
           | (Panic, s') \<Rightarrow> (Panic, q, s')))"
  by pat_completeness auto
termination
  by (relation "measure (\<lambda>(_, _, _, s). length (write_outcomes s))")
    (auto dest: write_consumes sym)

declare drain_loop.simps [simp del]

definition try_drain :: "tcp_channel \<Rightarrow> (nat, io_error) rresult \<times> tcp_channel" where
  "try_drain ch =
     (let (r, q, s) = drain_loop 0 0 (outbound_queue ch) (ch_stream ch)
      in (r, ch\<lparr>outbound_queue := q, ch_stream := s\<rparr>))"

definition enqueue_serialised :: "serialised_frame \<Rightarrow> tcp_channel \<Rightarrow> tcp_channel" where
  "enqueue_serialised f ch = ch\<lparr>outbound_queue := outbound_queue ch @ [f]\<rparr>"

definition take_outbound :: "tcp_channel \<Rightarrow> serialised_frame list \<times> tcp_channel" where
  "take_outbound ch = (outbound_queue ch, ch\<lparr>outbound_queue := []\<rparr>)"

text \<open>
  Control frames are encoded into a growable buffer, whose room is the address space. The
  result of draining is ignored.
\<close>

definition ADDRESS_SPACE :: nat where "ADDRESS_SPACE = 2 ^ 64 - 1"

definition encode_control :: "buf_ops \<Rightarrow> frame \<Rightarrow> (u8 list, io_error) rresult" where
  "encode_control ops f =
     (case frame_encode_into ops f ([], ADDRESS_SPACE) of Some (Ok (bs, _)) \<Rightarrow> Ok bs | _ \<Rightarrow> Panic)"

definition send_frame :: "buf_ops \<Rightarrow> frame \<Rightarrow> tcp_channel \<Rightarrow> (tcp_channel, io_error) rresult" where
  "send_frame ops f ch =
     rbind (encode_control ops f) (\<lambda>bs.
       case try_drain (enqueue_serialised (SF_Bytes bs) ch) of
         (Panic, _) \<Rightarrow> Panic
       | (_, ch') \<Rightarrow> Ok ch')"

text \<open>\<open>send_bye\<close> reports whether everything, the goodbye last, has been sent.\<close>

definition send_bye :: "buf_ops \<Rightarrow> tcp_channel \<Rightarrow> (bool \<times> tcp_channel, io_error) rresult" where
  "send_bye ops ch = rbind (send_frame ops Bye ch) (\<lambda>ch'. Ok (outbound_queue ch' = [], ch'))"

subsection \<open>The handshake and the closing sequence\<close>

definition read_state :: "tcp_channel \<Rightarrow> channel_state \<times> tcp_channel" where
  "read_state ch =
     (let ch' = (case pending_error (ch_stream ch) of
                   Some e \<Rightarrow> ch\<lparr>ch_state := ChError e, ch_stream := (ch_stream ch)\<lparr>pending_error := None\<rparr>\<rparr>
                 | None \<Rightarrow> ch)
      in (ch_state ch', ch'))"

definition initialise :: "buf_ops \<Rightarrow> socket_addr \<Rightarrow> tcp_channel \<Rightarrow> (tcp_channel, io_error) rresult" where
  "initialise ops addr ch = (if ch_state ch = Initialising then send_frame ops (Hello addr) ch else Ok ch)"

definition ch_handle_hello :: "buf_ops \<Rightarrow> socket_addr \<Rightarrow> tcp_channel \<Rightarrow> (tcp_channel, io_error) rresult" where
  "ch_handle_hello ops addr ch =
     (case ch_state ch of
        Requested _ sid \<Rightarrow>
          rbind (send_frame ops (StartFrame (own_addr ch) sid) ch) (\<lambda>ch'.
            Ok (ch'\<lparr>ch_state := Initialised addr sid, ch_address := addr\<rparr>))
      | _ \<Rightarrow> Ok ch)"

definition ch_handle_start :: "buf_ops \<Rightarrow> socket_addr \<Rightarrow> uuid \<Rightarrow> tcp_channel \<Rightarrow> (tcp_channel, io_error) rresult" where
  "ch_handle_start ops addr sid ch =
     (if ch_state ch = Initialising then
        rbind (expect_ok (set_nodelay (ch_stream ch))) (\<lambda>_.
          rbind (send_frame ops Ack ch) (\<lambda>ch'.
            Ok (ch'\<lparr>ch_state := ChConnected addr sid, ch_address := addr\<rparr>)))
      else Ok ch)"

definition ch_handle_ack :: "tcp_channel \<Rightarrow> (tcp_channel, io_error) rresult" where
  "ch_handle_ack ch =
     (case ch_state ch of
        Initialised addr sid \<Rightarrow>
          rbind (expect_ok (set_nodelay (ch_stream ch))) (\<lambda>_. Ok (ch\<lparr>ch_state := ChConnected addr sid\<rparr>))
      | _ \<Rightarrow> Ok ch)"

definition ch_handle_bye :: "buf_ops \<Rightarrow> tcp_channel \<Rightarrow> (tcp_channel, io_error) rresult" where
  "ch_handle_bye ops ch =
     (case ch_state ch of
        ChConnected addr sid \<Rightarrow>
          rbind (send_bye ops (ch\<lparr>ch_state := CloseReceived addr sid\<rparr>)) (\<lambda>(sent, ch').
            Ok (if sent then ch'\<lparr>ch_state := ChClosed addr sid\<rparr> else ch'))
      | CloseRequested addr sid \<Rightarrow> Ok (ch\<lparr>ch_state := ChClosed addr sid\<rparr>)
      | _ \<Rightarrow> Ok ch)"

definition initiate_graceful_shutdown :: "buf_ops \<Rightarrow> tcp_channel \<Rightarrow> (tcp_channel, io_error) rresult" where
  "initiate_graceful_shutdown ops ch =
     (case ch_state ch of
        ChConnected addr sid \<Rightarrow>
          rbind (send_bye ops (ch\<lparr>ch_state := CloseRequested addr sid\<rparr>)) (\<lambda>(_, ch'). Ok ch')
      | _ \<Rightarrow> Ok ch)"

definition ch_kill :: "tcp_channel \<Rightarrow> tcp_channel" where
  "ch_kill ch = ch\<lparr>ch_stream := (ch_stream ch)\<lparr>is_shutdown := True\<rparr>\<rparr>"

definition ch_shutdown :: "tcp_channel \<Rightarrow> tcp_channel" where
  "ch_shutdown ch =
     (let ch' = ch_kill ch
      in case ch_state ch' of ChConnected addr sid \<Rightarrow> ch'\<lparr>ch_state := ChClosed addr sid\<rparr> | _ \<Rightarrow> ch')"

subsection \<open>Receiving\<close>

fun outcome_weight :: "read_outcome \<Rightarrow> nat" where
  "outcome_weight (Received bs) = Suc (length bs)" | "outcome_weight (ReadFails _) = 1"

definition read_weight :: "tcp_stream \<Rightarrow> nat" where
  "read_weight s = sum_list (map outcome_weight (read_outcomes s))"

lemma stream_read_consumes:
  "stream_read room s = (Ok bs, s') \<Longrightarrow> 0 < room \<Longrightarrow> read_weight s' < read_weight s"
  "stream_read room s = (Err e, s') \<Longrightarrow> e \<noteq> IoWouldBlock \<Longrightarrow> read_weight s' < read_weight s"
  by (auto simp: stream_read_def read_weight_def split: list.splits read_outcome.splits)

lemma get_writeable_room: "get_writeable db = Ok (Some (from, to)) \<Longrightarrow> from < to"
  by (auto simp: get_writeable_def get_slice_def rbind_eq_Ok split: if_splits)

lemma receive_consumes:
  "get_writeable db = Ok (Some (from, to)) \<Longrightarrow> (Ok bs, s') = stream_read (to - from) s \<Longrightarrow> read_weight s' < read_weight s"
  using stream_read_consumes(1) [of "to - from" s bs s'] get_writeable_room [of db "from" to] by simp

text \<open>Reading from the socket until it would block or the buffer is full.\<close>

function receive_loop :: "nat \<Rightarrow> tcp_channel \<Rightarrow> (unit, io_error) rresult \<times> tcp_channel" where
  "receive_loop interrupts ch =
     (case get_writeable (input_buffer ch) of
        Ok (Some (from, to)) \<Rightarrow>
          (case stream_read (to - from) (ch_stream ch) of
             (Ok bs, s') \<Rightarrow>
               if bs = [] then (Ok (), ch\<lparr>ch_stream := s'\<rparr>)
               else receive_loop interrupts (ch\<lparr>ch_stream := s', input_buffer := write_bytes bs (input_buffer ch)\<rparr>)
           | (Err e, s') \<Rightarrow>
               if e = IoWouldBlock then (Ok (), ch\<lparr>ch_stream := s'\<rparr>)
               else if e = IoInterrupted then
                 if interrupts + 1 \<ge> MAX_INTERRUPTS then (Err e, ch\<lparr>ch_stream := s'\<rparr>)
                 else receive_loop (interrupts + 1) (ch\<lparr>ch_stream := s'\<rparr>)
               else (Err e, ch\<lparr>ch_stream := s'\<rparr>)
           | (Panic, s') \<Rightarrow> (Panic, ch\<lparr>ch_stream := s'\<rparr>))
      | Ok None \<Rightarrow> (Err IoInvalidInput, ch)
      | _ \<Rightarrow> (Panic, ch))"
  by pat_completeness auto
termination
  by (relation "measure (\<lambda>(_, ch). read_weight (ch_stream ch))")
    (auto dest: receive_consumes stream_read_consumes(2) [OF sym])

declare receive_loop.simps [simp del]

definition receive :: "tcp_channel \<Rightarrow> (unit, io_error) rresult \<times> tcp_channel" where
  "receive ch = receive_loop 0 ch"

definition ch_decode :: "buf_ops \<Rightarrow> lock \<Rightarrow> tcp_channel \<Rightarrow> (frame, framing_error) rresult \<times> tcp_channel" where
  "ch_decode ops fresh ch =
     (case get_frame ops fresh (input_buffer ch) of
        (r, db) \<Rightarrow>
          (let ch' = ch\<lparr>input_buffer := db\<rparr>
           in case r of
                Ok f \<Rightarrow> (Ok f, if is_data f then ch'\<lparr>ch_messages := ch_messages ch' + 1\<rparr> else ch')
              | _ \<Rightarrow> (r, ch')))"

text \<open>The end of \<open>read_frame\<close>: decode, react to acknowledgements and goodbyes, and map the errors.\<close>

definition decode_and_react ::
    "buf_ops \<Rightarrow> lock \<Rightarrow> tcp_channel \<Rightarrow> (frame option, io_error) rresult \<times> tcp_channel" where
  "decode_and_react ops fresh ch =
     (case ch_decode ops fresh ch of
        (Ok Ack, ch') \<Rightarrow>
          (case ch_handle_ack ch' of Ok ch'' \<Rightarrow> (Ok (Some Ack), ch'') | _ \<Rightarrow> (Panic, ch'))
      | (Ok Bye, ch') \<Rightarrow>
          (case ch_handle_bye ops ch' of Ok ch'' \<Rightarrow> (Ok (Some Bye), ch'') | _ \<Rightarrow> (Panic, ch'))
      | (Ok f, ch') \<Rightarrow> (Ok (Some f), ch')
      | (Err NoData, ch') \<Rightarrow> (Ok None, ch')
      | (Err _, ch') \<Rightarrow> (Err IoInvalidData, ch')
      | (Panic, ch') \<Rightarrow> (Panic, ch'))"

text \<open>
  \<open>read_frame\<close> calls itself after swapping in another chunk; the first argument bounds these
  calls, \<open>None\<close> is running out of it.
\<close>

fun read_frame ::
    "nat \<Rightarrow> buf_ops \<Rightarrow> lock \<Rightarrow> (lock \<Rightarrow> nat) \<Rightarrow> buffer_pool \<Rightarrow> tcp_channel
      \<Rightarrow> ((frame option, io_error) rresult \<times> buffer_pool \<times> tcp_channel) option" where
  "read_frame 0 ops fresh sc p ch = None"
| "read_frame (Suc n) ops fresh sc p ch =
     (let finish = (\<lambda>ch. case decode_and_react ops fresh ch of (r, ch') \<Rightarrow> Some (r, p, ch'))
      in case has_frame ops fresh (input_buffer ch) of
        (Ok True, db) \<Rightarrow> finish (ch\<lparr>input_buffer := db\<rparr>)
      | (Ok False, db) \<Rightarrow>
          (case receive (ch\<lparr>input_buffer := db\<rparr>) of
             (Ok _, ch1) \<Rightarrow> finish ch1
           | (Err e, ch1) \<Rightarrow>
               if e \<noteq> IoInvalidInput then Some (Err e, p, ch1)
               else (case has_frame ops fresh (input_buffer ch1) of
                       (Ok True, db1) \<Rightarrow> finish (ch1\<lparr>input_buffer := db1\<rparr>)
                     | (Ok False, db1) \<Rightarrow>
                         (case get_buffer sc p of
                            (None, p') \<Rightarrow> Some (Err e, p', ch1\<lparr>input_buffer := db1\<rparr>)
                          | (Some b, p') \<Rightarrow>
                              (case swap_buffer sc b db1 of
                                 Ok (db2, old) \<Rightarrow>
                                   read_frame n ops fresh sc (return_buffer old p') (ch1\<lparr>input_buffer := db2\<rparr>)
                               | _ \<Rightarrow> Some (Panic, p', ch1)))
                     | (Err _, db1) \<Rightarrow> Some (Err IoInvalidData, p, ch1\<lparr>input_buffer := db1\<rparr>)
                     | (Panic, db1) \<Rightarrow> Some (Panic, p, ch1))
           | (Panic, ch1) \<Rightarrow> Some (Panic, p, ch1))
      | (Err _, db) \<Rightarrow> Some (Err IoInvalidData, p, ch\<lparr>input_buffer := db\<rparr>)
      | (Panic, db) \<Rightarrow> Some (Panic, p, ch))"

subsection \<open>Draining loses nothing\<close>

fun sf_unread :: "serialised_frame \<Rightarrow> u8 list" where
  "sf_unread (SF_Bytes bs) = bs" | "sf_unread (SF_ChunkLease l) = lease_unread l" | "sf_unread (SF_ChunkRef r) = ref_unread r"

fun sf_valid :: "serialised_frame \<Rightarrow> bool" where
  "sf_valid (SF_Bytes bs) = True" | "sf_valid (SF_ChunkLease l) = lease_valid l" | "sf_valid (SF_ChunkRef r) = ref_valid r"

text \<open>A frame that waits in a queue has something left to be sent.\<close>

definition sf_pending :: "serialised_frame \<Rightarrow> bool" where
  "sf_pending f \<longleftrightarrow> sf_valid f \<and> sf_unread f \<noteq> []"

text \<open>All three kinds of frames keep the contract of the buffer interface.\<close>

interpretation frame_buf: buf sf_valid sf_unread frame_remaining frame_chunk frame_advance
proof
  fix f :: serialised_frame and n assume v: "sf_valid f"
  show "frame_remaining f = length (sf_unread f)"
    using v lease_buf.remaining_unread ref_buf.remaining_unread by (cases f) auto
  show "sf_unread f \<noteq> [] \<Longrightarrow> \<exists>bs rest. frame_chunk f = Ok bs \<and> bs \<noteq> [] \<and> sf_unread f = bs @ rest"
    using v lease_buf.chunk_prefix ref_buf.chunk_prefix by (cases f) auto
  show "n \<le> length (sf_unread f) \<Longrightarrow> sf_valid (frame_advance n f)"
    using v lease_buf.advance_valid ref_buf.advance_valid by (cases f) auto
  show "n \<le> length (sf_unread f) \<Longrightarrow> sf_unread (frame_advance n f) = drop n (sf_unread f)"
    using v lease_buf.advance_unread ref_buf.advance_unread by (cases f) auto
qed

definition queue_bytes :: "serialised_frame list \<Rightarrow> u8 list" where
  "queue_bytes q = concat (map sf_unread q)"

lemma write_serialized_spec:
  assumes "sf_pending f"
  shows "(\<exists>n s'. write_serialized f s = (Ok n, s') \<and> n \<le> length (sf_unread f) \<and>
           accepted s' = accepted s @ take n (sf_unread f)) \<or>
         (\<exists>e s'. write_serialized f s = (Err e, s') \<and> accepted s' = accepted s)"
proof -
  obtain c rest where c: "frame_chunk f = Ok c" "sf_unread f = c @ rest"
    using frame_buf.chunk_prefix [of f] assms by (auto simp: sf_pending_def)
  show ?thesis
  proof (cases "write_outcomes s")
    case (Cons oc os)
    then show ?thesis using c by (cases oc) (auto simp: write_serialized_def stream_write_def min_def)
  qed (use c in \<open>auto simp: write_serialized_def stream_write_def\<close>)
qed

lemma drain_loop_bytes:
  "list_all sf_pending q \<Longrightarrow> drain_loop i b q s = (r, q', s') \<Longrightarrow>
     r \<noteq> Panic \<and> list_all sf_pending q' \<and> accepted s' @ queue_bytes q' = accepted s @ queue_bytes q \<and>
     length q' \<le> length q"
proof (induction i b q s arbitrary: r q' s' rule: drain_loop.induct)
  case (1 i b q s)
  note step = drain_loop.simps [of i b q s]
  show ?case
  proof (cases q)
    case Nil
    then show ?thesis using 1 step by simp
  next
    case (Cons f rest)
    have f: "sf_pending f" "list_all sf_pending rest" using "1.prems"(1) Cons by auto
    from write_serialized_spec [OF f(1), of s] consider
      (wrote) n s1 where "write_serialized f s = (Ok n, s1)" "n \<le> length (sf_unread f)"
        "accepted s1 = accepted s @ take n (sf_unread f)"
      | (failed) e s1 where "write_serialized f s = (Err e, s1)" "accepted s1 = accepted s" by blast
    then show ?thesis
    proof cases
      case wrote
      let ?q = "if n < frame_remaining f then frame_advance n f # rest else rest"
      have rem: "frame_remaining f = length (sf_unread f)" using f(1) frame_buf.remaining_unread by (simp add: sf_pending_def)
      have q: "list_all sf_pending ?q" "take n (sf_unread f) @ queue_bytes ?q = queue_bytes q" "length ?q \<le> length q"
        using f wrote(2) rem frame_buf.advance_valid [of f n] frame_buf.advance_unread [of f n] Cons
        by (auto simp: sf_pending_def queue_bytes_def)
      have "drain_loop i (b + n) ?q s1 = (r, q', s')" using "1.prems"(2) step Cons wrote(1) by simp
      then show ?thesis using "1.IH"(1) [OF Cons wrote(1) [symmetric] refl] q wrote(3)
        by (metis (no_types, lifting) append.assoc le_trans)
    next
      case failed
      show ?thesis
      proof (cases "e = IoInterrupted \<and> \<not> i + 1 \<ge> MAX_INTERRUPTS")
        case True
        then have "drain_loop (i + 1) b (f # rest) s1 = (r, q', s')" using "1.prems"(2) step Cons failed(1) by simp
        then show ?thesis
          using "1.IH"(2) [OF Cons failed(1) [symmetric] refl] True f failed(2) Cons by simp
      next
        case False
        then show ?thesis using "1.prems" step Cons failed by (auto split: if_splits)
      qed
    qed
  qed
qed

lemma write_serialized_keeps:
  "write_serialized f s = (r, s') \<Longrightarrow> nodelay_refused s' = nodelay_refused s \<and> read_outcomes s' = read_outcomes s \<and> is_shutdown s' = is_shutdown s"
  by (auto simp: write_serialized_def stream_write_def split: rresult.splits list.splits write_outcome.splits)

lemma drain_loop_keeps:
  "drain_loop i b q s = (r, q', s') \<Longrightarrow> nodelay_refused s' = nodelay_refused s \<and> read_outcomes s' = read_outcomes s \<and> is_shutdown s' = is_shutdown s"
proof (induction i b q s arbitrary: r q' s' rule: drain_loop.induct)
  case (1 i b q s)
  show ?case
  proof (cases q)
    case (Cons f rest)
    obtain w s1 where w: "write_serialized f s = (w, s1)" by fastforce
    note same = write_serialized_keeps [OF w]
    show ?thesis
      using "1.prems" "1.IH"(1) [OF Cons w [symmetric]] "1.IH"(2) [OF Cons w [symmetric]] Cons w same
      by (cases w) (auto simp: drain_loop.simps [of i b "f # rest" s] split: if_splits)
  qed (use "1.prems" in \<open>simp add: drain_loop.simps\<close>)
qed

text \<open>What a channel has given to its socket and what it still has to give.\<close>

definition emitted :: "tcp_channel \<Rightarrow> u8 list" where
  "emitted ch = accepted (ch_stream ch) @ queue_bytes (outbound_queue ch)"

definition queue_ok :: "tcp_channel \<Rightarrow> bool" where
  "queue_ok ch \<longleftrightarrow> list_all sf_pending (outbound_queue ch)"

lemma try_drain_emits:
  assumes "queue_ok ch"
  shows "\<exists>r q s. try_drain ch = (r, ch\<lparr>outbound_queue := q, ch_stream := s\<rparr>) \<and> r \<noteq> Panic \<and>
    queue_ok (ch\<lparr>outbound_queue := q, ch_stream := s\<rparr>) \<and> emitted (ch\<lparr>outbound_queue := q, ch_stream := s\<rparr>) = emitted ch \<and>
    nodelay_refused s = nodelay_refused (ch_stream ch)"
proof -
  obtain r q s where d: "drain_loop 0 0 (outbound_queue ch) (ch_stream ch) = (r, q, s)" by (metis prod_cases3)
  from drain_loop_bytes [OF _ d] assms show ?thesis
    by (intro exI [of _ r] exI [of _ q] exI [of _ s]) (simp add: try_drain_def d queue_ok_def emitted_def drain_loop_keeps [OF d])
qed

lemma emitted_state [simp]:
  "emitted (ch\<lparr>ch_state := st\<rparr>) = emitted ch" "queue_ok (ch\<lparr>ch_state := st\<rparr>) = queue_ok ch"
  "emitted (ch\<lparr>ch_address := a\<rparr>) = emitted ch" "queue_ok (ch\<lparr>ch_address := a\<rparr>) = queue_ok ch"
  by (simp_all add: emitted_def queue_ok_def)

lemma encode_control_bytes:
  assumes "bytes_documented ops" "\<not> is_data f"
  shows "encode_control ops f = Ok (frame_bytes f)"
proof -
  have "length (frame_bytes f) \<le> ADDRESS_SPACE"
    using assms(2) by (cases f) (auto simp: frame_bytes_def FRAME_HEAD_LEN_def ADDRESS_SPACE_def length_addr_bytes split: ip_addr.splits)
  from bytes_api.frame_encode [OF bytes_api.intro [OF assms(1)] assms(2) this, of "[]"]
  show ?thesis by (simp add: encode_control_def)
qed

lemma frame_bytes_not_Nil [simp]: "frame_bytes f \<noteq> []"
  by (simp add: frame_bytes_def)

lemma send_frame_emits:
  assumes "bytes_documented ops" "queue_ok ch" "\<not> is_data f"
  shows "\<exists>q s. send_frame ops f ch = Ok (ch\<lparr>outbound_queue := q, ch_stream := s\<rparr>) \<and>
    queue_ok (ch\<lparr>outbound_queue := q, ch_stream := s\<rparr>) \<and>
    emitted (ch\<lparr>outbound_queue := q, ch_stream := s\<rparr>) = emitted ch @ frame_bytes f \<and>
    nodelay_refused s = nodelay_refused (ch_stream ch)"
proof -
  let ?ch = "enqueue_serialised (SF_Bytes (frame_bytes f)) ch"
  have "queue_ok ?ch" "emitted ?ch = emitted ch @ frame_bytes f"
    using assms(2) by (simp_all add: enqueue_serialised_def queue_ok_def emitted_def queue_bytes_def sf_pending_def)
  with try_drain_emits [of ?ch] obtain r q s where "try_drain ?ch = (r, ?ch\<lparr>outbound_queue := q, ch_stream := s\<rparr>)" "r \<noteq> Panic"
    "queue_ok (?ch\<lparr>outbound_queue := q, ch_stream := s\<rparr>)"
    "emitted (?ch\<lparr>outbound_queue := q, ch_stream := s\<rparr>) = emitted ch @ frame_bytes f"
    "nodelay_refused s = nodelay_refused (ch_stream ?ch)" by auto
  then show ?thesis
    by (cases r) (auto simp: send_frame_def encode_control_bytes [OF assms(1,3)] enqueue_serialised_def)
qed

text \<open>
  Draining a channel under any sequence of partial writes, would-block results, interrupts and
  errors loses, repeats and reorders no byte: what the socket accepted followed by what is
  still queued is what it was before, and every frame left in the queue still has something to
  send. It never panics.
\<close>

theorem draining_keeps_the_stream:
  assumes "list_all sf_pending (outbound_queue ch)"
  shows "\<exists>r ch'. try_drain ch = (r, ch') \<and> r \<noteq> Panic \<and> list_all sf_pending (outbound_queue ch') \<and>
           accepted (ch_stream ch') @ queue_bytes (outbound_queue ch') =
             accepted (ch_stream ch) @ queue_bytes (outbound_queue ch) \<and>
           ch_state ch' = ch_state ch"
  using try_drain_emits [of ch] assms by (fastforce simp: emitted_def queue_ok_def)

theorem draining_keeps_the_stream_witness:
  "\<exists>r ch'. try_drain (channel_new \<lparr>write_outcomes = [WriteFails IoInterrupted, Wrote 2, Wrote 1, WriteFails IoWouldBlock], read_outcomes = [],
         accepted = [], is_shutdown = False, nodelay_refused = False, pending_error = None\<rparr> 3 \<lparr>sock_ip = V4 1, sock_port = 1\<rparr> (from_chunk [] 0) Initialising
         \<lparr>sock_ip = V4 2, sock_port = 2\<rparr> buffer_config_default True
         \<lparr>outbound_queue := [SF_Bytes [10, 11], SF_ChunkLease (lease_new [12, 13] 4)]\<rparr>) = (r, ch') \<and>
     accepted (ch_stream ch') = [10, 11, 12] \<and> queue_bytes (outbound_queue ch') = [13] \<and>
     accepted (ch_stream ch') @ queue_bytes (outbound_queue ch') = [10, 11, 12, 13]"
proof -
  let ?ch = "channel_new \<lparr>write_outcomes = [WriteFails IoInterrupted, Wrote 2, Wrote 1, WriteFails IoWouldBlock], read_outcomes = [],
         accepted = [], is_shutdown = False, nodelay_refused = False, pending_error = None\<rparr> 3 \<lparr>sock_ip = V4 1, sock_port = 1\<rparr> (from_chunk [] 0) Initialising
         \<lparr>sock_ip = V4 2, sock_port = 2\<rparr> buffer_config_default True
         \<lparr>outbound_queue := [SF_Bytes [10, 11], SF_ChunkLease (lease_new [12, 13] 4)]\<rparr>"
  have "list_all sf_pending (outbound_queue ?ch)" by (simp add: sf_pending_def lease_valid_def channel_new_def)
  from draining_keeps_the_stream [OF this] show ?thesis
    by (simp add: try_drain_def channel_new_def drain_loop.simps write_serialized_def stream_write_def MAX_INTERRUPTS_def
        queue_bytes_def lease_chunk_def lease_remaining_def lease_advance_def lease_new_def lease_unread_def)
qed

text \<open>
  C20: The handshake ends with both sides connected under the session identifier the requester
  chose, each knowing the address the other announced, and the bytes each side has given
  to its socket or queued are exactly its part of the protocol: hello and acknowledgement, and
  start.
\<close>

theorem handshake_agrees:
  assumes "bytes_documented ops" "queue_ok acc" "queue_ok req"
    and "ch_state acc = Initialising" "ch_state req = Requested a0 sid"
    and "\<not> nodelay_refused (ch_stream acc)" "\<not> nodelay_refused (ch_stream req)"
  shows "\<exists>acc1 acc2 req1 req2.
           initialise ops (own_addr acc) acc = Ok acc1 \<and>
           ch_handle_hello ops (own_addr acc) req = Ok req1 \<and>
           ch_handle_start ops (own_addr req) sid acc1 = Ok acc2 \<and>
           ch_handle_ack req1 = Ok req2 \<and>
           ch_state acc2 = ChConnected (own_addr req) sid \<and> ch_address acc2 = own_addr req \<and>
           ch_state req2 = ChConnected (own_addr acc) sid \<and> ch_address req2 = own_addr acc \<and>
           emitted acc2 = emitted acc @ frame_bytes (Hello (own_addr acc)) @ frame_bytes Ack \<and>
           emitted req2 = emitted req @ frame_bytes (StartFrame (own_addr req) sid)"
proof -
  obtain q1 s1 where 1: "send_frame ops (Hello (own_addr acc)) acc = Ok (acc\<lparr>outbound_queue := q1, ch_stream := s1\<rparr>)"
    "queue_ok (acc\<lparr>outbound_queue := q1, ch_stream := s1\<rparr>)"
    "emitted (acc\<lparr>outbound_queue := q1, ch_stream := s1\<rparr>) = emitted acc @ frame_bytes (Hello (own_addr acc))" "nodelay_refused s1 = nodelay_refused (ch_stream acc)"
    using send_frame_emits [OF assms(1,2), of "Hello (own_addr acc)"] by auto
  let ?acc1 = "acc\<lparr>outbound_queue := q1, ch_stream := s1\<rparr>"
  obtain q2 s2 where 2: "send_frame ops Ack ?acc1 = Ok (?acc1\<lparr>outbound_queue := q2, ch_stream := s2\<rparr>)"
    "emitted (?acc1\<lparr>outbound_queue := q2, ch_stream := s2\<rparr>) = emitted ?acc1 @ frame_bytes Ack"
    using send_frame_emits [OF assms(1) 1(2), of Ack] by auto
  obtain q3 s3 where 3: "send_frame ops (StartFrame (own_addr req) sid) req = Ok (req\<lparr>outbound_queue := q3, ch_stream := s3\<rparr>)"
    "emitted (req\<lparr>outbound_queue := q3, ch_stream := s3\<rparr>) = emitted req @ frame_bytes (StartFrame (own_addr req) sid)" "nodelay_refused s3 = nodelay_refused (ch_stream req)"
    using send_frame_emits [OF assms(1,3), of "StartFrame (own_addr req) sid"] by auto
  show ?thesis using 1 2 3 assms(4-7)
    by (simp add: set_nodelay_def initialise_def ch_handle_hello_def ch_handle_start_def ch_handle_ack_def)
qed

definition accepting_channel :: tcp_channel where
  "accepting_channel = channel_new \<lparr>write_outcomes = [Wrote 3, WriteFails IoWouldBlock, Wrote 100], read_outcomes = [],
       accepted = [], is_shutdown = False, nodelay_refused = False, pending_error = None\<rparr>
     3 \<lparr>sock_ip = V4 9, sock_port = 9\<rparr> (from_chunk [] 0) Initialising \<lparr>sock_ip = V4 1, sock_port = 1\<rparr> buffer_config_default True"

definition requesting_channel :: tcp_channel where
  "requesting_channel = channel_new \<lparr>write_outcomes = [Wrote 3, WriteFails IoWouldBlock, Wrote 100], read_outcomes = [],
       accepted = [], is_shutdown = False, nodelay_refused = False, pending_error = None\<rparr>
     4 \<lparr>sock_ip = V4 1, sock_port = 1\<rparr> (from_chunk [] 0) (Requested \<lparr>sock_ip = V4 1, sock_port = 1\<rparr> 7) \<lparr>sock_ip = V4 2, sock_port = 2\<rparr>
     buffer_config_default True"

theorem handshake_agrees_witness:
  "\<exists>acc1 acc2 req1 req2.
     initialise be_buf_ops \<lparr>sock_ip = V4 1, sock_port = 1\<rparr> accepting_channel = Ok acc1 \<and>
     ch_handle_hello be_buf_ops \<lparr>sock_ip = V4 1, sock_port = 1\<rparr> requesting_channel = Ok req1 \<and>
     ch_handle_start be_buf_ops \<lparr>sock_ip = V4 2, sock_port = 2\<rparr> 7 acc1 = Ok acc2 \<and> ch_handle_ack req1 = Ok req2 \<and>
     ch_state acc2 = ChConnected \<lparr>sock_ip = V4 2, sock_port = 2\<rparr> 7 \<and>
     ch_state req2 = ChConnected \<lparr>sock_ip = V4 1, sock_port = 1\<rparr> 7 \<and>
     emitted acc2 = frame_bytes (Hello \<lparr>sock_ip = V4 1, sock_port = 1\<rparr>) @ frame_bytes Ack \<and>
     emitted req2 = frame_bytes (StartFrame \<lparr>sock_ip = V4 2, sock_port = 2\<rparr> 7)"
proof -
  note defs = accepting_channel_def requesting_channel_def channel_new_def
  have ok: "queue_ok accepting_channel" "queue_ok requesting_channel"
    "ch_state accepting_channel = Initialising" "ch_state requesting_channel = Requested \<lparr>sock_ip = V4 1, sock_port = 1\<rparr> 7"
    "\<not> nodelay_refused (ch_stream accepting_channel)" "\<not> nodelay_refused (ch_stream requesting_channel)"
    by (simp_all add: defs queue_ok_def)
  have "emitted accepting_channel = []" "emitted requesting_channel = []"
    "own_addr accepting_channel = \<lparr>sock_ip = V4 1, sock_port = 1\<rparr>" "own_addr requesting_channel = \<lparr>sock_ip = V4 2, sock_port = 2\<rparr>"
    by (simp_all add: defs emitted_def queue_bytes_def)
  with handshake_agrees [OF be_buf_ops_documented ok] show ?thesis by auto
qed

text \<open>
  A frame of which a part has been written stays at the front of the queue without that part.
  When the connection fails there, \<open>take_outbound\<close> hands the rest of that frame out as if it were
  a frame, and it does not start with a frame head.
\<close>

theorem partial_frame_is_requeued:
  assumes "bytes_documented ops" "0 < n" "n < length (frame_bytes f)"
    and "ch = channel_new \<lparr>write_outcomes = [Wrote n, WriteFails IoConnectionReset], read_outcomes = [],
           accepted = [], is_shutdown = False, nodelay_refused = False, pending_error = None\<rparr> tok addr b st own cfg nd
           \<lparr>outbound_queue := [SF_Bytes (frame_bytes f)]\<rparr>"
  shows "\<exists>ch'. try_drain ch = (Err IoConnectionReset, ch') \<and>
           fst (take_outbound ch') = [SF_Bytes (drop n (frame_bytes f))]"
  using assms(2,3)
  by (simp add: assms(4) try_drain_def channel_new_def drain_loop.simps write_serialized_def stream_write_def
      MAX_INTERRUPTS_def take_outbound_def Let_def)

end
