(* ===== verification/Net_Messages.thy ===== *)
theory Net_Messages
  imports Encode_Buffer Tcp_Channel
begin

section \<open>Network messages (\<open>core/src/messaging\<close>, \<open>core/src/serialisation/ser_helpers.rs\<close>)\<close>

text \<open>
  Messages between systems: their data, how they are serialised and framed into a lease, how a
  received frame is turned back into a message, and how a message that is forwarded is framed
  again. What a user's serialiser writes and returns is an argument. The lemmas show that the
  receiver gets the message that was sent, and for which messages forwarding keeps them.
\<close>

subsection \<open>Data\<close>

text \<open>
  A \<open>Serialisable\<close>: its id and size hint, the slices its \<open>serialise\<close> writes before it returns
  an error or not, and the value its \<open>local\<close> gives, if any.
\<close>

record 'v serialisable =
  s_ser_id :: u64
  s_size_hint :: "nat option"
  s_slices :: "u8 list list"
  s_error :: "ser_error option"
  s_local :: "'v option"

datatype 'v heap_or_ser =
  HS_Boxed "'v serialisable" | HS_Serialised "u8 list" | HS_ChunkLease chunk_lease | HS_ChunkRef chunk_ref

record 'v net_data =
  nd_ser_id :: u64
  nd_data :: "'v heap_or_ser"

record 'v net_message =
  nm_sender :: actor_path
  nm_receiver :: actor_path
  nm_data :: "'v net_data"
  nm_session :: "uuid option"

definition net_message_with :: "u64 \<Rightarrow> actor_path \<Rightarrow> actor_path \<Rightarrow> 'v heap_or_ser \<Rightarrow> 'v net_message" where
  "net_message_with sid src dst d =
     \<lparr>nm_sender = src, nm_receiver = dst, nm_data = \<lparr>nd_ser_id = sid, nd_data = d\<rparr>, nm_session = None\<rparr>"

definition with_box :: "u64 \<Rightarrow> actor_path \<Rightarrow> actor_path \<Rightarrow> 'v serialisable \<Rightarrow> 'v net_message" where
  "with_box sid src dst b = net_message_with sid src dst (HS_Boxed b)"

definition with_bytes :: "u64 \<Rightarrow> actor_path \<Rightarrow> actor_path \<Rightarrow> u8 list \<Rightarrow> 'v net_message" where
  "with_bytes sid src dst bs = net_message_with sid src dst (HS_Serialised bs)"

definition with_chunk_lease :: "u64 \<Rightarrow> actor_path \<Rightarrow> actor_path \<Rightarrow> chunk_lease \<Rightarrow> 'v net_message" where
  "with_chunk_lease sid src dst l = net_message_with sid src dst (HS_ChunkLease l)"

definition with_chunk_ref :: "u64 \<Rightarrow> actor_path \<Rightarrow> actor_path \<Rightarrow> chunk_ref \<Rightarrow> 'v net_message" where
  "with_chunk_ref sid src dst r = net_message_with sid src dst (HS_ChunkRef r)"

definition set_session :: "uuid \<Rightarrow> 'v net_message \<Rightarrow> 'v net_message" where
  "set_session sid m = m\<lparr>nm_session := Some sid\<rparr>"

subsection \<open>Unpacking\<close>

datatype ('m, 'v) unpack_error = NoIdMatch 'm | NoCast 'v | DeserError ser_error

text \<open>
  A deserialiser for a type is its id and its function on the readable bytes; the cast of a
  local value to the type is an argument.
\<close>

record 't deserialiser =
  d_ser_id :: u64
  d_deserialise :: "u8 list \<Rightarrow> ('t, ser_error) rresult"

fun of_deser :: "('t, ser_error) rresult \<Rightarrow> ('t, ('m, 'v) unpack_error) rresult" where
  "of_deser (Ok t) = Ok t" | "of_deser (Err e) = Err (DeserError e)" | "of_deser Panic = Panic"

fun data_try_deserialise_unchecked ::
    "('v \<Rightarrow> 't option) \<Rightarrow> 't deserialiser \<Rightarrow> 'v net_data \<Rightarrow> ('t, ('v net_data, 'v) unpack_error) rresult" where
  "data_try_deserialise_unchecked downcast D nd =
     (case nd_data nd of
        HS_Boxed b \<Rightarrow>
          (case s_local b of
             None \<Rightarrow> Err (DeserError (Unknown ''can not be converted to local''))
           | Some v \<Rightarrow> (case downcast v of Some t \<Rightarrow> Ok t | None \<Rightarrow> Err (NoCast v)))
      | HS_Serialised bs \<Rightarrow> of_deser (d_deserialise D bs)
      | HS_ChunkLease l \<Rightarrow> of_deser (d_deserialise D (lease_unread l))
      | HS_ChunkRef r \<Rightarrow> of_deser (d_deserialise D (ref_unread r)))"

definition data_try_deserialise ::
    "('v \<Rightarrow> 't option) \<Rightarrow> 't deserialiser \<Rightarrow> 'v net_data \<Rightarrow> ('t, ('v net_data, 'v) unpack_error) rresult" where
  "data_try_deserialise downcast D nd =
     (if nd_ser_id nd = d_ser_id D then data_try_deserialise_unchecked downcast D nd else Err (NoIdMatch nd))"

fun wrap_unpack :: "'v net_message \<Rightarrow> ('t, ('v net_data, 'v) unpack_error) rresult \<Rightarrow> ('t, ('v net_message, 'v) unpack_error) rresult" where
  "wrap_unpack m (Ok t) = Ok t"
| "wrap_unpack m (Err (NoIdMatch nd)) = Err (NoIdMatch (m\<lparr>nm_data := nd\<rparr>))"
| "wrap_unpack m (Err (NoCast v)) = Err (NoCast v)"
| "wrap_unpack m (Err (DeserError e)) = Err (DeserError e)"
| "wrap_unpack m Panic = Panic"

definition try_deserialise ::
    "('v \<Rightarrow> 't option) \<Rightarrow> 't deserialiser \<Rightarrow> 'v net_message \<Rightarrow> ('t, ('v net_message, 'v) unpack_error) rresult" where
  "try_deserialise downcast D m =
     (if nd_ser_id (nm_data m) = d_ser_id D
      then wrap_unpack m (data_try_deserialise_unchecked downcast D (nm_data m)) else Err (NoIdMatch m))"

text \<open>The sender and receiver come with the value.\<close>

definition try_into_deserialised ::
    "('v \<Rightarrow> 't option) \<Rightarrow> 't deserialiser \<Rightarrow> 'v net_message
      \<Rightarrow> (actor_path \<times> actor_path \<times> 't, ('v net_message, 'v) unpack_error) rresult" where
  "try_into_deserialised downcast D m =
     (case wrap_unpack m (data_try_deserialise downcast D (nm_data m)) of
        Ok t \<Rightarrow> Ok (nm_sender m, nm_receiver m, t)
      | Err e \<Rightarrow> Err e
      | Panic \<Rightarrow> Panic)"

text \<open>\<open>try_clone\<close> serialises a boxed value and copies a lease; a reference is shared.\<close>

definition data_try_clone :: "'v heap_or_ser \<Rightarrow> ('v heap_or_ser, ser_error) rresult option" where
  "data_try_clone d =
     (case d of
        HS_Boxed b \<Rightarrow> Some (case s_error b of Some e \<Rightarrow> Err e | None \<Rightarrow> Ok (HS_Serialised (concat (s_slices b))))
      | HS_Serialised bs \<Rightarrow> Some (Ok (HS_Serialised bs))
      | HS_ChunkLease l \<Rightarrow>
          map_option (\<lambda>r. rbind (expect_ok r) (\<lambda>bs. Ok (HS_Serialised bs))) (create_byte_clone l)
      | HS_ChunkRef r \<Rightarrow> Some (Ok (HS_ChunkRef r)))"

definition message_try_clone :: "'v net_message \<Rightarrow> ('v net_message, ser_error) rresult option" where
  "message_try_clone m =
     map_option (\<lambda>r. rbind r (\<lambda>d. Ok (m\<lparr>nm_data := \<lparr>nd_ser_id = nd_ser_id (nm_data m), nd_data = d\<rparr>\<rparr>)))
       (data_try_clone (nd_data (nm_data m)))"

subsection \<open>Serialising into an encoder\<close>

text \<open>
  The steps of a serialisation change the encoder and can fail; \<open>?\<close> returns with the encoder as
  it is. \<open>None\<close> is a step that does not end.
\<close>

type_synonym 'a step = "buffer_encoder \<Rightarrow> (('a, ser_error) rresult \<times> buffer_encoder) option"

definition andthen :: "'a step \<Rightarrow> ('a \<Rightarrow> 'b step) \<Rightarrow> 'b step" where
  "andthen m f = (\<lambda>e.
     case m e of
       None \<Rightarrow> None
     | Some (Ok a, e') \<Rightarrow> f a e'
     | Some (Err er, e') \<Rightarrow> Some (Err er, e')
     | Some (Panic, e') \<Rightarrow> Some (Panic, e'))"

definition yield :: "('a, ser_error) rresult \<Rightarrow> 'a step" where
  "yield r = (\<lambda>e. Some (r, e))"

definition do_put :: "(lock \<Rightarrow> nat) \<Rightarrow> u8 list \<Rightarrow> unit step" where
  "do_put others bs = (\<lambda>e.
     case put_slice others bs e of
       None \<Rightarrow> None
     | Some (Ok e') \<Rightarrow> Some (Ok (), e')
     | Some (Err er) \<Rightarrow> Some (Err er, e)
     | Some Panic \<Rightarrow> Some (Panic, e))"

definition do_pad :: "(lock \<Rightarrow> nat) \<Rightarrow> nat \<Rightarrow> unit step" where
  "do_pad others n = (\<lambda>e.
     case pad others n e of Ok e' \<Rightarrow> Some (Ok (), e') | Err er \<Rightarrow> Some (Err er, e) | Panic \<Rightarrow> Some (Panic, e))"

definition do_reserve :: "(lock \<Rightarrow> nat) \<Rightarrow> nat \<Rightarrow> unit step" where
  "do_reserve others n = (\<lambda>e. Some (enc_try_reserve others n e))"

definition do_lease :: "chunk_lease step" where
  "do_lease = (\<lambda>e. Some (enc_get_chunk_lease e))"

text \<open>A path that can not be serialised leaves nothing here; the source leaves its first bytes, which are dropped.\<close>

definition do_path :: "(lock \<Rightarrow> nat) \<Rightarrow> buf_ops \<Rightarrow> actor_path \<Rightarrow> unit step" where
  "do_path others ops p = andthen (yield (actor_path_serialise ops p)) (do_put others)"

fun do_slices :: "(lock \<Rightarrow> nat) \<Rightarrow> u8 list list \<Rightarrow> unit step" where
  "do_slices others [] = yield (Ok ())"
| "do_slices others (s # ss) = andthen (do_put others s) (\<lambda>_. do_slices others ss)"

definition do_msg :: "(lock \<Rightarrow> nat) \<Rightarrow> 'v serialisable \<Rightarrow> unit step" where
  "do_msg others m =
     andthen (do_slices others (s_slices m)) (\<lambda>_. yield (case s_error m of None \<Rightarrow> Ok () | Some er \<Rightarrow> Err er))"

definition hint :: "nat option \<Rightarrow> nat" where
  "hint h = (case h of Some n \<Rightarrow> n | None \<Rightarrow> 0)"

text \<open>The frame head is written over the padding, with the length of what follows.\<close>

definition frame_lease :: "buf_ops \<Rightarrow> nat \<Rightarrow> chunk_lease \<Rightarrow> (chunk_lease, ser_error) rresult" where
  "frame_lease ops len l = expect_ok (insert_head ops \<lparr>head_type = FT_Data, content_length = len\<rparr> l)"

definition serialise_msg ::
    "(lock \<Rightarrow> nat) \<Rightarrow> buf_ops \<Rightarrow> actor_path \<Rightarrow> actor_path \<Rightarrow> 'v serialisable \<Rightarrow> chunk_lease step" where
  "serialise_msg others ops src dst msg =
     andthen (do_reserve others (hint (s_size_hint msg) + hint (actor_path_size_hint src) +
                hint (actor_path_size_hint dst) + FRAME_HEAD_LEN)) (\<lambda>_.
     andthen (do_pad others FRAME_HEAD_LEN) (\<lambda>_.
     andthen (do_path others ops src) (\<lambda>_.
     andthen (do_path others ops dst) (\<lambda>_.
     andthen (do_put others (op_put_u64 ops (s_ser_id msg))) (\<lambda>_.
     andthen (do_msg others msg) (\<lambda>_.
     andthen do_lease (\<lambda>l.
       (let len = capacity l - FRAME_HEAD_LEN
        in yield (rbind (frame_lease ops len l) (\<lambda>l'.
             if capacity l' = len + FRAME_HEAD_LEN then Ok l' else Panic))))))))))"

definition preserialise_msg ::
    "(lock \<Rightarrow> nat) \<Rightarrow> buf_ops \<Rightarrow> lock \<Rightarrow> 'v serialisable \<Rightarrow> chunk_ref step" where
  "preserialise_msg others ops fresh msg =
     andthen (case s_size_hint msg of Some h \<Rightarrow> do_reserve others h | None \<Rightarrow> yield (Ok ())) (\<lambda>_.
     andthen (do_put others (op_put_u64 ops (s_ser_id msg))) (\<lambda>_.
     andthen (do_msg others msg) (\<lambda>_.
     andthen do_lease (\<lambda>l. yield (expect_ok (into_chunk_ref fresh l))))))"

definition serialise_msg_with_preserialised ::
    "(lock \<Rightarrow> nat) \<Rightarrow> buf_ops \<Rightarrow> lock \<Rightarrow> actor_path \<Rightarrow> actor_path \<Rightarrow> chunk_ref \<Rightarrow> chunk_ref step" where
  "serialise_msg_with_preserialised others ops fresh src dst cont =
     andthen (do_pad others FRAME_HEAD_LEN) (\<lambda>_.
     andthen (do_path others ops src) (\<lambda>_.
     andthen (do_path others ops dst) (\<lambda>_.
     andthen do_lease (\<lambda>header.
       yield (rbind (frame_lease ops (capacity header + ref_capacity cont - FRAME_HEAD_LEN) header) (\<lambda>header.
         expect_ok (into_chunk_ref_with_tail fresh header cont)))))))"

text \<open>Framing a header in front of content that is already serialised.\<close>

definition embed_tail :: "buf_ops \<Rightarrow> lock \<Rightarrow> nat \<Rightarrow> (chunk_ref, unit) rresult \<Rightarrow> chunk_lease \<Rightarrow> (chunk_ref, ser_error) rresult" where
  "embed_tail ops fresh tail_capacity tail header =
     (let frame_len = capacity header - FRAME_HEAD_LEN + tail_capacity
      in rbind (frame_lease ops frame_len header) (\<lambda>header.
         rbind (expect_ok tail) (\<lambda>t.
         rbind (expect_ok (into_chunk_ref_with_tail fresh header t)) (\<lambda>r.
           if ref_capacity r = frame_len + FRAME_HEAD_LEN then Ok r else Panic))))"

definition embed_rest :: "buf_ops \<Rightarrow> lock \<Rightarrow> chunk_ref step" where
  "embed_rest ops fresh =
     andthen do_lease (\<lambda>l.
       (let len = capacity l - FRAME_HEAD_LEN
        in yield (rbind (frame_lease ops len l) (\<lambda>l'.
             if capacity l' = len + FRAME_HEAD_LEN then expect_ok (into_chunk_ref fresh l') else Panic))))"

definition embed_msg :: "(lock \<Rightarrow> nat) \<Rightarrow> buf_ops \<Rightarrow> lock \<Rightarrow> 'v net_message \<Rightarrow> chunk_ref step" where
  "embed_msg others ops fresh m =
     andthen (do_pad others FRAME_HEAD_LEN) (\<lambda>_.
     andthen (do_path others ops (nm_sender m)) (\<lambda>_.
     andthen (do_path others ops (nm_receiver m)) (\<lambda>_.
     andthen (do_put others (op_put_u64 ops (nd_ser_id (nm_data m)))) (\<lambda>_.
       case nd_data (nm_data m) of
         HS_Boxed b \<Rightarrow> andthen (do_msg others b) (\<lambda>_. embed_rest ops fresh)
       | HS_Serialised bs \<Rightarrow> andthen (do_put others bs) (\<lambda>_. embed_rest ops fresh)
       | HS_ChunkLease l \<Rightarrow>
           andthen do_lease (\<lambda>header. yield (embed_tail ops fresh (capacity l) (into_chunk_ref fresh l) header))
       | HS_ChunkRef r \<Rightarrow>
           andthen do_lease (\<lambda>header. yield (embed_tail ops fresh (ref_capacity r) (Ok r) header))))))"

subsection \<open>Deserialising\<close>

definition read_envelope ::
    "bool \<Rightarrow> buf_ops \<Rightarrow> u8 list \<Rightarrow> ((actor_path \<times> actor_path \<times> u64) \<times> u8 list, ser_error) rresult" where
  "read_envelope dbg ops bs =
     rbind (actor_path_deserialise dbg ops bs) (\<lambda>(src, b1).
     rbind (actor_path_deserialise dbg ops b1) (\<lambda>(dst, b2).
     rbind (or_panic (op_get_u64 ops b2)) (\<lambda>(sid, b3). Ok ((src, dst, sid), b3))))"

definition deserialise_chunk_lease ::
    "bool \<Rightarrow> buf_ops \<Rightarrow> lock \<Rightarrow> chunk_lease \<Rightarrow> ('v net_message, ser_error) rresult" where
  "deserialise_chunk_lease dbg ops fresh l =
     rbind (read_envelope dbg ops (lease_unread l)) (\<lambda>((src, dst, sid), rest).
     rbind (expect_ok (into_chunk_ref fresh (lease_advance (length (lease_unread l) - length rest) l))) (\<lambda>r.
       Ok (with_chunk_ref sid src dst r)))"

definition deserialise_chunk_ref :: "bool \<Rightarrow> buf_ops \<Rightarrow> chunk_ref \<Rightarrow> ('v net_message, ser_error) rresult" where
  "deserialise_chunk_ref dbg ops r =
     rbind (read_envelope dbg ops (ref_unread r)) (\<lambda>((src, dst, sid), rest).
       Ok (with_chunk_ref sid src dst (ref_advance (length (ref_unread r) - length rest) r)))"

definition deserialise_bytes :: "bool \<Rightarrow> buf_ops \<Rightarrow> u8 list \<Rightarrow> ('v net_message, ser_error) rresult" where
  "deserialise_bytes dbg ops bs =
     rbind (read_envelope dbg ops bs) (\<lambda>((src, dst, sid), rest). Ok (with_bytes sid src dst rest))"

subsection \<open>Data for the dispatcher (\<open>dispatch.rs\<close>)\<close>

datatype 'v dispatch_data =
  DD_Lazy "'v serialisable" actor_path actor_path | DD_Serialised serialised_frame | DD_NetMessage "'v net_message"

fun into_local :: "bool \<Rightarrow> buf_ops \<Rightarrow> lock \<Rightarrow> 'v dispatch_data \<Rightarrow> ('v net_message, ser_error) rresult" where
  "into_local dbg ops fresh (DD_Lazy ser src dst) = Ok (with_box (s_ser_id ser) src dst ser)"
| "into_local dbg ops fresh (DD_Serialised (SF_ChunkLease l)) =
     expect_ok (deserialise_chunk_lease dbg ops fresh (lease_advance FRAME_HEAD_LEN l))"
| "into_local dbg ops fresh (DD_Serialised (SF_ChunkRef r)) =
     expect_ok (deserialise_chunk_ref dbg ops (ref_advance FRAME_HEAD_LEN r))"
| "into_local dbg ops fresh (DD_Serialised (SF_Bytes bs)) =
     (if length bs < FRAME_HEAD_LEN then Panic else expect_ok (deserialise_bytes dbg ops (drop FRAME_HEAD_LEN bs)))"
| "into_local dbg ops fresh (DD_NetMessage m) = Ok m"

fun into_serialised :: "(lock \<Rightarrow> nat) \<Rightarrow> buf_ops \<Rightarrow> lock \<Rightarrow> 'v dispatch_data \<Rightarrow> serialised_frame step" where
  "into_serialised others ops fresh (DD_Lazy ser src dst) =
     andthen (serialise_msg others ops src dst ser) (\<lambda>l. yield (Ok (SF_ChunkLease l)))"
| "into_serialised others ops fresh (DD_Serialised f) = yield (Ok f)"
| "into_serialised others ops fresh (DD_NetMessage m) =
     andthen (embed_msg others ops fresh m) (\<lambda>r. yield (Ok (SF_ChunkRef r)))"

subsection \<open>Contracts of steps\<close>

text \<open>
  A step ends without a panic; when it succeeds the postcondition holds, and when it fails, the encoder can
  still be dropped.
\<close>

definition triple :: "(buffer_encoder \<Rightarrow> bool) \<Rightarrow> 'a step \<Rightarrow> ('a \<Rightarrow> buffer_encoder \<Rightarrow> bool) \<Rightarrow> bool" where
  "triple P m Q \<longleftrightarrow>
     (\<forall>e. P e \<longrightarrow> (\<exists>r e'. m e = Some (r, e') \<and>
        (case r of Ok a \<Rightarrow> Q a e' | Err _ \<Rightarrow> eb_aligned (encoder_drop e') | Panic \<Rightarrow> False)))"

lemma triple_andthen:
  assumes "triple P m Q" "\<And>a. triple (Q a) (f a) R"
  shows "triple P (andthen m f) R"
  unfolding triple_def
proof (intro allI impI)
  fix e assume "P e"
  then obtain r e' where m: "m e = Some (r, e')"
    "case r of Ok a \<Rightarrow> Q a e' | Err _ \<Rightarrow> eb_aligned (encoder_drop e') | Panic \<Rightarrow> False"
    using assms(1) unfolding triple_def by blast
  show "\<exists>r e'. andthen m f e = Some (r, e') \<and>
      (case r of Ok a \<Rightarrow> R a e' | Err _ \<Rightarrow> eb_aligned (encoder_drop e') | Panic \<Rightarrow> False)"
  proof (cases r)
    case (Ok a)
    then show ?thesis using m assms(2) [of a] by (simp add: andthen_def triple_def)
  qed (use m in \<open>simp_all add: andthen_def\<close>)
qed

lemma triple_yield:
  "(\<And>e. P e \<Longrightarrow> case r of Ok a \<Rightarrow> Q a e | Err _ \<Rightarrow> eb_aligned (encoder_drop e) | Panic \<Rightarrow> False) \<Longrightarrow> triple P (yield r) Q"
  by (simp add: triple_def yield_def)

lemma triple_ex: "(\<And>x. triple (P x) m Q) \<Longrightarrow> triple (\<lambda>e. \<exists>x. P x e) m Q"
  unfolding triple_def by blast

lemma triple_conj: "(A \<Longrightarrow> triple P m Q) \<Longrightarrow> triple (\<lambda>e. A \<and> P e) m Q"
  unfolding triple_def by blast

lemma enc_inv_aligned: "enc_inv bs e \<Longrightarrow> eb_aligned (encoder_drop e)"
  by (simp add: enc_inv_def)

lemma triple_put: "triple (enc_inv bs) (do_put others src) (\<lambda>_. enc_inv (bs @ src))"
  by (auto simp: triple_def do_put_def dest: put_slice_inv [where others = others and src = src])

lemma triple_pad:
  "triple (enc_inv bs) (do_pad others FRAME_HEAD_LEN) (\<lambda>_ e. \<exists>junk. length junk = FRAME_HEAD_LEN \<and> enc_inv (bs @ junk) e)"
  unfolding triple_def
proof (intro allI impI)
  fix e assume "enc_inv bs e"
  from pad_inv [OF this order.refl, of others] obtain e' junk
    where "pad others FRAME_HEAD_LEN e = Ok e'" "length junk = FRAME_HEAD_LEN" "enc_inv (bs @ junk) e'" by blast
  then show "\<exists>r e'. do_pad others FRAME_HEAD_LEN e = Some (r, e') \<and>
      (case r of Ok a \<Rightarrow> \<exists>junk. length junk = FRAME_HEAD_LEN \<and> enc_inv (bs @ junk) e'
       | Err _ \<Rightarrow> eb_aligned (encoder_drop e') | Panic \<Rightarrow> False)"
    by (auto simp: do_pad_def)
qed

lemma triple_reserve:
  "triple (\<lambda>e. enc_inv bs e \<and> en_ser_error e = None) (do_reserve others n) (\<lambda>_. enc_inv bs)"
  unfolding triple_def
proof (intro allI impI)
  fix e assume "enc_inv bs e \<and> en_ser_error e = None"
  then obtain r e' where "enc_try_reserve others n e = (r, e')" "r \<noteq> Panic" "enc_inv bs e'"
    using enc_try_reserve_inv [of bs e others n] by blast
  then show "\<exists>r e'. do_reserve others n e = Some (r, e') \<and>
      (case r of Ok a \<Rightarrow> enc_inv bs e' | Err _ \<Rightarrow> eb_aligned (encoder_drop e') | Panic \<Rightarrow> False)"
    by (cases r) (auto simp: do_reserve_def enc_inv_aligned)
qed

lemma triple_path:
  assumes "actor_path_serialise ops p = Ok pb"
  shows "triple (enc_inv bs) (do_path others ops p) (\<lambda>_. enc_inv (bs @ pb))"
  unfolding do_path_def assms
  by (rule triple_andthen [where Q = "\<lambda>a e. a = pb \<and> enc_inv bs e"])
    (auto intro: triple_yield triple_conj triple_put)

lemma triple_slices: "triple (enc_inv bs) (do_slices others ss) (\<lambda>_. enc_inv (bs @ concat ss))"
proof (induction ss arbitrary: bs)
  case (Cons x ss)
  have "triple (enc_inv (bs @ x)) (do_slices others ss) (\<lambda>_. enc_inv (bs @ concat (x # ss)))"
    using Cons [of "bs @ x"] by simp
  then show ?case by (simp del: concat.simps) (rule triple_andthen [OF triple_put])
qed (simp add: triple_yield)

lemma triple_msg:
  "triple (enc_inv bs) (do_msg others m) (\<lambda>_ e. s_error m = None \<and> enc_inv (bs @ concat (s_slices m)) e)"
  unfolding do_msg_def
  by (rule triple_andthen [OF triple_slices])
    (auto intro!: triple_yield simp: enc_inv_aligned split: option.splits)

definition leases :: "u8 list \<Rightarrow> chunk_lease \<Rightarrow> bool" where
  "leases bs l \<longleftrightarrow> lease_wf l \<and> read_pointer l = 0 \<and> map snd (lease_cells l) = bs"

lemma leases_capacity: "leases bs l \<Longrightarrow> capacity l = length bs"
  using length_cells [of l] by (auto simp: leases_def capacity_def)

lemma leases_unread: "leases bs l \<Longrightarrow> lease_valid l \<and> lease_unread l = bs"
  by (auto simp: leases_def lease_valid_def lease_unread_def)

lemma triple_lease: "triple (enc_inv bs) do_lease (\<lambda>l e. eb_aligned (encoder_drop e) \<and> leases bs l)"
  unfolding triple_def
proof (intro allI impI)
  fix e assume inv: "enc_inv bs e"
  show "\<exists>r e'. do_lease e = Some (r, e') \<and> (case r of Ok l \<Rightarrow> eb_aligned (encoder_drop e') \<and> leases bs l
      | Err _ \<Rightarrow> eb_aligned (encoder_drop e') | Panic \<Rightarrow> False)"
  proof (cases "en_ser_error e")
    case None
    with inv have "enc_ok e" "enc_bytes e = bs" by (simp_all add: enc_inv_def)
    with enc_get_chunk_lease_spec [OF this(1) None] show ?thesis
      by (auto simp: do_lease_def leases_def encoder_drop_aligned split: if_splits)
  next
    case (Some er)
    then have "enc_get_chunk_lease e = (Err er, e\<lparr>en_ser_error := None\<rparr>)" by (simp add: enc_get_chunk_lease_def)
    moreover have "encoder_drop (e\<lparr>en_ser_error := None\<rparr>) = encoder_drop e" by (simp add: encoder_drop_def)
    ultimately show ?thesis using inv by (simp add: do_lease_def enc_inv_def)
  qed
qed

subsection \<open>Envelopes\<close>

text \<open>The paths that survive the wire format.\<close>

definition wire_path :: "actor_path \<Rightarrow> bool" where
  "wire_path p \<longleftrightarrow> (\<exists>ip. address (ap_system p) = V4 ip) \<and>
     (case p of
        Unique _ \<Rightarrow> True
      | Named np \<Rightarrow> np_path np \<noteq> [] \<and> validate_lookup_path (np_path np) = Ok () \<and>
          length (join_with PATH_SEP (np_path np)) < 2 ^ 16)"

definition path_bytes :: "buf_ops \<Rightarrow> actor_path \<Rightarrow> u8 list" where
  "path_bytes ops p = (case actor_path_serialise ops p of Ok bs \<Rightarrow> bs | _ \<Rightarrow> [])"

definition envelope :: "buf_ops \<Rightarrow> actor_path \<Rightarrow> actor_path \<Rightarrow> u64 \<Rightarrow> u8 list \<Rightarrow> u8 list" where
  "envelope ops src dst sid data = path_bytes ops src @ path_bytes ops dst @ op_put_u64 ops sid @ data"

lemma wire_path_bytes:
  assumes "bytes_documented ops" "wire_path p"
  shows "actor_path_serialise ops p = Ok (path_bytes ops p) \<and> actor_path_deserialise dbg ops (path_bytes ops p @ rest) = Ok (p, rest)"
proof -
  note api = bytes_api.intro [OF assms(1)]
  obtain ip where ip: "address (ap_system p) = V4 ip" using assms(2) by (auto simp: wire_path_def)
  show ?thesis
  proof (cases p)
    case (Unique up)
    then show ?thesis
      using bytes_api.unique_round_trip_V4 [OF api, of up ip dbg rest] ip by (auto simp: path_bytes_def)
  next
    case (Named np)
    then show ?thesis
      using bytes_api.named_decode [OF api, of np ip dbg rest] ip assms(2)
      by (auto simp: path_bytes_def wire_path_def named_round_trip_name named_with_system_def)
  qed
qed

lemma read_envelope_spec:
  assumes "bytes_documented ops" "wire_path src" "wire_path dst"
  shows "read_envelope dbg ops (envelope ops src dst sid data) = Ok ((src, dst, sid), data)"
  using wire_path_bytes [OF assms(1,2)] wire_path_bytes [OF assms(1,3)] bytes_api.get_put_u64 [OF bytes_api.intro [OF assms(1)]]
  by (simp add: read_envelope_def envelope_def)

lemma envelope_length: "length data \<le> length (envelope ops src dst sid data)"
  by (simp add: envelope_def)

lemma envelope_split: "\<exists>pre. envelope ops src dst sid data = pre @ data"
  by (simp add: envelope_def)

lemma deserialise_chunk_lease_spec:
  assumes "bytes_documented ops" "wire_path src" "wire_path dst"
    and "lease_valid p" "lease_unread p = envelope ops src dst sid data"
  shows "\<exists>cr. deserialise_chunk_lease dbg ops fresh p = Ok (with_chunk_ref sid src dst cr) \<and> ref_valid cr \<and>
    ref_read_pointer cr = 0 \<and> ref_unread cr = data"
proof -
  let ?k = "length (lease_unread p) - length data"
  obtain pre where pre: "lease_unread p = pre @ data" "?k = length pre"
    using envelope_split [of ops src dst sid data] assms(5) by auto
  have adv: "lease_valid (lease_advance ?k p)" "lease_unread (lease_advance ?k p) = data"
    using lease_buf.advance_valid [OF assms(4), of ?k] lease_buf.advance_unread [OF assms(4), of ?k] pre by simp_all
  then obtain cr where cr: "into_chunk_ref fresh (lease_advance ?k p) = Ok cr" "ref_wf cr" "ref_read_pointer cr = 0"
    "ref_cells cr = drop (read_pointer (lease_advance ?k p)) (lease_cells (lease_advance ?k p))"
    using into_chunk_ref_spec [of "lease_advance ?k p" fresh] by (auto simp: lease_valid_def)
  have "ref_unread cr = lease_unread (lease_advance ?k p)" using cr(3,4) by (simp add: ref_unread_def lease_unread_def drop_map)
  then show ?thesis unfolding deserialise_chunk_lease_def
    using cr adv(2) read_envelope_spec [OF assms(1-3), of dbg sid data] assms(5)
    by (intro exI [of _ cr]) (simp add: ref_valid_def)
qed

lemma frame_lease_spec:
  assumes "bytes_documented ops" "leases (junk @ body) l" "length junk = FRAME_HEAD_LEN"
  shows "\<exists>l'. frame_lease ops len l = Ok l' \<and> leases (head_bytes \<lparr>head_type = FT_Data, content_length = len\<rparr> @ body) l' \<and>
    capacity l' = capacity l"
proof -
  have l: "lease_wf l" "FRAME_HEAD_LEN \<le> chain_len l"
    using assms(2,3) length_cells [of l] by (auto simp: leases_def dest: arg_cong [where f = length])
  from insert_head_spec [OF assms(1) this, of "\<lparr>head_type = FT_Data, content_length = len\<rparr>"] assms(2,3)
  show ?thesis by (auto simp: frame_lease_def leases_def capacity_def)
qed

text \<open>The bytes of the data frame of an envelope.\<close>

definition data_frame_bytes :: "u8 list \<Rightarrow> u8 list" where
  "data_frame_bytes env = head_bytes \<lparr>head_type = FT_Data, content_length = length env\<rparr> @ env"

lemma data_frame_bytes_frame:
  "leases env p \<Longrightarrow> frame_bytes (DataFrame p) = data_frame_bytes env"
  using leases_capacity [of env p] leases_unread [of env p]
  by (auto simp: frame_bytes_def data_frame_bytes_def data_encoded_len_def leases_def)

lemma frame_whole_lease:
  assumes "bytes_documented ops" "leases (junk @ env) l" "length junk = FRAME_HEAD_LEN"
  shows "\<exists>l'. frame_lease ops (capacity l - FRAME_HEAD_LEN) l = Ok l' \<and> leases (data_frame_bytes env) l' \<and>
    capacity l' = capacity l - FRAME_HEAD_LEN + FRAME_HEAD_LEN"
  using frame_lease_spec [OF assms, of "capacity l - FRAME_HEAD_LEN"] leases_capacity [OF assms(2)] assms(3)
  by (auto simp: data_frame_bytes_def)

lemma triple_frame:
  assumes "bytes_documented ops" "length junk = FRAME_HEAD_LEN"
  shows "triple (enc_inv (junk @ env)) (andthen do_lease (\<lambda>l.
      (let len = capacity l - FRAME_HEAD_LEN
       in yield (rbind (frame_lease ops len l) (\<lambda>l'. if capacity l' = len + FRAME_HEAD_LEN then Ok l' else Panic)))))
    (\<lambda>l e. eb_aligned (encoder_drop e) \<and> leases (data_frame_bytes env) l)"
  unfolding Let_def
  by (rule triple_andthen [OF triple_lease], rule triple_yield) (use frame_whole_lease [OF assms(1) _ assms(2)] in fastforce)

lemma triple_padded:
  "(\<And>junk. length junk = FRAME_HEAD_LEN \<Longrightarrow> triple (enc_inv junk) m Q) \<Longrightarrow>
     triple (\<lambda>e. \<exists>junk. length junk = FRAME_HEAD_LEN \<and> enc_inv ([] @ junk) e) m Q"
  by (auto intro!: triple_ex triple_conj)

lemma serialise_msg_triple:
  assumes "bytes_documented ops" "wire_path src" "wire_path dst"
  shows "triple (\<lambda>e. enc_inv [] e \<and> en_ser_error e = None) (serialise_msg others ops src dst msg)
    (\<lambda>l e. eb_aligned (encoder_drop e) \<and>
       leases (data_frame_bytes (envelope ops src dst (s_ser_id msg) (concat (s_slices msg)))) l)"
proof -
  let ?env = "envelope ops src dst (s_ser_id msg) (concat (s_slices msg))"
  note paths = wire_path_bytes [OF assms(1,2), THEN conjunct1] wire_path_bytes [OF assms(1,3), THEN conjunct1]
  show ?thesis unfolding serialise_msg_def
    apply (rule triple_andthen [OF triple_reserve], rule triple_andthen [OF triple_pad], rule triple_padded)
    apply (rule triple_andthen [OF triple_path [OF paths(1)]], rule triple_andthen [OF triple_path [OF paths(2)]],
        rule triple_andthen [OF triple_put], rule triple_andthen [OF triple_msg], rule triple_conj)
    using triple_frame [OF assms(1), of _ ?env] by (simp add: envelope_def)
qed

subsection \<open>Messages that fit\<close>

text \<open>With enough room in the current chunk every step succeeds.\<close>

definition total :: "(buffer_encoder \<Rightarrow> bool) \<Rightarrow> 'a step \<Rightarrow> ('a \<Rightarrow> buffer_encoder \<Rightarrow> bool) \<Rightarrow> bool" where
  "total P m Q \<longleftrightarrow> (\<forall>e. P e \<longrightarrow> (\<exists>a e'. m e = Some (Ok a, e') \<and> Q a e'))"

definition has_room :: "u8 list \<Rightarrow> nat \<Rightarrow> buffer_encoder \<Rightarrow> bool" where
  "has_room bs k e \<longleftrightarrow> enc_ok e \<and> en_ser_error e = None \<and> enc_bytes e = bs \<and> k \<le> eb_writeable_len (encode_buffer e)"

lemma total_andthen:
  assumes "total P m Q" "\<And>a. total (Q a) (f a) R"
  shows "total P (andthen m f) R"
  unfolding total_def
proof (intro allI impI)
  fix e assume "P e"
  then obtain a e' where "m e = Some (Ok a, e')" "Q a e'" using assms(1) unfolding total_def by blast
  then show "\<exists>a e'. andthen m f e = Some (Ok a, e') \<and> R a e'"
    using assms(2) [of a] by (simp add: andthen_def total_def)
qed

lemma total_yield: "(\<And>e. P e \<Longrightarrow> \<exists>a. r = Ok a \<and> Q a e) \<Longrightarrow> total P (yield r) Q"
  by (auto simp: total_def yield_def)

lemma total_ex: "(\<And>x. A x \<Longrightarrow> total (P x) m Q) \<Longrightarrow> total (\<lambda>e. \<exists>x. A x \<and> P x e) m Q"
  unfolding total_def by blast

lemma total_conj: "(A \<Longrightarrow> total P m Q) \<Longrightarrow> total (\<lambda>e. A \<and> P e) m Q"
  unfolding total_def by blast

lemma put_slice_fits:
  assumes "has_room bs (length src + k) e"
  shows "\<exists>e'. put_slice others src e = Some (Ok e') \<and> has_room (bs @ src) k e'"
proof (cases "src = []")
  case True
  then show ?thesis using assms by (simp add: put_slice_def put_slice_loop_stops)
next
  case False
  have e: "enc_ok e" "en_ser_error e = None" "length src \<le> eb_writeable_len (encode_buffer e)"
    using assms by (simp_all add: has_room_def)
  obtain e1 where e1: "advance_mut others (length src) (store_bytes src e) = Ok e1" "enc_ok e1" "enc_bytes e1 = enc_bytes e @ src"
    "en_ser_error e1 = None" "eb_writeable_len (encode_buffer e1) = eb_writeable_len (encode_buffer e) - length src"
    using store_advance [OF e, of others] by auto
  have "put_slice others src e = put_slice_loop others src (length src) e1"
    unfolding put_slice_def using False e e1(1)
    by (subst put_slice_loop.simps) (simp add: Let_def min_absorb2)
  then show ?thesis using e1 assms by (auto simp: put_slice_loop_stops has_room_def)
qed

lemma total_put: "total (has_room bs (length src + k)) (do_put others src) (\<lambda>_. has_room (bs @ src) k)"
  by (auto simp: total_def do_put_def dest: put_slice_fits [where others = others])

lemma total_path:
  assumes "actor_path_serialise ops p = Ok pb"
  shows "total (has_room bs (length pb + k)) (do_path others ops p) (\<lambda>_. has_room (bs @ pb) k)"
  unfolding do_path_def assms
  by (rule total_andthen [where Q = "\<lambda>a e. a = pb \<and> has_room bs (length pb + k) e"])
    (auto intro: total_yield total_conj total_put)

lemma total_slices: "total (has_room bs (length (concat ss) + k)) (do_slices others ss) (\<lambda>_. has_room (bs @ concat ss) k)"
proof (induction ss arbitrary: bs)
  case (Cons x ss)
  have "total (has_room (bs @ x) (length (concat ss) + k)) (do_slices others ss) (\<lambda>_. has_room (bs @ concat (x # ss)) k)"
    using Cons [of "bs @ x"] by simp
  then show ?case
    using total_andthen [OF total_put [of bs x "length (concat ss) + k"]] by (simp add: add.assoc)
qed (simp add: total_yield)

lemma total_pad:
  "total (has_room bs (FRAME_HEAD_LEN + k)) (do_pad others FRAME_HEAD_LEN)
     (\<lambda>_ e. \<exists>junk. length junk = FRAME_HEAD_LEN \<and> has_room (bs @ junk) k e)"
  unfolding total_def
proof (intro allI impI)
  fix e assume room: "has_room bs (FRAME_HEAD_LEN + k) e"
  then have e: "enc_ok e" "FRAME_HEAD_LEN \<le> eb_writeable_len (encode_buffer e)" by (simp_all add: has_room_def)
  let ?e = "set_enc_write (eb_write_offset (encode_buffer e) + FRAME_HEAD_LEN) e"
  have "pad others FRAME_HEAD_LEN e = Ok ?e"
    using room e(2) by (simp add: pad_def advance_mut_def has_room_def Let_def)
  moreover have "eb_writeable_len (encode_buffer ?e) = eb_writeable_len (encode_buffer e) - FRAME_HEAD_LEN"
    by (simp add: set_enc_write_def eb_writeable_len_def)
  ultimately show "\<exists>a e'. do_pad others FRAME_HEAD_LEN e = Some (Ok a, e') \<and>
      (\<exists>junk. length junk = FRAME_HEAD_LEN \<and> has_room (bs @ junk) k e')"
    using advance_in_chunk [OF e] room by (auto simp: do_pad_def has_room_def)
qed

lemma total_lease: "total (has_room (b # bs) 0) do_lease (\<lambda>l e. leases (b # bs) l)"
  unfolding total_def has_room_def do_lease_def
  using enc_get_chunk_lease_spec by (fastforce simp: leases_def)

lemma total_reserve: "n < k \<Longrightarrow> total (has_room bs k) (do_reserve others n) (\<lambda>_. has_room bs k)"
  by (auto simp: total_def do_reserve_def enc_try_reserve_def Let_def has_room_def eb_writeable_len_def)

lemma serialise_msg_total:
  assumes "bytes_documented ops" "wire_path src" "wire_path dst" "s_error msg = None"
    and "k = length (data_frame_bytes (envelope ops src dst (s_ser_id msg) (concat (s_slices msg))))"
    and "hint (s_size_hint msg) + hint (actor_path_size_hint src) + hint (actor_path_size_hint dst) + FRAME_HEAD_LEN < k + j"
  shows "total (has_room [] (k + j)) (serialise_msg others ops src dst msg) (\<lambda>_ _. True)"
proof -
  note paths = wire_path_bytes [OF assms(1,2), THEN conjunct1] wire_path_bytes [OF assms(1,3), THEN conjunct1]
  have fin: "total (\<lambda>e. leases (junk @ env) l)
      (let len = capacity l - FRAME_HEAD_LEN in yield (rbind (frame_lease ops len l) (\<lambda>l'. if capacity l' = len + FRAME_HEAD_LEN then Ok l' else Panic)))
      (\<lambda>_ _. True)" if "length junk = FRAME_HEAD_LEN" for junk env l
    unfolding Let_def by (rule total_yield) (use frame_whole_lease [OF assms(1) _ that] in fastforce)
  have lease: "total (has_room (junk @ env) j) do_lease (\<lambda>l e. leases (junk @ env) l)" if "length junk = FRAME_HEAD_LEN" for junk env
    using that total_lease by (cases junk) (auto simp: FRAME_HEAD_LEN_def total_def has_room_def)
  have msg: "total (has_room bs (length (concat (s_slices msg)) + j)) (do_msg others msg) (\<lambda>_. has_room (bs @ concat (s_slices msg)) j)" for bs
    unfolding do_msg_def assms(4) by (rule total_andthen [OF total_slices]) (simp add: total_yield)
  have len: "k + j = FRAME_HEAD_LEN + (length (path_bytes ops src) + (length (path_bytes ops dst) +
      (length (op_put_u64 ops (s_ser_id msg)) + (length (concat (s_slices msg)) + j))))"
    by (simp add: assms(5) data_frame_bytes_def envelope_def)
  show ?thesis unfolding serialise_msg_def
    apply (rule total_andthen [OF total_reserve [OF assms(6)]])
    unfolding len
    apply (rule total_andthen [OF total_pad], rule total_ex)
    apply (rule total_andthen [OF total_path [OF paths(1)]], rule total_andthen [OF total_path [OF paths(2)]],
        rule total_andthen [OF total_put], rule total_andthen [OF msg])
    unfolding append.assoc append_Nil
    by (rule total_andthen [OF lease fin])
qed

subsection \<open>Forwarded messages\<close>

definition refers :: "u8 list \<Rightarrow> chunk_ref \<Rightarrow> bool" where
  "refers bs r \<longleftrightarrow> ref_wf r \<and> ref_read_pointer r = 0 \<and> map snd (ref_cells r) = bs"

lemma ref_cells_length: "ref_wf r \<Longrightarrow> length (ref_cells r) = ref_chain_len r"
  by (induction r rule: ref_cells.induct) (auto split: option.splits)

lemma refers_unread: "refers bs r \<Longrightarrow> ref_valid r \<and> ref_unread r = bs"
  by (auto simp: refers_def ref_valid_def ref_unread_def)

lemma leases_into_ref: "leases bs l \<Longrightarrow> \<exists>r. into_chunk_ref fresh l = Ok r \<and> refers bs r"
  using into_chunk_ref_spec [of l fresh] by (auto simp: leases_def refers_def)

lemma refers_append: "refers bs r \<Longrightarrow> ref_wf t \<Longrightarrow> refers (bs @ map snd (ref_cells t)) (ref_append_to_chain r t)"
  by (auto simp: refers_def)

text \<open>What the forwarded frame carries: for a reference all of its bytes, read or not.\<close>

fun forwarded :: "'v heap_or_ser \<Rightarrow> u8 list" where
  "forwarded (HS_Boxed b) = concat (s_slices b)"
| "forwarded (HS_Serialised bs) = bs"
| "forwarded (HS_ChunkLease l) = lease_unread l"
| "forwarded (HS_ChunkRef r) = map snd (ref_cells r)"

fun forwardable :: "'v heap_or_ser \<Rightarrow> bool" where
  "forwardable (HS_Boxed b) \<longleftrightarrow> True"
| "forwardable (HS_Serialised bs) \<longleftrightarrow> True"
| "forwardable (HS_ChunkLease l) \<longleftrightarrow> lease_wf l \<and> read_pointer l = 0"
| "forwardable (HS_ChunkRef r) \<longleftrightarrow> ref_wf r"

lemma embed_tail_spec:
  assumes "bytes_documented ops" "leases (junk @ body) header" "length junk = FRAME_HEAD_LEN"
    and "t = Ok r" "ref_wf r" "n = ref_chain_len r"
  shows "\<exists>r'. embed_tail ops fresh n t header = Ok r' \<and> refers (data_frame_bytes (body @ map snd (ref_cells r))) r'"
proof -
  let ?len = "capacity header - FRAME_HEAD_LEN + n"
  have cap: "?len = length (body @ map snd (ref_cells r))"
    using leases_capacity [OF assms(2)] assms(3,5,6) ref_cells_length [of r] by simp
  obtain h where h: "frame_lease ops ?len header = Ok h"
    "leases (head_bytes \<lparr>head_type = FT_Data, content_length = ?len\<rparr> @ body) h"
    using frame_lease_spec [OF assms(1-3), of ?len] by auto
  obtain hr where hr: "into_chunk_ref fresh h = Ok hr" "refers (head_bytes \<lparr>head_type = FT_Data, content_length = ?len\<rparr> @ body) hr"
    using leases_into_ref [OF h(2), of fresh] by blast
  have res: "refers (data_frame_bytes (body @ map snd (ref_cells r))) (ref_append_to_chain hr r)"
    using refers_append [OF hr(2) assms(5)] unfolding cap by (simp add: data_frame_bytes_def)
  have "ref_capacity (ref_append_to_chain hr r) = ?len + FRAME_HEAD_LEN"
    using res ref_cells_length [of "ref_append_to_chain hr r"] unfolding cap
    by (auto simp: refers_def ref_capacity_def data_frame_bytes_def dest!: arg_cong [where f = length])
  then show ?thesis using h(1) hr(1) res assms(4)
    by (simp add: embed_tail_def into_chunk_ref_with_tail_def)
qed

lemma embed_rest_triple:
  assumes "bytes_documented ops" "length junk = FRAME_HEAD_LEN"
  shows "triple (enc_inv (junk @ body)) (embed_rest ops fresh) (\<lambda>r e. eb_aligned (encoder_drop e) \<and> refers (data_frame_bytes body) r)"
  unfolding embed_rest_def
proof (rule triple_andthen [OF triple_lease], unfold Let_def, rule triple_yield, elim conjE)
  fix l e assume al: "eb_aligned (encoder_drop e)" and l: "leases (junk @ body) l"
  obtain h where h: "frame_lease ops (capacity l - FRAME_HEAD_LEN) l = Ok h" "leases (data_frame_bytes body) h"
    "capacity h = capacity l - FRAME_HEAD_LEN + FRAME_HEAD_LEN"
    using frame_whole_lease [OF assms(1) l assms(2)] by blast
  then show "case rbind (frame_lease ops (capacity l - FRAME_HEAD_LEN) l) (\<lambda>l'.
        if capacity l' = capacity l - FRAME_HEAD_LEN + FRAME_HEAD_LEN then expect_ok (into_chunk_ref fresh l') else Panic) of
      Ok r \<Rightarrow> eb_aligned (encoder_drop e) \<and> refers (data_frame_bytes body) r
    | Err _ \<Rightarrow> eb_aligned (encoder_drop e) | Panic \<Rightarrow> False"
    using leases_into_ref [OF h(2), of fresh] al by auto
qed

lemma embed_tail_triple:
  assumes "bytes_documented ops" "length junk = FRAME_HEAD_LEN" "t = Ok r" "ref_wf r" "n = ref_chain_len r"
  shows "triple (enc_inv (junk @ body)) (andthen do_lease (\<lambda>header. yield (embed_tail ops fresh n t header)))
    (\<lambda>r' e. eb_aligned (encoder_drop e) \<and> refers (data_frame_bytes (body @ map snd (ref_cells r))) r')"
proof (rule triple_andthen [OF triple_lease], rule triple_yield, elim conjE)
  fix header e assume al: "eb_aligned (encoder_drop e)" and h: "leases (junk @ body) header"
  from embed_tail_spec [OF assms(1) h assms(2-5), of fresh] al
  show "case embed_tail ops fresh n t header of
      Ok r' \<Rightarrow> eb_aligned (encoder_drop e) \<and> refers (data_frame_bytes (body @ map snd (ref_cells r))) r'
    | Err _ \<Rightarrow> eb_aligned (encoder_drop e) | Panic \<Rightarrow> False" by auto
qed

lemma embed_body_triple:
  assumes "bytes_documented ops" "length junk = FRAME_HEAD_LEN" "forwardable d"
  shows "triple (enc_inv (junk @ body))
      (case d of
         HS_Boxed b \<Rightarrow> andthen (do_msg others b) (\<lambda>_. embed_rest ops fresh)
       | HS_Serialised bs \<Rightarrow> andthen (do_put others bs) (\<lambda>_. embed_rest ops fresh)
       | HS_ChunkLease l \<Rightarrow>
           andthen do_lease (\<lambda>header. yield (embed_tail ops fresh (capacity l) (into_chunk_ref fresh l) header))
       | HS_ChunkRef r \<Rightarrow>
           andthen do_lease (\<lambda>header. yield (embed_tail ops fresh (ref_capacity r) (Ok r) header)))
      (\<lambda>r e. eb_aligned (encoder_drop e) \<and> refers (data_frame_bytes (body @ forwarded d)) r)"
proof (cases d)
  case (HS_Boxed b)
  then show ?thesis using embed_rest_triple [OF assms(1,2), of "body @ forwarded d" fresh]
    by (simp add: triple_andthen [OF triple_msg] triple_conj)
next
  case (HS_Serialised bs)
  then show ?thesis using embed_rest_triple [OF assms(1,2), of "body @ forwarded d" fresh]
      triple_andthen [OF triple_put [of "junk @ body"]] by simp
next
  case (HS_ChunkLease l)
  then have l: "leases (lease_unread l) l" using assms(3) by (simp add: leases_def lease_unread_def)
  obtain r where r: "into_chunk_ref fresh l = Ok r" "refers (lease_unread l) r" using leases_into_ref [OF l] by blast
  have "capacity l = ref_chain_len r"
    using leases_capacity [OF l] r(2) ref_cells_length [of r] by (auto simp: refers_def dest!: arg_cong [where f = length])
  then show ?thesis using embed_tail_triple [OF assms(1,2) r(1), of "capacity l" body fresh] r(2) HS_ChunkLease
    by (simp add: refers_def)
next
  case (HS_ChunkRef r)
  then show ?thesis using embed_tail_triple [OF assms(1,2) refl, of r "ref_capacity r" body fresh] assms(3)
    by (simp add: ref_capacity_def)
qed

lemma embed_msg_triple:
  assumes "bytes_documented ops" "wire_path (nm_sender m)" "wire_path (nm_receiver m)" "forwardable (nd_data (nm_data m))"
  shows "triple (enc_inv []) (embed_msg others ops fresh m) (\<lambda>r e. eb_aligned (encoder_drop e) \<and>
    refers (data_frame_bytes (envelope ops (nm_sender m) (nm_receiver m) (nd_ser_id (nm_data m)) (forwarded (nd_data (nm_data m))))) r)"
proof -
  note paths = wire_path_bytes [OF assms(1,2), THEN conjunct1] wire_path_bytes [OF assms(1,3), THEN conjunct1]
  show ?thesis unfolding embed_msg_def
    apply (rule triple_andthen [OF triple_pad], rule triple_padded)
    apply (rule triple_andthen [OF triple_path [OF paths(1)]], rule triple_andthen [OF triple_path [OF paths(2)]],
        rule triple_andthen [OF triple_put])
    using embed_body_triple [OF assms(1) _ assms(4), of _ "path_bytes ops (nm_sender m) @ path_bytes ops (nm_receiver m) @
      op_put_u64 ops (nd_ser_id (nm_data m))" others fresh] by (simp add: envelope_def)
qed

subsection \<open>What the receiver gets\<close>

lemma fresh_encoder:
  assumes "eb_aligned eb" "get_buffer_encoder others eb = (Ok e, eb1)"
  shows "enc_inv [] e" "en_ser_error e = None" "has_room [] (eb_writeable_len eb1) e" "encode_buffer e = eb1"
proof -
  have e: "e = \<lparr>encode_buffer = eb1, en_chain_head = None, en_ser_error = None\<rparr>" "eb_aligned eb1"
    using get_buffer_encoder_spec [OF assms] by auto
  then show "enc_inv [] e" "en_ser_error e = None" "has_room [] (eb_writeable_len eb1) e" "encode_buffer e = eb1"
    using encoder_new_spec [of eb1, OF e(2) [unfolded eb_aligned_def, THEN conjunct1] e(2) [unfolded eb_aligned_def, THEN conjunct2]]
    by (simp_all add: enc_inv_def has_room_def encoder_drop_aligned)
qed

lemma tripleD: "triple P m Q \<Longrightarrow> P e \<Longrightarrow> \<exists>r e'. m e = Some (r, e') \<and>
    (case r of Ok a \<Rightarrow> Q a e' | Err _ \<Rightarrow> eb_aligned (encoder_drop e') | Panic \<Rightarrow> False)"
  by (simp add: triple_def)

lemma drop_data_frame [simp]: "drop FRAME_HEAD_LEN (data_frame_bytes env) = env"
  by (simp add: data_frame_bytes_def)

text \<open>
  A data frame that announces the length of its content, and whose content is read as the
  message, whatever lease carries it.
\<close>

definition carries :: "bool \<Rightarrow> buf_ops \<Rightarrow> u64 \<Rightarrow> actor_path \<Rightarrow> actor_path \<Rightarrow> u8 list \<Rightarrow> u8 list \<Rightarrow> bool" where
  "carries dbg ops sid src dst data fr \<longleftrightarrow>
     head_decode_from ops fr =
       Ok (\<lparr>head_type = FT_Data, content_length = (length fr - FRAME_HEAD_LEN) mod 2 ^ 32\<rparr>, drop FRAME_HEAD_LEN fr) \<and>
     (\<forall>p fresh. lease_valid p \<and> lease_unread p = drop FRAME_HEAD_LEN fr \<longrightarrow>
        (\<exists>cr. (deserialise_chunk_lease dbg ops fresh p :: (unit net_message, ser_error) rresult) =
           Ok (with_chunk_ref sid src dst cr) \<and> ref_unread cr = data))"

lemma carries_data_frame:
  assumes "bytes_documented ops" "wire_path src" "wire_path dst"
  shows "carries dbg ops sid src dst data (data_frame_bytes (envelope ops src dst sid data))"
proof -
  let ?env = "envelope ops src dst sid data"
  have "head_decode_from ops (data_frame_bytes ?env) = Ok (\<lparr>head_type = FT_Data, content_length = length ?env mod 2 ^ 32\<rparr>, ?env)"
    using bytes_api.head_decode [OF bytes_api.intro [OF assms(1)], of "\<lparr>head_type = FT_Data, content_length = length ?env\<rparr>" ?env]
    by (simp add: data_frame_bytes_def)
  moreover have "length (data_frame_bytes ?env) - FRAME_HEAD_LEN = length ?env" by (simp add: data_frame_bytes_def)
  moreover have "\<exists>cr. (deserialise_chunk_lease dbg ops fresh p :: (unit net_message, ser_error) rresult) =
      Ok (with_chunk_ref sid src dst cr) \<and> ref_unread cr = data" if "lease_valid p" "lease_unread p = ?env" for p fresh
    using deserialise_chunk_lease_spec [OF assms that, of dbg fresh] by blast
  ultimately show ?thesis by (simp add: carries_def)
qed

text \<open>The room that serialising a message asks for, by its size hints and by its bytes.\<close>

definition fits :: "buf_ops \<Rightarrow> actor_path \<Rightarrow> actor_path \<Rightarrow> 'v serialisable \<Rightarrow> nat \<Rightarrow> bool" where
  "fits ops src dst msg room \<longleftrightarrow>
     hint (s_size_hint msg) + hint (actor_path_size_hint src) + hint (actor_path_size_hint dst) + FRAME_HEAD_LEN < room \<and>
     length (data_frame_bytes (envelope ops src dst (s_ser_id msg) (concat (s_slices msg)))) \<le> room"

text \<open>
  C2: A message that is serialised arrives: serialisation ends without a panic, and if it does not
  report an error, the lease is a data frame that announces the length of its content, and whatever
  lease carries this content at the other end, it is read as a message with the same sender, receiver and
  serialisation id, whose data are the bytes the message's own serialiser wrote. A message that
  fits into the room of the current chunk is serialised successfully.
\<close>

theorem message_round_trip:
  assumes "bytes_documented ops" "wire_path src" "wire_path dst"
    and "eb_aligned eb" "get_buffer_encoder others eb = (Ok e, eb1)"
  shows "\<exists>r e'. serialise_msg others ops src dst msg e = Some (r, e') \<and> eb_aligned (encoder_drop e') \<and>
    (case r of
       Ok l \<Rightarrow> lease_valid l \<and> carries dbg ops (s_ser_id msg) src dst (concat (s_slices msg)) (lease_unread l)
     | Err er \<Rightarrow> s_error msg \<noteq> None \<or> \<not> fits ops src dst msg (eb_writeable_len eb1)
     | Panic \<Rightarrow> False)"
proof -
  let ?env = "envelope ops src dst (s_ser_id msg) (concat (s_slices msg))"
  note e = fresh_encoder [OF assms(4,5)]
  obtain r e' where r: "serialise_msg others ops src dst msg e = Some (r, e')"
    "case r of Ok l \<Rightarrow> eb_aligned (encoder_drop e') \<and> leases (data_frame_bytes ?env) l | Err _ \<Rightarrow> eb_aligned (encoder_drop e') | Panic \<Rightarrow> False"
    using tripleD [OF serialise_msg_triple [OF assms(1-3), of others msg], of e] e(1,2) by auto
  show ?thesis
  proof (cases r)
    case (Ok l)
    then show ?thesis
      using r leases_unread [of "data_frame_bytes ?env" l] carries_data_frame [OF assms(1-3)] by auto
  next
    case (Err er)
    have False if fit: "s_error msg = None" "fits ops src dst msg (eb_writeable_len eb1)"
    proof -
      obtain j where "eb_writeable_len eb1 = length (data_frame_bytes ?env) + j"
        using fit(2) le_Suc_ex unfolding fits_def by blast
      then show False using serialise_msg_total [OF assms(1-3) fit(1) refl, of j others] fit(2) e(3) r(1) Err
        by (auto simp: total_def fits_def)
    qed
    then show ?thesis using r Err by auto
  qed (use r in auto)
qed

definition sample_message :: "unit serialisable" where
  "sample_message = \<lparr>s_ser_id = 42, s_size_hint = Some 3, s_slices = [[1, 2], [3]], s_error = None, s_local = None\<rparr>"

definition sample_path :: actor_path where
  "sample_path = Unique \<lparr>up_system = sample_system, up_id = 7\<rparr>"

definition big_encode_buffer :: encode_buffer where
  "big_encode_buffer = \<lparr>eb_buffer = from_chunk (replicate 80 0) 0,
     eb_pool = \<lparr>pool = [], pool_size = 1, alloc_chunk = replicate 80 0, next_lock = 1, pool_chunk_size = 80, max_pool_size = 1\<rparr>,
     eb_write_offset = 0, eb_read_offset = 0, eb_dispatcher_ref = False, eb_min_remaining = 64\<rparr>"

lemma sample_path_facts:
  "wire_path sample_path" "actor_path_size_hint sample_path = Some 23" "length (path_bytes be_buf_ops sample_path) = 23"
proof -
  have a: "address (ap_system sample_path) = V4 0x7F000001" by (simp add: sample_path_def sample_system_def)
  then show w: "wire_path sample_path" by (simp add: wire_path_def) (simp add: sample_path_def)
  show h: "actor_path_size_hint sample_path = Some 23"
    by (simp add: sample_path_def actor_path_size_hint_def system_path_size_hint_def sample_system_def)
  show "length (path_bytes be_buf_ops sample_path) = 23"
    using be.unique_round_trip_V4 [of "\<lparr>up_system = sample_system, up_id = 7\<rparr>" "0x7F000001" True "[]"] h
    by (auto simp: path_bytes_def sample_path_def sample_system_def)
qed

theorem message_round_trip_witness:
  "\<exists>e l e' cr. get_buffer_encoder (\<lambda>_. 1) big_encode_buffer = (Ok e, big_encode_buffer) \<and>
     serialise_msg (\<lambda>_. 1) be_buf_ops sample_path sample_path sample_message e = Some (Ok l, e') \<and>
     deserialise_chunk_lease True be_buf_ops 9 (lease_new (drop FRAME_HEAD_LEN (lease_unread l)) 8) =
       Ok (with_chunk_ref 42 sample_path sample_path cr :: unit net_message) \<and> ref_unread cr = [1, 2, 3]"
proof -
  let ?e = "\<lparr>encode_buffer = big_encode_buffer, en_chain_head = None, en_ser_error = None\<rparr>"
  have enc: "get_buffer_encoder (\<lambda>_. 1) big_encode_buffer = (Ok ?e, big_encode_buffer)"
    by (simp add: get_buffer_encoder_def big_encode_buffer_def eb_writeable_len_def from_chunk_def encoder_new_def)
  have al: "eb_aligned big_encode_buffer"
    by (simp add: eb_aligned_def eb_ok_def big_encode_buffer_def from_chunk_def pool_ok_def roomy_def FRAME_HEAD_LEN_def)
  have room: "eb_writeable_len big_encode_buffer = 80" by (simp add: big_encode_buffer_def eb_writeable_len_def from_chunk_def)
  have len: "length (data_frame_bytes (envelope be_buf_ops sample_path sample_path 42 [1, 2, 3])) = 66"
    by (simp add: data_frame_bytes_def envelope_def FRAME_HEAD_LEN_def sample_path_facts)
  have fit: "s_error sample_message = None" "fits be_buf_ops sample_path sample_path sample_message 80"
    by (simp_all add: fits_def hint_def sample_path_facts) (simp_all add: sample_message_def len FRAME_HEAD_LEN_def)
  have new: "lease_valid (lease_new bs x)" "lease_unread (lease_new bs x) = bs" for bs x
    by (simp_all add: lease_valid_def lease_unread_def comp_def)
  from message_round_trip [OF be_buf_ops_documented sample_path_facts(1) sample_path_facts(1) al enc, of sample_message True]
  obtain r e' where r: "serialise_msg (\<lambda>_. 1) be_buf_ops sample_path sample_path sample_message ?e = Some (r, e')"
    "case r of
       Ok l \<Rightarrow> lease_valid l \<and> carries True be_buf_ops (s_ser_id sample_message) sample_path sample_path (concat (s_slices sample_message)) (lease_unread l)
     | Err er \<Rightarrow> s_error sample_message \<noteq> None \<or> \<not> fits be_buf_ops sample_path sample_path sample_message (eb_writeable_len big_encode_buffer)
     | Panic \<Rightarrow> False" by (elim exE conjE)
  then obtain l where l: "serialise_msg (\<lambda>_. 1) be_buf_ops sample_path sample_path sample_message ?e = Some (Ok l, e')"
    "carries True be_buf_ops (s_ser_id sample_message) sample_path sample_path (concat (s_slices sample_message)) (lease_unread l)"
    using fit room by (cases r) auto
  moreover have "s_ser_id sample_message = 42" "concat (s_slices sample_message) = [1, 2, 3]" by (simp_all add: sample_message_def)
  ultimately obtain cr where "(deserialise_chunk_lease True be_buf_ops 9 (lease_new (drop FRAME_HEAD_LEN (lease_unread l)) 8)
      :: (unit net_message, ser_error) rresult) = Ok (with_chunk_ref 42 sample_path sample_path cr)" "ref_unread cr = [1, 2, 3]"
    using new unfolding carries_def by metis
  with l(1) enc show ?thesis by blast
qed

fun content_of :: "'v heap_or_ser \<Rightarrow> u8 list" where
  "content_of (HS_Boxed b) = concat (s_slices b)"
| "content_of (HS_Serialised bs) = bs"
| "content_of (HS_ChunkLease l) = lease_unread l"
| "content_of (HS_ChunkRef r) = ref_unread r"

lemma embed_msg_carries:
  assumes "bytes_documented ops" "wire_path (nm_sender m)" "wire_path (nm_receiver m)" "forwardable (nd_data (nm_data m))"
    and "eb_aligned eb" "get_buffer_encoder others eb = (Ok e, eb1)"
  shows "\<exists>r e'. embed_msg others ops fresh m e = Some (r, e') \<and> eb_aligned (encoder_drop e') \<and>
    (case r of
       Ok cr \<Rightarrow> ref_valid cr \<and>
         carries dbg ops (nd_ser_id (nm_data m)) (nm_sender m) (nm_receiver m) (forwarded (nd_data (nm_data m))) (ref_unread cr)
     | Err er \<Rightarrow> True | Panic \<Rightarrow> False)"
proof -
  let ?env = "envelope ops (nm_sender m) (nm_receiver m) (nd_ser_id (nm_data m)) (forwarded (nd_data (nm_data m)))"
  obtain r e' where r: "embed_msg others ops fresh m e = Some (r, e')"
    "case r of Ok cr \<Rightarrow> eb_aligned (encoder_drop e') \<and> refers (data_frame_bytes ?env) cr | Err _ \<Rightarrow> eb_aligned (encoder_drop e') | Panic \<Rightarrow> False"
    using tripleD [OF embed_msg_triple [OF assms(1-4), of others fresh] fresh_encoder(1) [OF assms(5,6)]] by blast
  then show ?thesis
    using refers_unread [of "data_frame_bytes ?env"] carries_data_frame [OF assms(1-3)]
    by (cases r) auto
qed



text \<open>
  A message that reached its actor locally as a preserialised frame keeps a reference to the
  whole frame with an advanced read pointer. Forwarding it ignores the pointer: the receiver of the
  forwarded message reads the complete old frame, with its head, paths and id, as the data.
\<close>

theorem forwarding_repeats_frame:
  fixes data :: "u8 list" and m :: "'v net_message"
  assumes "bytes_documented ops" "wire_path src" "wire_path dst"
    and "refers (data_frame_bytes (envelope ops src dst sid data)) r0"
    and "into_local dbg ops fresh (DD_Serialised (SF_ChunkRef r0)) = Ok m"
    and "eb_aligned eb" "get_buffer_encoder others eb = (Ok e, eb1)"
  shows "content_of (nd_data (nm_data m)) = data \<and>
    (\<exists>r e'. embed_msg others ops fresh m e = Some (r, e') \<and>
       (case r of
          Ok cr \<Rightarrow> carries dbg ops sid src dst (data_frame_bytes (envelope ops src dst sid data)) (ref_unread cr)
        | Err er \<Rightarrow> True | Panic \<Rightarrow> False))"
proof -
  let ?env = "envelope ops src dst sid data"
  let ?r1 = "ref_advance FRAME_HEAD_LEN r0"
  have un: "ref_unread (ref_advance k r0) = drop k (data_frame_bytes ?env)" "ref_wf (ref_advance k r0)"
      "map snd (ref_cells (ref_advance k r0)) = data_frame_bytes ?env" for k
    using assms(4) by (cases r0; simp add: refers_def ref_unread_def)+
  obtain pre where pre: "?env = pre @ data" using envelope_split by blast
  let ?k = "length (ref_unread ?r1) - length data"
  have adv: "ref_advance ?k ?r1 = ref_advance (FRAME_HEAD_LEN + ?k) r0" by (cases r0) (simp add: add.assoc)
  have m: "m = with_chunk_ref sid src dst (ref_advance (FRAME_HEAD_LEN + ?k) r0)"
    using assms(5) read_envelope_spec [OF assms(1-3), of dbg sid data] un(1) [of FRAME_HEAD_LEN] adv
    by (simp add: deserialise_chunk_ref_def)
  have "ref_unread (ref_advance (FRAME_HEAD_LEN + ?k) r0) = data"
  proof -
    have "drop (FRAME_HEAD_LEN + ?k) (data_frame_bytes ?env) = drop ?k ?env" by (metis add.commute drop_drop drop_data_frame)
    then show ?thesis using un(1) [of "FRAME_HEAD_LEN + ?k"] un(1) [of FRAME_HEAD_LEN] pre by simp
  qed
  then have c: "content_of (nd_data (nm_data m)) = data" "forwarded (nd_data (nm_data m)) = data_frame_bytes ?env"
    "nm_sender m = src" "nm_receiver m = dst" "nd_ser_id (nm_data m) = sid" "forwardable (nd_data (nm_data m))"
    using un by (simp_all add: m with_chunk_ref_def net_message_with_def)
  with embed_msg_carries [OF assms(1) _ _ c(6) assms(6,7), of fresh dbg] assms(2,3) show ?thesis
    by (fastforce split: rresult.splits)
qed

end
