(* ===== verification/Queue_Manager.thy ===== *)
theory Queue_Manager
  imports Actor_Paths
begin

section \<open>Outgoing queues (\<open>network/src/queue_manager.rs\<close>)\<close>

text \<open>
  The queues of messages that wait for a connection, one ordinary and one priority queue per
  destination, in two hash maps (association lists here). The locale states what the network
  dispatcher relies on; its client lemmas show that draining a destination delivers its
  messages in order and touches no other destination.
\<close>

record 'd queue_manager =
  q_inner :: "(socket_addr \<times> 'd list) list"
  priority_queue :: "(socket_addr \<times> 'd list) list"

definition queue_manager_new :: "'d queue_manager" where
  "queue_manager_new = \<lparr>q_inner = [], priority_queue = []\<rparr>"

text \<open>\<open>entry(dst).or_default().push_back(data)\<close>\<close>

definition push_entry :: "socket_addr \<Rightarrow> 'd \<Rightarrow> (socket_addr \<times> 'd list) list \<Rightarrow> (socket_addr \<times> 'd list) list" where
  "push_entry dst d m = AList.update dst ((case map_of m dst of Some q \<Rightarrow> q | None \<Rightarrow> []) @ [d]) m"

definition enqueue_data :: "'d \<Rightarrow> socket_addr \<Rightarrow> 'd queue_manager \<Rightarrow> 'd queue_manager" where
  "enqueue_data d dst m = m\<lparr>q_inner := push_entry dst d (q_inner m)\<rparr>"

definition enqueue_priority_data :: "'d \<Rightarrow> socket_addr \<Rightarrow> 'd queue_manager \<Rightarrow> 'd queue_manager" where
  "enqueue_priority_data d dst m = m\<lparr>priority_queue := push_entry dst d (priority_queue m)\<rparr>"

text \<open>\<open>get_mut(dst).and_then(pop_front)\<close>, and removal of the entry when nothing was popped.\<close>

definition pop_entry :: "socket_addr \<Rightarrow> (socket_addr \<times> 'd list) list \<Rightarrow> 'd option \<times> (socket_addr \<times> 'd list) list" where
  "pop_entry dst m =
     (case map_of m dst of
        Some (d # q) \<Rightarrow> (Some d, AList.update dst q m)
      | Some [] \<Rightarrow> (None, AList.delete dst m)
      | None \<Rightarrow> (None, m))"

definition pop_data :: "socket_addr \<Rightarrow> 'd queue_manager \<Rightarrow> 'd option \<times> 'd queue_manager" where
  "pop_data dst m =
     (let (res, prio) = pop_entry dst (priority_queue m);
          m1 = m\<lparr>priority_queue := prio\<rparr>
      in case res of
           Some d \<Rightarrow> (Some d, m1)
         | None \<Rightarrow> (let (res', inn) = pop_entry dst (q_inner m1) in (res', m1\<lparr>q_inner := inn\<rparr>)))"

definition drop_queue :: "socket_addr \<Rightarrow> 'd queue_manager \<Rightarrow> 'd queue_manager" where
  "drop_queue dst m = m\<lparr>priority_queue := AList.delete dst (priority_queue m), q_inner := AList.delete dst (q_inner m)\<rparr>"

definition has_data :: "socket_addr \<Rightarrow> 'd queue_manager \<Rightarrow> bool" where
  "has_data dst m \<longleftrightarrow>
     (case map_of (priority_queue m) dst of Some q \<Rightarrow> q \<noteq> [] | None \<Rightarrow> False) \<or>
     (case map_of (q_inner m) dst of Some q \<Rightarrow> q \<noteq> [] | None \<Rightarrow> False)"

text \<open>
  The dispatcher drains a destination with \<open>while let Some(frame) = pop_data(addr)\<close>. The number of
  iterations is an argument, \<open>None\<close> when it is not enough.
\<close>

fun drain_queue :: "('m \<Rightarrow> 'd option \<times> 'm) \<Rightarrow> nat \<Rightarrow> 'm \<Rightarrow> ('d list \<times> 'm) option" where
  "drain_queue pop 0 m = None"
| "drain_queue pop (Suc n) m =
     (case pop m of
        (Some d, m') \<Rightarrow> map_option (\<lambda>(ds, m''). (d # ds, m'')) (drain_queue pop n m')
      | (None, m') \<Rightarrow> Some ([], m'))"

subsection \<open>The interface\<close>

locale destination_queues =
  fixes contents :: "'m \<Rightarrow> 'a \<Rightarrow> 'd list"
    and enqueue :: "'d \<Rightarrow> 'a \<Rightarrow> 'm \<Rightarrow> 'm" and pop :: "'a \<Rightarrow> 'm \<Rightarrow> 'd option \<times> 'm"
    and clear :: "'a \<Rightarrow> 'm \<Rightarrow> 'm" and nonempty :: "'a \<Rightarrow> 'm \<Rightarrow> bool"
  assumes contents_enqueue: "contents (enqueue d a m) = (contents m)(a := contents m a @ [d])"
    and pop_result: "fst (pop a m) = (case contents m a of [] \<Rightarrow> None | d # _ \<Rightarrow> Some d)"
    and contents_pop: "contents (snd (pop a m)) = (contents m)(a := tl (contents m a))"
    and contents_clear: "contents (clear a m) = (contents m)(a := [])"
    and nonempty_contents: "nonempty a m \<longleftrightarrow> contents m a \<noteq> []"
begin

lemma contents_enqueues:
  "contents (fold (\<lambda>d. enqueue d a) ds m) = (contents m)(a := contents m a @ ds)"
  by (induction ds arbitrary: m) (auto simp: contents_enqueue)

lemma drain_delivers:
  "length (contents m a) < n \<Longrightarrow>
     \<exists>m'. drain_queue (pop a) n m = Some (contents m a, m') \<and> contents m' = (contents m)(a := [])"
proof (induction n arbitrary: m)
  case (Suc n)
  show ?case
  proof (cases "contents m a")
    case Nil
    then show ?thesis using pop_result [of a m] contents_pop [of a m] by (cases "pop a m") auto
  next
    case (Cons d ds)
    obtain m1 where m1: "pop a m = (Some d, m1)" using pop_result [of a m] Cons by (cases "pop a m") auto
    have c1: "contents m1 = (contents m)(a := ds)" using contents_pop [of a m] m1 Cons by simp
    have ds: "contents m1 a = ds" by (simp add: c1)
    then have "length (contents m1 a) < n" using Suc.prems Cons by simp
    then obtain m' where "drain_queue (pop a) n m1 = Some (ds, m')" "contents m' = (contents m1)(a := [])"
      using Suc.IH [of m1] unfolding ds by blast
    moreover have "(contents m1)(a := []) = (contents m)(a := [])" by (simp add: c1)
    ultimately show ?thesis using m1 Cons by (simp add: fun_upd_def)
  qed
qed simp

end

text \<open>What waits for a destination, in the order in which it will be sent.\<close>

definition queued :: "(socket_addr \<times> 'd list) list \<Rightarrow> socket_addr \<Rightarrow> 'd list" where
  "queued m dst = (case map_of m dst of Some q \<Rightarrow> q | None \<Rightarrow> [])"

definition pending :: "'d queue_manager \<Rightarrow> socket_addr \<Rightarrow> 'd list" where
  "pending m dst = queued (priority_queue m) dst @ queued (q_inner m) dst"

lemma queued_push [simp]: "queued (push_entry a d m) = (queued m)(a := queued m a @ [d])"
  by (auto simp: queued_def push_entry_def update_conv' fun_eq_iff)

lemma queued_delete [simp]: "queued (AList.delete a m) = (queued m)(a := [])"
  by (auto simp: queued_def delete_conv' fun_eq_iff)

lemma pop_entry_fst [simp]: "fst (pop_entry a m) = (case queued m a of [] \<Rightarrow> None | d # _ \<Rightarrow> Some d)"
  by (auto simp: queued_def pop_entry_def split: option.splits list.splits)

lemma pop_entry_snd [simp]: "queued (snd (pop_entry a m)) = (queued m)(a := tl (queued m a))"
  by (auto simp: queued_def pop_entry_def update_conv' delete_conv' fun_eq_iff split: option.splits list.splits)

lemma pop_data_fst: "fst (pop_data a m) = (case pending m a of [] \<Rightarrow> None | d # _ \<Rightarrow> Some d)"
  using pop_entry_fst [of a "priority_queue m"] pop_entry_fst [of a "q_inner m"]
  by (cases "pop_entry a (priority_queue m)"; cases "pop_entry a (q_inner m)")
    (auto simp: pop_data_def pending_def Let_def split: option.splits list.splits)

lemma pop_data_snd: "pending (snd (pop_data a m)) = (pending m)(a := tl (pending m a))"
  using pop_entry_fst [of a "priority_queue m"] pop_entry_snd [of a "priority_queue m"] pop_entry_snd [of a "q_inner m"]
  by (cases "pop_entry a (priority_queue m)"; cases "pop_entry a (q_inner m)")
    (auto simp: pop_data_def pending_def Let_def fun_eq_iff split: option.splits list.splits)

interpretation outgoing: destination_queues pending enqueue_data pop_data drop_queue has_data
proof
  fix m :: "'a queue_manager" and a d
  show "pending (enqueue_data d a m) = (pending m)(a := pending m a @ [d])"
    by (auto simp: pending_def enqueue_data_def fun_eq_iff)
  show "pending (drop_queue a m) = (pending m)(a := [])"
    by (auto simp: pending_def drop_queue_def fun_eq_iff)
  show "has_data a m \<longleftrightarrow> pending m a \<noteq> []"
    by (auto simp: pending_def has_data_def queued_def split: option.splits)
qed (simp_all add: pop_data_fst pop_data_snd)

text \<open>
  Messages for one destination leave in the order in which they were enqueued, each once,
  priority messages before the others; a drain loop ends and empties the queue; and no operation
  on one destination changes what waits for another.
\<close>

theorem queue_manager_fifo:
  fixes m :: "'d queue_manager"
  assumes "pending m a = []"
  shows "\<exists>m'. drain_queue (pop_data a) (Suc (length ps + length ds))
             (fold (\<lambda>d. enqueue_priority_data d a) ps (fold (\<lambda>d. enqueue_data d a) ds m)) = Some (ps @ ds, m') \<and>
           \<not> has_data a m' \<and> (\<forall>b. b \<noteq> a \<longrightarrow> pending m' b = pending m b)"
proof -
  have prio: "pending (fold (\<lambda>d. enqueue_priority_data d a) ps q)
      = (pending q)(a := queued (priority_queue q) a @ ps @ queued (q_inner q) a)" for q :: "'d queue_manager" and ps
  proof (induction ps arbitrary: q)
    case (Cons p ps)
    show ?case using Cons.IH [of "enqueue_priority_data p a q"]
      by (auto simp: enqueue_priority_data_def pending_def fun_eq_iff)
  qed (auto simp: pending_def)
  have ord: "queued (priority_queue (fold (\<lambda>d. enqueue_data d a) ds q)) a = queued (priority_queue q) a" for q :: "'d queue_manager"
    by (induction ds arbitrary: q) (auto simp: enqueue_data_def)
  let ?q = "fold (\<lambda>d. enqueue_data d a) ds m"
  have "pending ?q = (pending m)(a := ds)" "queued (priority_queue ?q) a = []"
    using assms ord [of m] by (simp_all add: outgoing.contents_enqueues) (simp add: pending_def)
  then have "queued (q_inner ?q) a = ds" by (simp add: pending_def [of ?q] fun_upd_def) (metis append_Nil fun_upd_apply pending_def)
  then have "pending (fold (\<lambda>d. enqueue_priority_data d a) ps ?q) = (pending m)(a := ps @ ds)"
    using prio [of ps ?q] \<open>queued (priority_queue ?q) a = []\<close> \<open>pending ?q = (pending m)(a := ds)\<close> by simp
  then show ?thesis
    using outgoing.drain_delivers [of "fold (\<lambda>d. enqueue_priority_data d a) ps ?q" a "Suc (length ps + length ds)"]
    by (auto simp: outgoing.nonempty_contents)
qed

theorem queue_manager_fifo_witness:
  "\<exists>m' :: nat queue_manager. drain_queue (pop_data \<lparr>sock_ip = V4 1, sock_port = 80\<rparr>) 4
       (fold (\<lambda>d. enqueue_priority_data d \<lparr>sock_ip = V4 1, sock_port = 80\<rparr>) [7]
         (fold (\<lambda>d. enqueue_data d \<lparr>sock_ip = V4 1, sock_port = 80\<rparr>) [5, 6] queue_manager_new)) = Some ([7, 5, 6], m')"
proof -
  have "pending (queue_manager_new :: nat queue_manager) \<lparr>sock_ip = V4 1, sock_port = 80\<rparr> = []"
    by (simp add: pending_def queued_def queue_manager_new_def)
  from queue_manager_fifo [OF this, of "[7]" "[5, 6]"] show ?thesis by (auto simp: eval_nat_numeral)
qed

end
