(* ===== verification/Path_Trie.thy ===== *)
theory Path_Trie
  imports Kompact_Prelude "HOL-Library.Multiset"
begin

section \<open>The path trie (\<open>core/src/dispatch/lookup/path_trie.rs\<close>)\<close>

text \<open>
  The trie that maps actor paths, as lists of segments, to entries: insertion (both
  variants), lookup, removal with its clean-up, \<open>retain\<close> and the stack machine of the
  \<open>Values\<close> iterator. A hash map of children is an association list, whose order stands for
  the iteration order of the hash map and which no result depends on. The lemmas show that the
  trie implements a finite map from paths to entries, that no empty node is left behind,
  and that \<open>retain\<close> and \<open>values\<close> visit every entry exactly once.
\<close>

subsection \<open>Data and operations\<close>

datatype 'v path_trie =
  PathTrie (trie_value: "'v option") (trie_children: "(string \<times> 'v path_trie) list")

definition trie_new :: "'v path_trie" where
  "trie_new = PathTrie None []"

definition trie_with_value :: "'v \<Rightarrow> 'v path_trie" where
  "trie_with_value v = PathTrie (Some v) []"

definition trie_is_leaf :: "'v path_trie \<Rightarrow> bool" where
  "trie_is_leaf t \<longleftrightarrow> trie_children t = []"

definition trie_is_empty :: "'v path_trie \<Rightarrow> bool" where
  "trie_is_empty t \<longleftrightarrow> trie_is_leaf t \<and> trie_value t = None"

fun insert_recursive :: "string list \<Rightarrow> 'v \<Rightarrow> 'v path_trie \<Rightarrow> 'v option \<times> 'v path_trie" where
  "insert_recursive (fragment # ks) v (PathTrie val ch) =
     (case map_of ch fragment of
        Some child \<Rightarrow>
          (let (result, child') = insert_recursive ks v child
           in (result, PathTrie val (AList.update fragment child' ch)))
      | None \<Rightarrow>
          (let (result, new_child) = insert_recursive ks v trie_new
           in (result, PathTrie val (AList.update fragment new_child ch))))"
| "insert_recursive [] v (PathTrie val ch) = (val, PathTrie (Some v) ch)"

definition trie_insert :: "string list \<Rightarrow> 'v \<Rightarrow> 'v path_trie \<Rightarrow> 'v option \<times> 'v path_trie" where
  "trie_insert key v t = insert_recursive key v t"

text \<open>
  \<open>insert_owned\<close> folds a mutable reference down the trie. The reference is a cursor: the
  node it points to, and for every step taken the fragment and the parent it came from, so
  that the change made at the end is written back through the parents.
\<close>

type_synonym 'v cursor =
  "'v path_trie \<times> (string \<times> 'v path_trie) list"

fun entry_or_insert :: "'v cursor \<Rightarrow> string \<Rightarrow> 'v cursor" where
  "entry_or_insert (node, parents) fragment =
     (case map_of (trie_children node) fragment of
        Some child \<Rightarrow> (child, (fragment, node) # parents)
      | None \<Rightarrow> (trie_new, (fragment, node) # parents))"

fun write_back :: "'v path_trie \<Rightarrow> (string \<times> 'v path_trie) list \<Rightarrow> 'v path_trie" where
  "write_back node [] = node"
| "write_back node ((fragment, parent) # parents) =
     write_back (PathTrie (trie_value parent) (AList.update fragment node (trie_children parent)))
       parents"

definition insert_owned :: "string list \<Rightarrow> 'v \<Rightarrow> 'v path_trie \<Rightarrow> 'v option \<times> 'v path_trie" where
  "insert_owned key v t =
     (let (key_node, parents) = foldl entry_or_insert (t, []) key in
      (trie_value key_node, write_back (PathTrie (Some v) (trie_children key_node)) parents))"

fun get_node :: "string list \<Rightarrow> 'v path_trie \<Rightarrow> 'v path_trie option" where
  "get_node [] current = Some current"
| "get_node (fragment # key) current =
     (case map_of (trie_children current) fragment of
        None \<Rightarrow> None
      | Some child \<Rightarrow> get_node key child)"

definition trie_get :: "string list \<Rightarrow> 'v path_trie \<Rightarrow> 'v option" where
  "trie_get key t = Option.bind (get_node key t) trie_value"

text \<open>
  \<open>remove_recursive\<close> yields whether the node is to be deleted, the node, and the value it
  swapped into \<open>result\<close>.
\<close>

fun remove_recursive ::
    "string list \<Rightarrow> 'v option \<Rightarrow> 'v path_trie \<Rightarrow> bool \<times> 'v option \<times> 'v path_trie" where
  "remove_recursive (fragment # ks) result (PathTrie val ch) =
     (let (delete_child, result', ch') =
        (case map_of ch fragment of
           Some child \<Rightarrow>
             (let (del, r, child') = remove_recursive ks result child
              in (del, r, AList.update fragment child' ch))
         | None \<Rightarrow> (False, result, ch));
        t = PathTrie val (if delete_child then AList.delete fragment ch' else ch')
      in (trie_is_empty t, result', t))"
| "remove_recursive [] result (PathTrie val ch) =
     (let t = PathTrie result ch in (trie_is_empty t, val, t))"

definition trie_remove :: "string list \<Rightarrow> 'v path_trie \<Rightarrow> 'v option \<times> 'v path_trie" where
  "trie_remove key t = (let (_, result, t') = remove_recursive key None t in (result, t'))"

text \<open>\<open>retain_recursive\<close> and the closure it passes to \<open>HashMap::retain\<close>, threading the count.\<close>

fun retain_recursive :: "('v \<Rightarrow> bool) \<Rightarrow> 'v path_trie \<Rightarrow> nat \<Rightarrow> bool \<times> 'v path_trie \<times> nat"
  and retain_children ::
    "('v \<Rightarrow> bool) \<Rightarrow> (string \<times> 'v path_trie) list \<Rightarrow> nat \<Rightarrow> (string \<times> 'v path_trie) list \<times> nat" where
  "retain_recursive cond (PathTrie val ch) cnt =
     (let (val', cnt1) =
        (case val of
           Some v \<Rightarrow> if \<not> cond v then (None, cnt + 1) else (val, cnt)
         | None \<Rightarrow> (val, cnt));
        (ch', cnt2) = retain_children cond ch cnt1;
        t = PathTrie val' ch'
      in (trie_is_empty t, t, cnt2))"
| "retain_children cond [] cnt = ([], cnt)"
| "retain_children cond ((k, child) # cs) cnt =
     (let (delete, child', cnt1) = retain_recursive cond child cnt;
        (cs', cnt2) = retain_children cond cs cnt1
      in (if \<not> delete then (k, child') # cs' else cs', cnt2))"

definition trie_retain :: "('v \<Rightarrow> bool) \<Rightarrow> 'v path_trie \<Rightarrow> nat \<times> 'v path_trie" where
  "trie_retain cond t = (let (_, t', cnt) = retain_recursive cond t 0 in (cnt, t'))"

subsection \<open>The \<open>Values\<close> iterator\<close>

type_synonym 'v stack_item = "(string \<times> 'v path_trie) list"

record 'v values_iter =
  vi_root :: "'v path_trie"
  vi_root_visited :: bool
  vi_stack :: "'v stack_item list"

definition trie_values :: "'v path_trie \<Rightarrow> 'v values_iter" where
  "trie_values t = \<lparr>vi_root = t, vi_root_visited = False, vi_stack = []\<rparr>"

fun trie_weight :: "'v path_trie \<Rightarrow> nat" and children_weight :: "(string \<times> 'v path_trie) list \<Rightarrow> nat" where
  "trie_weight (PathTrie v ch) = 2 + children_weight ch"
| "children_weight [] = 0"
| "children_weight ((k, c) # cs) = trie_weight c + children_weight cs"

lemma trie_weight_children [simp]: "trie_weight c = 2 + children_weight (trie_children c)"
  by (cases c) simp

text \<open>
  The \<open>loop\<close> of \<open>next\<close>. The stack is a \<open>Vec\<close> whose last item is the head of the list here.
\<close>

function values_loop :: "'v stack_item list \<Rightarrow> 'v option \<times> 'v stack_item list" where
  "values_loop [] = (None, [])"
| "values_loop ([] # stack) = values_loop stack"
| "values_loop (((k, child_node) # it) # stack) =
     (case trie_value child_node of
        Some v \<Rightarrow> (Some v, trie_children child_node # it # stack)
      | None \<Rightarrow> values_loop (trie_children child_node # it # stack))"
  by pat_completeness auto
termination
  by (relation "measure (\<lambda>stack. \<Sum>it \<leftarrow> stack. Suc (children_weight it))") auto

definition values_next :: "'v values_iter \<Rightarrow> 'v option \<times> 'v values_iter" where
  "values_next it =
     (let stack = (if vi_root_visited it then vi_stack it
                   else trie_children (vi_root it) # vi_stack it);
        it' = it\<lparr>vi_root_visited := True, vi_stack := stack\<rparr>
      in if \<not> vi_root_visited it \<and> trie_value (vi_root it) \<noteq> None
         then (trie_value (vi_root it), it')
         else (let (r, stack') = values_loop stack in (r, it'\<lparr>vi_stack := stack'\<rparr>)))"

text \<open>What \<open>collect\<close> does with an iterator, for at most \<open>n\<close> values.\<close>

fun values_take :: "nat \<Rightarrow> 'v values_iter \<Rightarrow> 'v list" where
  "values_take 0 it = []"
| "values_take (Suc n) it =
     (case values_next it of (None, _) \<Rightarrow> [] | (Some v, it') \<Rightarrow> v # values_take n it')"

subsection \<open>Well-formed tries and their entries\<close>

fun trie_wf :: "'v path_trie \<Rightarrow> bool" and children_wf :: "(string \<times> 'v path_trie) list \<Rightarrow> bool" where
  "trie_wf (PathTrie v ch) \<longleftrightarrow> children_wf ch"
| "children_wf [] \<longleftrightarrow> True"
| "children_wf ((k, c) # cs) \<longleftrightarrow>
     trie_wf c \<and> \<not> trie_is_empty c \<and> k \<notin> fst ` set cs \<and> children_wf cs"

fun trie_entries :: "'v path_trie \<Rightarrow> (string list \<times> 'v) list"
  and children_entries :: "(string \<times> 'v path_trie) list \<Rightarrow> (string list \<times> 'v) list" where
  "trie_entries (PathTrie v ch) =
     (case v of None \<Rightarrow> [] | Some x \<Rightarrow> [([], x)]) @ children_entries ch"
| "children_entries [] = []"
| "children_entries ((k, c) # cs) =
     map (\<lambda>(p, x). (k # p, x)) (trie_entries c) @ children_entries cs"

lemma children_wf_iff:
  "children_wf ch \<longleftrightarrow> distinct (map fst ch) \<and> (\<forall>(k, c) \<in> set ch. trie_wf c \<and> \<not> trie_is_empty c)"
  by (induction ch) (auto, force)

lemma trie_wf_children: "trie_wf t \<longleftrightarrow> children_wf (trie_children t)"
  by (cases t) simp

lemma trie_wf_new [simp]: "trie_wf trie_new"
  by (simp add: trie_new_def)

lemma children_wf_lookup: "children_wf ch \<Longrightarrow> map_of ch k = Some c \<Longrightarrow> trie_wf c \<and> \<not> trie_is_empty c"
  by (auto simp: children_wf_iff dest!: map_of_SomeD)

lemma set_AList_update: "set (AList.update k c ch) \<subseteq> insert (k, c) (set ch)"
  by (induction ch) auto

lemma children_wf_update:
  assumes "children_wf ch" "trie_wf c" "\<not> trie_is_empty c"
  shows "children_wf (AList.update k c ch)"
  using assms set_AList_update [of k c ch]
  by (auto simp: children_wf_iff distinct_update)

lemma delete_update_same: "AList.delete k (AList.update k c ch) = AList.delete k ch"
  by (induction ch) auto

lemma children_wf_delete: "children_wf ch \<Longrightarrow> children_wf (AList.delete k ch)"
  by (simp add: children_wf_iff distinct_delete) (auto simp: AList.delete_eq)

lemma trie_get_Nil [simp]: "trie_get [] t = trie_value t"
  by (simp add: trie_get_def)

lemma trie_get_Cons [simp]:
  "trie_get (k # ks) t = Option.bind (map_of (trie_children t) k) (trie_get ks)"
  by (cases "map_of (trie_children t) k") (simp_all add: trie_get_def)

lemma trie_get_new [simp]: "trie_get key trie_new = None"
  by (cases key) (simp_all add: trie_new_def)


subsection \<open>Insertion\<close>

lemma insert_recursive_spec:
  assumes "trie_wf t"
  shows "\<exists>t'. insert_recursive key v t = (trie_get key t, t') \<and> trie_wf t' \<and> \<not> trie_is_empty t' \<and>
    (\<forall>k. trie_get k t' = (if k = key then Some v else trie_get k t))"
  using assms
proof (induction key arbitrary: t)
  case Nil
  obtain val ch where t: "t = PathTrie val ch" by (cases t)
  have "trie_get k (PathTrie (Some v) ch) = (if k = [] then Some v else trie_get k t)" for k
    by (cases k) (simp_all add: t)
  with Nil show ?case by (simp add: t trie_is_empty_def)
next
  case (Cons f ks)
  obtain val ch where t: "t = PathTrie val ch" by (cases t)
  define child where "child = (case map_of ch f of Some c \<Rightarrow> c | None \<Rightarrow> trie_new)"
  have "trie_wf child"
    using Cons.prems by (auto simp: child_def t dest: children_wf_lookup split: option.split)
  from Cons.IH [OF this] obtain c' where c': "insert_recursive ks v child = (trie_get ks child, c')"
    "trie_wf c'" "\<not> trie_is_empty c'"
    "\<And>k. trie_get k c' = (if k = ks then Some v else trie_get k child)" by auto
  let ?t' = "PathTrie val (AList.update f c' ch)"
  have "trie_get k ?t' = (if k = f # ks then Some v else trie_get k t)" for k
    using c'(4) by (cases k) (auto simp: t update_conv' child_def split: option.split)
  moreover have "trie_wf ?t'" using Cons.prems c'(2,3) by (simp add: t children_wf_update)
  moreover have "insert_recursive (f # ks) v t = (trie_get (f # ks) t, ?t')"
    using c'(1) by (cases "map_of ch f") (simp_all add: t child_def)
  moreover have "\<not> trie_is_empty ?t'"
    using update_nonempty [of f c' ch] by (auto simp: trie_is_empty_def trie_is_leaf_def)
  ultimately show ?case by blast
qed

text \<open>The cursor of \<open>insert_owned\<close> does what the recursion does.\<close>

lemma cursor_insert:
  "(let (node, parents) = foldl entry_or_insert (t, ps) key in
      (trie_value node, write_back (PathTrie (Some v) (trie_children node)) parents)) =
   (let (r, t') = insert_recursive key v t in (r, write_back t' ps))"
proof (induction key arbitrary: t ps)
  case Nil
  then show ?case by (cases t) simp
next
  case (Cons f ks)
  obtain val ch where t: "t = PathTrie val ch" by (cases t)
  show ?case
    using Cons.IH by (cases "map_of ch f") (simp_all add: t split: prod.split)
qed

lemma insert_owned_eq: "insert_owned key v t = insert_recursive key v t"
  using cursor_insert [of t "[]" key v] by (simp add: insert_owned_def split: prod.splits)

subsection \<open>Removal\<close>

lemma remove_recursive_spec:
  assumes "trie_wf t"
  shows "\<exists>t'. remove_recursive key None t = (trie_is_empty t', trie_get key t, t') \<and> trie_wf t' \<and>
    (\<forall>k. trie_get k t' = (if k = key then None else trie_get k t))"
  using assms
proof (induction key arbitrary: t)
  case Nil
  obtain val ch where t: "t = PathTrie val ch" by (cases t)
  have "trie_get k (PathTrie None ch) = (if k = [] then None else trie_get k t)" for k
    by (cases k) (simp_all add: t)
  with Nil show ?case by (intro exI [of _ "PathTrie None ch"]) (simp add: t Let_def)
next
  case (Cons f ks)
  obtain val ch where t: "t = PathTrie val ch" by (cases t)
  show ?case
  proof (cases "map_of ch f")
    case None
    with Cons.prems show ?thesis by (intro exI [of _ t]) (simp add: t Let_def)
  next
    case (Some child)
    have "trie_wf child" using Cons.prems Some by (auto simp: t dest: children_wf_lookup)
    from Cons.IH [OF this] obtain c' where
      c': "remove_recursive ks None child = (trie_is_empty c', trie_get ks child, c')" "trie_wf c'"
      "\<And>k. trie_get k c' = (if k = ks then None else trie_get k child)" by auto
    define ch' where "ch' = (if trie_is_empty c' then AList.delete f (AList.update f c' ch)
      else AList.update f c' ch)"
    have wf: "children_wf ch'"
      using Cons.prems c'(2) by (auto simp: ch'_def t delete_update_same children_wf_delete children_wf_update)
    have none: "trie_is_empty c' \<Longrightarrow> trie_get k c' = None" for k
      by (cases c'; cases k) (auto simp: trie_is_empty_def trie_is_leaf_def)
    have look: "map_of ch' x = (if x = f then (if trie_is_empty c' then None else Some c') else map_of ch x)" for x
      by (simp add: ch'_def update_conv' delete_conv')
    have "trie_get k (PathTrie val ch') = (if k = f # ks then None else trie_get k t)" for k
      using c'(3) [of "tl k"] none [of "tl k"] by (cases k) (auto simp: t look Some)
    moreover have "remove_recursive (f # ks) None t =
        (trie_is_empty (PathTrie val ch'), trie_get (f # ks) t, PathTrie val ch')"
      using c'(1) by (simp add: t Some ch'_def Let_def)
    ultimately show ?thesis using wf by auto
  qed
qed

subsection \<open>Entries, \<open>retain\<close> and \<open>values\<close>\<close>

lemma trie_is_empty_iff [simp]: "trie_is_empty (PathTrie v ch) \<longleftrightarrow> v = None \<and> ch = []"
  by (auto simp: trie_is_empty_def trie_is_leaf_def)

lemma entries_empty_iff:
  fixes t :: "'v path_trie" and ch :: "(string \<times> 'v path_trie) list"
  shows "trie_wf t \<Longrightarrow> trie_entries t = [] \<longleftrightarrow> trie_is_empty t"
    and "children_wf ch \<Longrightarrow> children_entries ch = [] \<longleftrightarrow> ch = []"
  by (induction t and ch rule: trie_entries_children_entries.induct)
    (auto split: option.splits)

lemma map_of_Cons_keys:
  "map_of (map (\<lambda>(p, x). (k # p, x)) es) key =
     (case key of [] \<Rightarrow> None | f # ks \<Rightarrow> if f = k then map_of es ks else None)"
  by (induction es) (auto split: list.splits)

lemma children_entries_no_key:
  "k \<notin> fst ` set ch \<Longrightarrow> map_of (children_entries ch) (k # ks) = None"
  by (induction ch) (auto simp: map_add_def map_of_Cons_keys)

lemma children_entries_Nil: "map_of (children_entries ch) [] = None"
  by (induction ch) (auto simp: map_add_def map_of_Cons_keys)

text \<open>The entry list is the map that lookups read.\<close>

lemma map_of_entries:
  fixes t :: "'v path_trie" and ch :: "(string \<times> 'v path_trie) list"
  shows "trie_wf t \<Longrightarrow> map_of (trie_entries t) key = trie_get key t"
    and "children_wf ch \<Longrightarrow> map_of (children_entries ch) key =
      (case key of [] \<Rightarrow> None | f # ks \<Rightarrow> Option.bind (map_of ch f) (trie_get ks))"
proof (induction t and ch arbitrary: key and key rule: trie_entries_children_entries.induct)
  case (1 v ch)
  then show ?case
    by (cases key; cases v) (auto simp: children_entries_Nil)
next
  case 2
  then show ?case by (simp split: list.split)
next
  case (3 k c cs)
  then have "map_of cs k = None" by (simp add: map_of_eq_None_iff)
  with 3 show ?case
    by (cases key) (auto simp: map_add_def map_of_Cons_keys children_entries_no_key
        children_entries_Nil split: option.splits)
qed

lemma distinct_entries:
  fixes t :: "'v path_trie" and ch :: "(string \<times> 'v path_trie) list"
  shows "trie_wf t \<Longrightarrow> distinct (map fst (trie_entries t))"
    and "children_wf ch \<Longrightarrow> distinct (map fst (children_entries ch)) \<and>
      (\<forall>e \<in> set (children_entries ch). \<exists>k p. fst e = k # p \<and> k \<in> fst ` set ch)"
proof (induction t and ch rule: trie_entries_children_entries.induct)
  case (1 v ch)
  then have ch: "distinct (map fst (children_entries ch))"
    "\<forall>e \<in> set (children_entries ch). \<exists>k p. fst e = k # p \<and> k \<in> fst ` set ch" by auto
  then have "[] \<notin> fst ` set (children_entries ch)" by force
  with ch(1) show ?case by (cases v) auto
next
  case (3 k c cs)
  have "distinct (map fst (map (\<lambda>(p, x). (k # p, x)) es)) \<longleftrightarrow> distinct (map fst es)"
    for es :: "(string list \<times> 'v) list"
    using distinct_map [of "(#) k" "map fst es"]
    by (simp add: comp_def case_prod_beta inj_on_def)
  with 3 show ?case by auto (force simp: image_iff)+
qed simp

lemma retain_entries:
  fixes t :: "'v path_trie" and ch :: "(string \<times> 'v path_trie) list"
  shows "trie_wf t \<Longrightarrow> (case retain_recursive cond t n of (del, t', m) \<Rightarrow>
      del = trie_is_empty t' \<and> trie_wf t' \<and>
      trie_entries t' = filter (\<lambda>(_, v). cond v) (trie_entries t) \<and>
      m = n + length (filter (\<lambda>(_, v). \<not> cond v) (trie_entries t)))"
    and "children_wf ch \<Longrightarrow> (case retain_children cond ch n of (ch', m) \<Rightarrow>
      children_wf ch' \<and> fst ` set ch' \<subseteq> fst ` set ch \<and>
      children_entries ch' = filter (\<lambda>(_, v). cond v) (children_entries ch) \<and>
      m = n + length (filter (\<lambda>(_, v). \<not> cond v) (children_entries ch)))"
proof (induction t and ch arbitrary: n and n rule: trie_entries_children_entries.induct)
  case (1 v ch)
  then show ?case
    by (cases v) (force split: prod.splits)+
next
  case (3 k c cs)
  have shift: "filter (\<lambda>(_, v). P v) (map (\<lambda>(p, x). (k # p, x)) es) =
      map (\<lambda>(p, x). (k # p, x)) (filter (\<lambda>(_, v). P v) es)" for P :: "'v \<Rightarrow> bool" and es
    by (induction es) auto
  obtain del c' m where c': "retain_recursive cond c n = (del, c', m)" by (cases "retain_recursive cond c n") auto
  obtain cs' m' where cs': "retain_children cond cs m = (cs', m')" by (cases "retain_children cond cs m") auto
  show ?case
    using "3.prems" "3.IH"(1) [of n] "3.IH"(2) [of m] entries_empty_iff(1) [of c']
    by (auto simp: c' cs' shift) (metis (no_types) fst_conv imageI subsetD)+
qed simp

text \<open>The iterator's stack still holds the entries of every child not yet visited.\<close>

lemma map_snd_shift: "map (snd \<circ> (\<lambda>(p, x). (k # p, x))) es = map snd es"
  by (induction es) auto

lemma values_loop_step:
  "values_loop stack = (r, stack') \<Longrightarrow>
     concat (map (\<lambda>it. map snd (children_entries it)) stack) =
       (case r of None \<Rightarrow> [] | Some v \<Rightarrow> v # concat (map (\<lambda>it. map snd (children_entries it)) stack'))"
proof (induction stack rule: values_loop.induct)
  case (3 k c it stack)
  then show ?case
    by (cases c) (auto simp: map_snd_shift split: option.splits)
qed auto

lemma values_take_stack:
  "n > length (concat (map (\<lambda>it. map snd (children_entries it)) (vi_stack it))) \<Longrightarrow>
   vi_root_visited it \<Longrightarrow>
   values_take n it = concat (map (\<lambda>it. map snd (children_entries it)) (vi_stack it))"
proof (induction n arbitrary: it)
  case (Suc n)
  obtain r st where l: "values_loop (vi_stack it) = (r, st)" by (cases "values_loop (vi_stack it)")
  from values_loop_step [OF l] Suc.prems Suc.IH [of "it\<lparr>vi_root_visited := True, vi_stack := st\<rparr>"] l show ?case
    by (cases r) (auto simp: values_next_def)
qed simp

lemma values_take_entries:
  "n > length (trie_entries t) \<Longrightarrow> values_take n (trie_values t) = map snd (trie_entries t)"
proof (induction n)
  case (Suc n)
  obtain v ch where t: "t = PathTrie v ch" by (cases t)
  let ?it = "\<lparr>vi_root = t, vi_root_visited = True, vi_stack = [ch]\<rparr>"
  have "values_take m ?it = map snd (children_entries ch)" if "m > length (children_entries ch)" for m
    using values_take_stack [of ?it m] that by simp
  with this [of "Suc n"] Suc.prems show ?case
    by (cases v) (auto simp: t trie_values_def values_next_def)
qed simp

subsection \<open>The contract of a store keyed by paths\<close>

text \<open>
  A client calls insert, remove and get; each call returns the value the key had. The
  reference is a map from paths to values.
\<close>

datatype 'v path_op = OpInsert "string list" 'v | OpRemove "string list" | OpGet "string list"

fun path_step ::
    "(string list \<Rightarrow> 'v \<Rightarrow> 's \<Rightarrow> 'v option \<times> 's) \<Rightarrow> (string list \<Rightarrow> 's \<Rightarrow> 'v option \<times> 's) \<Rightarrow>
     (string list \<Rightarrow> 's \<Rightarrow> 'v option) \<Rightarrow> 'v path_op \<Rightarrow> 's \<Rightarrow> 'v option \<times> 's" where
  "path_step ins del look (OpInsert k v) s = ins k v s"
| "path_step ins del look (OpRemove k) s = del k s"
| "path_step ins del look (OpGet k) s = (look k s, s)"

fun run_ops :: "('o \<Rightarrow> 's \<Rightarrow> 'r \<times> 's) \<Rightarrow> 'o list \<Rightarrow> 's \<Rightarrow> 'r list \<times> 's" where
  "run_ops step [] s = ([], s)"
| "run_ops step (x # xs) s =
     (let (r, s1) = step x s; (rs, s2) = run_ops step xs s1 in (r # rs, s2))"

definition map_step :: "'v path_op \<Rightarrow> (string list \<rightharpoonup> 'v) \<Rightarrow> 'v option \<times> (string list \<rightharpoonup> 'v)" where
  "map_step = path_step (\<lambda>k v m. (m k, m(k \<mapsto> v))) (\<lambda>k m. (m k, m(k := None))) (\<lambda>k m. m k)"

locale path_store =
  fixes mk_empty :: 's
    and ins :: "string list \<Rightarrow> 'v \<Rightarrow> 's \<Rightarrow> 'v option \<times> 's"
    and del :: "string list \<Rightarrow> 's \<Rightarrow> 'v option \<times> 's"
    and look :: "string list \<Rightarrow> 's \<Rightarrow> 'v option"
    and wf :: "'s \<Rightarrow> bool"
  assumes empty_ok: "wf mk_empty" "look k mk_empty = None"
    and ins_ok: "wf s \<Longrightarrow> \<exists>s'. ins key v s = (look key s, s') \<and> wf s' \<and>
      (\<forall>k. look k s' = (if k = key then Some v else look k s))"
    and del_ok: "wf s \<Longrightarrow> \<exists>s'. del key s = (look key s, s') \<and> wf s' \<and>
      (\<forall>k. look k s' = (if k = key then None else look k s))"
begin

lemma step_refines:
  assumes "wf s"
  shows "\<exists>s'. path_step ins del look x s = (fst (map_step x (\<lambda>k. look k s)), s') \<and> wf s' \<and>
    (\<lambda>k. look k s') = snd (map_step x (\<lambda>k. look k s))"
proof (cases x)
  case (OpInsert key v)
  with ins_ok [OF assms, of key v] show ?thesis by (auto simp: map_step_def fun_eq_iff)
next
  case (OpRemove key)
  with del_ok [OF assms, of key] show ?thesis by (auto simp: map_step_def fun_eq_iff)
qed (simp add: map_step_def assms)

lemma run_refines:
  "wf s \<Longrightarrow> \<exists>s'. run_ops (path_step ins del look) xs s = (fst (run_ops map_step xs (\<lambda>k. look k s)), s') \<and>
     wf s' \<and> (\<lambda>k. look k s') = snd (run_ops map_step xs (\<lambda>k. look k s))"
proof (induction xs arbitrary: s)
  case (Cons x xs)
  from step_refines [OF Cons.prems, of x] obtain s1 where s1:
    "path_step ins del look x s = (fst (map_step x (\<lambda>k. look k s)), s1)" "wf s1"
    "(\<lambda>k. look k s1) = snd (map_step x (\<lambda>k. look k s))" by auto
  from Cons.IH [OF s1(2)] s1(1) show ?case
    by (auto simp: s1(3) split: prod.split)
qed simp

lemma run_from_empty:
  "\<exists>s'. run_ops (path_step ins del look) xs mk_empty = (fst (run_ops map_step xs Map.empty), s') \<and>
     wf s' \<and> (\<lambda>k. look k s') = snd (run_ops map_step xs Map.empty)"
  using run_refines [OF empty_ok(1), of xs] by (simp add: empty_ok(2))

end

interpretation trie: path_store trie_new trie_insert trie_remove trie_get trie_wf
proof unfold_locales
  fix s :: "'v path_trie" and key v
  assume wf: "trie_wf s"
  show "\<exists>s'. trie_insert key v s = (trie_get key s, s') \<and> trie_wf s' \<and>
      (\<forall>k. trie_get k s' = (if k = key then Some v else trie_get k s))"
    using insert_recursive_spec [OF wf, of key v] by (auto simp: trie_insert_def)
  show "\<exists>s'. trie_remove key s = (trie_get key s, s') \<and> trie_wf s' \<and>
      (\<forall>k. trie_get k s' = (if k = key then None else trie_get k s))"
    using remove_recursive_spec [OF wf, of key] by (auto simp: trie_remove_def)
qed simp_all

lemma insert_owned_fun: "insert_owned = trie_insert"
  by (simp add: fun_eq_iff insert_owned_eq trie_insert_def)

interpretation owned: path_store trie_new insert_owned trie_remove trie_get trie_wf
  unfolding insert_owned_fun by (rule trie.path_store_axioms)

text \<open>Below every node of a well-formed trie other than the root there is a value.\<close>

lemma entries_nonempty_get:
  assumes "trie_wf t" "\<not> trie_is_empty t"
  shows "\<exists>ks v. trie_get ks t = Some v"
proof -
  obtain k v es where "trie_entries t = (k, v) # es"
    using entries_empty_iff(1) [OF assms(1)] assms(2) by (cases "trie_entries t") auto
  then have "map_of (trie_entries t) k = Some v" by simp
  then show ?thesis using map_of_entries(1) [OF assms(1)] by auto
qed

lemma get_node_nonempty:
  "trie_wf t \<Longrightarrow> get_node (k # key) t = Some node \<Longrightarrow> trie_wf node \<and> \<not> trie_is_empty node"
proof (induction key arbitrary: t k)
  case Nil
  then show ?case by (auto simp: trie_wf_children dest: children_wf_lookup split: option.splits)
next
  case (Cons f ks)
  then obtain c where "map_of (trie_children t) k = Some c" "get_node (f # ks) c = Some node"
    by (simp split: option.splits)
  moreover from this(1) have "trie_wf c"
    using Cons.prems(1) by (auto simp: trie_wf_children dest: children_wf_lookup)
  ultimately show ?case using Cons.IH by blast
qed

lemma get_node_append:
  "get_node key t = Some node \<Longrightarrow> trie_get (key @ ks) t = trie_get ks node"
  by (induction key arbitrary: t) (auto split: option.splits)

lemma trie_no_dead_node:
  assumes "trie_wf t" "get_node key t = Some node" "key \<noteq> []"
  shows "\<exists>ks v. trie_get (key @ ks) t = Some v"
proof -
  obtain k rest where "key = k # rest" using assms(3) by (cases key) auto
  with get_node_nonempty assms entries_nonempty_get get_node_append show ?thesis by metis
qed

text \<open>
  C23: after any sequence of insertions, removals and lookups that starts with a new trie,
  every call has returned what a map from paths to values returns, both insertion variants
  behave alike, the trie answers lookups like the map, and no node (other than the root) is
  left behind without a value in its subtree.
\<close>

theorem trie_refines_map:
  assumes "run_ops (path_step insert_owned trie_remove trie_get) ops trie_new = (rs, t)"
  shows "rs = fst (run_ops map_step ops Map.empty) \<and>
    (\<lambda>k. trie_get k t) = snd (run_ops map_step ops Map.empty) \<and>
    run_ops (path_step trie_insert trie_remove trie_get) ops trie_new = (rs, t) \<and>
    (\<forall>key node. get_node key t = Some node \<and> key \<noteq> [] \<longrightarrow>
       (\<exists>ks v. trie_get (key @ ks) t = Some v))"
proof -
  from owned.run_from_empty [of ops] assms
  have "rs = fst (run_ops map_step ops Map.empty)" "trie_wf t"
    "(\<lambda>k. trie_get k t) = snd (run_ops map_step ops Map.empty)" by auto
  with assms trie_no_dead_node show ?thesis by (auto simp: insert_owned_fun)
qed

theorem trie_refines_map_witness:
  "\<exists>t. run_ops (path_step insert_owned trie_remove trie_get)
       [OpInsert [''a'', ''b''] (1::nat), OpInsert [''a''] 2, OpInsert [''a''] 3,
        OpRemove [''a'', ''b''], OpGet [''a'']] trie_new = ([None, None, Some 2, Some 1, Some 3], t) \<and>
     trie_get [''a''] t = Some 3 \<and> get_node [''a'', ''b''] t = None"
proof -
  let ?ops = "[OpInsert [''a'', ''b''] (1::nat), OpInsert [''a''] 2, OpInsert [''a''] 3,
        OpRemove [''a'', ''b''], OpGet [''a'']]"
  obtain rs t where r: "run_ops (path_step insert_owned trie_remove trie_get) ?ops trie_new = (rs, t)"
    by force
  note c9 = trie_refines_map [OF r]
  have m: "run_ops map_step ?ops Map.empty = ([None, None, Some 2, Some 1, Some 3], [[''a''] \<mapsto> 3])"
    by (auto simp: map_step_def fun_eq_iff)
  from c9 m have g: "(\<lambda>k. trie_get k t) = [[''a''] \<mapsto> 3]" and rs: "rs = [None, None, Some 2, Some 1, Some 3]"
    by simp_all
  have "trie_get ([''a'', ''b''] @ ks) t = None" for ks
    using fun_cong [OF g, of "[''a'', ''b''] @ ks"] by simp
  with c9 have "get_node [''a'', ''b''] t = None"
    by (metis list.distinct(1) option.exhaust option.distinct(1))
  moreover have "trie_get [''a''] t = Some 3" using fun_cong [OF g, of "[''a'']"] by simp
  ultimately show ?thesis using r rs by blast
qed

lemma entries_keys:
  assumes "trie_wf t"
  shows "set (trie_entries t) = {(k, v). trie_get k t = Some v}"
proof -
  have "(k, v) \<in> set (trie_entries t) \<longleftrightarrow> trie_get k t = Some v" for k v
    unfolding map_of_entries(1) [OF assms, symmetric]
    by (rule map_of_eq_Some_iff [symmetric]) (rule distinct_entries(1) [OF assms])
  then show ?thesis by auto
qed

lemma option_filter_eqI:
  assumes "\<And>v. a = Some v \<longleftrightarrow> b = Some v \<and> P v"
  shows "a = (case b of Some v \<Rightarrow> if P v then Some v else None | None \<Rightarrow> None)"
proof (cases a)
  case None
  with assms show ?thesis by (auto split: option.split)
next
  case (Some x)
  with assms [of x] show ?thesis by simp
qed

lemma trie_retain_facts:
  assumes "trie_wf t" and "trie_retain cond t = (n, t')"
  shows "trie_wf t' \<and>
    (\<forall>k. trie_get k t' = (case trie_get k t of Some v \<Rightarrow> if cond v then Some v else None | None \<Rightarrow> None)) \<and>
    n = card {k. \<exists>v. trie_get k t = Some v \<and> \<not> cond v}"
proof -
  have r: "trie_wf t'" "trie_entries t' = filter (\<lambda>(_, v). cond v) (trie_entries t)"
    "n = length (filter (\<lambda>(_, v). \<not> cond v) (trie_entries t))"
    using assms(2) retain_entries(1) [OF assms(1), of cond 0]
    by (auto simp: trie_retain_def split: prod.splits)
  have keys: "trie_get k t' = Some v \<longleftrightarrow> trie_get k t = Some v \<and> cond v" for k v
    using entries_keys [OF r(1)] entries_keys [OF assms(1)] r(2) by auto
  have "distinct (map fst (filter (\<lambda>(_, v). \<not> cond v) (trie_entries t)))"
    using distinct_entries(1) [OF assms(1)] by (simp add: distinct_map_filter)
  then have "n = card (fst ` set (filter (\<lambda>(_, v). \<not> cond v) (trie_entries t)))"
    by (metis r(3) distinct_card length_map set_map)
  also have "fst ` set (filter (\<lambda>(_, v). \<not> cond v) (trie_entries t)) =
      {k. \<exists>v. trie_get k t = Some v \<and> \<not> cond v}"
    using entries_keys [OF assms(1)] by (force simp: image_iff)
  finally have "n = card {k. \<exists>v. trie_get k t = Some v \<and> \<not> cond v}" .
  moreover have "trie_get k t' = (case trie_get k t of Some v \<Rightarrow> if cond v then Some v else None | None \<Rightarrow> None)" for k
    by (rule option_filter_eqI) (rule keys)
  ultimately show ?thesis using r(1) by simp
qed

text \<open>
  \<open>retain\<close> on a well-formed trie removes exactly the values that fail the condition,
  returns how many paths lost their value, and leaves a well-formed trie without empty nodes.
\<close>

theorem trie_retain_spec:
  assumes "trie_wf t" and "trie_retain cond t = (n, t')"
  shows "trie_wf t' \<and>
    (\<forall>k. trie_get k t' = (case trie_get k t of Some v \<Rightarrow> if cond v then Some v else None | None \<Rightarrow> None)) \<and>
    n = card {k. \<exists>v. trie_get k t = Some v \<and> \<not> cond v}"
  by (rule trie_retain_facts [OF assms])

definition sample_trie :: "nat path_trie" where
  "sample_trie = PathTrie None [(''a'', PathTrie (Some 1) [(''b'', PathTrie (Some 8) [])]),
     (''c'', PathTrie None [(''d'', PathTrie (Some 9) [])])]"

lemma sample_trie_wf: "trie_wf sample_trie"
  by (simp add: sample_trie_def)

theorem trie_retain_spec_witness:
  "trie_retain (\<lambda>v. v < 5) sample_trie = (2, PathTrie None [(''a'', PathTrie (Some 1) [])]) \<and>
   card {k. \<exists>v. trie_get k sample_trie = Some v \<and> \<not> v < 5} = 2"
proof -
  have r: "trie_retain (\<lambda>v. v < 5) sample_trie = (2, PathTrie None [(''a'', PathTrie (Some 1) [])])"
    by (simp add: trie_retain_def sample_trie_def)
  from trie_retain_spec [OF sample_trie_wf r] r show ?thesis by simp
qed

lemma values_take_keys:
  assumes "trie_wf t" and "m > card {k. trie_get k t \<noteq> None}"
  shows "mset (values_take m (trie_values t)) =
    image_mset (\<lambda>k. the (trie_get k t)) (mset_set {k. trie_get k t \<noteq> None})"
proof -
  have keys: "{k. trie_get k t \<noteq> None} = set (map fst (trie_entries t))"
    using entries_keys [OF assms(1)] by (force simp: image_iff)
  have d: "distinct (map fst (trie_entries t))" by (rule distinct_entries(1) [OF assms(1)])
  have "card {k. trie_get k t \<noteq> None} = length (trie_entries t)"
    using distinct_card [OF d] unfolding keys by simp
  then have v: "values_take m (trie_values t) = map snd (trie_entries t)"
    using assms(2) by (simp add: values_take_entries)
  have "map snd (trie_entries t) = map (\<lambda>k. the (trie_get k t)) (map fst (trie_entries t))"
    using entries_keys [OF assms(1)] by auto
  then show ?thesis
    unfolding v keys using mset_set_set [OF d] by (metis mset_map)
qed

text \<open>
  the iterator over the values of a well-formed trie ends, and collecting it yields the
  value of every path that has one exactly once.
\<close>

theorem trie_values_complete:
  assumes "trie_wf t" and "m > card {k. trie_get k t \<noteq> None}"
  shows "mset (values_take m (trie_values t)) =
    image_mset (\<lambda>k. the (trie_get k t)) (mset_set {k. trie_get k t \<noteq> None})"
  by (rule values_take_keys [OF assms])

theorem trie_values_complete_witness:
  "mset (values_take 4 (trie_values sample_trie)) = {#1, 8, 9#} \<and>
   image_mset (\<lambda>k. the (trie_get k sample_trie)) (mset_set {k. trie_get k sample_trie \<noteq> None}) = {#1, 8, 9#}"
proof -
  have "{k. trie_get k sample_trie \<noteq> None} = set (map fst (trie_entries sample_trie))"
    using entries_keys [OF sample_trie_wf] by (force simp: image_iff)
  then have "card {k. trie_get k sample_trie \<noteq> None} < 4"
    by (simp add: sample_trie_def card_insert_if)
  from trie_values_complete [OF sample_trie_wf this]
  show ?thesis by (simp add: values_take_entries sample_trie_def)
qed

end
