(* ===== verification/Routing.thy ===== *)
theory Routing
  imports Kompact_Prelude
begin

section \<open>Routing policies (\<open>core/src/routing/groups.rs\<close>, \<open>core/src/utils/iter_extras.rs\<close>)\<close>

text \<open>
  The round-robin, hash-bucket and broadcast policies and the routing group that applies a
  policy to its members. Routing a message yields the deliveries (\<open>tell\<close> calls) in order,
  and the policy with its atomic offset advanced. The type of messages, the extracted field
  and the members are type variables; the hasher and the fallible clone of a message are
  arguments. The lemmas give the exact member a message goes to, fairness of round robin
  also across the wrap-around of the offset, and completeness of a broadcast.
\<close>

subsection \<open>Iteration with clones\<close>

text \<open>
  The loop of \<open>for_each_with\<close> and \<open>for_each_try_with\<close> keeps one item of look-ahead so that the
  last item gets the original value and every earlier one a clone. The calls of the closure
  are the list of items with the values they are called with.
\<close>

fun for_each_loop :: "('m \<Rightarrow> 'm) \<Rightarrow> 'm \<Rightarrow> 'i \<Rightarrow> 'i list \<Rightarrow> ('i \<times> 'm) list" where
  "for_each_loop clone t current [] = [(current, t)]"
| "for_each_loop clone t current (nxt # it) = (current, clone t) # for_each_loop clone t nxt it"

fun for_each_with :: "('m \<Rightarrow> 'm) \<Rightarrow> 'm \<Rightarrow> 'i list \<Rightarrow> ('i \<times> 'm) list" where
  "for_each_with clone t [] = []"
| "for_each_with clone t (item # it) = for_each_loop clone t item it"

fun for_each_try_loop ::
    "('m \<Rightarrow> ('m, ser_error) rresult) \<Rightarrow> 'm \<Rightarrow> 'i \<Rightarrow> 'i list \<Rightarrow>
     ('i \<times> 'm) list \<times> (unit, ser_error) rresult" where
  "for_each_try_loop try_clone t current [] = ([(current, t)], Ok ())"
| "for_each_try_loop try_clone t current (nxt # it) =
     (case try_clone t of
        Ok cloned \<Rightarrow>
          (let (calls, res) = for_each_try_loop try_clone t nxt it
           in ((current, cloned) # calls, res))
      | Err e \<Rightarrow> ([], Err e)
      | Panic \<Rightarrow> ([], Panic))"

fun for_each_try_with ::
    "('m \<Rightarrow> ('m, ser_error) rresult) \<Rightarrow> 'm \<Rightarrow> 'i list \<Rightarrow>
     ('i \<times> 'm) list \<times> (unit, ser_error) rresult" where
  "for_each_try_with try_clone t [] = ([], Ok ())"
| "for_each_try_with try_clone t (item # it) = for_each_try_loop try_clone t item it"

subsection \<open>Policies\<close>

record ('m, 't) field_hash_bucket_routing =
  hash_one :: "'t \<Rightarrow> u64"
  field_extractor :: "'m \<Rightarrow> 't"

datatype ('m, 't) routing_policy =
  RoundRobinRouting u64
  | FieldHashBucketRouting "('m, 't) field_hash_bucket_routing"
  | BroadcastRouting

definition round_robin_new :: "('m, 't) routing_policy" where
  "round_robin_new = RoundRobinRouting 0"

text \<open>\<open>fetch_add\<close> wraps around; the remainder by zero panics.\<close>

definition get_and_increment_index :: "u64 \<Rightarrow> nat \<Rightarrow> (nat \<times> u64, unit) rresult" where
  "get_and_increment_index offset len =
     (if len = 0 then Panic else Ok (unat offset mod len, offset + 1))"

definition hash_message :: "('m, 't) field_hash_bucket_routing \<Rightarrow> 'm \<Rightarrow> u64" where
  "hash_message r msg = hash_one r (field_extractor r msg)"

definition get_bucket :: "('m, 't) field_hash_bucket_routing \<Rightarrow> 'm \<Rightarrow> nat \<Rightarrow> (nat, unit) rresult" where
  "get_bucket r msg len = (if len = 0 then Panic else Ok (unat (hash_message r msg) mod len))"

definition policy_broadcast :: "('m, 't) routing_policy \<Rightarrow> ('m, 't) routing_policy option" where
  "policy_broadcast p = (case p of BroadcastRouting \<Rightarrow> Some p | _ \<Rightarrow> None)"

definition policy_select :: "('m, 't) routing_policy \<Rightarrow> ('m, 't) routing_policy option" where
  "policy_select p = (case p of BroadcastRouting \<Rightarrow> None | _ \<Rightarrow> Some p)"

definition index_members :: "'r list \<Rightarrow> nat \<Rightarrow> ('r, unit) rresult" where
  "index_members members i = (if i < length members then Ok (members ! i) else Panic)"

definition round_robin_route ::
    "u64 \<Rightarrow> 'r list \<Rightarrow> 'm \<Rightarrow> (('r \<times> 'm) list \<times> ('m, 't) routing_policy, unit) rresult" where
  "round_robin_route offset members msg =
     rbind (get_and_increment_index offset (length members)) (\<lambda>(index, offset').
     rbind (index_members members index) (\<lambda>m. Ok ([(m, msg)], RoundRobinRouting offset')))"

definition hash_bucket_route ::
    "('m, 't) field_hash_bucket_routing \<Rightarrow> 'r list \<Rightarrow> 'm \<Rightarrow>
     (('r \<times> 'm) list \<times> ('m, 't) routing_policy, unit) rresult" where
  "hash_bucket_route r members msg =
     rbind (get_bucket r msg (length members)) (\<lambda>index.
     rbind (index_members members index) (\<lambda>m. Ok ([(m, msg)], FieldHashBucketRouting r)))"

text \<open>A failing clone is logged and the deliveries made so far stand.\<close>

definition broadcast_route ::
    "('m \<Rightarrow> ('m, ser_error) rresult) \<Rightarrow> 'r list \<Rightarrow> 'm \<Rightarrow>
     (('r \<times> 'm) list \<times> ('m, 't) routing_policy, unit) rresult" where
  "broadcast_route try_clone members msg =
     (case for_each_try_with try_clone msg members of
        (calls, Panic) \<Rightarrow> Panic
      | (calls, _) \<Rightarrow> Ok (calls, BroadcastRouting))"

definition policy_route ::
    "('m \<Rightarrow> ('m, ser_error) rresult) \<Rightarrow> ('m, 't) routing_policy \<Rightarrow> 'r list \<Rightarrow> 'm \<Rightarrow>
     (('r \<times> 'm) list \<times> ('m, 't) routing_policy, unit) rresult" where
  "policy_route try_clone p members msg =
     (case p of
        RoundRobinRouting offset \<Rightarrow> round_robin_route offset members msg
      | FieldHashBucketRouting r \<Rightarrow> hash_bucket_route r members msg
      | BroadcastRouting \<Rightarrow> broadcast_route try_clone members msg)"

lemmas policy_route_defs =
  policy_route_def round_robin_route_def hash_bucket_route_def broadcast_route_def

record ('m, 't, 'r) routing_group =
  rg_members :: "'r list"
  rg_policy :: "('m, 't) routing_policy"

definition group_route ::
    "('m \<Rightarrow> ('m, ser_error) rresult) \<Rightarrow> ('m, 't, 'r) routing_group \<Rightarrow> 'm \<Rightarrow>
     (('r \<times> 'm) list \<times> ('m, 't, 'r) routing_group, unit) rresult" where
  "group_route try_clone g msg =
     rbind (policy_route try_clone (rg_policy g) (rg_members g) msg)
       (\<lambda>(calls, p). Ok (calls, g\<lparr>rg_policy := p\<rparr>))"

text \<open>Routing a sequence of messages through one group.\<close>

fun group_route_all ::
    "('m \<Rightarrow> ('m, ser_error) rresult) \<Rightarrow> ('m, 't, 'r) routing_group \<Rightarrow> 'm list \<Rightarrow>
     (('r \<times> 'm) list \<times> ('m, 't, 'r) routing_group, unit) rresult" where
  "group_route_all try_clone g [] = Ok ([], g)"
| "group_route_all try_clone g (msg # msgs) =
     rbind (group_route try_clone g msg) (\<lambda>(calls, g1).
     rbind (group_route_all try_clone g1 msgs) (\<lambda>(rest, g2). Ok (calls @ rest, g2)))"

subsection \<open>Lemmas\<close>

lemma get_and_increment_index_bound:
  "get_and_increment_index off len = Ok (i, off') \<Longrightarrow> i < len \<and> off' = off + 1"
  by (auto simp: get_and_increment_index_def split: if_splits)

lemma round_robin_step:
  assumes "members \<noteq> []"
  shows "policy_route tc (RoundRobinRouting off) members msg =
    Ok ([(members ! (unat off mod length members), msg)], RoundRobinRouting (off + 1))"
  using assms by (simp add: policy_route_defs get_and_increment_index_def index_members_def)

lemma round_robin_run:
  assumes "members \<noteq> []"
  shows "group_route_all tc \<lparr>rg_members = members, rg_policy = RoundRobinRouting off\<rparr> msgs =
    Ok (map (\<lambda>i. (members ! (unat (off + of_nat i) mod length members), msgs ! i)) [0..<length msgs],
        \<lparr>rg_members = members, rg_policy = RoundRobinRouting (off + of_nat (length msgs))\<rparr>)"
proof (induction msgs arbitrary: off)
  case (Cons m ms)
  have "[0..<length (m # ms)] = 0 # map Suc [0..<length ms]"
    by (simp only: length_Cons upt_conv_Cons map_Suc_upt zero_less_Suc)
  then show ?case
    using assms Cons.IH [of "off + 1"]
    by (simp add: group_route_def round_robin_step comp_def add.assoc del: upt_Suc)
qed simp

text \<open>A block of consecutive numbers hits every residue equally often.\<close>

lemma count_residue_zero:
  fixes n :: nat
  assumes "j < n"
  shows "length (filter (\<lambda>x. x mod n = j) [0..<n * q]) = q"
proof (induction q)
  case (Suc q)
  have "[n * q..<n * q + n] = map (\<lambda>x. x + n * q) [0..<n]"
    by (simp add: map_add_upt add.commute)
  moreover have "filter (\<lambda>x. (x + n * q) mod n = j) [0..<n] = filter (\<lambda>x. x = j) [0..<n]"
    by (rule filter_cong) auto
  moreover have "length (filter (\<lambda>x. x = j) [0..<n]) = 1"
  proof -
    have "set (filter (\<lambda>x. x = j) [0..<n]) = {j}" using assms by auto
    then show ?thesis using distinct_card [of "filter (\<lambda>x. x = j) [0..<n]"] by simp
  qed
  ultimately have "length (filter (\<lambda>x. x mod n = j) [n * q..<n * q + n]) = 1"
    by (simp add: filter_map comp_def)
  moreover have "[0..<n * Suc q] = [0..<n * q] @ [n * q..<n * q + n]"
    using upt_add_eq_append [of 0 "n * q" n] by (simp add: add.commute)
  ultimately show ?case using Suc by simp
qed simp

lemma count_residue_block:
  fixes n :: nat
  assumes "j < n"
  shows "length (filter (\<lambda>x. x mod n = j) [a..<a + n * q]) = q"
proof (cases "q = 0")
  case False
  with assms have pos: "0 < n * q" by simp
  show ?thesis
  proof (induction a)
    case 0
    then show ?case using count_residue_zero [OF assms, of q] by simp
  next
    case (Suc a)
    have "[a..<a + n * q] = a # [Suc a..<a + n * q]" using pos by (simp add: upt_conv_Cons)
    moreover have "[Suc a..<Suc a + n * q] = [Suc a..<a + n * q] @ [a + n * q]"
      using pos by simp
    ultimately show ?case using Suc by (auto split: if_splits)
  qed
qed simp

lemma for_each_try_loop_ok:
  assumes "try_clone t = Ok t'"
  shows "for_each_try_loop try_clone t cur it =
    (map (\<lambda>i. (i, t')) (butlast (cur # it)) @ [(last (cur # it), t)], Ok ())"
  using assms by (induction it arbitrary: cur) auto

lemma for_each_loop_eq:
  "for_each_loop clone t cur it = map (\<lambda>i. (i, clone t)) (butlast (cur # it)) @ [(last (cur # it), t)]"
  by (induction it arbitrary: cur) auto

subsection \<open>Properties\<close>

text \<open>
  C36: a round-robin group with members sends the \<open>i\<close>-th of a sequence of messages to the member
  at the wrapped offset modulo the group size, and as long as the offset does not wrap, every
  full round gives each member position the same number of messages.
\<close>

theorem round_robin_fair:
  assumes "members \<noteq> []"
  shows "\<exists>calls g'. group_route_all tc \<lparr>rg_members = members, rg_policy = RoundRobinRouting off\<rparr> msgs =
      Ok (calls, g') \<and>
    map snd calls = msgs \<and>
    rg_policy g' = RoundRobinRouting (off + of_nat (length msgs)) \<and>
    (\<forall>i < length msgs. fst (calls ! i) = members ! (unat (off + of_nat i) mod length members)) \<and>
    (unat off + length msgs \<le> 2 ^ 64 \<and> length msgs = length members * q \<longrightarrow>
       (\<forall>j < length members.
          card {i. i < length msgs \<and> unat (off + of_nat i) mod length members = j} = q))"
proof -
  have fair: "card {i. i < length msgs \<and> unat (off + of_nat i) mod length members = j} = q"
    if "unat off + length msgs \<le> 2 ^ 64" "length msgs = length members * q" "j < length members" for j
  proof -
    have no_wrap: "unat (off + of_nat i) = unat off + i" if "i < length msgs" for i
      using that \<open>unat off + length msgs \<le> 2 ^ 64\<close>
      by (simp add: unat_word_ariths unat_of_nat take_bit_eq_mod)
    have shift: "map (\<lambda>i. unat off + i) [0..<length msgs] = [unat off..<unat off + length msgs]"
      using map_add_upt [of "unat off" "length msgs"] by (simp add: add.commute)
    have "q = length (filter (\<lambda>x. x mod length members = j) (map (\<lambda>i. unat off + i) [0..<length msgs]))"
      using count_residue_block [OF that(3), of "unat off" q] that(2)
      unfolding shift by simp
    also have "\<dots> = card (set (filter (\<lambda>i. (unat off + i) mod length members = j) [0..<length msgs]))"
      by (subst distinct_card) (simp_all add: filter_map comp_def)
    also have "set (filter (\<lambda>i. (unat off + i) mod length members = j) [0..<length msgs]) =
        {i. i < length msgs \<and> unat (off + of_nat i) mod length members = j}"
      using no_wrap by auto
    finally show ?thesis by simp
  qed
  have snds: "map (\<lambda>i. msgs ! i) [0..<length msgs] = msgs" by (rule map_nth)
  show ?thesis
    unfolding round_robin_run [OF assms] using fair snds by (simp add: comp_def)
qed

theorem round_robin_fair_witness:
  "\<exists>calls g'. group_route_all Ok \<lparr>rg_members = [''x'', ''y''], rg_policy = round_robin_new\<rparr>
       [1, 2, 3, 4 :: nat] = Ok (calls, g' :: (nat, nat, string) routing_group) \<and>
     calls = [(''x'', 1), (''y'', 2), (''x'', 3), (''y'', 4)] \<and>
     card {i. i < 4 \<and> unat (0 + of_nat i :: u64) mod 2 = 1} = 2"
proof -
  have ne: "[''x'', ''y''] \<noteq> []" by simp
  have four: "length [1, 2, 3, 4 :: nat] = 4" "length [''x'', ''y''] = 2" by simp_all
  have run: "\<exists>g'. group_route_all Ok \<lparr>rg_members = [''x'', ''y''], rg_policy = RoundRobinRouting 0\<rparr>
      [1, 2, 3, 4 :: nat] = Ok ([(''x'', 1), (''y'', 2), (''x'', 3), (''y'', 4)],
        g' :: (nat, nat, string) routing_group)"
    by (simp add: group_route_def policy_route_defs get_and_increment_index_def index_members_def
        flip: numeral_2_eq_2)
  from round_robin_fair [OF ne, where tc = Ok and off = 0 and msgs = "[1, 2, 3, 4 :: nat]" and q = 2,
      unfolded four]
  have "card {i. i < 4 \<and> unat (0 + of_nat i :: u64) mod 2 = 1} = 2" by auto
  with run show ?thesis by (simp add: round_robin_new_def)
qed

text \<open>
  a hash-bucket group with members delivers each message to exactly one member, leaves the
  policy unchanged, and two messages with the same extracted field go to the same member.
\<close>

theorem hash_bucket_consistent:
  assumes "members \<noteq> []"
    and "field_extractor r msg = field_extractor r msg'"
  shows "\<exists>x. x \<in> set members \<and>
    policy_route tc (FieldHashBucketRouting r) members msg = Ok ([(x, msg)], FieldHashBucketRouting r) \<and>
    policy_route tc (FieldHashBucketRouting r) members msg' = Ok ([(x, msg')], FieldHashBucketRouting r)"
  using assms
  by (simp add: policy_route_defs get_bucket_def index_members_def hash_message_def)

theorem hash_bucket_consistent_witness:
  "\<exists>x. policy_route Ok (FieldHashBucketRouting \<lparr>hash_one = of_nat, field_extractor = fst\<rparr>)
      [''x'', ''y''] (3 :: nat, ''m'') =
      Ok ([(x, (3, ''m''))], FieldHashBucketRouting \<lparr>hash_one = of_nat, field_extractor = fst\<rparr>) \<and>
    policy_route Ok (FieldHashBucketRouting \<lparr>hash_one = of_nat, field_extractor = fst\<rparr>)
      [''x'', ''y''] (3, ''n'') =
      Ok ([(x, (3, ''n''))], FieldHashBucketRouting \<lparr>hash_one = of_nat, field_extractor = fst\<rparr>)"
  using hash_bucket_consistent [where members = "[''x'', ''y'']" and tc = Ok and msg = "(3 :: nat, ''m'')"
      and msg' = "(3, ''n'')" and r = "\<lparr>hash_one = of_nat, field_extractor = fst\<rparr>"]
  by auto

text \<open>
  a broadcast of a message that can be cloned calls every member exactly once, in order;
  a message that cannot be cloned reaches a group of one member, and no member of a larger
  group, and the broadcast still returns normally.
\<close>

theorem broadcast_reaches_all:
  assumes "try_clone msg = Ok msg \<or> (\<exists>e. try_clone msg = Err e)"
  shows "policy_route try_clone BroadcastRouting members msg =
    Ok (if length members \<le> 1 \<or> try_clone msg = Ok msg then map (\<lambda>m. (m, msg)) members else [],
        BroadcastRouting)"
proof (cases members)
  case Nil
  then show ?thesis by (simp add: policy_route_defs)
next
  case (Cons x xs)
  have "map (\<lambda>m. (m, msg)) (butlast (x # xs)) @ [(last (x # xs), msg)] = map (\<lambda>m. (m, msg)) (x # xs)"
    by (induction xs arbitrary: x) auto
  then show ?thesis
    using assms for_each_try_loop_ok [of try_clone msg msg x xs]
    by (cases xs) (auto simp: policy_route_defs Cons)
qed

theorem broadcast_reaches_all_witness:
  "policy_route Ok BroadcastRouting [''x'', ''y''] (7 :: nat) =
     Ok ([(''x'', 7), (''y'', 7)], BroadcastRouting) \<and>
   policy_route (\<lambda>_. Err NoClone) BroadcastRouting [''x'', ''y''] (7 :: nat) = Ok ([], BroadcastRouting)"
  using broadcast_reaches_all [of Ok 7 "[''x'', ''y'']"]
    broadcast_reaches_all [of "\<lambda>_. Err NoClone" 7 "[''x'', ''y'']"]
  by simp

text \<open>
  a routing group without members delivers nothing under a broadcast policy, but panics
  under both select policies, which take a remainder by the number of members.
\<close>

theorem empty_group_select_panics:
  "group_route tc \<lparr>rg_members = [], rg_policy = BroadcastRouting\<rparr> msg =
     Ok ([], \<lparr>rg_members = [], rg_policy = BroadcastRouting\<rparr>) \<and>
   group_route tc \<lparr>rg_members = [], rg_policy = RoundRobinRouting off\<rparr> msg = Panic \<and>
   group_route tc \<lparr>rg_members = [], rg_policy = FieldHashBucketRouting r\<rparr> msg = Panic"
  by (simp add: group_route_def policy_route_defs get_and_increment_index_def get_bucket_def)

end
