(* ===== verification/Actor_Store.thy ===== *)
theory Actor_Store
  imports Actor_Paths Path_Trie Routing
begin

section \<open>Actor lookup and garbage collection (\<open>core/src/dispatch/lookup\<close>)\<close>

text \<open>
  The \<open>ActorStore\<close> of \<open>mod.rs\<close>, which keeps actor references by unique id in a hash map and by
  name in the path trie, and the reaper of \<open>gc.rs\<close>, which prunes dead references and adapts its
  interval. A dynamic actor reference is the identity of its component; whether the weak
  pointer can still be upgraded is the argument \<open>alive\<close>. The lemmas give what lookups return
  after each operation, the members of routing groups, what removal and clean-up remove, and
  the bounds of the reaper's interval.
\<close>

subsection \<open>Data\<close>

datatype path_resolvable =
  Path actor_path | ActorId uuid | Alias string | Segments "string list" | System

datatype ('r, 'm, 't) actor_tree_entry = RefEntry 'r | PolicyEntry "('m, 't) routing_policy"

datatype ('r, 'm, 't) insert_result =
  InsertedRef 'r | InsertedPolicy "('m, 't) routing_policy" | InsertedNone

text \<open>The three lookup failures, in place of the formatted messages.\<close>

datatype lookup_error =
  ExpectedPolicy char "string list" | ExpectedBroadcast char "string list" | ExpectedSelect char "string list"

datatype ('r, 'm, 't) lookup_result =
  LookupRef 'r | LookupGroup "('m, 't, 'r) routing_group" | LookupNone | LookupErr lookup_error

record ('r, 'm, 't) actor_store =
  uuid_map :: "(uuid \<times> 'r) list"
  name_map :: "('r, 'm, 't) actor_tree_entry path_trie"
  deadletter :: "'r option"

text \<open>
  The build: debug assertions, the feature \<open>implicit_routes\<close>, and the default select policy
  (\<open>DEFAULT_SELECT_POLICY\<close>, a hash of the sender with the standard hasher).
\<close>

record ('m, 't) lookup_build =
  debug_assertions :: bool
  implicit_routes :: bool
  default_select :: "('m, 't) field_hash_bucket_routing"

definition store_new :: "('r, 'm, 't) actor_store" where
  "store_new = \<lparr>uuid_map = [], name_map = trie_new, deadletter = None\<rparr>"

fun insert_result_of_entry :: "('r, 'm, 't) actor_tree_entry option \<Rightarrow> ('r, 'm, 't) insert_result" where
  "insert_result_of_entry (Some (RefEntry a)) = InsertedRef a"
| "insert_result_of_entry (Some (PolicyEntry p)) = InsertedPolicy p"
| "insert_result_of_entry None = InsertedNone"

fun insert_result_of_ref :: "'r option \<Rightarrow> ('r, 'm, 't) insert_result" where
  "insert_result_of_ref (Some a) = InsertedRef a"
| "insert_result_of_ref None = InsertedNone"

definition lookup_result_of_ref :: "'r option \<Rightarrow> ('r, 'm, 't) lookup_result" where
  "lookup_result_of_ref x = (case x of Some a \<Rightarrow> LookupRef a | None \<Rightarrow> LookupNone)"

subsection \<open>Operations\<close>

definition insert_name ::
    "string list \<Rightarrow> ('r, 'm, 't) actor_tree_entry \<Rightarrow> ('r, 'm, 't) actor_store \<Rightarrow>
     ('r, 'm, 't) insert_result \<times> ('r, 'm, 't) actor_store" where
  "insert_name path entry s =
     (let (prev, t) = insert_owned path entry (name_map s)
      in (insert_result_of_entry prev, s\<lparr>name_map := t\<rparr>))"

definition insert_uuid ::
    "uuid \<Rightarrow> 'r \<Rightarrow> ('r, 'm, 't) actor_store \<Rightarrow> ('r, 'm, 't) insert_result \<times> ('r, 'm, 't) actor_store" where
  "insert_uuid key actor s =
     (insert_result_of_ref (map_of (uuid_map s) key),
      s\<lparr>uuid_map := AList.update key actor (uuid_map s)\<rparr>)"

fun store_insert ::
    "path_resolvable \<Rightarrow> 'r \<Rightarrow> ('r, 'm, 't) actor_store \<Rightarrow>
     (('r, 'm, 't) insert_result \<times> ('r, 'm, 't) actor_store, path_parse_error) rresult" where
  "store_insert (Path (Unique up)) actor s = Ok (insert_uuid (up_id up) actor s)"
| "store_insert (Path (Named np)) actor s = Ok (insert_name (np_path np) (RefEntry actor) s)"
| "store_insert (Alias alias) actor s =
     (let path = parse_path alias in
      rbind (validate_insert_path path) (\<lambda>_. Ok (insert_name path (RefEntry actor) s)))"
| "store_insert (Segments path) actor s =
     rbind (validate_insert_path path) (\<lambda>_. Ok (insert_name path (RefEntry actor) s))"
| "store_insert (ActorId u) actor s = Ok (insert_uuid u actor s)"
| "store_insert System actor s =
     Ok (insert_result_of_ref (deadletter s), s\<lparr>deadletter := Some actor\<rparr>)"

definition set_routing_policy ::
    "string list \<Rightarrow> ('m, 't) routing_policy \<Rightarrow> ('r, 'm, 't) actor_store \<Rightarrow>
     (('r, 'm, 't) insert_result \<times> ('r, 'm, 't) actor_store, path_parse_error) rresult" where
  "set_routing_policy path policy s =
     rbind (validate_insert_path path) (\<lambda>_. Ok (insert_name path (PolicyEntry policy) s))"

text \<open>Membership of a name: the path is checked by a debug assertion first.\<close>

definition contains_name ::
    "('m, 't) lookup_build \<Rightarrow> string list \<Rightarrow> ('r, 'm, 't) actor_store \<Rightarrow> (bool, unit) rresult" where
  "contains_name b path s =
     (if debug_assertions b \<and> validate_lookup_path path \<noteq> Ok () then Panic
      else Ok (trie_get path (name_map s) \<noteq> None))"

fun store_contains ::
    "('m, 't) lookup_build \<Rightarrow> path_resolvable \<Rightarrow> ('r, 'm, 't) actor_store \<Rightarrow> (bool, unit) rresult" where
  "store_contains b (Path (Unique up)) s = Ok (map_of (uuid_map s) (up_id up) \<noteq> None)"
| "store_contains b (Path (Named np)) s = contains_name b (np_path np) s"
| "store_contains b (Alias alias) s = contains_name b (parse_path alias) s"
| "store_contains b (Segments path) s = contains_name b path s"
| "store_contains b (ActorId u) s = Ok (map_of (uuid_map s) u \<noteq> None)"
| "store_contains b System s = Ok (deadletter s \<noteq> None)"

definition get_by_uuid :: "uuid \<Rightarrow> ('r, 'm, 't) actor_store \<Rightarrow> 'r option" where
  "get_by_uuid u s = map_of (uuid_map s) u"

text \<open>The actor references among the values below a node, in iteration order.\<close>

definition entry_ref :: "('r, 'm, 't) actor_tree_entry \<Rightarrow> 'r option" where
  "entry_ref e = (case e of RefEntry a \<Rightarrow> Some a | PolicyEntry _ \<Rightarrow> None)"

definition node_children :: "('r, 'm, 't) actor_tree_entry path_trie \<Rightarrow> 'r list" where
  "node_children node =
     List.map_filter entry_ref (values_take (Suc (length (trie_entries node))) (trie_values node))"

definition lookup_marker :: "string list \<Rightarrow> (string list \<times> char option, unit) rresult" where
  "lookup_marker path =
     (case last path of
        [] \<Rightarrow> Panic
      | c # _ \<Rightarrow>
          if c = BROADCAST_MARKER then Ok (butlast path, Some BROADCAST_MARKER)
          else if c = SELECT_MARKER then Ok (butlast path, Some SELECT_MARKER)
          else Ok (path, None))"

definition lookup_node ::
    "('m, 't) lookup_build \<Rightarrow> string list \<Rightarrow> char option \<Rightarrow> ('r, 'm, 't) actor_tree_entry path_trie \<Rightarrow>
     ('r, 'm, 't) lookup_result" where
  "lookup_node b path marker_opt node =
     (case trie_value node of
        Some (RefEntry aref) \<Rightarrow>
          (case marker_opt of
             Some marker \<Rightarrow> LookupErr (ExpectedPolicy marker path)
           | None \<Rightarrow> LookupRef aref)
      | Some (PolicyEntry policy) \<Rightarrow>
          (let children = node_children node in
           case marker_opt of
             Some marker \<Rightarrow>
               if marker = BROADCAST_MARKER then
                 (case policy_broadcast policy of
                    Some bp \<Rightarrow> LookupGroup \<lparr>rg_members = children, rg_policy = bp\<rparr>
                  | None \<Rightarrow> LookupErr (ExpectedBroadcast marker path))
               else
                 (case policy_select policy of
                    Some sp \<Rightarrow> LookupGroup \<lparr>rg_members = children, rg_policy = sp\<rparr>
                  | None \<Rightarrow> LookupErr (ExpectedSelect marker path))
           | None \<Rightarrow> LookupGroup \<lparr>rg_members = children, rg_policy = policy\<rparr>)
      | None \<Rightarrow>
          (case marker_opt of
             Some marker \<Rightarrow>
               if implicit_routes b then
                 LookupGroup \<lparr>rg_members = node_children node,
                   rg_policy = (if marker = BROADCAST_MARKER then BroadcastRouting
                                else FieldHashBucketRouting (default_select b))\<rparr>
               else LookupNone
           | None \<Rightarrow> LookupNone))"

definition get_by_named_path ::
    "('m, 't) lookup_build \<Rightarrow> string list \<Rightarrow> ('r, 'm, 't) actor_store \<Rightarrow>
     (('r, 'm, 't) lookup_result, unit) rresult" where
  "get_by_named_path b path s =
     (if path = [] then Ok (lookup_result_of_ref (deadletter s))
      else if debug_assertions b \<and> validate_lookup_path path \<noteq> Ok () then Panic
      else rbind (lookup_marker path) (\<lambda>(lookup_path, marker_opt).
        case get_node lookup_path (name_map s) of
          Some node \<Rightarrow> Ok (lookup_node b path marker_opt node)
        | None \<Rightarrow> Ok LookupNone))"

fun get_by_actor_path ::
    "('m, 't) lookup_build \<Rightarrow> actor_path \<Rightarrow> ('r, 'm, 't) actor_store \<Rightarrow>
     (('r, 'm, 't) lookup_result, unit) rresult" where
  "get_by_actor_path b (Unique up) s = Ok (lookup_result_of_ref (get_by_uuid (up_id up) s))"
| "get_by_actor_path b (Named np) s = get_by_named_path b (np_path np) s"

text \<open>
  \<open>PartialEq\<close> of \<open>DynActorRef\<close>: two references are equal when both components are still there
  and have the same id.
\<close>

definition dyn_ref_eq :: "('r \<Rightarrow> bool) \<Rightarrow> 'r \<Rightarrow> 'r \<Rightarrow> bool" where
  "dyn_ref_eq alive x y \<longleftrightarrow> alive x \<and> alive y \<and> x = y"

text \<open>
  The closures given to \<open>retain\<close> keep every policy and test the actor references.
\<close>

definition keep_entry :: "('r \<Rightarrow> bool) \<Rightarrow> ('r, 'm, 't) actor_tree_entry \<Rightarrow> bool" where
  "keep_entry keep e = (case e of RefEntry a \<Rightarrow> keep a | PolicyEntry _ \<Rightarrow> True)"

text \<open>Collecting the matching ids first and removing them afterwards.\<close>

definition remove_uuids :: "('r \<Rightarrow> bool) \<Rightarrow> (uuid \<times> 'r) list \<Rightarrow> nat \<times> (uuid \<times> 'r) list" where
  "remove_uuids matching m =
     (let matches = map fst (filter (\<lambda>rec. matching (snd rec)) m)
      in (length matches, fold AList.delete matches m))"

definition remove_from_uuid_map ::
    "('r \<Rightarrow> bool) \<Rightarrow> 'r \<Rightarrow> ('r, 'm, 't) actor_store \<Rightarrow> nat \<times> ('r, 'm, 't) actor_store" where
  "remove_from_uuid_map alive actor s =
     (let (existed, m) = remove_uuids (\<lambda>r. dyn_ref_eq alive r actor) (uuid_map s)
      in (existed, s\<lparr>uuid_map := m\<rparr>))"

definition remove_from_name_map ::
    "('r \<Rightarrow> bool) \<Rightarrow> 'r \<Rightarrow> ('r, 'm, 't) actor_store \<Rightarrow> nat \<times> ('r, 'm, 't) actor_store" where
  "remove_from_name_map alive actor s =
     (let (n, t) = trie_retain (keep_entry (\<lambda>other. \<not> dyn_ref_eq alive actor other)) (name_map s)
      in (n, s\<lparr>name_map := t\<rparr>))"

definition store_remove ::
    "('r \<Rightarrow> bool) \<Rightarrow> 'r \<Rightarrow> ('r, 'm, 't) actor_store \<Rightarrow> nat \<times> ('r, 'm, 't) actor_store" where
  "store_remove alive actor s =
     (let (n1, s1) = remove_from_uuid_map alive actor s;
          (n2, s2) = remove_from_name_map alive actor s1
      in (n1 + n2, s2))"

definition remove_by_uuid :: "uuid \<Rightarrow> ('r, 'm, 't) actor_store \<Rightarrow> bool \<times> ('r, 'm, 't) actor_store" where
  "remove_by_uuid u s =
     (map_of (uuid_map s) u \<noteq> None, s\<lparr>uuid_map := AList.delete u (uuid_map s)\<rparr>)"

definition remove_by_named_path ::
    "string list \<Rightarrow> ('r, 'm, 't) actor_store \<Rightarrow> bool \<times> ('r, 'm, 't) actor_store" where
  "remove_by_named_path path s =
     (let existed = (trie_get path (name_map s) \<noteq> None)
      in (existed, s\<lparr>name_map := snd (trie_remove path (name_map s))\<rparr>))"

definition remove_deallocated_entries ::
    "('r \<Rightarrow> bool) \<Rightarrow> ('r, 'm, 't) actor_store \<Rightarrow> nat \<times> ('r, 'm, 't) actor_store" where
  "remove_deallocated_entries alive s =
     (let (n1, t) = trie_retain (keep_entry alive) (name_map s);
          (n2, m) = remove_uuids (\<lambda>actor. \<not> alive actor) (uuid_map s)
      in (n1 + n2, s\<lparr>name_map := t, uuid_map := m\<rparr>))"

definition store_cleanup ::
    "('r \<Rightarrow> bool) \<Rightarrow> ('r, 'm, 't) actor_store \<Rightarrow> nat \<times> ('r, 'm, 't) actor_store" where
  "store_cleanup alive s = remove_deallocated_entries alive s"

subsection \<open>The reaper\<close>

datatype feedback_algorithm = Aimd | Mimd

record update_strategy =
  us_curr :: u64
  us_incr :: u64
  us_decr :: u64
  us_min :: u64
  us_max :: u64
  us_algo :: feedback_algorithm

record actor_ref_reaper =
  scheduled :: bool
  strategy :: update_strategy

definition update_strategy_new ::
    "u64 \<Rightarrow> u64 \<Rightarrow> u64 \<Rightarrow> u64 \<Rightarrow> u64 \<Rightarrow> feedback_algorithm \<Rightarrow> update_strategy" where
  "update_strategy_new c mn mx i d algo =
     \<lparr>us_curr = c, us_incr = i, us_decr = d, us_min = mn, us_max = mx, us_algo = algo\<rparr>"

definition reaper_new ::
    "u64 \<Rightarrow> u64 \<Rightarrow> u64 \<Rightarrow> u64 \<Rightarrow> u64 \<Rightarrow> feedback_algorithm \<Rightarrow> actor_ref_reaper" where
  "reaper_new initial mn mx i d algo =
     \<lparr>scheduled = False, strategy = update_strategy_new initial mn mx i d algo\<rparr>"

definition reaper_default :: actor_ref_reaper where
  "reaper_default = reaper_new 500 20 5000 500 2 Aimd"

text \<open>The configuration is what \<open>select(...).as_string().ok()\<close> yields for the algorithm key.\<close>

definition reaper_from_config :: "string option \<Rightarrow> (actor_ref_reaper, unit) rresult" where
  "reaper_from_config conf =
     rbind (case conf of
              Some name \<Rightarrow> if name = ''AIMD'' then Ok Aimd else if name = ''MIMD'' then Ok Mimd else Panic
            | None \<Rightarrow> Ok Aimd)
       (\<lambda>algo. Ok (reaper_new 500 20 5000 500 2 algo))"

text \<open>
  Integer arithmetic on \<open>u64\<close>: an overflow panics when overflow checks are compiled in
  (\<open>chk\<close>) and wraps otherwise.
\<close>

definition u64_add :: "bool \<Rightarrow> u64 \<Rightarrow> u64 \<Rightarrow> (u64, 'e) rresult" where
  "u64_add chk a b = (if chk \<and> unat a + unat b \<ge> 2 ^ 64 then Panic else Ok (a + b))"

definition u64_mul :: "bool \<Rightarrow> u64 \<Rightarrow> u64 \<Rightarrow> (u64, 'e) rresult" where
  "u64_mul chk a b = (if chk \<and> unat a * unat b \<ge> 2 ^ 64 then Panic else Ok (a * b))"

definition strategy_incr :: "bool \<Rightarrow> update_strategy \<Rightarrow> (update_strategy, unit) rresult" where
  "strategy_incr chk st =
     rbind (case us_algo st of
              Aimd \<Rightarrow> u64_add chk (us_curr st) (us_incr st)
            | Mimd \<Rightarrow> u64_mul chk (us_curr st) (us_incr st))
       (\<lambda>v. Ok (st\<lparr>us_curr := min v (us_max st)\<rparr>))"

definition strategy_decr :: "update_strategy \<Rightarrow> (update_strategy, unit) rresult" where
  "strategy_decr st =
     (if us_decr st = 0 then Panic
      else Ok (st\<lparr>us_curr := max (us_curr st div us_decr st) (us_min st)\<rparr>))"

definition reaper_run ::
    "('r \<Rightarrow> bool) \<Rightarrow> ('r, 'm, 't) actor_store \<Rightarrow> nat \<times> ('r, 'm, 't) actor_store" where
  "reaper_run alive table = store_cleanup alive table"

text \<open>The reaper's part of \<open>schedule_reaper\<close> of the network dispatcher, with the next wake-up.\<close>

definition schedule_reaper ::
    "bool \<Rightarrow> ('r \<Rightarrow> bool) \<Rightarrow> actor_ref_reaper \<Rightarrow> ('r, 'm, 't) actor_store \<Rightarrow>
     (u64 \<times> actor_ref_reaper \<times> ('r, 'm, 't) actor_store, unit) rresult" where
  "schedule_reaper chk alive r table =
     (if \<not> scheduled r then Ok (us_curr (strategy r), r\<lparr>scheduled := True\<rparr>, table)
      else
        (let (num_reaped, table') = reaper_run alive table in
         rbind (if num_reaped = 0 then strategy_incr chk (strategy r) else strategy_decr (strategy r))
           (\<lambda>st. Ok (us_curr st, r\<lparr>strategy := st\<rparr>, table'))))"

subsection \<open>Invariant\<close>

definition store_wf :: "('r, 'm, 't) actor_store \<Rightarrow> bool" where
  "store_wf s \<longleftrightarrow> distinct (map fst (uuid_map s)) \<and> trie_wf (name_map s)"

lemma insert_name_facts:
  assumes "store_wf s"
  shows "\<exists>s'. insert_name path e s = (insert_result_of_entry (trie_get path (name_map s)), s') \<and>
    store_wf s' \<and> uuid_map s' = uuid_map s \<and> deadletter s' = deadletter s \<and>
    (\<forall>q. trie_get q (name_map s') = (if q = path then Some e else trie_get q (name_map s)))"
  using assms owned.ins_ok [of "name_map s" path e]
  by (auto simp: store_wf_def insert_name_def)

lemma insert_uuid_facts:
  assumes "store_wf s"
  shows "store_wf (snd (insert_uuid u a s)) \<and>
    (\<forall>v. map_of (uuid_map (snd (insert_uuid u a s))) v = (if v = u then Some a else map_of (uuid_map s) v))"
  using assms by (auto simp: store_wf_def insert_uuid_def distinct_update update_conv')

text \<open>Pruning references that fail a condition from both tables.\<close>

definition prune_opt :: "('a \<Rightarrow> bool) \<Rightarrow> 'a option \<Rightarrow> 'a option" where
  "prune_opt keep x = (case x of Some a \<Rightarrow> if keep a then Some a else None | None \<Rightarrow> None)"

lemma fold_delete:
  "distinct (map fst m) \<Longrightarrow> distinct (map fst (fold AList.delete ks m)) \<and>
     (\<forall>u. map_of (fold AList.delete ks m) u = (if u \<in> set ks then None else map_of m u))"
  by (induction ks arbitrary: m) (auto simp: distinct_delete delete_conv')

lemma remove_uuids_facts:
  assumes "distinct (map fst m)" and "remove_uuids P m = (n, m')"
  shows "distinct (map fst m') \<and>
    (\<forall>u. map_of m' u = prune_opt (\<lambda>r. \<not> P r) (map_of m u)) \<and>
    n = card {u. \<exists>r. map_of m u = Some r \<and> P r}"
proof -
  let ?ks = "map fst (filter (\<lambda>rec. P (snd rec)) m)"
  have m': "m' = fold AList.delete ?ks m" "n = length ?ks"
    using assms(2) by (simp_all add: remove_uuids_def Let_def)
  have keys: "set ?ks = {u. \<exists>r. map_of m u = Some r \<and> P r}"
    using map_of_eq_Some_iff [OF assms(1)] by force
  have "distinct ?ks" using assms(1) by (simp add: distinct_map_filter)
  then have "n = card {u. \<exists>r. map_of m u = Some r \<and> P r}"
    unfolding keys [symmetric] m'(2) by (rule distinct_card [symmetric])
  moreover have "map_of m' u = prune_opt (\<lambda>r. \<not> P r) (map_of m u)" for u
    using fold_delete [OF assms(1), of ?ks] unfolding m'(1) keys
    by (auto simp: prune_opt_def split: option.split)
  ultimately show ?thesis using fold_delete [OF assms(1), of ?ks] by (simp add: m'(1))
qed

lemma prune_facts:
  assumes "store_wf s"
    and "trie_retain (keep_entry keep) (name_map s) = (n1, t)"
    and "remove_uuids (\<lambda>a. \<not> keep a) (uuid_map s) = (n2, m)"
  shows "store_wf (s\<lparr>name_map := t, uuid_map := m\<rparr>) \<and>
    (\<forall>u. map_of m u = prune_opt keep (map_of (uuid_map s) u)) \<and>
    (\<forall>q. trie_get q t = prune_opt (keep_entry keep) (trie_get q (name_map s))) \<and>
    n2 = card {u. \<exists>a. map_of (uuid_map s) u = Some a \<and> \<not> keep a} \<and>
    n1 = card {q. \<exists>a. trie_get q (name_map s) = Some (RefEntry a) \<and> \<not> keep a}"
proof -
  have wf: "distinct (map fst (uuid_map s))" "trie_wf (name_map s)"
    using assms(1) by (simp_all add: store_wf_def)
  have "{k. \<exists>v. trie_get k (name_map s) = Some v \<and> \<not> keep_entry keep v} =
      {q. \<exists>a. trie_get q (name_map s) = Some (RefEntry a) \<and> \<not> keep a}"
    by (auto simp: keep_entry_def split: actor_tree_entry.splits) (metis actor_tree_entry.exhaust)
  with trie_retain_facts [OF wf(2) assms(2)] remove_uuids_facts [OF wf(1) assms(3)]
  show ?thesis by (simp add: store_wf_def) (simp add: prune_opt_def)
qed

subsection \<open>Properties of the store\<close>

lemma insert_path_first_char:
  assumes "\<forall>s \<in> set path. insert_segment_ok s" "path \<noteq> []"
  shows "lookup_marker path = Ok (path, None)"
proof -
  have ok: "insert_segment_ok (last path)" using assms by simp
  then obtain c cs where "last path = c # cs" by (cases "last path") (auto simp: insert_segment_ok_def)
  with ok show ?thesis by (auto simp: lookup_marker_def insert_segment_ok_def)
qed

lemma get_node_of_get: "trie_get q t = Some v \<Longrightarrow> \<exists>node. get_node q t = Some node \<and> trie_value node = Some v"
  by (auto simp: trie_get_def bind_eq_Some_conv)

lemma lookup_plain_ref:
  assumes "\<forall>s \<in> set path. insert_segment_ok s" "path \<noteq> []"
    and "trie_get path (name_map s) = Some (RefEntry a)"
  shows "get_by_named_path b path s = Ok (LookupRef a)"
proof -
  obtain node where "get_node path (name_map s) = Some node" "trie_value node = Some (RefEntry a)"
    using get_node_of_get [OF assms(3)] by auto
  then show ?thesis
    using assms insert_path_lookup [OF assms(1)]
    by (simp add: get_by_named_path_def insert_path_first_char lookup_node_def)
qed

text \<open>
  C22: registering an actor under a path that passes the insert check makes exactly this path
  resolve to the actor, in both build modes; it returns what the path held before, leaves
  the entries of all other paths, the unique ids and the dead letter box alone, and keeps the
  store well-formed.
\<close>

theorem store_insert_lookup:
  assumes "store_wf s" and "store_insert (Segments path) actor s = Ok (prev, s')" and "path \<noteq> []"
  shows "store_wf s' \<and> get_by_named_path b path s' = Ok (LookupRef actor) \<and>
    store_contains b (Segments path) s' = Ok True \<and>
    prev = insert_result_of_entry (trie_get path (name_map s)) \<and>
    (\<forall>q. q \<noteq> path \<longrightarrow> trie_get q (name_map s') = trie_get q (name_map s)) \<and>
    (\<forall>u. get_by_uuid u s' = get_by_uuid u s) \<and> deadletter s' = deadletter s"
proof -
  have ok: "\<forall>x \<in> set path. insert_segment_ok x"
    and ins: "insert_name path (RefEntry actor) s = (prev, s')"
    using assms(2) validate_insert_path_Ok [of path] by (auto simp: rbind_unit_Ok)
  from insert_name_facts [OF assms(1), of path "RefEntry actor"] ins
  have f: "store_wf s'" "uuid_map s' = uuid_map s" "deadletter s' = deadletter s"
    "prev = insert_result_of_entry (trie_get path (name_map s))"
    "\<And>q. trie_get q (name_map s') = (if q = path then Some (RefEntry actor) else trie_get q (name_map s))"
    by auto
  have "get_by_named_path b path s' = Ok (LookupRef actor)"
    by (rule lookup_plain_ref [OF ok assms(3)]) (simp add: f(5))
  with f insert_path_lookup [OF ok] show ?thesis
    by (simp add: get_by_uuid_def contains_name_def)
qed

definition sample_build :: "(nat, nat) lookup_build" where
  "sample_build = \<lparr>debug_assertions = True, implicit_routes = True,
     default_select = \<lparr>hash_one = of_nat, field_extractor = id\<rparr>\<rparr>"

theorem store_insert_lookup_witness:
  "\<exists>s' :: (nat, nat, nat) actor_store.
     store_insert (Segments [''a'', ''b'']) 7 store_new = Ok (InsertedNone, s') \<and>
     get_by_named_path sample_build [''a'', ''b''] s' = Ok (LookupRef 7)"
proof -
  have wf: "store_wf (store_new :: (nat, nat, nat) actor_store)"
    by (simp add: store_wf_def store_new_def)
  have v: "validate_insert_path [''a'', ''b''] = Ok ()" by code_simp
  then obtain prev and s' :: "(nat, nat, nat) actor_store" where
    r: "store_insert (Segments [''a'', ''b'']) 7 store_new = Ok (prev, s')"
    by (cases "insert_name [''a'', ''b''] (RefEntry 7) (store_new :: (nat, nat, nat) actor_store)") simp
  from store_insert_lookup [OF wf r, of sample_build] r show ?thesis
    by (simp add: store_new_def)
qed

text \<open>
  clean-up removes exactly the references whose component is gone, from both tables, keeps
  routing policies and the dead letter box, and returns how many entries it removed.
\<close>

theorem store_cleanup_spec:
  assumes "store_wf s" and "store_cleanup alive s = (n, s')"
  shows "store_wf s' \<and> deadletter s' = deadletter s \<and>
    (\<forall>u. get_by_uuid u s' = prune_opt alive (get_by_uuid u s)) \<and>
    (\<forall>q. trie_get q (name_map s') = prune_opt (keep_entry alive) (trie_get q (name_map s))) \<and>
    n = card {u. \<exists>a. get_by_uuid u s = Some a \<and> \<not> alive a} +
        card {q. \<exists>a. trie_get q (name_map s) = Some (RefEntry a) \<and> \<not> alive a}"
proof -
  obtain n1 t where t: "trie_retain (keep_entry alive) (name_map s) = (n1, t)" by force
  obtain n2 m where m: "remove_uuids (\<lambda>a. \<not> alive a) (uuid_map s) = (n2, m)" by force
  have "s' = s\<lparr>name_map := t, uuid_map := m\<rparr>" "n = n1 + n2"
    using assms(2) t m
    by (auto simp: store_cleanup_def remove_deallocated_entries_def)
  with prune_facts [OF assms(1) t m] show ?thesis by (simp add: get_by_uuid_def)
qed

definition sample_store :: "(nat, nat, nat) actor_store" where
  "sample_store = \<lparr>uuid_map = [(1, 10), (2, 20)],
     name_map = PathTrie None [(''g'', PathTrie (Some (PolicyEntry BroadcastRouting))
       [(''x'', PathTrie (Some (RefEntry 10)) []), (''y'', PathTrie (Some (RefEntry 20)) [])])],
     deadletter = Some 99\<rparr>"

lemma sample_store_wf: "store_wf sample_store"
  by (simp add: store_wf_def sample_store_def)

theorem store_cleanup_spec_witness:
  "\<exists>s'. store_cleanup (\<lambda>a. a \<noteq> 20) sample_store = (2, s') \<and>
     get_by_uuid 1 s' = Some 10 \<and> get_by_uuid 2 s' = None \<and>
     trie_get [''g'', ''y''] (name_map s') = None"
proof -
  obtain s' where c: "store_cleanup (\<lambda>a. a \<noteq> 20) sample_store = (2, s')"
    by (simp add: store_cleanup_def remove_deallocated_entries_def sample_store_def trie_retain_def
        remove_uuids_def keep_entry_def)
  note spec = store_cleanup_spec [OF sample_store_wf c]
  have "trie_get [''g'', ''y''] (name_map s') =
      prune_opt (keep_entry (\<lambda>a. a \<noteq> 20)) (trie_get [''g'', ''y''] (name_map sample_store))"
    using spec by blast
  also have "\<dots> = None" by (simp add: prune_opt_def keep_entry_def sample_store_def)
  finally have "trie_get [''g'', ''y''] (name_map s') = None" .
  moreover have "get_by_uuid 1 s' = prune_opt (\<lambda>a. a \<noteq> 20) (Some 10)"
    "get_by_uuid 2 s' = prune_opt (\<lambda>a. a \<noteq> 20) (Some 20)"
    using spec by (simp_all add: get_by_uuid_def sample_store_def)
  ultimately show ?thesis using c by (simp add: prune_opt_def)
qed

text \<open>
  removing an actor whose component is alive removes exactly the entries that refer to it,
  from both tables, and returns their number; for an actor whose component is already gone it
  removes nothing, because such a reference equals no reference.
\<close>

theorem store_remove_spec:
  assumes "store_wf s" and "store_remove alive actor s = (n, s')"
  shows "store_wf s' \<and> deadletter s' = deadletter s \<and>
    (\<forall>u. get_by_uuid u s' = prune_opt (\<lambda>a. \<not> (alive actor \<and> a = actor)) (get_by_uuid u s)) \<and>
    (\<forall>q. trie_get q (name_map s') =
       prune_opt (keep_entry (\<lambda>a. \<not> (alive actor \<and> a = actor))) (trie_get q (name_map s))) \<and>
    n = (if alive actor then card {u. get_by_uuid u s = Some actor} +
           card {q. trie_get q (name_map s) = Some (RefEntry actor)} else 0)"
proof -
  let ?keep = "\<lambda>a. \<not> (alive actor \<and> a = actor)"
  obtain n1 t where t: "trie_retain (keep_entry ?keep) (name_map s) = (n1, t)" by force
  obtain n2 m where m: "remove_uuids (\<lambda>a. \<not> ?keep a) (uuid_map s) = (n2, m)" by force
  have "(\<lambda>r. dyn_ref_eq alive r actor) = (\<lambda>a. \<not> ?keep a)"
    "(\<lambda>other. \<not> dyn_ref_eq alive actor other) = ?keep"
    by (auto simp: fun_eq_iff dyn_ref_eq_def)
  then have "s' = s\<lparr>name_map := t, uuid_map := m\<rparr>" "n = n1 + n2"
    using assms(2) t m by (auto simp: store_remove_def remove_from_uuid_map_def remove_from_name_map_def)
  with prune_facts [OF assms(1) t m] show ?thesis by (auto simp: get_by_uuid_def)
qed

theorem store_remove_spec_witness:
  "\<exists>s'. store_remove (\<lambda>_. True) 10 sample_store = (2, s') \<and> get_by_uuid 1 s' = None \<and>
     get_by_uuid 2 s' = Some 20 \<and> trie_get [''g'', ''x''] (name_map s') = None"
proof -
  obtain s' where c: "store_remove (\<lambda>_. True) 10 sample_store = (2, s')"
    by (simp add: store_remove_def remove_from_uuid_map_def remove_from_name_map_def sample_store_def
        trie_retain_def remove_uuids_def dyn_ref_eq_def keep_entry_def)
  note spec = store_remove_spec [OF sample_store_wf c]
  have "trie_get [''g'', ''x''] (name_map s') =
      prune_opt (keep_entry (\<lambda>a. \<not> (True \<and> a = 10))) (trie_get [''g'', ''x''] (name_map sample_store))"
    using spec by blast
  also have "\<dots> = None" by (simp add: prune_opt_def keep_entry_def sample_store_def)
  finally have "trie_get [''g'', ''x''] (name_map s') = None" .
  moreover have "get_by_uuid 1 s' = prune_opt (\<lambda>a. \<not> (True \<and> a = 10)) (Some 10)"
    "get_by_uuid 2 s' = prune_opt (\<lambda>a. \<not> (True \<and> a = 10)) (Some 20)"
    using spec by (simp_all add: get_by_uuid_def sample_store_def)
  ultimately show ?thesis using c by (simp add: prune_opt_def)
qed

text \<open>The children of a node, by path.\<close>

lemma mset_map_filter: "mset (List.map_filter f xs) = image_mset (the \<circ> f) (filter_mset (\<lambda>x. f x \<noteq> None) (mset xs))"
  by (induction xs) (auto simp: map_filter_def)

lemma node_children_mset:
  assumes "trie_wf t" and "get_node path t = Some node" and "trie_wf node"
  shows "mset (node_children node) =
    image_mset (\<lambda>q. the (entry_ref (the (trie_get (path @ q) t))))
      (mset_set {q. \<exists>a. trie_get (path @ q) t = Some (RefEntry a)})"
proof -
  have get: "trie_get q node = trie_get (path @ q) t" for q
    using get_node_append [OF assms(2)] by simp
  let ?K = "{q. trie_get q node \<noteq> None}"
  have keys: "?K = fst ` set (trie_entries node)"
    using entries_keys [OF assms(3)] by (force simp: image_iff)
  have "card ?K \<le> length (trie_entries node)"
    unfolding keys by (metis card_length length_map set_map)
  then have v: "mset (values_take (Suc (length (trie_entries node))) (trie_values node)) =
      image_mset (\<lambda>k. the (trie_get k node)) (mset_set ?K)"
    by (intro values_take_keys assms(3)) simp
  have fin: "finite ?K" unfolding keys by simp
  have sub: "{k \<in> ?K. entry_ref (the (trie_get k node)) \<noteq> None} = {q. \<exists>a. trie_get q node = Some (RefEntry a)}"
    by (auto simp: entry_ref_def split: actor_tree_entry.splits) (metis actor_tree_entry.exhaust)+
  have "mset (node_children node) = image_mset (\<lambda>q. the (entry_ref (the (trie_get q node))))
      (mset_set {q. \<exists>a. trie_get q node = Some (RefEntry a)})"
    unfolding node_children_def mset_map_filter v filter_mset_image_mset filter_mset_mset_set [OF fin] sub
    by (simp add: multiset.map_comp comp_def)
  then show ?thesis by (simp add: get)
qed

lemma trie_wf_get_node: "trie_wf t \<Longrightarrow> get_node path t = Some node \<Longrightarrow> trie_wf node"
  by (cases path) (auto dest: get_node_nonempty simp del: get_node.simps(2))

text \<open>
  looking up a path that ends in the broadcast marker, at a place that holds a broadcast
  policy, yields a routing group that contains every actor reference registered anywhere
  below that place exactly once; at a place with a select policy, the select marker yields
  the group with that policy.
\<close>

theorem group_lookup_members:
  assumes "store_wf s" and "validate_lookup_path (path @ [[marker]]) = Ok ()"
    and "trie_get path (name_map s) = Some (PolicyEntry policy)"
    and "marker = BROADCAST_MARKER \<and> policy_broadcast policy = Some p \<or>
         marker = SELECT_MARKER \<and> policy_select policy = Some p"
  shows "\<exists>members. get_by_named_path b (path @ [[marker]]) s =
      Ok (LookupGroup \<lparr>rg_members = members, rg_policy = p\<rparr>) \<and>
    mset members = image_mset (\<lambda>q. the (entry_ref (the (trie_get (path @ q) (name_map s)))))
      (mset_set {q. \<exists>a. trie_get (path @ q) (name_map s) = Some (RefEntry a)})"
proof -
  obtain node where node: "get_node path (name_map s) = Some node"
    "trie_value node = Some (PolicyEntry policy)"
    using get_node_of_get [OF assms(3)] by auto
  have wf: "trie_wf (name_map s)" using assms(1) by (simp add: store_wf_def)
  have "get_by_named_path b (path @ [[marker]]) s =
      Ok (LookupGroup \<lparr>rg_members = node_children node, rg_policy = p\<rparr>)"
    using assms(2,4) node
    by (auto simp: get_by_named_path_def lookup_marker_def lookup_node_def path_chars)
  then show ?thesis
    using node_children_mset [OF wf node(1) trie_wf_get_node [OF wf node(1)]] by auto
qed

theorem group_lookup_members_witness:
  "\<exists>members. get_by_named_path sample_build [''g'', ''*''] sample_store =
      Ok (LookupGroup \<lparr>rg_members = members, rg_policy = BroadcastRouting\<rparr>) \<and> mset members = {#10, 20#}"
proof -
  have v: "validate_lookup_path ([''g''] @ [[CHR ''*'']]) = Ok ()" by code_simp
  have p: "trie_get [''g''] (name_map sample_store) = Some (PolicyEntry BroadcastRouting)"
    by (simp add: sample_store_def)
  have m: "CHR ''*'' = BROADCAST_MARKER \<and> policy_broadcast BroadcastRouting = Some BroadcastRouting \<or>
     CHR ''*'' = SELECT_MARKER \<and>
       policy_select (BroadcastRouting :: (nat, nat) routing_policy) = Some BroadcastRouting"
    by (simp add: BROADCAST_MARKER_def policy_broadcast_def)
  from group_lookup_members [OF sample_store_wf v p m, of sample_build] obtain members where
    r: "get_by_named_path sample_build [''g'', ''*''] sample_store =
      Ok (LookupGroup \<lparr>rg_members = members, rg_policy = BroadcastRouting\<rparr>)" by auto
  have "get_by_named_path sample_build [''g'', ''*''] sample_store =
      Ok (LookupGroup \<lparr>rg_members = [10, 20], rg_policy = BroadcastRouting\<rparr>)"
    using v by (simp add: get_by_named_path_def lookup_marker_def lookup_node_def path_chars sample_store_def
        node_children_def trie_values_def values_next_def map_filter_def entry_ref_def policy_broadcast_def
        del: validate_lookup_path_Ok)
  with r show ?thesis by auto
qed

text \<open>
  a named path whose last segment merely starts with a marker character passes the lookup
  check and can be registered as an actor path, but no lookup ever finds the actor there; the
  same holds for the empty named path, which resolves to the dead letter box instead.
\<close>

theorem marker_prefix_unreachable:
  assumes "store_wf s" and "store_insert (Path (Named np)) actor s = Ok (prev, s')"
    and "validate_lookup_path (np_path np) = Ok ()"
    and "np_path np = [] \<and> deadletter s \<noteq> Some actor \<or>
         np_path np \<noteq> [] \<and> hd (last (np_path np)) \<in> {BROADCAST_MARKER, SELECT_MARKER}"
  shows "store_contains b (Path (Named np)) s' = Ok True \<and>
    get_by_actor_path b (Named np) s' \<noteq> Ok (LookupRef actor)"
proof -
  from insert_name_facts [OF assms(1), of "np_path np" "RefEntry actor"] assms(2)
  have f: "deadletter s' = deadletter s" "trie_get (np_path np) (name_map s') = Some (RefEntry actor)"
    by auto
  have "get_by_named_path b (np_path np) s' \<noteq> Ok (LookupRef actor)"
  proof (cases "np_path np = []")
    case True
    with assms(4) f(1) show ?thesis
      by (auto simp: get_by_named_path_def lookup_result_of_ref_def split: option.splits)
  next
    case False
    have "last (np_path np) \<noteq> []"
      using lookup_path_ok_segment [OF _ last_in_set [OF False]] assms(3) by simp
    with False assms(4) obtain lp m where "lookup_marker (np_path np) = Ok (lp, Some m)"
      by (cases "last (np_path np)") (auto simp: lookup_marker_def path_chars)
    then show ?thesis
      using False by (auto simp: get_by_named_path_def lookup_node_def Let_def
          split: option.splits actor_tree_entry.splits if_splits)
  qed
  with f(2) assms(3) show ?thesis by (simp add: contains_name_def)
qed

theorem marker_prefix_unreachable_witness:
  "\<exists>s'. store_insert (Path (Named \<lparr>np_system = sample_system, np_path = [''*foo'']\<rparr>)) 7 sample_store =
       Ok (InsertedNone, s') \<and>
     store_contains sample_build (Path (Named \<lparr>np_system = sample_system, np_path = [''*foo'']\<rparr>)) s' = Ok True \<and>
     get_by_actor_path sample_build (Named \<lparr>np_system = sample_system, np_path = [''*foo'']\<rparr>) s' \<noteq>
       Ok (LookupRef 7)"
proof -
  let ?np = "\<lparr>np_system = sample_system, np_path = [''*foo'']\<rparr>"
  obtain s' where r: "store_insert (Path (Named ?np)) 7 sample_store = Ok (InsertedNone, s')"
    by (simp add: insert_name_def insert_owned_def sample_store_def trie_new_def)
  have v: "validate_lookup_path (np_path ?np) = Ok ()" by code_simp
  have c: "np_path ?np = [] \<and> deadletter sample_store \<noteq> Some 7 \<or>
      np_path ?np \<noteq> [] \<and> hd (last (np_path ?np)) \<in> {BROADCAST_MARKER, SELECT_MARKER}"
    by (simp add: path_chars)
  from marker_prefix_unreachable [OF sample_store_wf r v c, of sample_build] r show ?thesis by blast
qed

subsection \<open>Properties of the reaper\<close>

definition strategy_ok :: "update_strategy \<Rightarrow> bool" where
  "strategy_ok st \<longleftrightarrow> us_min st \<le> us_curr st \<and> us_curr st \<le> us_max st \<and> us_decr st \<noteq> 0 \<and>
     (case us_algo st of
        Aimd \<Rightarrow> unat (us_max st) + unat (us_incr st) < 2 ^ 64
      | Mimd \<Rightarrow> us_incr st \<noteq> 0 \<and> unat (us_max st) * unat (us_incr st) < 2 ^ 64)"

lemma unat_add_small: "unat (a :: u64) + unat b < 2 ^ 64 \<Longrightarrow> unat (a + b) = unat a + unat b"
  by (simp add: unat_word_ariths)

lemma unat_mult_small: "unat (a :: u64) * unat b < 2 ^ 64 \<Longrightarrow> unat (a * b) = unat a * unat b"
  by (simp add: unat_word_ariths)

lemma strategy_incr_ok:
  assumes "strategy_ok st"
  shows "\<exists>st'. strategy_incr chk st = Ok st' \<and> strategy_ok st' \<and> us_curr st \<le> us_curr st' \<and>
    us_min st' = us_min st \<and> us_max st' = us_max st"
proof -
  have le: "unat (us_min st) \<le> unat (us_curr st)" "unat (us_curr st) \<le> unat (us_max st)"
    using assms by (simp_all add: strategy_ok_def word_le_nat_alt)
  define v where "v = (case us_algo st of Aimd \<Rightarrow> us_curr st + us_incr st | Mimd \<Rightarrow> us_curr st * us_incr st)"
  have step: "strategy_incr chk st = Ok (st\<lparr>us_curr := min v (us_max st)\<rparr>) \<and> us_curr st \<le> v"
  proof (cases "us_algo st")
    case Aimd
    then have "unat (us_curr st) + unat (us_incr st) < 2 ^ 64"
      using assms le by (simp add: strategy_ok_def)
    with Aimd unat_add_small [OF this] show ?thesis
      by (simp add: strategy_incr_def u64_add_def v_def word_le_nat_alt)
  next
    case Mimd
    then have "unat (us_max st) * unat (us_incr st) < 2 ^ 64" and pos: "us_incr st \<noteq> 0"
      using assms by (simp_all add: strategy_ok_def)
    then have "unat (us_curr st) * unat (us_incr st) < 2 ^ 64"
      using mult_le_mono1 [OF le(2), of "unat (us_incr st)"] by linarith
    moreover have "0 < unat (us_incr st)" using pos by (simp add: unat_gt_0)
    ultimately show ?thesis using Mimd unat_mult_small [of "us_curr st" "us_incr st"]
      by (simp add: strategy_incr_def u64_mul_def v_def word_le_nat_alt)
  qed
  have c: "us_min st \<le> us_curr st" "us_curr st \<le> us_max st"
    using assms by (simp_all add: strategy_ok_def)
  have "us_curr st \<le> min v (us_max st)" using step c(2) by simp
  with step c(1) assms show ?thesis
    by (auto simp: strategy_ok_def split: feedback_algorithm.splits)
qed

lemma strategy_decr_ok:
  assumes "strategy_ok st"
  shows "\<exists>st'. strategy_decr st = Ok st' \<and> strategy_ok st' \<and> us_curr st' \<le> us_curr st \<and>
    us_min st' = us_min st \<and> us_max st' = us_max st"
proof -
  have "us_curr st div us_decr st \<le> us_curr st"
    by (simp add: word_le_nat_alt unat_div div_le_dividend)
  with assms show ?thesis
    by (auto simp: strategy_decr_def strategy_ok_def max_def split: feedback_algorithm.splits)
qed

text \<open>
  with a strategy that is in bounds (as the default one and both configurable ones are)
  every run of the reaper succeeds, with and without overflow checks: the next wake-up lies
  between the configured minimum and maximum, the strategy stays in bounds, a repeated run
  cleans up the table, and the interval does not shrink when nothing was reaped and does not
  grow when something was.
\<close>

theorem reaper_interval_bounded:
  assumes "strategy_ok (strategy r)"
  shows "strategy_ok (strategy reaper_default) \<and>
    (\<forall>conf r'. reaper_from_config conf = Ok r' \<longrightarrow> strategy_ok (strategy r')) \<and>
    (\<exists>w r' table'. schedule_reaper chk alive r table = Ok (w, r', table') \<and>
      scheduled r' \<and> strategy_ok (strategy r') \<and> w = us_curr (strategy r') \<and>
      us_min (strategy r) \<le> w \<and> w \<le> us_max (strategy r) \<and>
      table' = (if scheduled r then snd (store_cleanup alive table) else table) \<and>
      (scheduled r \<longrightarrow> (if fst (store_cleanup alive table) = 0 then us_curr (strategy r) \<le> w
                       else w \<le> us_curr (strategy r))))"
proof -
  have conf: "strategy_ok (strategy (reaper_new 500 20 5000 500 2 algo))" for algo
    by (cases algo) (simp_all add: strategy_ok_def reaper_new_def update_strategy_new_def)
  have bounds: "us_min st \<le> us_curr st \<and> us_curr st \<le> us_max st" if "strategy_ok st" for st
    using that by (simp add: strategy_ok_def)
  obtain n t where c: "store_cleanup alive table = (n, t)" by force
  have run: "\<exists>w r' table'. schedule_reaper chk alive r table = Ok (w, r', table') \<and>
      scheduled r' \<and> strategy_ok (strategy r') \<and> w = us_curr (strategy r') \<and>
      us_min (strategy r) \<le> w \<and> w \<le> us_max (strategy r) \<and>
      table' = (if scheduled r then snd (store_cleanup alive table) else table) \<and>
      (scheduled r \<longrightarrow> (if fst (store_cleanup alive table) = 0 then us_curr (strategy r) \<le> w
                       else w \<le> us_curr (strategy r)))"
  proof (cases "scheduled r")
    case False
    then show ?thesis using assms bounds [OF assms] by (simp add: schedule_reaper_def)
  next
    case True
    then show ?thesis
      using strategy_incr_ok [OF assms, of chk] strategy_decr_ok [OF assms] bounds c
      by (cases "n = 0") (fastforce simp: schedule_reaper_def reaper_run_def)+
  qed
  show ?thesis
    using run conf
    by (auto simp: reaper_default_def reaper_from_config_def rbind_eq_Ok)
qed

theorem reaper_interval_bounded_witness:
  "\<exists>w r' t'. schedule_reaper True (\<lambda>a. a \<noteq> 20) (reaper_default\<lparr>scheduled := True\<rparr>) sample_store =
     Ok (w, r', t') \<and> 20 \<le> w \<and> w \<le> 5000 \<and> w = 250"
proof -
  have ok: "strategy_ok (strategy (reaper_default\<lparr>scheduled := True\<rparr>))"
    by (simp add: reaper_default_def reaper_new_def update_strategy_new_def strategy_ok_def)
  have "\<exists>r' t'. schedule_reaper True (\<lambda>a. a \<noteq> 20) (reaper_default\<lparr>scheduled := True\<rparr>) sample_store =
      Ok (250, r', t')"
    by (simp add: schedule_reaper_def reaper_run_def store_cleanup_def remove_deallocated_entries_def
        sample_store_def trie_retain_def remove_uuids_def keep_entry_def reaper_default_def reaper_new_def
        update_strategy_new_def strategy_decr_def)
  with reaper_interval_bounded [OF ok, of True "\<lambda>a. a \<noteq> 20" sample_store] show ?thesis
    by (auto simp: reaper_default_def reaper_new_def update_strategy_new_def)
qed

end
