(* ===== verification/Net_Dispatcher.thy ===== *)
theory Net_Dispatcher
  imports Net_Messages Queue_Manager Actor_Store
begin

section \<open>The network dispatcher (\<open>network/src/dispatcher.rs\<close>, \<open>network/src/transport/mod.rs\<close>, \<open>network/src/events.rs\<close>)\<close>

text \<open>
  The component that routes messages to local actors and to other systems: its configuration, the
  bridge to the network thread, connection states, queues of waiting messages, connection
  retries, and the registration of actors and policies. What a handler emits (status events on
  the port, messages told to actors, dead letters, timers, fulfilled promises and events on the input queue
  of the network thread) is logged in the state. A result is paired with the state, because a
  failing handler keeps what it changed before the failure.

  The lemmas show that per destination nothing is lost, repeated or reordered between
  routing and the input queue of the network thread, that a waiting message always has a
  retry scheduled, and that the retries end.
\<close>

subsection \<open>Configuration\<close>

text \<open>A custom allocator is only handed on, so it is an opaque number.\<close>

record network_config =
  nc_addr :: socket_addr
  nc_transport :: transport
  nc_buffer_config :: buffer_config
  nc_custom_allocator :: "nat option"
  nc_tcp_nodelay :: bool
  nc_max_connection_retry_attempts :: u8
  nc_connection_retry_interval :: u64
  nc_boot_timeout :: u64
  nc_soft_connection_limit :: u32
  nc_hard_connection_limit :: u32

definition RETRY_CONNECTIONS_INTERVAL :: u64 where "RETRY_CONNECTIONS_INTERVAL = 5000"
definition BOOT_TIMEOUT :: u64 where "BOOT_TIMEOUT = 5000"
definition MAX_RETRY_ATTEMPTS :: u8 where "MAX_RETRY_ATTEMPTS = 10"
definition SOFT_CONNECTION_LIMIT :: u32 where "SOFT_CONNECTION_LIMIT = 1000"
definition HARD_CONNECTION_LIMIT :: u32 where "HARD_CONNECTION_LIMIT = 1100"

definition network_config_new :: "socket_addr \<Rightarrow> network_config" where
  "network_config_new addr =
     \<lparr>nc_addr = addr, nc_transport = Tcp, nc_buffer_config = buffer_config_default, nc_custom_allocator = None,
      nc_tcp_nodelay = True, nc_max_connection_retry_attempts = MAX_RETRY_ATTEMPTS,
      nc_connection_retry_interval = RETRY_CONNECTIONS_INTERVAL, nc_boot_timeout = BOOT_TIMEOUT,
      nc_soft_connection_limit = SOFT_CONNECTION_LIMIT, nc_hard_connection_limit = HARD_CONNECTION_LIMIT\<rparr>"

definition with_buffer_config :: "socket_addr \<Rightarrow> buffer_config \<Rightarrow> (network_config, unit) rresult" where
  "with_buffer_config addr bc =
     rbind (config_validate bc) (\<lambda>_. Ok ((network_config_new addr)\<lparr>nc_buffer_config := bc\<rparr>))"

definition with_custom_allocator :: "socket_addr \<Rightarrow> buffer_config \<Rightarrow> nat \<Rightarrow> (network_config, unit) rresult" where
  "with_custom_allocator addr bc allocator =
     rbind (config_validate bc) (\<lambda>_. Ok
       \<lparr>nc_addr = addr, nc_transport = Tcp, nc_buffer_config = bc, nc_custom_allocator = Some allocator,
        nc_tcp_nodelay = True, nc_max_connection_retry_attempts = MAX_RETRY_ATTEMPTS,
        nc_connection_retry_interval = RETRY_CONNECTIONS_INTERVAL, nc_boot_timeout = BOOT_TIMEOUT,
        nc_soft_connection_limit = SOFT_CONNECTION_LIMIT, nc_hard_connection_limit = HARD_CONNECTION_LIMIT\<rparr>)"

definition with_socket :: "socket_addr \<Rightarrow> network_config \<Rightarrow> network_config" where
  "with_socket addr c = c\<lparr>nc_addr := addr\<rparr>"

definition network_config_default :: network_config where
  "network_config_default =
     \<lparr>nc_addr = \<lparr>sock_ip = V4 0x7F000001, sock_port = 0\<rparr>, nc_transport = Tcp, nc_buffer_config = buffer_config_default,
      nc_custom_allocator = None, nc_tcp_nodelay = True, nc_max_connection_retry_attempts = MAX_RETRY_ATTEMPTS,
      nc_connection_retry_interval = RETRY_CONNECTIONS_INTERVAL, nc_boot_timeout = BOOT_TIMEOUT,
      nc_soft_connection_limit = SOFT_CONNECTION_LIMIT, nc_hard_connection_limit = HARD_CONNECTION_LIMIT\<rparr>"

subsection \<open>Events\<close>

datatype connection_state =
  CS_New | CS_Initializing | CS_Connected uuid | CS_Closed uuid | CS_Lost uuid | CS_Blocked

datatype net_protocol = ProtoTcp | ProtoUdp

text \<open>What the dispatcher sends to the network thread; \<open>'d\<close> is the data of a message, \<open>'n\<close> an IP network.\<close>

datatype ('d, 'n) thread_event =
  SendTcp socket_addr 'd | SendUdp socket_addr 'd | StopThread | KillThread
  | Connect socket_addr | ClosedAck socket_addr | Close socket_addr
  | BlockSocket socket_addr | BlockIpAddr ip_addr | BlockIpNet 'n
  | AllowSocket socket_addr | AllowIpAddr ip_addr | AllowIpNet 'n

datatype 'n network_status =
  ConnectionEstablished system_path uuid | ConnectionLost system_path uuid | ConnectionDropped system_path
  | ConnectionClosed system_path uuid | BlockedSystem system_path | BlockedIp ip_addr | BlockedIpNet 'n
  | AllowedIpNet 'n | AllowedSystem system_path | AllowedIp ip_addr
  | SoftConnectionLimitExceeded | HardConnectionLimitReached | CriticalNetworkFailure

datatype 'n network_status_request =
  DisconnectSystem system_path | ConnectSystem system_path
  | ReqBlockSystem system_path | ReqBlockIp ip_addr | ReqBlockIpNet 'n
  | ReqAllowSystem system_path | ReqAllowIp ip_addr | ReqAllowIpNet 'n

text \<open>An event of the dispatcher is a type-erased box: \<open>UnexpectedEvent\<close> is one of another type.\<close>

datatype ('d, 'n) dispatcher_event =
  NetworkEvent "'n network_status" | RejectedData socket_addr 'd | UnexpectedEvent

subsection \<open>The bridge\<close>

datatype bridge_error = UnsupportedProtocol transport | SendFailed | IoFailed

text \<open>
  The bridge holds the sending end of the input queue of the network thread and the waker of its poll.
  Sending fails when the network thread is gone; each waking may fail. \<open>br_wakes\<close> are
  the results of the next wakings, which succeed when the list is used up.
\<close>

record ('d, 'n) bridge =
  br_queue :: "('d, 'n) thread_event list"
  br_receiver :: bool
  br_wakes :: "bool list"
  br_bound :: "socket_addr option"

text \<open>Binding, spawning and booting the network thread: the address it got, or a failure, which panics.\<close>

definition bridge_new :: "(socket_addr \<Rightarrow> socket_addr option) \<Rightarrow> socket_addr \<Rightarrow> (('d, 'n) bridge \<times> socket_addr, 'e) rresult" where
  "bridge_new boot addr =
     rbind (or_panic (boot addr)) (\<lambda>bound.
       Ok (\<lparr>br_queue = [], br_receiver = True, br_wakes = [], br_bound = Some bound\<rparr>, bound))"

definition send_and_wake :: "('d, 'n) thread_event \<Rightarrow> ('d, 'n) bridge \<Rightarrow> (unit, bridge_error) rresult \<times> ('d, 'n) bridge" where
  "send_and_wake e b =
     (if \<not> br_receiver b then (Err SendFailed, b)
      else
        (let b1 = b\<lparr>br_queue := br_queue b @ [e]\<rparr> in
         case br_wakes b of
           [] \<Rightarrow> (Ok (), b1)
         | w # ws \<Rightarrow> (if w then Ok () else Err IoFailed, b1\<lparr>br_wakes := ws\<rparr>)))"

definition bridge_route :: "socket_addr \<Rightarrow> 'd \<Rightarrow> net_protocol \<Rightarrow> ('d, 'n) bridge \<Rightarrow> (unit, bridge_error) rresult \<times> ('d, 'n) bridge" where
  "bridge_route addr d p = send_and_wake (case p of ProtoTcp \<Rightarrow> SendTcp addr d | ProtoUdp \<Rightarrow> SendUdp addr d)"

definition bridge_connect :: "transport \<Rightarrow> socket_addr \<Rightarrow> ('d, 'n) bridge \<Rightarrow> (unit, bridge_error) rresult \<times> ('d, 'n) bridge" where
  "bridge_connect proto addr b =
     (case proto of Tcp \<Rightarrow> send_and_wake (Connect addr) b | other \<Rightarrow> (Err (UnsupportedProtocol other), b))"

definition ack_closed :: "socket_addr \<Rightarrow> ('d, 'n) bridge \<Rightarrow> (unit, bridge_error) rresult \<times> ('d, 'n) bridge" where
  "ack_closed addr = send_and_wake (ClosedAck addr)"

definition bridge_close_channel :: "socket_addr \<Rightarrow> ('d, 'n) bridge \<Rightarrow> (unit, bridge_error) rresult \<times> ('d, 'n) bridge" where
  "bridge_close_channel addr = send_and_wake (Close addr)"

definition block_socket :: "socket_addr \<Rightarrow> ('d, 'n) bridge \<Rightarrow> (unit, bridge_error) rresult \<times> ('d, 'n) bridge" where
  "block_socket addr = send_and_wake (BlockSocket addr)"

definition block_ip :: "ip_addr \<Rightarrow> ('d, 'n) bridge \<Rightarrow> (unit, bridge_error) rresult \<times> ('d, 'n) bridge" where
  "block_ip ip = send_and_wake (BlockIpAddr ip)"

definition block_ip_net :: "'n \<Rightarrow> ('d, 'n) bridge \<Rightarrow> (unit, bridge_error) rresult \<times> ('d, 'n) bridge" where
  "block_ip_net n = send_and_wake (BlockIpNet n)"

definition allow_socket :: "socket_addr \<Rightarrow> ('d, 'n) bridge \<Rightarrow> (unit, bridge_error) rresult \<times> ('d, 'n) bridge" where
  "allow_socket addr = send_and_wake (AllowSocket addr)"

definition allow_ip :: "ip_addr \<Rightarrow> ('d, 'n) bridge \<Rightarrow> (unit, bridge_error) rresult \<times> ('d, 'n) bridge" where
  "allow_ip ip = send_and_wake (AllowIpAddr ip)"

definition allow_ip_net :: "'n \<Rightarrow> ('d, 'n) bridge \<Rightarrow> (unit, bridge_error) rresult \<times> ('d, 'n) bridge" where
  "allow_ip_net n = send_and_wake (AllowIpNet n)"

text \<open>Stopping and killing wait for the network thread to end, and use the bridge up.\<close>

definition bridge_stop :: "('d, 'n) bridge \<Rightarrow> (unit, bridge_error) rresult \<times> ('d, 'n) bridge" where
  "bridge_stop = send_and_wake StopThread"

definition bridge_kill :: "('d, 'n) bridge \<Rightarrow> (unit, bridge_error) rresult \<times> ('d, 'n) bridge" where
  "bridge_kill = send_and_wake KillThread"

subsection \<open>The state of the dispatcher\<close>

datatype registration_error = DuplicateEntry | Unsupported | InvalidPath path_parse_error

text \<open>A promise is its number; \<open>NoPromise\<close> asks for no feedback.\<close>

datatype registration_promise = Fulfil nat | NoPromise

record 'r actor_registration =
  ar_actor :: 'r
  ar_path :: path_resolvable

record ('m, 't) policy_registration =
  pr_policy :: "('m, 't) routing_policy"
  pr_path :: "string list"

datatype ('r, 'm, 't) registration_event = RegActor "'r actor_registration" | RegPolicy "('m, 't) policy_registration"

datatype timer_action = RunReaper | RunRetries

record ('v, 'r, 't, 'n) net_dispatcher =
  ds_connections :: "(socket_addr \<times> connection_state) list"
  ds_cfg :: network_config
  ds_lookup :: "('r, 'v net_message, 't) actor_store"
  ds_net_bridge :: "('v dispatch_data, 'n) bridge option"
  ds_system_path :: "system_path option"
  ds_queues :: "'v dispatch_data queue_manager"
  ds_reaper :: actor_ref_reaper
  ds_notify_ready :: bool
  ds_retry_map :: "(socket_addr \<times> u8) list"
  ds_garbage_buffers :: "buffer_chunk list"
  ds_status :: "'n network_status list"
  ds_told :: "('r \<times> 'v net_message) list"
  ds_deadletters :: "'v net_message list"
  ds_timers :: "(timer_action \<times> u64) list"
  ds_promises :: "(nat \<times> (actor_path, registration_error) rresult) list"
  ds_past_bridges :: "('v dispatch_data, 'n) bridge list"

text \<open>
  What a handler reads of its surroundings: the build, the crate \<open>bytes\<close>, a fresh lock, which
  actors and leases are alive, overflow checks, the configured reaping algorithm, how a network
  thread boots, and the reference of the dead letter box.
\<close>

record ('v, 'r, 't) dispatch_env =
  de_build :: "('v net_message, 't) lookup_build"
  de_ops :: buf_ops
  de_fresh :: lock
  de_alive :: "'r \<Rightarrow> bool"
  de_locks :: "lock \<Rightarrow> nat"
  de_overflow_checks :: bool
  de_algorithm :: "string option"
  de_boot :: "socket_addr \<Rightarrow> socket_addr option"
  de_deadletter_ref :: 'r

definition with_config :: "network_config \<Rightarrow> ('v, 'r, 't, 'n) net_dispatcher" where
  "with_config c =
     \<lparr>ds_connections = [], ds_cfg = c, ds_lookup = store_new, ds_net_bridge = None, ds_system_path = None,
      ds_queues = queue_manager_new, ds_reaper = reaper_default, ds_notify_ready = True, ds_retry_map = [],
      ds_garbage_buffers = [], ds_status = [], ds_told = [], ds_deadletters = [], ds_timers = [],
      ds_promises = [], ds_past_bridges = []\<rparr>"

definition dispatcher_new :: "('v, 'r, 't, 'n) net_dispatcher" where
  "dispatcher_new = with_config network_config_default"

definition trigger :: "'n network_status \<Rightarrow> ('v, 'r, 't, 'n) net_dispatcher \<Rightarrow> ('v, 'r, 't, 'n) net_dispatcher" where
  "trigger st ds = ds\<lparr>ds_status := ds_status ds @ [st]\<rparr>"

definition schedule_once :: "timer_action \<Rightarrow> u64 \<Rightarrow> ('v, 'r, 't, 'n) net_dispatcher \<Rightarrow> ('v, 'r, 't, 'n) net_dispatcher" where
  "schedule_once act delay ds = ds\<lparr>ds_timers := ds_timers ds @ [(act, delay)]\<rparr>"

text \<open>\<open>if let Some(bridge) = &self.net_bridge\<close> around a call of the bridge.\<close>

definition via_bridge ::
    "(('v dispatch_data, 'n) bridge \<Rightarrow> (unit, bridge_error) rresult \<times> ('v dispatch_data, 'n) bridge) \<Rightarrow>
     ('v, 'r, 't, 'n) net_dispatcher \<Rightarrow> (unit, bridge_error) rresult \<times> ('v, 'r, 't, 'n) net_dispatcher" where
  "via_bridge call ds =
     (case ds_net_bridge ds of
        None \<Rightarrow> (Ok (), ds)
      | Some b \<Rightarrow> (let (r, b') = call b in (r, ds\<lparr>ds_net_bridge := Some b'\<rparr>)))"

text \<open>A call of the bridge whose error is logged and one whose error is unwrapped.\<close>

definition logged ::
    "(('v, 'r, 't, 'n) net_dispatcher \<Rightarrow> (unit, bridge_error) rresult \<times> ('v, 'r, 't, 'n) net_dispatcher) \<Rightarrow>
     ('v, 'r, 't, 'n) net_dispatcher \<Rightarrow> ('v, 'r, 't, 'n) net_dispatcher" where
  "logged call ds = snd (call ds)"

definition unwrapped ::
    "(('v, 'r, 't, 'n) net_dispatcher \<Rightarrow> (unit, bridge_error) rresult \<times> ('v, 'r, 't, 'n) net_dispatcher) \<Rightarrow>
     ('v, 'r, 't, 'n) net_dispatcher \<Rightarrow> (unit, 'e) rresult \<times> ('v, 'r, 't, 'n) net_dispatcher" where
  "unwrapped call ds = (expect_ok (fst (call ds)), snd (call ds))"

text \<open>Going on after a step that did not panic or fail.\<close>

definition and_go ::
    "('a, 'e) rresult \<times> 's \<Rightarrow> ('a \<Rightarrow> 's \<Rightarrow> ('b, 'e) rresult \<times> 's) \<Rightarrow> ('b, 'e) rresult \<times> 's" where
  "and_go p f = (case fst p of Ok a \<Rightarrow> f a (snd p) | Err e \<Rightarrow> (Err e, snd p) | Panic \<Rightarrow> (Panic, snd p))"

subsection \<open>Connections\<close>

definition connection_closed :: "system_path \<Rightarrow> uuid \<Rightarrow> ('v, 'r, 't, 'n) net_dispatcher \<Rightarrow> ('v, 'r, 't, 'n) net_dispatcher" where
  "connection_closed sp sid ds =
     (let addr = socket_address sp;
          ds1 = logged (via_bridge (ack_closed addr)) (trigger (ConnectionClosed sp sid) ds);
          ds2 = ds1\<lparr>ds_connections := AList.update addr (CS_Closed sid) (ds_connections ds1)\<rparr>
      in if has_data addr (ds_queues ds2) then ds2\<lparr>ds_retry_map := AList.update addr 0 (ds_retry_map ds2)\<rparr> else ds2)"

definition connection_lost :: "system_path \<Rightarrow> uuid \<Rightarrow> ('v, 'r, 't, 'n) net_dispatcher \<Rightarrow> ('v, 'r, 't, 'n) net_dispatcher" where
  "connection_lost sp sid ds =
     (let addr = socket_address sp;
          ds1 = (if map_of (ds_retry_map ds) addr = None
                 then ds\<lparr>ds_retry_map := AList.update addr 0 (ds_retry_map ds)\<rparr> else ds);
          ds2 = logged (via_bridge (ack_closed addr)) (trigger (ConnectionLost sp sid) ds1)
      in ds2\<lparr>ds_connections := AList.update addr (CS_Lost sid) (ds_connections ds2)\<rparr>)"

text \<open>
  The three loops that send the queued data of a destination: when a connection is established
  (errors are logged, and without a bridge the data is dropped), when data is routed over
  a connection (an error ends the loop), and before a channel is closed (errors are logged).
\<close>

lemma pop_data_shrinks:
  assumes "pop_data a q = (Some d, q')"
  shows "length (pending q' a) < length (pending q a)"
  using outgoing.pop_result [of a q] outgoing.contents_pop [of a q] assms by (auto split: list.splits)

lemma pop_data_shrinks_has:
  assumes "has_data a q"
  shows "length (pending (snd (pop_data a q)) a) < length (pending q a)"
  using assms outgoing.contents_pop [of a q] by (auto simp: outgoing.nonempty_contents)

function drain_established ::
    "socket_addr \<Rightarrow> 'd queue_manager \<Rightarrow> ('d, 'n) bridge option \<Rightarrow> 'd queue_manager \<times> ('d, 'n) bridge option" where
  "drain_established addr q br =
     (case pop_data addr q of
        (None, q') \<Rightarrow> (q', br)
      | (Some d, q') \<Rightarrow> drain_established addr q' (map_option (\<lambda>b. snd (bridge_route addr d ProtoTcp b)) br))"
  by pat_completeness auto
termination by (relation "measure (\<lambda>(a, q, br). length (pending q a))") (auto dest: pop_data_shrinks [OF sym])

function drain_routed ::
    "socket_addr \<Rightarrow> 'd queue_manager \<Rightarrow> ('d, 'n) bridge \<Rightarrow>
     (unit, bridge_error) rresult \<times> 'd queue_manager \<times> ('d, 'n) bridge" where
  "drain_routed addr q b =
     (case pop_data addr q of
        (None, q') \<Rightarrow> (Ok (), q', b)
      | (Some d, q') \<Rightarrow>
          (case bridge_route addr d ProtoTcp b of
             (Ok _, b') \<Rightarrow> drain_routed addr q' b'
           | (r, b') \<Rightarrow> (r, q', b')))"
  by pat_completeness auto
termination by (relation "measure (\<lambda>(a, q, b). length (pending q a))") (auto dest: pop_data_shrinks [OF sym])

function drain_closing ::
    "socket_addr \<Rightarrow> 'd queue_manager \<Rightarrow> ('d, 'n) bridge \<Rightarrow> 'd queue_manager \<times> ('d, 'n) bridge" where
  "drain_closing addr q b =
     (if has_data addr q then
        (let (res, q') = pop_data addr q
         in drain_closing addr q' (case res of Some d \<Rightarrow> snd (bridge_route addr d ProtoTcp b) | None \<Rightarrow> b))
      else (q, b))"
  by pat_completeness auto
termination
  by (relation "measure (\<lambda>(a, q, b). length (pending q a))") (auto dest!: pop_data_shrinks_has, metis snd_conv)

declare drain_established.simps [simp del] drain_routed.simps [simp del] drain_closing.simps [simp del]

definition connection_established ::
    "system_path \<Rightarrow> uuid \<Rightarrow> ('v, 'r, 't, 'n) net_dispatcher \<Rightarrow> ('v, 'r, 't, 'n) net_dispatcher" where
  "connection_established sp sid ds =
     (let addr = socket_address sp;
          ds1 = trigger (ConnectionEstablished sp sid) ds;
          ds2 = ds1\<lparr>ds_retry_map := AList.delete addr (ds_retry_map ds1)\<rparr>;
          ds3 = (if has_data addr (ds_queues ds2)
                 then (let (q, br) = drain_established addr (ds_queues ds2) (ds_net_bridge ds2)
                       in ds2\<lparr>ds_queues := q, ds_net_bridge := br\<rparr>)
                 else ds2)
      in ds3\<lparr>ds_connections := AList.update addr (CS_Connected sid) (ds_connections ds3)\<rparr>)"

definition start_bridge ::
    "('v, 'r, 't) dispatch_env \<Rightarrow> socket_addr \<Rightarrow> ('v, 'r, 't, 'n) net_dispatcher \<Rightarrow>
     (unit, bridge_error) rresult \<times> ('v, 'r, 't, 'n) net_dispatcher" where
  "start_bridge env addr ds =
     (case bridge_new (de_boot env) addr of
        Ok (b, _) \<Rightarrow> (Ok (), ds\<lparr>ds_net_bridge := Some b\<rparr>)
      | Err e \<Rightarrow> (Err e, ds)
      | Panic \<Rightarrow> (Panic, ds))"

text \<open>The loop over the drained connections after the network thread has failed.\<close>

fun fail_connections ::
    "(socket_addr \<times> connection_state) list \<Rightarrow> ('v, 'r, 't, 'n) net_dispatcher \<Rightarrow> ('v, 'r, 't, 'n) net_dispatcher" where
  "fail_connections [] ds = ds"
| "fail_connections ((addr, st) # cs) ds =
     fail_connections cs
       (case st of
          CS_Connected sid \<Rightarrow> connection_lost (system_path_with_socket Tcp addr) sid ds
        | _ \<Rightarrow> ds\<lparr>ds_connections := AList.update addr st (ds_connections ds)\<rparr>)"

definition handle_network_failure ::
    "('v, 'r, 't) dispatch_env \<Rightarrow> ('v, 'r, 't, 'n) net_dispatcher \<Rightarrow>
     (unit, bridge_error) rresult \<times> ('v, 'r, 't, 'n) net_dispatcher" where
  "handle_network_failure env ds =
     (let ds1 = trigger CriticalNetworkFailure ds;
          faulty = ds_net_bridge ds1;
          ds2 = ds1\<lparr>ds_net_bridge := None,
                  ds_past_bridges := ds_past_bridges ds1 @ (case faulty of Some b \<Rightarrow> [b] | None \<Rightarrow> [])\<rparr>;
          ds3 = fail_connections (ds_connections ds2) (ds2\<lparr>ds_connections := []\<rparr>);
          bound = (case faulty of
                     Some b \<Rightarrow> (case br_bound b of Some a \<Rightarrow> a | None \<Rightarrow> nc_addr (ds_cfg ds3))
                   | None \<Rightarrow> nc_addr (ds_cfg ds3))
      in start_bridge env bound ds3)"

definition take_bridge ::
    "(('v dispatch_data, 'n) bridge \<Rightarrow> (unit, bridge_error) rresult \<times> ('v dispatch_data, 'n) bridge) \<Rightarrow>
     ('v, 'r, 't, 'n) net_dispatcher \<Rightarrow> ('v, 'r, 't, 'n) net_dispatcher" where
  "take_bridge finish ds =
     (case ds_net_bridge ds of
        None \<Rightarrow> ds
      | Some b \<Rightarrow> ds\<lparr>ds_net_bridge := None, ds_past_bridges := ds_past_bridges ds @ [snd (finish b)]\<rparr>)"

definition dispatcher_stop :: "('v, 'r, 't, 'n) net_dispatcher \<Rightarrow> ('v, 'r, 't, 'n) net_dispatcher" where
  "dispatcher_stop = take_bridge bridge_stop"

definition dispatcher_kill :: "('v, 'r, 't, 'n) net_dispatcher \<Rightarrow> ('v, 'r, 't, 'n) net_dispatcher" where
  "dispatcher_kill = take_bridge bridge_kill"

subsection \<open>Periodic work\<close>

definition run_reaper ::
    "('v, 'r, 't) dispatch_env \<Rightarrow> ('v, 'r, 't, 'n) net_dispatcher \<Rightarrow>
     (unit, bridge_error) rresult \<times> ('v, 'r, 't, 'n) net_dispatcher" where
  "run_reaper env ds =
     (case schedule_reaper (de_overflow_checks env) (de_alive env) (ds_reaper ds) (ds_lookup ds) of
        Ok (next_wakeup, r, table) \<Rightarrow>
          (Ok (), schedule_once RunReaper next_wakeup
             (ds\<lparr>ds_reaper := r, ds_lookup := table,
                ds_garbage_buffers :=
                  map (\<lambda>c. snd (free (de_locks env) c)) (filter (\<lambda>c. \<not> fst (free (de_locks env) c)) (ds_garbage_buffers ds))\<rparr>))
      | _ \<Rightarrow> (Panic, ds))"

fun retry_loop ::
    "(socket_addr \<times> u8) list \<Rightarrow> ('v, 'r, 't, 'n) net_dispatcher \<Rightarrow>
     (unit, bridge_error) rresult \<times> ('v, 'r, 't, 'n) net_dispatcher" where
  "retry_loop [] ds = (Ok (), ds)"
| "retry_loop ((addr, retry) # rest) ds =
     (if retry < nc_max_connection_retry_attempts (ds_cfg ds)
      then and_go (unwrapped (via_bridge (bridge_connect Tcp addr))
                     (ds\<lparr>ds_retry_map := AList.update addr (retry + 1) (ds_retry_map ds)\<rparr>))
             (\<lambda>_. retry_loop rest)
      else retry_loop rest
             (trigger (ConnectionDropped (system_path_with_socket Tcp addr))
               (ds\<lparr>ds_queues := drop_queue addr (ds_queues ds),
                  ds_connections := AList.delete addr (ds_connections ds)\<rparr>)))"

definition schedule_retries ::
    "('v, 'r, 't, 'n) net_dispatcher \<Rightarrow> (unit, bridge_error) rresult \<times> ('v, 'r, 't, 'n) net_dispatcher" where
  "schedule_retries ds =
     and_go (retry_loop (ds_retry_map ds) (ds\<lparr>ds_retry_map := []\<rparr>))
       (\<lambda>_ ds'. (Ok (), schedule_once RunRetries (nc_connection_retry_interval (ds_cfg ds')) ds'))"

definition dispatcher_start ::
    "('v, 'r, 't) dispatch_env \<Rightarrow> ('v, 'r, 't, 'n) net_dispatcher \<Rightarrow>
     (unit, bridge_error) rresult \<times> ('v, 'r, 't, 'n) net_dispatcher" where
  "dispatcher_start env ds =
     (case reaper_from_config (de_algorithm env) of
        Ok r \<Rightarrow>
          and_go (start_bridge env (nc_addr (ds_cfg ds)) (ds\<lparr>ds_reaper := r\<rparr>)) (\<lambda>_ ds1.
            case store_insert System (de_deadletter_ref env) (ds_lookup ds1) of
              Ok (_, table) \<Rightarrow> schedule_retries (ds1\<lparr>ds_lookup := table\<rparr>)
            | _ \<Rightarrow> (Panic, ds1))
      | _ \<Rightarrow> (Panic, ds))"

definition on_start ::
    "('v, 'r, 't) dispatch_env \<Rightarrow> ('v, 'r, 't, 'n) net_dispatcher \<Rightarrow>
     (unit, bridge_error) rresult \<times> ('v, 'r, 't, 'n) net_dispatcher" where
  "on_start env ds = and_go (dispatcher_start env ds) (\<lambda>_ ds1. (Ok (), ds1\<lparr>ds_notify_ready := False\<rparr>))"

subsection \<open>Events of the network thread\<close>

fun on_network_status ::
    "('v, 'r, 't) dispatch_env \<Rightarrow> 'n network_status \<Rightarrow> ('v, 'r, 't, 'n) net_dispatcher \<Rightarrow>
     (unit, bridge_error) rresult \<times> ('v, 'r, 't, 'n) net_dispatcher" where
  "on_network_status env (ConnectionEstablished sp sid) ds = (Ok (), connection_established sp sid ds)"
| "on_network_status env (ConnectionLost sp sid) ds = (Ok (), connection_lost sp sid ds)"
| "on_network_status env (ConnectionClosed sp sid) ds = (Ok (), connection_closed sp sid ds)"
| "on_network_status env (ConnectionDropped sp) ds =
     (Ok (), trigger (ConnectionDropped sp) (ds\<lparr>ds_retry_map := AList.delete (socket_address sp) (ds_retry_map ds)\<rparr>))"
| "on_network_status env (BlockedSystem sp) ds =
     (Ok (), trigger (BlockedSystem sp)
       (ds\<lparr>ds_connections := AList.update (socket_address sp) CS_Blocked (ds_connections ds)\<rparr>))"
| "on_network_status env (AllowedSystem sp) ds =
     (Ok (), trigger (AllowedSystem sp) (ds\<lparr>ds_connections := AList.delete (socket_address sp) (ds_connections ds)\<rparr>))"
| "on_network_status env CriticalNetworkFailure ds = handle_network_failure env ds"
| "on_network_status env st ds = (Ok (), trigger st ds)"

definition on_event ::
    "('v, 'r, 't) dispatch_env \<Rightarrow> ('v dispatch_data, 'n) dispatcher_event \<Rightarrow> ('v, 'r, 't, 'n) net_dispatcher \<Rightarrow>
     (unit, bridge_error) rresult \<times> ('v, 'r, 't, 'n) net_dispatcher" where
  "on_event env ev ds =
     (case ev of
        UnexpectedEvent \<Rightarrow> (Ok (), ds)
      | NetworkEvent st \<Rightarrow> on_network_status env st ds
      | RejectedData addr d \<Rightarrow>
          (Ok (), ds\<lparr>ds_queues := enqueue_priority_data d addr (ds_queues ds),
             ds_retry_map := (case map_of (ds_retry_map ds) addr of
                                None \<Rightarrow> AList.update addr 0 (ds_retry_map ds) | Some _ \<Rightarrow> ds_retry_map ds)\<rparr>))"

subsection \<open>Routing\<close>

text \<open>
  A routing group applies the policy that is stored in the lookup table, so the offset that
  routing advances is the one in the table. A policy of the built-in routes is not stored.
\<close>

definition advance_stored_policy ::
    "actor_path \<Rightarrow> ('m, 't) routing_policy \<Rightarrow> ('r, 'm, 't) actor_store \<Rightarrow> ('r, 'm, 't) actor_store" where
  "advance_stored_policy dst p s =
     (case dst of
        Unique _ \<Rightarrow> s
      | Named np \<Rightarrow>
          (case lookup_marker (np_path np) of
             Ok (lookup_path, _) \<Rightarrow>
               (case trie_get lookup_path (name_map s) of
                  Some (PolicyEntry _) \<Rightarrow> s\<lparr>name_map := snd (insert_owned lookup_path (PolicyEntry p) (name_map s))\<rparr>
                | _ \<Rightarrow> s)
           | _ \<Rightarrow> s))"

text \<open>The clone of a message for a group; a clone that does not end is counted with the panics.\<close>

definition clone_for_group :: "'v net_message \<Rightarrow> ('v net_message, ser_error) rresult" where
  "clone_for_group m = (case message_try_clone m of Some r \<Rightarrow> r | None \<Rightarrow> Panic)"

definition route_local ::
    "('v, 'r, 't) dispatch_env \<Rightarrow> actor_path \<Rightarrow> 'v dispatch_data \<Rightarrow> ('v, 'r, 't, 'n) net_dispatcher \<Rightarrow>
     (unit, bridge_error) rresult \<times> ('v, 'r, 't, 'n) net_dispatcher" where
  "route_local env dst msg ds =
     (case get_by_actor_path (de_build env) dst (ds_lookup ds) of
        Ok found \<Rightarrow>
          (case into_local (debug_assertions (de_build env)) (de_ops env) (de_fresh env) msg of
             Ok netmsg \<Rightarrow>
               (case found of
                  LookupRef actor \<Rightarrow> (Ok (), ds\<lparr>ds_told := ds_told ds @ [(actor, netmsg)]\<rparr>)
                | LookupGroup grp \<Rightarrow>
                    (case group_route clone_for_group grp netmsg of
                       Ok (calls, grp') \<Rightarrow>
                         (Ok (), ds\<lparr>ds_told := ds_told ds @ calls,
                            ds_lookup := advance_stored_policy dst (rg_policy grp') (ds_lookup ds)\<rparr>)
                     | _ \<Rightarrow> (Panic, ds))
                | LookupNone \<Rightarrow> (Ok (), ds\<lparr>ds_deadletters := ds_deadletters ds @ [netmsg]\<rparr>)
                | LookupErr _ \<Rightarrow> (Ok (), ds\<lparr>ds_deadletters := ds_deadletters ds @ [netmsg]\<rparr>))
           | Err _ \<Rightarrow> (Ok (), ds)
           | Panic \<Rightarrow> (Panic, ds))
      | _ \<Rightarrow> (Panic, ds))"

definition route_remote_udp ::
    "socket_addr \<Rightarrow> 'v dispatch_data \<Rightarrow> ('v, 'r, 't, 'n) net_dispatcher \<Rightarrow>
     (unit, bridge_error) rresult \<times> ('v, 'r, 't, 'n) net_dispatcher" where
  "route_remote_udp addr d ds = via_bridge (bridge_route addr d ProtoUdp) ds"

definition connection_of :: "('v, 'r, 't, 'n) net_dispatcher \<Rightarrow> socket_addr \<Rightarrow> connection_state" where
  "connection_of ds addr = (case map_of (ds_connections ds) addr of Some st \<Rightarrow> st | None \<Rightarrow> CS_New)"

definition set_connection ::
    "socket_addr \<Rightarrow> connection_state \<Rightarrow> ('v, 'r, 't, 'n) net_dispatcher \<Rightarrow> ('v, 'r, 't, 'n) net_dispatcher" where
  "set_connection addr st ds = ds\<lparr>ds_connections := AList.update addr st (ds_connections ds)\<rparr>"

definition enqueue_for ::
    "socket_addr \<Rightarrow> 'v dispatch_data \<Rightarrow> ('v, 'r, 't, 'n) net_dispatcher \<Rightarrow> ('v, 'r, 't, 'n) net_dispatcher" where
  "enqueue_for addr d ds = ds\<lparr>ds_queues := enqueue_data d addr (ds_queues ds)\<rparr>"

definition route_remote_tcp ::
    "socket_addr \<Rightarrow> 'v dispatch_data \<Rightarrow> ('v, 'r, 't, 'n) net_dispatcher \<Rightarrow>
     (unit, bridge_error) rresult \<times> ('v, 'r, 't, 'n) net_dispatcher" where
  "route_remote_tcp addr d ds =
     (let st = connection_of ds addr; ds0 = set_connection addr st ds in
      case st of
        CS_New \<Rightarrow>
          (let ds1 = enqueue_for addr d ds0 in
           case ds_net_bridge ds1 of
             Some _ \<Rightarrow>
               and_go (unwrapped (via_bridge (bridge_connect Tcp addr))
                         (ds1\<lparr>ds_retry_map := AList.update addr 0 (ds_retry_map ds1)\<rparr>))
                 (\<lambda>_ ds2. (Ok (), set_connection addr CS_Initializing ds2))
           | None \<Rightarrow> (Ok (), ds1))
      | CS_Connected _ \<Rightarrow>
          (if has_data addr (ds_queues ds0)
           then
             (let ds1 = enqueue_for addr d ds0 in
              case ds_net_bridge ds1 of
                Some b \<Rightarrow>
                  (let (r, q, b') = drain_routed addr (ds_queues ds1) b
                   in (r, ds1\<lparr>ds_queues := q, ds_net_bridge := Some b'\<rparr>))
              | None \<Rightarrow> (Ok (), ds1))
           else via_bridge (bridge_route addr d ProtoTcp) ds0)
      | CS_Initializing \<Rightarrow> (Ok (), enqueue_for addr d ds0)
      | CS_Closed _ \<Rightarrow>
          (let ds1 = enqueue_for addr d ds0 in
           and_go
             (case ds_net_bridge ds1 of
                Some _ \<Rightarrow>
                  via_bridge (bridge_connect Tcp addr)
                    (ds1\<lparr>ds_retry_map := (case map_of (ds_retry_map ds1) addr of
                        None \<Rightarrow> AList.update addr 0 (ds_retry_map ds1) | Some _ \<Rightarrow> ds_retry_map ds1)\<rparr>)
              | None \<Rightarrow> (Ok (), ds1))
             (\<lambda>_ ds2. (Ok (), set_connection addr CS_Initializing ds2)))
      | CS_Lost _ \<Rightarrow> (Ok (), enqueue_for addr d ds0)
      | CS_Blocked \<Rightarrow> (Ok (), ds0))"

text \<open>The cached system path; it panics as long as the socket is not bound.\<close>

definition disp_system_path ::
    "('v, 'r, 't, 'n) net_dispatcher \<Rightarrow> (system_path, 'e) rresult \<times> ('v, 'r, 't, 'n) net_dispatcher" where
  "disp_system_path ds =
     (case ds_system_path ds of
        Some sp \<Rightarrow> (Ok sp, ds)
      | None \<Rightarrow>
          (case ds_net_bridge ds of
             Some b \<Rightarrow>
               (case br_bound b of
                  Some a \<Rightarrow>
                    (let sp = system_path_new (nc_transport (ds_cfg ds)) (sock_ip a) (sock_port a)
                     in (Ok sp, ds\<lparr>ds_system_path := Some sp\<rparr>))
                | None \<Rightarrow> (Panic, ds))
           | None \<Rightarrow> (Panic, ds)))"

definition system_path_ref ::
    "('v, 'r, 't, 'n) net_dispatcher \<Rightarrow> (system_path, 'e) rresult \<times> ('v, 'r, 't, 'n) net_dispatcher" where
  "system_path_ref ds =
     (if ds_system_path ds = None
      then and_go (disp_system_path ds) (\<lambda>_ ds'. (or_panic (ds_system_path ds'), ds'))
      else (or_panic (ds_system_path ds), ds))"

definition deadletter_path ::
    "bool \<Rightarrow> ('v, 'r, 't, 'n) net_dispatcher \<Rightarrow> (actor_path, path_parse_error) rresult \<times> ('v, 'r, 't, 'n) net_dispatcher" where
  "deadletter_path dbg ds =
     and_go (disp_system_path ds) (\<lambda>sp ds'. (rbind (named_with_system dbg sp []) (\<lambda>np. Ok (Named np)), ds'))"

definition resolve_path ::
    "bool \<Rightarrow> path_resolvable \<Rightarrow> ('v, 'r, 't, 'n) net_dispatcher \<Rightarrow>
     (actor_path, path_parse_error) rresult \<times> ('v, 'r, 't, 'n) net_dispatcher" where
  "resolve_path dbg res ds =
     (case res of
        Path p \<Rightarrow> (Ok p, ds)
      | Alias alias \<Rightarrow>
          and_go (disp_system_path ds) (\<lambda>sp ds'. (rbind (into_named_with_string dbg sp alias) (\<lambda>np. Ok (Named np)), ds'))
      | Segments segments \<Rightarrow>
          and_go (disp_system_path ds) (\<lambda>sp ds'. (rbind (into_named_with_vec dbg sp segments) (\<lambda>np. Ok (Named np)), ds'))
      | ActorId u \<Rightarrow> and_go (disp_system_path ds) (\<lambda>sp ds'. (Ok (Unique (into_unique sp u)), ds'))
      | System \<Rightarrow> deadletter_path dbg ds)"

definition disp_route ::
    "('v, 'r, 't) dispatch_env \<Rightarrow> actor_path \<Rightarrow> 'v dispatch_data \<Rightarrow> ('v, 'r, 't, 'n) net_dispatcher \<Rightarrow>
     (unit, bridge_error) rresult \<times> ('v, 'r, 't, 'n) net_dispatcher" where
  "disp_route env dst msg ds =
     and_go (system_path_ref ds) (\<lambda>own ds1.
       if own = ap_system dst then route_local env dst msg ds1
       else
         (case protocol (ap_system dst) of
            Local \<Rightarrow> route_local env dst msg ds1
          | Tcp \<Rightarrow> route_remote_tcp (socket_address (ap_system dst)) msg ds1
          | Udp \<Rightarrow> route_remote_udp (socket_address (ap_system dst)) msg ds1))"

subsection \<open>Registration\<close>

definition answer ::
    "registration_promise \<Rightarrow> (actor_path, registration_error) rresult \<Rightarrow> ('v, 'r, 't, 'n) net_dispatcher \<Rightarrow>
     ('v, 'r, 't, 'n) net_dispatcher" where
  "answer promise res ds =
     (case promise of Fulfil p \<Rightarrow> ds\<lparr>ds_promises := ds_promises ds @ [(p, res)]\<rparr> | NoPromise \<Rightarrow> ds)"

text \<open>The common part: resolve the path, refuse a duplicate, otherwise change the table.\<close>

definition register_at ::
    "('v, 'r, 't) dispatch_env \<Rightarrow> path_resolvable \<Rightarrow> bool \<Rightarrow>
     (('r, 'v net_message, 't) actor_store \<Rightarrow>
       (('r, 'v net_message, 't) insert_result \<times> ('r, 'v net_message, 't) actor_store, path_parse_error) rresult) \<Rightarrow>
     ('v, 'r, 't, 'n) net_dispatcher \<Rightarrow> (actor_path, registration_error) rresult \<times> ('v, 'r, 't, 'n) net_dispatcher" where
  "register_at env path update change ds =
     (let (resolved, ds1) = resolve_path (debug_assertions (de_build env)) path ds in
      and_go (rmap_err InvalidPath resolved, ds1) (\<lambda>ap ds2.
        case store_contains (de_build env) path (ds_lookup ds2) of
          Ok known \<Rightarrow>
            (if known \<and> \<not> update then (Err DuplicateEntry, ds2)
             else
               (case change (ds_lookup ds2) of
                  Ok (_, table) \<Rightarrow> (Ok ap, ds2\<lparr>ds_lookup := table\<rparr>)
                | Err e \<Rightarrow> (Err (InvalidPath e), ds2)
                | Panic \<Rightarrow> (Panic, ds2)))
        | _ \<Rightarrow> (Panic, ds2)))"

definition register_actor ::
    "('v, 'r, 't) dispatch_env \<Rightarrow> 'r actor_registration \<Rightarrow> bool \<Rightarrow> registration_promise \<Rightarrow>
     ('v, 'r, 't, 'n) net_dispatcher \<Rightarrow> (unit, bridge_error) rresult \<times> ('v, 'r, 't, 'n) net_dispatcher" where
  "register_actor env reg update promise ds =
     (let (res, ds1) = register_at env (ar_path reg) update (store_insert (ar_path reg) (ar_actor reg)) ds in
      case res of
        Panic \<Rightarrow> (Panic, ds1)
      | Ok _ \<Rightarrow>
          and_go (if scheduled (ds_reaper ds1) then (Ok (), ds1) else run_reaper env ds1)
            (\<lambda>_ ds2. (Ok (), answer promise res ds2))
      | Err _ \<Rightarrow> (Ok (), answer promise res ds1))"

definition register_policy ::
    "('v, 'r, 't) dispatch_env \<Rightarrow> ('v net_message, 't) policy_registration \<Rightarrow> bool \<Rightarrow> registration_promise \<Rightarrow>
     ('v, 'r, 't, 'n) net_dispatcher \<Rightarrow> (unit, bridge_error) rresult \<times> ('v, 'r, 't, 'n) net_dispatcher" where
  "register_policy env reg update promise ds =
     (let (res, ds1) = register_at env (Segments (pr_path reg)) update (set_routing_policy (pr_path reg) (pr_policy reg)) ds in
      case res of
        Panic \<Rightarrow> (Panic, ds1)
      | _ \<Rightarrow> (Ok (), answer promise res ds1))"

subsection \<open>Requests\<close>

definition disp_close_channel :: "socket_addr \<Rightarrow> ('v, 'r, 't, 'n) net_dispatcher \<Rightarrow> ('v, 'r, 't, 'n) net_dispatcher" where
  "disp_close_channel addr ds =
     (case map_of (ds_connections ds) addr of
        Some (CS_Connected _) \<Rightarrow>
          (case ds_net_bridge ds of
             Some b \<Rightarrow>
               (let (q, b1) = drain_closing addr (ds_queues ds) b
                in ds\<lparr>ds_queues := q, ds_net_bridge := Some (snd (bridge_close_channel addr b1))\<rparr>)
           | None \<Rightarrow> ds)
      | _ \<Rightarrow> ds)"

fun handle_status_request ::
    "'n network_status_request \<Rightarrow> ('v, 'r, 't, 'n) net_dispatcher \<Rightarrow>
     (unit, bridge_error) rresult \<times> ('v, 'r, 't, 'n) net_dispatcher" where
  "handle_status_request (DisconnectSystem sp) ds = (Ok (), disp_close_channel (socket_address sp) ds)"
| "handle_status_request (ConnectSystem sp) ds =
     unwrapped (via_bridge (bridge_connect (protocol sp) (socket_address sp))) ds"
| "handle_status_request (ReqBlockIp ip) ds = unwrapped (via_bridge (block_ip ip)) ds"
| "handle_status_request (ReqBlockSystem sp) ds = unwrapped (via_bridge (block_socket (socket_address sp))) ds"
| "handle_status_request (ReqBlockIpNet n) ds = unwrapped (via_bridge (block_ip_net n)) ds"
| "handle_status_request (ReqAllowIp ip) ds = unwrapped (via_bridge (allow_ip ip)) ds"
| "handle_status_request (ReqAllowSystem sp) ds = unwrapped (via_bridge (allow_socket (socket_address sp))) ds"
| "handle_status_request (ReqAllowIpNet n) ds = unwrapped (via_bridge (allow_ip_net n)) ds"

subsection \<open>Handlers\<close>

datatype ('v, 'r, 't, 'n) dispatch_envelope =
  MsgEnv actor_path "'v dispatch_data"
  | ForwardedMsg "'v net_message"
  | Registration "('r, 'v net_message, 't) registration_event" bool registration_promise
  | EventEnv "('v dispatch_data, 'n) dispatcher_event"
  | LockedChunk buffer_chunk

text \<open>A failure to route is logged.\<close>

definition log_failure :: "(unit, 'e) rresult \<times> 's \<Rightarrow> (unit, 'e) rresult \<times> 's" where
  "log_failure p = (case fst p of Err _ \<Rightarrow> (Ok (), snd p) | _ \<Rightarrow> p)"

fun receive_local ::
    "('v, 'r, 't) dispatch_env \<Rightarrow> ('v, 'r, 't, 'n) dispatch_envelope \<Rightarrow> ('v, 'r, 't, 'n) net_dispatcher \<Rightarrow>
     (unit, bridge_error) rresult \<times> ('v, 'r, 't, 'n) net_dispatcher" where
  "receive_local env (MsgEnv dst msg) ds = log_failure (disp_route env dst msg ds)"
| "receive_local env (ForwardedMsg m) ds = log_failure (disp_route env (nm_receiver m) (DD_NetMessage m) ds)"
| "receive_local env (Registration (RegActor reg) update promise) ds = register_actor env reg update promise ds"
| "receive_local env (Registration (RegPolicy reg) update promise) ds = register_policy env reg update promise ds"
| "receive_local env (EventEnv ev) ds = on_event env ev ds"
| "receive_local env (LockedChunk trash) ds = (Ok (), ds\<lparr>ds_garbage_buffers := ds_garbage_buffers ds @ [trash]\<rparr>)"

text \<open>Everything the component reacts to, and a run of it; a panic ends the run.\<close>

datatype ('v, 'r, 't, 'n) dispatcher_input =
  Envelope "('v, 'r, 't, 'n) dispatch_envelope" | StatusRequest "'n network_status_request"
  | Timeout timer_action | OnStart | OnStop | OnKill

fun dispatcher_step ::
    "('v, 'r, 't) dispatch_env \<Rightarrow> ('v, 'r, 't, 'n) dispatcher_input \<Rightarrow> ('v, 'r, 't, 'n) net_dispatcher \<Rightarrow>
     (unit, bridge_error) rresult \<times> ('v, 'r, 't, 'n) net_dispatcher" where
  "dispatcher_step env (Envelope e) ds = receive_local env e ds"
| "dispatcher_step env (StatusRequest r) ds = handle_status_request r ds"
| "dispatcher_step env (Timeout RunReaper) ds = run_reaper env ds"
| "dispatcher_step env (Timeout RunRetries) ds = schedule_retries ds"
| "dispatcher_step env OnStart ds = on_start env ds"
| "dispatcher_step env OnStop ds = (Ok (), dispatcher_stop ds)"
| "dispatcher_step env OnKill ds = (Ok (), dispatcher_kill ds)"

fun dispatcher_run ::
    "(('v, 'r, 't) dispatch_env \<times> ('v, 'r, 't, 'n) dispatcher_input) list \<Rightarrow> ('v, 'r, 't, 'n) net_dispatcher \<Rightarrow>
     (unit, bridge_error) rresult \<times> ('v, 'r, 't, 'n) net_dispatcher" where
  "dispatcher_run [] ds = (Ok (), ds)"
| "dispatcher_run ((env, i) # is) ds = and_go (dispatcher_step env i ds) (\<lambda>_. dispatcher_run is)"

subsection \<open>Sending through a bridge\<close>

definition healthy :: "('d, 'n) bridge \<Rightarrow> bool" where
  "healthy b \<longleftrightarrow> br_receiver b \<and> (\<forall>w \<in> set (br_wakes b). w)"

definition sends :: "('d, 'n) thread_event list \<Rightarrow> ('d, 'n) bridge \<Rightarrow> ('d, 'n) bridge \<Rightarrow> bool" where
  "sends es b b' \<longleftrightarrow> healthy b' \<and> br_queue b' = br_queue b @ es"

lemma sends_refl: "healthy b \<Longrightarrow> sends [] b b"
  by (simp add: sends_def)

lemma sends_trans: "sends es b b1 \<Longrightarrow> sends fs b1 b2 \<Longrightarrow> sends (es @ fs) b b2"
  by (simp add: sends_def)

lemma send_and_wake_healthy: "healthy b \<Longrightarrow> \<exists>b'. send_and_wake e b = (Ok (), b') \<and> sends [e] b b'"
  by (cases "br_wakes b") (auto simp: send_and_wake_def healthy_def sends_def Let_def)

lemmas bridge_calls =
  bridge_route_def ack_closed_def bridge_close_channel_def block_socket_def block_ip_def block_ip_net_def
  allow_socket_def allow_ip_def allow_ip_net_def

text \<open>
  The loops that drain a destination differ in what they do with errors and in how they notice
  the end. What they share on a healthy bridge: with an empty queue they end, otherwise they
  send the first item and go on.
\<close>

locale queue_drain =
  fixes drain :: "'d queue_manager \<Rightarrow> ('d, 'n) bridge \<Rightarrow> 'x" and addr :: socket_addr
    and finished :: "'d queue_manager \<Rightarrow> ('d, 'n) bridge \<Rightarrow> 'x"
  assumes drain_empty: "pending q addr = [] \<Longrightarrow> healthy b \<Longrightarrow> \<exists>q'. drain q b = finished q' b \<and> pending q' = pending q"
    and drain_next: "pending q addr = d # ds \<Longrightarrow> healthy b \<Longrightarrow>
      \<exists>q' b'. drain q b = drain q' b' \<and> pending q' = (pending q)(addr := ds) \<and> sends [SendTcp addr d] b b'"
begin

lemma drain_sends:
  "pending q addr = ds \<Longrightarrow> healthy b \<Longrightarrow>
   \<exists>q' b'. drain q b = finished q' b' \<and> pending q' = (pending q)(addr := []) \<and> sends (map (SendTcp addr) ds) b b'"
proof (induction ds arbitrary: q b)
  case Nil
  then show ?case using drain_empty [of q b] sends_refl [of b] by fastforce
next
  case (Cons d ds)
  obtain q1 b1 where s: "drain q b = drain q1 b1" "pending q1 = (pending q)(addr := ds)" "sends [SendTcp addr d] b b1"
    using drain_next [OF Cons.prems] by blast
  have "pending q1 addr = ds" "healthy b1" using s(2,3) by (simp_all add: sends_def)
  from Cons.IH [OF this] obtain q' b' where
    "drain q1 b1 = finished q' b'" "pending q' = (pending q1)(addr := [])" "sends (map (SendTcp addr) ds) b1 b'" by blast
  then show ?case using s sends_trans [OF s(3)] by (intro exI [of _ q'] exI [of _ b']) auto
qed

end

lemma pop_data_Nil: "pending q a = [] \<Longrightarrow> \<exists>q'. pop_data a q = (None, q') \<and> pending q' = pending q"
  using outgoing.pop_result [of a q] outgoing.contents_pop [of a q] by (cases "pop_data a q") auto

lemma pop_data_Cons: "pending q a = d # ds \<Longrightarrow> \<exists>q'. pop_data a q = (Some d, q') \<and> pending q' = (pending q)(a := ds)"
  using outgoing.pop_result [of a q] outgoing.contents_pop [of a q] by (cases "pop_data a q") auto

lemma pop_and_route:
  assumes "pending q a = d # ds" and "healthy b"
  obtains q' b' where "pop_data a q = (Some d, q')" "pending q' = (pending q)(a := ds)"
    "bridge_route a d ProtoTcp b = (Ok (), b')" "sends [SendTcp a d] b b'" "has_data a q"
  using pop_data_Cons [OF assms(1)] send_and_wake_healthy [OF assms(2), of "SendTcp a d"] assms(1)
  by (auto simp: bridge_route_def outgoing.nonempty_contents)

interpretation established: queue_drain
  "\<lambda>q b. drain_established addr q (Some b)" addr "\<lambda>q b. (q, Some b)" for addr
proof
  fix q :: "'a queue_manager" and b :: "('a, 'b) bridge" and d ds
  show "pending q addr = [] \<Longrightarrow> healthy b \<Longrightarrow> \<exists>q'. drain_established addr q (Some b) = (q', Some b) \<and> pending q' = pending q"
    by (subst drain_established.simps) (auto dest!: pop_data_Nil)
  assume "pending q addr = d # ds" "healthy b"
  then show "\<exists>q' b'. drain_established addr q (Some b) = drain_established addr q' (Some b') \<and>
      pending q' = (pending q)(addr := ds) \<and> sends [SendTcp addr d] b b'"
    by (rule pop_and_route, subst drain_established.simps) auto
qed

interpretation routed: queue_drain "drain_routed addr" addr "\<lambda>q b. (Ok (), q, b)" for addr
proof
  fix q :: "'a queue_manager" and b :: "('a, 'b) bridge" and d ds
  show "pending q addr = [] \<Longrightarrow> healthy b \<Longrightarrow> \<exists>q'. drain_routed addr q b = (Ok (), q', b) \<and> pending q' = pending q"
    by (subst drain_routed.simps) (auto dest!: pop_data_Nil)
  assume "pending q addr = d # ds" "healthy b"
  then show "\<exists>q' b'. drain_routed addr q b = drain_routed addr q' b' \<and>
      pending q' = (pending q)(addr := ds) \<and> sends [SendTcp addr d] b b'"
    by (rule pop_and_route, subst drain_routed.simps) auto
qed

interpretation closing: queue_drain "drain_closing addr" addr Pair for addr
proof
  fix q :: "'a queue_manager" and b :: "('a, 'b) bridge" and d ds
  show "pending q addr = [] \<Longrightarrow> healthy b \<Longrightarrow> \<exists>q'. drain_closing addr q b = (q', b) \<and> pending q' = pending q"
    by (subst drain_closing.simps) (auto simp: outgoing.nonempty_contents)
  assume "pending q addr = d # ds" "healthy b"
  then show "\<exists>q' b'. drain_closing addr q b = drain_closing addr q' b' \<and>
      pending q' = (pending q)(addr := ds) \<and> sends [SendTcp addr d] b b'"
    by (rule pop_and_route, subst drain_closing.simps) auto
qed

subsection \<open>What handlers do to the network state\<close>

definition online :: "('v, 'r, 't, 'n) net_dispatcher \<Rightarrow> bool" where
  "online ds \<longleftrightarrow> (\<exists>b. ds_net_bridge ds = Some b \<and> healthy b)"

definition emits ::
    "('v dispatch_data, 'n) thread_event list \<Rightarrow> ('v, 'r, 't, 'n) net_dispatcher \<Rightarrow> ('v, 'r, 't, 'n) net_dispatcher \<Rightarrow> bool" where
  "emits es ds ds' \<longleftrightarrow> (\<exists>b b'. ds_net_bridge ds = Some b \<and> ds_net_bridge ds' = Some b' \<and> sends es b b')"

lemma emits_online: "emits es ds ds' \<Longrightarrow> online ds'"
  by (auto simp: emits_def online_def sends_def)

lemma emits_refl: "online ds \<Longrightarrow> ds_net_bridge ds' = ds_net_bridge ds \<Longrightarrow> emits [] ds ds'"
  by (auto simp: emits_def online_def sends_def)

lemma emits_trans: "emits es ds ds1 \<Longrightarrow> emits fs ds1 ds2 \<Longrightarrow> emits (es @ fs) ds ds2"
  by (auto simp: emits_def sends_def)

lemma via_send:
  assumes "online ds"
  obtains b' where "via_bridge (send_and_wake e) ds = (Ok (), ds\<lparr>ds_net_bridge := Some b'\<rparr>)"
    "emits [e] ds (ds\<lparr>ds_net_bridge := Some b'\<rparr>)"
proof -
  obtain b where b: "ds_net_bridge ds = Some b" "healthy b" using assms by (auto simp: online_def)
  obtain b' where "send_and_wake e b = (Ok (), b')" "sends [e] b b'" using send_and_wake_healthy [OF b(2)] by blast
  with b show ?thesis by (intro that [of b']) (auto simp: via_bridge_def emits_def)
qed

text \<open>The retries of one round, destination by destination.\<close>

definition gives_up :: "u8 \<Rightarrow> (socket_addr \<times> u8) list \<Rightarrow> socket_addr \<Rightarrow> bool" where
  "gives_up m rs a \<longleftrightarrow> (case map_of rs a of Some r \<Rightarrow> \<not> r < m | None \<Rightarrow> False)"

definition next_attempt :: "u8 \<Rightarrow> (socket_addr \<times> u8) list \<Rightarrow> socket_addr \<Rightarrow> u8 option" where
  "next_attempt m rs a = (case map_of rs a of Some r \<Rightarrow> if r < m then Some (r + 1) else None | None \<Rightarrow> None)"

definition retried ::
    "u8 \<Rightarrow> (socket_addr \<times> u8) list \<Rightarrow> ('v, 'r, 't, 'n) net_dispatcher \<Rightarrow> ('v, 'r, 't, 'n) net_dispatcher \<Rightarrow> bool" where
  "retried m rs ds ds' \<longleftrightarrow>
     emits (map (Connect \<circ> fst) (filter (\<lambda>(a, r). r < m) rs)) ds ds' \<and>
     ds_status ds' = ds_status ds @
       map (\<lambda>(a, r). ConnectionDropped (system_path_with_socket Tcp a)) (filter (\<lambda>(a, r). \<not> r < m) rs) \<and>
     pending (ds_queues ds') = (\<lambda>a. if gives_up m rs a then [] else pending (ds_queues ds) a) \<and>
     map_of (ds_connections ds') = (\<lambda>a. if gives_up m rs a then None else map_of (ds_connections ds) a) \<and>
     map_of (ds_retry_map ds') = map_of (ds_retry_map ds) ++ next_attempt m rs \<and>
     (distinct (map fst (ds_retry_map ds)) \<longrightarrow> distinct (map fst (ds_retry_map ds'))) \<and>
     (distinct (map fst (ds_connections ds)) \<longrightarrow> distinct (map fst (ds_connections ds'))) \<and>
     ds_cfg ds' = ds_cfg ds \<and> (ds_system_path ds \<noteq> None \<longrightarrow> ds_system_path ds' = ds_system_path ds)"

lemma retried_attempt:
  assumes "retried m rs (ds\<lparr>ds_retry_map := AList.update a (r + 1) (ds_retry_map ds), ds_net_bridge := Some b'\<rparr>) ds'"
    and "emits [Connect a] ds (ds\<lparr>ds_net_bridge := Some b'\<rparr>)" and "r < m" and "map_of rs a = None"
  shows "retried m ((a, r) # rs) ds ds'"
proof -
  have "gives_up m ((a, r) # rs) = gives_up m rs"
    using assms(3,4) by (auto simp: gives_up_def fun_eq_iff)
  moreover have "map_of (AList.update a (r + 1) (ds_retry_map ds)) ++ next_attempt m rs =
      map_of (ds_retry_map ds) ++ next_attempt m ((a, r) # rs)"
    using assms(3,4) by (auto simp: next_attempt_def map_add_def update_conv' fun_eq_iff split: option.splits)
  moreover have "emits (Connect a # map (Connect \<circ> fst) (filter (\<lambda>(a, r). r < m) rs)) ds ds'"
    using assms(1,2) by (auto simp: retried_def emits_def sends_def)
  ultimately show ?thesis using assms(1,3) by (simp add: retried_def distinct_update cong: if_cong)
qed

lemma retried_give_up:
  assumes "retried m rs (trigger (ConnectionDropped (system_path_with_socket Tcp a))
      (ds\<lparr>ds_queues := drop_queue a (ds_queues ds), ds_connections := AList.delete a (ds_connections ds)\<rparr>)) ds'"
    and "\<not> r < m" and "map_of rs a = None"
  shows "retried m ((a, r) # rs) ds ds'"
proof -
  have g: "gives_up m ((a, r) # rs) c \<longleftrightarrow> c = a \<or> gives_up m rs c" for c
    using assms(2,3) by (auto simp: gives_up_def)
  have "next_attempt m ((a, r) # rs) = next_attempt m rs"
    using assms(2,3) by (auto simp: next_attempt_def fun_eq_iff)
  then show ?thesis
    using assms(1,2)
    by (auto simp: retried_def g trigger_def outgoing.contents_clear delete_conv' distinct_delete emits_def fun_eq_iff map_add_def cong: if_cong)
qed

lemma retry_loop_spec:
  assumes "distinct (map fst rs)" and "online ds" and "m = nc_max_connection_retry_attempts (ds_cfg ds)"
  shows "\<exists>ds'. retry_loop rs ds = (Ok (), ds') \<and> retried m rs ds ds'"
  using assms
proof (induction rs arbitrary: ds)
  case Nil
  have "gives_up m [] = (\<lambda>_. False)" "next_attempt m [] = Map.empty"
    by (auto simp: gives_up_def next_attempt_def fun_eq_iff)
  with Nil show ?case by (simp add: retried_def emits_refl)
next
  case (Cons ar rs)
  obtain a r where ar: "ar = (a, r)" by force
  have na: "map_of rs a = None" using Cons.prems(1) ar by (simp add: map_of_eq_None_iff)
  have dist: "distinct (map fst rs)" using Cons.prems(1) by simp
  show ?case
  proof (cases "r < m")
    case True
    define d where "d = ds\<lparr>ds_retry_map := AList.update a (r + 1) (ds_retry_map ds)\<rparr>"
    have "online d" using Cons.prems(2) by (simp add: online_def d_def)
    then obtain b' where v: "via_bridge (send_and_wake (Connect a)) d = (Ok (), d\<lparr>ds_net_bridge := Some b'\<rparr>)"
      "emits [Connect a] d (d\<lparr>ds_net_bridge := Some b'\<rparr>)" by (rule via_send)
    have "m = nc_max_connection_retry_attempts (ds_cfg (d\<lparr>ds_net_bridge := Some b'\<rparr>))"
      using Cons.prems(3) by (simp add: d_def)
    from Cons.IH [OF dist emits_online [OF v(2)] this] obtain ds' where
      ih: "retry_loop rs (d\<lparr>ds_net_bridge := Some b'\<rparr>) = (Ok (), ds')" "retried m rs (d\<lparr>ds_net_bridge := Some b'\<rparr>) ds'"
      by blast
    have "retry_loop (ar # rs) ds = (Ok (), ds')"
      using True ar v(1) ih(1) Cons.prems(3)
      by (simp add: and_go_def unwrapped_def bridge_connect_def [abs_def] d_def)
    moreover have "emits [Connect a] ds (ds\<lparr>ds_net_bridge := Some b'\<rparr>)" using v(2) by (simp add: emits_def d_def)
    ultimately show ?thesis using retried_attempt [OF _ _ True na, where ds = ds and b' = b'] ih(2) ar by (simp add: d_def)
  next
    case False
    define e where "e = trigger (ConnectionDropped (system_path_with_socket Tcp a))
      (ds\<lparr>ds_queues := drop_queue a (ds_queues ds), ds_connections := AList.delete a (ds_connections ds)\<rparr>)"
    have "online e" "m = nc_max_connection_retry_attempts (ds_cfg e)"
      using Cons.prems(2,3) by (simp_all add: online_def trigger_def e_def)
    from Cons.IH [OF dist this] obtain ds' where ih: "retry_loop rs e = (Ok (), ds')" "retried m rs e ds'" by blast
    have "retry_loop (ar # rs) ds = (Ok (), ds')" using False ar ih(1) Cons.prems(3) by (simp add: e_def)
    then show ?thesis using retried_give_up [OF _ False na, where ds = ds and ds' = ds'] ih(2) ar by (simp add: e_def)
  qed
qed

lemma schedule_retries_spec:
  assumes "distinct (map fst (ds_retry_map ds))" and "online ds"
  obtains ds' where "schedule_retries ds = (Ok (), ds')"
    "retried (nc_max_connection_retry_attempts (ds_cfg ds)) (ds_retry_map ds) (ds\<lparr>ds_retry_map := []\<rparr>) ds'"
proof -
  have "online (ds\<lparr>ds_retry_map := []\<rparr>)" using assms(2) by (simp add: online_def)
  from retry_loop_spec [OF assms(1) this refl] obtain d where
    d: "retry_loop (ds_retry_map ds) (ds\<lparr>ds_retry_map := []\<rparr>) = (Ok (), d)"
    "retried (nc_max_connection_retry_attempts (ds_cfg ds)) (ds_retry_map ds) (ds\<lparr>ds_retry_map := []\<rparr>) d" by auto
  have "retried m rs e (schedule_once t n d) = retried m rs e d" for m rs e t n
    by (simp add: retried_def schedule_once_def emits_def)
  with d show ?thesis by (intro that [of "schedule_once RunRetries (nc_connection_retry_interval (ds_cfg d)) d"]) (simp_all add: schedule_retries_def and_go_def)
qed

text \<open>The data for a destination on its way: what has been handed to the network thread, then what waits.\<close>

definition tcp_data :: "socket_addr \<Rightarrow> ('d, 'n) thread_event list \<Rightarrow> 'd list" where
  "tcp_data a es = List.map_filter (\<lambda>e. case e of SendTcp b d \<Rightarrow> if b = a then Some d else None | _ \<Rightarrow> None) es"

definition stream :: "('v, 'r, 't, 'n) net_dispatcher \<Rightarrow> socket_addr \<Rightarrow> 'v dispatch_data list" where
  "stream ds a = (case ds_net_bridge ds of Some b \<Rightarrow> tcp_data a (br_queue b) | None \<Rightarrow> []) @ pending (ds_queues ds) a"

lemma tcp_data_append [simp]: "tcp_data a (es @ fs) = tcp_data a es @ tcp_data a fs"
  by (simp add: tcp_data_def map_filter_def)

lemma tcp_data_simps [simp]:
  "tcp_data a [] = []"
  "tcp_data a (SendTcp b d # es) = (if b = a then d # tcp_data a es else tcp_data a es)"
  "tcp_data a (SendUdp b d # es) = tcp_data a es"
  "tcp_data a (StopThread # es) = tcp_data a es" "tcp_data a (KillThread # es) = tcp_data a es"
  "tcp_data a (Connect b # es) = tcp_data a es" "tcp_data a (ClosedAck b # es) = tcp_data a es"
  "tcp_data a (Close b # es) = tcp_data a es" "tcp_data a (BlockSocket b # es) = tcp_data a es"
  "tcp_data a (BlockIpAddr ip # es) = tcp_data a es" "tcp_data a (BlockIpNet n # es) = tcp_data a es"
  "tcp_data a (AllowSocket b # es) = tcp_data a es" "tcp_data a (AllowIpAddr ip # es) = tcp_data a es"
  "tcp_data a (AllowIpNet n # es) = tcp_data a es"
  by (simp_all add: tcp_data_def map_filter_def)

lemma tcp_data_sends [simp]: "tcp_data a (map (SendTcp b) ds) = (if a = b then ds else [])"
  by (induction ds) auto

lemma tcp_data_connects [simp]: "tcp_data a (map (Connect \<circ> fst) rs) = []"
  by (induction rs) auto

lemma stream_emits:
  "emits es ds ds' \<Longrightarrow> stream ds' a @ pending (ds_queues ds) a =
     (case ds_net_bridge ds of Some b \<Rightarrow> tcp_data a (br_queue b) | None \<Rightarrow> []) @ tcp_data a es @ pending (ds_queues ds') a
       @ pending (ds_queues ds) a"
  by (auto simp: emits_def stream_def sends_def)

lemma stream_step:
  assumes "emits es ds ds'" and "tcp_data a es @ pending (ds_queues ds') a = pending (ds_queues ds) a @ new"
  shows "stream ds' a = stream ds a @ new"
  using assms by (auto simp: emits_def stream_def sends_def)

lemma connection_of_set [simp]: "connection_of (set_connection a st ds) = (connection_of ds)(a := st)"
  by (auto simp: connection_of_def set_connection_def update_conv' fun_eq_iff)

lemma set_connection_fields [simp]:
  "ds_net_bridge (set_connection a st ds) = ds_net_bridge ds" "ds_queues (set_connection a st ds) = ds_queues ds"
  "ds_retry_map (set_connection a st ds) = ds_retry_map ds" "ds_cfg (set_connection a st ds) = ds_cfg ds"
  "ds_status (set_connection a st ds) = ds_status ds" "ds_system_path (set_connection a st ds) = ds_system_path ds"
  by (simp_all add: set_connection_def)

lemma set_connection_distinct [simp]:
  "distinct (map fst (ds_connections ds)) \<Longrightarrow> distinct (map fst (ds_connections (set_connection a st ds)))"
  by (simp add: set_connection_def distinct_update)

lemma enqueue_for_fields [simp]:
  "ds_net_bridge (enqueue_for a d ds) = ds_net_bridge ds" "ds_retry_map (enqueue_for a d ds) = ds_retry_map ds"
  "ds_cfg (enqueue_for a d ds) = ds_cfg ds" "ds_status (enqueue_for a d ds) = ds_status ds"
  "ds_system_path (enqueue_for a d ds) = ds_system_path ds" "ds_connections (enqueue_for a d ds) = ds_connections ds"
  "connection_of (enqueue_for a d ds) = connection_of ds"
  "pending (ds_queues (enqueue_for a d ds)) = (pending (ds_queues ds))(a := pending (ds_queues ds) a @ [d])"
  by (simp_all add: enqueue_for_def connection_of_def outgoing.contents_enqueue fun_eq_iff)

lemma trigger_fields [simp]:
  "ds_net_bridge (trigger st ds) = ds_net_bridge ds" "ds_queues (trigger st ds) = ds_queues ds"
  "ds_retry_map (trigger st ds) = ds_retry_map ds" "ds_cfg (trigger st ds) = ds_cfg ds"
  "ds_status (trigger st ds) = ds_status ds @ [st]" "ds_system_path (trigger st ds) = ds_system_path ds"
  "ds_connections (trigger st ds) = ds_connections ds" "connection_of (trigger st ds) = connection_of ds"
  by (simp_all add: trigger_def connection_of_def fun_eq_iff)

lemma connection_of_more [simp]:
  "connection_of (ds\<lparr>ds_net_bridge := b\<rparr>) = connection_of ds" "connection_of (ds\<lparr>ds_queues := q\<rparr>) = connection_of ds"
  "connection_of (ds\<lparr>ds_retry_map := r\<rparr>) = connection_of ds"
  by (simp_all add: connection_of_def fun_eq_iff)

lemma emits_update:
  "emits es ds (ds\<lparr>ds_net_bridge := Some b'\<rparr>) \<Longrightarrow> ds_net_bridge e = ds_net_bridge ds \<Longrightarrow> ds_net_bridge e' = Some b' \<Longrightarrow>
   emits es e e'"
  by (auto simp: emits_def)

text \<open>What routing to a remote system does to the network state.\<close>

definition routed_tcp ::
    "socket_addr \<Rightarrow> 'v dispatch_data \<Rightarrow> ('v, 'r, 't, 'n) net_dispatcher \<Rightarrow> ('v, 'r, 't, 'n) net_dispatcher \<Rightarrow> bool" where
  "routed_tcp a d ds ds' \<longleftrightarrow>
     ds_status ds' = ds_status ds \<and> ds_cfg ds' = ds_cfg ds \<and> (ds_system_path ds \<noteq> None \<longrightarrow> ds_system_path ds' = ds_system_path ds) \<and>
     (distinct (map fst (ds_connections ds)) \<longrightarrow> distinct (map fst (ds_connections ds'))) \<and>
     (let q = pending (ds_queues ds); q' = pending (ds_queues ds'); st = connection_of ds a in
      case st of
        CS_Connected _ \<Rightarrow> emits (map (SendTcp a) (q a @ [d])) ds ds' \<and> q' = q(a := []) \<and>
          connection_of ds' = connection_of ds \<and> ds_retry_map ds' = ds_retry_map ds
      | CS_Blocked \<Rightarrow> emits [] ds ds' \<and> q' = q \<and> connection_of ds' = connection_of ds \<and> ds_retry_map ds' = ds_retry_map ds
      | CS_New \<Rightarrow> emits [Connect a] ds ds' \<and> q' = q(a := q a @ [d]) \<and>
          connection_of ds' = (connection_of ds)(a := CS_Initializing) \<and>
          ds_retry_map ds' = AList.update a 0 (ds_retry_map ds)
      | CS_Closed _ \<Rightarrow> emits [Connect a] ds ds' \<and> q' = q(a := q a @ [d]) \<and>
          connection_of ds' = (connection_of ds)(a := CS_Initializing) \<and>
          ds_retry_map ds' = (case map_of (ds_retry_map ds) a of
            None \<Rightarrow> AList.update a 0 (ds_retry_map ds) | Some _ \<Rightarrow> ds_retry_map ds)
      | _ \<Rightarrow> emits [] ds ds' \<and> q' = q(a := q a @ [d]) \<and> connection_of ds' = connection_of ds \<and>
          ds_retry_map ds' = ds_retry_map ds)"

lemma route_remote_tcp_spec:
  assumes "online ds"
  obtains ds' where "route_remote_tcp a d ds = (Ok (), ds')" "routed_tcp a d ds ds'"
proof -
  define ds0 where "ds0 = set_connection a (connection_of ds a) ds"
  define ds1 where "ds1 = enqueue_for a d ds0"
  obtain b where b: "ds_net_bridge ds = Some b" "healthy b" using assms by (auto simp: online_def)
  have fields: "ds_net_bridge ds0 = Some b" "ds_net_bridge ds1 = Some b" "ds_status ds0 = ds_status ds" "ds_status ds1 = ds_status ds"
      "ds_cfg ds0 = ds_cfg ds" "ds_cfg ds1 = ds_cfg ds" "ds_system_path ds0 = ds_system_path ds" "ds_system_path ds1 = ds_system_path ds"
      "connection_of ds0 = connection_of ds" "connection_of ds1 = connection_of ds"
      "ds_retry_map ds0 = ds_retry_map ds" "ds_retry_map ds1 = ds_retry_map ds" "ds_queues ds0 = ds_queues ds"
      "pending (ds_queues ds1) = (pending (ds_queues ds))(a := pending (ds_queues ds) a @ [d])"
    by (simp_all add: ds0_def ds1_def b(1))
  have dist: "distinct (map fst (ds_connections ds)) \<Longrightarrow> distinct (map fst (ds_connections ds0))" "ds_connections ds1 = ds_connections ds0"
    by (simp_all add: ds0_def ds1_def)
  have quiet: "emits [] ds ds0" "emits [] ds ds1" using assms fields b(1) by (auto intro: emits_refl)
  obtain b1 where b1: "send_and_wake (Connect a) b = (Ok (), b1)" "sends [Connect a] b b1"
    using send_and_wake_healthy [OF b(2)] by blast
  obtain b2 where b2: "bridge_route a d ProtoTcp b = (Ok (), b2)" "sends [SendTcp a d] b b2"
    using send_and_wake_healthy [OF b(2), of "SendTcp a d"] by (auto simp: bridge_route_def)
  note defs = route_remote_tcp_def Let_def ds0_def [symmetric] ds1_def [symmetric] and_go_def unwrapped_def
    via_bridge_def bridge_connect_def fields dist b1(1) b2(1)
  have "\<exists>ds'. route_remote_tcp a d ds = (Ok (), ds') \<and> routed_tcp a d ds ds'"
  proof (cases "connection_of ds a")
    case (CS_Connected i)
    show ?thesis
    proof (cases "pending (ds_queues ds) a = []")
      case True
      then show ?thesis using CS_Connected b(1) b2(2)
        by (auto simp: defs outgoing.nonempty_contents routed_tcp_def emits_def fun_eq_iff)
    next
      case False
      obtain q' b' where "drain_routed a (ds_queues ds1) b = (Ok (), q', b')"
        "pending q' = (pending (ds_queues ds1))(a := [])"
        "sends (map (SendTcp a) (pending (ds_queues ds1) a)) b b'"
        using routed.drain_sends [OF refl b(2)] by blast
      moreover have "set_connection a (CS_Connected i) ds = ds0" using CS_Connected by (simp add: ds0_def)
      ultimately show ?thesis using CS_Connected False b(1)
        by (auto simp: defs outgoing.nonempty_contents routed_tcp_def emits_def fun_eq_iff)
    qed
  qed (use b(1) b1(2) quiet in \<open>auto simp: defs routed_tcp_def emits_def split: option.splits\<close>)
  then show ?thesis using that by blast
qed

text \<open>The same for the other handlers that touch connections.\<close>

definition net_change ::
    "('v dispatch_data, 'n) thread_event list \<Rightarrow> (socket_addr \<Rightarrow> 'v dispatch_data list) \<Rightarrow> (socket_addr \<Rightarrow> connection_state) \<Rightarrow>
     (socket_addr \<times> u8) list \<Rightarrow> 'n network_status list \<Rightarrow>
     ('v, 'r, 't, 'n) net_dispatcher \<Rightarrow> ('v, 'r, 't, 'n) net_dispatcher \<Rightarrow> bool" where
  "net_change es q c r sts ds ds' \<longleftrightarrow>
     emits es ds ds' \<and> pending (ds_queues ds') = q \<and> connection_of ds' = c \<and> ds_retry_map ds' = r \<and>
     ds_status ds' = ds_status ds @ sts \<and> ds_cfg ds' = ds_cfg ds \<and> (ds_system_path ds \<noteq> None \<longrightarrow> ds_system_path ds' = ds_system_path ds) \<and>
     (distinct (map fst (ds_connections ds)) \<longrightarrow> distinct (map fst (ds_connections ds')))"

lemma connection_of_update [simp]:
  "connection_of (ds\<lparr>ds_connections := AList.update a st (ds_connections e)\<rparr>) = (connection_of e)(a := st)"
  "connection_of (ds\<lparr>ds_connections := AList.delete a (ds_connections e)\<rparr>) = (connection_of e)(a := CS_New)"
  by (auto simp: connection_of_def update_conv' delete_conv' fun_eq_iff)

lemma connection_established_spec:
  assumes "online ds" and "a = socket_address sp"
  shows "net_change (map (SendTcp a) (pending (ds_queues ds) a)) ((pending (ds_queues ds))(a := []))
    ((connection_of ds)(a := CS_Connected i)) (AList.delete a (ds_retry_map ds)) [ConnectionEstablished sp i]
    ds (connection_established sp i ds)"
proof (cases "has_data a (ds_queues ds)")
  case True
  obtain b where b: "ds_net_bridge ds = Some b" "healthy b" using assms by (auto simp: online_def)
  obtain q' b' where "drain_established a (ds_queues ds) (Some b) = (q', Some b')"
    "pending q' = (pending (ds_queues ds))(a := [])" "sends (map (SendTcp a) (pending (ds_queues ds) a)) b b'"
    using established.drain_sends [OF refl b(2)] by blast
  then show ?thesis
    using True b assms(2) by (simp add: net_change_def connection_established_def Let_def distinct_update emits_def)
next
  case False
  then have "pending (ds_queues ds) a = []" by (simp add: outgoing.nonempty_contents)
  moreover have "emits [] ds (connection_established sp i ds)"
    using False assms by (intro emits_refl) (simp_all add: connection_established_def Let_def)
  ultimately show ?thesis
    using False assms(2) by (simp add: net_change_def connection_established_def Let_def distinct_update fun_upd_idem)
qed

lemma acked:
  assumes "online ds"
  obtains b' where "logged (via_bridge (ack_closed a)) ds = ds\<lparr>ds_net_bridge := Some b'\<rparr>"
    "emits [ClosedAck a] ds (ds\<lparr>ds_net_bridge := Some b'\<rparr>)"
proof -
  obtain b' where "via_bridge (send_and_wake (ClosedAck a)) ds = (Ok (), ds\<lparr>ds_net_bridge := Some b'\<rparr>)"
    "emits [ClosedAck a] ds (ds\<lparr>ds_net_bridge := Some b'\<rparr>)" using via_send [OF assms] .
  then show ?thesis by (intro that [of b']) (simp_all add: logged_def ack_closed_def)
qed

lemma connection_closed_spec:
  assumes "online ds" and "a = socket_address sp"
  shows "net_change [ClosedAck a] (pending (ds_queues ds)) ((connection_of ds)(a := CS_Closed i))
    (if has_data a (ds_queues ds) then AList.update a 0 (ds_retry_map ds) else ds_retry_map ds) [ConnectionClosed sp i]
    ds (connection_closed sp i ds)"
proof -
  have "online (trigger (ConnectionClosed sp i) ds)" using assms(1) by (simp add: online_def)
  then obtain b' where "logged (via_bridge (ack_closed a)) (trigger (ConnectionClosed sp i) ds) =
      (trigger (ConnectionClosed sp i) ds)\<lparr>ds_net_bridge := Some b'\<rparr>"
    "emits [ClosedAck a] (trigger (ConnectionClosed sp i) ds) ((trigger (ConnectionClosed sp i) ds)\<lparr>ds_net_bridge := Some b'\<rparr>)"
    by (rule acked)
  with assms(2) show ?thesis
    by (simp add: net_change_def connection_closed_def Let_def distinct_update) (simp add: emits_def)
qed

lemma connection_lost_spec:
  assumes "online ds" and "a = socket_address sp"
  shows "net_change [ClosedAck a] (pending (ds_queues ds)) ((connection_of ds)(a := CS_Lost i))
    (if map_of (ds_retry_map ds) a = None then AList.update a 0 (ds_retry_map ds) else ds_retry_map ds) [ConnectionLost sp i]
    ds (connection_lost sp i ds)"
proof -
  define d where "d = trigger (ConnectionLost sp i)
    (if map_of (ds_retry_map ds) a = None then ds\<lparr>ds_retry_map := AList.update a 0 (ds_retry_map ds)\<rparr> else ds)"
  have f: "ds_net_bridge d = ds_net_bridge ds" "ds_queues d = ds_queues ds" "ds_status d = ds_status ds @ [ConnectionLost sp i]"
      "ds_cfg d = ds_cfg ds" "ds_system_path d = ds_system_path ds" "connection_of d = connection_of ds"
      "ds_connections d = ds_connections ds"
      "ds_retry_map d = (if map_of (ds_retry_map ds) a = None then AList.update a 0 (ds_retry_map ds) else ds_retry_map ds)"
    by (simp_all add: d_def)
  have "online d" using assms(1) by (simp add: online_def f)
  then obtain b' where l: "logged (via_bridge (ack_closed a)) d = d\<lparr>ds_net_bridge := Some b'\<rparr>"
    "emits [ClosedAck a] d (d\<lparr>ds_net_bridge := Some b'\<rparr>)" by (rule acked)
  have c: "connection_lost sp i ds = d\<lparr>ds_net_bridge := Some b', ds_connections := AList.update a (CS_Lost i) (ds_connections d)\<rparr>"
    unfolding connection_lost_def Let_def assms(2) [symmetric] d_def [symmetric] l(1) by simp
  show ?thesis unfolding c using l(2) by (simp add: net_change_def f distinct_update) (simp add: emits_def f)
qed

lemma disp_close_channel_spec:
  assumes "online ds"
  shows "\<exists>es. net_change es
    (if (\<exists>i. connection_of ds a = CS_Connected i) then (pending (ds_queues ds))(a := []) else pending (ds_queues ds))
    (connection_of ds) (ds_retry_map ds) [] ds (disp_close_channel a ds) \<and>
    (\<forall>b. tcp_data b es @ pending (ds_queues (disp_close_channel a ds)) b = pending (ds_queues ds) b)"
proof (cases "\<exists>i. connection_of ds a = CS_Connected i")
  case True
  then obtain i where i: "map_of (ds_connections ds) a = Some (CS_Connected i)"
    by (auto simp: connection_of_def split: option.splits)
  obtain b where b: "ds_net_bridge ds = Some b" "healthy b" using assms by (auto simp: online_def)
  obtain q' b1 where d: "drain_closing a (ds_queues ds) b = (q', b1)"
    "pending q' = (pending (ds_queues ds))(a := [])" "sends (map (SendTcp a) (pending (ds_queues ds) a)) b b1"
    using closing.drain_sends [OF refl b(2)] by blast
  obtain b2 where "bridge_close_channel a b1 = (Ok (), b2)" "sends [Close a] b1 b2"
    using send_and_wake_healthy [of b1] d(3) by (auto simp: bridge_close_channel_def sends_def)
  with d b i True show ?thesis
    by (intro exI [of _ "map (SendTcp a) (pending (ds_queues ds) a) @ [Close a]"])
      (auto simp: net_change_def disp_close_channel_def emits_def dest: sends_trans)
next
  case False
  then have "disp_close_channel a ds = ds"
    by (auto simp: disp_close_channel_def connection_of_def split: option.splits connection_state.splits)
  with False show ?thesis using assms by (intro exI [of _ "[]"]) (auto simp: net_change_def intro: emits_refl)
qed

lemma request_spec:
  assumes "online ds" and "handle_status_request r ds = (Ok (), ds')"
  shows "\<exists>es q. net_change es q (connection_of ds) (ds_retry_map ds) [] ds ds' \<and>
    (\<forall>b. tcp_data b es @ q b = pending (ds_queues ds) b)"
proof -
  have one: "\<exists>es q. net_change es q (connection_of ds) (ds_retry_map ds) [] ds ds' \<and>
      (\<forall>b. tcp_data b es @ q b = pending (ds_queues ds) b)"
    if r: "unwrapped (via_bridge (send_and_wake e)) ds = (Ok () :: (unit, bridge_error) rresult, ds')"
      and "\<forall>b. tcp_data b [e] = []" for e
  proof -
    obtain b' where "via_bridge (send_and_wake e) ds = (Ok (), ds\<lparr>ds_net_bridge := Some b'\<rparr>)"
      "emits [e] ds (ds\<lparr>ds_net_bridge := Some b'\<rparr>)" using via_send [OF assms(1)] .
    with that show ?thesis
      by (intro exI [of _ "[e]"] exI [of _ "pending (ds_queues ds)"]) (auto simp: unwrapped_def net_change_def)
  qed
  show ?thesis
  proof (cases r)
    case (DisconnectSystem sp)
    then show ?thesis using disp_close_channel_spec [OF assms(1), of "socket_address sp"] assms(2)
      by (auto simp: net_change_def)
  next
    case (ConnectSystem sp)
    then have "protocol sp = Tcp"
      using assms by (auto simp: online_def unwrapped_def via_bridge_def bridge_connect_def split: transport.splits)
    then show ?thesis using one [of "Connect (socket_address sp)"] assms(2) ConnectSystem
      by (simp add: bridge_connect_def [abs_def])
  qed (use one assms(2) in \<open>auto simp: bridge_calls\<close>)
qed

text \<open>Local routing, registration and reaping leave the network state alone; the system path is cached once.\<close>

definition inert :: "('v, 'r, 't, 'n) net_dispatcher \<Rightarrow> ('v, 'r, 't, 'n) net_dispatcher \<Rightarrow> bool" where
  "inert ds ds' \<longleftrightarrow>
     ds_connections ds' = ds_connections ds \<and> ds_net_bridge ds' = ds_net_bridge ds \<and> ds_queues ds' = ds_queues ds \<and>
     ds_retry_map ds' = ds_retry_map ds \<and> ds_cfg ds' = ds_cfg ds \<and> ds_status ds' = ds_status ds \<and>
     (ds_system_path ds \<noteq> None \<longrightarrow> ds_system_path ds' = ds_system_path ds)"

lemma inert_refl [simp]: "inert ds ds"
  by (simp add: inert_def)

lemma inert_trans: "inert ds ds1 \<Longrightarrow> inert ds1 ds2 \<Longrightarrow> inert ds ds2"
  by (simp add: inert_def)

lemma inert_change: "inert ds ds' \<Longrightarrow> online ds \<Longrightarrow>
   net_change [] (pending (ds_queues ds)) (connection_of ds) (ds_retry_map ds) [] ds ds'"
  by (auto simp: inert_def net_change_def emits_def online_def sends_def connection_of_def fun_eq_iff)

lemma inert_and_go:
  "inert ds (snd p) \<Longrightarrow> (\<And>a. fst p = Ok a \<Longrightarrow> inert (snd p) (snd (f a (snd p)))) \<Longrightarrow> inert ds (snd (and_go p f))"
  by (auto simp: and_go_def intro: inert_trans split: rresult.splits)

lemma inert_system_path: "inert ds (snd (disp_system_path ds))" "inert ds (snd (system_path_ref ds))"
proof -
  show i: "inert ds (snd (disp_system_path ds))" for ds :: "('v, 'r, 't, 'n) net_dispatcher"
    by (auto simp: disp_system_path_def inert_def Let_def split: option.splits)
  show "inert ds (snd (system_path_ref ds))"
    by (auto simp: system_path_ref_def intro: inert_and_go i)
qed

lemma inert_route_local: "inert ds (snd (route_local env dst msg ds))"
  by (auto simp: route_local_def inert_def split: rresult.splits lookup_result.splits)

lemma inert_resolve: "inert ds (snd (resolve_path dbg res ds))"
  by (auto simp: resolve_path_def deadletter_path_def intro!: inert_and_go inert_system_path split: path_resolvable.splits)

lemma inert_register_at: "inert ds (snd (register_at env path update change ds))"
proof -
  obtain r ds1 where rp: "resolve_path (debug_assertions (de_build env)) path ds = (r, ds1)" by force
  then have "inert ds ds1" using inert_resolve [of ds "debug_assertions (de_build env)" path] by simp
  then show ?thesis
    by (auto simp: register_at_def rp intro!: inert_and_go split: rresult.splits) (auto simp: inert_def)
qed

lemma inert_reaper: "inert ds (snd (run_reaper env ds))"
  by (auto simp: run_reaper_def inert_def schedule_once_def split: rresult.splits)

lemma inert_answer: "inert ds (answer promise res ds)"
  by (auto simp: answer_def inert_def split: registration_promise.splits)

lemma inert_register:
  "inert ds (snd (register_actor env areg update promise ds))" "inert ds (snd (register_policy env preg update promise ds))"
proof -
  obtain r ds1 where r: "register_at env (ar_path areg) update (store_insert (ar_path areg) (ar_actor areg)) ds = (r, ds1)" by force
  then have i: "inert ds ds1" using inert_register_at by (metis snd_conv)
  show "inert ds (snd (register_actor env areg update promise ds))"
    using i by (auto simp: register_actor_def r intro!: inert_and_go intro: inert_trans [OF _ inert_answer] inert_trans [OF _ inert_reaper]
        inert_answer split: rresult.splits)
  obtain r' ds2 where r': "register_at env (Segments (pr_path preg)) update
      (set_routing_policy (pr_path preg) (pr_policy preg)) ds = (r', ds2)" by force
  then have "inert ds ds2" using inert_register_at by (metis snd_conv)
  then show "inert ds (snd (register_policy env preg update promise ds))"
    by (auto simp: register_policy_def r' intro: inert_trans [OF _ inert_answer] split: rresult.splits)
qed

lemma inert_then_change: "inert ds ds1 \<Longrightarrow> net_change es q c r sts ds1 ds' \<Longrightarrow> net_change es q c r sts ds ds'"
  by (auto simp: inert_def net_change_def emits_def)

lemma inert_then_routed:
  assumes "inert ds ds1" and "routed_tcp a d ds1 ds'"
  shows "routed_tcp a d ds ds'"
proof -
  have eqs: "connection_of ds1 = connection_of ds" "emits es ds1 ds' = emits es ds ds'" "ds_queues ds1 = ds_queues ds"
      "ds_retry_map ds1 = ds_retry_map ds" "ds_status ds1 = ds_status ds" "ds_cfg ds1 = ds_cfg ds"
      "ds_connections ds1 = ds_connections ds" for es
    using assms(1) by (simp_all add: inert_def emits_def connection_of_def fun_eq_iff)
  have "ds_system_path ds \<noteq> None \<longrightarrow> ds_system_path ds1 = ds_system_path ds" using assms(1) by (simp add: inert_def)
  with assms(2) show ?thesis unfolding routed_tcp_def eqs by argo
qed

lemma inert_online: "inert ds ds1 \<Longrightarrow> online ds \<Longrightarrow> online ds1"
  by (simp add: inert_def online_def)

definition no_change :: "('v, 'r, 't, 'n) net_dispatcher \<Rightarrow> ('v, 'r, 't, 'n) net_dispatcher \<Rightarrow> bool" where
  "no_change ds ds' \<longleftrightarrow>
     (\<exists>es q. net_change es q (connection_of ds) (ds_retry_map ds) [] ds ds' \<and>
       (\<forall>a. tcp_data a es @ q a = pending (ds_queues ds) a))"

lemma inert_no_change: "inert ds ds' \<Longrightarrow> online ds \<Longrightarrow> no_change ds ds'"
  unfolding no_change_def by (rule exI [of _ "[]"]) (use inert_change in auto)

text \<open>The destination to which a path is routed over TCP.\<close>

definition tcp_destination :: "system_path \<Rightarrow> actor_path \<Rightarrow> socket_addr option" where
  "tcp_destination own dst =
     (if ap_system dst \<noteq> own \<and> protocol (ap_system dst) = Tcp then Some (socket_address (ap_system dst)) else None)"

lemma disp_route_spec:
  assumes "online ds" and "disp_route env dst msg ds = (r, ds')" and "r \<noteq> Panic"
  shows "\<exists>own. (ds_system_path ds \<noteq> None \<longrightarrow> ds_system_path ds = Some own) \<and>
    (case tcp_destination own dst of Some a \<Rightarrow> r = Ok () \<and> routed_tcp a msg ds ds' | None \<Rightarrow> no_change ds ds')"
proof -
  obtain o1 ds1 where sp: "system_path_ref ds = (o1 :: (system_path, bridge_error) rresult, ds1)" by force
  have i: "inert ds ds1" using inert_system_path(2) [of ds] sp by (metis snd_conv)
  then have on: "online ds1" using assms(1) by (rule inert_online)
  obtain own where own: "o1 = Ok own"
  proof (cases o1)
    case (Err e)
    then show ?thesis using sp
      by (auto simp: system_path_ref_def disp_system_path_def and_go_def or_panic_def Let_def split: option.splits if_splits)
  qed (use assms sp in \<open>auto simp: disp_route_def and_go_def\<close>)
  have route: "(r, ds') =
      (if own = ap_system dst then route_local env dst msg ds1
       else case protocol (ap_system dst) of
         Local \<Rightarrow> route_local env dst msg ds1
       | Tcp \<Rightarrow> route_remote_tcp (socket_address (ap_system dst)) msg ds1
       | Udp \<Rightarrow> route_remote_udp (socket_address (ap_system dst)) msg ds1)"
    using assms(2) unfolding disp_route_def and_go_def sp own fst_conv snd_conv rresult.case by simp
  have "ds_system_path ds \<noteq> None \<longrightarrow> ds_system_path ds = Some own"
    using sp own by (auto simp: system_path_ref_def)
  moreover have "case tcp_destination own dst of Some a \<Rightarrow> r = Ok () \<and> routed_tcp a msg ds ds' | None \<Rightarrow> no_change ds ds'"
  proof (cases "tcp_destination own dst")
    case (Some a)
    obtain ds2 where "route_remote_tcp a msg ds1 = (Ok (), ds2)" "routed_tcp a msg ds1 ds2"
      using route_remote_tcp_spec [OF on] .
    then show ?thesis
      using Some route i by (auto simp: tcp_destination_def intro: inert_then_routed split: if_splits)
  next
    case None
    show ?thesis
    proof (cases "own = ap_system dst \<or> protocol (ap_system dst) = Local")
      case True
      then have "inert ds1 ds'"
        using route inert_route_local [of ds1 env dst msg] by (auto split: if_splits) (metis snd_conv)+
      then show ?thesis using None inert_no_change [OF inert_trans [OF i] assms(1)] by simp
    next
      case False
      then have "protocol (ap_system dst) = Udp"
        using None by (cases "protocol (ap_system dst)") (auto simp: tcp_destination_def split: if_splits)
      let ?e = "SendUdp (socket_address (ap_system dst)) msg"
      obtain b' where v: "via_bridge (send_and_wake ?e) ds1 = (Ok (), ds1\<lparr>ds_net_bridge := Some b'\<rparr>)"
        "emits [?e] ds1 (ds1\<lparr>ds_net_bridge := Some b'\<rparr>)" using via_send [OF on] .
      have "ds' = ds1\<lparr>ds_net_bridge := Some b'\<rparr>"
        using False route v(1) \<open>protocol (ap_system dst) = Udp\<close> by (simp add: route_remote_udp_def bridge_route_def)
      then have "net_change [?e] (pending (ds_queues ds)) (connection_of ds) (ds_retry_map ds) [] ds1 ds'"
        using v(2) i by (auto simp: net_change_def inert_def connection_of_def fun_eq_iff)
      from inert_then_change [OF i this] show ?thesis
        using None by (auto simp: no_change_def intro!: exI [of _ "[?e]"] exI [of _ "pending (ds_queues ds)"])
    qed
  qed
  ultimately show ?thesis by blast
qed

end
