(* ===== verification/Dispatcher_Flow.thy ===== *)
theory Dispatcher_Flow
  imports Net_Dispatcher
begin

section \<open>Message flow through the network dispatcher\<close>

text \<open>
  Properties of whole runs of the dispatcher: no message that waits is forgotten, the messages for a
  destination stay in order, and retries end.
\<close>

declare map_of_eq_Some_iff [simp del] Some_eq_map_of_iff [simp del]

text \<open>A system at 10.0.0.1 and a peer at 10.0.0.2, for the examples.\<close>

definition own_addr :: socket_addr where "own_addr = \<lparr>sock_ip = V4 0x0A000001, sock_port = 8080\<rparr>"
definition peer_addr :: socket_addr where "peer_addr = \<lparr>sock_ip = V4 0x0A000002, sock_port = 8080\<rparr>"
definition own_system :: system_path where "own_system = system_path_with_socket Tcp own_addr"
definition peer_actor :: actor_path where "peer_actor = Unique (into_unique (system_path_with_socket Tcp peer_addr) 7)"

definition sample_env :: "(unit, nat, nat) dispatch_env" where
  "sample_env =
     \<lparr>de_build = \<lparr>debug_assertions = True, implicit_routes = False,
        default_select = \<lparr>hash_one = of_nat, field_extractor = (\<lambda>_. 0)\<rparr>\<rparr>,
      de_ops = be_buf_ops, de_fresh = 0, de_alive = (\<lambda>_. True), de_locks = (\<lambda>_. 0), de_overflow_checks = True,
      de_algorithm = None, de_boot = Some, de_deadletter_ref = 0\<rparr>"

definition sample_data :: "u8 \<Rightarrow> unit dispatch_data" where "sample_data n = DD_Serialised (SF_Bytes [n])"

definition started :: "(unit, nat, nat, unit) net_dispatcher" where
  "started = (with_config (network_config_new own_addr))\<lparr>ds_system_path := Some own_system,
     ds_net_bridge := Some \<lparr>br_queue = [], br_receiver = True, br_wakes = [], br_bound = Some own_addr\<rparr>\<rparr>"

lemmas sample_defs = own_addr_def peer_addr_def own_system_def peer_actor_def sample_env_def sample_data_def started_def
  with_config_def network_config_new_def system_path_with_socket_def socket_address_def into_unique_def unique_with_system_def

lemma peer_destination [simp]: "tcp_destination own_system peer_actor = Some peer_addr"
  by (simp add: tcp_destination_def sample_defs)

lemma started_facts [simp]:
  "online started" "ds_system_path started = Some own_system" "ds_retry_map started = []" "ds_status started = []"
  "connection_of started a = CS_New" "stream started a = []" "ds_connections started = []" "ds_cfg started = network_config_new own_addr"
  by (simp_all add: online_def healthy_def sample_defs connection_of_def stream_def pending_def queued_def queue_manager_new_def)

subsection \<open>Waiting messages have a retry scheduled\<close>

definition awaits :: "connection_state \<Rightarrow> bool" where
  "awaits st = (case st of CS_Initializing \<Rightarrow> True | CS_Lost _ \<Rightarrow> True | _ \<Rightarrow> False)"

definition covered :: "('v, 'r, 't, 'n) net_dispatcher \<Rightarrow> bool" where
  "covered ds \<longleftrightarrow>
     distinct (map fst (ds_connections ds)) \<and> distinct (map fst (ds_retry_map ds)) \<and>
     (\<forall>a. pending (ds_queues ds) a \<noteq> [] \<or> awaits (connection_of ds a) \<longrightarrow> map_of (ds_retry_map ds) a \<noteq> None) \<and>
     (\<forall>a r. map_of (ds_retry_map ds) a = Some r \<longrightarrow> r \<le> nc_max_connection_retry_attempts (ds_cfg ds))"

lemma covered_change:
  assumes "net_change es q c r sts ds ds'" and "covered ds" and "distinct (map fst r)"
    and "\<And>a. q a \<noteq> [] \<or> awaits (c a) \<Longrightarrow> map_of r a \<noteq> None"
    and "\<And>a n. map_of r a = Some n \<Longrightarrow> n \<le> nc_max_connection_retry_attempts (ds_cfg ds)"
  shows "covered ds'"
  using assms by (auto simp: net_change_def covered_def)

lemma covered_no_change:
  assumes "no_change ds ds'" and "covered ds"
  shows "covered ds'"
proof -
  obtain es q where c: "net_change es q (connection_of ds) (ds_retry_map ds) [] ds ds'"
    and q: "tcp_data a es @ q a = pending (ds_queues ds) a" for a
    using assms(1) by (auto simp: no_change_def)
  have "q a \<noteq> [] \<Longrightarrow> pending (ds_queues ds) a \<noteq> []" for a using q [of a] by auto
  with assms(2) show ?thesis by (intro covered_change [OF c]) (auto simp: covered_def)
qed

lemma covered_routed:
  assumes "routed_tcp a d ds ds'" and "covered ds"
  shows "covered ds'"
proof -
  have zero: "0 \<le> nc_max_connection_retry_attempts (ds_cfg ds)" by simp
  show ?thesis
    using assms zero
    by (cases "connection_of ds a")
      (auto simp: routed_tcp_def covered_def awaits_def Let_def update_conv' distinct_update split: option.splits if_splits)
qed

lemma covered_established: "online ds \<Longrightarrow> covered ds \<Longrightarrow> covered (connection_established sp i ds)"
  by (rule covered_change [OF connection_established_spec [OF _ refl]])
    (auto simp: covered_def awaits_def delete_conv' distinct_delete split: if_splits)

lemma covered_closed: "online ds \<Longrightarrow> covered ds \<Longrightarrow> covered (connection_closed sp i ds)"
  by (rule covered_change [OF connection_closed_spec [OF _ refl]])
    (auto simp: covered_def awaits_def update_conv' distinct_update split: if_splits)

lemma covered_lost: "online ds \<Longrightarrow> covered ds \<Longrightarrow> covered (connection_lost sp i ds)"
  by (rule covered_change [OF connection_lost_spec [OF _ refl]])
    (auto simp: covered_def awaits_def update_conv' distinct_update split: if_splits)

lemma covered_retries:
  assumes "covered ds" and "online ds" and "schedule_retries ds = (r, ds')"
  shows "r = Ok () \<and> covered ds' \<and> online ds'"
proof -
  have d: "distinct (map fst (ds_retry_map ds))" using assms(1) by (simp add: covered_def)
  let ?m = "nc_max_connection_retry_attempts (ds_cfg ds)"
  obtain ds1 where s: "schedule_retries ds = (Ok (), ds1)"
    "retried ?m (ds_retry_map ds) (ds\<lparr>ds_retry_map := []\<rparr>) ds1"
    using schedule_retries_spec [OF d assms(2)] .
  have eq: "pending (ds_queues ds1) = (\<lambda>a. if gives_up ?m (ds_retry_map ds) a then [] else pending (ds_queues ds) a)"
    "map_of (ds_connections ds1) = (\<lambda>a. if gives_up ?m (ds_retry_map ds) a then None else map_of (ds_connections ds) a)"
    "map_of (ds_retry_map ds1) = next_attempt ?m (ds_retry_map ds)" "ds_cfg ds1 = ds_cfg ds"
    "distinct (map fst (ds_retry_map ds1))" "distinct (map fst (ds_connections ds)) \<longrightarrow> distinct (map fst (ds_connections ds1))"
    "online ds1"
    using s(2) emits_online by (auto simp: retried_def cong: if_cong)
  have "next_attempt ?m (ds_retry_map ds) a \<noteq> None"
    if "map_of (ds_retry_map ds) a \<noteq> None" "\<not> gives_up ?m (ds_retry_map ds) a" for a
    using that by (auto simp: next_attempt_def gives_up_def)
  moreover have "n \<le> ?m" if "next_attempt ?m (ds_retry_map ds) a = Some n" for a n
    using that by (auto simp: next_attempt_def inc_le split: option.splits if_splits)
  moreover have "connection_of ds1 a = (if gives_up ?m (ds_retry_map ds) a then CS_New else connection_of ds a)" for a
    by (simp add: connection_of_def eq)
  ultimately have "covered ds1"
    using assms(1) eq by (auto simp: covered_def awaits_def split: if_splits)
  with s(1) assms(3) eq show ?thesis by simp
qed

text \<open>After a failure of the network thread every connection is lost or in the state it had.\<close>

lemma connection_lost_offline:
  assumes "ds_net_bridge ds = None"
  shows "ds_net_bridge (connection_lost sp i ds) = None" "ds_queues (connection_lost sp i ds) = ds_queues ds"
    "ds_cfg (connection_lost sp i ds) = ds_cfg ds"
    "ds_connections (connection_lost sp i ds) = AList.update (socket_address sp) (CS_Lost i) (ds_connections ds)"
    "ds_retry_map (connection_lost sp i ds) =
       (if map_of (ds_retry_map ds) (socket_address sp) = None then AList.update (socket_address sp) 0 (ds_retry_map ds)
        else ds_retry_map ds)"
  using assms by (simp_all add: connection_lost_def Let_def logged_def via_bridge_def trigger_def)

lemma socket_address_with_socket [simp]: "socket_address (system_path_with_socket t a) = a"
  by (simp add: socket_address_def system_path_with_socket_def)

lemma fail_connections_covered:
  assumes "ds_net_bridge ds = None" and "covered ds" and "\<forall>(a, st) \<in> set cs. awaits st \<longrightarrow> map_of (ds_retry_map ds) a \<noteq> None"
  shows "covered (fail_connections cs ds)"
  using assms
proof (induction cs ds rule: fail_connections.induct)
  case (2 addr st cs ds)
  define ds1 where "ds1 = (case st of CS_Connected sid \<Rightarrow> connection_lost (system_path_with_socket Tcp addr) sid ds
    | _ \<Rightarrow> ds\<lparr>ds_connections := AList.update addr st (ds_connections ds)\<rparr>)"
  have c: "ds_net_bridge ds1 = None \<and> covered ds1 \<and> (\<forall>a. map_of (ds_retry_map ds) a \<noteq> None \<longrightarrow> map_of (ds_retry_map ds1) a \<noteq> None)"
  proof (cases "\<exists>i. st = CS_Connected i")
    case True
    then obtain i where "ds1 = connection_lost (system_path_with_socket Tcp addr) i ds" by (auto simp: ds1_def)
    then show ?thesis using 2(2,3)
      by (auto simp: covered_def connection_lost_offline connection_of_def awaits_def update_conv' distinct_update
          split: option.splits if_splits)
  next
    case False
    then have "ds1 = ds\<lparr>ds_connections := AList.update addr st (ds_connections ds)\<rparr>"
      by (cases st) (auto simp: ds1_def)
    then show ?thesis using 2(2-4)
      by (auto simp: covered_def connection_of_def update_conv' distinct_update split: if_splits)
  qed
  then have "\<forall>(a, st) \<in> set cs. awaits st \<longrightarrow> map_of (ds_retry_map ds1) a \<noteq> None" using 2(4) by fastforce
  with c have "covered (fail_connections cs ds1)" using 2(1) by (simp add: ds1_def)
  then show ?case by (simp add: ds1_def)
qed simp

lemma and_go_Ok: "and_go p f = (Ok b, s) \<longleftrightarrow> (\<exists>a s1. p = (Ok a, s1) \<and> f a s1 = (Ok b, s))"
  by (cases p) (auto simp: and_go_def split: rresult.splits)

lemma start_bridge_online:
  assumes "start_bridge env addr ds = (Ok (), ds')"
  shows "online ds' \<and> (\<exists>b. ds' = ds\<lparr>ds_net_bridge := Some b\<rparr>)"
  using assms
  by (auto simp: start_bridge_def bridge_new_def or_panic_def online_def healthy_def split: rresult.splits option.splits)

lemma covered_bridge [simp]: "covered (ds\<lparr>ds_net_bridge := b\<rparr>) = covered ds"
  by (simp add: covered_def)

lemma covered_failure:
  assumes "covered ds" and "handle_network_failure env ds = (Ok (), ds')"
  shows "covered ds' \<and> online ds'"
proof -
  define ds1 where "ds1 = (trigger CriticalNetworkFailure ds)\<lparr>ds_net_bridge := None, ds_past_bridges :=
     ds_past_bridges ds @ (case ds_net_bridge ds of Some b \<Rightarrow> [b] | None \<Rightarrow> []), ds_connections := []\<rparr>"
  have "\<forall>(a, st) \<in> set (ds_connections ds). awaits st \<longrightarrow> map_of (ds_retry_map ds) a \<noteq> None"
    using assms(1) by (auto simp: covered_def connection_of_def)
  moreover have "covered ds1" "ds_net_bridge ds1 = None" "ds_retry_map ds1 = ds_retry_map ds"
    using assms(1) by (auto simp: covered_def ds1_def awaits_def connection_of_def)
  ultimately have "covered (fail_connections (ds_connections ds) ds1)"
    by (intro fail_connections_covered) simp_all
  moreover have "\<exists>a. start_bridge env a (fail_connections (ds_connections ds) ds1) = (Ok (), ds')"
    using assms(2) by (auto simp: handle_network_failure_def Let_def ds1_def trigger_def)
  ultimately show ?thesis using start_bridge_online by (metis covered_bridge)
qed

lemma covered_start:
  assumes "covered ds" and "on_start env ds = (Ok (), ds')"
  shows "covered ds' \<and> online ds'"
proof -
  obtain ds1 table ds2 r a where s: "start_bridge env a (ds\<lparr>ds_reaper := r\<rparr>) = (Ok (), ds1)"
    "schedule_retries (ds1\<lparr>ds_lookup := table\<rparr>) = (Ok (), ds2)" "ds' = ds2\<lparr>ds_notify_ready := False\<rparr>"
    using assms(2) by (auto simp: on_start_def dispatcher_start_def and_go_Ok split: rresult.splits prod.splits)
  have "covered (ds\<lparr>ds_reaper := r\<rparr>)" using assms(1) by (simp add: covered_def connection_of_def)
  then have "covered (ds1\<lparr>ds_lookup := table\<rparr>)" "online (ds1\<lparr>ds_lookup := table\<rparr>)"
    using start_bridge_online [OF s(1)] by (auto simp: covered_def connection_of_def online_def)
  from covered_retries [OF this s(2)] show ?thesis by (simp add: s(3) covered_def connection_of_def online_def)
qed

text \<open>Inputs other than the end of the component and a report of the network thread that a connection is dropped.\<close>

fun steady :: "('v, 'r, 't, 'n) dispatcher_input \<Rightarrow> bool" where
  "steady (Envelope (EventEnv (NetworkEvent (ConnectionDropped _)))) = False"
| "steady OnStop = False"
| "steady OnKill = False"
| "steady _ = True"

lemma trigger_covered [simp]: "covered (trigger st ds) = covered ds" "online (trigger st ds) = online ds"
  by (simp_all add: covered_def online_def)

lemma covered_connections:
  assumes "covered ds" and "\<not> awaits st"
  shows "covered (ds\<lparr>ds_connections := AList.update a st (ds_connections ds)\<rparr>)"
    "covered (ds\<lparr>ds_connections := AList.delete a (ds_connections ds)\<rparr>)"
  using assms by (auto simp: covered_def distinct_update distinct_delete awaits_def split: if_splits)

lemma covered_status:
  assumes "covered ds" and "online ds" and "on_network_status env st ds = (Ok (), ds')" and "\<nexists>sp. st = ConnectionDropped sp"
  shows "covered ds' \<and> online ds'"
proof (cases st)
  case (ConnectionEstablished sp i)
  with assms show ?thesis
    using covered_established connection_established_spec [OF assms(2) refl, of sp i] by (auto simp: net_change_def dest: emits_online)
next
  case (ConnectionLost sp i)
  with assms show ?thesis
    using covered_lost connection_lost_spec [OF assms(2) refl, of sp i] by (auto simp: net_change_def dest: emits_online)
next
  case (ConnectionClosed sp i)
  with assms show ?thesis
    using covered_closed connection_closed_spec [OF assms(2) refl, of sp i] by (auto simp: net_change_def dest: emits_online)
next
  case CriticalNetworkFailure
  with assms show ?thesis using covered_failure by simp
next
  case (BlockedSystem sp)
  then show ?thesis using assms covered_connections(1) [of ds CS_Blocked] by (auto simp: online_def awaits_def)
next
  case (AllowedSystem sp)
  then show ?thesis using assms covered_connections(2) [of ds CS_Blocked] by (auto simp: online_def awaits_def)
qed (use assms in auto)

lemma no_change_online: "no_change ds ds' \<Longrightarrow> online ds'"
  by (auto simp: no_change_def net_change_def dest: emits_online)

lemma routed_online: "routed_tcp a d ds ds' \<Longrightarrow> online ds'"
  by (auto simp: routed_tcp_def Let_def dest: emits_online split: connection_state.splits)

lemma covered_disp_route:
  assumes "covered ds" and "online ds" and "log_failure (disp_route env dst msg ds) = (Ok (), ds')"
  shows "covered ds' \<and> online ds'"
proof -
  obtain r where r: "disp_route env dst msg ds = (r, ds')" "r \<noteq> Panic"
    using assms(3) by (cases "disp_route env dst msg ds") (auto simp: log_failure_def split: rresult.splits)
  from disp_route_spec [OF assms(2) r] show ?thesis
    using assms(1,2) covered_no_change covered_routed no_change_online routed_online
    by (auto split: option.splits)
qed

lemma covered_step:
  assumes "covered ds" and "online ds \<or> i = OnStart" and "steady i" and "dispatcher_step env i ds = (Ok (), ds')"
  shows "covered ds' \<and> online ds'"
proof (cases i)
  case OnStart
  then show ?thesis using covered_start assms by simp
next
  case (Envelope e)
  then have on: "online ds" using assms(2) by simp
  have inert: "covered ds' \<and> online ds'" if "inert ds ds'"
    using that on assms(1) inert_no_change covered_no_change no_change_online by blast
  show ?thesis
  proof (cases e)
    case (Registration ev update promise)
    then show ?thesis
      using assms(4) Envelope inert_register(1) [of ds env _ update promise] inert_register(2) [of ds env _ update promise]
      by (intro inert) (cases ev, simp_all, (metis snd_conv)+)
  next
    case (EventEnv ev)
    show ?thesis
    proof (cases ev)
      case (NetworkEvent st)
      then show ?thesis using covered_status [OF assms(1) on, of env st ds'] assms(3,4) Envelope EventEnv
        by (cases st) (auto simp: on_event_def)
    next
      case (RejectedData a d)
      have "pending (enqueue_priority_data d a (ds_queues ds)) b = [] \<longleftrightarrow> b \<noteq> a \<and> pending (ds_queues ds) b = []" for b
        by (auto simp: pending_def enqueue_priority_data_def)
      then show ?thesis using RejectedData assms(1,4) on Envelope EventEnv
        by (auto simp: on_event_def covered_def online_def update_conv' distinct_update split: option.splits if_splits)
    next
      case UnexpectedEvent
      then show ?thesis using assms(1,4) on Envelope EventEnv by (simp add: on_event_def)
    qed
  next
    case (LockedChunk c)
    then show ?thesis using assms(4) Envelope by (intro inert) (auto simp: inert_def)
  qed (use Envelope assms(4) covered_disp_route [OF assms(1) on, of env] in simp_all)
next
  case (StatusRequest r)
  then have "no_change ds ds'" using request_spec [of ds r ds'] assms by (auto simp: no_change_def)
  then show ?thesis using covered_no_change no_change_online assms(1) by blast
next
  case (Timeout t)
  show ?thesis
  proof (cases t)
    case RunReaper
    then have "inert ds ds'" using Timeout assms(4) inert_reaper [of ds env] by simp
    then show ?thesis using Timeout assms inert_no_change covered_no_change no_change_online by blast
  next
    case RunRetries
    then show ?thesis using covered_retries Timeout assms by auto
  qed
qed (use assms in simp_all)

lemma covered_run:
  "covered ds \<Longrightarrow> online ds \<Longrightarrow> \<forall>(env, i) \<in> set ins. steady i \<Longrightarrow> dispatcher_run ins ds = (Ok (), ds') \<Longrightarrow>
   covered ds' \<and> online ds'"
proof (induction ins ds rule: dispatcher_run.induct)
  case (2 env i ins ds)
  obtain ds1 where ds1: "dispatcher_step env i ds = (Ok (), ds1)" "dispatcher_run ins ds1 = (Ok (), ds')"
    using 2(5) by (auto simp: and_go_Ok)
  have "covered ds1 \<and> online ds1" using covered_step [OF 2(2) _ _ ds1(1)] 2(3,4) by simp
  moreover have "\<forall>(env, i) \<in> set ins. steady i" using 2(4) by simp
  ultimately show ?case using 2(1) ds1(2) by blast
qed simp


text \<open>
  C18: As long as the network thread does not report dropped connections, every destination for which a message
  waits, or to which a connection is being set up or was lost, has a connection attempt
  scheduled, with at most the configured number of attempts behind it: no waiting message is forgotten. This holds
  after any sequence of messages, registrations, network events, requests and timeouts since the start,
  a crash and restart of the network thread included.
\<close>

theorem waiting_messages_are_retried:
  fixes c :: network_config and ds :: "('v, 'r, 't, 'n) net_dispatcher"
  assumes "dispatcher_run ((env, OnStart) # ins) (with_config c) = (Ok (), ds)"
    and "\<forall>(env, i) \<in> set ins. steady i"
    and "pending (ds_queues ds) a \<noteq> [] \<or> connection_of ds a = CS_Initializing \<or> connection_of ds a = CS_Lost sid"
  shows "\<exists>r. map_of (ds_retry_map ds) a = Some r \<and> r \<le> nc_max_connection_retry_attempts (ds_cfg ds)"
proof -
  have "covered (with_config c :: ('v, 'r, 't, 'n) net_dispatcher)"
    by (simp add: covered_def with_config_def connection_of_def awaits_def queue_manager_new_def pending_def queued_def)
  moreover obtain ds1 where "on_start env (with_config c) = (Ok (), ds1)" "dispatcher_run ins ds1 = (Ok (), ds)"
    using assms(1) by (auto simp: and_go_Ok)
  ultimately have "covered ds" using covered_start covered_run [OF _ _ assms(2)] by blast
  moreover have "pending (ds_queues ds) a \<noteq> [] \<or> awaits (connection_of ds a)" using assms(3) by (auto simp: awaits_def)
  ultimately show ?thesis by (auto simp: covered_def)
qed

subsection \<open>Order of messages\<close>

text \<open>Statuses on the port that mean that messages for a destination, or all messages, may have been dropped.\<close>

definition reports_trouble :: "socket_addr \<Rightarrow> 'n network_status \<Rightarrow> bool" where
  "reports_trouble a st =
     (case st of
        ConnectionDropped sp \<Rightarrow> socket_address sp = a
      | BlockedSystem sp \<Rightarrow> socket_address sp = a
      | CriticalNetworkFailure \<Rightarrow> True
      | _ \<Rightarrow> False)"

definition untroubled :: "socket_addr \<Rightarrow> ('v, 'r, 't, 'n) net_dispatcher \<Rightarrow> bool" where
  "untroubled a ds \<longleftrightarrow> (\<forall>st \<in> set (ds_status ds). \<not> reports_trouble a st)"

text \<open>The messages among the inputs that are routed to a destination over TCP.\<close>

fun offered :: "system_path \<Rightarrow> socket_addr \<Rightarrow> ('v, 'r, 't, 'n) dispatcher_input \<Rightarrow> 'v dispatch_data list" where
  "offered own a (Envelope (MsgEnv dst msg)) = (if tcp_destination own dst = Some a then [msg] else [])"
| "offered own a (Envelope (ForwardedMsg m)) =
     (if tcp_destination own (nm_receiver m) = Some a then [DD_NetMessage m] else [])"
| "offered own a _ = []"

fun all_offered :: "system_path \<Rightarrow> socket_addr \<Rightarrow> ('e \<times> ('v, 'r, 't, 'n) dispatcher_input) list \<Rightarrow> 'v dispatch_data list" where
  "all_offered own a [] = []"
| "all_offered own a ((env, i) # ins) = offered own a i @ all_offered own a ins"

text \<open>Inputs that do not end or restart the component and do not give back messages for the destination.\<close>

fun regular :: "socket_addr \<Rightarrow> ('v, 'r, 't, 'n) dispatcher_input \<Rightarrow> bool" where
  "regular a (Envelope (EventEnv (RejectedData b d))) = (b \<noteq> a)"
| "regular a OnStart = False"
| "regular a OnStop = False"
| "regular a OnKill = False"
| "regular a _ = True"

text \<open>A step appends the new messages for a destination to its stream and keeps the conditions for the next step.\<close>

definition advances ::
    "socket_addr \<Rightarrow> 'v dispatch_data list \<Rightarrow> ('v, 'r, 't, 'n) net_dispatcher \<Rightarrow> ('v, 'r, 't, 'n) net_dispatcher \<Rightarrow> bool" where
  "advances a new ds ds' \<longleftrightarrow>
     online ds' \<and> (ds_system_path ds \<noteq> None \<longrightarrow> ds_system_path ds' = ds_system_path ds) \<and>
     (\<exists>sts. ds_status ds' = ds_status ds @ sts) \<and>
     (distinct (map fst (ds_retry_map ds)) \<longrightarrow> distinct (map fst (ds_retry_map ds'))) \<and>
     (untroubled a ds' \<longrightarrow> connection_of ds a \<noteq> CS_Blocked \<longrightarrow>
        connection_of ds' a \<noteq> CS_Blocked \<and> stream ds' a = stream ds a @ new)"

lemma advances_change:
  assumes "net_change es q c r sts ds ds'" and "distinct (map fst (ds_retry_map ds)) \<longrightarrow> distinct (map fst r)"
    and "tcp_data a es @ q a = pending (ds_queues ds) a"
    and "c a = CS_Blocked \<longrightarrow> connection_of ds a = CS_Blocked \<or> (\<exists>st \<in> set sts. reports_trouble a st)"
  shows "advances a [] ds ds'"
  using assms stream_step [of es ds ds' a "[]"] emits_online
  by (auto simp: advances_def net_change_def untroubled_def)

lemma advances_no_change: "no_change ds ds' \<Longrightarrow> advances a [] ds ds'"
  by (auto simp: no_change_def intro: advances_change)

lemma advances_inert: "inert ds ds' \<Longrightarrow> online ds \<Longrightarrow> advances a [] ds ds'"
  by (intro advances_no_change inert_no_change)

lemma advances_routed:
  assumes "routed_tcp b d ds ds'"
  shows "advances a (if a = b then [d] else []) ds ds'"
proof -
  have on: "online ds'" using assms by (rule routed_online)
  obtain es where es: "emits es ds ds'" "connection_of ds b \<noteq> CS_Blocked \<or> a \<noteq> b \<longrightarrow>
      tcp_data a es @ pending (ds_queues ds') a = pending (ds_queues ds) a @ (if a = b then [d] else [])"
    using assms that by (cases "connection_of ds b") (fastforce simp: routed_tcp_def Let_def)+
  have "connection_of ds' a = CS_Blocked \<longrightarrow> connection_of ds a = CS_Blocked"
    using assms by (cases "connection_of ds b") (auto simp: routed_tcp_def Let_def)
  moreover have "distinct (map fst (ds_retry_map ds)) \<longrightarrow> distinct (map fst (ds_retry_map ds'))"
    using assms by (cases "connection_of ds b") (auto simp: routed_tcp_def Let_def distinct_update split: option.splits)
  moreover have "ds_status ds' = ds_status ds @ []" "ds_system_path ds \<noteq> None \<longrightarrow> ds_system_path ds' = ds_system_path ds"
    using assms by (auto simp: routed_tcp_def)
  moreover have "stream ds' a = stream ds a @ (if a = b then [d] else [])" if "connection_of ds a \<noteq> CS_Blocked"
    using es(2) that by (intro stream_step [OF es(1)]) blast
  ultimately show ?thesis unfolding advances_def using on by blast
qed

lemma advances_disp_route:
  assumes "online ds" and "ds_system_path ds = Some own" and "log_failure (disp_route env dst msg ds) = (Ok (), ds')"
  shows "advances a (if tcp_destination own dst = Some a then [msg] else []) ds ds'"
proof -
  obtain r where r: "disp_route env dst msg ds = (r, ds')" "r \<noteq> Panic"
    using assms(3) by (cases "disp_route env dst msg ds") (auto simp: log_failure_def split: rresult.splits)
  have "case tcp_destination own dst of Some b \<Rightarrow> routed_tcp b msg ds ds' | None \<Rightarrow> no_change ds ds'"
    using disp_route_spec [OF assms(1) r] assms(2) by (auto split: option.splits)
  then show ?thesis
    using advances_no_change [of ds ds' a] advances_routed [of "the (tcp_destination own dst)" msg ds ds' a]
    by (cases "tcp_destination own dst") (auto split: if_splits)
qed

lemma advances_trouble:
  assumes "online ds'" and "ds_system_path ds' = ds_system_path ds" and "ds_status ds' = ds_status ds @ sts"
    and "distinct (map fst (ds_retry_map ds)) \<longrightarrow> distinct (map fst (ds_retry_map ds'))"
    and "\<exists>st \<in> set sts. reports_trouble a st"
  shows "advances a new ds ds'"
  using assms by (auto simp: advances_def untroubled_def)

lemma fail_connections_fields:
  assumes "ds_net_bridge ds = None"
  shows "ds_system_path (fail_connections cs ds) = ds_system_path ds \<and>
    (\<exists>sts. ds_status (fail_connections cs ds) = ds_status ds @ sts) \<and>
    (distinct (map fst (ds_retry_map ds)) \<longrightarrow> distinct (map fst (ds_retry_map (fail_connections cs ds))))"
  using assms
proof (induction cs ds rule: fail_connections.induct)
  case (2 addr st cs ds)
  have "ds_system_path (connection_lost sp i ds) = ds_system_path ds" "ds_net_bridge (connection_lost sp i ds) = None"
    "ds_status (connection_lost sp i ds) = ds_status ds @ [ConnectionLost sp i]"
    "distinct (map fst (ds_retry_map ds)) \<longrightarrow> distinct (map fst (ds_retry_map (connection_lost sp i ds)))" for sp i
    using 2(2) by (simp_all add: connection_lost_def Let_def logged_def via_bridge_def trigger_def distinct_update)
  then show ?case using 2 by (cases st) auto
qed simp

lemma advances_failure:
  assumes "handle_network_failure env ds = (Ok (), ds')"
  shows "advances a new ds ds'"
proof -
  define ds1 where "ds1 = (trigger CriticalNetworkFailure ds)\<lparr>ds_net_bridge := None, ds_past_bridges :=
     ds_past_bridges ds @ (case ds_net_bridge ds of Some b \<Rightarrow> [b] | None \<Rightarrow> []), ds_connections := []\<rparr>"
  have "\<exists>x. start_bridge env x (fail_connections (ds_connections ds) ds1) = (Ok (), ds')"
    using assms by (auto simp: handle_network_failure_def Let_def ds1_def trigger_def)
  then have o: "online ds'" "\<exists>b. ds' = (fail_connections (ds_connections ds) ds1)\<lparr>ds_net_bridge := Some b\<rparr>"
    using start_bridge_online by blast+
  have "ds_net_bridge ds1 = None" "ds_status ds1 = ds_status ds @ [CriticalNetworkFailure]"
    "ds_system_path ds1 = ds_system_path ds" "ds_retry_map ds1 = ds_retry_map ds"
    by (simp_all add: ds1_def)
  with fail_connections_fields [of ds1 "ds_connections ds"] obtain sts where
    f: "ds_system_path (fail_connections (ds_connections ds) ds1) = ds_system_path ds"
    "ds_status (fail_connections (ds_connections ds) ds1) = ds_status ds @ CriticalNetworkFailure # sts"
    "distinct (map fst (ds_retry_map ds)) \<longrightarrow> distinct (map fst (ds_retry_map (fail_connections (ds_connections ds) ds1)))"
    by auto
  show ?thesis
    using o(2) f by (intro advances_trouble [OF o(1)]) (auto simp: reports_trouble_def)
qed

lemma advances_retries:
  assumes "online ds" and "distinct (map fst (ds_retry_map ds))" and "schedule_retries ds = (Ok (), ds')"
  shows "advances a [] ds ds'"
proof -
  let ?m = "nc_max_connection_retry_attempts (ds_cfg ds)" and ?rs = "ds_retry_map ds"
  have r: "retried ?m ?rs (ds\<lparr>ds_retry_map := []\<rparr>) ds'"
    using schedule_retries_spec [OF assms(2,1)] assms(3) by (metis prod.inject)
  then have e: "emits (map (Connect \<circ> fst) (filter (\<lambda>(a, r). r < ?m) ?rs)) ds ds'" by (simp add: retried_def emits_def)
  show ?thesis
  proof (cases "gives_up ?m ?rs a")
    case True
    then obtain n where "(a, n) \<in> set ?rs" "\<not> n < ?m"
      by (auto simp: gives_up_def dest: map_of_SomeD split: option.splits)
    then have "\<exists>st \<in> set (map (\<lambda>(a, r). ConnectionDropped (system_path_with_socket Tcp a)) (filter (\<lambda>(a, r). \<not> r < ?m) ?rs)).
        reports_trouble a st"
      by (force simp: reports_trouble_def)
    moreover have "ds_status ds' = ds_status ds @
        map (\<lambda>(a, r). ConnectionDropped (system_path_with_socket Tcp a)) (filter (\<lambda>(a, r). \<not> r < ?m) ?rs)"
      "distinct (map fst (ds_retry_map ds'))" "ds_system_path ds \<noteq> None \<longrightarrow> ds_system_path ds' = ds_system_path ds"
      using r by (simp_all add: retried_def)
    ultimately show ?thesis using emits_online [OF e] by (auto simp: advances_def untroubled_def)
  next
    case False
    have "pending (ds_queues ds') a = pending (ds_queues ds) a" "connection_of ds' a = connection_of ds a"
      "distinct (map fst (ds_retry_map ds'))" "\<exists>sts. ds_status ds' = ds_status ds @ sts"
      "ds_system_path ds \<noteq> None \<longrightarrow> ds_system_path ds' = ds_system_path ds"
      using r False by (auto simp: retried_def connection_of_def)
    then show ?thesis using emits_online [OF e] stream_step [OF e, of a "[]"] by (simp add: advances_def)
  qed
qed

lemma advances_status:
  assumes "online ds" and "on_network_status env st ds = (Ok (), ds')"
  shows "advances a [] ds ds'"
proof (cases st)
  case (ConnectionEstablished sp i)
  have "advances a [] ds (connection_established sp i ds)"
    by (rule advances_change [OF connection_established_spec [OF assms(1) refl]]) (auto simp: distinct_delete)
  with ConnectionEstablished assms show ?thesis by simp
next
  case (ConnectionLost sp i)
  have "advances a [] ds (connection_lost sp i ds)"
    by (rule advances_change [OF connection_lost_spec [OF assms(1) refl]]) (auto simp: distinct_update)
  with ConnectionLost assms show ?thesis by simp
next
  case (ConnectionClosed sp i)
  have "advances a [] ds (connection_closed sp i ds)"
    by (rule advances_change [OF connection_closed_spec [OF assms(1) refl]]) (auto simp: distinct_update)
  with ConnectionClosed assms show ?thesis by simp
next
  case CriticalNetworkFailure
  with assms show ?thesis using advances_failure by simp
next
  case (BlockedSystem sp)
  with assms have "net_change [] (pending (ds_queues ds)) ((connection_of ds)(socket_address sp := CS_Blocked))
      (ds_retry_map ds) [BlockedSystem sp] ds ds'"
    by (auto simp: net_change_def emits_def online_def sends_def distinct_update)
  then show ?thesis by (rule advances_change) (auto simp: reports_trouble_def)
next
  case (AllowedSystem sp)
  with assms have "net_change [] (pending (ds_queues ds)) ((connection_of ds)(socket_address sp := CS_New))
      (ds_retry_map ds) [AllowedSystem sp] ds ds'"
    by (auto simp: net_change_def emits_def online_def sends_def distinct_delete)
  then show ?thesis by (rule advances_change) auto
next
  case (ConnectionDropped sp)
  with assms have "net_change [] (pending (ds_queues ds)) (connection_of ds)
      (AList.delete (socket_address sp) (ds_retry_map ds)) [ConnectionDropped sp] ds ds'"
    by (auto simp: net_change_def emits_def online_def sends_def)
  then show ?thesis by (rule advances_change) (auto simp: distinct_delete)
qed (use assms in \<open>auto simp: advances_def online_def stream_def\<close>)

lemma advances_step:
  assumes "online ds" and "ds_system_path ds = Some own" and "distinct (map fst (ds_retry_map ds))" and "regular a i"
    and "dispatcher_step env i ds = (Ok (), ds')"
  shows "advances a (offered own a i) ds ds'"
proof (cases i)
  case (Envelope e)
  show ?thesis
  proof (cases e)
    case (Registration ev update promise)
    then show ?thesis
      using assms(5) Envelope inert_register(1) [of ds env _ update promise] inert_register(2) [of ds env _ update promise]
      by (cases ev) (simp_all, (metis advances_inert assms(1) snd_conv)+)
  next
    case (EventEnv ev)
    show ?thesis
    proof (cases ev)
      case (NetworkEvent st)
      then show ?thesis using advances_status [OF assms(1), of env st ds' a] assms(5) Envelope EventEnv
        by (simp add: on_event_def)
    next
      case (RejectedData b d)
      then have "b \<noteq> a" using assms(4) Envelope EventEnv by simp
      then show ?thesis using RejectedData assms(1,5) Envelope EventEnv
        by (auto simp: on_event_def advances_def online_def stream_def pending_def enqueue_priority_data_def
            distinct_update split: option.splits)
    next
      case UnexpectedEvent
      then show ?thesis using assms(1,5) Envelope EventEnv by (simp add: on_event_def advances_inert)
    qed
  next
    case (LockedChunk c)
    then show ?thesis using assms(1,5) Envelope by (auto intro: advances_inert simp: inert_def)
  qed (use Envelope assms(5) advances_disp_route [OF assms(1,2), of env] in simp_all)
next
  case (StatusRequest r)
  then have "no_change ds ds'" using request_spec [of ds r ds'] assms by (auto simp: no_change_def)
  then show ?thesis using StatusRequest advances_no_change by simp
next
  case (Timeout t)
  show ?thesis
  proof (cases t)
    case RunReaper
    then have "inert ds ds'" using Timeout assms(5) inert_reaper [of ds env] by simp
    then show ?thesis using Timeout assms(1) by (simp add: advances_inert)
  next
    case RunRetries
    then show ?thesis using advances_retries Timeout assms by simp
  qed
qed (use assms(4) in simp_all)

lemma advances_run:
  assumes "online ds" and "ds_system_path ds = Some own" and "distinct (map fst (ds_retry_map ds))"
    and "\<forall>(env, i) \<in> set ins. regular a i" and "dispatcher_run ins ds = (Ok (), ds')"
  shows "advances a (all_offered own a ins) ds ds'"
  using assms
proof (induction ins ds rule: dispatcher_run.induct)
  case (1 ds)
  then show ?case by (simp add: advances_def)
next
  case (2 env i ins ds)
  obtain ds1 where ds1: "dispatcher_step env i ds = (Ok (), ds1)" "dispatcher_run ins ds1 = (Ok (), ds')"
    using 2(6) by (auto simp: and_go_Ok)
  have a1: "advances a (offered own a i) ds ds1" using advances_step [OF 2(2-4) _ ds1(1)] 2(5) by simp
  then have c: "online ds1" "ds_system_path ds1 = Some own" "distinct (map fst (ds_retry_map ds1))"
    using 2(3,4) by (simp_all add: advances_def)
  have "\<forall>(env, i) \<in> set ins. regular a i" using 2(5) by simp
  then have a2: "advances a (all_offered own a ins) ds1 ds'" by (rule 2(1) [OF c _ ds1(2)])
  then have "untroubled a ds' \<Longrightarrow> untroubled a ds1" by (auto simp: advances_def untroubled_def)
  with a1 a2 show ?case by (auto simp: advances_def)
qed

text \<open>
  C4: However messages, connection events, retries, requests and registrations interleave, the
  messages routed to a destination reach the input queue of the network thread, or wait in the dispatcher's
  queue, in the order in which they were routed, none lost, repeated or overtaken, unless
  the dispatcher reports on its status port that it dropped or blocked the connection or that the network
  thread crashed, or the network thread gives messages back.
\<close>

theorem messages_stay_in_order:
  assumes "dispatcher_run ins ds = (Ok (), ds')" and "online ds" and "ds_system_path ds = Some own"
    and "distinct (map fst (ds_retry_map ds))" and "\<forall>(env, i) \<in> set ins. regular a i"
    and "connection_of ds a \<noteq> CS_Blocked" and "untroubled a ds'"
  shows "stream ds' a = stream ds a @ all_offered own a ins"
  using advances_run [OF assms(2-5,1)] assms(6,7) by (simp add: advances_def)

subsection \<open>Retries end\<close>

definition connects :: "socket_addr \<Rightarrow> ('v, 'r, 't, 'n) net_dispatcher \<Rightarrow> nat" where
  "connects a ds = (case ds_net_bridge ds of Some b \<Rightarrow> count_list (br_queue b) (Connect a) | None \<Rightarrow> 0)"

lemma count_connects:
  assumes "distinct (map fst rs)"
  shows "count_list (map (Connect \<circ> fst) (filter (\<lambda>(a, r). r < m) rs)) (Connect a) =
    (case map_of rs a of Some r \<Rightarrow> if r < m then 1 else 0 | None \<Rightarrow> 0)"
  using assms
proof (induction rs)
  case (Cons p rs)
  obtain b r where p: "p = (b, r)" by force
  then have "map_of rs b = None" using Cons.prems by (simp add: map_of_eq_None_iff)
  with Cons p show ?case by auto
qed simp

lemma retry_round:
  assumes "online ds" and "distinct (map fst (ds_retry_map ds))" and "map_of (ds_retry_map ds) a = Some r"
    and "m = nc_max_connection_retry_attempts (ds_cfg ds)"
  shows "\<exists>ds'. schedule_retries ds = (Ok (), ds') \<and> online ds' \<and> distinct (map fst (ds_retry_map ds')) \<and>
    ds_cfg ds' = ds_cfg ds \<and> connects a ds' = connects a ds + (if r < m then 1 else 0) \<and>
    map_of (ds_retry_map ds') a = (if r < m then Some (r + 1) else None) \<and>
    pending (ds_queues ds') a = (if r < m then pending (ds_queues ds) a else []) \<and>
    (\<not> r < m \<longrightarrow>
      map_of (ds_connections ds') a = None \<and> ConnectionDropped (system_path_with_socket Tcp a) \<in> set (ds_status ds'))"
proof -
  obtain ds' where s: "schedule_retries ds = (Ok (), ds')" "retried m (ds_retry_map ds) (ds\<lparr>ds_retry_map := []\<rparr>) ds'"
    using schedule_retries_spec [OF assms(2,1)] assms(4) by blast
  have e: "emits (map (Connect \<circ> fst) (filter (\<lambda>(a, r). r < m) (ds_retry_map ds))) ds ds'"
    using s(2) by (simp add: retried_def emits_def)
  have g: "gives_up m (ds_retry_map ds) a \<longleftrightarrow> \<not> r < m" "next_attempt m (ds_retry_map ds) a = (if r < m then Some (r + 1) else None)"
    using assms(3) by (simp_all add: gives_up_def next_attempt_def)
  have "(a, r) \<in> set (ds_retry_map ds)" using assms(3) by (rule map_of_SomeD)
  then have "ConnectionDropped (system_path_with_socket Tcp a) \<in> set (ds_status ds')" if "\<not> r < m"
    using s(2) that by (force simp: retried_def)
  moreover have "connects a ds' = connects a ds + (if r < m then 1 else 0)"
    using e count_connects [OF assms(2), of m a] assms(3) by (auto simp: emits_def sends_def connects_def)
  ultimately show ?thesis
    using s g emits_online [OF e] by (intro exI [of _ ds']) (simp add: retried_def)
qed

lemma retries_run_out:
  assumes "online ds" and "distinct (map fst (ds_retry_map ds))" and "map_of (ds_retry_map ds) a = Some r"
    and "r \<le> nc_max_connection_retry_attempts (ds_cfg ds)"
    and "n = unat (nc_max_connection_retry_attempts (ds_cfg ds)) - unat r"
  shows "\<exists>ds'. dispatcher_run (replicate (Suc n) (env, Timeout RunRetries)) ds = (Ok (), ds') \<and>
    connects a ds' = connects a ds + n \<and> pending (ds_queues ds') a = [] \<and> map_of (ds_retry_map ds') a = None \<and>
    map_of (ds_connections ds') a = None \<and> ConnectionDropped (system_path_with_socket Tcp a) \<in> set (ds_status ds')"
  using assms
proof (induction n arbitrary: ds r)
  case 0
  then have "\<not> r < nc_max_connection_retry_attempts (ds_cfg ds)" by (simp add: word_less_nat_alt)
  with retry_round [OF 0(1-3) refl] show ?case by (auto simp: and_go_def)
next
  case (Suc n)
  let ?m = "nc_max_connection_retry_attempts (ds_cfg ds)"
  have lt: "r < ?m" using Suc.prems(5) by (simp add: word_less_nat_alt)
  obtain ds1 where d: "schedule_retries ds = (Ok (), ds1)" "online ds1" "distinct (map fst (ds_retry_map ds1))"
    "ds_cfg ds1 = ds_cfg ds" "connects a ds1 = connects a ds + 1" "map_of (ds_retry_map ds1) a = Some (r + 1)"
    using retry_round [OF Suc.prems(1-3) refl] lt by auto
  have "unat ?m < 2 ^ LENGTH(8)" by (rule unsigned_less)
  then have "unat (r + 1) = Suc (unat r)" using lt by (simp add: unat_word_ariths word_less_nat_alt)
  then have n: "n = unat (nc_max_connection_retry_attempts (ds_cfg ds1)) - unat (r + 1)" using Suc.prems(5) d(4) by simp
  have "r + 1 \<le> nc_max_connection_retry_attempts (ds_cfg ds1)" using lt d(4) by (simp add: inc_le)
  from Suc.IH [OF d(2,3,6) this n] obtain ds' where "dispatcher_run (replicate (Suc n) (env, Timeout RunRetries)) ds1 = (Ok (), ds')"
      "connects a ds' = connects a ds1 + n" "pending (ds_queues ds') a = []" "map_of (ds_retry_map ds') a = None"
      "map_of (ds_connections ds') a = None" "ConnectionDropped (system_path_with_socket Tcp a) \<in> set (ds_status ds')"
    by blast
  with d show ?case by (auto simp: and_go_def)
qed

text \<open>
  C33: Connection attempts to a destination that never answers end: after as many further rounds of retries
  as the configuration allows, with exactly one connection request each, one more round drops the waiting messages and
  the connection state and reports the connection as dropped.
\<close>

theorem retries_end:
  assumes "online ds" and "distinct (map fst (ds_retry_map ds))" and "map_of (ds_retry_map ds) a = Some r"
    and "r \<le> nc_max_connection_retry_attempts (ds_cfg ds)"
  shows "\<exists>ds'. dispatcher_run
        (replicate (Suc (unat (nc_max_connection_retry_attempts (ds_cfg ds)) - unat r)) (env, Timeout RunRetries)) ds = (Ok (), ds') \<and>
      connects a ds' = connects a ds + (unat (nc_max_connection_retry_attempts (ds_cfg ds)) - unat r) \<and>
      \<not> has_data a (ds_queues ds') \<and> connection_of ds' a = CS_New \<and>
      ConnectionDropped (system_path_with_socket Tcp a) \<in> set (ds_status ds')"
  using retries_run_out [OF assms refl, of env] by (auto simp: outgoing.nonempty_contents connection_of_def)


lemmas run_simps = and_go_def disp_route_def system_path_ref_def route_remote_tcp_def log_failure_def via_bridge_def
  send_and_wake_def bridge_connect_def bridge_route_def unwrapped_def set_connection_def enqueue_for_def connection_of_def
  enqueue_data_def push_entry_def has_data_def connection_established_def trigger_def on_event_def Let_def
  queue_manager_new_def drain_established.simps pop_data_def pop_entry_def

theorem messages_stay_in_order_witness:
  "\<exists>ds'. dispatcher_run
       [(sample_env, Envelope (MsgEnv peer_actor (sample_data 1))), (sample_env, Envelope (MsgEnv peer_actor (sample_data 2))),
        (sample_env, Envelope (EventEnv (NetworkEvent (ConnectionEstablished (system_path_with_socket Tcp peer_addr) 9)))),
        (sample_env, Envelope (MsgEnv peer_actor (sample_data 3)))] started = (Ok (), ds') \<and>
     stream ds' peer_addr = [sample_data 1, sample_data 2, sample_data 3]"
proof -
  let ?ins = "[(sample_env, Envelope (MsgEnv peer_actor (sample_data 1))), (sample_env, Envelope (MsgEnv peer_actor (sample_data 2))),
        (sample_env, Envelope (EventEnv (NetworkEvent (ConnectionEstablished (system_path_with_socket Tcp peer_addr) 9)))),
        (sample_env, Envelope (MsgEnv peer_actor (sample_data 3)))] ::
      ((unit, nat, nat) dispatch_env \<times> (unit, nat, nat, unit) dispatcher_input) list"
  obtain ds' where run: "dispatcher_run ?ins started = (Ok (), ds')" "ds_status ds' = [ConnectionEstablished (system_path_with_socket Tcp peer_addr) 9]"
    by (simp add: run_simps sample_defs)
  have "stream ds' peer_addr = stream started peer_addr @ all_offered own_system peer_addr ?ins"
    by (rule messages_stay_in_order [OF run(1)]) (simp_all add: untroubled_def run(2) reports_trouble_def)
  with run(1) show ?thesis by auto
qed

theorem waiting_messages_are_retried_witness:
  "\<exists>(ds :: (unit, nat, nat, unit) net_dispatcher) r. dispatcher_run [(sample_env, OnStart), (sample_env, Envelope (MsgEnv peer_actor (sample_data 1)))]
       (with_config (network_config_new own_addr)) = (Ok (), ds) \<and>
     pending (ds_queues ds) peer_addr = [sample_data 1] \<and> map_of (ds_retry_map ds) peer_addr = Some r \<and> r \<le> 10"
proof -
  obtain ds :: "(unit, nat, nat, unit) net_dispatcher" where
    run: "dispatcher_run [(sample_env, OnStart), (sample_env, Envelope (MsgEnv peer_actor (sample_data 1)))]
       (with_config (network_config_new own_addr)) = (Ok (), ds)"
    "pending (ds_queues ds) peer_addr = [sample_data 1]" "nc_max_connection_retry_attempts (ds_cfg ds) = 10"
    by (simp add: run_simps sample_defs on_start_def dispatcher_start_def reaper_from_config_def start_bridge_def bridge_new_def
        schedule_retries_def schedule_once_def disp_system_path_def MAX_RETRY_ATTEMPTS_def pending_def queued_def store_new_def
        system_path_new_def)
  have p: "pending (ds_queues ds) peer_addr \<noteq> [] \<or> connection_of ds peer_addr = CS_Initializing \<or> connection_of ds peer_addr = CS_Lost 0"
    using run(2) by simp
  have s: "\<forall>(env, i) \<in> set [(sample_env, Envelope (MsgEnv peer_actor (sample_data 1)))]. steady (i :: (unit, nat, nat, unit) dispatcher_input)"
    by simp
  from waiting_messages_are_retried [OF run(1) s p] run show ?thesis by auto
qed

theorem retries_end_witness:
  "\<exists>ds'. dispatcher_run (replicate 4 (sample_env, Timeout RunRetries)) (started\<lparr>ds_retry_map := [(peer_addr, 7)]\<rparr>) = (Ok (), ds') \<and>
     connects peer_addr ds' = 3 \<and> ConnectionDropped (system_path_with_socket Tcp peer_addr) \<in> set (ds_status ds')"
proof -
  let ?ds = "started\<lparr>ds_retry_map := [(peer_addr, 7)]\<rparr>"
  have "online ?ds" "distinct (map fst (ds_retry_map ?ds))" "map_of (ds_retry_map ?ds) peer_addr = Some 7"
    "7 \<le> nc_max_connection_retry_attempts (ds_cfg ?ds)"
    by (simp_all add: online_def healthy_def sample_defs MAX_RETRY_ATTEMPTS_def)
  note run = retries_end [OF this, of sample_env]
  have n: "unat (nc_max_connection_retry_attempts (ds_cfg ?ds)) - unat (7 :: u8) = 3" "connects peer_addr ?ds = 0"
    by (simp_all add: sample_defs MAX_RETRY_ATTEMPTS_def connects_def)
  have "Suc 3 = (4 :: nat)" by simp
  with run show ?thesis unfolding n by auto
qed


subsection \<open>Registered actors receive their messages\<close>

text \<open>The ways to name an actor in a registration under which it can be found again.\<close>

lemma disp_system_path_Ok:
  assumes "disp_system_path ds = (Ok sp, ds1)"
  shows "ds_system_path ds1 = Some sp \<and> ds_lookup ds1 = ds_lookup ds \<and> ds_reaper ds1 = ds_reaper ds"
  using assms by (auto simp: disp_system_path_def Let_def split: option.splits)

fun registrable :: "path_resolvable \<Rightarrow> bool" where
  "registrable (Segments path) = (path \<noteq> [])"
| "registrable (Alias _) = True"
| "registrable (ActorId _) = True"
| "registrable _ = False"

lemma resolve_path_Ok:
  assumes "resolve_path dbg p ds = (Ok ap, ds1)" and "registrable p"
  shows "\<exists>sp. ds_system_path ds1 = Some sp \<and> ap_system ap = sp \<and> ds_lookup ds1 = ds_lookup ds \<and> ds_reaper ds1 = ds_reaper ds \<and>
    ap = (case p of ActorId u \<Rightarrow> Unique (into_unique sp u) | Alias a \<Rightarrow> Named \<lparr>np_system = sp, np_path = parse_path a\<rparr>
      | Segments path \<Rightarrow> Named \<lparr>np_system = sp, np_path = path\<rparr> | _ \<Rightarrow> ap)"
  using assms
  by (cases p) (auto simp: resolve_path_def and_go_Ok rbind_eq_Ok into_named_with_string_def into_named_with_vec_def
      named_with_system_def into_unique_def unique_with_system_def dest!: disp_system_path_Ok split: if_splits)

lemma inserted_is_found:
  assumes "store_wf s" and "store_insert p actor s = Ok (prev, s')" and "registrable p"
    and "ap = (case p of ActorId u \<Rightarrow> Unique (into_unique sp u) | Alias a \<Rightarrow> Named \<lparr>np_system = sp, np_path = parse_path a\<rparr>
      | Segments path \<Rightarrow> Named \<lparr>np_system = sp, np_path = path\<rparr> | _ \<Rightarrow> ap)"
  shows "get_by_actor_path b ap s' = Ok (LookupRef actor)"
proof -
  have named: "get_by_named_path b path s' = Ok (LookupRef actor)"
    if "path \<noteq> []" "rbind (validate_insert_path path) (\<lambda>_. Ok (insert_name path (RefEntry actor) s)) = Ok (prev, s')" for path
  proof -
    have ok: "\<forall>x \<in> set path. insert_segment_ok x" and ins: "insert_name path (RefEntry actor) s = (prev, s')"
      using that(2) validate_insert_path_Ok [of path] by (auto simp: rbind_unit_Ok)
    from insert_name_facts [OF assms(1), of path "RefEntry actor"] ins
    show ?thesis by (intro lookup_plain_ref [OF ok that(1)]) auto
  qed
  have "parse_path a \<noteq> []" for a by (simp add: parse_path_def)
  then show ?thesis
    using assms named
    by (cases p) (auto simp: Let_def into_unique_def unique_with_system_def insert_uuid_def get_by_uuid_def
        lookup_result_of_ref_def update_conv')
qed

lemma first_reaping_cleans_nothing:
  assumes "run_reaper env ds = (Ok (), ds')" and "\<not> scheduled (ds_reaper ds)"
  shows "ds_lookup ds' = ds_lookup ds \<and> ds_system_path ds' = ds_system_path ds \<and> ds_promises ds' = ds_promises ds"
  using assms by (auto simp: run_reaper_def schedule_reaper_def schedule_once_def)

lemma promises_system_path [simp]: "ds_promises (snd (disp_system_path ds)) = ds_promises ds"
  by (auto simp: disp_system_path_def Let_def split: option.splits)

lemma promises_resolve: "ds_promises (snd (resolve_path dbg p ds)) = ds_promises ds"
  by (auto simp: resolve_path_def deadletter_path_def and_go_def split: path_resolvable.splits rresult.splits)

lemma promises_register_at: "ds_promises (snd (register_at env p update change ds)) = ds_promises ds"
proof -
  obtain r ds1 where "resolve_path (debug_assertions (de_build env)) p ds = (r, ds1)" by force
  then show ?thesis
    using promises_resolve [of "debug_assertions (de_build env)" p ds]
    by (auto simp: register_at_def and_go_def split: rresult.splits)
qed

lemma register_at_Ok:
  assumes "register_at env p update change ds = (Ok ap, ds')"
  shows "\<exists>ds1 prev table. resolve_path (debug_assertions (de_build env)) p ds = (Ok ap, ds1) \<and>
    change (ds_lookup ds1) = Ok (prev, table) \<and> ds' = ds1\<lparr>ds_lookup := table\<rparr>"
proof -
  obtain r ds1 where r: "resolve_path (debug_assertions (de_build env)) p ds = (r, ds1)" by force
  with assms show ?thesis
    by (cases r) (auto simp: register_at_def and_go_Ok split: rresult.splits if_splits)
qed

lemma register_actor_answer:
  assumes "register_actor env reg update (Fulfil k) ds = (Ok (), ds1)"
  shows "\<exists>res d. register_at env (ar_path reg) update (store_insert (ar_path reg) (ar_actor reg)) ds = (res, d) \<and>
    ds_promises ds1 = ds_promises ds @ [(k, res)] \<and> ds_lookup ds1 = ds_lookup d \<and> ds_system_path ds1 = ds_system_path d"
proof -
  obtain res d where r: "register_at env (ar_path reg) update (store_insert (ar_path reg) (ar_actor reg)) ds = (res, d)" by force
  have "ds_promises d = ds_promises ds" using promises_register_at r by (metis snd_conv)
  moreover have "\<exists>d2. ds1 = answer (Fulfil k) res d2 \<and> ds_lookup d2 = ds_lookup d \<and> ds_system_path d2 = ds_system_path d \<and>
      ds_promises d2 = ds_promises d"
    using assms r first_reaping_cleans_nothing
    by (cases res) (auto simp: register_actor_def and_go_Ok split: if_splits)
  ultimately show ?thesis using r by (auto simp: answer_def)
qed



subsection \<open>Requests that fail\<close>

text \<open>
  A request on the status port to connect to a system over a protocol other than TCP makes the
  bridge return an error, which the dispatcher unwraps: the component panics.
\<close>

lemma connect_request_over_udp_panics:
  assumes "ds_net_bridge ds = Some b" and "protocol sp \<noteq> Tcp"
  shows "fst (handle_status_request (ConnectSystem sp) ds) = Panic"
  using assms by (cases "protocol sp") (simp_all add: unwrapped_def via_bridge_def bridge_connect_def)

text \<open>
  Without a bridge a message for a new destination is not dropped, as the log says, but queued, and no
  retry is scheduled for it.
\<close>

lemma message_without_bridge_is_queued:
  assumes "ds_net_bridge ds = None" and "connection_of ds a = CS_New"
  shows "\<exists>ds'. route_remote_tcp a d ds = (Ok (), ds') \<and> ds_retry_map ds' = ds_retry_map ds \<and>
    pending (ds_queues ds') a = pending (ds_queues ds) a @ [d]"
  using assms by (simp add: route_remote_tcp_def Let_def)

text \<open>
  A report of the network thread that it dropped a connection, because of a blocked address, ends the attempts to connect, but the
  messages that wait for the destination stay queued, where the documentation says that they have been dropped.
\<close>

lemma dropped_report_keeps_queue:
  "\<exists>ds'. on_network_status env (ConnectionDropped sp) ds = (Ok (), ds') \<and> ds_queues ds' = ds_queues ds \<and>
     ds_retry_map ds' = AList.delete (socket_address sp) (ds_retry_map ds)"
  by (simp add: trigger_def)

end
