(* ===== verification/Local_Dispatcher.thy ===== *)
theory Local_Dispatcher
  imports Dispatcher_Flow
begin

section \<open>Dispatching without a network\<close>

text \<open>
  The components of a system that has no network (\<open>core/src/default_components.rs\<close>): the local dispatcher, which routes messages to actors and
  groups of the same system and registers them, and the dead letter box. As for the network dispatcher, what a handler does to the outside is logged in the state.
  The lemmas show that on local traffic the local dispatcher does exactly what the network dispatcher does.
\<close>

subsection \<open>The dead letter box\<close>

record 'v deadletter_box =
  db_notify_ready :: "nat option"
  db_completed :: "nat list"
  db_discarded :: "'v net_message list"

definition deadletter_box_new :: "nat \<Rightarrow> 'v deadletter_box" where
  "deadletter_box_new notify_ready = \<lparr>db_notify_ready = Some notify_ready, db_completed = [], db_discarded = []\<rparr>"

definition deadletter_on_start :: "'v deadletter_box \<Rightarrow> 'v deadletter_box" where
  "deadletter_on_start db =
     (case db_notify_ready db of
        Some p \<Rightarrow> db\<lparr>db_notify_ready := None, db_completed := db_completed db @ [p]\<rparr>
      | None \<Rightarrow> db)"

text \<open>A message is logged and dropped.\<close>

definition deadletter_receive_network :: "'v net_message \<Rightarrow> 'v deadletter_box \<Rightarrow> 'v deadletter_box" where
  "deadletter_receive_network m db = db\<lparr>db_discarded := db_discarded db @ [m]\<rparr>"

subsection \<open>The local dispatcher\<close>

record ('v, 'r, 't) local_dispatcher =
  ld_notify_ready :: "nat option"
  ld_lookup :: "('r, 'v net_message, 't) actor_store"
  ld_system_path :: system_path
  ld_completed :: "nat list"
  ld_told :: "('r \<times> 'v net_message) list"
  ld_deadletters :: "'v net_message list"
  ld_promises :: "(nat \<times> (actor_path, registration_error) rresult) list"

definition local_dispatcher_new :: "nat \<Rightarrow> ('v, 'r, 't) local_dispatcher" where
  "local_dispatcher_new notify_ready =
     \<lparr>ld_notify_ready = Some notify_ready, ld_lookup = store_new, ld_system_path = system_path_new Local (V4 0x7F000001) 0,
      ld_completed = [], ld_told = [], ld_deadletters = [], ld_promises = []\<rparr>"

definition local_deadletter_path :: "bool \<Rightarrow> ('v, 'r, 't) local_dispatcher \<Rightarrow> (actor_path, path_parse_error) rresult" where
  "local_deadletter_path dbg ld = rbind (named_with_system dbg (ld_system_path ld) []) (\<lambda>np. Ok (Named np))"

definition local_resolve_path :: "bool \<Rightarrow> path_resolvable \<Rightarrow> ('v, 'r, 't) local_dispatcher \<Rightarrow> (actor_path, path_parse_error) rresult" where
  "local_resolve_path dbg res ld =
     (case res of
        Path p \<Rightarrow> Ok p
      | Alias alias \<Rightarrow> rbind (into_named_with_string dbg (ld_system_path ld) alias) (\<lambda>np. Ok (Named np))
      | Segments segments \<Rightarrow> rbind (into_named_with_vec dbg (ld_system_path ld) segments) (\<lambda>np. Ok (Named np))
      | ActorId u \<Rightarrow> Ok (Unique (into_unique (ld_system_path ld) u))
      | System \<Rightarrow> local_deadletter_path dbg ld)"

definition deadletter_network_msg :: "'v net_message \<Rightarrow> ('v, 'r, 't) local_dispatcher \<Rightarrow> ('v, 'r, 't) local_dispatcher" where
  "deadletter_network_msg m ld = ld\<lparr>ld_deadletters := ld_deadletters ld @ [m]\<rparr>"

definition local_route_local ::
    "('v, 'r, 't) dispatch_env \<Rightarrow> actor_path \<Rightarrow> 'v dispatch_data \<Rightarrow> ('v, 'r, 't) local_dispatcher \<Rightarrow>
     (unit, bridge_error) rresult \<times> ('v, 'r, 't) local_dispatcher" where
  "local_route_local env dst msg ld =
     (case get_by_actor_path (de_build env) dst (ld_lookup ld) of
        Ok found \<Rightarrow>
          (case into_local (debug_assertions (de_build env)) (de_ops env) (de_fresh env) msg of
             Ok netmsg \<Rightarrow>
               (case found of
                  LookupRef actor \<Rightarrow> (Ok (), ld\<lparr>ld_told := ld_told ld @ [(actor, netmsg)]\<rparr>)
                | LookupGroup grp \<Rightarrow>
                    (case group_route clone_for_group grp netmsg of
                       Ok (calls, grp') \<Rightarrow>
                         (Ok (), ld\<lparr>ld_told := ld_told ld @ calls,
                            ld_lookup := advance_stored_policy dst (rg_policy grp') (ld_lookup ld)\<rparr>)
                     | _ \<Rightarrow> (Panic, ld))
                | LookupNone \<Rightarrow> (Ok (), deadletter_network_msg netmsg ld)
                | LookupErr _ \<Rightarrow> (Ok (), deadletter_network_msg netmsg ld))
           | Err _ \<Rightarrow> (Ok (), ld)
           | Panic \<Rightarrow> (Panic, ld))
      | _ \<Rightarrow> (Panic, ld))"

definition local_answer ::
    "registration_promise \<Rightarrow> (actor_path, registration_error) rresult \<Rightarrow> ('v, 'r, 't) local_dispatcher \<Rightarrow> ('v, 'r, 't) local_dispatcher" where
  "local_answer promise res ld =
     (case promise of Fulfil p \<Rightarrow> ld\<lparr>ld_promises := ld_promises ld @ [(p, res)]\<rparr> | NoPromise \<Rightarrow> ld)"

text \<open>The closure both registrations share: resolve the path, refuse a duplicate, otherwise change the table.\<close>

definition local_register_at ::
    "('v, 'r, 't) dispatch_env \<Rightarrow> path_resolvable \<Rightarrow> bool \<Rightarrow>
     (('r, 'v net_message, 't) actor_store \<Rightarrow>
       (('r, 'v net_message, 't) insert_result \<times> ('r, 'v net_message, 't) actor_store, path_parse_error) rresult) \<Rightarrow>
     ('v, 'r, 't) local_dispatcher \<Rightarrow> (actor_path, registration_error) rresult \<times> ('v, 'r, 't) local_dispatcher" where
  "local_register_at env path update change ld =
     (case rmap_err InvalidPath (local_resolve_path (debug_assertions (de_build env)) path ld) of
        Ok ap \<Rightarrow>
          (case store_contains (de_build env) path (ld_lookup ld) of
             Ok known \<Rightarrow>
               (if known \<and> \<not> update then (Err DuplicateEntry, ld)
                else
                  (case change (ld_lookup ld) of
                     Ok (_, table) \<Rightarrow> (Ok ap, ld\<lparr>ld_lookup := table\<rparr>)
                   | Err e \<Rightarrow> (Err (InvalidPath e), ld)
                   | Panic \<Rightarrow> (Panic, ld)))
           | _ \<Rightarrow> (Panic, ld))
      | Err e \<Rightarrow> (Err e, ld)
      | Panic \<Rightarrow> (Panic, ld))"

definition local_finish ::
    "registration_promise \<Rightarrow> (actor_path, registration_error) rresult \<times> ('v, 'r, 't) local_dispatcher \<Rightarrow>
     (unit, bridge_error) rresult \<times> ('v, 'r, 't) local_dispatcher" where
  "local_finish promise r =
     (case fst r of Panic \<Rightarrow> (Panic, snd r) | res \<Rightarrow> (Ok (), local_answer promise res (snd r)))"

definition local_register_actor ::
    "('v, 'r, 't) dispatch_env \<Rightarrow> 'r actor_registration \<Rightarrow> bool \<Rightarrow> registration_promise \<Rightarrow>
     ('v, 'r, 't) local_dispatcher \<Rightarrow> (unit, bridge_error) rresult \<times> ('v, 'r, 't) local_dispatcher" where
  "local_register_actor env reg update promise ld =
     local_finish promise (local_register_at env (ar_path reg) update (store_insert (ar_path reg) (ar_actor reg)) ld)"

definition local_register_policy ::
    "('v, 'r, 't) dispatch_env \<Rightarrow> ('v net_message, 't) policy_registration \<Rightarrow> bool \<Rightarrow> registration_promise \<Rightarrow>
     ('v, 'r, 't) local_dispatcher \<Rightarrow> (unit, bridge_error) rresult \<times> ('v, 'r, 't) local_dispatcher" where
  "local_register_policy env reg update promise ld =
     local_finish promise
       (local_register_at env (Segments (pr_path reg)) update (set_routing_policy (pr_path reg) (pr_policy reg)) ld)"

definition local_destination :: "actor_path \<Rightarrow> system_path \<Rightarrow> bool" where
  "local_destination dst own \<longleftrightarrow> ap_system dst = own \<or> protocol (ap_system dst) = Local"

fun local_receive_local ::
    "('v, 'r, 't) dispatch_env \<Rightarrow> ('v, 'r, 't, 'n) dispatch_envelope \<Rightarrow> ('v, 'r, 't) local_dispatcher \<Rightarrow>
     (unit, bridge_error) rresult \<times> ('v, 'r, 't) local_dispatcher" where
  "local_receive_local env (MsgEnv dst msg) ld =
     (if local_destination dst (ld_system_path ld) then local_route_local env dst msg ld
      else (case into_local (debug_assertions (de_build env)) (de_ops env) (de_fresh env) msg of
              Ok netmsg \<Rightarrow> (Ok (), deadletter_network_msg netmsg ld)
            | Err _ \<Rightarrow> (Ok (), ld)
            | Panic \<Rightarrow> (Panic, ld)))"
| "local_receive_local env (ForwardedMsg m) ld =
     (if local_destination (nm_receiver m) (ld_system_path ld) then local_route_local env (nm_receiver m) (DD_NetMessage m) ld
      else (Ok (), deadletter_network_msg m ld))"
| "local_receive_local env (Registration (RegActor reg) update promise) ld = local_register_actor env reg update promise ld"
| "local_receive_local env (Registration (RegPolicy reg) update promise) ld = local_register_policy env reg update promise ld"
| "local_receive_local env (EventEnv ev) ld = (Ok (), ld)"
| "local_receive_local env (LockedChunk trash) ld = (Ok (), ld)"

definition local_on_start ::
    "('v, 'r, 't) dispatch_env \<Rightarrow> ('v, 'r, 't) local_dispatcher \<Rightarrow> (unit, bridge_error) rresult \<times> ('v, 'r, 't) local_dispatcher" where
  "local_on_start env ld =
     (case store_insert System (de_deadletter_ref env) (ld_lookup ld) of
        Ok (_, table) \<Rightarrow>
          (Ok (), (case ld_notify_ready ld of
             Some p \<Rightarrow> ld\<lparr>ld_lookup := table, ld_notify_ready := None, ld_completed := ld_completed ld @ [p]\<rparr>
           | None \<Rightarrow> ld\<lparr>ld_lookup := table\<rparr>))
      | _ \<Rightarrow> (Panic, ld))"

fun local_run ::
    "(('v, 'r, 't) dispatch_env \<times> ('v, 'r, 't, 'n) dispatch_envelope) list \<Rightarrow> ('v, 'r, 't) local_dispatcher \<Rightarrow>
     (unit, bridge_error) rresult \<times> ('v, 'r, 't) local_dispatcher" where
  "local_run [] ld = (Ok (), ld)"
| "local_run ((env, e) # es) ld = and_go (local_receive_local env e ld) (\<lambda>_. local_run es)"

subsection \<open>Local traffic\<close>

text \<open>
  A local dispatcher and a network dispatcher agree when they keep the same table, have told and discarded the same messages, and have answered
  the same promises, with paths that differ in the system only.
\<close>

fun place :: "actor_path \<Rightarrow> uuid + string list" where
  "place (Unique u) = Inl (up_id u)"
| "place (Named n) = Inr (np_path n)"

fun answered_place :: "nat \<times> (actor_path, registration_error) rresult \<Rightarrow> nat \<times> (uuid + string list, registration_error) rresult" where
  "answered_place (p, r) = (p, rbind r (\<lambda>ap. Ok (place ap)))"

definition agree :: "('v, 'r, 't) local_dispatcher \<Rightarrow> ('v, 'r, 't, 'n) net_dispatcher \<Rightarrow> bool" where
  "agree ld ds \<longleftrightarrow> ds_system_path ds \<noteq> None \<and> ld_lookup ld = ds_lookup ds \<and> ld_told ld = ds_told ds \<and>
     ld_deadletters ld = ds_deadletters ds \<and> map answered_place (ld_promises ld) = map answered_place (ds_promises ds)"

fun stays_local :: "('v, 'r, 't, 'n) dispatch_envelope \<Rightarrow> bool" where
  "stays_local (MsgEnv dst _) = (protocol (ap_system dst) = Local)"
| "stays_local (ForwardedMsg m) = (protocol (ap_system (nm_receiver m)) = Local)"
| "stays_local (Registration _ _ _) = True"
| "stays_local (EventEnv _) = False"
| "stays_local (LockedChunk _) = True"

lemma resolve_same_place:
  assumes "ds_system_path ds = Some sp"
  shows "\<exists>r. resolve_path dbg p ds = (r, ds) \<and>
    rbind r (\<lambda>ap. Ok (place ap)) = rbind (local_resolve_path dbg p ld) (\<lambda>ap. Ok (place ap))"
  using assms
  by (cases p) (auto simp: resolve_path_def local_resolve_path_def disp_system_path_def and_go_def deadletter_path_def
      local_deadletter_path_def into_named_with_string_def into_named_with_vec_def named_with_system_def into_unique_def
      unique_with_system_def rbind_assoc)

text \<open>What the resolution of a path gives decides which of the two results a registration has.\<close>

lemma agree_fields:
  assumes "agree ld ds"
  shows "ld_lookup ld = ds_lookup ds" "ld_told ld = ds_told ds" "ld_deadletters ld = ds_deadletters ds"
  using assms by (auto simp: agree_def)

lemma place_cases:
  assumes "rbind r (\<lambda>ap. Ok (place ap)) = rbind r' (\<lambda>ap. Ok (place ap))"
  shows "(\<exists>e. r = Err e \<and> r' = Err e) \<or> (r = Panic \<and> r' = Panic) \<or> (\<exists>a b. r = Ok a \<and> r' = Ok b \<and> place a = place b)"
  using assms by (cases r; cases r') auto

lemma register_at_agree:
  assumes "agree ld ds"
  shows "\<exists>r r' ld' ds'. local_register_at env p update change ld = (r, ld') \<and> register_at env p update change ds = (r', ds') \<and>
    agree ld' ds' \<and> rbind r (\<lambda>ap. Ok (place ap)) = rbind r' (\<lambda>ap. Ok (place ap))"
proof -
  let ?dbg = "debug_assertions (de_build env)"
  from assms obtain sp where "ds_system_path ds = Some sp" by (auto simp: agree_def)
  from resolve_same_place [OF this, of ?dbg p ld] obtain s where s: "resolve_path ?dbg p ds = (s, ds)"
    "rbind s (\<lambda>ap. Ok (place ap)) = rbind (local_resolve_path ?dbg p ld) (\<lambda>ap. Ok (place ap))" by blast
  have upd: "agree (ld\<lparr>ld_lookup := t\<rparr>) (ds\<lparr>ds_lookup := t\<rparr>)" for t using assms by (simp add: agree_def)
  from place_cases [OF s(2)] show ?thesis
    using assms upd s(1) agree_fields(1) [OF assms]
    by (auto simp: local_register_at_def register_at_def and_go_def split: rresult.splits prod.splits)
qed

lemma answer_agree:
  assumes "agree ld ds" and "rbind r (\<lambda>ap. Ok (place ap)) = rbind r' (\<lambda>ap. Ok (place ap))"
  shows "agree (local_answer promise r ld) (answer promise r' ds)"
  using assms by (cases promise) (simp_all add: agree_def local_answer_def answer_def)

text \<open>The first run of the reaper after a registration only schedules the next one.\<close>

lemma first_reaping_agrees:
  assumes "agree ld ds" and "\<not> scheduled (ds_reaper ds)"
  shows "\<exists>ds'. run_reaper env ds = (Ok (), ds') \<and> agree ld ds'"
  using assms by (auto simp: run_reaper_def schedule_reaper_def schedule_once_def agree_def)

lemma register_actor_agrees:
  assumes "agree ld ds"
  shows "fst (local_register_actor env reg update promise ld) = fst (register_actor env reg update promise ds) \<and>
    agree (snd (local_register_actor env reg update promise ld)) (snd (register_actor env reg update promise ds))"
proof -
  from register_at_agree [OF assms, of env "ar_path reg" update "store_insert (ar_path reg) (ar_actor reg)"]
  obtain r r' ld' ds' where r: "local_register_at env (ar_path reg) update (store_insert (ar_path reg) (ar_actor reg)) ld = (r, ld')"
    "register_at env (ar_path reg) update (store_insert (ar_path reg) (ar_actor reg)) ds = (r', ds')"
    and a: "agree ld' ds'" and eq: "rbind r (\<lambda>ap. Ok (place ap)) = rbind r' (\<lambda>ap. Ok (place ap))" by blast
  obtain ds2 where "(if scheduled (ds_reaper ds') then (Ok (), ds') else run_reaper env ds') = (Ok (), ds2)" and a2: "agree ld' ds2"
    using first_reaping_agrees [OF a] a by (cases "scheduled (ds_reaper ds')") auto
  with r place_cases [OF eq] answer_agree [OF a2 eq, of promise] answer_agree [OF a eq, of promise] a show ?thesis
    by (auto simp: local_register_actor_def local_finish_def register_actor_def and_go_def)
qed

lemma register_policy_agrees:
  assumes "agree ld ds"
  shows "fst (local_register_policy env reg update promise ld) = fst (register_policy env reg update promise ds) \<and>
    agree (snd (local_register_policy env reg update promise ld)) (snd (register_policy env reg update promise ds))"
proof -
  let ?set = "set_routing_policy (pr_path reg) (pr_policy reg)"
  from register_at_agree [OF assms, of env "Segments (pr_path reg)" update ?set]
  obtain r r' ld' ds' where r: "local_register_at env (Segments (pr_path reg)) update ?set ld = (r, ld')"
    "register_at env (Segments (pr_path reg)) update ?set ds = (r', ds')"
    and a: "agree ld' ds'" and eq: "rbind r (\<lambda>ap. Ok (place ap)) = rbind r' (\<lambda>ap. Ok (place ap))" by blast
  with place_cases [OF eq] answer_agree [OF a eq, of promise] show ?thesis
    by (auto simp: local_register_policy_def local_finish_def register_policy_def)
qed

lemma route_local_agrees:
  assumes "agree ld ds"
  shows "fst (local_route_local env dst msg ld) = fst (route_local env dst msg ds) \<and>
    agree (snd (local_route_local env dst msg ld)) (snd (route_local env dst msg ds))"
  using assms
  by (auto simp: agree_def local_route_local_def route_local_def deadletter_network_msg_def
      split: rresult.splits lookup_result.splits prod.splits)

lemma route_local_never_Err: "fst (route_local env dst msg ds) \<noteq> Err e"
  by (auto simp: route_local_def split: rresult.splits lookup_result.splits prod.splits)

lemma log_failure_id: "(\<And>e. fst p \<noteq> Err e) \<Longrightarrow> log_failure p = p"
  by (auto simp: log_failure_def split: rresult.splits)

lemma disp_route_to_local:
  assumes "ds_system_path ds \<noteq> None" and "protocol (ap_system dst) = Local"
  shows "log_failure (disp_route env dst msg ds) = route_local env dst msg ds"
proof -
  from assms have "disp_route env dst msg ds = route_local env dst msg ds"
    by (auto simp: disp_route_def system_path_ref_def and_go_def)
  then show ?thesis by (simp add: log_failure_id route_local_never_Err)
qed

lemma receive_agrees:
  assumes a: "agree ld ds" and l: "stays_local e"
  shows "fst (local_receive_local env e ld) = fst (receive_local env e ds) \<and>
    agree (snd (local_receive_local env e ld)) (snd (receive_local env e ds))"
proof -
  have sp: "ds_system_path ds \<noteq> None" using a by (simp add: agree_def)
  show ?thesis
  proof (cases e)
    case (MsgEnv dst msg)
    with l sp route_local_agrees [OF a] show ?thesis by (simp add: local_destination_def disp_route_to_local)
  next
    case (ForwardedMsg m)
    with l sp route_local_agrees [OF a] show ?thesis by (simp add: local_destination_def disp_route_to_local)
  next
    case (Registration ev update promise)
    then show ?thesis using register_actor_agrees [OF a] register_policy_agrees [OF a] by (cases ev) auto
  next
    case (LockedChunk trash)
    with a show ?thesis by (simp add: agree_def)
  qed (use l in simp)
qed

text \<open>
  C29: As long as messages stay in the system, a local dispatcher and a network dispatcher that agree cannot be told apart: for any sequence of
  messages to local paths, forwarded messages and registrations of actors and routing policies, both panic or both go on, tell the same
  actors the same messages in the same order, discard the same messages, and answer the same registrations with the same results, up to
  the system in the paths.
\<close>

theorem local_dispatchers_agree:
  assumes "agree ld ds" and "list_all stays_local (map snd es)"
  shows "fst (local_run es ld) = fst (dispatcher_run (map (\<lambda>(env, e). (env, Envelope e)) es) ds) \<and>
    agree (snd (local_run es ld)) (snd (dispatcher_run (map (\<lambda>(env, e). (env, Envelope e)) es) ds))"
  using assms
proof (induction es arbitrary: ld ds)
  case (Cons ee es)
  obtain env e where [simp]: "ee = (env, e)" by force
  from Cons.prems(2) have "stays_local e" "list_all stays_local (map snd es)" by auto
  with receive_agrees [OF Cons.prems(1), of e env] Cons.IH show ?case
    by (cases "fst (receive_local env e ds)") (auto simp: and_go_def)
qed simp

text \<open>An actor registered with either dispatcher, and a message to it.\<close>

definition sample_worker :: actor_path where
  "sample_worker = Named \<lparr>np_system = system_path_new Local (V4 0x7F000001) 0, np_path = [''workers'', ''first'']\<rparr>"

definition sample_traffic :: "((unit, nat, nat) dispatch_env \<times> (unit, nat, nat, unit) dispatch_envelope) list" where
  "sample_traffic =
     [(sample_env, Registration (RegActor \<lparr>ar_actor = 42, ar_path = Segments [''workers'', ''first'']\<rparr>) False (Fulfil 5)),
      (sample_env, ForwardedMsg (with_bytes 3 peer_actor sample_worker [1, 2]))]"

lemma sample_traffic_run:
  "\<exists>ld. local_run sample_traffic (local_dispatcher_new 0) = (Ok (), ld) \<and>
     ld_told ld = [(42, with_bytes 3 peer_actor sample_worker [1, 2])] \<and> ld_promises ld = [(5, Ok sample_worker)]"
proof -
  let ?path = "[''workers'', ''first'']"
  let ?trie = "PathTrie None [(''workers'', PathTrie None [(''first'', PathTrie (Some (RefEntry 42)) [])])]"
  have v: "validate_insert_path ?path = Ok ()" "validate_lookup_path ?path = Ok ()" by code_simp+
  have found: "get_by_named_path b ?path \<lparr>uuid_map = [], name_map = ?trie, deadletter = None\<rparr> = Ok (LookupRef 42)" for b
    using v(1) by (intro lookup_plain_ref) (auto simp: trie_get_def simp del: validate_insert_path.simps)
  show ?thesis
    using v
    by (simp add: sample_traffic_def sample_worker_def local_dispatcher_new_def local_register_actor_def local_register_at_def
        local_resolve_path_def into_named_with_vec_def named_with_system_def local_finish_def local_answer_def and_go_def
        contains_name_def store_new_def sample_defs insert_name_def insert_owned_def trie_new_def trie_get_def
        local_route_local_def local_destination_def with_bytes_def net_message_with_def system_path_new_def found
        del: validate_lookup_path_Ok validate_insert_path_Ok validate_insert_path.simps)
qed

theorem local_dispatchers_agree_witness:
  "\<exists>ds. dispatcher_run (map (\<lambda>(env, e). (env, Envelope e)) sample_traffic) started = (Ok (), ds) \<and>
     ds_told ds = [(42, with_bytes 3 peer_actor sample_worker [1, 2])] \<and>
     map answered_place (ds_promises ds) = [(5, Ok (Inr [''workers'', ''first'']))]"
proof -
  have "agree (local_dispatcher_new 0) started" by (simp add: agree_def local_dispatcher_new_def sample_defs)
  moreover have "list_all stays_local (map snd sample_traffic)"
    by (simp add: sample_traffic_def sample_worker_def with_bytes_def net_message_with_def system_path_new_def)
  ultimately show ?thesis
    using local_dispatchers_agree [of "local_dispatcher_new 0" started sample_traffic] sample_traffic_run
    by (auto simp: agree_def sample_worker_def prod_eq_iff)
qed

end
