(* ===== verification/Rust_Floats.thy ===== *)
theory Rust_Floats
  imports Kompact_Prelude
begin

section \<open>Floating point numbers of the language\<close>

text \<open>
  What the configuration code uses of \<open>f32\<close> and \<open>f64\<close>: the casts between them and from integers, multiplication, comparison, and the cast
  back to an integer. A float is its IEEE 754 bit pattern; every operation rounds to nearest, ties to even. The lemmas show that
  widening and narrowing an \<open>f32\<close> gives it back, and that a product with a factor below one is smaller than the integer it was made of.
\<close>

type_synonym f32 = u32
type_synonym f64 = u64

subsection \<open>Rounding\<close>

text \<open>\<open>m / 2 ^ s\<close>, to nearest, ties to even.\<close>

definition rne :: "nat \<Rightarrow> nat \<Rightarrow> nat" where
  "rne m s =
     (let q = m div 2 ^ s; r = m mod 2 ^ s in
      if 2 * r > 2 ^ s \<or> (2 * r = 2 ^ s \<and> odd q) then q + 1 else q)"

text \<open>The position of the highest one bit.\<close>

fun top_bit :: "nat \<Rightarrow> nat" where
  "top_bit m = (if m < 2 then 0 else Suc (top_bit (m div 2)))"

declare top_bit.simps [simp del]

lemma top_bit_step: "m < 2 \<Longrightarrow> top_bit m = 0" "2 \<le> m \<Longrightarrow> top_bit m = Suc (top_bit (m div 2))"
  by (simp_all add: top_bit.simps [of m])

text \<open>
  The magnitude bits of the float nearest to \<open>m * 2 ^ e\<close> in a format with \<open>p\<close> fraction bits and least exponent
  \<open>- bias\<close> (the exponent of the last bit of a subnormal number), before the overflow to infinity: the last bit kept
  has the exponent \<open>x\<close>.
\<close>

definition round_bits :: "nat \<Rightarrow> nat \<Rightarrow> nat \<Rightarrow> int \<Rightarrow> nat" where
  "round_bits p bias m e =
     (if m = 0 then 0
      else let x = max (int (top_bit m) + e - int p) (- int bias); s = x - e in
           nat (x + int bias) * 2 ^ p + (if s \<le> 0 then m * 2 ^ nat (- s) else rne m (nat s)))"

subsection \<open>Single precision\<close>

definition f32_sign :: "f32 \<Rightarrow> nat" where
  "f32_sign b = unat b div 2 ^ 31"

definition f32_mag :: "f32 \<Rightarrow> nat" where
  "f32_mag b = unat b mod 2 ^ 31"

definition f32_exponent :: "f32 \<Rightarrow> nat" where
  "f32_exponent b = f32_mag b div 2 ^ 23"

definition f32_fraction :: "f32 \<Rightarrow> nat" where
  "f32_fraction b = f32_mag b mod 2 ^ 23"

definition f32_is_nan :: "f32 \<Rightarrow> bool" where
  "f32_is_nan b \<longleftrightarrow> f32_mag b > 255 * 2 ^ 23"

text \<open>A finite number is its significand times a power of two.\<close>

definition f32_significand :: "f32 \<Rightarrow> nat" where
  "f32_significand b = (if f32_exponent b = 0 then f32_fraction b else 2 ^ 23 + f32_fraction b)"

definition f32_scale :: "f32 \<Rightarrow> int" where
  "f32_scale b = int (max 1 (f32_exponent b)) - 150"

definition f32_make :: "nat \<Rightarrow> nat \<Rightarrow> f32" where
  "f32_make s mag = of_nat (s * 2 ^ 31 + min mag (255 * 2 ^ 23))"

definition f32_nan :: f32 where
  "f32_nan = 0x7FC00000"

text \<open>\<open>usize as f32\<close>.\<close>

definition f32_of_nat :: "nat \<Rightarrow> f32" where
  "f32_of_nat n = f32_make 0 (round_bits 23 149 n 0)"

definition f32_mul :: "f32 \<Rightarrow> f32 \<Rightarrow> f32" where
  "f32_mul a b =
     (let s = (f32_sign a + f32_sign b) mod 2;
          inf_a = f32_mag a = 255 * 2 ^ 23; inf_b = f32_mag b = 255 * 2 ^ 23
      in if f32_is_nan a \<or> f32_is_nan b \<or> (inf_a \<and> f32_mag b = 0) \<or> (inf_b \<and> f32_mag a = 0) then f32_nan
         else if inf_a \<or> inf_b then f32_make s (255 * 2 ^ 23)
         else f32_make s (round_bits 23 149 (f32_significand a * f32_significand b) (f32_scale a + f32_scale b)))"

text \<open>Numbers other than NaN are ordered like their magnitudes with the sign; both zeros are equal.\<close>

definition f32_key :: "f32 \<Rightarrow> int" where
  "f32_key b = (if f32_sign b = 0 then int (f32_mag b) else - int (f32_mag b))"

definition f32_less :: "f32 \<Rightarrow> f32 \<Rightarrow> bool" where
  "f32_less a b \<longleftrightarrow> \<not> f32_is_nan a \<and> \<not> f32_is_nan b \<and> f32_key a < f32_key b"

definition f32_ge :: "f32 \<Rightarrow> f32 \<Rightarrow> bool" where
  "f32_ge a b \<longleftrightarrow> \<not> f32_is_nan a \<and> \<not> f32_is_nan b \<and> f32_key a \<ge> f32_key b"

text \<open>\<open>f32 as usize\<close> cuts towards zero and saturates; NaN and negative numbers give zero.\<close>

definition trunc_scaled :: "nat \<Rightarrow> int \<Rightarrow> nat" where
  "trunc_scaled m e = (if e \<ge> 0 then m * 2 ^ nat e else m div 2 ^ nat (- e))"

definition usize_of_f32 :: "f32 \<Rightarrow> nat" where
  "usize_of_f32 b =
     (if f32_is_nan b \<or> f32_sign b = 1 then 0
      else min (2 ^ 64 - 1) (trunc_scaled (f32_significand b) (f32_scale b)))"

subsection \<open>Double precision\<close>

definition f64_mag :: "f64 \<Rightarrow> nat" where
  "f64_mag b = unat b mod 2 ^ 63"

definition f64_sign :: "f64 \<Rightarrow> nat" where
  "f64_sign b = unat b div 2 ^ 63"

definition f64_exponent :: "f64 \<Rightarrow> nat" where
  "f64_exponent b = f64_mag b div 2 ^ 52"

definition f64_fraction :: "f64 \<Rightarrow> nat" where
  "f64_fraction b = f64_mag b mod 2 ^ 52"

definition f64_significand :: "f64 \<Rightarrow> nat" where
  "f64_significand b = (if f64_exponent b = 0 then f64_fraction b else 2 ^ 52 + f64_fraction b)"

definition f64_scale :: "f64 \<Rightarrow> int" where
  "f64_scale b = int (max 1 (f64_exponent b)) - 1075"

definition f64_make :: "nat \<Rightarrow> nat \<Rightarrow> f64" where
  "f64_make s mag = of_nat (s * 2 ^ 63 + min mag (2047 * 2 ^ 52))"

text \<open>\<open>i64 as f64\<close>; an \<open>i64\<close> is a word that is read as a signed number.\<close>

definition f64_of_i64 :: "u64 \<Rightarrow> f64" where
  "f64_of_i64 v =
     (let i = sint v in f64_make (if i < 0 then 1 else 0) (round_bits 52 1074 (nat \<bar>i\<bar>) 0))"

text \<open>\<open>f64::from(f32)\<close> and \<open>f64 as f32\<close>. NaNs become the quiet NaN of the other format: the source never looks at their payload.\<close>

definition f64_of_f32 :: "f32 \<Rightarrow> f64" where
  "f64_of_f32 b =
     (if f32_is_nan b then 0x7FF8000000000000
      else if f32_mag b = 255 * 2 ^ 23 then f64_make (f32_sign b) (2047 * 2 ^ 52)
      else f64_make (f32_sign b) (round_bits 52 1074 (f32_significand b) (f32_scale b)))"

definition f32_of_f64 :: "f64 \<Rightarrow> f32" where
  "f32_of_f64 b =
     (if f64_mag b > 2047 * 2 ^ 52 then f32_nan
      else if f64_mag b = 2047 * 2 ^ 52 then f32_make (f64_sign b) (255 * 2 ^ 23)
      else f32_make (f64_sign b) (round_bits 23 149 (f64_significand b) (f64_scale b)))"

lemmas float_defs =
  f32_sign_def f32_mag_def f32_exponent_def f32_fraction_def f32_is_nan_def f32_significand_def f32_scale_def f32_make_def f32_nan_def
  f32_of_nat_def f32_mul_def f32_key_def f32_less_def f32_ge_def trunc_scaled_def usize_of_f32_def
  f64_mag_def f64_sign_def f64_exponent_def f64_fraction_def f64_significand_def f64_scale_def f64_make_def f64_of_i64_def f64_of_f32_def f32_of_f64_def

lemmas float_eval = float_defs round_bits_def rne_def top_bit_step Let_def

text \<open>Samples: \<open>50.0\<close>, its half and the integer part, \<open>-3.0\<close>, the two nearest numbers to \<open>0.1\<close>, the least subnormal number, and an overflow.\<close>

lemma float_samples:
  "f32_of_nat 50 = 0x42480000" "f32_mul 0x42480000 0x3F000000 = 0x41C80000" "usize_of_f32 0x41C80000 = 25"
  "f64_of_i64 (- 3) = 0xC008000000000000" "f64_of_f32 0x3DCCCCCD = 0x3FB99999A0000000" "f32_of_f64 0x3FB999999999999A = 0x3DCCCCCD"
  "f64_of_f32 1 = 0x36A0000000000000" "f32_of_f64 0x36A0000000000000 = 1" "f32_of_f64 0x47EFFFFFF0000000 = 0x7F800000"
  by (simp_all add: float_eval)

subsection \<open>Rounding is exact or below a bound\<close>

lemma top_bit_bounds: "0 < m \<Longrightarrow> 2 ^ top_bit m \<le> m \<and> m < 2 * 2 ^ top_bit m"
proof (induction m rule: top_bit.induct)
  case (1 m)
  show ?case
  proof (cases "m < 2")
    case False
    with 1 have "2 ^ top_bit (m div 2) \<le> m div 2" "m div 2 < 2 * 2 ^ top_bit (m div 2)" by auto
    with False show ?thesis by (simp add: top_bit.simps [of m]) linarith
  qed (use 1 in \<open>simp add: top_bit.simps\<close>)
qed

lemma top_bit_unique:
  assumes "2 ^ k \<le> m" "m < 2 * 2 ^ k"
  shows "top_bit m = k"
proof -
  have m: "0 < m" using assms(1) by (metis zero_less_power zero_less_numeral order_less_le_trans)
  have "(2::nat) ^ k < 2 ^ Suc (top_bit m)" "(2::nat) ^ top_bit m < 2 ^ Suc k"
    using top_bit_bounds [OF m] assms by (auto intro: order_le_less_trans)
  then have "k < Suc (top_bit m)" "top_bit m < Suc k" by (auto simp del: power_Suc)
  then show ?thesis by simp
qed

lemma shift_bounds:
  assumes "2 ^ k \<le> m" "m < 2 * 2 ^ k" "k \<le> n"
  shows "2 ^ n \<le> m * 2 ^ (n - k)" "m * 2 ^ (n - k) < 2 * (2 ^ n :: nat)"
proof -
  have p: "(2::nat) ^ n = 2 ^ k * 2 ^ (n - k)" using assms(3) by (simp flip: power_add)
  show "2 ^ n \<le> m * 2 ^ (n - k)" "m * 2 ^ (n - k) < 2 * (2 ^ n :: nat)"
    unfolding p using assms(1,2) by simp_all
qed

lemma rne_exact [simp]: "rne (m * 2 ^ s) s = m"
  by (simp add: rne_def)

lemma rne_le:
  assumes "2 * m \<le> (2 * b + 1) * 2 ^ s" "2 * m = (2 * b + 1) * 2 ^ s \<Longrightarrow> even b"
  shows "rne m s \<le> b"
proof -
  let ?q = "m div 2 ^ s" and ?r = "m mod 2 ^ s"
  have m: "m = ?q * 2 ^ s + ?r" by (rule div_mult_mod_eq [symmetric])
  have "?q * 2 ^ s \<le> m" by simp
  with assms(1) have "2 * ?q * 2 ^ s \<le> (2 * b + 1) * 2 ^ s" by linarith
  then have "?q \<le> b" by (simp del: mult_Suc)
  moreover have "2 * ?r < 2 ^ s \<or> (2 * ?r = 2 ^ s \<and> even b)" if q: "?q = b"
  proof -
    have "2 * m = 2 * b * 2 ^ s + 2 * ?r" using m q by (metis distrib_left mult.assoc)
    with assms show ?thesis by (auto simp: algebra_simps)
  qed
  ultimately show ?thesis by (auto simp: rne_def Let_def le_less)
qed

lemma rne_le_exact: "m \<le> b * 2 ^ s \<Longrightarrow> rne m s \<le> b"
proof (rule rne_le)
  assume "m \<le> b * 2 ^ s"
  then have "2 * m \<le> 2 * b * 2 ^ s" by simp
  moreover have "(2 * b + 1) * 2 ^ s = 2 * b * 2 ^ s + 2 ^ s" by (simp add: algebra_simps)
  ultimately have "2 * m < (2 * b + 1) * 2 ^ s" by (metis le_imp_less_Suc less_add_same_cancel1 order_le_less_trans zero_less_numeral zero_less_power)
  then show "2 * m \<le> (2 * b + 1) * 2 ^ s" "2 * m = (2 * b + 1) * 2 ^ s \<Longrightarrow> even b" by simp_all
qed

subsection \<open>Widening and narrowing\<close>

lemma f32_mag_eq: "f32_mag b = f32_exponent b * 2 ^ 23 + f32_fraction b"
  by (simp add: f32_exponent_def f32_fraction_def)

lemma f32_word: "unat b = f32_sign b * 2 ^ 31 + f32_mag b"
  by (simp add: f32_sign_def f32_mag_def)

lemma f32_sign_less: "f32_sign b < 2"
  using unat_less_power [of b] by (simp add: f32_sign_def less_mult_imp_div_less)

lemma f32_fraction_less: "f32_fraction b < 2 ^ 23"
  by (simp add: f32_fraction_def)

lemma f32_finite:
  assumes "f32_mag b < 255 * 2 ^ 23"
  shows "f32_exponent b < 255" "f32_mag b = nat (f32_scale b + 149) * 2 ^ 23 + f32_significand b"
    "f32_significand b < 2 ^ 24" "- 149 \<le> f32_scale b" "f32_scale b \<le> 104"
    "f32_scale b = - 149 \<or> 2 ^ 23 \<le> f32_significand b"
proof -
  show e: "f32_exponent b < 255" using assms by (simp add: f32_exponent_def less_mult_imp_div_less)
  show "f32_mag b = nat (f32_scale b + 149) * 2 ^ 23 + f32_significand b"
    unfolding f32_scale_def f32_significand_def by (subst f32_mag_eq) (cases "f32_exponent b"; simp add: nat_add_distrib)
  show "f32_significand b < 2 ^ 24" "- 149 \<le> f32_scale b" "f32_scale b \<le> 104" "f32_scale b = - 149 \<or> 2 ^ 23 \<le> f32_significand b"
    using e f32_fraction_less [of b] by (auto simp: f32_significand_def f32_scale_def)
qed

lemma f32_make_parts: "f32_mag b \<le> 255 * 2 ^ 23 \<Longrightarrow> f32_make (f32_sign b) (f32_mag b) = b"
  by (simp only: f32_make_def min_absorb1 f32_word [symmetric]) simp

lemma f64_make_parts:
  assumes "s < 2" "mag \<le> 2047 * 2 ^ 52"
  shows "f64_sign (f64_make s mag) = s" "f64_mag (f64_make s mag) = mag"
proof -
  have "s * 2 ^ 63 + mag < 2 ^ 64" using assms by simp
  then have u: "unat (f64_make s mag) = s * 2 ^ 63 + mag"
    using assms by (simp only: f64_make_def min_absorb1 unat_of_nat take_bit_eq_mod mod_less) (simp add: mod_less)
  with assms show "f64_sign (f64_make s mag) = s" "f64_mag (f64_make s mag) = mag"
    by (simp_all add: f64_sign_def f64_mag_def)
qed

text \<open>Widening is exact: the significand is shifted to the left end of the longer format.\<close>

lemma widen_parts:
  assumes "f32_mag b < 255 * 2 ^ 23" "f32_significand b \<noteq> 0"
  defines "k \<equiv> top_bit (f32_significand b)"
  shows "f64_mag (f64_of_f32 b) < 2047 * 2 ^ 52" "f64_sign (f64_of_f32 b) = f32_sign b"
    "f64_significand (f64_of_f32 b) = f32_significand b * 2 ^ (52 - k)" "f64_scale (f64_of_f32 b) = int k + f32_scale b - 52" "k < 24"
proof -
  let ?m = "f32_significand b" and ?e = "f32_scale b"
  note fin = f32_finite [OF assms(1)]
  have kb: "2 ^ k \<le> ?m" "?m < 2 * 2 ^ k" using top_bit_bounds [of ?m] assms(2) by (auto simp: k_def)
  from kb(1) fin(3) have "(2::nat) ^ k < 2 ^ 24" by linarith
  then show k: "k < 24" by (rule power_less_imp_less_exp [rotated]) simp
  let ?n = "?m * 2 ^ (52 - k)" and ?x = "nat (int k + ?e - 52 + 1074)"
  have n: "2 ^ 52 \<le> ?n" "?n < 2 * 2 ^ 52" using shift_bounds [OF kb, of 52] k by simp_all
  have x: "?x < 1200" using fin(4,5) k by simp
  have rb: "round_bits 52 1074 ?m ?e = ?x * 2 ^ 52 + ?n"
    using assms(2) fin(4) k by (simp add: round_bits_def Let_def flip: k_def)
  have w: "f64_of_f32 b = f64_make (f32_sign b) (?x * 2 ^ 52 + ?n)"
    using assms(1) rb by (simp add: f64_of_f32_def f32_is_nan_def)
  have le: "?x * 2 ^ 52 + ?n < 2047 * 2 ^ 52" using x n(2) by simp
  note parts = f64_make_parts [OF f32_sign_less [of b] less_imp_le [OF le], folded w]
  show "f64_mag (f64_of_f32 b) < 2047 * 2 ^ 52" "f64_sign (f64_of_f32 b) = f32_sign b"
    using parts le by simp_all
  obtain r where r: "?n = 2 ^ 52 + r" "r < 2 ^ 52" using n by (metis le_Suc_ex add_less_cancel_left mult_2)
  have "f64_exponent (f64_of_f32 b) = Suc ?x" "f64_fraction (f64_of_f32 b) = r"
    using parts(2) r by (simp_all add: f64_exponent_def f64_fraction_def)
  then show "f64_significand (f64_of_f32 b) = ?n" "f64_scale (f64_of_f32 b) = int k + ?e - 52"
    using r(1) fin(4) by (simp_all add: f64_significand_def f64_scale_def)
qed

text \<open>Narrowing what was widened gives the number back, subnormal and infinite ones included.\<close>

lemma narrow_widen:
  assumes "\<not> f32_is_nan b"
  shows "f32_of_f64 (f64_of_f32 b) = b"
proof (cases "f32_mag b = 255 * 2 ^ 23")
  case True
  then have "f64_of_f32 b = f64_make (f32_sign b) (2047 * 2 ^ 52)" using assms by (simp add: f64_of_f32_def)
  with f64_make_parts [OF f32_sign_less [of b], of "2047 * 2 ^ 52"] f32_make_parts [of b] True show ?thesis
    by (simp add: f32_of_f64_def)
next
  case False
  with assms have mag: "f32_mag b < 255 * 2 ^ 23" by (simp add: f32_is_nan_def)
  note fin = f32_finite [OF mag]
  let ?m = "f32_significand b" and ?e = "f32_scale b" and ?k = "top_bit (f32_significand b)"
  show ?thesis
  proof (cases "?m = 0")
    case True
    with fin(6) have "?e = - 149" by auto
    with True fin(2) have "f32_mag b = 0" by simp
    with True mag assms f64_make_parts [OF f32_sign_less [of b], of 0] f32_make_parts [of b] show ?thesis
      by (simp add: f64_of_f32_def f32_of_f64_def round_bits_def f64_significand_def f64_exponent_def f64_fraction_def)
  next
    case m: False
    note w = widen_parts [OF mag m]
    have kb: "2 ^ ?k \<le> ?m" "?m < 2 * 2 ^ ?k" using top_bit_bounds [of ?m] m by auto
    have "top_bit (?m * 2 ^ (52 - ?k)) = 52" using shift_bounds [OF kb, of 52] w(5) by (intro top_bit_unique) simp_all
    then have "round_bits 23 149 (?m * 2 ^ (52 - ?k)) (int ?k + ?e - 52) =
      nat (max (int ?k + ?e - 23) (- 149) + 149) * 2 ^ 23 + rne (?m * 2 ^ (52 - ?k)) (nat (max (int ?k + ?e - 23) (- 149) - (int ?k + ?e - 52)))"
      using m w(5) by (simp add: round_bits_def Let_def)
    moreover have "max (int ?k + ?e - 23) (- 149) = ?e"
      using fin(3,4,6) top_bit_unique [of 23 ?m] w(5) by auto
    moreover have "nat (?e - (int ?k + ?e - 52)) = 52 - ?k" using w(5) by simp
    ultimately have "round_bits 23 149 (?m * 2 ^ (52 - ?k)) (int ?k + ?e - 52) = nat (?e + 149) * 2 ^ 23 + ?m"
      by (simp only: rne_exact)
    with w fin(2) f32_make_parts [of b] mag show ?thesis by (simp add: f32_of_f64_def)
  qed
qed

subsection \<open>The product with a factor below one\<close>

lemma f32_make_mag: "mag \<le> 255 * 2 ^ 23 \<Longrightarrow> f32_mag (f32_make 0 mag) = mag" "mag \<le> 255 * 2 ^ 23 \<Longrightarrow> f32_sign (f32_make 0 mag) = 0"
  by (simp_all add: f32_make_def f32_mag_def f32_sign_def unat_of_nat take_bit_eq_mod)

text \<open>An integer of at most 24 bits is exact.\<close>

lemma f32_of_nat_exact:
  assumes "0 < n" "n \<le> 2 ^ 24"
  obtains M where "2 ^ 23 \<le> M" "M < 2 ^ 24" "top_bit n \<le> 24" "M * 2 ^ top_bit n = n * 2 ^ 23"
    "f32_mag (f32_of_nat n) = (top_bit n + 126) * 2 ^ 23 + M" "f32_sign (f32_of_nat n) = 0"
proof -
  let ?k = "top_bit n"
  have kb: "2 ^ ?k \<le> n" "n < 2 * 2 ^ ?k" using top_bit_bounds [OF assms(1)] by auto
  have k: "?k \<le> 24" using kb(1) assms(2) power_le_imp_le_exp [of "2::nat" ?k 24] by simp
  show thesis
  proof (cases "?k = 24")
    case True
    with kb(1) assms(2) have n: "n = 2 ^ 24" by simp
    have "round_bits 23 149 n 0 = (?k + 126) * 2 ^ 23 + 2 ^ 23" by (simp add: round_bits_def Let_def rne_def True) (simp add: n)
    with k True n f32_make_mag [of "(?k + 126) * 2 ^ 23 + 2 ^ 23"] show ?thesis
      by (intro that [of "2 ^ 23"]) (simp_all add: f32_of_nat_def)
  next
    case False
    with k have k': "?k \<le> 23" by simp
    note sb = shift_bounds [OF kb k']
    have "round_bits 23 149 n 0 = (?k + 126) * 2 ^ 23 + n * 2 ^ (23 - ?k)"
      using assms(1) k' by (simp add: round_bits_def Let_def nat_diff_distrib nat_add_distrib)
    moreover have "n * 2 ^ (23 - ?k) * 2 ^ ?k = n * 2 ^ 23" using k' by (simp add: mult.assoc flip: power_add)
    ultimately show ?thesis using k' sb f32_make_mag [of "(?k + 126) * 2 ^ 23 + n * 2 ^ (23 - ?k)"]
      by (intro that [of "n * 2 ^ (23 - ?k)"]) (simp_all add: f32_of_nat_def)
  qed
qed

lemma round_bits_bound:
  fixes e :: int and p bias m :: nat
  assumes "0 < m"
  defines "x \<equiv> max (int (top_bit m) + e - int p) (- int bias)"
  shows "round_bits p bias m e \<le> nat (x + int bias) * 2 ^ p + 2 * 2 ^ p"
proof -
  have kb: "2 ^ top_bit m \<le> m" "m < 2 * 2 ^ top_bit m" using top_bit_bounds [OF assms(1)] by auto
  have "(if x - e \<le> 0 then m * 2 ^ nat (- (x - e)) else rne m (nat (x - e))) \<le> 2 * 2 ^ p"
  proof (cases "x - e \<le> 0")
    case True
    then have "top_bit m + nat (- (x - e)) \<le> p" by (simp add: x_def max_def split: if_splits)
    then have "(2::nat) ^ top_bit m * 2 ^ nat (- (x - e)) \<le> 2 ^ p" by (simp flip: power_add)
    moreover have "m * 2 ^ nat (- (x - e)) \<le> 2 * 2 ^ top_bit m * 2 ^ nat (- (x - e))" using kb(2) by simp
    ultimately have "m * 2 ^ nat (- (x - e)) \<le> 2 * 2 ^ p" by linarith
    with True show ?thesis by simp
  next
    case False
    have "top_bit m \<le> p + nat (x - e)" using False by (simp add: x_def max_def split: if_splits)
    then have "(2::nat) ^ top_bit m \<le> 2 ^ p * 2 ^ nat (x - e)" by (simp flip: power_add)
    then have "m \<le> 2 * 2 ^ p * 2 ^ nat (x - e)" using kb(2) by simp
    with False show ?thesis by (simp add: rne_le_exact)
  qed
  then show ?thesis using assms(1) by (simp add: round_bits_def Let_def flip: x_def)
qed

text \<open>The factor: \<open>0 < p < 1\<close>.\<close>

lemma unit_factor:
  assumes "f32_less 0 p" "f32_less p 0x3F800000"
  shows "f32_sign p = 0" "f32_mag p < 127 * 2 ^ 23" "f32_scale p \<le> - 24" "f32_significand p < 2 ^ 24" "0 < f32_significand p"
proof -
  have c: "f32_key 0 = 0" "f32_key 0x3F800000 = 127 * 2 ^ 23" by (simp_all add: float_defs)
  have k: "0 < f32_key p" "f32_key p < 127 * 2 ^ 23" using assms c by (simp_all add: f32_less_def)
  then show s: "f32_sign p = 0" and m: "f32_mag p < 127 * 2 ^ 23" by (auto simp: f32_key_def split: if_splits)
  then have e: "f32_exponent p < 127" by (simp add: f32_exponent_def less_mult_imp_div_less)
  then show "f32_scale p \<le> - 24" by (simp add: f32_scale_def)
  show "f32_significand p < 2 ^ 24" using f32_fraction_less [of p] by (simp add: f32_significand_def)
  show "0 < f32_significand p" using k s f32_mag_eq [of p] by (auto simp: f32_key_def f32_significand_def)
qed

lemma product_bits_below:
  assumes "2 ^ 23 \<le> M" "M < (2 ^ 24 :: nat)" "0 < f" "f < (2 ^ 24 :: nat)" "- 23 \<le> e" "d \<le> - 24"
  shows "round_bits 23 149 (M * f) (e + d) < nat (e + 149) * 2 ^ 23 + M"
proof -
  let ?m = "M * f" and ?k = "top_bit (M * f)"
  have m: "0 < ?m" using assms(1,3) by simp
  have kb: "2 ^ ?k \<le> ?m" "?m < 2 * 2 ^ ?k" using top_bit_bounds [OF m] by auto
  have top: "?m \<le> M * (2 ^ 24 - 1)" using assms(4) by (intro mult_le_mono) auto
  have "?m < 2 ^ 48" using assms(2,4) mult_strict_mono [of M "2 ^ 24" f "2 ^ 24"] by simp
  then have k: "?k \<le> 47" using kb(1) power_less_imp_less_exp [of "2::nat" ?k 48] by simp
  have e0: "0 \<le> e + 149 - 2" using assms(5) by simp
  consider (far) "int ?k + d \<le> 21" | (half) "int ?k + d = 22" | (close) "?k = 47" "d = - 24"
    using k assms(6) by linarith
  then show ?thesis
  proof cases
    case far
    let ?x = "max (int ?k + (e + d) - int 23) (- int 149)"
    have "nat (?x + int 149) \<le> nat (e + 149) - 2" using far e0 by (simp add: max_def) linarith
    then have "nat (?x + int 149) * 2 ^ 23 + 2 * 2 ^ 23 \<le> nat (e + 149) * 2 ^ 23" using e0 by simp
    with round_bits_bound [OF m, where e = "e + d" and p = 23 and bias = 149] assms(1) show ?thesis by simp
  next
    case half
    have "rne ?m (nat (- 1 - d)) < 2 ^ 23 + M"
    proof (cases "d = - 24")
      case True
      with half have "?m < 2 ^ 47" using kb(2) by simp
      then have "rne ?m 23 \<le> 2 ^ 24" by (intro rne_le_exact) simp
      moreover have "rne ?m 23 \<le> 2 ^ 24 - 1" if "M = 2 ^ 23" using top that by (intro rne_le_exact) simp
      ultimately show ?thesis using True assms(1) by (cases "M = 2 ^ 23") simp_all
    next
      case False
      with half k assms(6) have "d = - 25" by linarith
      moreover have "rne ?m 24 \<le> M" using assms(4) by (intro rne_le_exact) simp
      ultimately show ?thesis by simp
    qed
    moreover have "round_bits 23 149 ?m (e + d) = nat (e + 148) * 2 ^ 23 + rne ?m (nat (- 1 - d))"
    proof -
      have "int ?k = 22 - d" using half by simp
      then show ?thesis using m assms(5,6) by (simp add: round_bits_def Let_def max_absorb1)
    qed
    moreover have "nat (e + 149) = nat (e + 148) + 1" using e0 by simp
    ultimately show ?thesis by simp
  next
    case close
    then have "2 ^ 47 \<le> ?m" using kb(1) by simp
    from order_trans [OF this top] have "(2::nat) ^ 47 \<le> M * (2 ^ 24 - 1)" .
    then have "2 ^ 23 < M" by simp
    obtain N where N: "M = Suc N" using assms(1) by (cases M) simp_all
    have "2 * g < (2 * N + 1) * 16777216" if "g \<le> M * (2 ^ 24 - 1)" for g using that N \<open>2 ^ 23 < M\<close> by simp
    from this [OF top] have "2 * ?m < (2 * N + 1) * 16777216" .
    then have "2 * ?m < (2 * (M - 1) + 1) * 2 ^ 24" using N by simp
    then have "rne ?m 24 \<le> M - 1" by (intro rne_le) simp_all
    moreover have "round_bits 23 149 ?m (e + d) = nat (e + 149) * 2 ^ 23 + rne ?m 24"
      using m close assms(5) by (simp add: round_bits_def Let_def)
    ultimately show ?thesis using assms(1) by simp
  qed
qed

text \<open>A number below an integer is cut to a smaller integer.\<close>

lemma trunc_less:
  assumes "0 < n" "n \<le> 2 ^ 24" "f32_mag b < f32_mag (f32_of_nat n)"
  shows "usize_of_f32 b < n"
proof -
  obtain M where M: "2 ^ 23 \<le> M" "M < 2 ^ 24" "top_bit n \<le> 24" "M * 2 ^ top_bit n = n * 2 ^ 23"
    "f32_mag (f32_of_nat n) = (top_bit n + 126) * 2 ^ 23 + M" by (rule f32_of_nat_exact [OF assms(1,2)])
  let ?k = "top_bit n"
  have mag: "f32_mag b < 255 * 2 ^ 23" using assms(3) M(2,3,5) by simp
  note fin = f32_finite [OF mag]
  have lt: "nat (f32_scale b + 149) * 2 ^ 23 + f32_significand b < (?k + 126) * 2 ^ 23 + M" using assms(3) fin(2) M(5) by simp
  have "trunc_scaled (f32_significand b) (f32_scale b) < n"
  proof (cases "f32_scale b \<le> int ?k - 24")
    case True
    have "(2::nat) ^ 24 \<le> 2 ^ ?k * 2 ^ nat (- f32_scale b)"
      using True power_increasing [of 24 "?k + nat (- f32_scale b)" "2::nat"] by (simp add: power_add)
    also have "\<dots> \<le> n * 2 ^ nat (- f32_scale b)" using top_bit_bounds [OF assms(1)] by simp
    finally have "f32_significand b < n * 2 ^ nat (- f32_scale b)" using fin(3) by simp
    moreover have "f32_scale b \<le> 0" using True M(3) by simp
    ultimately show ?thesis by (cases "f32_scale b = 0") (simp_all add: trunc_scaled_def less_mult_imp_div_less)
  next
    case False
    with lt M(2) fin(6) have sc: "f32_scale b = int ?k - 23" by (auto simp: nat_less_iff)
    with lt have S: "f32_significand b < M" by simp
    show ?thesis
    proof (cases "?k \<le> 22")
      case True
      have "M * 2 ^ ?k = n * 2 ^ (23 - ?k) * 2 ^ ?k" using True M(4) by (simp flip: power_add mult.assoc)
      then have "M = n * 2 ^ (23 - ?k)" by simp
      with True S sc show ?thesis by (simp add: trunc_scaled_def less_mult_imp_div_less nat_diff_distrib)
    next
      case False
      with M(3) have "?k = 23 \<or> ?k = 24" by auto
      with M(4) S sc show ?thesis by (auto simp: trunc_scaled_def)
    qed
  qed
  with mag assms(1) show ?thesis by (simp add: usize_of_f32_def f32_is_nan_def min_less_iff_disj)
qed

text \<open>
  A share \<open>p\<close> strictly between zero and one of \<open>n\<close> things, computed in single precision, is less than \<open>n\<close>.
\<close>

lemma share_less:
  assumes "0 < n" "n \<le> 2 ^ 24" "f32_less 0 p" "f32_less p 0x3F800000"
  shows "usize_of_f32 (f32_mul (f32_of_nat n) p) < n" "f32_ge (f32_mul (f32_of_nat n) p) 0"
proof -
  let ?t = "f32_of_nat n"
  obtain M where M: "2 ^ 23 \<le> M" "M < 2 ^ 24" "top_bit n \<le> 24" "M * 2 ^ top_bit n = n * 2 ^ 23"
    "f32_mag ?t = (top_bit n + 126) * 2 ^ 23 + M" "f32_sign ?t = 0" by (rule f32_of_nat_exact [OF assms(1,2)])
  note p = unit_factor [OF assms(3,4)]
  have t: "f32_mag ?t < 255 * 2 ^ 23" using M(2,3,5) by simp
  obtain r where r: "M = 2 ^ 23 + r" using M(1) le_Suc_ex by blast
  with M(2) have "r < 2 ^ 23" by simp
  moreover have "f32_mag ?t = (top_bit n + 127) * 2 ^ 23 + r" using M(5) r by simp
  ultimately have "f32_exponent ?t = top_bit n + 127" "f32_fraction ?t = r"
    by (simp_all only: f32_exponent_def f32_fraction_def mod_mult_self3 mod_less) simp_all
  then have sig: "f32_significand ?t = M" and sc: "f32_scale ?t = int (top_bit n) - 23" using r by (simp_all add: f32_significand_def f32_scale_def)
  have below: "round_bits 23 149 (M * f32_significand p) (int (top_bit n) - 23 + f32_scale p) < f32_mag ?t"
    using product_bits_below [OF M(1,2) p(5,4), of "int (top_bit n) - 23" "f32_scale p"] p(3) M(5) by (simp add: nat_add_distrib)
  let ?r = "round_bits 23 149 (M * f32_significand p) (int (top_bit n) - 23 + f32_scale p)"
  have "f32_mul ?t p = f32_make 0 ?r"
    using t p(1,2) M(5,6) sig sc by (simp add: f32_mul_def f32_is_nan_def)
  with below t f32_make_mag [of ?r] have "f32_mag (f32_mul ?t p) = ?r" "f32_sign (f32_mul ?t p) = 0" by simp_all
  with below t show "usize_of_f32 (f32_mul ?t p) < n" "f32_ge (f32_mul ?t p) 0"
    using trunc_less [OF assms(1,2)] by (simp_all add: f32_ge_def f32_is_nan_def f32_key_def f32_mag_def [of 0])
qed

end
