(* ===== verification/Serde_Format.thy ===== *)
theory Serde_Format
  imports Path_Framing Net_Messages Rust_Floats
begin

section \<open>Serialisers that come with the system\<close>

text \<open>
  The binary format in which values of any type that supports Serde are written (\<open>serialisation/serde_serialisers.rs\<close>), and the
  serialisers for strings, numbers and the unit (\<open>default_serialisers.rs\<close>).

  The crate \<open>serde\<close> is not part of the repository. A type hands a serialiser a value of Serde's data model, and asks a deserialiser for one
  of a certain shape; \<open>serde_value\<close> and \<open>serde_shape\<close> are these, with the variants for which the source has a method. The lemmas show that
  a value is read back from what was written, whatever follows in the buffer.
\<close>

subsection \<open>Text\<close>

text \<open>Rust's validity of UTF-8 and of scalar values, which \<open>String::from_utf8\<close> and \<open>char::from_u32\<close> check.\<close>

definition is_cont :: "u8 \<Rightarrow> bool" where
  "is_cont b \<longleftrightarrow> 0x80 \<le> b \<and> b \<le> 0xBF"

fun utf8_valid :: "u8 list \<Rightarrow> bool" where
  "utf8_valid [] \<longleftrightarrow> True"
| "utf8_valid [a] \<longleftrightarrow> a < 0x80"
| "utf8_valid (a # b # bs) \<longleftrightarrow>
     (if a < 0x80 then utf8_valid (b # bs)
      else if 0xC2 \<le> a \<and> a \<le> 0xDF then is_cont b \<and> utf8_valid bs
      else if 0xE0 \<le> a \<and> a \<le> 0xEF then
        is_cont b \<and> (a = 0xE0 \<longrightarrow> 0xA0 \<le> b) \<and> (a = 0xED \<longrightarrow> b \<le> 0x9F) \<and>
        (case bs of c # cs \<Rightarrow> is_cont c \<and> utf8_valid cs | [] \<Rightarrow> False)
      else if 0xF0 \<le> a \<and> a \<le> 0xF4 then
        is_cont b \<and> (a = 0xF0 \<longrightarrow> 0x90 \<le> b) \<and> (a = 0xF4 \<longrightarrow> b \<le> 0x8F) \<and>
        (case bs of c # d # ds \<Rightarrow> is_cont c \<and> is_cont d \<and> utf8_valid ds | _ \<Rightarrow> False)
      else False)"

definition is_scalar :: "u32 \<Rightarrow> bool" where
  "is_scalar c \<longleftrightarrow> c < 0xD800 \<or> (0xE000 \<le> c \<and> c \<le> 0x10FFFF)"

text \<open>What the wrapped error of \<open>from_utf8\<close> prints is left open.\<close>

definition from_utf8 :: "u8 list \<Rightarrow> (string, ser_error) rresult" where
  "from_utf8 bs = (if utf8_valid bs then Ok (from_utf8_unchecked bs) else Err (Unknown ''Wrapped error''))"

text \<open>\<open>copy_to_slice\<close> of the next \<open>len\<close> bytes panics when there are fewer; so does allocating a slice that is too long.\<close>

definition copy_bytes :: "nat \<Rightarrow> u8 list \<Rightarrow> (u8 list \<times> u8 list, ser_error) rresult" where
  "copy_bytes len inp = (if len \<le> length inp then Ok (take len inp, drop len inp) else Panic)"

subsection \<open>The data model\<close>

text \<open>Numbers of all widths are words; signed ones are written and read as their two's complement, floats as their bits.\<close>

datatype serde_prim =
    PBool bool | PI8 u8 | PI16 u16 | PI32 u32 | PI64 u64 | PU8 u8 | PU16 u16 | PU32 u32 | PU64 u64
  | PF32 f32 | PF64 f64 | PChar u32 | PStr string | PBytes "u8 list"

datatype prim_shape =
    ShBool | ShI8 | ShI16 | ShI32 | ShI64 | ShU8 | ShU16 | ShU32 | ShU64 | ShF32 | ShF64 | ShChar | ShStr | ShBytes

datatype serde_value =
    VPrim serde_prim
  | VNone
  | VSome serde_value
  | VUnit
  | VUnitStruct
  | VUnitVariant u32
  | VNewtypeStruct serde_value
  | VNewtypeVariant u32 serde_value
  | VSeq "nat option" "serde_value list"
  | VTuple "serde_value list"
  | VTupleStruct "serde_value list"
  | VTupleVariant u32 "serde_value list"
  | VMap "nat option" "(serde_value \<times> serde_value) list"
  | VStruct "serde_value list"
  | VStructVariant u32 "serde_value list"

text \<open>An enum has the message with which its visitor rejects an unknown variant.\<close>

datatype serde_shape =
    SPrim prim_shape
  | SOption serde_shape
  | SUnit
  | SUnitStruct
  | SNewtypeStruct serde_shape
  | SSeq serde_shape
  | STuple "serde_shape list"
  | STupleStruct "serde_shape list"
  | SMap serde_shape serde_shape
  | SStruct "serde_shape list"
  | SEnum string "variant_shape list"
  | SAny
  | SIgnoredAny
and variant_shape = WUnit | WNewtype serde_shape | WTuple "serde_shape list" | WStruct "serde_shape list"

subsection \<open>Writing\<close>

fun serialize_prim :: "buf_ops \<Rightarrow> serde_prim \<Rightarrow> u8 list" where
  "serialize_prim ops (PBool v) = [if v then 1 else 0]"
| "serialize_prim ops (PI8 v) = [v]"
| "serialize_prim ops (PI16 v) = op_put_u16 ops v"
| "serialize_prim ops (PI32 v) = op_put_u32 ops v"
| "serialize_prim ops (PI64 v) = op_put_u64 ops v"
| "serialize_prim ops (PU8 v) = [v]"
| "serialize_prim ops (PU16 v) = op_put_u16 ops v"
| "serialize_prim ops (PU32 v) = op_put_u32 ops v"
| "serialize_prim ops (PU64 v) = op_put_u64 ops v"
| "serialize_prim ops (PF32 v) = op_put_u32 ops v"
| "serialize_prim ops (PF64 v) = op_put_u64 ops v"
| "serialize_prim ops (PChar v) = op_put_u32 ops v"
| "serialize_prim ops (PStr v) = op_put_u64 ops (of_nat (length v)) @ as_bytes v"
| "serialize_prim ops (PBytes v) = op_put_u64 ops (of_nat (length v)) @ v"

definition serialize_seq :: "buf_ops \<Rightarrow> nat option \<Rightarrow> (u8 list, ser_error) rresult" where
  "serialize_seq ops len =
     (case len of
        None \<Rightarrow> Err (InvalidData ''Sequence length must be known ahead of time!'')
      | Some n \<Rightarrow> Ok (op_put_u64 ops (of_nat n)))"

definition serialize_map :: "buf_ops \<Rightarrow> nat option \<Rightarrow> (u8 list, ser_error) rresult" where
  "serialize_map ops len =
     (case len of
        None \<Rightarrow> Err (InvalidData ''Map length must be known ahead of time!'')
      | Some n \<Rightarrow> Ok (op_put_u64 ops (of_nat n)))"

text \<open>One write after the other.\<close>

definition and_then :: "(u8 list, ser_error) rresult \<Rightarrow> (u8 list, ser_error) rresult \<Rightarrow> (u8 list, ser_error) rresult" where
  "and_then r s = rbind r (\<lambda>a. rbind s (\<lambda>b. Ok (a @ b)))"

text \<open>The elements and fields of compound values; the last is for entries of maps.\<close>

function serialize :: "buf_ops \<Rightarrow> serde_value \<Rightarrow> (u8 list, ser_error) rresult"
  and serialize_elements :: "buf_ops \<Rightarrow> serde_value list \<Rightarrow> (u8 list, ser_error) rresult"
  and serialize_entries :: "buf_ops \<Rightarrow> (serde_value \<times> serde_value) list \<Rightarrow> (u8 list, ser_error) rresult" where
  "serialize ops (VPrim p) = Ok (serialize_prim ops p)"
| "serialize ops VNone = Ok [0]"
| "serialize ops (VSome v) = and_then (Ok [1]) (serialize ops v)"
| "serialize ops VUnit = Ok []"
| "serialize ops VUnitStruct = Ok []"
| "serialize ops (VUnitVariant i) = Ok (op_put_u32 ops i)"
| "serialize ops (VNewtypeStruct v) = serialize ops v"
| "serialize ops (VNewtypeVariant i v) = and_then (Ok (op_put_u32 ops i)) (serialize ops v)"
| "serialize ops (VSeq len vs) = and_then (serialize_seq ops len) (serialize_elements ops vs)"
| "serialize ops (VTuple vs) = serialize_elements ops vs"
| "serialize ops (VTupleStruct vs) = serialize_elements ops vs"
| "serialize ops (VTupleVariant i vs) = and_then (Ok (op_put_u32 ops i)) (serialize_elements ops vs)"
| "serialize ops (VMap len es) = and_then (serialize_map ops len) (serialize_entries ops es)"
| "serialize ops (VStruct vs) = serialize_elements ops vs"
| "serialize ops (VStructVariant i vs) = and_then (Ok (op_put_u32 ops i)) (serialize_elements ops vs)"
| "serialize_elements ops [] = Ok []"
| "serialize_elements ops (v # vs) = and_then (serialize ops v) (serialize_elements ops vs)"
| "serialize_entries ops [] = Ok []"
| "serialize_entries ops ((k, v) # es) = and_then (and_then (serialize ops k) (serialize ops v)) (serialize_entries ops es)"
  by pat_completeness auto
termination
  by (relation "measure (\<lambda>x. case x of Inl (_, v) \<Rightarrow> size v | Inr (Inl (_, vs)) \<Rightarrow> size_list size vs
      | Inr (Inr (_, es)) \<Rightarrow> size_list (size_prod size size) es)") auto

subsection \<open>Reading\<close>

type_synonym 'v reader = "u8 list \<Rightarrow> ('v \<times> u8 list, ser_error) rresult"

definition deserialize_string :: "buf_ops \<Rightarrow> string reader" where
  "deserialize_string ops inp =
     rbind (or_panic (op_get_u64 ops inp)) (\<lambda>(len, b1).
     rbind (copy_bytes (unat len) b1) (\<lambda>(data, b2).
     rbind (from_utf8 data) (\<lambda>s. Ok (s, b2))))"

definition deserialize_byte_buf :: "buf_ops \<Rightarrow> u8 list reader" where
  "deserialize_byte_buf ops inp =
     rbind (or_panic (op_get_u64 ops inp)) (\<lambda>(len, b1). copy_bytes (unat len) b1)"

definition deserialize_char :: "buf_ops \<Rightarrow> u32 reader" where
  "deserialize_char ops inp =
     rbind (or_panic (op_get_u32 ops inp)) (\<lambda>(num, b1).
       if is_scalar num then Ok (num, b1)
       else Err (Unknown (''Number '' @ show_dec (unat num) @ '' does not represent a valid char!'')))"

definition read_as :: "('a \<Rightarrow> 'b) \<Rightarrow> ('a \<times> u8 list, ser_error) rresult \<Rightarrow> ('b \<times> u8 list, ser_error) rresult" where
  "read_as f r = rbind r (\<lambda>(a, b). Ok (f a, b))"

fun deserialize_prim :: "buf_ops \<Rightarrow> prim_shape \<Rightarrow> serde_prim reader" where
  "deserialize_prim ops ShBool inp = read_as (\<lambda>n. PBool (n \<noteq> 0)) (get_u8 inp)"
| "deserialize_prim ops ShI8 inp = read_as PI8 (get_u8 inp)"
| "deserialize_prim ops ShI16 inp = read_as PI16 (or_panic (op_get_u16 ops inp))"
| "deserialize_prim ops ShI32 inp = read_as PI32 (or_panic (op_get_u32 ops inp))"
| "deserialize_prim ops ShI64 inp = read_as PI64 (or_panic (op_get_u64 ops inp))"
| "deserialize_prim ops ShU8 inp = read_as PU8 (get_u8 inp)"
| "deserialize_prim ops ShU16 inp = read_as PU16 (or_panic (op_get_u16 ops inp))"
| "deserialize_prim ops ShU32 inp = read_as PU32 (or_panic (op_get_u32 ops inp))"
| "deserialize_prim ops ShU64 inp = read_as PU64 (or_panic (op_get_u64 ops inp))"
| "deserialize_prim ops ShF32 inp = read_as PF32 (or_panic (op_get_u32 ops inp))"
| "deserialize_prim ops ShF64 inp = read_as PF64 (or_panic (op_get_u64 ops inp))"
| "deserialize_prim ops ShChar inp = read_as PChar (deserialize_char ops inp)"
| "deserialize_prim ops ShStr inp = read_as PStr (deserialize_string ops inp)"
| "deserialize_prim ops ShBytes inp = read_as PBytes (deserialize_byte_buf ops inp)"

text \<open>\<open>ElementCounting\<close>: as many elements, or pairs of key and value, as were announced.\<close>

fun next_elements :: "'v reader \<Rightarrow> nat \<Rightarrow> 'v list reader" where
  "next_elements r 0 inp = Ok ([], inp)"
| "next_elements r (Suc n) inp = rbind (r inp) (\<lambda>(v, b1). read_as (Cons v) (next_elements r n b1))"

definition next_entry :: "'v reader \<Rightarrow> 'v reader \<Rightarrow> ('v \<times> 'v) reader" where
  "next_entry rk rv inp = rbind (rk inp) (\<lambda>(k, b1). read_as (Pair k) (rv b1))"

fun deserialize :: "buf_ops \<Rightarrow> serde_shape \<Rightarrow> serde_value reader"
  and deserialize_elements :: "buf_ops \<Rightarrow> serde_shape list \<Rightarrow> serde_value list reader"
  and deserialize_variant :: "buf_ops \<Rightarrow> u32 \<Rightarrow> variant_shape \<Rightarrow> serde_value reader"
  and deserialize_enum :: "buf_ops \<Rightarrow> string \<Rightarrow> u32 \<Rightarrow> variant_shape list \<Rightarrow> nat \<Rightarrow> serde_value reader" where
  "deserialize ops (SPrim p) inp = read_as VPrim (deserialize_prim ops p inp)"
| "deserialize ops (SOption sh) inp =
     rbind (get_u8 inp) (\<lambda>(num, b1). if num = 0 then Ok (VNone, b1) else read_as VSome (deserialize ops sh b1))"
| "deserialize ops SUnit inp = Ok (VUnit, inp)"
| "deserialize ops SUnitStruct inp = Ok (VUnitStruct, inp)"
| "deserialize ops (SNewtypeStruct sh) inp = read_as VNewtypeStruct (deserialize ops sh inp)"
| "deserialize ops (SSeq sh) inp =
     rbind (or_panic (op_get_u64 ops inp)) (\<lambda>(len, b1).
       read_as (VSeq (Some (unat len))) (next_elements (deserialize ops sh) (unat len) b1))"
| "deserialize ops (STuple shs) inp = read_as VTuple (deserialize_elements ops shs inp)"
| "deserialize ops (STupleStruct shs) inp = read_as VTupleStruct (deserialize_elements ops shs inp)"
| "deserialize ops (SMap shk shv) inp =
     rbind (or_panic (op_get_u64 ops inp)) (\<lambda>(len, b1).
       read_as (VMap (Some (unat len))) (next_elements (next_entry (deserialize ops shk) (deserialize ops shv)) (unat len) b1))"
| "deserialize ops (SStruct shs) inp = read_as VStruct (deserialize_elements ops shs inp)"
| "deserialize ops (SEnum msg ws) inp =
     rbind (or_panic (op_get_u32 ops inp)) (\<lambda>(i, b1). deserialize_enum ops msg i ws (unat i) b1)"
| "deserialize ops SAny inp = Panic"
| "deserialize ops SIgnoredAny inp = Panic"
| "deserialize_elements ops [] inp = Ok ([], inp)"
| "deserialize_elements ops (sh # shs) inp =
     rbind (deserialize ops sh inp) (\<lambda>(v, b1). read_as (Cons v) (deserialize_elements ops shs b1))"
| "deserialize_variant ops i WUnit inp = Ok (VUnitVariant i, inp)"
| "deserialize_variant ops i (WNewtype sh) inp = read_as (VNewtypeVariant i) (deserialize ops sh inp)"
| "deserialize_variant ops i (WTuple shs) inp = read_as (VTupleVariant i) (deserialize_elements ops shs inp)"
| "deserialize_variant ops i (WStruct shs) inp = read_as (VStructVariant i) (deserialize_elements ops shs inp)"
| "deserialize_enum ops msg i [] n inp = Err (Unknown msg)"
| "deserialize_enum ops msg i (w # ws) 0 inp = deserialize_variant ops i w inp"
| "deserialize_enum ops msg i (w # ws) (Suc n) inp = deserialize_enum ops msg i ws n inp"

subsection \<open>Values of a shape are read back\<close>

fun shape_of_prim :: "serde_prim \<Rightarrow> prim_shape" where
  "shape_of_prim (PBool _) = ShBool" | "shape_of_prim (PI8 _) = ShI8" | "shape_of_prim (PI16 _) = ShI16"
| "shape_of_prim (PI32 _) = ShI32" | "shape_of_prim (PI64 _) = ShI64" | "shape_of_prim (PU8 _) = ShU8"
| "shape_of_prim (PU16 _) = ShU16" | "shape_of_prim (PU32 _) = ShU32" | "shape_of_prim (PU64 _) = ShU64"
| "shape_of_prim (PF32 _) = ShF32" | "shape_of_prim (PF64 _) = ShF64" | "shape_of_prim (PChar _) = ShChar"
| "shape_of_prim (PStr _) = ShStr" | "shape_of_prim (PBytes _) = ShBytes"

definition has_prim_shape :: "prim_shape \<Rightarrow> serde_prim \<Rightarrow> bool" where
  "has_prim_shape p x \<longleftrightarrow> shape_of_prim x = p \<and>
     (case x of
        PChar c \<Rightarrow> is_scalar c
      | PStr s \<Rightarrow> utf8_valid (as_bytes s) \<and> length s < 2 ^ 64
      | PBytes bs \<Rightarrow> length bs < 2 ^ 64
      | _ \<Rightarrow> True)"

fun has_shape :: "serde_shape \<Rightarrow> serde_value \<Rightarrow> bool"
  and elements_have :: "serde_shape list \<Rightarrow> serde_value list \<Rightarrow> bool"
  and variant_has :: "variant_shape \<Rightarrow> nat \<Rightarrow> serde_value \<Rightarrow> bool"
  and enum_has :: "variant_shape list \<Rightarrow> nat \<Rightarrow> serde_value \<Rightarrow> bool" where
  "has_shape (SPrim p) v = (case v of VPrim x \<Rightarrow> has_prim_shape p x | _ \<Rightarrow> False)"
| "has_shape (SOption sh) v = (case v of VNone \<Rightarrow> True | VSome w \<Rightarrow> has_shape sh w | _ \<Rightarrow> False)"
| "has_shape SUnit v = (v = VUnit)"
| "has_shape SUnitStruct v = (v = VUnitStruct)"
| "has_shape (SNewtypeStruct sh) v = (case v of VNewtypeStruct w \<Rightarrow> has_shape sh w | _ \<Rightarrow> False)"
| "has_shape (SSeq sh) v =
     (case v of VSeq n vs \<Rightarrow> n = Some (length vs) \<and> length vs < 2 ^ 64 \<and> list_all (has_shape sh) vs | _ \<Rightarrow> False)"
| "has_shape (STuple shs) v = (case v of VTuple vs \<Rightarrow> elements_have shs vs | _ \<Rightarrow> False)"
| "has_shape (STupleStruct shs) v = (case v of VTupleStruct vs \<Rightarrow> elements_have shs vs | _ \<Rightarrow> False)"
| "has_shape (SMap shk shv) v =
     (case v of VMap n es \<Rightarrow> n = Some (length es) \<and> length es < 2 ^ 64 \<and> list_all (\<lambda>e. has_shape shk (fst e) \<and> has_shape shv (snd e)) es
      | _ \<Rightarrow> False)"
| "has_shape (SStruct shs) v = (case v of VStruct vs \<Rightarrow> elements_have shs vs | _ \<Rightarrow> False)"
| "has_shape (SEnum msg ws) v = enum_has ws 0 v"
| "has_shape SAny v = False"
| "has_shape SIgnoredAny v = False"
| "elements_have [] vs = (vs = [])"
| "elements_have (sh # shs) vs = (case vs of w # ws \<Rightarrow> has_shape sh w \<and> elements_have shs ws | [] \<Rightarrow> False)"
| "variant_has WUnit i v = (case v of VUnitVariant j \<Rightarrow> unat j = i | _ \<Rightarrow> False)"
| "variant_has (WNewtype sh) i v = (case v of VNewtypeVariant j w \<Rightarrow> unat j = i \<and> has_shape sh w | _ \<Rightarrow> False)"
| "variant_has (WTuple shs) i v = (case v of VTupleVariant j vs \<Rightarrow> unat j = i \<and> elements_have shs vs | _ \<Rightarrow> False)"
| "variant_has (WStruct shs) i v = (case v of VStructVariant j vs \<Rightarrow> unat j = i \<and> elements_have shs vs | _ \<Rightarrow> False)"
| "enum_has [] i v = False"
| "enum_has (w # ws) i v = (variant_has w i v \<or> enum_has ws (Suc i) v)"

text \<open>A value that is written, and read back from the front of any buffer.\<close>

definition travels :: "(u8 list, ser_error) rresult \<Rightarrow> 'v reader \<Rightarrow> 'v \<Rightarrow> bool" where
  "travels w r v \<longleftrightarrow> (\<exists>bs. w = Ok bs \<and> (\<forall>rest. r (bs @ rest) = Ok (v, rest)))"

lemma travels_and_then:
  assumes "travels w1 r1 a" "travels w2 r2 b"
  shows "travels (and_then w1 w2) (\<lambda>inp. rbind (r1 inp) (\<lambda>(x, b1). read_as (f x) (r2 b1))) (f a b)"
  using assms by (fastforce simp: travels_def and_then_def read_as_def)

lemma travels_read_as: "travels w r v \<Longrightarrow> travels w (\<lambda>inp. read_as f (r inp)) (f v)"
  by (auto simp: travels_def read_as_def)

lemma get_u8_append: "get_u8 ([b] @ rest) = Ok (b, rest)"
  by (simp add: get_u8_def)

lemma copy_append: "copy_bytes (length bs) (bs @ rest) = Ok (bs, rest)"
  by (simp add: copy_bytes_def)

lemma unat_of_nat_64: "n < 2 ^ 64 \<Longrightarrow> unat (of_nat n :: u64) = n"
  by (simp add: unat_of_nat take_bit_eq_mod)

lemma travels_elements:
  assumes "list_all (\<lambda>v. travels (w v) r v) vs"
  shows "travels (foldr (\<lambda>v. and_then (w v)) vs (Ok [])) (next_elements r (length vs)) vs"
  using assms
proof (induction vs)
  case (Cons v vs)
  from travels_and_then [of "w v" r v "foldr (\<lambda>v. and_then (w v)) vs (Ok [])" "next_elements r (length vs)" vs Cons] Cons
  show ?case by (simp add: travels_def)
qed (simp add: travels_def)

lemma serialize_elements_foldr: "serialize_elements ops vs = foldr (\<lambda>v. and_then (serialize ops v)) vs (Ok [])"
  by (induction vs) simp_all

lemma serialize_entries_foldr:
  "serialize_entries ops es = foldr (\<lambda>e. and_then (and_then (serialize ops (fst e)) (serialize ops (snd e)))) es (Ok [])"
  by (induction es) (auto simp: prod.case_eq_if)

context bytes_api begin

lemma travels_u32: "travels (Ok (op_put_u32 ops i)) (\<lambda>inp. or_panic (op_get_u32 ops inp)) i"
  by (simp add: travels_def)

lemma travels_u64: "travels (Ok (op_put_u64 ops i)) (\<lambda>inp. or_panic (op_get_u64 ops inp)) i"
  by (simp add: travels_def)

lemma prim_travels: "has_prim_shape p x \<Longrightarrow> travels (Ok (serialize_prim ops x)) (deserialize_prim ops p) x"
  by (cases x)
    (auto simp: has_prim_shape_def travels_def read_as_def get_u8_append [simplified] deserialize_char_def deserialize_string_def deserialize_byte_buf_def
      unat_of_nat_64 copy_append from_utf8_def simp flip: length_as_bytes simp del: length_as_bytes)

end

context bytes_api begin

lemma tagged_travels:
  assumes "travels p (f j) v"
  shows "travels (and_then (Ok (op_put_u32 ops j)) p) (\<lambda>inp. rbind (or_panic (op_get_u32 ops inp)) (\<lambda>(i, b1). f i b1)) v"
  using assms by (auto simp: travels_def and_then_def)

lemma counted_travels:
  assumes "travels p (next_elements r (length vs)) vs" "length vs < 2 ^ 64"
  shows "travels (and_then (Ok (op_put_u64 ops (of_nat (length vs)))) p)
    (\<lambda>inp. rbind (or_panic (op_get_u64 ops inp)) (\<lambda>(len, b1). read_as (f (unat len)) (next_elements r (unat len) b1))) (f (length vs) vs)"
  using assms by (auto simp: travels_def and_then_def read_as_def unat_of_nat_64)

lemma values_travel:
  "has_shape sh v \<Longrightarrow> travels (serialize ops v) (deserialize ops sh) v"
  "elements_have shs vs \<Longrightarrow> travels (serialize_elements ops vs) (deserialize_elements ops shs) vs"
  "variant_has w i v \<Longrightarrow> \<exists>j p. unat j = i \<and> serialize ops v = and_then (Ok (op_put_u32 ops j)) p \<and> travels p (deserialize_variant ops j w) v"
  "enum_has ws i v \<Longrightarrow> \<exists>j p. i \<le> unat j \<and> serialize ops v = and_then (Ok (op_put_u32 ops j)) p \<and>
     (\<forall>msg. travels p (deserialize_enum ops msg j ws (unat j - i)) v)"
proof (induction sh v and shs vs and w i v and ws i v rule: has_shape_elements_have_variant_has_enum_has.induct)
  case (1 p v)
  then show ?case using prim_travels by (auto split: serde_value.splits) (simp add: travels_def read_as_def)
next
  case (2 sh v)
  then show ?case by (auto split: serde_value.splits simp: travels_def read_as_def and_then_def get_u8_append [simplified])
next
  case (5 sh v)
  then show ?case by (auto split: serde_value.splits simp: travels_def read_as_def)
next
  case (6 sh v)
  then obtain vs where v: "v = VSeq (Some (length vs)) vs" "length vs < 2 ^ 64" and t: "list_all (\<lambda>v. travels (serialize ops v) (deserialize ops sh) v) vs"
    by (auto split: serde_value.splits simp: list_all_iff)
  from counted_travels [OF travels_elements [OF t] v(2), of "\<lambda>n. VSeq (Some n)"] v(1) show ?case
    by (simp add: serialize_seq_def serialize_elements_foldr travels_def)
next
  case (7 shs v)
  then show ?case by (auto split: serde_value.splits simp: travels_def read_as_def)
next
  case (8 shs v)
  then show ?case by (auto split: serde_value.splits simp: travels_def read_as_def)
next
  case (9 shk shv v)
  then obtain es where v: "v = VMap (Some (length es)) es" "length es < 2 ^ 64"
    and kv: "\<forall>e \<in> set es. travels (serialize ops (fst e)) (deserialize ops shk) (fst e) \<and> travels (serialize ops (snd e)) (deserialize ops shv) (snd e)"
    by (auto split: serde_value.splits simp: list_all_iff)
  have t: "list_all (\<lambda>e. travels (and_then (serialize ops (fst e)) (serialize ops (snd e))) (next_entry (deserialize ops shk) (deserialize ops shv)) e) es"
    unfolding list_all_iff
  proof
    fix e
    assume "e \<in> set es"
    with kv travels_and_then [of "serialize ops (fst e)" "deserialize ops shk" "fst e" "serialize ops (snd e)" "deserialize ops shv" "snd e" Pair]
    show "travels (and_then (serialize ops (fst e)) (serialize ops (snd e))) (next_entry (deserialize ops shk) (deserialize ops shv)) e"
      by (simp add: travels_def next_entry_def)
  qed
  from counted_travels [OF travels_elements [OF t] v(2), of "\<lambda>n. VMap (Some n)"] v(1) show ?case
    by (simp add: serialize_map_def serialize_entries_foldr travels_def)
next
  case (10 shs v)
  then show ?case by (auto split: serde_value.splits simp: travels_def read_as_def)
next
  case (11 msg ws v)
  then obtain j p where p: "serialize ops v = and_then (Ok (op_put_u32 ops j)) p" "travels p (deserialize_enum ops msg j ws (unat j)) v" by fastforce
  from tagged_travels [of p "\<lambda>i. deserialize_enum ops msg i ws (unat i)" j v] p show ?case by (simp add: travels_def)
next
  case (15 sh shs vs)
  then obtain x xs where vs: "vs = x # xs" "travels (serialize ops x) (deserialize ops sh) x" "travels (serialize_elements ops xs) (deserialize_elements ops shs) xs"
    by (auto split: list.splits)
  from travels_and_then [OF vs(2,3), of Cons] vs(1) show ?case by (simp add: travels_def)
next
  case (16 i v)
  then obtain j where "v = VUnitVariant j" "unat j = i" by (auto split: serde_value.splits)
  then show ?case by (intro exI [of _ j] exI [of _ "Ok []"]) (simp add: travels_def and_then_def)
next
  case (17 sh i v)
  then obtain j x where "v = VNewtypeVariant j x" "unat j = i" "travels (serialize ops x) (deserialize ops sh) x" by (auto split: serde_value.splits)
  then show ?case by (intro exI [of _ j] exI [of _ "serialize ops x"]) (auto simp: travels_def read_as_def)
next
  case (18 shs i v)
  then obtain j xs where "v = VTupleVariant j xs" "unat j = i" "travels (serialize_elements ops xs) (deserialize_elements ops shs) xs" by (auto split: serde_value.splits)
  then show ?case by (intro exI [of _ j] exI [of _ "serialize_elements ops xs"]) (auto simp: travels_def read_as_def)
next
  case (19 shs i v)
  then obtain j xs where "v = VStructVariant j xs" "unat j = i" "travels (serialize_elements ops xs) (deserialize_elements ops shs) xs" by (auto split: serde_value.splits)
  then show ?case by (intro exI [of _ j] exI [of _ "serialize_elements ops xs"]) (auto simp: travels_def read_as_def)
next
  case (21 w ws i v)
  from 21(3) consider "variant_has w i v" | "enum_has ws (Suc i) v" by auto
  then show ?case
  proof cases
    case 1
    with 21(1) obtain j p where "unat j = i" "serialize ops v = and_then (Ok (op_put_u32 ops j)) p" "travels p (deserialize_variant ops j w) v" by blast
    then show ?thesis by (intro exI [of _ j] exI [of _ p]) (auto simp: travels_def)
  next
    case 2
    with 21(2) obtain j p where j: "Suc i \<le> unat j" "serialize ops v = and_then (Ok (op_put_u32 ops j)) p"
      "\<forall>msg. travels p (deserialize_enum ops msg j ws (unat j - Suc i)) v" by blast
    then have "unat j - i = Suc (unat j - Suc i)" by simp
    with j show ?thesis by (intro exI [of _ j] exI [of _ p]) (auto simp: travels_def)
  qed
qed (auto simp: travels_def)

end

text \<open>
  C28: Every value of Serde's data model is read back by a deserialiser for its shape, whatever follows it in the buffer: numbers, floats, valid texts and characters, options, structs,
  tuples, enums with all kinds of variants, and sequences and maps of known length, nested arbitrarily.
\<close>

theorem serde_round_trip:
  assumes "bytes_documented ops" "has_shape sh v"
  shows "\<exists>bs. serialize ops v = Ok bs \<and> deserialize ops sh (bs @ rest) = Ok (v, rest)"
  using bytes_api.values_travel(1) [OF bytes_api.intro [OF assms(1)] assms(2)] by (auto simp: travels_def)

theorem serde_round_trip_witness:
  "\<exists>bs. serialize be_buf_ops (VStruct [VPrim (PU32 1), VSeq (Some 2) [VPrim (PStr ''a''), VPrim (PStr ''b'')], VTupleVariant 2 [VPrim (PU32 1), VNone]]) = Ok bs \<and>
     deserialize be_buf_ops (SStruct [SPrim ShU32, SSeq (SPrim ShStr), SEnum ''unknown variant'' [WUnit, WNewtype (SPrim ShU32), WTuple [SPrim ShU32, SOption SUnit]]])
       (bs @ [9]) = Ok (VStruct [VPrim (PU32 1), VSeq (Some 2) [VPrim (PStr ''a''), VPrim (PStr ''b'')], VTupleVariant 2 [VPrim (PU32 1), VNone]], [9])"
  by (rule serde_round_trip [OF be_buf_ops_documented]) (simp add: has_prim_shape_def as_bytes_def)

subsection \<open>The default serialisers\<close>

definition UNIQUE_PATH_ID :: u64 where "UNIQUE_PATH_ID = 2"
definition NAMED_PATH_ID :: u64 where "NAMED_PATH_ID = 3"
definition SYSTEM_PATH_ID :: u64 where "SYSTEM_PATH_ID = 5"
definition ACTOR_PATH_ID :: u64 where "ACTOR_PATH_ID = 6"
definition STR_ID :: u64 where "STR_ID = 6"
definition U64_ID :: u64 where "U64_ID = 7"
definition UNIT_ID :: u64 where "UNIT_ID = 8"

text \<open>How a value becomes the local one (\<open>Box<dyn Any>\<close>) is an argument.\<close>

definition string_serialisable :: "buf_ops \<Rightarrow> (string \<Rightarrow> 'v) \<Rightarrow> string \<Rightarrow> 'v serialisable" where
  "string_serialisable ops any s =
     \<lparr>s_ser_id = STR_ID, s_size_hint = Some (length s + 8), s_slices = [op_put_u64 ops (of_nat (length s)), as_bytes s],
      s_error = None, s_local = Some (any s)\<rparr>"

definition string_deserialise :: "buf_ops \<Rightarrow> string deserialiser" where
  "string_deserialise ops =
     \<lparr>d_ser_id = STR_ID, d_deserialise = (\<lambda>inp. rbind (deserialize_string ops inp) (\<lambda>(s, _). Ok s))\<rparr>"

definition u64_serialisable :: "buf_ops \<Rightarrow> (u64 \<Rightarrow> 'v) \<Rightarrow> u64 \<Rightarrow> 'v serialisable" where
  "u64_serialisable ops any n =
     \<lparr>s_ser_id = U64_ID, s_size_hint = Some 8, s_slices = [op_put_u64 ops n], s_error = None, s_local = Some (any n)\<rparr>"

definition u64_deserialise :: "buf_ops \<Rightarrow> u64 deserialiser" where
  "u64_deserialise ops =
     \<lparr>d_ser_id = U64_ID, d_deserialise = (\<lambda>inp. rbind (or_panic (op_get_u64 ops inp)) (\<lambda>(n, _). Ok n))\<rparr>"

definition unit_serialisable :: "(unit \<Rightarrow> 'v) \<Rightarrow> 'v serialisable" where
  "unit_serialisable any =
     \<lparr>s_ser_id = UNIT_ID, s_size_hint = Some 0, s_slices = [], s_error = None, s_local = Some (any ())\<rparr>"

definition unit_deserialise :: "unit deserialiser" where
  "unit_deserialise = \<lparr>d_ser_id = UNIT_ID, d_deserialise = (\<lambda>_. Ok ())\<rparr>"

definition actor_path_deserialiser :: "bool \<Rightarrow> buf_ops \<Rightarrow> actor_path deserialiser" where
  "actor_path_deserialiser dbg ops =
     \<lparr>d_ser_id = ACTOR_PATH_ID, d_deserialise = (\<lambda>inp. rbind (actor_path_deserialise dbg ops inp) (\<lambda>(p, _). Ok p))\<rparr>"

text \<open>The message that carries what a serialiser has written.\<close>

definition serialised_message :: "'v serialisable \<Rightarrow> actor_path \<Rightarrow> actor_path \<Rightarrow> 'v net_message" where
  "serialised_message ser src dst =
     \<lparr>nm_sender = src, nm_receiver = dst, nm_data = \<lparr>nd_ser_id = s_ser_id ser, nd_data = HS_Serialised (concat (s_slices ser))\<rparr>, nm_session = None\<rparr>"

text \<open>
  Strings, numbers and the unit are unpacked as they were sent, with their own deserialiser; the size hints are exact.
\<close>

lemma default_messages_unpack:
  assumes "bytes_documented ops" "utf8_valid (as_bytes s)" "length s < 2 ^ 64"
  shows "try_deserialise cast (string_deserialise ops) (serialised_message (string_serialisable ops any s) src dst) = Ok s"
    "try_deserialise cast' (u64_deserialise ops) (serialised_message (u64_serialisable ops any' n) src dst) = Ok n"
    "try_deserialise cast'' unit_deserialise (serialised_message (unit_serialisable any'') src dst) = Ok ()"
    "s_size_hint (string_serialisable ops any s) = Some (length (concat (s_slices (string_serialisable ops any s))))"
    "s_size_hint (u64_serialisable ops any' n) = Some (length (concat (s_slices (u64_serialisable ops any' n))))"
proof -
  note api = bytes_api.get_put_u64 [OF bytes_api.intro [OF assms(1)]] bytes_api.put_lengths [OF bytes_api.intro [OF assms(1)]]
  have "copy_bytes (length s) (as_bytes s) = Ok (as_bytes s, [])" by (simp add: copy_bytes_def)
  then show "try_deserialise cast (string_deserialise ops) (serialised_message (string_serialisable ops any s) src dst) = Ok s"
    using assms(2,3) api(1) by (simp add: try_deserialise_def serialised_message_def string_serialisable_def string_deserialise_def
        deserialize_string_def unat_of_nat_64 from_utf8_def)
  show "try_deserialise cast' (u64_deserialise ops) (serialised_message (u64_serialisable ops any' n) src dst) = Ok n"
    using api(1) [of n "[]"] by (simp add: try_deserialise_def serialised_message_def u64_serialisable_def u64_deserialise_def)
  show "try_deserialise cast'' unit_deserialise (serialised_message (unit_serialisable any'') src dst) = Ok ()"
    by (simp add: try_deserialise_def serialised_message_def unit_serialisable_def unit_deserialise_def)
  show "s_size_hint (string_serialisable ops any s) = Some (length (concat (s_slices (string_serialisable ops any s))))"
    "s_size_hint (u64_serialisable ops any' n) = Some (length (concat (s_slices (u64_serialisable ops any' n))))"
    using api by (simp_all add: string_serialisable_def u64_serialisable_def)
qed

lemma put_15: "op_put_u64 be_buf_ops 15 = [0, 0, 0, 0, 0, 0, 0, 15]"
proof -
  have "be_bytes (Suc (Suc (Suc (Suc (Suc (Suc (Suc (Suc 0)))))))) 15 = [0, 0, 0, 0, 0, 0, 0, 15]" by simp
  moreover have "Suc (Suc (Suc (Suc (Suc (Suc (Suc (Suc 0))))))) = 8" by simp
  ultimately have "be_bytes 8 15 = [0, 0, 0, 0, 0, 0, 0, 15]" by metis
  then show ?thesis using be_buf_ops_documented by (simp add: bytes_documented_def)
qed

text \<open>
  The ids of strings and of actor paths are the same. A message with a string of fifteen characters is therefore unpacked by the deserialiser for
  actor paths, and as a valid path: the bytes of the length are taken for header, address and port, the rest for the id.
\<close>

lemma string_taken_for_actor_path:
  "d_ser_id (actor_path_deserialiser dbg ops) = s_ser_id (string_serialisable ops any s)"
  "\<exists>up. try_deserialise (\<lambda>_. None) (actor_path_deserialiser True be_buf_ops)
     (serialised_message (string_serialisable be_buf_ops any ''Hello, Kompact!'') src dst) = Ok (Unique up)"
proof -
  show "d_ser_id (actor_path_deserialiser dbg ops) = s_ser_id (string_serialisable ops any s)"
    by (simp add: actor_path_deserialiser_def string_serialisable_def ACTOR_PATH_ID_def STR_ID_def)
  have "length (as_bytes ''Hello, Kompact!'') = 15" by simp
  then have "\<exists>up. actor_path_deserialise True be_buf_ops (op_put_u64 be_buf_ops 15 @ as_bytes ''Hello, Kompact!'') = Ok (Unique up, [])"
    unfolding actor_path_deserialise_def put_15 append_Cons append_Nil zero_system rbind.simps prod.case by simp
  then show "\<exists>up. try_deserialise (\<lambda>_. None) (actor_path_deserialiser True be_buf_ops)
     (serialised_message (string_serialisable be_buf_ops any ''Hello, Kompact!'') src dst) = Ok (Unique up)"
    by (auto simp: try_deserialise_def serialised_message_def string_serialisable_def actor_path_deserialiser_def ACTOR_PATH_ID_def STR_ID_def)
qed

subsection \<open>Actor paths as Serde values\<close>

text \<open>An actor path is the byte string of its own wire format; the text of a wrapped error is left open.\<close>

definition path_serialize :: "buf_ops \<Rightarrow> actor_path \<Rightarrow> (serde_value, ser_error) rresult" where
  "path_serialize ops p =
     rbind (rmap_err (\<lambda>_. Unknown ''custom'') (actor_path_serialise ops p)) (\<lambda>bs. Ok (VPrim (PBytes bs)))"

definition visit_byte_buf :: "bool \<Rightarrow> buf_ops \<Rightarrow> u8 list \<Rightarrow> (actor_path, ser_error) rresult" where
  "visit_byte_buf dbg ops value =
     rbind (rmap_err (\<lambda>_. Unknown ''custom'') (actor_path_deserialise dbg ops value)) (\<lambda>(p, _). Ok p)"

definition path_deserialize :: "bool \<Rightarrow> buf_ops \<Rightarrow> actor_path reader" where
  "path_deserialize dbg ops inp =
     rbind (deserialize_byte_buf ops inp) (\<lambda>(value, rest). rbind (visit_byte_buf dbg ops value) (\<lambda>p. Ok (p, rest)))"

text \<open>A path that survives its wire format survives Serde, and what follows it in the buffer is left alone even if the path's own reader leaves bytes over.\<close>

lemma paths_travel:
  assumes "bytes_documented ops" "actor_path_serialise ops p = Ok bs" "actor_path_deserialise dbg ops bs = Ok (p, left)" "length bs < 2 ^ 64"
  shows "\<exists>v w. path_serialize ops p = Ok v \<and> serialize ops v = Ok w \<and> path_deserialize dbg ops (w @ rest) = Ok (p, rest)"
proof -
  have "travels (serialize ops (VPrim (PBytes bs))) (deserialize_byte_buf ops) bs"
    using bytes_api.get_put_u64 [OF bytes_api.intro [OF assms(1)]] assms(4)
    by (simp add: travels_def deserialize_byte_buf_def unat_of_nat_64 copy_append)
  with assms(2,3) show ?thesis by (auto simp: path_serialize_def travels_def path_deserialize_def visit_byte_buf_def)
qed

end
