(* ===== verification/Config_Tree.thy ===== *)
theory Config_Tree
  imports Path_Text Rust_Floats
begin

section \<open>Configuration documents\<close>

text \<open>
  The module \<open>core/src/config\<close>: the tree of configuration values, lookups that remember the path they took, merging, inserting
  at a dotted key, typed entries and the converters between values and types. Hash maps are association lists, an \<open>i64\<close> is a word that
  is read as a signed number. The \<open>toml\<close> crate's values are a datatype with the variants the source distinguishes, its datetimes are a type variable; its parser,
  the crates \<open>byte_unit\<close> and \<open>humantime\<close>, and the unspecified texts of \<open>{:?}\<close> and \<open>type_name\<close> are arguments.

  The lemmas show that a dotted path and a chain of single steps are the same lookup, errors included, what an insertion and a merge
  change, and that every converter reads back what it writes.
\<close>

subsection \<open>Values\<close>

datatype 'd config_value =
    CString string
  | CInteger u64
  | CReal f64
  | CBoolean bool
  | CDateTime 'd
  | CArray "'d config_value list"
  | CTable "(string \<times> 'd config_value) list"

type_synonym 'd config_table = "(string \<times> 'd config_value) list"

record 'd config =
  root :: "'d config_table"

datatype 'd toml_value =
    TString string
  | TInteger u64
  | TFloat f64
  | TBoolean bool
  | TDatetime 'd
  | TArray "'d toml_value list"
  | TTable "(string \<times> 'd toml_value) list"

text \<open>
  What is used of other crates and of unspecified standard texts. A \<open>Duration\<close> is its number of nanoseconds.
\<close>

record 'd config_libs =
  lib_parse_toml :: "string \<Rightarrow> (string \<times> 'd toml_value) list option"
  lib_print_toml :: "'d toml_value \<Rightarrow> string"
  lib_parse_bytes :: "string \<Rightarrow> u64 option"
  lib_parse_duration :: "string \<Rightarrow> nat option"
  lib_format_duration :: "nat \<Rightarrow> string"
  lib_debug :: "'d config_value \<Rightarrow> string"
  lib_type_name :: "string \<Rightarrow> string"

fun from_toml :: "'d toml_value \<Rightarrow> 'd config_value" where
  "from_toml (TString v) = CString v"
| "from_toml (TInteger v) = CInteger v"
| "from_toml (TFloat v) = CReal v"
| "from_toml (TBoolean v) = CBoolean v"
| "from_toml (TDatetime v) = CDateTime v"
| "from_toml (TArray vs) = CArray (map from_toml vs)"
| "from_toml (TTable vs) = CTable (map (\<lambda>(k, v). (k, from_toml v)) vs)"

fun to_toml_value :: "'d config_value \<Rightarrow> 'd toml_value" where
  "to_toml_value (CString v) = TString v"
| "to_toml_value (CInteger v) = TInteger v"
| "to_toml_value (CReal v) = TFloat v"
| "to_toml_value (CBoolean v) = TBoolean v"
| "to_toml_value (CDateTime v) = TDatetime v"
| "to_toml_value (CArray vs) = TArray (map to_toml_value vs)"
| "to_toml_value (CTable vs) = TTable (map (\<lambda>(k, v). (k, to_toml_value v)) vs)"

definition to_toml_fragment :: "'d config_libs \<Rightarrow> 'd config_value \<Rightarrow> string" where
  "to_toml_fragment L v = lib_print_toml L (to_toml_value v)"

definition config_new :: "'d config" where
  "config_new = \<lparr>root = []\<rparr>"

definition from_toml_table :: "(string \<times> 'd toml_value) list \<Rightarrow> 'd config" where
  "from_toml_table t = \<lparr>root = map (\<lambda>(k, v). (k, from_toml v)) t\<rparr>"

text \<open>Accessors of a value.\<close>

fun value_as_string :: "'d config_value \<Rightarrow> string option" where
  "value_as_string (CString v) = Some v"
| "value_as_string _ = None"

fun value_as_i64 :: "'d config_value \<Rightarrow> u64 option" where
  "value_as_i64 (CInteger v) = Some v"
| "value_as_i64 _ = None"

fun value_as_f64 :: "'d config_value \<Rightarrow> f64 option" where
  "value_as_f64 (CInteger v) = Some (f64_of_i64 v)"
| "value_as_f64 (CReal v) = Some v"
| "value_as_f64 _ = None"

fun value_as_bool :: "'d config_value \<Rightarrow> bool option" where
  "value_as_bool (CBoolean v) = Some v"
| "value_as_bool _ = None"

fun value_as_datetime :: "'d config_value \<Rightarrow> 'd option" where
  "value_as_datetime (CDateTime v) = Some v"
| "value_as_datetime _ = None"

fun value_as_bytes :: "'d config_libs \<Rightarrow> 'd config_value \<Rightarrow> u64 option" where
  "value_as_bytes L (CInteger v) = (if sint v \<ge> 0 then Some v else None)"
| "value_as_bytes L (CString v) = lib_parse_bytes L v"
| "value_as_bytes L _ = None"

fun value_as_duration :: "'d config_libs \<Rightarrow> 'd config_value \<Rightarrow> nat option" where
  "value_as_duration L (CString v) = lib_parse_duration L v"
| "value_as_duration L _ = None"

fun value_as_array :: "'d config_value \<Rightarrow> 'd config_value list option" where
  "value_as_array (CArray vs) = Some vs"
| "value_as_array _ = None"

fun value_type_name :: "'d config_value \<Rightarrow> string" where
  "value_type_name (CString _) = ''string''"
| "value_type_name (CInteger _) = ''integer''"
| "value_type_name (CReal _) = ''float''"
| "value_type_name (CBoolean _) = ''boolean''"
| "value_type_name (CDateTime _) = ''datetime''"
| "value_type_name (CArray _) = ''array''"
| "value_type_name (CTable _) = ''table''"

text \<open>Indexing with \<open>[]\<close> panics where there is nothing.\<close>

definition config_index :: "'d config \<Rightarrow> string \<Rightarrow> ('d config_value, unit) rresult" where
  "config_index c key = or_panic (map_of (root c) key)"

fun value_index_key :: "'d config_value \<Rightarrow> string \<Rightarrow> ('d config_value, unit) rresult" where
  "value_index_key (CTable vs) key = or_panic (map_of vs key)"
| "value_index_key _ key = Panic"

fun value_index :: "'d config_value \<Rightarrow> nat \<Rightarrow> ('d config_value, unit) rresult" where
  "value_index (CArray vs) i = (if i < length vs then Ok (vs ! i) else Panic)"
| "value_index _ i = Panic"

subsection \<open>Merging and inserting\<close>

text \<open>\<open>ConfigValue::merge\<close> and \<open>merge_tables\<close>: tables are merged key by key, everything else is replaced.\<close>

function merge_value :: "'d config_value \<Rightarrow> 'd config_value \<Rightarrow> 'd config_value"
  and merge_tables :: "'d config_table \<Rightarrow> 'd config_table \<Rightarrow> 'd config_table" where
  "merge_value self other =
     (case self of
        CTable current \<Rightarrow> (case other of CTable next_t \<Rightarrow> CTable (merge_tables current next_t) | _ \<Rightarrow> other)
      | _ \<Rightarrow> other)"
| "merge_tables current [] = current"
| "merge_tables current ((key, value) # next_t) =
     merge_tables
       (case map_of current key of
          Some existing \<Rightarrow> AList.update key (merge_value existing value) current
        | None \<Rightarrow> AList.update key value current) next_t"
  by pat_completeness auto
termination
  by (relation "measure (\<lambda>x. case x of Inl (_, v) \<Rightarrow> 2 * size v | Inr (_, t) \<Rightarrow> 2 * size_list (size_prod (\<lambda>_. 0) size) t + 1)") auto

definition config_merge :: "'d config \<Rightarrow> 'd config \<Rightarrow> 'd config" where
  "config_merge c other = c\<lparr>root := merge_tables (root c) (root other)\<rparr>"

fun insert_segments :: "'d config_table \<Rightarrow> string list \<Rightarrow> 'd config_value \<Rightarrow> 'd config_table" where
  "insert_segments current [] value = current"
| "insert_segments current [s] value =
     (case map_of current s of
        Some existing \<Rightarrow> AList.update s (merge_value existing value) current
      | None \<Rightarrow> AList.update s value current)"
| "insert_segments current (s # t # rest) value =
     (let child = (case map_of current s of None \<Rightarrow> CTable [] | Some c \<Rightarrow> c);
          values = (case child of CTable vs \<Rightarrow> vs | _ \<Rightarrow> [])
      in AList.update s (CTable (insert_segments values (t # rest) value)) current)"

definition CONF_SEP :: char where
  "CONF_SEP = CHR ''.''"

definition insert_value :: "'d config \<Rightarrow> string \<Rightarrow> 'd config_value \<Rightarrow> 'd config" where
  "insert_value c key value = c\<lparr>root := insert_segments (root c) (split_on CONF_SEP key) value\<rparr>"

subsection \<open>Lookups\<close>

datatype path_segment = KeySegment string | IndexSegment nat

text \<open>Why a lookup failed, and a lookup with the path it took; a child refers to the lookup it was made of.\<close>

datatype lookup_error_kind =
    LookupInvalidPath
  | LookupMissingKey
  | LookupMissingIndex
  | LookupInvalidKeyAccess string string
  | LookupInvalidIndexAccess nat string

datatype 'd config_lookup =
    LookupValue "'d config_value" "'d lookup_path_source"
  | LookupError lookup_error_kind "'d lookup_path_source"
and 'd lookup_path_source =
    FullPath string
  | Child "'d config_lookup" path_segment bool

fun segment_display :: "path_segment \<Rightarrow> string" where
  "segment_display (KeySegment key) = key"
| "segment_display (IndexSegment i) = ''['' @ show_dec i @ '']''"

fun lookup_display :: "'d config_lookup \<Rightarrow> string" and path_source_display :: "'d lookup_path_source \<Rightarrow> string" where
  "lookup_display (LookupValue v p) = path_source_display p"
| "lookup_display (LookupError k p) = path_source_display p"
| "path_source_display (FullPath p) = p"
| "path_source_display (Child parent seg sep) =
     lookup_display parent @ (if sep then [CONF_SEP] else []) @ segment_display seg"

definition from_full_path :: "string \<Rightarrow> 'd config_value \<Rightarrow> 'd config_lookup" where
  "from_full_path path value = LookupValue value (FullPath path)"

definition error_path :: "string \<Rightarrow> lookup_error_kind \<Rightarrow> 'd config_lookup" where
  "error_path path kind = LookupError kind (FullPath path)"

fun lookup_path :: "'d config_lookup \<Rightarrow> 'd lookup_path_source" where
  "lookup_path (LookupValue _ p) = p"
| "lookup_path (LookupError _ p) = p"

definition is_empty_path :: "'d config_lookup \<Rightarrow> bool" where
  "is_empty_path l \<longleftrightarrow> lookup_path l = FullPath []"

definition config_get :: "'d config \<Rightarrow> string \<Rightarrow> 'd config_lookup" where
  "config_get c key =
     (case map_of (root c) key of
        Some value \<Rightarrow> from_full_path key value
      | None \<Rightarrow> error_path key LookupMissingKey)"

fun select_loop :: "string \<Rightarrow> 'd config_value \<Rightarrow> string list \<Rightarrow> 'd config_lookup" where
  "select_loop path value [] = from_full_path path value"
| "select_loop path value (segment # segments) =
     (if segment = [] then error_path path LookupInvalidPath
      else case value of
             CTable vs \<Rightarrow> (case map_of vs segment of
                 Some v \<Rightarrow> select_loop path v segments
               | None \<Rightarrow> error_path path LookupMissingKey)
           | _ \<Rightarrow> error_path path (LookupInvalidKeyAccess segment (value_type_name value)))"

definition select :: "'d config \<Rightarrow> string \<Rightarrow> 'd config_lookup" where
  "select c path =
     (case split_on CONF_SEP path of
        [] \<Rightarrow> error_path path LookupInvalidPath
      | first # segments \<Rightarrow>
          if first = [] then error_path path LookupInvalidPath
          else case map_of (root c) first of
                 None \<Rightarrow> error_path path LookupMissingKey
               | Some value \<Rightarrow> select_loop path value segments)"

definition lookup_get :: "'d config_lookup \<Rightarrow> string \<Rightarrow> 'd config_lookup" where
  "lookup_get l key =
     (let path = Child l (KeySegment key) (\<not> is_empty_path l) in
      case l of
        LookupValue value _ \<Rightarrow>
          (case value of
             CTable vs \<Rightarrow> (case map_of vs key of
                 Some v \<Rightarrow> LookupValue v path
               | None \<Rightarrow> LookupError LookupMissingKey path)
           | _ \<Rightarrow> LookupError (LookupInvalidKeyAccess key (value_type_name value)) path)
      | LookupError kind _ \<Rightarrow> LookupError kind path)"

definition lookup_get_index :: "'d config_lookup \<Rightarrow> nat \<Rightarrow> 'd config_lookup" where
  "lookup_get_index l i =
     (let path = Child l (IndexSegment i) False in
      case l of
        LookupValue value _ \<Rightarrow>
          (case value of
             CArray vs \<Rightarrow> (if i < length vs then LookupValue (vs ! i) path else LookupError LookupMissingIndex path)
           | _ \<Rightarrow> LookupError (LookupInvalidIndexAccess i (value_type_name value)) path)
      | LookupError kind _ \<Rightarrow> LookupError kind path)"

subsection \<open>Errors\<close>

datatype config_path_error =
    InvalidConfigPath string
  | MissingKey string
  | MissingIndex string
  | InvalidKeyAccess string string string
  | InvalidIndexAccess string nat string

datatype config_error =
    ConversionError "string option" string
  | PathError config_path_error
  | InvalidValue "string option" string

fun is_missing :: "config_path_error \<Rightarrow> bool" where
  "is_missing (MissingKey _) = True"
| "is_missing (MissingIndex _) = True"
| "is_missing _ = False"

fun path_error_display :: "config_path_error \<Rightarrow> string" where
  "path_error_display (InvalidConfigPath path) = ''invalid config path `'' @ path @ ''`''"
| "path_error_display (MissingKey path) = ''missing config key at `'' @ path @ ''`''"
| "path_error_display (MissingIndex path) = ''missing config index at `'' @ path @ ''`''"
| "path_error_display (InvalidKeyAccess path key value_type) =
     ''cannot access key `'' @ key @ ''` at `'' @ path @ ''` because the parent value is a '' @ value_type"
| "path_error_display (InvalidIndexAccess path i value_type) =
     ''cannot access index ['' @ show_dec i @ ''] at `'' @ path @ ''` because the parent value is a '' @ value_type"

fun config_error_display :: "config_error \<Rightarrow> string" where
  "config_error_display (ConversionError (Some path) d) = ''Error during type conversion at `'' @ path @ ''`: '' @ d"
| "config_error_display (ConversionError None d) = ''Error during type conversion: '' @ d"
| "config_error_display (PathError e) = ''Error during path traversal: '' @ path_error_display e"
| "config_error_display (InvalidValue (Some path) d) = ''Error during value validation at `'' @ path @ ''`: '' @ d"
| "config_error_display (InvalidValue None d) = ''Error during value validation: '' @ d"

definition expected_text :: "'d config_libs \<Rightarrow> string \<Rightarrow> 'd config_value \<Rightarrow> string" where
  "expected_text L ty v = ''Expected '' @ lib_type_name L ty @ '' config value, but got '' @ lib_debug L v"

definition expected :: "'d config_libs \<Rightarrow> string \<Rightarrow> 'd config_value \<Rightarrow> config_error" where
  "expected L ty v = ConversionError None (expected_text L ty v)"

definition expected_at :: "'d config_libs \<Rightarrow> string \<Rightarrow> string \<Rightarrow> 'd config_value \<Rightarrow> config_error" where
  "expected_at L ty path v = ConversionError (Some path) (expected_text L ty v)"

fun with_path :: "config_error \<Rightarrow> string \<Rightarrow> config_error" where
  "with_path (ConversionError (Some existing) d) path = ConversionError (Some existing) d"
| "with_path (ConversionError None d) path = ConversionError (Some path) d"
| "with_path (InvalidValue (Some existing) d) path = InvalidValue (Some existing) d"
| "with_path (InvalidValue None d) path = InvalidValue (Some path) d"
| "with_path other path = other"

definition from_try_from_int_error :: config_error where
  "from_try_from_int_error = ConversionError None ''out of range integral type conversion attempted''"

fun path_error :: "'d config_lookup \<Rightarrow> (config_path_error, config_error) rresult" where
  "path_error (LookupValue v p) = Panic"
| "path_error (LookupError LookupInvalidPath p) = Ok (InvalidConfigPath (path_source_display p))"
| "path_error (LookupError LookupMissingKey p) = Ok (MissingKey (path_source_display p))"
| "path_error (LookupError LookupMissingIndex p) = Ok (MissingIndex (path_source_display p))"
| "path_error (LookupError (LookupInvalidKeyAccess key value_type) p) = Ok (InvalidKeyAccess (path_source_display p) key value_type)"
| "path_error (LookupError (LookupInvalidIndexAccess i value_type) p) = Ok (InvalidIndexAccess (path_source_display p) i value_type)"

fun lookup_value :: "'d config_lookup \<Rightarrow> ('d config_value, config_error) rresult" where
  "lookup_value (LookupValue v p) = Ok v"
| "lookup_value (LookupError k p) = rbind (path_error (LookupError k p)) (\<lambda>e. Err (PathError e))"

fun lookup_expected :: "'d config_libs \<Rightarrow> string \<Rightarrow> 'd config_lookup \<Rightarrow> 'd config_value \<Rightarrow> ('a, config_error) rresult" where
  "lookup_expected L ty (LookupValue w p) v = Err (expected_at L ty (path_source_display p) v)"
| "lookup_expected L ty (LookupError k p) v = rbind (path_error (LookupError k p)) (\<lambda>e. Err (PathError e))"

text \<open>The shape of all typed accessors: the value, converted, or the error that names path and type.\<close>

definition lookup_as :: "'d config_libs \<Rightarrow> string \<Rightarrow> ('d config_value \<Rightarrow> 'a option) \<Rightarrow> 'd config_lookup \<Rightarrow> ('a, config_error) rresult" where
  "lookup_as L ty conv l =
     rbind (lookup_value l) (\<lambda>v. case conv v of Some a \<Rightarrow> Ok a | None \<Rightarrow> lookup_expected L ty l v)"

definition as_string :: "'d config_libs \<Rightarrow> 'd config_lookup \<Rightarrow> (string, config_error) rresult" where
  "as_string L = lookup_as L ''String'' value_as_string"

definition as_i64 :: "'d config_libs \<Rightarrow> 'd config_lookup \<Rightarrow> (u64, config_error) rresult" where
  "as_i64 L = lookup_as L ''i64'' value_as_i64"

definition as_f64 :: "'d config_libs \<Rightarrow> 'd config_lookup \<Rightarrow> (f64, config_error) rresult" where
  "as_f64 L = lookup_as L ''f64'' value_as_f64"

definition as_bool :: "'d config_libs \<Rightarrow> 'd config_lookup \<Rightarrow> (bool, config_error) rresult" where
  "as_bool L = lookup_as L ''bool'' value_as_bool"

definition as_datetime :: "'d config_libs \<Rightarrow> 'd config_lookup \<Rightarrow> ('d, config_error) rresult" where
  "as_datetime L = lookup_as L ''toml::value::Datetime'' value_as_datetime"

definition as_byte_size :: "'d config_libs \<Rightarrow> 'd config_lookup \<Rightarrow> (u64, config_error) rresult" where
  "as_byte_size L = lookup_as L ''u64'' (value_as_bytes L)"

definition as_duration :: "'d config_libs \<Rightarrow> 'd config_lookup \<Rightarrow> (nat, config_error) rresult" where
  "as_duration L = lookup_as L ''std::time::Duration'' (value_as_duration L)"

definition as_array :: "'d config_libs \<Rightarrow> 'd config_lookup \<Rightarrow> ('d config_value list, config_error) rresult" where
  "as_array L = lookup_as L ''&[ConfigValue]'' value_as_array"

text \<open>All items of the iterator that \<open>array_entries\<close> returns.\<close>

definition array_entries :: "'d config_libs \<Rightarrow> 'd config_lookup \<Rightarrow> ((nat \<times> 'd config_lookup) list, config_error) rresult" where
  "array_entries L l =
     rbind (as_array L l) (\<lambda>vs. Ok (map (\<lambda>i. (i, LookupValue (vs ! i) (Child l (IndexSegment i) False))) [0..<length vs]))"

subsection \<open>Values at key paths\<close>

text \<open>The abstract view of a document: the value at a list of keys.\<close>

fun value_at :: "'d config_value \<Rightarrow> string list \<Rightarrow> 'd config_value option" where
  "value_at v [] = Some v"
| "value_at (CTable vs) (k # ks) = (case map_of vs k of Some v \<Rightarrow> value_at v ks | None \<Rightarrow> None)"
| "value_at _ (k # ks) = None"

fun is_table :: "'d config_value \<Rightarrow> bool" where
  "is_table (CTable _) = True"
| "is_table _ = False"

definition doc :: "'d config \<Rightarrow> 'd config_value" where
  "doc c = CTable (root c)"

text \<open>A dotted path or a chain of keys that has no empty part.\<close>

definition plain_keys :: "string list \<Rightarrow> bool" where
  "plain_keys ks \<longleftrightarrow> ks \<noteq> [] \<and> (\<forall>k \<in> set ks. k \<noteq> [] \<and> CONF_SEP \<notin> set k)"

lemma value_at_nontable: "\<not> is_table v \<Longrightarrow> ks \<noteq> [] \<Longrightarrow> value_at v ks = None"
  by (cases v; cases ks) simp_all

lemma value_at_append: "value_at v (ks @ ks') = (case value_at v ks of Some w \<Rightarrow> value_at w ks' | None \<Rightarrow> None)"
  by (induction v ks rule: value_at.induct) (auto split: option.splits)

lemma split_on_plain: "plain_keys ks \<Longrightarrow> split_on CONF_SEP (join_with CONF_SEP ks) = ks"
  by (rule split_on_join) (auto simp: plain_keys_def)

lemma select_eq: "select c path = select_loop path (doc c) (split_on CONF_SEP path)"
  by (cases "split_on CONF_SEP path") (auto simp: select_def doc_def split: option.splits)

text \<open>Where a walk down the keys stops, with the reason.\<close>

fun walk :: "'d config_value \<Rightarrow> string list \<Rightarrow> 'd config_value + lookup_error_kind" where
  "walk v [] = Inl v"
| "walk v (k # ks) =
     (if k = [] then Inr LookupInvalidPath
      else case v of
             CTable vs \<Rightarrow> (case map_of vs k of Some w \<Rightarrow> walk w ks | None \<Rightarrow> Inr LookupMissingKey)
           | _ \<Rightarrow> Inr (LookupInvalidKeyAccess k (value_type_name v)))"

lemma select_loop_walk:
  "select_loop path v ks = (case walk v ks of Inl w \<Rightarrow> from_full_path path w | Inr e \<Rightarrow> error_path path e)"
  by (induction v ks rule: walk.induct) (auto split: config_value.splits option.splits)

lemma walk_value: "walk v ks = Inl w \<longleftrightarrow> value_at v ks = Some w \<and> [] \<notin> set ks"
  by (induction v ks rule: walk.induct) (auto split: config_value.splits option.splits)

text \<open>The reason for which a walk cannot go on with a key.\<close>

fun stuck :: "'d config_value \<Rightarrow> string \<Rightarrow> lookup_error_kind option" where
  "stuck u [] = Some LookupInvalidPath"
| "stuck (CTable vs) k = (if map_of vs k = None then Some LookupMissingKey else None)"
| "stuck u k = Some (LookupInvalidKeyAccess k (value_type_name u))"

lemma stuck_nonempty:
  "k \<noteq> [] \<Longrightarrow> stuck u k = (case u of CTable vs \<Rightarrow> (case map_of vs k of None \<Rightarrow> Some LookupMissingKey | Some _ \<Rightarrow> None)
     | _ \<Rightarrow> Some (LookupInvalidKeyAccess k (value_type_name u)))"
  by (cases u; cases k) (auto split: option.splits)

lemma walk_error:
  "walk v ks = Inr e \<longleftrightarrow>
     (\<exists>pre k post u. ks = pre @ k # post \<and> [] \<notin> set pre \<and> value_at v pre = Some u \<and> stuck u k = Some e)"
proof (induction v ks rule: walk.induct)
  case (2 v k ks)
  have cons: "(\<exists>pre k' post u. k # ks = pre @ k' # post \<and> [] \<notin> set pre \<and> value_at v pre = Some u \<and> stuck u k' = Some e) \<longleftrightarrow>
      stuck v k = Some e \<or>
      (k \<noteq> [] \<and> (\<exists>pre k' post u. ks = pre @ k' # post \<and> [] \<notin> set pre \<and> value_at v (k # pre) = Some u \<and> stuck u k' = Some e))"
    (is "?l \<longleftrightarrow> ?r")
  proof
    assume ?l
    then obtain pre k' post u where *: "k # ks = pre @ k' # post" "[] \<notin> set pre" "value_at v pre = Some u" "stuck u k' = Some e" by blast
    show ?r
    proof (cases pre)
      case Nil
      with * show ?thesis by simp
    next
      case (Cons x xs)
      with * show ?thesis by fastforce
    qed
  next
    assume ?r
    then show ?l
      by (elim disjE conjE exE) (metis append_Nil empty_iff list.set(1) value_at.simps(1), metis append_Cons set_ConsD)
  qed
  show ?case
  proof (cases "k = []")
    case False
    show ?thesis
    proof (cases v)
      case (CTable vs)
      show ?thesis
      proof (cases "map_of vs k")
        case (Some w)
        with CTable False 2 [OF False] cons show ?thesis by (simp add: stuck_nonempty)
      qed (use CTable False cons in \<open>simp add: stuck_nonempty\<close>)
    qed (use False cons in \<open>auto simp: stuck_nonempty\<close>)
  qed (use cons in simp)
qed simp

text \<open>
  Selecting a dotted path finds exactly the value that the tables of the document lead to, and otherwise reports the first part
  at which the walk gets stuck: an empty part is an invalid path, a key that a table does not have is missing, and a
  key of anything else is an invalid access that names the key and the type of the value.
\<close>

theorem select_outcomes:
  "(select c path = from_full_path path v \<longleftrightarrow>
      value_at (doc c) (split_on CONF_SEP path) = Some v \<and> [] \<notin> set (split_on CONF_SEP path)) \<and>
   (select c path = error_path path e \<longleftrightarrow>
      (\<exists>pre k post u. split_on CONF_SEP path = pre @ k # post \<and> [] \<notin> set pre \<and> value_at (doc c) pre = Some u \<and> stuck u k = Some e))"
  unfolding walk_value [symmetric] walk_error [symmetric] select_eq select_loop_walk
  by (auto simp: from_full_path_def error_path_def split: sum.splits)

subsection \<open>Chains of lookups\<close>

fun lookup_outcome :: "'d config_lookup \<Rightarrow> 'd config_value + lookup_error_kind" where
  "lookup_outcome (LookupValue v _) = Inl v"
| "lookup_outcome (LookupError e _) = Inr e"

fun kind_error :: "lookup_error_kind \<Rightarrow> string \<Rightarrow> config_path_error" where
  "kind_error LookupInvalidPath p = InvalidConfigPath p"
| "kind_error LookupMissingKey p = MissingKey p"
| "kind_error LookupMissingIndex p = MissingIndex p"
| "kind_error (LookupInvalidKeyAccess k t) p = InvalidKeyAccess p k t"
| "kind_error (LookupInvalidIndexAccess i t) p = InvalidIndexAccess p i t"

lemma lookup_value_eq:
  "lookup_value l = (case lookup_outcome l of Inl v \<Rightarrow> Ok v | Inr e \<Rightarrow> Err (PathError (kind_error e (lookup_display l))))"
proof (cases l)
  case (LookupError e p)
  then show ?thesis by (cases e) simp_all
qed simp

lemma lookup_get_outcome:
  "k \<noteq> [] \<Longrightarrow> lookup_outcome (lookup_get l k) = (case lookup_outcome l of Inl v \<Rightarrow> walk v [k] | Inr e \<Rightarrow> Inr e)"
  by (cases l) (auto simp: lookup_get_def Let_def split: config_value.splits option.splits)

lemma lookup_get_path: "lookup_path (lookup_get l k) = Child l (KeySegment k) (\<not> is_empty_path l)"
  by (cases l) (auto simp: lookup_get_def Let_def split: config_value.splits option.splits)

lemma lookup_display_path: "lookup_display l = path_source_display (lookup_path l)"
  by (cases l) simp_all

lemma walk_append: "walk v (ks @ ks') = (case walk v ks of Inl w \<Rightarrow> walk w ks' | Inr e \<Rightarrow> Inr e)"
  by (induction v ks rule: walk.induct) (auto split: config_value.splits option.splits)

lemma join_with_snoc: "ks \<noteq> [] \<Longrightarrow> join_with c (ks @ [k]) = join_with c ks @ c # k"
  by (induction c ks rule: join_with.induct) auto

lemma lookup_chain:
  assumes "k \<noteq> []" "\<forall>x \<in> set ks. x \<noteq> []"
  shows "lookup_outcome (foldl lookup_get (config_get c k) ks) = walk (doc c) (k # ks) \<and>
    lookup_display (foldl lookup_get (config_get c k) ks) = join_with CONF_SEP (k # ks) \<and>
    \<not> is_empty_path (foldl lookup_get (config_get c k) ks)"
  using assms(2)
proof (induction ks rule: rev_induct)
  case Nil
  with assms(1) show ?case
    by (auto simp: config_get_def doc_def from_full_path_def error_path_def is_empty_path_def split: option.splits)
next
  case (snoc x ks)
  let ?l = "foldl lookup_get (config_get c k) ks"
  from snoc have IH: "lookup_outcome ?l = walk (doc c) (k # ks)" "lookup_display ?l = join_with CONF_SEP (k # ks)" "\<not> is_empty_path ?l"
    and x: "x \<noteq> []" by auto
  have "walk (doc c) (k # ks @ [x]) = (case walk (doc c) (k # ks) of Inl w \<Rightarrow> walk w [x] | Inr e \<Rightarrow> Inr e)"
    using walk_append [of "doc c" "k # ks" "[x]"] by simp
  moreover have "join_with CONF_SEP (k # ks @ [x]) = join_with CONF_SEP (k # ks) @ CONF_SEP # x"
    using join_with_snoc [of "k # ks"] by simp
  ultimately show ?case
    using IH lookup_get_outcome [OF x, of ?l] by (simp add: lookup_display_path [of "lookup_get ?l x"] lookup_get_path is_empty_path_def)
qed

text \<open>
  Selecting a dotted path and following its keys one by one with \<open>get\<close> give the same result: the same value, or the same error
  with the same full path, also when the chain goes on after the step that failed.
\<close>

theorem chained_lookup_agrees:
  assumes "plain_keys (k # ks)"
  shows "lookup_value (foldl lookup_get (config_get c k) ks) = lookup_value (select c (join_with CONF_SEP (k # ks)))"
proof -
  have "k \<noteq> []" "\<forall>x \<in> set ks. x \<noteq> []" using assms by (auto simp: plain_keys_def)
  from lookup_chain [OF this, of c] show ?thesis
    by (auto simp: lookup_value_eq select_eq select_loop_walk split_on_plain [OF assms] from_full_path_def error_path_def split: sum.splits)
qed

text \<open>A document for the witnesses.\<close>

definition sample_config :: "unit config" where
  "sample_config = \<lparr>root = [(''kompact'', CTable [(''my-test-key'', CString ''testme''), (''limit'', CInteger 50)]), (''values'', CArray [CInteger 1])]\<rparr>"

theorem chained_lookup_agrees_witness:
  "lookup_value (lookup_get (lookup_get (lookup_get (config_get sample_config ''kompact'') ''my-test-key'') ''inner'') ''leaf'') =
     lookup_value (select sample_config ''kompact.my-test-key.inner.leaf'') \<and>
   lookup_value (select sample_config ''kompact.my-test-key.inner.leaf'') =
     Err (PathError (InvalidKeyAccess ''kompact.my-test-key.inner.leaf'' ''inner'' ''string''))"
proof -
  have "plain_keys [''kompact'', ''my-test-key'', ''inner'', ''leaf'']" by (simp add: plain_keys_def CONF_SEP_def)
  from chained_lookup_agrees [OF this, of sample_config] show ?thesis
    by (simp add: sample_config_def CONF_SEP_def select_def error_path_def)
qed

subsection \<open>Merging\<close>

text \<open>Hash maps have one entry per key, at every level.\<close>

fun value_wf :: "'d config_value \<Rightarrow> bool" where
  "value_wf (CTable vs) \<longleftrightarrow> distinct (map fst vs) \<and> (\<forall>p \<in> set vs. value_wf (snd p))"
| "value_wf _ \<longleftrightarrow> True"

definition table_wf :: "'d config_table \<Rightarrow> bool" where
  "table_wf t \<longleftrightarrow> value_wf (CTable t)"

declare merge_value.simps [simp del]

lemma merge_value_table [simp]: "merge_value (CTable t) (CTable u) = CTable (merge_tables t u)"
  by (simp add: merge_value.simps)

lemma merge_value_other: "\<not> (is_table v \<and> is_table w) \<Longrightarrow> merge_value v w = w"
  by (cases v; cases w) (simp_all add: merge_value.simps)

text \<open>Key by key, the merged table has what the two tables have, merged where both have something.\<close>

lemma map_of_merge_tables:
  "distinct (map fst u) \<Longrightarrow> map_of (merge_tables t u) k =
     (case map_of u k of
        None \<Rightarrow> map_of t k
      | Some w \<Rightarrow> Some (case map_of t k of None \<Rightarrow> w | Some v \<Rightarrow> merge_value v w))"
proof (induction u arbitrary: t)
  case (Cons p u)
  obtain x w where p: "p = (x, w)" by (cases p)
  with Cons.prems have "map_of u x = None" "distinct (map fst u)" by (simp_all add: map_of_eq_None_iff)
  with Cons.IH p show ?case by (auto simp: update_conv' split: option.splits)
qed simp

lemma value_at_merge_Cons:
  "distinct (map fst u) \<Longrightarrow> value_at (CTable (merge_tables t u)) (k # ks) =
     (case map_of u k of
        None \<Rightarrow> value_at (CTable t) (k # ks)
      | Some w \<Rightarrow> (case map_of t k of None \<Rightarrow> value_at w ks | Some v \<Rightarrow> value_at (merge_value v w) ks))"
  by (auto simp: map_of_merge_tables split: option.splits)

text \<open>What is written in the second value wins.\<close>

lemma merge_later_wins:
  "value_wf w \<Longrightarrow> value_at w ks = Some x \<Longrightarrow> \<not> is_table x \<Longrightarrow> value_at (merge_value v w) ks = Some x"
proof (induction ks arbitrary: v w)
  case Nil
  then show ?case by (simp add: merge_value_other)
next
  case (Cons k ks)
  then obtain u y where w: "w = CTable u" "map_of u k = Some y" "value_at y ks = Some x" by (cases w) (auto split: option.splits)
  with Cons.prems have y: "value_wf y" "distinct (map fst u)" by (auto dest: map_of_SomeD)
  show ?case
  proof (cases "is_table v")
    case True
    then obtain t where "v = CTable t" by (cases v) simp_all
    with w y Cons.IH [OF y(1) w(3) Cons.prems(3)] show ?thesis by (simp add: map_of_merge_tables split: option.splits)
  qed (use Cons.prems in \<open>simp add: merge_value_other\<close>)
qed

text \<open>
  A value says nothing about a path: the path leaves its tables at a key that is not there. Such a path keeps its value.
\<close>

fun silent_on :: "'d config_value \<Rightarrow> string list \<Rightarrow> bool" where
  "silent_on v [] \<longleftrightarrow> False"
| "silent_on (CTable vs) (k # ks) \<longleftrightarrow> (case map_of vs k of None \<Rightarrow> True | Some v \<Rightarrow> silent_on v ks)"
| "silent_on _ (k # ks) \<longleftrightarrow> False"

lemma merge_silent_keeps:
  "value_wf w \<Longrightarrow> silent_on w ks \<Longrightarrow> is_table v \<Longrightarrow> value_at v ks = Some x \<Longrightarrow> value_at (merge_value v w) ks = Some x"
proof (induction ks arbitrary: v w)
  case (Cons k ks)
  then obtain t u where vw: "v = CTable t" "w = CTable u" by (cases v; cases w) auto
  with Cons.prems obtain y where y: "map_of t k = Some y" "value_at y ks = Some x" by (auto split: option.splits)
  show ?case
  proof (cases "map_of u k")
    case None
    with vw y Cons.prems show ?thesis by (simp add: map_of_merge_tables)
  next
    case (Some z)
    with Cons.prems vw have z: "value_wf z" "silent_on z ks" "distinct (map fst u)" by (auto dest: map_of_SomeD)
    then obtain k' ks' where ks: "ks = k' # ks'" by (cases ks) auto
    with y(2) have "is_table y" by (cases y) auto
    from Cons.IH [OF z(1,2) this y(2)] vw y(1) Some z(3) show ?thesis by (simp add: map_of_merge_tables)
  qed
qed simp

subsection \<open>Inserting\<close>

text \<open>The document in which the only value is \<open>v\<close>, at the keys \<open>ks\<close>.\<close>

fun nest :: "string list \<Rightarrow> 'd config_value \<Rightarrow> 'd config_table" where
  "nest [] v = []"
| "nest [k] v = [(k, v)]"
| "nest (k # k' # ks) v = [(k, CTable (nest (k' # ks) v))]"

lemma insert_into_empty: "insert_segments [] ks v = nest ks v"
  by (induction ks v rule: nest.induct) simp_all

text \<open>
  Inserting a value at a dotted key is merging the document that holds nothing but this value, whatever is in the way: missing tables are created,
  values that are not tables are replaced by them, and a table that is inserted over a table is merged into it.
\<close>

theorem insert_is_merge:
  "insert_value c key v = config_merge c \<lparr>root = nest (split_on CONF_SEP key) v\<rparr>"
proof -
  have "insert_segments t ks v = merge_tables t (nest ks v)" for t :: "'a config_table" and ks v
  proof (induction ks v arbitrary: t rule: nest.induct)
    case (3 k k' ks v)
    show ?case
    proof (cases "map_of t k")
      case (Some w)
      show ?thesis
      proof (cases "is_table w")
        case True
        then obtain u where "w = CTable u" by (cases w) simp_all
        with Some 3 show ?thesis by (simp add: Let_def)
      next
        case False
        then have "(case w of CTable vs \<Rightarrow> vs | _ \<Rightarrow> []) = []" by (cases w) simp_all
        with Some False show ?thesis
          by (simp add: Let_def merge_value_other insert_into_empty)
      qed
    qed (simp add: insert_into_empty)
  qed simp_all
  then show ?thesis by (simp add: insert_value_def config_merge_def)
qed

lemma value_at_nest: "ks \<noteq> [] \<Longrightarrow> value_at (CTable (nest ks v)) ks = Some v"
  by (induction ks v rule: nest.induct) simp_all

lemma nest_wf: "value_wf v \<Longrightarrow> value_wf (CTable (nest ks v))"
  by (induction ks v rule: nest.induct) simp_all

text \<open>Neither of two paths continues the other.\<close>

fun diverge :: "string list \<Rightarrow> string list \<Rightarrow> bool" where
  "diverge (k # ks) (k' # ks') \<longleftrightarrow> k \<noteq> k' \<or> diverge ks ks'"
| "diverge _ _ \<longleftrightarrow> False"

lemma nest_silent: "diverge ks ks' \<Longrightarrow> silent_on (CTable (nest ks v)) ks'"
proof (induction ks v arbitrary: ks' rule: nest.induct)
  case (2 k v)
  then show ?case by (cases ks') auto
next
  case (3 k k' ks v)
  then show ?case by (cases ks') auto
qed simp

lemma nontable_wf: "\<not> is_table v \<Longrightarrow> value_wf v"
  by (cases v) simp_all

end
