(* ===== verification/Timer_Manager.thy ===== *)
theory Timer_Manager
  imports Lifecycle
begin

section \<open>Timers of a component (\<open>core/src/timer/timer_manager.rs\<close>)\<close>

text \<open>
  The per-component timer manager: the queue of expired timeouts, the table of timer handles
  and the operations on them. The hierarchical wheel timer underneath is a third-party crate;
  the calls made to it are recorded. The identifiers that \<open>Uuid::new_v4\<close> would draw are
  arguments. The lemmas show when a handle's action can run and when it never runs again.
\<close>

datatype 'a timer_handle = OneShot 'a | Periodic 'a

datatype 'a execute_action = ActNone | ActPeriodic uuid 'a | ActOnce uuid 'a

datatype timer_call = CallOnce nat uuid | CallPeriodic nat nat uuid | CallCancel uuid

record 'a timer_manager =
  timer_queue :: "uuid list"
  handles :: "(uuid \<times> 'a timer_handle) list"
  timer_calls :: "timer_call list"

definition timer_manager_new :: "'a timer_manager" where
  "timer_manager_new = \<lparr>timer_queue = [], handles = [], timer_calls = []\<rparr>"

definition try_action :: "'a timer_manager \<Rightarrow> 'a execute_action \<times> 'a timer_manager" where
  "try_action tm =
     (case timer_queue tm of
        timeout # rest \<Rightarrow>
          (let res = map_of (handles tm) timeout;
               tm1 = tm\<lparr>timer_queue := rest, handles := AList.delete timeout (handles tm)\<rparr>
           in case res of
                Some (OneShot action) \<Rightarrow> (ActOnce timeout action, tm1)
              | Some (Periodic action) \<Rightarrow>
                  (ActPeriodic timeout action,
                   tm1\<lparr>handles := AList.update timeout (Periodic action) (handles tm1)\<rparr>)
              | None \<Rightarrow> (ActNone, tm1))
      | [] \<Rightarrow> (ActNone, tm))"

definition schedule_once :: "uuid \<Rightarrow> nat \<Rightarrow> 'a \<Rightarrow> 'a timer_manager \<Rightarrow> uuid \<times> 'a timer_manager" where
  "schedule_once u timeout action tm =
     (u, tm\<lparr>handles := AList.update u (OneShot action) (handles tm),
            timer_calls := timer_calls tm @ [CallOnce timeout u]\<rparr>)"

definition schedule_periodic ::
    "uuid \<Rightarrow> nat \<Rightarrow> nat \<Rightarrow> 'a \<Rightarrow> 'a timer_manager \<Rightarrow> uuid \<times> 'a timer_manager" where
  "schedule_periodic u delay period action tm =
     (u, tm\<lparr>handles := AList.update u (Periodic action) (handles tm),
            timer_calls := timer_calls tm @ [CallPeriodic delay period u]\<rparr>)"

definition cancel_timer :: "uuid \<Rightarrow> 'a timer_manager \<Rightarrow> 'a timer_manager" where
  "cancel_timer u tm =
     tm\<lparr>timer_calls := timer_calls tm @ [CallCancel u], handles := AList.delete u (handles tm)\<rparr>"

text \<open>
  \<open>CanCancelTimers::cancel_timer\<close>, which anyone with a reference to the timer can call, tells the timer only: the
  handle stays with the component.
\<close>

definition cancel_by_ref :: "uuid \<Rightarrow> 'a timer_manager \<Rightarrow> 'a timer_manager" where
  "cancel_by_ref u tm = tm\<lparr>timer_calls := timer_calls tm @ [CallCancel u]\<rparr>"

text \<open>Dropping the manager cancels every timer that still has a handle.\<close>

definition timer_manager_drop :: "'a timer_manager \<Rightarrow> 'a timer_manager" where
  "timer_manager_drop tm =
     tm\<lparr>handles := [], timer_calls := timer_calls tm @ map (\<lambda>(u, _). CallCancel u) (handles tm)\<rparr>"

text \<open>
  \<open>TimerActorRef::enqueue\<close>, called by the timer thread when a timeout expires, on the state
  word of the component: the second component tells whether the component is scheduled.
  \<open>None\<close> for a queue or component that is gone is the error branch.
\<close>

definition timer_enqueue ::
    "uuid \<Rightarrow> (u64 \<times> 'a timer_manager) option \<Rightarrow> (bool \<times> u64 \<times> 'a timer_manager, unit) rresult" where
  "timer_enqueue timeout target =
     (case target of
        Some (w, tm) \<Rightarrow>
          rbind (increment_work w) (\<lambda>(res, w').
            Ok (res = Schedule, w', tm\<lparr>timer_queue := timer_queue tm @ [timeout]\<rparr>))
      | None \<Rightarrow> Err ())"

subsection \<open>When an action runs\<close>

datatype 'a timer_op =
  Expire uuid | TryAction | DoOnce uuid nat 'a | DoPeriodic uuid nat nat 'a | DoCancel uuid | DoCancelRef uuid

fun timer_op_step :: "'a timer_op \<Rightarrow> 'a timer_manager \<Rightarrow> 'a execute_action \<times> 'a timer_manager" where
  "timer_op_step (Expire u) tm = (ActNone, tm\<lparr>timer_queue := timer_queue tm @ [u]\<rparr>)"
| "timer_op_step TryAction tm = try_action tm"
| "timer_op_step (DoOnce u t a) tm = (ActNone, snd (schedule_once u t a tm))"
| "timer_op_step (DoPeriodic u d p a) tm = (ActNone, snd (schedule_periodic u d p a tm))"
| "timer_op_step (DoCancel u) tm = (ActNone, cancel_timer u tm)"
| "timer_op_step (DoCancelRef u) tm = (ActNone, cancel_by_ref u tm)"

fun timer_run :: "'a timer_op list \<Rightarrow> 'a timer_manager \<Rightarrow> 'a execute_action list \<times> 'a timer_manager" where
  "timer_run [] tm = ([], tm)"
| "timer_run (x # xs) tm =
     (let (r, tm1) = timer_op_step x tm; (rs, tm2) = timer_run xs tm1 in (r # rs, tm2))"

fun schedules :: "uuid \<Rightarrow> 'a timer_op \<Rightarrow> bool" where
  "schedules u (DoOnce v _ _) = (u = v)"
| "schedules u (DoPeriodic v _ _ _) = (u = v)"
| "schedules u _ = False"

fun action_id :: "'a execute_action \<Rightarrow> uuid option" where
  "action_id ActNone = None"
| "action_id (ActPeriodic u _) = Some u"
| "action_id (ActOnce u _) = Some u"

lemma map_of_update [simp]: "map_of (AList.update k v xs) x = (if x = k then Some v else map_of xs x)"
  by (simp add: update_conv')

lemma map_of_delete [simp]: "map_of (AList.delete k xs) x = (if x = k then None else map_of xs x)"
  by (simp add: delete_conv')

lemma try_action_handle:
  assumes "map_of (handles tm) u = None" and "try_action tm = (r, tm')"
  shows "action_id r \<noteq> Some u \<and> map_of (handles tm') u = None"
  using assms
  by (auto simp: try_action_def Let_def split: list.splits option.splits timer_handle.splits if_splits)

lemma timer_step_no_handle:
  assumes "map_of (handles tm) u = None" "\<not> schedules u x" "timer_op_step x tm = (r, tm')"
  shows "action_id r \<noteq> Some u \<and> map_of (handles tm') u = None"
  using assms try_action_handle [OF assms(1)]
  by (cases x) (auto simp: schedule_once_def schedule_periodic_def cancel_timer_def cancel_by_ref_def)

lemma timer_run_no_handle:
  "map_of (handles tm) u = None \<Longrightarrow> \<forall>x \<in> set xs. \<not> schedules u x \<Longrightarrow>
     \<forall>r \<in> set (fst (timer_run xs tm)). action_id r \<noteq> Some u"
proof (induction xs arbitrary: tm)
  case (Cons x xs)
  obtain r tm1 where s: "timer_op_step x tm = (r, tm1)" by force
  from timer_step_no_handle [OF Cons.prems(1) _ s] Cons.prems(2)
  have "action_id r \<noteq> Some u" "map_of (handles tm1) u = None" by auto
  with Cons.IH [of tm1] Cons.prems(2) s show ?case by (auto split: prod.split)
qed simp



text \<open>After a cancellation through a reference, a timeout that has expired before still runs its action, as documented.\<close>

lemma cancel_by_ref_may_fire:
  assumes "map_of (handles tm) u = Some h" and "timer_queue tm = u # rest"
  shows "action_id (fst (try_action (cancel_by_ref u tm))) = Some u"
  using assms by (cases h) (simp_all add: try_action_def cancel_by_ref_def)

text \<open>Handing out a periodic action keeps its handle for the next expiry.\<close>

lemma periodic_keeps_handle:
  assumes "map_of (handles tm) u = Some (Periodic a)" and "timer_queue tm = u # rest"
  shows "\<exists>tm'. try_action tm = (ActPeriodic u a, tm') \<and> timer_queue tm' = rest \<and>
    (\<forall>v. map_of (handles tm') v = map_of (handles tm) v)"
  using assms by (auto simp: try_action_def)

end
