(* ===== verification/Component_Exec.thy ===== *)
theory Component_Exec
  imports Timer_Manager
begin

section \<open>Component execution (\<open>core/src/component/actual_component.rs\<close>, \<open>context.rs\<close>)\<close>

text \<open>
  One execution of a component by a worker: the blocking future, the control queue, timers,
  messages and port events, in the order and with the early returns of \<open>inner_execute\<close>, and
  the panic handling of \<open>execute\<close>. The component definition is application code: its handlers
  are arguments (a record), each of which may change the definition's state, have effects on
  its own component (enqueue work, schedule or cancel timers, spawn futures), return a
  handled value or an error, or panic. What other threads enqueue while a handler runs is
  among these effects too. The lemmas account for every unit of work, and describe the
  lifecycle transitions and what happens on faults.
\<close>

subsection \<open>Handlers\<close>

datatype 'f handled = HOk | BlockOn 'f | HShutdown

datatype handler_error = Benign | Recoverable | Unrecoverable

datatype 'f hresult = HRet "'f handled" | HErr handler_error | HPanic

datatype ('m, 'a, 'f) effect =
  EffCtrl control_event | EffMsg 'm | EffTimeout uuid | EffPort
  | EffOnce uuid nat 'a | EffPeriodic uuid nat nat 'a | EffCancel uuid | EffSpawn uuid 'f

datatype 'f poll = Pending 'f | Ready "'f hresult"

text \<open>\<open>ExecuteResult\<close>: \<open>res_blocking\<close> holds the future that \<open>execute\<close> has set before it returned.\<close>

record 'f execute_result =
  res_blocking :: "'f option"
  res_shutdown :: bool
  res_error :: "handler_error option"
  res_count :: nat
  res_skip :: nat

record ('d, 'f, 'm, 'a) handlers =
  on_start :: "'d \<Rightarrow> 'd \<times> ('m, 'a, 'f) effect list \<times> 'f hresult"
  on_stop :: "'d \<Rightarrow> 'd \<times> ('m, 'a, 'f) effect list \<times> 'f hresult"
  on_kill :: "'d \<Rightarrow> 'd \<times> ('m, 'a, 'f) effect list \<times> 'f hresult"
  receive :: "'m \<Rightarrow> 'd \<Rightarrow> 'd \<times> ('m, 'a, 'f) effect list \<times> 'f hresult"
  run_timer :: "'a \<Rightarrow> uuid \<Rightarrow> 'd \<Rightarrow> 'd \<times> ('m, 'a, 'f) effect list \<times> 'f hresult"
  poll_future :: "'f \<Rightarrow> 'd \<Rightarrow> 'd \<times> ('m, 'a, 'f) effect list \<times> 'f poll"
  execute_ports :: "nat \<Rightarrow> nat \<Rightarrow> nat \<Rightarrow> 'd \<Rightarrow> 'd \<times> ('m, 'a, 'f) effect list \<times> 'f execute_result option"

subsection \<open>The component\<close>

datatype state_transition = ToActive | ToStarted | ToPassive | ToDestroyed

datatype recovery_function = DefaultRecovery | CustomRecovery

datatype supervisor_msg = SupStarted | SupStopped | SupKilled | SupFaulty recovery_function

record ('d, 'f, 'm, 'a) component =
  state :: u64
  ctrl_queue :: "control_event list"
  msg_queue :: "'m list"
  port_pending :: nat
  timers :: "'a timer_manager"
  blocking_future :: "('f \<times> state_transition) option"
  non_blocking_futures :: "(uuid \<times> 'f) list"
  skip :: nat
  cdef :: 'd
  supervised :: bool
  supervisor_queue :: "supervisor_msg list"
  recovery :: recovery_function
  recovery_lock_ok :: bool
  mutex_poisoned :: bool
  system_poisoned :: bool
  schedule_calls :: nat

text \<open>
  Producers increment the work count before they push, and schedule the component when the
  increment says so. Aborting the process is the panic of the result.
\<close>

definition announce_work ::
    "('d, 'f, 'm, 'a) component \<Rightarrow> (('d, 'f, 'm, 'a) component, unit) rresult" where
  "announce_work c =
     rbind (increment_work (state c)) (\<lambda>(d, w).
       Ok (c\<lparr>state := w, schedule_calls := schedule_calls c + (if d = Schedule then 1 else 0)\<rparr>))"

definition enqueue_control ::
    "control_event \<Rightarrow> ('d, 'f, 'm, 'a) component \<Rightarrow> (('d, 'f, 'm, 'a) component, unit) rresult" where
  "enqueue_control e c = rbind (announce_work c) (\<lambda>c1. Ok (c1\<lparr>ctrl_queue := ctrl_queue c1 @ [e]\<rparr>))"

fun apply_effect ::
    "('m, 'a, 'f) effect \<Rightarrow> ('d, 'f, 'm, 'a) component \<Rightarrow> (('d, 'f, 'm, 'a) component, unit) rresult" where
  "apply_effect (EffCtrl e) c = enqueue_control e c"
| "apply_effect (EffMsg m) c = rbind (announce_work c) (\<lambda>c1. Ok (c1\<lparr>msg_queue := msg_queue c1 @ [m]\<rparr>))"
| "apply_effect (EffTimeout u) c =
     rbind (announce_work c) (\<lambda>c1.
       Ok (c1\<lparr>timers := (timers c1)\<lparr>timer_queue := timer_queue (timers c1) @ [u]\<rparr>\<rparr>))"
| "apply_effect EffPort c = rbind (announce_work c) (\<lambda>c1. Ok (c1\<lparr>port_pending := port_pending c1 + 1\<rparr>))"
| "apply_effect (EffOnce u t a) c = Ok (c\<lparr>timers := snd (schedule_once u t a (timers c))\<rparr>)"
| "apply_effect (EffPeriodic u d p a) c = Ok (c\<lparr>timers := snd (schedule_periodic u d p a (timers c))\<rparr>)"
| "apply_effect (EffCancel u) c = Ok (c\<lparr>timers := cancel_timer u (timers c)\<rparr>)"
| "apply_effect (EffSpawn u f) c =
     rbind (enqueue_control (Poll u) c) (\<lambda>c1.
       Ok (c1\<lparr>non_blocking_futures := AList.update u f (non_blocking_futures c1)\<rparr>))"

fun apply_effects ::
    "('m, 'a, 'f) effect list \<Rightarrow> ('d, 'f, 'm, 'a) component \<Rightarrow> (('d, 'f, 'm, 'a) component, unit) rresult" where
  "apply_effects [] c = Ok c"
| "apply_effects (e # es) c = rbind (apply_effect e c) (apply_effects es)"

definition call_handler ::
    "('d \<Rightarrow> 'd \<times> ('m, 'a, 'f) effect list \<times> 'r) \<Rightarrow> ('d, 'f, 'm, 'a) component \<Rightarrow>
     ('r \<times> ('d, 'f, 'm, 'a) component, unit) rresult" where
  "call_handler h c =
     (let (d, es, r) = h (cdef c)
      in rbind (apply_effects es (c\<lparr>cdef := d\<rparr>)) (\<lambda>c1. Ok (r, c1)))"

text \<open>
  How a piece of \<open>inner_execute\<close> ends: it runs on with a count, returns a decision, unwinds
  with a panic, or aborts the process. \<open>OutOfFuel\<close> is the artefact of the loop bound.
\<close>

datatype 'c flow = Run 'c nat | Return scheduling_decision 'c | Unwind 'c | Abort | OutOfFuel

fun flow_bind :: "'c flow \<Rightarrow> ('c \<Rightarrow> nat \<Rightarrow> 'c flow) \<Rightarrow> 'c flow" where
  "flow_bind (Run c n) k = k c n"
| "flow_bind (Return d c) k = Return d c"
| "flow_bind (Unwind c) k = Unwind c"
| "flow_bind Abort k = Abort"
| "flow_bind OutOfFuel k = OutOfFuel"

definition or_abort :: "('a, unit) rresult \<Rightarrow> ('a \<Rightarrow> 'c flow) \<Rightarrow> 'c flow" where
  "or_abort r k = (case r of Ok a \<Rightarrow> k a | _ \<Rightarrow> Abort)"

subsection \<open>Lifecycle changes\<close>

definition notify :: "supervisor_msg \<Rightarrow> ('d, 'f, 'm, 'a) component \<Rightarrow> ('d, 'f, 'm, 'a) component" where
  "notify m c = (if supervised c then c\<lparr>supervisor_queue := supervisor_queue c @ [m]\<rparr> else c)"

definition comp_set_active :: "('d, 'f, 'm, 'a) component \<Rightarrow> ('d, 'f, 'm, 'a) component" where
  "comp_set_active c = c\<lparr>state := set_active (state c)\<rparr>"

definition comp_set_passive :: "('d, 'f, 'm, 'a) component \<Rightarrow> ('d, 'f, 'm, 'a) component" where
  "comp_set_passive c = notify SupStopped (c\<lparr>state := set_passive (state c)\<rparr>)"

definition comp_set_destroyed :: "('d, 'f, 'm, 'a) component \<Rightarrow> ('d, 'f, 'm, 'a) component" where
  "comp_set_destroyed c = notify SupKilled (c\<lparr>state := set_destroyed (state c)\<rparr>)"

definition notify_started :: "('d, 'f, 'm, 'a) component \<Rightarrow> ('d, 'f, 'm, 'a) component" where
  "notify_started c = notify SupStarted c"

text \<open>Marking the component faulty: the same for a recoverable error and for a panic.\<close>

definition handle_recoverable_error :: "('d, 'f, 'm, 'a) component \<Rightarrow> ('d, 'f, 'm, 'a) component" where
  "handle_recoverable_error c =
     (let c1 = c\<lparr>state := set_faulty (state c)\<rparr> in
      if supervised c1 then
        (if recovery_lock_ok c1
         then notify (SupFaulty (recovery c1)) (c1\<lparr>recovery := DefaultRecovery\<rparr>)
         else c1)
      else c1\<lparr>system_poisoned := True\<rparr>)"

definition handle_unrecoverable_error :: "('d, 'f, 'm, 'a) component \<Rightarrow> ('d, 'f, 'm, 'a) component" where
  "handle_unrecoverable_error c =
     (if supervised c then comp_set_destroyed c
      else c\<lparr>state := set_destroyed (state c), system_poisoned := True\<rparr>)"

text \<open>\<open>HandlerErrorOutcome\<close>: \<open>None\<close> is \<open>Continue\<close>, \<open>Some d\<close> is \<open>Stop(d)\<close>.\<close>

fun handle_handler_error ::
    "handler_error \<Rightarrow> ('d, 'f, 'm, 'a) component \<Rightarrow> scheduling_decision option \<times> ('d, 'f, 'm, 'a) component" where
  "handle_handler_error Benign c = (None, c)"
| "handle_handler_error Recoverable c = (Some NoWork, handle_recoverable_error c)"
| "handle_handler_error Unrecoverable c = (Some NoWork, handle_unrecoverable_error c)"

definition shutdown_from_handler ::
    "('d, 'f, 'm, 'a) handlers \<Rightarrow> ('d, 'f, 'm, 'a) component \<Rightarrow> ('d, 'f, 'm, 'a) component flow" where
  "shutdown_from_handler H c =
     or_abort (call_handler (on_kill H) (c\<lparr>state := set_destroyed (state c)\<rparr>)) (\<lambda>(result, c1).
       case result of
         HRet (BlockOn _) \<Rightarrow> Unwind c1
       | HPanic \<Rightarrow> Unwind c1
       | _ \<Rightarrow> Return NoWork (comp_set_destroyed c1))"

subsection \<open>Blocking\<close>

definition set_blocking_with_state ::
    "'f \<Rightarrow> state_transition \<Rightarrow> ('d, 'f, 'm, 'a) component \<Rightarrow> ('d, 'f, 'm, 'a) component flow" where
  "set_blocking_with_state f tr c =
     (if blocking_future c \<noteq> None then Unwind (c\<lparr>blocking_future := Some (f, tr)\<rparr>)
      else Run (c\<lparr>blocking_future := Some (f, tr), state := set_blocking (state c)\<rparr>) 0)"

fun unblock :: "state_transition \<Rightarrow> ('d, 'f, 'm, 'a) component \<Rightarrow> ('d, 'f, 'm, 'a) component" where
  "unblock ToActive c = comp_set_active c"
| "unblock ToStarted c = notify_started (comp_set_active c)"
| "unblock ToPassive c = comp_set_passive c"
| "unblock ToDestroyed c = comp_set_destroyed c"

text \<open>
  \<open>run_blocking_task\<close>: \<open>None\<close> is \<open>BlockingTaskResult::Pending\<close>; a result \<open>HPanic\<close> stands for an
  unwinding poll.
\<close>

definition run_blocking_task ::
    "('d, 'f, 'm, 'a) handlers \<Rightarrow> ('d, 'f, 'm, 'a) component \<Rightarrow>
     ('f hresult option \<times> ('d, 'f, 'm, 'a) component, unit) rresult" where
  "run_blocking_task H c =
     (case blocking_future c of
        None \<Rightarrow> Ok (Some HPanic, c)
      | Some (f, tr) \<Rightarrow>
          rbind (call_handler (poll_future H f) (c\<lparr>blocking_future := None\<rparr>)) (\<lambda>(p, c1).
            case p of
              Pending f' \<Rightarrow> Ok (None, c1\<lparr>blocking_future := Some (f', tr)\<rparr>)
            | Ready (HRet (BlockOn f')) \<Rightarrow> Ok (None, c1\<lparr>blocking_future := Some (f', tr)\<rparr>)
            | Ready HPanic \<Rightarrow> Ok (Some HPanic, c1)
            | Ready r \<Rightarrow>
                (if r = HRet HShutdown \<and> tr = ToDestroyed then Ok (Some (HRet HOk), comp_set_destroyed c1)
                 else if r = HRet HOk \<or> r = HErr Benign then Ok (Some r, unblock tr c1)
                 else Ok (Some r, c1))))"

text \<open>What follows a completed blocking task, given the decision to use when it went well.\<close>

definition after_blocking ::
    "('d, 'f, 'm, 'a) handlers \<Rightarrow> 'f hresult \<Rightarrow>
     (('d, 'f, 'm, 'a) component \<Rightarrow> ('d, 'f, 'm, 'a) component flow) \<Rightarrow>
     ('d, 'f, 'm, 'a) component \<Rightarrow> ('d, 'f, 'm, 'a) component flow" where
  "after_blocking H r ok c =
     (case r of
        HRet HOk \<Rightarrow> ok c
      | HRet (BlockOn f) \<Rightarrow>
          flow_bind (set_blocking_with_state f ToActive c) (\<lambda>c1 _. Return Blocked c1)
      | HRet HShutdown \<Rightarrow> shutdown_from_handler H c
      | HErr e \<Rightarrow>
          (case handle_handler_error e c of (None, c1) \<Rightarrow> ok c1 | (Some d, c1) \<Rightarrow> Return d c1)
      | HPanic \<Rightarrow> Unwind c)"

text \<open>The macro \<open>run_blocking!\<close>: poll first, then subtract the work, then decide.\<close>

definition run_blocking ::
    "('d, 'f, 'm, 'a) handlers \<Rightarrow> ('d, 'f, 'm, 'a) component \<Rightarrow> nat \<Rightarrow> ('d, 'f, 'm, 'a) component flow" where
  "run_blocking H c cnt =
     or_abort (run_blocking_task H c) (\<lambda>(run_res, c1).
       if run_res = Some HPanic then Unwind c1
       else or_abort (decrement_work (state c1) cnt) (\<lambda>(decision, w).
         let c2 = c1\<lparr>state := w\<rparr> in
         case run_res of
           None \<Rightarrow> Return Blocked c2
         | Some r \<Rightarrow> after_blocking H r (\<lambda>c3. Return (or_use NoWork decision) c3) c2))"

text \<open>The macro \<open>check_and_handle_blocking!\<close>.\<close>

definition check_and_handle_blocking ::
    "('d, 'f, 'm, 'a) handlers \<Rightarrow> 'f hresult \<Rightarrow> ('d, 'f, 'm, 'a) component \<Rightarrow> nat \<Rightarrow>
     ('d, 'f, 'm, 'a) component flow" where
  "check_and_handle_blocking H res c cnt =
     (case res of
        HRet HOk \<Rightarrow> Run c cnt
      | HRet (BlockOn f) \<Rightarrow>
          flow_bind (set_blocking_with_state f ToActive c) (\<lambda>c1 _. run_blocking H c1 cnt)
      | HRet HShutdown \<Rightarrow> shutdown_from_handler H c
      | HErr e \<Rightarrow>
          (case handle_handler_error e c of (None, c1) \<Rightarrow> Run c1 cnt | (Some d, c1) \<Rightarrow> Return d c1)
      | HPanic \<Rightarrow> Unwind c)"

subsection \<open>The loops of \<open>inner_execute\<close>\<close>

definition run_nonblocking_task ::
    "('d, 'f, 'm, 'a) handlers \<Rightarrow> uuid \<Rightarrow> ('d, 'f, 'm, 'a) component \<Rightarrow>
     ('f hresult \<times> ('d, 'f, 'm, 'a) component, unit) rresult" where
  "run_nonblocking_task H tag c =
     (case map_of (non_blocking_futures c) tag of
        Some f \<Rightarrow>
          rbind (call_handler (poll_future H f) c) (\<lambda>(p, c1).
            case p of
              Pending f' \<Rightarrow>
                Ok (HRet HOk, c1\<lparr>non_blocking_futures := AList.update tag f' (non_blocking_futures c1)\<rparr>)
            | Ready HPanic \<Rightarrow> Ok (HPanic, c1)
            | Ready r \<Rightarrow> Ok (r, c1\<lparr>non_blocking_futures := AList.delete tag (non_blocking_futures c1)\<rparr>))
      | None \<Rightarrow> Ok (HRet HOk, c))"

text \<open>The first \<open>match event\<close>: what a control event runs.\<close>

fun control_handler ::
    "('d, 'f, 'm, 'a) handlers \<Rightarrow> control_event \<Rightarrow> ('d, 'f, 'm, 'a) component \<Rightarrow>
     ('f hresult \<times> ('d, 'f, 'm, 'a) component, unit) rresult" where
  "control_handler H Start c = call_handler (on_start H) (c\<lparr>state := set_active (state c)\<rparr>)"
| "control_handler H Stop c = call_handler (on_stop H) (c\<lparr>state := set_passive (state c)\<rparr>)"
| "control_handler H Kill c = call_handler (on_kill H) (c\<lparr>state := set_destroyed (state c)\<rparr>)"
| "control_handler H (Poll tag) c = run_nonblocking_task H tag c"

text \<open>What a control event does after its handler went well, or reported a benign error.\<close>

fun control_done :: "control_event \<Rightarrow> ('d, 'f, 'm, 'a) component \<Rightarrow> ('d, 'f, 'm, 'a) component" where
  "control_done Start c = notify_started c"
| "control_done Stop c = comp_set_passive c"
| "control_done Kill c = comp_set_destroyed c"
| "control_done (Poll _) c = c"

fun control_transition :: "control_event \<Rightarrow> state_transition" where
  "control_transition Start = ToStarted"
| "control_transition Stop = ToPassive"
| "control_transition Kill = ToDestroyed"
| "control_transition (Poll _) = ToActive"

definition control_event_step ::
    "('d, 'f, 'm, 'a) handlers \<Rightarrow> control_event \<Rightarrow> ('d, 'f, 'm, 'a) component \<Rightarrow> nat \<Rightarrow>
     ('d, 'f, 'm, 'a) component flow" where
  "control_event_step H event c cnt =
     or_abort (control_handler H event c) (\<lambda>(res, c1).
       let cnt' = cnt + 1 in
       case res of
         HRet HOk \<Rightarrow> Run (control_done event c1) cnt'
       | HRet (BlockOn f) \<Rightarrow>
           flow_bind (set_blocking_with_state f (control_transition event) c1)
             (\<lambda>c2 _. run_blocking H c2 cnt')
       | HRet HShutdown \<Rightarrow>
           (if event = Kill then Return NoWork (comp_set_destroyed c1)
            else shutdown_from_handler H c1)
       | HErr Benign \<Rightarrow> Run (control_done event c1) cnt'
       | HErr e \<Rightarrow>
           (case handle_handler_error e c1 of (None, c2) \<Rightarrow> Run c2 cnt' | (Some d, c2) \<Rightarrow> Return d c2)
       | HPanic \<Rightarrow> Unwind c1)"

text \<open>
  The control queue is drained without a limit, and a handler may enqueue further control
  events, so the loop is bounded by fuel.
\<close>

fun control_loop ::
    "nat \<Rightarrow> ('d, 'f, 'm, 'a) handlers \<Rightarrow> ('d, 'f, 'm, 'a) component \<Rightarrow> nat \<Rightarrow>
     ('d, 'f, 'm, 'a) component flow" where
  "control_loop fuel H c cnt =
     (case ctrl_queue c of
        [] \<Rightarrow> Run c cnt
      | event # rest \<Rightarrow>
          (case fuel of
             0 \<Rightarrow> OutOfFuel
           | Suc n \<Rightarrow>
               flow_bind (control_event_step H event (c\<lparr>ctrl_queue := rest\<rparr>) cnt)
                 (\<lambda>c1 cnt1. control_loop n H c1 cnt1)))"

declare control_loop.simps [simp del]

text \<open>\<open>while count < max_events\<close> over the timers: the first argument is \<open>max_events - count\<close>.\<close>

fun timer_loop ::
    "nat \<Rightarrow> ('d, 'f, 'm, 'a) handlers \<Rightarrow> ('d, 'f, 'm, 'a) component \<Rightarrow> nat \<Rightarrow>
     ('d, 'f, 'm, 'a) component flow" where
  "timer_loop 0 H c cnt = Run c cnt"
| "timer_loop (Suc n) H c cnt =
     (let (act, tm) = try_action (timers c); c0 = c\<lparr>timers := tm\<rparr> in
      case act of
        ActOnce u a \<Rightarrow>
          or_abort (call_handler (run_timer H a u) c0) (\<lambda>(res, c1).
            flow_bind (check_and_handle_blocking H res c1 (cnt + 1)) (timer_loop n H))
      | ActPeriodic u a \<Rightarrow>
          or_abort (call_handler (run_timer H a u) c0) (\<lambda>(res, c1).
            flow_bind (check_and_handle_blocking H res c1 (cnt + 1)) (timer_loop n H))
      | ActNone \<Rightarrow> Run c0 cnt)"

fun message_loop ::
    "nat \<Rightarrow> ('d, 'f, 'm, 'a) handlers \<Rightarrow> ('d, 'f, 'm, 'a) component \<Rightarrow> nat \<Rightarrow>
     ('d, 'f, 'm, 'a) component flow" where
  "message_loop 0 H c cnt = Run c cnt"
| "message_loop (Suc n) H c cnt =
     (case msg_queue c of
        env # rest \<Rightarrow>
          or_abort (call_handler (receive H env) (c\<lparr>msg_queue := rest\<rparr>)) (\<lambda>(res, c1).
            flow_bind (check_and_handle_blocking H res c1 (cnt + 1)) (message_loop n H))
      | [] \<Rightarrow> Run c cnt)"

text \<open>
  Port events: the \<open>execute\<close> generated for the definition is given the limit, the port to start
  with and the number of queued events, and reports how many it handled.
\<close>

definition port_outcome ::
    "('d, 'f, 'm, 'a) handlers \<Rightarrow> 'f execute_result \<Rightarrow>
     (('d, 'f, 'm, 'a) component \<Rightarrow> ('d, 'f, 'm, 'a) component flow) \<Rightarrow>
     ('d, 'f, 'm, 'a) component \<Rightarrow> ('d, 'f, 'm, 'a) component flow" where
  "port_outcome H res next c =
     (if res_shutdown res then shutdown_from_handler H c
      else (case res_error res of
              None \<Rightarrow> next c
            | Some e \<Rightarrow> (case handle_handler_error e c of
                (None, c1) \<Rightarrow> next c1 | (Some d, c1) \<Rightarrow> Return d c1)))"

definition port_step ::
    "('d, 'f, 'm, 'a) handlers \<Rightarrow> nat \<Rightarrow> ('d, 'f, 'm, 'a) component \<Rightarrow> nat \<Rightarrow>
     ('d, 'f, 'm, 'a) component flow" where
  "port_step H rem_events c cnt =
     or_abort (call_handler (execute_ports H rem_events (skip c) (port_pending c)) c) (\<lambda>(res_opt, c1).
       case res_opt of
         None \<Rightarrow> Unwind c1
       | Some res \<Rightarrow>
           (let c2 = c1\<lparr>skip := res_skip res, port_pending := port_pending c1 - res_count res\<rparr>;
                cnt' = cnt + res_count res
            in case res_blocking res of
                 Some f \<Rightarrow>
                   flow_bind (set_blocking_with_state f ToActive c2)
                     (\<lambda>c3 _. port_outcome H res (\<lambda>c4. run_blocking H c4 cnt') c3)
               | None \<Rightarrow> port_outcome H res (\<lambda>c3. Run c3 cnt') c2))"

definition finish_work ::
    "('d, 'f, 'm, 'a) component \<Rightarrow> nat \<Rightarrow> ('d, 'f, 'm, 'a) component flow" where
  "finish_work c cnt =
     or_abort (decrement_work (state c) cnt) (\<lambda>(d, w). Return d (c\<lparr>state := w\<rparr>))"

definition run_active ::
    "nat \<Rightarrow> nat \<Rightarrow> ('d, 'f, 'm, 'a) handlers \<Rightarrow> ('d, 'f, 'm, 'a) component \<Rightarrow> nat \<Rightarrow>
     ('d, 'f, 'm, 'a) component flow" where
  "run_active max_events max_messages H c cnt =
     flow_bind (timer_loop (max_events - cnt) H c cnt) (\<lambda>c1 cnt1.
     flow_bind (message_loop (max_messages - cnt1) H c1 cnt1) (\<lambda>c2 cnt2.
     flow_bind
       (let rem_events = max_events - cnt2 in
        if rem_events > 0
        then flow_bind (port_step H rem_events c2 cnt2) (\<lambda>c3 cnt3.
               message_loop (max_events - cnt3) H c3 cnt3)
        else Run c2 cnt2)
       finish_work))"

definition inner_execute ::
    "nat \<Rightarrow> nat \<Rightarrow> nat \<Rightarrow> ('d, 'f, 'm, 'a) handlers \<Rightarrow> ('d, 'f, 'm, 'a) component \<Rightarrow>
     ('d, 'f, 'm, 'a) component flow" where
  "inner_execute fuel max_events max_messages H c =
     (if mutex_poisoned c then Unwind c
      else if blocking_future c \<noteq> None then
        or_abort (run_blocking_task H c) (\<lambda>(run_res, c1).
          case run_res of
            None \<Rightarrow> Return Blocked c1
          | Some r \<Rightarrow>
              after_blocking H r
                (\<lambda>c2. or_abort (or_from NoWork (\<lambda>_. get_scheduling_decision (state c2)))
                   (\<lambda>d. Return d c2)) c1)
      else
        flow_bind (control_loop fuel H c 0) (\<lambda>c1 cnt.
          if \<not> is_active (state c1) then finish_work c1 cnt
          else run_active max_events max_messages H c1 cnt))"

text \<open>
  \<open>execute\<close>: nothing runs in a destroyed or faulty component; a panic poisons the mutex whose
  guard it unwinds through and marks the component faulty.
\<close>

definition execute ::
    "nat \<Rightarrow> nat \<Rightarrow> nat \<Rightarrow> ('d, 'f, 'm, 'a) handlers \<Rightarrow> ('d, 'f, 'm, 'a) component \<Rightarrow>
     ('d, 'f, 'm, 'a) component flow" where
  "execute fuel max_events max_messages H c =
     or_abort (from_current (state c)) (\<lambda>ls.
       if ls = Destroyed \<or> ls = Faulty then Return NoWork c
       else case inner_execute fuel max_events max_messages H c of
              Unwind c1 \<Rightarrow> Return NoWork (handle_recoverable_error (c1\<lparr>mutex_poisoned := True\<rparr>))
            | fl \<Rightarrow> fl)"

subsection \<open>Accounting of work\<close>

definition pending :: "('d, 'f, 'm, 'a) component \<Rightarrow> nat" where
  "pending c = length (ctrl_queue c) + length (msg_queue c) + length (timer_queue (timers c)) + port_pending c"

text \<open>\<open>cnt\<close> items have been taken but not subtracted yet; \<open>leak\<close> is what was never accounted for.\<close>

definition acc :: "nat \<Rightarrow> ('d, 'f, 'm, 'a) component \<Rightarrow> nat \<Rightarrow> bool" where
  "acc leak c cnt \<longleftrightarrow> flag_code (state c) \<le> 4 \<and> work_count (state c) = pending c + cnt + leak"

definition ended :: "('d, 'f, 'm, 'a) component \<Rightarrow> bool" where
  "ended c \<longleftrightarrow> flag_code (state c) = 2 \<or> flag_code (state c) = 3"

text \<open>What the generated port code does: it handles no more events than allowed, and only queued ones, some of which may have come while it ran.\<close>

definition port_events :: "('m, 'a, 'f) effect list \<Rightarrow> nat" where
  "port_events es = length (filter (\<lambda>e. e = EffPort) es)"

definition ports_documented :: "('d, 'f, 'm, 'a) handlers \<Rightarrow> bool" where
  "ports_documented H \<longleftrightarrow>
     (\<forall>rem sk p d d' es res. execute_ports H rem sk p d = (d', es, Some res) \<longrightarrow>
        res_count res \<le> rem \<and> res_count res \<le> p + port_events es)"

fun flow_acc :: "nat \<Rightarrow> ('d, 'f, 'm, 'a) component flow \<Rightarrow> bool" where
  "flow_acc leak (Run c cnt) = acc leak c cnt"
| "flow_acc leak (Return d c) \<longleftrightarrow> ended c \<or>
     acc leak c 0 \<and> (d = NoWork \<longrightarrow> work_count (state c) = 0) \<and> d \<noteq> AlreadyScheduled"
| "flow_acc leak _ = True"

lemmas set_defs = set_active_def set_passive_def set_destroyed_def set_faulty_def set_blocking_def

lemma announce_work_facts:
  assumes "announce_work c = Ok c'" "flag_code (state c) \<le> 4"
  shows "\<exists>w n. c' = c\<lparr>state := w, schedule_calls := n\<rparr> \<and> flag_code w = flag_code (state c) \<and>
    work_count w = work_count (state c) + 1"
proof (cases "work_count (state c) + 1 < 2 ^ 61")
  case True
  with assms increment_work_eq [OF assms(2) True] add_one_split [OF True] show ?thesis
    by (auto simp: announce_work_def)
next
  case False
  with assms(1) increment_work_full [of "state c"] show ?thesis by (simp add: announce_work_def)
qed

lemma apply_effect_acc:
  assumes "apply_effect e c = Ok c'" "acc leak c cnt"
  shows "acc leak c' cnt \<and> flag_code (state c') = flag_code (state c) \<and>
    port_pending c \<le> port_pending c' \<and> blocking_future c' = blocking_future c"
proof -
  have "flag_code (state c) \<le> 4" using assms(2) by (simp add: acc_def)
  with assms show ?thesis
    by (cases e) (auto simp: acc_def pending_def enqueue_control_def rbind_eq_Ok schedule_once_def
        schedule_periodic_def cancel_timer_def dest!: announce_work_facts)
qed

lemma apply_effects_acc:
  "apply_effects es c = Ok c' \<Longrightarrow> acc leak c cnt \<Longrightarrow>
     acc leak c' cnt \<and> flag_code (state c') = flag_code (state c) \<and>
     port_pending c \<le> port_pending c' \<and> blocking_future c' = blocking_future c"
proof (induction es arbitrary: c)
  case (Cons e es)
  then obtain c1 where c1: "apply_effect e c = Ok c1" "apply_effects es c1 = Ok c'"
    by (auto simp: rbind_eq_Ok)
  from apply_effect_acc [OF c1(1) Cons.prems(2)] Cons.IH [OF c1(2)] show ?case by auto
qed simp

lemma apply_effects_ports: "apply_effects es c = Ok c' \<Longrightarrow> port_pending c' = port_pending c + port_events es"
proof (induction es arbitrary: c)
  case (Cons e es)
  then obtain c1 where c1: "apply_effect e c = Ok c1" "apply_effects es c1 = Ok c'" by (auto simp: rbind_eq_Ok)
  have "port_pending c1 = port_pending c + (if e = EffPort then 1 else 0)"
    using c1(1) by (cases e) (auto simp: enqueue_control_def announce_work_def rbind_eq_Ok)
  then show ?case using Cons.IH [OF c1(2)] by (simp add: port_events_def)
qed (simp add: port_events_def)

lemma call_handler_acc:
  assumes "call_handler h c = Ok (r, c')" "acc leak c cnt"
  shows "acc leak c' cnt \<and> flag_code (state c') = flag_code (state c) \<and>
    port_pending c \<le> port_pending c' \<and> blocking_future c' = blocking_future c"
proof -
  obtain d es where h: "apply_effects es (c\<lparr>cdef := d\<rparr>) = Ok c'"
    using assms(1) by (auto simp: call_handler_def Let_def rbind_eq_Ok split: prod.splits)
  have "acc leak (c\<lparr>cdef := d\<rparr>) cnt" using assms(2) by (simp add: acc_def pending_def)
  from apply_effects_acc [OF h this] show ?thesis by simp
qed

lemma set_state_acc:
  assumes "unat f = k * 2 ^ 61" "k \<le> 4" "acc leak c cnt"
  shows "acc leak (c\<lparr>state := set_state f (state c)\<rparr>) cnt \<and> flag_code (set_state f (state c)) = k"
  using assms set_state_split [OF assms(1), of "state c"] by (simp add: acc_def pending_def)

lemmas set_flag_acc =
  set_state_acc [of ACTIVE 0, simplified] set_state_acc [of PASSIVE 1, simplified]
  set_state_acc [of DESTROYED 2, simplified] set_state_acc [of FAULTY 3, simplified]
  set_state_acc [of BLOCKING 4, simplified]

lemma acc_notify [simp]: "acc leak (notify m c) cnt = acc leak c cnt"
  by (simp add: notify_def acc_def pending_def)

lemma state_notify [simp]: "state (notify m c) = state c"
  by (simp add: notify_def)

lemma lifecycle_acc:
  assumes "acc leak c cnt"
  shows "acc leak (comp_set_active c) cnt" "acc leak (comp_set_passive c) cnt"
    "acc leak (comp_set_destroyed c) cnt" "acc leak (notify_started c) cnt" "acc leak (unblock tr c) cnt"
    "acc leak (control_done ev c) cnt"
proof -
  show a: "acc leak (comp_set_active c) cnt" and p: "acc leak (comp_set_passive c) cnt"
    and d: "acc leak (comp_set_destroyed c) cnt" and n: "acc leak (notify_started c) cnt"
    using set_flag_acc [OF assms] assms
    by (simp_all add: comp_set_active_def comp_set_passive_def comp_set_destroyed_def notify_started_def
        set_defs)
  show "acc leak (unblock tr c) cnt"
    using a p d by (cases tr) (simp_all add: notify_started_def)
  show "acc leak (control_done ev c) cnt"
    using p d n assms by (cases ev) simp_all
qed

lemma ended_set_destroyed [simp]: "ended (comp_set_destroyed c)"
  using set_flag_split(3) [of "state c"]
  by (simp add: ended_def comp_set_destroyed_def set_defs)

lemma ended_recoverable [simp]: "ended (handle_recoverable_error c)"
  using set_flag_split(4) [of "state c"]
  by (simp add: ended_def handle_recoverable_error_def Let_def set_defs)

lemma ended_unrecoverable [simp]: "ended (handle_unrecoverable_error c)"
  using set_flag_split(3) [of "state c"] ended_set_destroyed [of c]
  by (simp add: ended_def handle_unrecoverable_error_def set_defs)

lemma handle_handler_error_cases:
  "handle_handler_error e c = (None, c') \<Longrightarrow> c' = c \<and> e = Benign"
  "handle_handler_error e c = (Some d, c') \<Longrightarrow> ended c' \<and> d = NoWork"
  by (cases e; auto)+

lemma shutdown_flow_acc [simp]: "flow_acc leak (shutdown_from_handler H c)"
  by (auto simp: shutdown_from_handler_def or_abort_def split: rresult.splits hresult.splits handled.splits)

lemma set_blocking_acc:
  "acc leak c cnt \<Longrightarrow> set_blocking_with_state f tr c = Run c' n \<Longrightarrow> acc leak c' cnt"
  using set_flag_acc(5) [of leak c cnt]
  by (auto simp: set_blocking_with_state_def acc_def pending_def set_defs split: if_splits)

lemma run_blocking_task_acc:
  assumes "run_blocking_task H c = Ok (r, c')" "acc leak c cnt"
  shows "acc leak c' cnt"
proof (cases "blocking_future c")
  case None
  with assms show ?thesis by (simp add: run_blocking_task_def)
next
  case (Some ft)
  obtain f tr where ft: "ft = (f, tr)" by force
  obtain p c1 where c1: "call_handler (poll_future H f) (c\<lparr>blocking_future := None\<rparr>) = Ok (p, c1)"
    using assms(1) by (auto simp: run_blocking_task_def Some ft rbind_eq_Ok)
  have "acc leak (c\<lparr>blocking_future := None\<rparr>) cnt" using assms(2) by (simp add: acc_def pending_def)
  from call_handler_acc [OF c1 this] have a1: "acc leak c1 cnt" by simp
  then have "acc leak (c1\<lparr>blocking_future := x\<rparr>) cnt" for x by (simp add: acc_def pending_def)
  with a1 lifecycle_acc [OF a1] assms(1) show ?thesis
    by (auto simp: run_blocking_task_def Some ft c1 split: poll.splits hresult.splits handled.splits if_splits)
qed

lemma after_blocking_acc:
  assumes "acc leak c 0" and "r = HRet HOk \<or> r = HErr Benign \<Longrightarrow> flow_acc leak (ok c)"
  shows "flow_acc leak (after_blocking H r ok c)"
proof (cases r)
  case (HRet h)
  then show ?thesis
  proof (cases h)
    case (BlockOn f)
    then show ?thesis
      using HRet set_blocking_acc [OF assms(1), of f ToActive]
      by (cases "set_blocking_with_state f ToActive c") (auto simp: after_blocking_def set_blocking_with_state_def
        split: if_splits)
  qed (use assms HRet in \<open>simp_all add: after_blocking_def\<close>)
next
  case (HErr e)
  then show ?thesis using assms(2)
    by (auto simp: after_blocking_def dest: handle_handler_error_cases split: prod.splits option.splits)
qed (simp add: after_blocking_def)

lemma finish_decrement:
  assumes "acc leak c cnt" "decrement_work (state c) cnt = Ok (d, w)"
  shows "acc leak (c\<lparr>state := w\<rparr>) 0 \<and> d = (if work_count w > 0 then Schedule else NoWork)"
proof -
  have "cnt \<le> work_count (state c)" using assms(1) by (simp add: acc_def)
  with decrement_Ok_valid [OF assms(2) this] assms(1) show ?thesis
    by (auto simp: acc_def pending_def)
qed

lemma finish_work_acc: "acc leak c cnt \<Longrightarrow> flow_acc leak (finish_work c cnt)"
proof (cases "decrement_work (state c) cnt")
  case (Ok dw)
  obtain d w where dw: "dw = (d, w)" by force
  assume "acc leak c cnt"
  from finish_decrement [OF this Ok [unfolded dw]] Ok dw show ?thesis
    by (simp add: finish_work_def or_abort_def)
qed (simp_all add: finish_work_def or_abort_def)

lemma run_blocking_acc:
  assumes "acc leak c cnt"
  shows "flow_acc leak (run_blocking H c cnt)"
proof (cases "run_blocking_task H c")
  case (Ok rc)
  obtain r c1 where rc: "rc = (r, c1)" by force
  have a1: "acc leak c1 cnt" using run_blocking_task_acc [OF _ assms] Ok rc by simp
  show ?thesis
  proof (cases "decrement_work (state c1) cnt")
    case (Ok dw)
    obtain d w where dw: "dw = (d, w)" by force
    have f: "acc leak (c1\<lparr>state := w\<rparr>) 0" "d = (if work_count w > 0 then Schedule else NoWork)"
      using finish_decrement [OF a1] Ok dw by auto
    have "flow_acc leak (after_blocking H r' (\<lambda>c3. Return (or_use NoWork d) c3) (c1\<lparr>state := w\<rparr>))" for r'
      by (rule after_blocking_acc [OF f(1)]) (use f in auto)
    with Ok dw \<open>run_blocking_task H c = _\<close> rc f(1) show ?thesis
      by (auto simp: run_blocking_def or_abort_def Let_def split: option.splits)
  qed (use \<open>run_blocking_task H c = _\<close> rc in \<open>auto simp: run_blocking_def or_abort_def\<close>)
qed (simp_all add: run_blocking_def or_abort_def)

lemma set_then_run_blocking_acc:
  "acc leak c cnt \<Longrightarrow>
     flow_acc leak (flow_bind (set_blocking_with_state f tr c) (\<lambda>c1 _. run_blocking H c1 cnt))"
  using set_blocking_acc [of leak c cnt f tr] run_blocking_acc
  by (cases "set_blocking_with_state f tr c") (auto simp: set_blocking_with_state_def split: if_splits)

lemma check_acc:
  assumes "acc leak c cnt"
  shows "flow_acc leak (check_and_handle_blocking H res c cnt)"
  using assms set_then_run_blocking_acc [OF assms]
  by (auto simp: check_and_handle_blocking_def dest: handle_handler_error_cases
      split: hresult.splits handled.splits prod.splits option.splits)

lemma flow_bind_acc:
  assumes "flow_acc leak fl" and "\<And>c n. acc leak c n \<Longrightarrow> flow_acc leak' (k c n)" and "leak' = leak"
  shows "flow_acc leak' (flow_bind fl k)"
  using assms by (cases fl) auto

lemma run_nonblocking_acc:
  assumes "run_nonblocking_task H tag c = Ok (r, c')" "acc leak c cnt"
  shows "acc leak c' cnt"
proof (cases "map_of (non_blocking_futures c) tag")
  case None
  with assms show ?thesis by (simp add: run_nonblocking_task_def)
next
  case (Some f)
  obtain p c1 where c1: "call_handler (poll_future H f) c = Ok (p, c1)"
    using assms(1) by (auto simp: run_nonblocking_task_def Some rbind_eq_Ok)
  from call_handler_acc [OF c1 assms(2)] have a1: "acc leak c1 cnt" by simp
  then have "acc leak (c1\<lparr>non_blocking_futures := x\<rparr>) cnt" for x by (simp add: acc_def pending_def)
  with a1 assms(1) show ?thesis
    by (auto simp: run_nonblocking_task_def Some c1 split: poll.splits hresult.splits)
qed

lemma control_handler_acc:
  assumes "control_handler H ev c = Ok (r, c')" "acc leak c cnt"
  shows "acc leak c' cnt"
  using assms set_flag_acc [OF assms(2)] run_nonblocking_acc
  by (cases ev) (auto simp: set_defs dest!: call_handler_acc)

lemma acc_pop_ctrl:
  "acc leak c cnt \<Longrightarrow> ctrl_queue c = e # rest \<Longrightarrow> acc leak (c\<lparr>ctrl_queue := rest\<rparr>) (cnt + 1)"
  by (simp add: acc_def pending_def)

lemma control_event_acc:
  assumes "acc leak c (cnt + 1)"
  shows "flow_acc leak (control_event_step H ev c cnt)"
proof (cases "control_handler H ev c")
  case (Ok rc)
  obtain r c1 where rc: "rc = (r, c1)" by force
  then have a1: "acc leak c1 (cnt + 1)" using control_handler_acc [OF _ assms] Ok by simp
  show ?thesis
    using a1 lifecycle_acc [OF a1] set_then_run_blocking_acc [OF a1]
    by (auto simp: control_event_step_def or_abort_def Ok rc Let_def dest: handle_handler_error_cases
        split: hresult.splits handled.splits handler_error.splits prod.splits option.splits)
qed (simp_all add: control_event_step_def or_abort_def)

lemma control_loop_acc: "acc leak c cnt \<Longrightarrow> flow_acc leak (control_loop fuel H c cnt)"
proof (induction fuel arbitrary: c cnt)
  case 0
  then show ?case by (simp add: control_loop.simps [of 0] split: list.split)
next
  case (Suc n)
  show ?case
  proof (cases "ctrl_queue c")
    case Nil
    then show ?thesis using Suc.prems by (simp add: control_loop.simps [of "Suc n"])
  next
    case (Cons e rest)
    have "flow_acc leak (control_event_step H e (c\<lparr>ctrl_queue := rest\<rparr>) cnt)"
      by (rule control_event_acc) (rule acc_pop_ctrl [OF Suc.prems Cons])
    from flow_bind_acc [OF this Suc.IH] show ?thesis
      by (simp add: control_loop.simps [of "Suc n"] Cons)
  qed
qed

text \<open>A popped timeout without a handle leaves the loop and is not counted.\<close>

lemma try_action_queue:
  assumes "try_action tm = (act, tm')"
  shows "(case act of ActNone \<Rightarrow> length (timer_queue tm') \<le> length (timer_queue tm) \<and>
      length (timer_queue tm) \<le> length (timer_queue tm') + 1
    | _ \<Rightarrow> length (timer_queue tm) = length (timer_queue tm') + 1)"
  using assms
  by (auto simp: try_action_def Let_def split: list.splits option.splits timer_handle.splits)

definition timer_flow_acc :: "nat \<Rightarrow> ('d, 'f, 'm, 'a) component flow \<Rightarrow> bool" where
  "timer_flow_acc leak fl \<longleftrightarrow> flow_acc leak fl \<or> flow_acc (leak + 1) fl"

lemma timer_handler_acc:
  assumes "acc leak (c\<lparr>timers := tm\<rparr>) (cnt + 1)"
    and "\<And>c n. acc leak c n \<Longrightarrow> timer_flow_acc leak (k c n)"
  shows "timer_flow_acc leak (or_abort (call_handler h (c\<lparr>timers := tm\<rparr>)) (\<lambda>(res, c1).
    flow_bind (check_and_handle_blocking H res c1 (cnt + 1)) k))"
proof (cases "call_handler h (c\<lparr>timers := tm\<rparr>)")
  case (Ok rc)
  obtain r c1 where rc: "rc = (r, c1)" by force
  from call_handler_acc [OF Ok [unfolded rc] assms(1)] have "acc leak c1 (cnt + 1)" by simp
  then have "flow_acc leak (check_and_handle_blocking H r c1 (cnt + 1))" by (rule check_acc)
  with assms(2) show ?thesis
    by (cases "check_and_handle_blocking H r c1 (cnt + 1)")
      (auto simp: or_abort_def Ok rc timer_flow_acc_def)
qed (simp_all add: or_abort_def timer_flow_acc_def)

lemma timer_loop_acc: "acc leak c cnt \<Longrightarrow> timer_flow_acc leak (timer_loop n H c cnt)"
proof (induction n arbitrary: c cnt)
  case 0
  then show ?case by (simp add: timer_flow_acc_def)
next
  case (Suc n)
  obtain act tm where ta: "try_action (timers c) = (act, tm)" by force
  note q = try_action_queue [OF ta]
  show ?case
  proof (cases act)
    case ActNone
    then have "timer_queue tm = timer_queue tm \<and> (length (timer_queue tm) = length (timer_queue (timers c)) \<or>
        length (timer_queue (timers c)) = length (timer_queue tm) + 1)" using q by auto
    then show ?thesis using Suc.prems ActNone ta
      by (auto simp: timer_flow_acc_def acc_def pending_def)
  next
    case (ActPeriodic u a)
    then have "acc leak (c\<lparr>timers := tm\<rparr>) (cnt + 1)"
      using Suc.prems q by (simp add: acc_def pending_def)
    from timer_handler_acc [OF this Suc.IH] show ?thesis by (simp add: ta ActPeriodic)
  next
    case (ActOnce u a)
    then have "acc leak (c\<lparr>timers := tm\<rparr>) (cnt + 1)"
      using Suc.prems q by (simp add: acc_def pending_def)
    from timer_handler_acc [OF this Suc.IH] show ?thesis by (simp add: ta ActOnce)
  qed
qed

lemma message_loop_acc: "acc leak c cnt \<Longrightarrow> flow_acc leak (message_loop n H c cnt)"
proof (induction n arbitrary: c cnt)
  case (Suc n)
  show ?case
  proof (cases "msg_queue c")
    case (Cons env rest)
    have a: "acc leak (c\<lparr>msg_queue := rest\<rparr>) (cnt + 1)"
      using Suc.prems Cons by (simp add: acc_def pending_def)
    show ?thesis
    proof (cases "call_handler (receive H env) (c\<lparr>msg_queue := rest\<rparr>)")
      case (Ok rc)
      obtain r c1 where rc: "rc = (r, c1)" by force
      from call_handler_acc [OF Ok [unfolded rc] a] have "acc leak c1 (cnt + 1)" by simp
      from flow_bind_acc [OF check_acc [OF this] Suc.IH] show ?thesis
        by (simp add: Cons or_abort_def Ok rc)
    qed (simp_all add: Cons or_abort_def)
  qed (use Suc.prems in simp)
qed simp

lemma port_outcome_acc: "flow_acc leak (next c) \<Longrightarrow> flow_acc leak (port_outcome H res next c)"
  by (auto simp: port_outcome_def dest: handle_handler_error_cases split: option.splits prod.splits)

lemma port_step_acc:
  assumes "acc leak c cnt" "ports_documented H"
  shows "flow_acc leak (port_step H rem c cnt)"
proof (cases "call_handler (execute_ports H rem (skip c) (port_pending c)) c")
  case (Ok rc)
  obtain ro c1 where rc: "rc = (ro, c1)" by force
  have a1: "acc leak c1 cnt"
    using call_handler_acc [OF Ok [unfolded rc] assms(1)] by auto
  show ?thesis
  proof (cases ro)
    case (Some res)
    obtain d es where ex: "execute_ports H rem (skip c) (port_pending c) (cdef c) = (d, es, Some res)" "apply_effects es (c\<lparr>cdef := d\<rparr>) = Ok c1"
      using Ok by (auto simp: call_handler_def rc Some Let_def rbind_eq_Ok split: prod.splits)
    have le: "res_count res \<le> port_pending c1"
      using assms(2) ex(1) apply_effects_ports [OF ex(2)] unfolding ports_documented_def by fastforce
    let ?c2 = "c1\<lparr>skip := res_skip res, port_pending := port_pending c1 - res_count res\<rparr>"
    have a2: "acc leak ?c2 (cnt + res_count res)"
      using a1 le by (simp add: acc_def pending_def)
    have "flow_acc leak (flow_bind (set_blocking_with_state f ToActive ?c2)
        (\<lambda>c3 _. port_outcome H res (\<lambda>c4. run_blocking H c4 (cnt + res_count res)) c3))" for f
    proof (cases "set_blocking_with_state f ToActive ?c2")
      case (Run c3 n)
      have "flow_acc leak (run_blocking H c3 (cnt + res_count res))"
        by (rule run_blocking_acc) (rule set_blocking_acc [OF a2 Run])
      with Run show ?thesis by (simp add: port_outcome_acc)
    qed (auto simp: set_blocking_with_state_def split: if_splits)
    moreover have "flow_acc leak (port_outcome H res (\<lambda>c3. Run c3 (cnt + res_count res)) ?c2)"
      using a2 by (simp add: port_outcome_acc)
    ultimately show ?thesis
      by (simp add: port_step_def or_abort_def Ok rc Some Let_def split: option.split)
  qed (simp add: port_step_def or_abort_def Ok rc)
qed (simp_all add: port_step_def or_abort_def)

lemma unblocked_flag:
  assumes "run_blocking_task H c = Ok (Some r, c')" "r = HRet HOk \<or> r = HErr Benign"
  shows "flag_code (state c') \<le> 2"
proof (cases "blocking_future c")
  case None
  with assms show ?thesis by (auto simp: run_blocking_task_def)
next
  case (Some ft)
  have fl: "flag_code (state (comp_set_destroyed c1)) \<le> 2" "flag_code (state (unblock tr c1)) \<le> 2" for tr c1
    using set_flag_split [of "state c1"]
    by (cases tr; simp add: comp_set_active_def comp_set_passive_def comp_set_destroyed_def
        notify_started_def set_defs)+
  obtain f tr where ft: "ft = (f, tr)" by force
  obtain p c1 where c1: "call_handler (poll_future H f) (c\<lparr>blocking_future := None\<rparr>) = Ok (p, c1)"
    using assms(1) by (auto simp: run_blocking_task_def Some ft rbind_eq_Ok)
  from assms fl show ?thesis
    by (auto simp: run_blocking_task_def Some ft c1
        split: poll.splits hresult.splits handled.splits if_splits)
qed

lemma resume_acc:
  assumes "acc leak c 0" "flag_code (state c) \<le> 2"
  shows "flow_acc leak (or_abort (or_from NoWork (\<lambda>_. get_scheduling_decision (state c))) (\<lambda>d. Return d c))"
  using assms
  by (auto simp: or_from_def get_scheduling_decision_def from_current_eq or_abort_def ended_def)

lemma run_active_acc:
  fixes c :: "('d, 'f, 'm, 'a) component"
  assumes "acc leak c cnt" "ports_documented H"
  shows "timer_flow_acc leak (run_active me mm H c cnt)"
proof -
  have rest: "flow_acc l (flow_bind (message_loop (mm - cnt1) H c1 cnt1) (\<lambda>c2 cnt2.
     flow_bind
       (let rem_events = me - cnt2 in
        if rem_events > 0
        then flow_bind (port_step H rem_events c2 cnt2) (\<lambda>c3 cnt3. message_loop (me - cnt3) H c3 cnt3)
        else Run c2 cnt2) finish_work))" if "acc l c1 cnt1" for l and c1 :: "('d, 'f, 'm, 'a) component" and cnt1
  proof (rule flow_bind_acc [OF message_loop_acc [OF that] _ refl])
    fix c2 :: "('d, 'f, 'm, 'a) component" and cnt2 assume a2: "acc l c2 cnt2"
    have ports: "flow_acc l (flow_bind (port_step H r c2 cnt2) (\<lambda>c3 cnt3. message_loop (me - cnt3) H c3 cnt3))" for r
      by (rule flow_bind_acc [OF port_step_acc [OF a2 assms(2)] message_loop_acc refl])
    show "flow_acc l (flow_bind
       (let rem_events = me - cnt2 in
        if rem_events > 0
        then flow_bind (port_step H rem_events c2 cnt2) (\<lambda>c3 cnt3. message_loop (me - cnt3) H c3 cnt3)
        else Run c2 cnt2) finish_work)"
      by (rule flow_bind_acc [OF _ finish_work_acc refl]) (use ports a2 in \<open>simp add: Let_def\<close>)
  qed
  from timer_loop_acc [OF assms(1), of "me - cnt" H]
  consider "flow_acc leak (timer_loop (me - cnt) H c cnt)" | "flow_acc (leak + 1) (timer_loop (me - cnt) H c cnt)"
    by (auto simp: timer_flow_acc_def)
  then show ?thesis
  proof cases
    case 1
    show ?thesis unfolding timer_flow_acc_def run_active_def
      by (rule disjI1) (rule flow_bind_acc [OF 1 rest refl])
  next
    case 2
    show ?thesis unfolding timer_flow_acc_def run_active_def
      by (rule disjI2) (rule flow_bind_acc [OF 2 rest refl])
  qed
qed

lemma inner_execute_acc:
  assumes "acc leak c 0" "ports_documented H"
  shows "timer_flow_acc leak (inner_execute fuel me mm H c)"
proof -
  have blocked: "flow_acc leak (or_abort (run_blocking_task H c) (\<lambda>(run_res, c1).
      case run_res of
        None \<Rightarrow> Return Blocked c1
      | Some r \<Rightarrow> after_blocking H r
            (\<lambda>c2. or_abort (or_from NoWork (\<lambda>_. get_scheduling_decision (state c2))) (\<lambda>d. Return d c2)) c1))"
  proof (cases "run_blocking_task H c")
    case (Ok rc)
    obtain r c1 where rc: "rc = (r, c1)" by force
    have a1: "acc leak c1 0" by (rule run_blocking_task_acc [OF Ok [unfolded rc] assms(1)])
    show ?thesis
    proof (cases r)
      case None
      then show ?thesis using a1 by (simp add: or_abort_def Ok rc)
    next
      case (Some r')
      have "flow_acc leak (after_blocking H r'
            (\<lambda>c2. or_abort (or_from NoWork (\<lambda>_. get_scheduling_decision (state c2))) (\<lambda>d. Return d c2)) c1)"
        by (rule after_blocking_acc [OF a1])
          (rule resume_acc [OF a1 unblocked_flag [OF Ok [unfolded rc Some]]])
      then show ?thesis by (simp add: or_abort_def Ok rc Some)
    qed
  qed (simp_all add: or_abort_def)
  have normal: "timer_flow_acc leak (flow_bind (control_loop fuel H c 0) (\<lambda>c1 cnt.
          if \<not> is_active (state c1) then finish_work c1 cnt else run_active me mm H c1 cnt))"
    using control_loop_acc [OF assms(1), of fuel H] run_active_acc [OF _ assms(2)] finish_work_acc
    by (cases "control_loop fuel H c 0") (auto simp: timer_flow_acc_def)
  show ?thesis
    using blocked normal by (simp add: inner_execute_def timer_flow_acc_def)
qed

lemma execute_acc:
  assumes "acc leak c 0" "ports_documented H"
  shows "timer_flow_acc leak (execute fuel me mm H c)"
proof -
  have "flag_code (state c) \<in> {0, 1, 2, 3, 4}" using assms(1) by (auto simp: acc_def)
  then have "\<exists>ls. from_current (state c) = Ok ls \<and> (ls = Destroyed \<or> ls = Faulty \<longrightarrow> ended c)"
    by (auto simp: from_current_eq ended_def)
  then obtain ls where ls: "from_current (state c) = Ok ls"
    "ls = Destroyed \<or> ls = Faulty \<longrightarrow> ended c" by blast
  with inner_execute_acc [OF assms, of fuel me mm] show ?thesis
    by (cases "inner_execute fuel me mm H c") (auto simp: execute_def or_abort_def timer_flow_acc_def)
qed

subsection \<open>Properties\<close>


text \<open>A component definition that does nothing, and a component with it.\<close>

definition idle_handlers :: "(unit, unit, nat, unit) handlers" where
  "idle_handlers = \<lparr>on_start = (\<lambda>d. (d, [], HRet HOk)), on_stop = (\<lambda>d. (d, [], HRet HOk)),
     on_kill = (\<lambda>d. (d, [], HRet HOk)), receive = (\<lambda>_ d. (d, [], HRet HOk)),
     run_timer = (\<lambda>_ _ d. (d, [], HRet HOk)), poll_future = (\<lambda>_ d. (d, [], Ready (HRet HOk))),
     execute_ports = (\<lambda>rem sk p d. (d, [],
       Some \<lparr>res_blocking = None, res_shutdown = False, res_error = None, res_count = 0, res_skip = sk\<rparr>))\<rparr>"

lemma idle_ports_documented: "ports_documented idle_handlers"
  by (simp add: ports_documented_def idle_handlers_def)

definition demo_component :: "u64 \<Rightarrow> (unit, unit, nat, unit) component" where
  "demo_component w = \<lparr>state = w, ctrl_queue = [], msg_queue = [], port_pending = 0,
     timers = timer_manager_new, blocking_future = None, non_blocking_futures = [], skip = 0, cdef = (),
     supervised = True, supervisor_queue = [], recovery = DefaultRecovery, recovery_lock_ok = True,
     mutex_poisoned = False, system_poisoned = False, schedule_calls = 0\<rparr>"

lemma state_words:
  "flag_code (ACTIVE + 1) = 0" "work_count (ACTIVE + 1) = 1"
  "flag_code (PASSIVE + 1) = 1" "work_count (PASSIVE + 1) = 1" "flag_code ACTIVE = 0" "work_count ACTIVE = 0"
  using add_one_split [of ACTIVE] add_one_split [of PASSIVE]
  by (simp_all add: flag_code_def work_count_def)

lemma finish_work_eq:
  "cnt \<le> work_count (state c) \<Longrightarrow> finish_work c cnt =
     Return (if cnt < work_count (state c) then Schedule else NoWork) (c\<lparr>state := state c - of_nat cnt\<rparr>)"
  using decrement_work_eq [of cnt "state c"] work_count_less [of "state c"]
  by (simp add: finish_work_def or_abort_def)

lemma from_current_alive:
  assumes "flag_code w \<le> 1"
  shows "\<exists>ls. from_current w = Ok ls \<and> ls \<noteq> Destroyed \<and> ls \<noteq> Faulty"
  using assms by (auto simp: from_current_eq)

lemma execute_normal:
  assumes "flag_code (state c) \<le> 1" "\<not> mutex_poisoned c" "blocking_future c = None" "ctrl_queue c = []"
  shows "execute fuel me mm H c =
    (case (if flag_code (state c) = 1 then finish_work c 0 else run_active me mm H c 0) of
       Unwind c1 \<Rightarrow> Return NoWork (handle_recoverable_error (c1\<lparr>mutex_poisoned := True\<rparr>)) | fl \<Rightarrow> fl)"
proof -
  have "flag_code (state c) = 0 \<or> flag_code (state c) = 1" using assms(1) by auto
  then show ?thesis
    using assms(2-)
    by (auto simp: execute_def or_abort_def from_current_eq inner_execute_def control_loop.simps is_flag_iff)
qed


text \<open>
  a timeout that expires after its timer has been cancelled makes an otherwise idle component
  run forever: popping it is not counted as work done, so the work count stays above zero and
  every execution, with all queues empty and nothing changed, asks to be scheduled again.
\<close>

theorem cancelled_timeout_livelock:
  assumes "flag_code (state c) = 0" and "work_count (state c) = 1" and "\<not> mutex_poisoned c"
    and "blocking_future c = None" and "ctrl_queue c = []" and "msg_queue c = []" and "port_pending c = 0"
    and "timer_queue (timers c) = [u]" and "map_of (handles (timers c)) u = None"
    and "\<And>rem sk d. execute_ports H rem sk 0 d = (d, [], Some \<lparr>res_blocking = None, res_shutdown = False,
           res_error = None, res_count = 0, res_skip = sk\<rparr>)"
    and "max_events > 0"
  shows "\<exists>c'. execute fuel max_events max_messages H c = Return Schedule c' \<and> pending c' = 0 \<and>
    work_count (state c') = 1 \<and> execute fuel max_events max_messages H c' = Return Schedule c'"
proof -
  obtain n where n: "max_events = Suc n" using assms(11) by (cases max_events) auto
  have idle: "run_active max_events max_messages H x 0 = Return Schedule x"
    if "timer_queue (timers x) = []" "state x = state c" "msg_queue x = []" "port_pending x = 0" for x
  proof -
    have "x\<lparr>skip := skip x, port_pending := 0\<rparr> = x" using that(4) by simp
    moreover have "message_loop k H x 0 = Run x 0" for k using that(3) by (cases k) simp_all
    ultimately show ?thesis
      using that assms(2,10)
      by (simp add: run_active_def n try_action_def port_step_def call_handler_def or_abort_def port_outcome_def
          finish_work_eq)
  qed
  let ?tm = "(timers c)\<lparr>timer_queue := [], handles := AList.delete u (handles (timers c))\<rparr>"
  let ?c' = "c\<lparr>timers := ?tm\<rparr>"
  have "run_active max_events max_messages H c 0 = run_active max_events max_messages H ?c' 0"
    using assms(8,9) by (simp add: run_active_def n try_action_def Let_def)
  with idle [of ?c'] have r: "run_active max_events max_messages H c 0 = Return Schedule ?c'"
    using assms(6,7) by simp
  have "execute fuel max_events max_messages H c = Return Schedule ?c'"
    using execute_normal [of c fuel max_events max_messages H] assms(1-5) r by simp
  moreover have "execute fuel max_events max_messages H ?c' = Return Schedule ?c'"
    using execute_normal [of ?c' fuel max_events max_messages H] assms(1-7) idle [of ?c'] by simp
  ultimately show ?thesis using assms(2,5-7) by (auto simp: pending_def)
qed

theorem cancelled_timeout_livelock_witness:
  "\<exists>c'. execute 0 5 5 idle_handlers
       ((demo_component (ACTIVE + 1))\<lparr>timers := timer_manager_new\<lparr>timer_queue := [7]\<rparr>\<rparr>) = Return Schedule c' \<and>
     pending c' = 0 \<and> execute 0 5 5 idle_handlers c' = Return Schedule c'"
proof -
  let ?c = "(demo_component (ACTIVE + 1))\<lparr>timers := timer_manager_new\<lparr>timer_queue := [7]\<rparr>\<rparr>"
  have "\<exists>c'. execute 0 5 5 idle_handlers ?c = Return Schedule c' \<and> pending c' = 0 \<and>
      work_count (state c') = 1 \<and> execute 0 5 5 idle_handlers c' = Return Schedule c'"
    by (rule cancelled_timeout_livelock [where u = 7])
      (simp_all add: demo_component_def state_words timer_manager_new_def idle_handlers_def)
  then show ?thesis by blast
qed

text \<open>
  executing a stopped (passive) component that has work other than control events queued
  changes nothing and asks to be scheduled again, so the scheduler keeps executing it until
  it is started.
\<close>

theorem passive_component_livelock:
  assumes "flag_code (state c) = 1" and "work_count (state c) > 0" and "\<not> mutex_poisoned c"
    and "blocking_future c = None" and "ctrl_queue c = []"
  shows "execute fuel max_events max_messages H c = Return Schedule c"
  using assms execute_normal [of c fuel max_events max_messages H] by (simp add: finish_work_eq)

theorem passive_component_livelock_witness:
  "execute 0 5 5 idle_handlers ((demo_component (PASSIVE + 1))\<lparr>msg_queue := [3]\<rparr>) =
     Return Schedule ((demo_component (PASSIVE + 1))\<lparr>msg_queue := [3]\<rparr>)"
  by (rule passive_component_livelock) (simp_all add: demo_component_def state_words)

lemma control_loop_step:
  "ctrl_queue c = e # rest \<Longrightarrow> control_loop (Suc n) H c cnt =
     flow_bind (control_event_step H e (c\<lparr>ctrl_queue := rest\<rparr>) cnt) (control_loop n H)"
  by (simp add: control_loop.simps [of "Suc n"])

lemma control_loop_empty: "ctrl_queue c = [] \<Longrightarrow> control_loop n H c cnt = Run c cnt"
  by (simp add: control_loop.simps)

text \<open>
  a start event that is queued behind a kill event is still executed: the component that
  has just been destroyed, and reported as killed to its supervisor, becomes active again.
\<close>

theorem start_after_kill_revives:
  assumes "ctrl_queue c = [Kill, Start]" and "supervised c"
    and "\<And>d. \<exists>d'. on_kill H d = (d', [], HRet HOk)" and "\<And>d. \<exists>d'. on_start H d = (d', [], HRet HOk)"
  shows "\<exists>c'. control_loop 2 H c 0 = Run c' 2 \<and> is_active (state c') \<and>
    supervisor_queue c' = supervisor_queue c @ [SupKilled, SupStarted]"
proof -
  obtain d1 where d1: "on_kill H (cdef c) = (d1, [], HRet HOk)" using assms(3) by blast
  obtain d2 where d2: "on_start H d1 = (d2, [], HRet HOk)" using assms(4) by blast
  let ?w = "set_destroyed (set_destroyed (state c))"
  have loop: "control_loop (Suc (Suc 0)) H c 0 =
      Run (c\<lparr>ctrl_queue := [], cdef := d2, state := set_active ?w,
             supervisor_queue := supervisor_queue c @ [SupKilled, SupStarted]\<rparr>) 2"
    using assms(1,2) d1 d2
    by (simp add: control_loop_step control_loop_empty control_event_step_def or_abort_def call_handler_def
        comp_set_destroyed_def notify_def notify_started_def)
  have "is_active (set_active ?w)"
    using set_flag_split(1) [of ?w] by (simp add: is_flag_iff set_defs)
  then show ?thesis unfolding numeral_2_eq_2 loop by simp
qed

theorem start_after_kill_revives_witness:
  "\<exists>c'. control_loop 2 idle_handlers ((demo_component ACTIVE)\<lparr>ctrl_queue := [Kill, Start]\<rparr>) 0 = Run c' 2 \<and>
     is_active (state c') \<and> supervisor_queue c' = [SupKilled, SupStarted]"
  using start_after_kill_revives [of "(demo_component ACTIVE)\<lparr>ctrl_queue := [Kill, Start]\<rparr>" idle_handlers]
  by (simp add: demo_component_def idle_handlers_def)

text \<open>
  C34: a panic during an execution is contained: the execution reports no work, the component
  is marked faulty, its work count is kept, exactly one fault with its recovery function
  reaches the supervisor (a component without one poisons the system), and no later
  execution runs or changes anything.
\<close>

theorem panic_is_contained:
  assumes "flag_code (state c) \<in> {0, 1, 4}"
    and "inner_execute fuel max_events max_messages H c = Unwind c1"
    and "recovery_lock_ok c1"
  shows "\<exists>c'. execute fuel max_events max_messages H c = Return NoWork c' \<and>
    is_faulty (state c') \<and> work_count (state c') = work_count (state c1) \<and>
    (if supervised c1 then supervisor_queue c' = supervisor_queue c1 @ [SupFaulty (recovery c1)] \<and>
       recovery c' = DefaultRecovery \<and> system_poisoned c' = system_poisoned c1
     else supervisor_queue c' = supervisor_queue c1 \<and> system_poisoned c') \<and>
    (\<forall>fuel' me mm. execute fuel' me mm H c' = Return NoWork c')"
proof -
  let ?c' = "handle_recoverable_error (c1\<lparr>mutex_poisoned := True\<rparr>)"
  have e: "execute fuel max_events max_messages H c = Return NoWork ?c'"
    using assms(1,2) by (auto simp: execute_def or_abort_def from_current_eq)
  have st: "state ?c' = set_state FAULTY (state c1)"
    by (simp add: handle_recoverable_error_def Let_def set_defs)
  have f: "flag_code (state ?c') = 3" "work_count (state ?c') = work_count (state c1)"
    using set_flag_split(4) [of "state c1"] by (simp_all add: st)
  have "execute fuel' me mm H ?c' = Return NoWork ?c'" for fuel' me mm
    by (simp add: execute_def or_abort_def from_current_eq f)
  with e f assms(3) show ?thesis
    by (intro exI [of _ ?c']) (simp add: is_flag_iff handle_recoverable_error_def Let_def notify_def)
qed

definition panicking_handlers :: "(unit, unit, nat, unit) handlers" where
  "panicking_handlers = idle_handlers\<lparr>receive := (\<lambda>_ d. (d, [], HPanic))\<rparr>"

theorem panic_is_contained_witness:
  "\<exists>c'. execute 0 5 5 panicking_handlers ((demo_component (ACTIVE + 1))\<lparr>msg_queue := [3]\<rparr>) = Return NoWork c' \<and>
     is_faulty (state c') \<and> supervisor_queue c' = [SupFaulty DefaultRecovery]"
proof -
  let ?c = "(demo_component (ACTIVE + 1))\<lparr>msg_queue := [3]\<rparr>"
  have u: "inner_execute 0 5 5 panicking_handlers ?c = Unwind (demo_component (ACTIVE + 1))"
    by (simp add: inner_execute_def control_loop_empty run_active_def is_flag_iff state_words eval_nat_numeral
        try_action_def timer_manager_new_def demo_component_def panicking_handlers_def idle_handlers_def
        call_handler_def or_abort_def check_and_handle_blocking_def)
  have f: "flag_code (state ?c) \<in> {0, 1, 4}" by (simp add: demo_component_def state_words)
  have l: "recovery_lock_ok (demo_component (ACTIVE + 1))" by (simp add: demo_component_def)
  from panic_is_contained [OF f u l] show ?thesis by (auto simp: demo_component_def)
qed

text \<open>
  a stopped component can become active without a start event: when a future polled by a
  control event blocks the component, unblocking always leads to the active state.
\<close>

theorem poll_activates_passive_component:
  assumes "flag_code (state c) = 1" and "blocking_future c = None" and "work_count (state c) > cnt"
    and "map_of (non_blocking_futures c) tag = Some f"
    and "\<And>d. poll_future H f d = (d, [], Ready (HRet (BlockOn g)))"
    and "\<And>d. poll_future H g d = (d, [], Ready (HRet HOk))"
  shows "\<exists>d c'. control_event_step H (Poll tag) c cnt = Return d c' \<and> is_active (state c') \<and>
    supervisor_queue c' = supervisor_queue c"
proof -
  let ?w = "set_active (set_blocking (state c))"
  have f: "flag_code ?w = 0" "work_count ?w = work_count (state c)"
    using set_flag_split(1) [of "set_blocking (state c)"] set_flag_split(5) [of "state c"]
    by (simp_all add: set_defs)
  have cnt: "Suc cnt \<le> work_count ?w" "Suc cnt < 2 ^ 64"
    using assms(3) f(2) work_count_less [of "state c"] by simp_all
  then obtain d where dec: "decrement_work ?w (Suc cnt) = Ok (d, ?w - of_nat (Suc cnt))"
    using decrement_work_eq [OF cnt(2), of ?w] by auto
  let ?c' = "c\<lparr>non_blocking_futures := AList.delete tag (non_blocking_futures c), blocking_future := None,
      state := ?w - of_nat (Suc cnt)\<rparr>"
  have "control_event_step H (Poll tag) c cnt = Return (or_use NoWork d) ?c'"
    using assms(2,4-6) dec
    by (simp add: control_event_step_def or_abort_def run_nonblocking_task_def call_handler_def
        set_blocking_with_state_def run_blocking_def run_blocking_task_def comp_set_active_def after_blocking_def)
  moreover have "is_active (state ?c')"
    using minus_split [OF cnt(1)] f(1) by (simp add: is_flag_iff)
  ultimately show ?thesis by auto
qed

definition blocking_handlers :: "(unit, bool, nat, unit) handlers" where
  "blocking_handlers = \<lparr>on_start = (\<lambda>d. (d, [], HRet HOk)), on_stop = (\<lambda>d. (d, [], HRet HOk)),
     on_kill = (\<lambda>d. (d, [], HRet HOk)), receive = (\<lambda>_ d. (d, [], HRet HOk)),
     run_timer = (\<lambda>_ _ d. (d, [], HRet HOk)),
     poll_future = (\<lambda>first d. (d, [], Ready (if first then HRet (BlockOn False) else HRet HOk))),
     execute_ports = (\<lambda>rem sk p d. (d, [],
       Some \<lparr>res_blocking = None, res_shutdown = False, res_error = None, res_count = 0, res_skip = sk\<rparr>))\<rparr>"

definition polling_component :: "(unit, bool, nat, unit) component" where
  "polling_component = \<lparr>state = PASSIVE + 1, ctrl_queue = [], msg_queue = [], port_pending = 0,
     timers = timer_manager_new, blocking_future = None, non_blocking_futures = [(1, True)], skip = 0,
     cdef = (), supervised = True, supervisor_queue = [], recovery = DefaultRecovery,
     recovery_lock_ok = True, mutex_poisoned = False, system_poisoned = False, schedule_calls = 0\<rparr>"

theorem poll_activates_passive_component_witness:
  "\<exists>d c'. control_event_step blocking_handlers (Poll 1) polling_component 0 = Return d c' \<and>
     is_active (state c') \<and> supervisor_queue c' = []"
  using poll_activates_passive_component [of polling_component 0 1 True blocking_handlers False]
  by (simp add: polling_component_def blocking_handlers_def state_words)

subsection \<open>The control loop ends\<close>

definition ctrl_free :: "('m, 'a, 'f) effect list \<Rightarrow> bool" where
  "ctrl_free es \<longleftrightarrow> (\<forall>e \<in> set es. case e of EffCtrl _ \<Rightarrow> False | EffSpawn _ _ \<Rightarrow> False | _ \<Rightarrow> True)"

text \<open>No lifecycle handler and no polled future enqueues further control events.\<close>

definition quiet_control :: "('d, 'f, 'm, 'a) handlers \<Rightarrow> bool" where
  "quiet_control H \<longleftrightarrow> (\<forall>d. ctrl_free (fst (snd (on_start H d))) \<and> ctrl_free (fst (snd (on_stop H d))) \<and>
     ctrl_free (fst (snd (on_kill H d))) \<and> (\<forall>f. ctrl_free (fst (snd (poll_future H f d)))))"

lemma announce_work_queue: "announce_work c = Ok c' \<Longrightarrow> ctrl_queue c' = ctrl_queue c"
  by (auto simp: announce_work_def rbind_eq_Ok)

lemma apply_effects_queue:
  "apply_effects es c = Ok c' \<Longrightarrow> ctrl_free es \<Longrightarrow> ctrl_queue c' = ctrl_queue c"
proof (induction es arbitrary: c)
  case (Cons e es)
  then obtain c1 where c1: "apply_effect e c = Ok c1" "apply_effects es c1 = Ok c'"
    by (auto simp: rbind_eq_Ok)
  have "ctrl_queue c1 = ctrl_queue c"
    using c1(1) Cons.prems(2) by (cases e) (auto simp: ctrl_free_def rbind_eq_Ok dest: announce_work_queue)
  with Cons.IH [OF c1(2)] Cons.prems(2) show ?case by (simp add: ctrl_free_def)
qed simp

lemma call_handler_queue:
  "call_handler h c = Ok (r, c') \<Longrightarrow> ctrl_free (fst (snd (h (cdef c)))) \<Longrightarrow> ctrl_queue c' = ctrl_queue c"
  by (auto simp: call_handler_def rbind_eq_Ok split: prod.splits dest: apply_effects_queue)

lemma control_handler_queue:
  assumes "control_handler H ev c = Ok (r, c')" "quiet_control H"
  shows "ctrl_queue c' = ctrl_queue c"
proof (cases ev)
  case (Poll tag)
  show ?thesis
  proof (cases "map_of (non_blocking_futures c) tag")
    case None
    then show ?thesis using assms(1) Poll by (simp add: run_nonblocking_task_def)
  next
    case (Some f)
    obtain p c1 where c1: "call_handler (poll_future H f) c = Ok (p, c1)"
      using assms(1) Poll by (auto simp: run_nonblocking_task_def Some rbind_eq_Ok)
    have "ctrl_queue c1 = ctrl_queue c"
      by (rule call_handler_queue [OF c1]) (use assms(2) in \<open>simp add: quiet_control_def\<close>)
    then show ?thesis using assms(1) Poll
      by (auto simp: run_nonblocking_task_def Some c1 split: poll.splits hresult.splits)
  qed
qed (use assms in \<open>auto simp: quiet_control_def dest!: call_handler_queue\<close>)

lemma flow_ends:
  "shutdown_from_handler H c \<noteq> Run c' n" "shutdown_from_handler H c \<noteq> OutOfFuel"
  "run_blocking H c cnt \<noteq> Run c' n" "run_blocking H c cnt \<noteq> OutOfFuel"
proof -
  show s: "shutdown_from_handler H c \<noteq> Run c' n" "shutdown_from_handler H c \<noteq> OutOfFuel" for c c' n
    by (auto simp: shutdown_from_handler_def or_abort_def
        split: rresult.splits hresult.splits handled.splits)
  have "after_blocking H r (\<lambda>c3. Return d c3) x \<noteq> Run c' n" "after_blocking H r (\<lambda>c3. Return d c3) x \<noteq> OutOfFuel"
    for r d x
    using s by (auto simp: after_blocking_def set_blocking_with_state_def
        split: hresult.splits handled.splits prod.splits option.splits)
  then show "run_blocking H c cnt \<noteq> Run c' n" "run_blocking H c cnt \<noteq> OutOfFuel"
    by (auto simp: run_blocking_def or_abort_def Let_def split: rresult.splits option.splits if_splits)
qed

lemma control_event_queue:
  assumes "quiet_control H"
  shows "control_event_step H ev c cnt \<noteq> OutOfFuel \<and>
    (\<forall>c' n. control_event_step H ev c cnt = Run c' n \<longrightarrow> ctrl_queue c' = ctrl_queue c)"
proof (cases "control_handler H ev c")
  case (Ok rc)
  obtain r c1 where rc: "rc = (r, c1)" by force
  have q: "ctrl_queue c1 = ctrl_queue c"
    by (rule control_handler_queue [OF Ok [unfolded rc] assms])
  have "ctrl_queue (control_done ev c1) = ctrl_queue c1"
    by (cases ev) (simp_all add: notify_started_def comp_set_passive_def comp_set_destroyed_def notify_def)
  with q show ?thesis
    by (auto simp: control_event_step_def or_abort_def Ok rc Let_def flow_ends set_blocking_with_state_def
        dest: handle_handler_error_cases
        split: hresult.splits handled.splits handler_error.splits prod.splits option.splits if_splits)
qed (simp_all add: control_event_step_def or_abort_def)

text \<open>
  if the lifecycle handlers and polled futures enqueue no further control events, as many
  iterations as there are queued control events are enough for the control loop, and no
  control event is left when it runs on.
\<close>

theorem control_loop_terminates:
  assumes "quiet_control H" and "length (ctrl_queue c) \<le> fuel"
  shows "control_loop fuel H c cnt \<noteq> OutOfFuel \<and>
    (\<forall>c' n. control_loop fuel H c cnt = Run c' n \<longrightarrow> ctrl_queue c' = [])"
  using assms(2)
proof (induction fuel arbitrary: c cnt)
  case 0
  then show ?case by (simp add: control_loop_empty)
next
  case (Suc n)
  show ?case
  proof (cases "ctrl_queue c")
    case Nil
    then show ?thesis by (simp add: control_loop_empty)
  next
    case (Cons e rest)
    let ?s = "control_event_step H e (c\<lparr>ctrl_queue := rest\<rparr>) cnt"
    from control_event_queue [OF assms(1), of e "c\<lparr>ctrl_queue := rest\<rparr>" cnt]
    have q: "?s \<noteq> OutOfFuel" "\<And>c' m. ?s = Run c' m \<Longrightarrow> ctrl_queue c' = rest" by auto
    show ?thesis
    proof (cases ?s)
      case (Run c1 m)
      have "length (ctrl_queue c1) \<le> n" using q(2) [OF Run] Suc.prems Cons by simp
      from Suc.IH [OF this, of m] show ?thesis by (simp add: control_loop_step [OF Cons] Run)
    qed (use q(1) in \<open>simp_all add: control_loop_step [OF Cons]\<close>)
  qed
qed

theorem control_loop_terminates_witness:
  "control_loop 2 idle_handlers ((demo_component ACTIVE)\<lparr>ctrl_queue := [Stop, Start]\<rparr>) 0 \<noteq> OutOfFuel"
proof -
  have "quiet_control idle_handlers" by (simp add: quiet_control_def idle_handlers_def ctrl_free_def)
  from control_loop_terminates [OF this, of "(demo_component ACTIVE)\<lparr>ctrl_queue := [Stop, Start]\<rparr>" 2 0]
  show ?thesis by (simp add: demo_component_def)
qed

end
