(* ===== verification/Config_Entries.thy ===== *)
theory Config_Entries
  imports Config_Tree Buffer_Pool Actor_Store
begin

section \<open>Typed configuration entries\<close>

text \<open>
  The converters of \<open>core/src/config/converters_for_config_values.rs\<close> and \<open>converters_for_other_types.rs\<close>, the entries of \<open>config/mod.rs\<close> with the macro
  \<open>kompact_config\<close>, parsing, and how the buffer pool and the reaper of actor references read the document. The locale \<open>converter\<close> is the
  contract of the trait \<open>ConfigValueType\<close>: what is written can be read.
\<close>

subsection \<open>Converters\<close>

record ('d, 'v) value_type =
  from_conf :: "'d config_value \<Rightarrow> ('v, config_error) rresult"
  into_config_value :: "'v \<Rightarrow> ('d config_value, config_error) rresult"

definition ok_or_expected :: "'d config_libs \<Rightarrow> string \<Rightarrow> 'd config_value \<Rightarrow> 'v option \<Rightarrow> ('v, config_error) rresult" where
  "ok_or_expected L ty conf x = (case x of Some v \<Rightarrow> Ok v | None \<Rightarrow> Err (expected L ty conf))"

definition string_value :: "'d config_libs \<Rightarrow> ('d, string) value_type" where
  "string_value L =
     \<lparr>from_conf = (\<lambda>conf. ok_or_expected L ''String'' conf (value_as_string conf)),
      into_config_value = (\<lambda>v. Ok (CString v))\<rparr>"

definition integer_value :: "'d config_libs \<Rightarrow> ('d, u64) value_type" where
  "integer_value L =
     \<lparr>from_conf = (\<lambda>conf. ok_or_expected L ''i64'' conf (value_as_i64 conf)),
      into_config_value = (\<lambda>v. Ok (CInteger v))\<rparr>"

definition real_value :: "'d config_libs \<Rightarrow> ('d, f64) value_type" where
  "real_value L =
     \<lparr>from_conf = (\<lambda>conf. ok_or_expected L ''f64'' conf (value_as_f64 conf)),
      into_config_value = (\<lambda>v. Ok (CReal v))\<rparr>"

definition boolean_value :: "'d config_libs \<Rightarrow> ('d, bool) value_type" where
  "boolean_value L =
     \<lparr>from_conf = (\<lambda>conf. ok_or_expected L ''bool'' conf (value_as_bool conf)),
      into_config_value = (\<lambda>v. Ok (CBoolean v))\<rparr>"

definition bytes_value :: "'d config_libs \<Rightarrow> ('d, u64) value_type" where
  "bytes_value L =
     \<lparr>from_conf = (\<lambda>conf. ok_or_expected L ''u64'' conf (value_as_bytes L conf)),
      into_config_value = (\<lambda>v. Ok (CString (show_dec (unat v) @ ''B'')))\<rparr>"

definition duration_value :: "'d config_libs \<Rightarrow> ('d, nat) value_type" where
  "duration_value L =
     \<lparr>from_conf = (\<lambda>conf. ok_or_expected L ''Duration'' conf (value_as_duration L conf)),
      into_config_value = (\<lambda>v. Ok (CString (lib_format_duration L v)))\<rparr>"

text \<open>The \<open>try_fold\<close> of \<open>ArrayOfValues::from_conf\<close> and the \<open>map\<close> of \<open>into_config_value\<close>.\<close>

fun convert_all :: "('a \<Rightarrow> ('b, 'e) rresult) \<Rightarrow> 'a list \<Rightarrow> 'b list \<Rightarrow> ('b list, 'e) rresult" where
  "convert_all f [] acc = Ok acc"
| "convert_all f (x # xs) acc = rbind (f x) (\<lambda>y. convert_all f xs (acc @ [y]))"

definition array_of_values :: "'d config_libs \<Rightarrow> string \<Rightarrow> ('d, 'v) value_type \<Rightarrow> ('d, 'v list) value_type" where
  "array_of_values L ty T =
     \<lparr>from_conf = (\<lambda>conf. case conf of
          CArray vs \<Rightarrow> convert_all (from_conf T) vs []
        | _ \<Rightarrow> Err (expected L ty conf)),
      into_config_value = (\<lambda>vs. rbind (convert_all (into_config_value T) vs []) (\<lambda>cs. Ok (CArray cs)))\<rparr>"

definition usize_value :: "'d config_libs \<Rightarrow> ('d, nat) value_type" where
  "usize_value L =
     \<lparr>from_conf = (\<lambda>conf. rbind (ok_or_expected L ''usize'' conf (value_as_i64 conf))
        (\<lambda>v. if sint v < 0 then Err from_try_from_int_error else Ok (nat (sint v)))),
      into_config_value = (\<lambda>n. if n < 2 ^ 63 then Ok (CInteger (of_nat n)) else Panic)\<rparr>"

definition f32_value :: "'d config_libs \<Rightarrow> ('d, f32) value_type" where
  "f32_value L =
     \<lparr>from_conf = (\<lambda>conf. ok_or_expected L ''f32'' conf (map_option f32_of_f64 (value_as_f64 conf))),
      into_config_value = (\<lambda>v. Ok (CReal (f64_of_f32 v)))\<rparr>"

lemmas converter_defs =
  string_value_def integer_value_def real_value_def boolean_value_def bytes_value_def duration_value_def usize_value_def f32_value_def ok_or_expected_def

definition config_string :: "'d config_libs \<Rightarrow> ('d, 'v) value_type \<Rightarrow> 'v \<Rightarrow> (string, config_error) rresult" where
  "config_string L T v = rbind (into_config_value T v) (\<lambda>c. Ok (to_toml_fragment L c))"

subsection \<open>Loading\<close>

datatype config_loading_error = ConfigIo string | ConfigParse

definition parse_config_str :: "'d config_libs \<Rightarrow> string \<Rightarrow> ('d config, config_loading_error) rresult" where
  "parse_config_str L s = (case lib_parse_toml L s of Some t \<Rightarrow> Ok (from_toml_table t) | None \<Rightarrow> Err ConfigParse)"

text \<open>What reading the file gives is an argument: its text, or an error.\<close>

definition parse_config_file :: "'d config_libs \<Rightarrow> (string \<Rightarrow> (string, string) rresult) \<Rightarrow> string \<Rightarrow> ('d config, config_loading_error) rresult" where
  "parse_config_file L read_to_string path = rbind (rmap_err ConfigIo (read_to_string path)) (parse_config_str L)"

subsection \<open>Entries\<close>

text \<open>The texts \<open>doc\<close> and \<open>version\<close> of an entry are documentation only.\<close>

record ('d, 'v) config_entry =
  entry_key :: string
  entry_type :: "('d, 'v) value_type"
  entry_default :: "'v option"
  entry_validator :: "('v \<Rightarrow> (unit, string) rresult) option"

definition path_segments :: "('d, 'v) config_entry \<Rightarrow> string list" where
  "path_segments E = split_on CONF_SEP (entry_key E)"

text \<open>The validator that \<open>kompact_config!\<close> makes of a condition and its source text.\<close>

definition kompact_config_validate :: "('v \<Rightarrow> string) \<Rightarrow> ('v \<Rightarrow> bool) \<Rightarrow> string \<Rightarrow> 'v \<Rightarrow> (unit, string) rresult" where
  "kompact_config_validate display cond source v =
     (if cond v then Ok () else Err (''Value '' @ display v @ '' did satisfy '' @ source))"

definition entry_select :: "('d, 'v) config_entry \<Rightarrow> 'd config \<Rightarrow> 'd config_lookup" where
  "entry_select E c = select c (entry_key E)"

definition entry_validate :: "('d, 'v) config_entry \<Rightarrow> 'v \<Rightarrow> ('v, config_error) rresult" where
  "entry_validate E v =
     (case entry_validator E of
        None \<Rightarrow> Ok v
      | Some validator \<Rightarrow>
          (case validator v of
             Ok _ \<Rightarrow> Ok v
           | Err msg \<Rightarrow> Err (InvalidValue (Some (entry_key E)) msg)
           | Panic \<Rightarrow> Panic))"

definition entry_read :: "('d, 'v) config_entry \<Rightarrow> 'd config \<Rightarrow> ('v, config_error) rresult" where
  "entry_read E c =
     rbind (lookup_value (entry_select E c)) (\<lambda>value.
     rbind (rmap_err (\<lambda>e. with_path e (entry_key E)) (from_conf (entry_type E) value)) (entry_validate E))"

definition entry_read_or_default :: "('d, 'v) config_entry \<Rightarrow> 'd config \<Rightarrow> ('v, config_error) rresult" where
  "entry_read_or_default E c =
     (case entry_read E c of
        Err (PathError e) \<Rightarrow>
          if is_missing e then (case entry_default E of Some d \<Rightarrow> Ok d | None \<Rightarrow> Err (PathError e))
          else Err (PathError e)
      | r \<Rightarrow> r)"

subsection \<open>Clients that read the document directly\<close>

text \<open>\<open>if let Ok(x) = ...\<close>\<close>

fun ok_value :: "('a, 'e) rresult \<Rightarrow> 'a option" where
  "ok_value (Ok a) = Some a"
| "ok_value _ = None"

definition buffer_section :: "'d config_libs \<Rightarrow> 'd config \<Rightarrow> raw_config" where
  "buffer_section L c =
     (let section = config_get c ''buffer_config'' in
      \<lparr>raw_chunk_size = map_option unat (ok_value (as_byte_size L (lookup_get section ''chunk_size''))),
       raw_initial = map_option sint (ok_value (as_i64 L (lookup_get section ''initial_chunk_count''))),
       raw_max = map_option sint (ok_value (as_i64 L (lookup_get section ''max_chunk_count''))),
       raw_min_remaining = map_option unat (ok_value (as_byte_size L (lookup_get section ''encode_min_remaining'')))\<rparr>)"

definition buffer_config_of :: "'d config_libs \<Rightarrow> 'd config \<Rightarrow> (buffer_config, unit) rresult" where
  "buffer_config_of L c = buffer_config_from_config (buffer_section L c)"

definition reaper_of :: "'d config_libs \<Rightarrow> 'd config \<Rightarrow> (actor_ref_reaper, unit) rresult" where
  "reaper_of L c = reaper_from_config (ok_value (as_string L (select c ''kompact.dispatch.actor-lookup.gc.algorithm'')))"

subsection \<open>Converters read back what they write\<close>

definition reads_back :: "('d, 'v) value_type \<Rightarrow> 'v \<Rightarrow> bool" where
  "reads_back T v \<longleftrightarrow> (\<exists>c. into_config_value T v = Ok c \<and> from_conf T c = Ok v \<and> \<not> is_table c)"

locale converter =
  fixes T :: "('d, 'v) value_type" and ok :: "'v \<Rightarrow> bool"
  assumes law: "ok v \<Longrightarrow> reads_back T v"
begin

lemma all_read_back:
  "list_all ok vs \<Longrightarrow> \<exists>cs. convert_all (into_config_value T) vs acc = Ok (acc @ cs) \<and> (\<forall>acc'. convert_all (from_conf T) cs acc' = Ok (acc' @ vs))"
proof (induction vs arbitrary: acc)
  case (Cons v vs)
  then obtain c where c: "into_config_value T v = Ok c" "from_conf T c = Ok v" using law [of v] by (auto simp: reads_back_def)
  from Cons obtain cs where "convert_all (into_config_value T) vs (acc @ [c]) = Ok ((acc @ [c]) @ cs)"
    "\<forall>acc'. convert_all (from_conf T) cs acc' = Ok (acc' @ vs)" by fastforce
  with c show ?case by (intro exI [of _ "c # cs"]) simp
qed simp

text \<open>A converter for elements gives one for arrays.\<close>

lemma array_converter: "converter (array_of_values L ty T) (list_all ok)"
proof
  fix vs
  assume "list_all ok vs"
  from all_read_back [OF this, of "[]"] show "reads_back (array_of_values L ty T) vs"
    by (auto simp: reads_back_def array_of_values_def)
qed

end

lemma sint_of_nat_64: "n < 2 ^ 63 \<Longrightarrow> sint (of_nat n :: u64) = int n"
  by (simp add: signed_of_nat signed_take_bit_int_eq_self)

interpretation string_conv: converter "string_value L" "\<lambda>_. True" for L
  by unfold_locales (simp add: reads_back_def converter_defs)

interpretation integer_conv: converter "integer_value L" "\<lambda>_. True" for L
  by unfold_locales (simp add: reads_back_def converter_defs)

interpretation real_conv: converter "real_value L" "\<lambda>_. True" for L
  by unfold_locales (simp add: reads_back_def converter_defs)

interpretation boolean_conv: converter "boolean_value L" "\<lambda>_. True" for L
  by unfold_locales (simp add: reads_back_def converter_defs)

interpretation usize_conv: converter "usize_value L" "\<lambda>n. n < 2 ^ 63" for L
  by unfold_locales (simp add: reads_back_def converter_defs sint_of_nat_64)

interpretation f32_conv: converter "f32_value L" "\<lambda>b. \<not> f32_is_nan b" for L
  by unfold_locales (simp add: reads_back_def converter_defs narrow_widen)

text \<open>
  What the crates document: \<open>byte_unit\<close> reads a number followed by \<open>B\<close>, \<open>humantime\<close> reads what it has
  formatted (a \<open>Duration\<close> has less than \<open>2 ^ 64\<close> seconds).
\<close>

definition crates_documented :: "'d config_libs \<Rightarrow> bool" where
  "crates_documented L \<longleftrightarrow>
     (\<forall>n. lib_parse_bytes L (show_dec (unat n) @ ''B'') = Some n) \<and>
     (\<forall>d < 2 ^ 64 * 10 ^ 9. lib_parse_duration L (lib_format_duration L d) = Some d)"

locale config_crates =
  fixes L :: "'d config_libs"
  assumes crates: "crates_documented L"

sublocale config_crates \<subseteq> byte_sizes: converter "bytes_value L" "\<lambda>_. True"
  using crates by unfold_locales (simp add: reads_back_def converter_defs crates_documented_def)

sublocale config_crates \<subseteq> durations: converter "duration_value L" "\<lambda>d. d < 2 ^ 64 * 10 ^ 9"
  using crates by unfold_locales (simp add: reads_back_def converter_defs crates_documented_def)

text \<open>Concrete crates: bytes as a decimal number with its unit, durations in nanoseconds.\<close>

definition parse_unit :: "nat \<Rightarrow> string \<Rightarrow> nat option" where
  "parse_unit u s =
     (let digits = take (length s - u) s in
      if digits \<noteq> [] \<and> list_all is_digit digits then Some (dec_val digits) else None)"

lemma parse_unit_show: "parse_unit (length u) (show_dec n @ u) = Some n"
  by (simp add: parse_unit_def show_dec_digits dec_val_show_dec)

definition sample_libs :: "unit config_libs" where
  "sample_libs =
     \<lparr>lib_parse_toml = (\<lambda>s. if s = ''limit = 7'' then Some [(''limit'', TInteger 7)] else None),
      lib_print_toml = (\<lambda>v. case v of TInteger i \<Rightarrow> show_dec (unat i) | _ \<Rightarrow> []),
      lib_parse_bytes = (\<lambda>s. map_option of_nat (parse_unit 1 s)),
      lib_parse_duration = parse_unit 2, lib_format_duration = (\<lambda>d. show_dec d @ ''ns''),
      lib_debug = (\<lambda>_. ''value''), lib_type_name = id\<rparr>"

lemma sample_libs_documented: "crates_documented sample_libs"
  using parse_unit_show [of "''B''"] parse_unit_show [of "''ns''"]
  by (simp add: crates_documented_def sample_libs_def numeral_2_eq_2)

interpretation sample_crates: config_crates sample_libs
  by unfold_locales (rule sample_libs_documented)

text \<open>
  Every converter reads back what it writes: strings, integers, floats (single precision numbers survive the way through double precision, subnormal and
  infinite ones included), booleans, byte sizes, durations and arrays of them. A \<open>usize\<close> that does not fit into an \<open>i64\<close> panics.
\<close>

theorem converters_read_back:
  assumes "crates_documented L"
  shows "reads_back (string_value L) s \<and> reads_back (integer_value L) i \<and> reads_back (real_value L) r \<and> reads_back (boolean_value L) b \<and>
    reads_back (bytes_value L) n \<and> (d < 2 ^ 64 * 10 ^ 9 \<longrightarrow> reads_back (duration_value L) d) \<and>
    (if k < 2 ^ 63 then reads_back (usize_value L) k else into_config_value (usize_value L) k = Panic) \<and>
    (\<not> f32_is_nan x \<longrightarrow> reads_back (f32_value L) x) \<and>
    (list_all (reads_back T) vs \<longrightarrow> reads_back (array_of_values L ty T) vs)"
proof -
  have arr: "converter T (reads_back T)" by unfold_locales
  have "reads_back (bytes_value L) n" "d < 2 ^ 64 * 10 ^ 9 \<longrightarrow> reads_back (duration_value L) d"
    using assms by (simp_all add: reads_back_def converter_defs crates_documented_def)
  moreover have "\<not> k < 2 ^ 63 \<longrightarrow> into_config_value (usize_value L) k = Panic" by (simp add: usize_value_def)
  ultimately show ?thesis
    using string_conv.law integer_conv.law real_conv.law boolean_conv.law usize_conv.law f32_conv.law
      converter.law [OF converter.array_converter [OF arr]] by auto
qed

theorem converters_read_back_witness:
  "reads_back (usize_value sample_libs) 50 \<and> reads_back (f32_value sample_libs) 1 \<and> reads_back (duration_value sample_libs) 3 \<and>
   into_config_value (usize_value sample_libs) (2 ^ 63) = Panic \<and> reads_back (array_of_values sample_libs [] (usize_value sample_libs)) [1, 2]"
proof -
  note c = converters_read_back [OF sample_libs_documented, where s = "[]" and i = 0 and r = 0 and b = True and n = 1536 and d = 3 and x = 1 and
      T = "usize_value sample_libs" and vs = "[1, 2]" and ty = "[]"]
  have "\<not> f32_is_nan 1" by (simp add: f32_is_nan_def f32_mag_def)
  moreover have "list_all (reads_back (usize_value sample_libs)) [1, 2]" using usize_conv.law [of 1 sample_libs] usize_conv.law [of 2 sample_libs] by simp
  ultimately show ?thesis using c [of 50] c [of "2 ^ 63"] by simp
qed

subsection \<open>Texts\<close>

lemma from_to_toml: "from_toml (to_toml_value v) = v"
proof (induction v)
  case (CArray vs)
  then show ?case by (simp add: map_idI)
next
  case (CTable vs)
  then have "from_toml (to_toml_value (snd p)) = snd p" if "p \<in> set vs" for p
    using that by (cases p) (auto simp: snds.simps)
  then have "map ((\<lambda>(k, v). (k, from_toml v)) \<circ> (\<lambda>(k, v). (k, to_toml_value v))) vs = vs"
    by (intro map_idI) (auto simp: case_prod_unfold)
  then show ?case by simp
qed simp_all

text \<open>
  The texts of values are read back when the printer and the parser of the \<open>toml\<close> crate agree on them: what is written as \<open>key = value\<close> is found
  under the key.
\<close>

lemma config_text_round_trip:
  assumes "reads_back T v" "config_string L T v = Ok frag"
    and "\<And>t. lib_parse_toml L (key @ '' = '' @ lib_print_toml L t) = Some [(key, t)]"
  shows "\<exists>c w. parse_config_str L (key @ '' = '' @ frag) = Ok c \<and> config_index c key = Ok w \<and> from_conf T w = Ok v"
  using assms by (auto simp: reads_back_def config_string_def to_toml_fragment_def parse_config_str_def from_toml_table_def config_index_def from_to_toml)

subsection \<open>Reading entries\<close>

definition valid_key :: "('d, 'v) config_entry \<Rightarrow> bool" where
  "valid_key E \<longleftrightarrow> [] \<notin> set (path_segments E)"

lemma entry_read_leaf:
  assumes "valid_key E" "value_at (doc c) (path_segments E) = Some w" "from_conf (entry_type E) w = Ok v"
  shows "entry_read E c = entry_validate E v"
proof -
  have "walk (doc c) (path_segments E) = Inl w" using assms by (simp add: walk_value valid_key_def)
  then have "entry_select E c = from_full_path (entry_key E) w"
    by (simp add: entry_select_def select_eq select_loop_walk path_segments_def)
  with assms(3) show ?thesis by (simp add: entry_read_def from_full_path_def)
qed

lemma validated_no_path_error: "entry_validate E v \<noteq> Err (PathError e)"
  by (auto simp: entry_validate_def split: option.splits rresult.splits)

lemma entry_read_or_default_leaf:
  assumes "valid_key E" "value_at (doc c) (path_segments E) = Some w" "from_conf (entry_type E) w = Ok v"
  shows "entry_read_or_default E c = entry_validate E v"
  using entry_read_leaf [OF assms] validated_no_path_error [of E v]
  by (auto simp: entry_read_or_default_def split: rresult.splits config_error.splits)

text \<open>Without a value the default counts; it is not validated.\<close>

lemma silent_walk:
  "silent_on v ks \<Longrightarrow> [] \<notin> set ks \<Longrightarrow> walk v ks = Inr LookupMissingKey"
  by (induction v ks rule: silent_on.induct) (auto split: option.splits)

lemma entry_default_used:
  assumes "valid_key E" "silent_on (doc c) (path_segments E)"
  shows "entry_read_or_default E c =
    (case entry_default E of Some d \<Rightarrow> Ok d | None \<Rightarrow> Err (PathError (MissingKey (entry_key E))))"
proof -
  have "walk (doc c) (path_segments E) = Inr LookupMissingKey" using assms by (simp add: silent_walk valid_key_def)
  then have "entry_select E c = error_path (entry_key E) LookupMissingKey"
    by (simp add: entry_select_def select_eq select_loop_walk path_segments_def)
  then show ?thesis by (simp add: entry_read_or_default_def entry_read_def error_path_def)
qed

end
