(* ===== verification/System_Config.thy ===== *)
theory System_Config
  imports Config_Tree Component_Exec Config_Entries
begin

section \<open>The configuration of a system\<close>

text \<open>
  \<open>core/src/runtime/config.rs\<close>: the configuration keys of a system, the builder \<open>KompactConfig\<close> with its list of sources, loading and merging the
  sources (\<open>load_config\<close> of \<open>runtime/system.rs\<close>), taking the settings over, and the share of messages in an execution. What a builder closure
  does when it is called is not part of this: a builder is the choice that was made.

  The lemmas show that the last source that sets a key decides, that a system is only ever built with valid settings, and that
  with these settings messages leave room for events. The converse fails: events can starve messages.
\<close>

subsection \<open>Keys\<close>

text \<open>The label made of the runtime counter, the number of processors, and how the standard library prints an \<open>f32\<close>.\<close>

record system_env =
  env_label :: string
  env_cpus :: nat
  env_show_f32 :: "f32 \<Rightarrow> string"

definition LABEL :: "'d config_libs \<Rightarrow> system_env \<Rightarrow> ('d, string) config_entry" where
  "LABEL L env =
     \<lparr>entry_key = ''kompact.runtime.label'', entry_type = string_value L, entry_default = Some (env_label env), entry_validator = None\<rparr>"

definition THROUGHPUT :: "'d config_libs \<Rightarrow> ('d, nat) config_entry" where
  "THROUGHPUT L =
     \<lparr>entry_key = ''kompact.runtime.throughput'', entry_type = usize_value L, entry_default = Some 50,
      entry_validator = Some (kompact_config_validate show_dec (\<lambda>v. v > 0) ''*value > 0'')\<rparr>"

definition MESSAGE_PRIORITY :: "'d config_libs \<Rightarrow> system_env \<Rightarrow> ('d, f32) config_entry" where
  "MESSAGE_PRIORITY L env =
     \<lparr>entry_key = ''kompact.runtime.message-priority'', entry_type = f32_value L, entry_default = Some 0x3F000000,
      entry_validator = Some (kompact_config_validate (env_show_f32 env)
        (\<lambda>v. f32_less 0 v \<and> f32_less v 0x3F800000) ''0.0 < *value && *value < 1.0'')\<rparr>"

definition THREADS :: "'d config_libs \<Rightarrow> system_env \<Rightarrow> ('d, nat) config_entry" where
  "THREADS L env =
     \<lparr>entry_key = ''kompact.runtime.threads'', entry_type = usize_value L, entry_default = Some (max 1 (env_cpus env)),
      entry_validator = Some (kompact_config_validate show_dec (\<lambda>v. v > 0) ''*value > 0'')\<rparr>"

definition SCHEDULER :: "'d config_libs \<Rightarrow> ('d, string) config_entry" where
  "SCHEDULER L =
     \<lparr>entry_key = ''kompact.runtime.scheduler'', entry_type = string_value L, entry_default = Some ''auto'',
      entry_validator = Some (kompact_config_validate id
        (\<lambda>v. v \<in> set [''auto'', ''small'', ''large'', ''dynamic'', ''custom''])
        ''[\"auto\", \"small\", \"large\", \"dynamic\", \"custom\"].contains(&value.as_ref())'')\<rparr>"

lemmas key_defs = LABEL_def THROUGHPUT_def MESSAGE_PRIORITY_def THREADS_def SCHEDULER_def

subsection \<open>Sources and the builder\<close>

datatype 'd config_source = SourceFile string | SourceStr string | SourceValue string "'d config_value"

definition source_load :: "'d config_libs \<Rightarrow> (string \<Rightarrow> (string, string) rresult) \<Rightarrow> 'd config_source \<Rightarrow> ('d config, config_loading_error) rresult" where
  "source_load L files src =
     (case src of
        SourceFile path \<Rightarrow> parse_config_file L files path
      | SourceStr config \<Rightarrow> parse_config_str L config
      | SourceValue key value \<Rightarrow> Ok (insert_value config_new key value))"

datatype 's scheduler_builder = SmallPool | LargePool | DynPool | CustomScheduler 's | CustomExecutor 's

datatype 't timer_builder = DefaultTimer | CustomTimer 't

datatype dispatcher_thread = OnScheduler | OnDedicatedThread | OnPinnedThread nat

datatype ('b, 'c) sc_builder = DefaultSc | CustomSc 'b 'c dispatcher_thread

record ('d, 's, 't, 'b, 'c, 'l) kompact_config =
  kc_label :: string
  kc_throughput :: nat
  kc_msg_priority :: f32
  kc_threads :: nat
  kc_timer_builder :: "'t timer_builder"
  kc_scheduler_builder :: "'s scheduler_builder"
  kc_sc_builder :: "('b, 'c) sc_builder"
  kc_root_logger :: "'l option"
  kc_config_sources :: "'d config_source list"

definition MINIMAL_CONFIG :: string where
  "MINIMAL_CONFIG =
     ''\<newline>[kompact.runtime]\<newline>throughput = 2\<newline>message-priority = 0.5\<newline>threads = 1\<newline>''"

definition kompact_config_default :: "('d, 's, 't, 'b, 'c, 'l) kompact_config" where
  "kompact_config_default =
     \<lparr>kc_label = ''<unset>'', kc_throughput = 0, kc_msg_priority = 0, kc_threads = 1, kc_timer_builder = DefaultTimer,
      kc_scheduler_builder = SmallPool, kc_sc_builder = DefaultSc, kc_root_logger = None, kc_config_sources = []\<rparr>"

definition kompact_config_new :: "('d, 's, 't, 'b, 'c, 'l) kompact_config" where
  "kompact_config_new =
     \<lparr>kc_label = ''<unset>'', kc_throughput = 0, kc_msg_priority = 0, kc_threads = 1, kc_timer_builder = DefaultTimer,
      kc_scheduler_builder = SmallPool, kc_sc_builder = DefaultSc, kc_root_logger = None, kc_config_sources = [SourceStr MINIMAL_CONFIG]\<rparr>"

definition push_source :: "'d config_source \<Rightarrow> ('d, 's, 't, 'b, 'c, 'l) kompact_config \<Rightarrow> ('d, 's, 't, 'b, 'c, 'l) kompact_config" where
  "push_source src conf = conf\<lparr>kc_config_sources := kc_config_sources conf @ [src]\<rparr>"

definition load_config_file :: "string \<Rightarrow> ('d, 's, 't, 'b, 'c, 'l) kompact_config \<Rightarrow> ('d, 's, 't, 'b, 'c, 'l) kompact_config" where
  "load_config_file path conf = push_source (SourceFile path) conf"

definition load_config_str :: "string \<Rightarrow> ('d, 's, 't, 'b, 'c, 'l) kompact_config \<Rightarrow> ('d, 's, 't, 'b, 'c, 'l) kompact_config" where
  "load_config_str s conf = push_source (SourceStr s) conf"

definition set_config_value ::
    "('d, 'v) config_entry \<Rightarrow> 'v \<Rightarrow> ('d, 's, 't, 'b, 'c, 'l) kompact_config \<Rightarrow> (('d, 's, 't, 'b, 'c, 'l) kompact_config, config_error) rresult" where
  "set_config_value E v conf =
     rbind (into_config_value (entry_type E) v) (\<lambda>c. Ok (push_source (SourceValue (entry_key E) c) conf))"

text \<open>The deprecated setters and the choices of implementations.\<close>

definition set_label :: "'d config_libs \<Rightarrow> system_env \<Rightarrow> string \<Rightarrow> ('d, 's, 't, 'b, 'c, 'l) kompact_config \<Rightarrow> (('d, 's, 't, 'b, 'c, 'l) kompact_config, config_error) rresult" where
  "set_label L env s = set_config_value (LABEL L env) s"

definition set_throughput :: "'d config_libs \<Rightarrow> nat \<Rightarrow> ('d, 's, 't, 'b, 'c, 'l) kompact_config \<Rightarrow> (('d, 's, 't, 'b, 'c, 'l) kompact_config, config_error) rresult" where
  "set_throughput L n = set_config_value (THROUGHPUT L) n"

definition set_msg_priority :: "'d config_libs \<Rightarrow> system_env \<Rightarrow> f32 \<Rightarrow> ('d, 's, 't, 'b, 'c, 'l) kompact_config \<Rightarrow> (('d, 's, 't, 'b, 'c, 'l) kompact_config, config_error) rresult" where
  "set_msg_priority L env r = set_config_value (MESSAGE_PRIORITY L env) r"

definition set_threads :: "'d config_libs \<Rightarrow> system_env \<Rightarrow> nat \<Rightarrow> ('d, 's, 't, 'b, 'c, 'l) kompact_config \<Rightarrow> (('d, 's, 't, 'b, 'c, 'l) kompact_config, config_error) rresult" where
  "set_threads L env n conf = (if n > 0 then set_config_value (THREADS L env) n conf else Panic)"

definition set_scheduler :: "'d config_libs \<Rightarrow> 's \<Rightarrow> ('d, 's, 't, 'b, 'c, 'l) kompact_config \<Rightarrow> (('d, 's, 't, 'b, 'c, 'l) kompact_config, config_error) rresult" where
  "set_scheduler L f conf =
     rbind (set_config_value (SCHEDULER L) ''custom'' conf) (\<lambda>conf1. Ok (conf1\<lparr>kc_scheduler_builder := CustomScheduler f\<rparr>))"

definition set_executor :: "'d config_libs \<Rightarrow> 's \<Rightarrow> ('d, 's, 't, 'b, 'c, 'l) kompact_config \<Rightarrow> (('d, 's, 't, 'b, 'c, 'l) kompact_config, config_error) rresult" where
  "set_executor L f conf =
     rbind (set_config_value (SCHEDULER L) ''custom'' conf) (\<lambda>conf1. Ok (conf1\<lparr>kc_scheduler_builder := CustomExecutor f\<rparr>))"

definition set_timer :: "'t \<Rightarrow> ('d, 's, 't, 'b, 'c, 'l) kompact_config \<Rightarrow> ('d, 's, 't, 'b, 'c, 'l) kompact_config" where
  "set_timer f conf = conf\<lparr>kc_timer_builder := CustomTimer f\<rparr>"

definition set_system_components :: "'b \<Rightarrow> 'c \<Rightarrow> dispatcher_thread \<Rightarrow> ('d, 's, 't, 'b, 'c, 'l) kompact_config \<Rightarrow> ('d, 's, 't, 'b, 'c, 'l) kompact_config" where
  "set_system_components deadletter_fn dispatcher_fn thread conf = conf\<lparr>kc_sc_builder := CustomSc deadletter_fn dispatcher_fn thread\<rparr>"

definition set_logger :: "'l \<Rightarrow> ('d, 's, 't, 'b, 'c, 'l) kompact_config \<Rightarrow> ('d, 's, 't, 'b, 'c, 'l) kompact_config" where
  "set_logger logger conf = conf\<lparr>kc_root_logger := Some logger\<rparr>"

subsection \<open>Loading\<close>

fun load_sources ::
    "'d config_libs \<Rightarrow> (string \<Rightarrow> (string, string) rresult) \<Rightarrow> 'd config \<Rightarrow> 'd config_source list \<Rightarrow> ('d config, config_loading_error) rresult" where
  "load_sources L files c [] = Ok c"
| "load_sources L files c (src # srcs) =
     rbind (source_load L files src) (\<lambda>next_c. load_sources L files (config_merge c next_c) srcs)"

definition load_config ::
    "'d config_libs \<Rightarrow> (string \<Rightarrow> (string, string) rresult) \<Rightarrow> ('d, 's, 't, 'b, 'c, 'l) kompact_config \<Rightarrow> ('d config, config_loading_error) rresult" where
  "load_config L files conf = load_sources L files config_new (kc_config_sources conf)"

text \<open>The scheduler for the option, when the threads are known; \<open>None\<close> is the unreachable case.\<close>

definition choose_scheduler :: "string \<Rightarrow> nat \<Rightarrow> 's scheduler_builder \<Rightarrow> 's scheduler_builder option" where
  "choose_scheduler opt threads current =
     (if opt = ''auto'' then Some (if threads \<le> 32 then SmallPool else if threads \<le> 64 then LargePool else DynPool)
      else if opt = ''small'' then Some SmallPool
      else if opt = ''large'' then Some LargePool
      else if opt = ''dynamic'' then Some DynPool
      else if opt = ''custom'' then Some current
      else None)"

definition override_from_config ::
    "'d config_libs \<Rightarrow> system_env \<Rightarrow> 'd config \<Rightarrow> ('d, 's, 't, 'b, 'c, 'l) kompact_config \<Rightarrow> (('d, 's, 't, 'b, 'c, 'l) kompact_config, config_error) rresult" where
  "override_from_config L env c conf =
     rbind (entry_read_or_default (LABEL L env) c) (\<lambda>label.
     rbind (entry_read_or_default (THROUGHPUT L) c) (\<lambda>throughput.
     rbind (entry_read_or_default (MESSAGE_PRIORITY L env) c) (\<lambda>priority.
     rbind (entry_read_or_default (THREADS L env) c) (\<lambda>threads.
     rbind (entry_read_or_default (SCHEDULER L) c) (\<lambda>scheduler.
     rbind (or_panic (choose_scheduler scheduler threads (kc_scheduler_builder conf))) (\<lambda>builder.
       Ok (conf\<lparr>kc_label := label, kc_throughput := throughput, kc_msg_priority := priority, kc_threads := threads,
                kc_scheduler_builder := builder\<rparr>)))))))"

definition max_messages :: "('d, 's, 't, 'b, 'c, 'l) kompact_config \<Rightarrow> (nat, unit) rresult" where
  "max_messages conf =
     (let mmf = f32_mul (f32_of_nat (kc_throughput conf)) (kc_msg_priority conf) in
      if f32_ge mmf 0 then Ok (usize_of_f32 mmf) else Panic)"

subsection \<open>The last source that sets a key decides\<close>

lemma doc_merge: "doc (config_merge c d) = merge_value (doc c) (doc d)"
  by (simp add: doc_def config_merge_def)

lemma doc_is_table [simp]: "is_table (doc c)"
  by (simp add: doc_def)

lemma load_sources_append:
  "load_sources L files c (xs @ ys) = rbind (load_sources L files c xs) (\<lambda>d. load_sources L files d ys)"
  by (induction xs arbitrary: c) (simp_all add: rbind_assoc)

text \<open>A source whose document has one value per key, and says nothing about the keys \<open>ks\<close>.\<close>

definition source_silent :: "'d config_libs \<Rightarrow> (string \<Rightarrow> (string, string) rresult) \<Rightarrow> string list \<Rightarrow> 'd config_source \<Rightarrow> bool" where
  "source_silent L files ks src \<longleftrightarrow> (\<exists>d. source_load L files src = Ok d \<and> value_wf (doc d) \<and> silent_on (doc d) ks)"

lemma silent_sources_keep:
  assumes "list_all (source_silent L files ks) srcs" "value_at (doc c) ks = Some x"
  shows "\<exists>d. load_sources L files c srcs = Ok d \<and> value_at (doc d) ks = Some x"
  using assms
proof (induction srcs arbitrary: c)
  case (Cons src srcs)
  then obtain d where d: "source_load L files src = Ok d" "value_wf (doc d)" "silent_on (doc d) ks"
    by (auto simp: source_silent_def)
  from merge_silent_keeps [OF d(2,3) _ Cons.prems(2)] have "value_at (doc (config_merge c d)) ks = Some x" by (simp add: doc_merge)
  with Cons d(1) show ?case by simp
qed simp

lemma last_source_decides:
  assumes "kc_config_sources conf = before @ src # later" "load_sources L files config_new before = Ok c0"
    and "source_load L files src = Ok d" "value_wf (doc d)" "value_at (doc d) ks = Some x" "\<not> is_table x"
    and "list_all (source_silent L files ks) later"
  shows "\<exists>c. load_config L files conf = Ok c \<and> value_at (doc c) ks = Some x"
proof -
  have "value_at (doc (config_merge c0 d)) ks = Some x"
    using merge_later_wins [OF assms(4,5,6)] by (simp add: doc_merge)
  from silent_sources_keep [OF assms(7) this] assms(1-3) show ?thesis
    by (simp add: load_config_def load_sources_append)
qed

subsection \<open>Settings that are made are read\<close>

lemma value_source:
  "source_load L files (SourceValue key v) = Ok \<lparr>root = nest (split_on CONF_SEP key) v\<rparr>"
  by (simp add: source_load_def config_new_def insert_value_def insert_into_empty)

lemma value_source_at: "\<not> is_table v \<Longrightarrow> value_at (doc \<lparr>root = nest (split_on CONF_SEP key) v\<rparr>) (split_on CONF_SEP key) = Some v"
  by (simp add: doc_def value_at_nest)

lemma set_values_silent:
  assumes "diverge (split_on CONF_SEP key) ks" "\<not> is_table v"
  shows "source_silent L files ks (SourceValue key v)"
  using nest_silent [OF assms(1)] nest_wf [OF nontable_wf [OF assms(2)]] by (simp add: source_silent_def value_source doc_def)

text \<open>
  C17: A setting that was made in the program is what the system reads: after \<open>set_config_value\<close>, and any later sources that do not mention the key, reading
  the entry gives the value if its validator accepts it, and the validation error otherwise; the default is not used and neither is what the
  earlier sources contain.
\<close>

theorem set_value_is_read:
  assumes "valid_key E" "reads_back (entry_type E) v" "set_config_value E v conf0 = Ok conf1"
    and "load_config L files conf0 = Ok c0"
    and "kc_config_sources conf = kc_config_sources conf1 @ later" "list_all (source_silent L files (path_segments E)) later"
  shows "\<exists>c. load_config L files conf = Ok c \<and> entry_read_or_default E c = entry_validate E v"
proof -
  obtain w where w: "into_config_value (entry_type E) v = Ok w" "from_conf (entry_type E) w = Ok v" "\<not> is_table w"
    using assms(2) by (auto simp: reads_back_def)
  then have src: "kc_config_sources conf = kc_config_sources conf0 @ SourceValue (entry_key E) w # later"
    using assms(3,5) by (auto simp: set_config_value_def push_source_def)
  have wf: "value_wf (doc \<lparr>root = nest (path_segments E) w\<rparr>)" using nest_wf [OF nontable_wf [OF w(3)]] by (simp add: doc_def)
  obtain c where c: "load_config L files conf = Ok c" "value_at (doc c) (path_segments E) = Some w"
    using last_source_decides [OF src assms(4) [unfolded load_config_def] value_source wf [unfolded path_segments_def] value_source_at [OF w(3)] w(3)
        assms(6) [unfolded path_segments_def]] by (auto simp: path_segments_def)
  with entry_read_or_default_leaf [OF assms(1) c(2) w(2)] show ?thesis by blast
qed

definition no_files :: "string \<Rightarrow> (string, string) rresult" where
  "no_files path = Err ''not found''"

type_synonym plain_config = "(unit, unit, unit, unit, unit, unit) kompact_config"

theorem set_value_is_read_witness:
  "\<exists>conf1 c. set_config_value (THROUGHPUT sample_libs) 0 (kompact_config_default :: plain_config) = Ok conf1 \<and>
     load_config sample_libs no_files (push_source (SourceValue ''kompact.runtime.threads'' (CInteger 2)) conf1) = Ok c \<and>
     entry_read_or_default (THROUGHPUT sample_libs) c =
       Err (InvalidValue (Some ''kompact.runtime.throughput'') ''Value 0 did satisfy *value > 0'')"
proof -
  let ?E = "THROUGHPUT sample_libs" and ?later = "SourceValue ''kompact.runtime.threads'' (CInteger 2) :: unit config_source"
  let ?conf1 = "push_source (SourceValue ''kompact.runtime.throughput'' (CInteger 0)) (kompact_config_default :: plain_config)"
  have seg: "path_segments ?E = [''kompact'', ''runtime'', ''throughput'']"
    "split_on CONF_SEP ''kompact.runtime.threads'' = [''kompact'', ''runtime'', ''threads'']"
    by (simp_all add: path_segments_def key_defs CONF_SEP_def)
  have "set_config_value ?E 0 (kompact_config_default :: plain_config) = Ok ?conf1"
    by (simp add: set_config_value_def key_defs usize_value_def)
  moreover have "valid_key ?E" by (simp add: valid_key_def seg)
  moreover have "reads_back (entry_type ?E) 0" using usize_conv.law [of 0 sample_libs] by (simp add: key_defs)
  moreover have "load_config sample_libs no_files (kompact_config_default :: plain_config) = Ok config_new"
    by (simp add: load_config_def kompact_config_default_def)
  moreover have "list_all (source_silent sample_libs no_files (path_segments ?E)) [?later]"
    using set_values_silent [of "''kompact.runtime.threads''" "path_segments ?E" "CInteger 2" sample_libs no_files] seg by simp
  ultimately obtain c where "load_config sample_libs no_files (push_source ?later ?conf1) = Ok c"
    "entry_read_or_default ?E c = entry_validate ?E 0"
    using set_value_is_read [of ?E 0 "kompact_config_default :: plain_config" ?conf1 sample_libs no_files config_new "push_source ?later ?conf1" "[?later]"]
    by (auto simp: push_source_def)
  moreover have zero: "digit_char 0 = CHR ''0''" by code_simp
  moreover have "entry_validate ?E 0 = Err (InvalidValue (Some ''kompact.runtime.throughput'') ''Value 0 did satisfy *value > 0'')"
    by (simp add: entry_validate_def key_defs kompact_config_validate_def show_dec.simps zero)
  ultimately show ?thesis using \<open>set_config_value ?E 0 _ = Ok ?conf1\<close> by auto
qed

subsection \<open>Valid settings\<close>

text \<open>What \<open>read_or_default\<close> returns has passed the validator or is the default.\<close>

lemma entry_validate_Ok: "entry_validate E a = Ok v \<Longrightarrow> a = v"
  by (auto simp: entry_validate_def split: option.splits rresult.splits)

lemma read_or_default_ok:
  assumes "entry_read_or_default E c = Ok v"
  shows "entry_default E = Some v \<or> entry_validate E v = Ok v"
proof (cases "entry_read E c")
  case (Ok u)
  with assms have "entry_read E c = Ok v" by (simp add: entry_read_or_default_def)
  then obtain a where "entry_validate E a = Ok v" by (auto simp: entry_read_def rbind_eq_Ok)
  with entry_validate_Ok [OF this] show ?thesis by simp
qed (use assms in \<open>auto simp: entry_read_or_default_def split: config_error.splits if_splits option.splits\<close>)

lemma rmap_err_Panic: "rmap_err f r = Panic \<longleftrightarrow> r = Panic"
  by (cases r) simp_all

lemma read_never_panics:
  assumes "\<And>w. from_conf (entry_type E) w \<noteq> Panic" "\<And>f v. entry_validator E = Some f \<Longrightarrow> f v \<noteq> Panic"
  shows "entry_read_or_default E c \<noteq> Panic"
proof -
  have "entry_validate E v \<noteq> Panic" for v
    using assms(2) by (auto simp: entry_validate_def split: option.splits rresult.splits)
  moreover have "lookup_value l \<noteq> Panic" for l :: "'a config_lookup" by (simp add: lookup_value_eq split: sum.splits)
  ultimately have "entry_read E c \<noteq> Panic" using assms(1) by (simp add: entry_read_def rbind_eq_Panic rmap_err_Panic)
  then show ?thesis by (auto simp: entry_read_or_default_def split: rresult.splits config_error.splits option.splits)
qed

lemma macro_validator_ok: "kompact_config_validate d cond t v = Ok () \<longleftrightarrow> cond v" "kompact_config_validate d cond t v \<noteq> Panic"
  by (simp_all add: kompact_config_validate_def)

text \<open>The settings a system is built with.\<close>

definition settings_valid :: "('d, 's, 't, 'b, 'c, 'l) kompact_config \<Rightarrow> bool" where
  "settings_valid conf \<longleftrightarrow> 0 < kc_throughput conf \<and> 0 < kc_threads conf \<and> f32_less 0 (kc_msg_priority conf) \<and> f32_less (kc_msg_priority conf) 0x3F800000"

lemma priority_default_ok: "f32_less 0 0x3F000000" "f32_less 0x3F000000 0x3F800000"
  by (simp_all add: float_defs)

lemma override_settings:
  assumes "override_from_config L env c conf = Ok conf'"
  shows "settings_valid conf'"
proof -
  have "0 < kc_throughput conf'" "0 < kc_threads conf'"
    using assms by (auto simp: override_from_config_def rbind_eq_Ok key_defs entry_validate_def macro_validator_ok
        dest!: read_or_default_ok split: rresult.splits)
  moreover have "f32_less 0 (kc_msg_priority conf') \<and> f32_less (kc_msg_priority conf') 0x3F800000"
    using assms priority_default_ok by (auto simp: override_from_config_def rbind_eq_Ok key_defs entry_validate_def macro_validator_ok
        dest!: read_or_default_ok split: rresult.splits)
  ultimately show ?thesis by (simp add: settings_valid_def)
qed

lemma converters_never_panic:
  "from_conf (string_value L) w \<noteq> Panic" "from_conf (usize_value L) w \<noteq> Panic" "from_conf (f32_value L) w \<noteq> Panic"
  by (auto simp: converter_defs rbind_eq_Panic split: option.splits)

lemma scheduler_chosen:
  assumes "entry_read_or_default (SCHEDULER L) c = Ok opt"
  shows "choose_scheduler opt threads current \<noteq> None"
  using read_or_default_ok [OF assms] by (auto simp: key_defs entry_validate_def macro_validator_ok choose_scheduler_def split: rresult.splits)

lemma override_never_panics: "override_from_config L env c conf \<noteq> Panic"
proof -
  have "entry_read_or_default (LABEL L env) c \<noteq> Panic" "entry_read_or_default (THROUGHPUT L) c \<noteq> Panic"
    "entry_read_or_default (MESSAGE_PRIORITY L env) c \<noteq> Panic" "entry_read_or_default (THREADS L env) c \<noteq> Panic"
    "entry_read_or_default (SCHEDULER L) c \<noteq> Panic"
    by (rule read_never_panics; auto simp: key_defs converters_never_panic macro_validator_ok)+
  then show ?thesis
    by (auto simp: override_from_config_def rbind_eq_Panic or_panic_def split: option.splits dest: scheduler_chosen)
qed

text \<open>
  C16: Taking over a configuration never panics (the scheduler option is always a known one), and what it lets through is valid: positive throughput and
  threads, and a message priority strictly between zero and one. With such settings and a throughput of at most \<open>2 ^ 24\<close>, which single precision
  represents exactly, the number of messages that an execution handles before events is defined and smaller than the throughput, whatever the
  rounding, so that messages always leave room for events.
\<close>

theorem settings_are_valid:
  "override_from_config L env c conf \<noteq> Panic \<and>
   (override_from_config L env c conf = Ok conf' \<longrightarrow>
      settings_valid conf' \<and>
      (kc_throughput conf' \<le> 2 ^ 24 \<longrightarrow> (\<exists>m. max_messages conf' = Ok m \<and> m < kc_throughput conf')))"
  using override_never_panics [of L env c conf] override_settings [of L env c conf conf']
    share_less [of "kc_throughput conf'" "kc_msg_priority conf'"]
  by (auto simp: settings_valid_def max_messages_def Let_def)

definition sample_system_env :: system_env where
  "sample_system_env = \<lparr>env_label = ''kompact-runtime-1'', env_cpus = 4, env_show_f32 = (\<lambda>_. ''0.0'')\<rparr>"

theorem settings_are_valid_witness:
  "\<exists>conf'. override_from_config sample_libs sample_system_env config_new (kompact_config_default :: plain_config) = Ok conf' \<and>
     settings_valid conf' \<and> (\<exists>m. max_messages conf' = Ok m \<and> m < 50)"
proof -
  let ?conf = "kompact_config_default :: plain_config"
  let ?conf' = "?conf\<lparr>kc_label := ''kompact-runtime-1'', kc_throughput := 50, kc_msg_priority := 0x3F000000, kc_threads := 4, kc_scheduler_builder := SmallPool\<rparr>"
  have silent: "silent_on (doc (config_new :: unit config)) (k # ks)" for k ks by (simp add: doc_def config_new_def)
  have "override_from_config sample_libs sample_system_env config_new ?conf = Ok ?conf'"
    by (simp add: override_from_config_def entry_default_used valid_key_def path_segments_def key_defs CONF_SEP_def silent
        sample_system_env_def choose_scheduler_def)
  with settings_are_valid [of sample_libs sample_system_env config_new ?conf ?conf'] show ?thesis by auto
qed

subsection \<open>Events can starve messages\<close>

text \<open>
  The documentation promises that a minimum of one message or event is enforced. For messages it is not: with a throughput of one and the default
  priority the share of messages is cut to zero, and as long as a port has events (here, each handled event triggers the
  next one) a queued message is never handled. The component is in the same state after every execution.
\<close>

definition busy_handlers :: "(unit, unit, nat, unit) handlers" where
  "busy_handlers = idle_handlers\<lparr>execute_ports := (\<lambda>n s p d. (d, [EffPort],
     Some \<lparr>res_blocking = None, res_shutdown = False, res_error = None, res_count = 1, res_skip = 0\<rparr>))\<rparr>"

definition starved_component :: "(unit, unit, nat, unit) component" where
  "starved_component = (demo_component (ACTIVE + 2))\<lparr>msg_queue := [7], port_pending := 1\<rparr>"

lemma events_starve_messages:
  "max_messages ((kompact_config_default :: plain_config)\<lparr>kc_throughput := 1, kc_msg_priority := 0x3F000000\<rparr>) = Ok 0 \<and>
   execute fuel 1 0 busy_handlers starved_component = Return Schedule starved_component"
proof
  show "max_messages ((kompact_config_default :: plain_config)\<lparr>kc_throughput := 1, kc_msg_priority := 0x3F000000\<rparr>) = Ok 0"
    by (simp add: max_messages_def float_eval)
  have st: "flag_code 2 = 0" "work_count 2 = 2" "flag_code 3 = 0" "work_count 3 = 3" "starved_component = (demo_component 2)\<lparr>msg_queue := [7], port_pending := 1\<rparr>"
    by (simp_all add: flag_code_def work_count_def starved_component_def ACTIVE_def)
  have "run_active 1 0 busy_handlers starved_component 0 = Return Schedule starved_component"
    by (simp add: st run_active_def try_action_def demo_component_def timer_manager_new_def call_handler_def busy_handlers_def idle_handlers_def or_abort_def
        port_step_def port_outcome_def finish_work_eq announce_work_def increment_work_eq)
  then show "execute fuel 1 0 busy_handlers starved_component = Return Schedule starved_component"
    using execute_normal [of starved_component fuel 1 0 busy_handlers] by (simp add: st demo_component_def)
qed

end
