(* ===== verification/Port_Exec.thy ===== *)
theory Port_Exec
  imports Component_Exec
begin

text \<open>
  The \<open>execute\<close> that \<open>#[derive(ComponentDefinition)]\<close> generates for the ports of a component
  (\<open>component-definition-derive\<close>): it takes the events of the ports in turn, one of each, up to a limit, and
  reports where to go on the next time. The ports are numbered in the order of their fields. A handler is an argument; what
  is pushed to the component's own ports while it runs, by the handler or by others, is part of its answer.

  The lemmas show that the generated code ends, that it keeps the order of the events of every port and counts what it
  handles, that below the limit it leaves no event behind, and that it serves the ports in a cycle that goes on from one execution to
  the next, so no port can be starved by another. With this it has what the execution of a component relies on.
\<close>

subsection \<open>The generated code\<close>

record ('d, 'e) port_state =
  ps_def :: 'd
  ps_queues :: "'e list list"
  ps_handled :: "(nat \<times> 'e) list"
  ps_pushed :: "(nat \<times> 'e) list"

type_synonym ('d, 'e, 'f) port_handler = "nat \<Rightarrow> 'e \<Rightarrow> 'd \<Rightarrow> 'd \<times> (nat \<times> 'e) list \<times> 'f hresult"

fun push_events :: "(nat \<times> 'e) list \<Rightarrow> 'e list list \<Rightarrow> 'e list list" where
  "push_events [] qs = qs"
| "push_events ((i, e) # ps) qs = push_events ps (if i < length qs then qs[i := qs ! i @ [e]] else qs)"

definition execute_result_new :: "'f option \<Rightarrow> nat \<Rightarrow> nat \<Rightarrow> 'f execute_result" where
  "execute_result_new f count sk = \<lparr>res_blocking = f, res_shutdown = False, res_error = None, res_count = count, res_skip = sk\<rparr>"

definition execute_result_shutdown :: "nat \<Rightarrow> nat \<Rightarrow> 'f execute_result" where
  "execute_result_shutdown count sk = \<lparr>res_blocking = None, res_shutdown = True, res_error = None, res_count = count, res_skip = sk\<rparr>"

definition execute_result_error :: "handler_error \<Rightarrow> nat \<Rightarrow> nat \<Rightarrow> 'f execute_result" where
  "execute_result_error e count sk = \<lparr>res_blocking = None, res_shutdown = False, res_error = Some e, res_count = count, res_skip = sk\<rparr>"

text \<open>The code goes on with a count and whether it has done work, or returns; without a result a handler has panicked.\<close>

datatype ('d, 'e, 'f) port_flow = Go nat bool "('d, 'e) port_state" | Done "'f execute_result option" "('d, 'e) port_state"

definition handle_port ::
    "('d, 'e, 'f) port_handler \<Rightarrow> nat \<Rightarrow> nat \<Rightarrow> nat \<Rightarrow> bool \<Rightarrow> ('d, 'e) port_state \<Rightarrow> ('d, 'e, 'f) port_flow" where
  "handle_port H max_events i count done_work st =
     (if count \<ge> max_events then Done (Some (execute_result_new None count i)) st
      else
        (case ps_queues st ! i of
           [] \<Rightarrow> Go count done_work st
         | event # rest \<Rightarrow>
             (let (d, pushed, res) = H i event (ps_def st);
                  st1 = \<lparr>ps_def = d, ps_queues = push_events pushed ((ps_queues st)[i := rest]), ps_handled = ps_handled st @ [(i, event)],
                    ps_pushed = ps_pushed st @ filter (\<lambda>(j, _). j < length (ps_queues st)) pushed\<rparr>
              in case res of
                   HRet HOk \<Rightarrow> Go (count + 1) True st1
                 | HRet (BlockOn f) \<Rightarrow> Done (Some (execute_result_new (Some f) (count + 1) i)) st1
                 | HRet HShutdown \<Rightarrow> Done (Some (execute_result_shutdown (count + 1) i)) st1
                 | HErr e \<Rightarrow> Done (Some (execute_result_error e (count + 1) i)) st1
                 | HPanic \<Rightarrow> Done None st1)))"

fun port_handles ::
    "('d, 'e, 'f) port_handler \<Rightarrow> nat \<Rightarrow> nat list \<Rightarrow> nat \<Rightarrow> bool \<Rightarrow> ('d, 'e) port_state \<Rightarrow> ('d, 'e, 'f) port_flow" where
  "port_handles H max_events [] count done_work st = Go count done_work st"
| "port_handles H max_events (i # is) count done_work st =
     (case handle_port H max_events i count done_work st of
        Go c w st1 \<Rightarrow> port_handles H max_events is c w st1
      | Done r st1 \<Rightarrow> Done r st1)"

definition port_handles_skip ::
    "('d, 'e, 'f) port_handler \<Rightarrow> nat \<Rightarrow> nat \<Rightarrow> nat \<Rightarrow> nat \<Rightarrow> bool \<Rightarrow> ('d, 'e) port_state \<Rightarrow> ('d, 'e, 'f) port_flow" where
  "port_handles_skip H max_events n sk = port_handles H max_events (filter (\<lambda>i. sk \<le> i) [0..<n])"

text \<open>Every repetition of the loop has done work, so it ends at the limit at the latest.\<close>

lemma handle_port_count:
  "handle_port H m i count w st = Go c w' st' \<Longrightarrow> count \<le> c \<and> (count < c \<longrightarrow> c \<le> m) \<and> (w' \<and> \<not> w \<longrightarrow> count < c)"
  by (auto simp: handle_port_def Let_def split: if_splits list.splits prod.splits hresult.splits handled.splits)

lemma port_handles_count:
  "port_handles H m is count w st = Go c w' st' \<Longrightarrow> count \<le> c \<and> (count < c \<longrightarrow> c \<le> m) \<and> (w' \<and> \<not> w \<longrightarrow> count < c)"
proof (induction "is" arbitrary: count w st)
  case (Cons i "is")
  then obtain c1 w1 st1 where h: "handle_port H m i count w st = Go c1 w1 st1" "port_handles H m is c1 w1 st1 = Go c w' st'"
    by (auto split: port_flow.splits)
  then show ?case using handle_port_count [OF h(1)] Cons.IH [OF h(2)] by fastforce
qed simp

function execute_loop ::
    "('d, 'e, 'f) port_handler \<Rightarrow> nat \<Rightarrow> nat \<Rightarrow> nat \<Rightarrow> bool \<Rightarrow> ('d, 'e) port_state \<Rightarrow> 'f execute_result option \<times> ('d, 'e) port_state" where
  "execute_loop H max_events n count done_work st =
     (if done_work then
        (case port_handles H max_events [0..<n] count False st of
           Go c w st1 \<Rightarrow> execute_loop H max_events n c w st1
         | Done r st1 \<Rightarrow> (r, st1))
      else (Some (execute_result_new None count 0), st))"
  by pat_completeness auto
termination
  by (relation "measure (\<lambda>(_, m, _, count, w, _). 2 * (m - count) + (if w then 1 else 0))") (auto dest!: port_handles_count)

declare execute_loop.simps [simp del]

definition derived_execute ::
    "('d, 'e, 'f) port_handler \<Rightarrow> nat \<Rightarrow> nat \<Rightarrow> nat \<Rightarrow> ('d, 'e) port_state \<Rightarrow> 'f execute_result option \<times> ('d, 'e) port_state" where
  "derived_execute H n max_events sk st =
     (if n = 0 then (Some (execute_result_new None 0 0), st)
      else
        (case port_handles_skip H max_events n sk 0 True st of
           Go c w st1 \<Rightarrow> execute_loop H max_events n c w st1
         | Done r st1 \<Rightarrow> (r, st1)))"

subsection \<open>Order and counts\<close>

text \<open>
  What has happened to the events of the ports: they were handled from the front of their queues, and pushed at the end. The
  state has both sequences of events.
\<close>

definition at_port :: "nat \<Rightarrow> (nat \<times> 'e) list \<Rightarrow> 'e list" where
  "at_port i es = map snd (filter (\<lambda>(j, _). j = i) es)"

lemma at_port_simps [simp]:
  "at_port i [] = []" "at_port i ((j, e) # es) = (if j = i then e # at_port i es else at_port i es)" "at_port i (es @ es') = at_port i es @ at_port i es'"
  by (simp_all add: at_port_def)

definition served :: "nat \<Rightarrow> nat \<Rightarrow> ('d, 'e) port_state \<Rightarrow> ('d, 'e) port_state \<Rightarrow> bool" where
  "served n k st st' \<longleftrightarrow> length (ps_queues st') = length (ps_queues st) \<and>
     (\<exists>es ps. ps_handled st' = ps_handled st @ es \<and> ps_pushed st' = ps_pushed st @ ps \<and> length es = k \<and>
        list_all (\<lambda>(i, _). i < n) es \<and> list_all (\<lambda>(i, _). i < n) ps \<and>
        (\<forall>i < n. at_port i es @ ps_queues st' ! i = ps_queues st ! i @ at_port i ps))"

lemma served_refl: "served n 0 st st"
  by (simp add: served_def)

lemma served_trans:
  assumes "served n k st st1" "served n l st1 st2"
  shows "served n (k + l) st st2"
proof -
  obtain es1 ps1 where 1: "ps_handled st1 = ps_handled st @ es1" "ps_pushed st1 = ps_pushed st @ ps1" "length es1 = k"
    "list_all (\<lambda>(i, _). i < n) es1" "list_all (\<lambda>(i, _). i < n) ps1" "length (ps_queues st1) = length (ps_queues st)"
    "\<forall>i < n. at_port i es1 @ ps_queues st1 ! i = ps_queues st ! i @ at_port i ps1"
    using assms(1) unfolding served_def by blast
  obtain es2 ps2 where 2: "ps_handled st2 = ps_handled st1 @ es2" "ps_pushed st2 = ps_pushed st1 @ ps2" "length es2 = l"
    "list_all (\<lambda>(i, _). i < n) es2" "list_all (\<lambda>(i, _). i < n) ps2" "length (ps_queues st2) = length (ps_queues st1)"
    "\<forall>i < n. at_port i es2 @ ps_queues st2 ! i = ps_queues st1 ! i @ at_port i ps2"
    using assms(2) unfolding served_def by blast
  have "at_port i (es1 @ es2) @ ps_queues st2 ! i = ps_queues st ! i @ at_port i (ps1 @ ps2)" if "i < n" for i
    using 1(7) 2(7) that by simp
  then show ?thesis using 1(1-6) 2(1-6) unfolding served_def by (intro conjI exI [of _ "es1 @ es2"] exI [of _ "ps1 @ ps2"]) auto
qed

lemma push_events_length [simp]: "length (push_events ps qs) = length qs"
  by (induction ps qs rule: push_events.induct) auto

lemma push_events_at: "i < length qs \<Longrightarrow> push_events ps qs ! i = qs ! i @ at_port i ps"
proof (induction ps qs rule: push_events.induct)
  case (2 j e ps qs)
  let ?qs = "if j < length qs then qs[j := qs ! j @ [e]] else qs"
  have "i < length ?qs" using "2.prems" by simp
  from "2.IH" [OF this] show ?case using "2.prems" by (cases "i = j") auto
qed simp

lemma at_port_valid: "i < n \<Longrightarrow> at_port i (filter (\<lambda>(j, _). j < n) ps) = at_port i ps"
  by (induction ps) auto

text \<open>The outcome of a piece of the generated code that started with a given count.\<close>

definition accounts :: "nat \<Rightarrow> nat \<Rightarrow> nat \<Rightarrow> ('d, 'e) port_state \<Rightarrow> ('d, 'e, 'f) port_flow \<Rightarrow> bool" where
  "accounts m n count st fl \<longleftrightarrow>
     (case fl of
        Go c _ st' \<Rightarrow> count \<le> c \<and> c \<le> m \<and> served n (c - count) st st'
      | Done (Some r) st' \<Rightarrow> count \<le> res_count r \<and> res_count r \<le> m \<and> res_skip r < n \<and> served n (res_count r - count) st st'
      | Done None st' \<Rightarrow> \<exists>k. k \<le> m - count \<and> served n k st st')"

lemma handle_port_accounts:
  assumes "i < n" "length (ps_queues st) = n" "count \<le> m"
  shows "accounts m n count st (handle_port H m i count w st)"
proof (cases "m \<le> count \<or> ps_queues st ! i = []")
  case True
  then show ?thesis using assms served_refl [of n st]
    by (auto simp: accounts_def handle_port_def execute_result_new_def split: list.split)
next
  case False
  obtain e rest where q: "ps_queues st ! i = e # rest" using False by (cases "ps_queues st ! i") auto
  obtain d ps r where h: "H i e (ps_def st) = (d, ps, r)" by (cases "H i e (ps_def st)") auto
  let ?ps = "filter (\<lambda>(j, _). j < n) ps"
  let ?st = "\<lparr>ps_def = d, ps_queues = push_events ps ((ps_queues st)[i := rest]), ps_handled = ps_handled st @ [(i, e)], ps_pushed = ps_pushed st @ ?ps\<rparr>"
  have "at_port j [(i, e)] @ ps_queues ?st ! j = ps_queues st ! j @ at_port j ?ps" if "j < n" for j
    using that assms(2) q by (cases "j = i") (simp_all add: push_events_at at_port_valid)
  then have "served n 1 st ?st" using assms(1) unfolding served_def
    by (intro conjI exI [of _ "[(i, e)]"] exI [of _ ?ps]) (auto simp: list_all_iff)
  then show ?thesis using False q h assms(1,2)
    by (auto simp: handle_port_def accounts_def execute_result_new_def execute_result_shutdown_def execute_result_error_def Let_def
        split: hresult.split handled.split intro!: exI [of _ 1])
qed

lemma accounts_later:
  assumes "count \<le> c" "c \<le> m" "served n (c - count) st st1" "accounts m n c st1 fl"
  shows "accounts m n count st fl"
proof (cases fl)
  case (Go c2 w st2)
  then show ?thesis using assms served_trans [OF assms(3), of "c2 - c" st2] by (auto simp: accounts_def)
next
  case (Done r st2)
  show ?thesis
  proof (cases r)
    case None
    then obtain k where "k \<le> m - c" "served n k st1 st2" using assms(4) Done by (auto simp: accounts_def)
    then show ?thesis using served_trans [OF assms(3)] assms(1,2) Done None
      by (auto simp: accounts_def intro!: exI [of _ "c - count + k"])
  next
    case (Some x)
    then show ?thesis using assms Done served_trans [OF assms(3), of "res_count x - c" st2] by (auto simp: accounts_def)
  qed
qed

lemma served_length: "served n k st st' \<Longrightarrow> length (ps_queues st') = length (ps_queues st)"
  by (simp add: served_def)

lemma port_handles_accounts:
  "list_all (\<lambda>i. i < n) is \<Longrightarrow> length (ps_queues st) = n \<Longrightarrow> count \<le> m \<Longrightarrow> accounts m n count st (port_handles H m is count w st)"
proof (induction "is" arbitrary: count w st)
  case Nil
  then show ?case by (simp add: accounts_def served_refl)
next
  case (Cons i "is")
  have h: "accounts m n count st (handle_port H m i count w st)"
    by (rule handle_port_accounts) (use Cons.prems in simp_all)
  show ?case
  proof (cases "handle_port H m i count w st")
    case (Go c w1 st1)
    then have c: "count \<le> c" "c \<le> m" "served n (c - count) st st1" using h by (auto simp: accounts_def)
    then show ?thesis using accounts_later [OF c Cons.IH] Cons.prems Go served_length [OF c(3)] by simp
  next
    case (Done r st1)
    then show ?thesis using h by simp
  qed
qed

lemma execute_loop_accounts:
  "length (ps_queues st) = n \<Longrightarrow> 0 < n \<Longrightarrow> count \<le> m \<Longrightarrow> execute_loop H m n count w st = (r, st') \<Longrightarrow> accounts m n count st (Done r st')"
proof (induction H m n count w st rule: execute_loop.induct)
  case (1 H m n count w st)
  show ?case
  proof (cases w)
    case True
    have h: "accounts m n count st (port_handles H m [0..<n] count False st)"
      using port_handles_accounts [of n "[0..<n]" st count m H False] "1.prems" by (simp add: list_all_iff)
    show ?thesis
    proof (cases "port_handles H m [0..<n] count False st")
      case (Go c w1 st1)
      then have c: "count \<le> c" "c \<le> m" "served n (c - count) st st1" using h by (auto simp: accounts_def)
      have "execute_loop H m n c w1 st1 = (r, st')" using "1.prems"(4) True Go by (simp add: execute_loop.simps [of H m n count])
      then show ?thesis using accounts_later [OF c "1.IH" [OF True Go]] served_length [OF c(3)] "1.prems" c by simp
    next
      case (Done r1 st1)
      then show ?thesis using h "1.prems"(4) True by (simp add: execute_loop.simps [of H m n count])
    qed
  next
    case False
    then show ?thesis using "1.prems" served_refl [of n st]
      by (auto simp: execute_loop.simps [of H m n count] accounts_def execute_result_new_def)
  qed
qed

lemma derived_execute_accounts:
  assumes "length (ps_queues st) = n" "derived_execute H n m sk st = (r, st')"
  shows "accounts m (max 1 n) 0 st (Done r st') \<and> served n (length (ps_handled st') - length (ps_handled st)) st st'"
proof (cases "n = 0")
  case True
  then show ?thesis using assms served_refl [of _ st]
    by (auto simp: derived_execute_def accounts_def execute_result_new_def)
next
  case False
  have h: "accounts m n 0 st (port_handles_skip H m n sk 0 True st)"
    unfolding port_handles_skip_def by (rule port_handles_accounts) (use assms(1) in \<open>auto simp: list_all_iff\<close>)
  have "accounts m n 0 st (Done r st')"
  proof (cases "port_handles_skip H m n sk 0 True st")
    case (Go c w1 st1)
    then have c: "0 \<le> c" "c \<le> m" "served n (c - 0) st st1" using h by (auto simp: accounts_def)
    have "execute_loop H m n c w1 st1 = (r, st')" using assms(2) False Go by (simp add: derived_execute_def)
    then show ?thesis using accounts_later [OF c execute_loop_accounts] served_length [OF c(3)] assms(1) False c by auto
  next
    case (Done r1 st1)
    then show ?thesis using h assms(2) False by (simp add: derived_execute_def)
  qed
  then show ?thesis using False by (cases r) (auto simp: accounts_def served_def max_def)
qed

subsection \<open>No event is left behind\<close>

definition undisturbed :: "'f execute_result \<Rightarrow> bool" where
  "undisturbed r \<longleftrightarrow> res_blocking r = None \<and> \<not> res_shutdown r \<and> res_error r = None"

lemma handle_port_idle:
  "handle_port H m i count False st = Go c False st' \<Longrightarrow> c = count \<and> st' = st \<and> ps_queues st ! i = []"
  by (auto simp: handle_port_def Let_def split: if_splits list.splits prod.splits hresult.splits handled.splits)

lemma handle_port_busy: "handle_port H m i count w st = Go c w' st' \<Longrightarrow> w \<Longrightarrow> w'"
  by (auto simp: handle_port_def Let_def split: if_splits list.splits prod.splits hresult.splits handled.splits)

lemma port_handles_busy: "port_handles H m is count w st = Go c w' st' \<Longrightarrow> w \<Longrightarrow> w'"
proof (induction "is" arbitrary: count w st)
  case (Cons i "is")
  then obtain c1 w1 st1 where "handle_port H m i count w st = Go c1 w1 st1" "port_handles H m is c1 w1 st1 = Go c w' st'"
    by (auto split: port_flow.splits)
  then show ?case using handle_port_busy [of H m i count w st] Cons.IH [of c1 w1 st1] Cons.prems(2) by blast
qed simp

lemma port_handles_idle:
  "port_handles H m is count False st = Go c False st' \<Longrightarrow> c = count \<and> st' = st \<and> (\<forall>i \<in> set is. ps_queues st ! i = [])"
proof (induction "is" arbitrary: count st)
  case (Cons i "is")
  then obtain c1 w1 st1 where h: "handle_port H m i count False st = Go c1 w1 st1" "port_handles H m is c1 w1 st1 = Go c False st'"
    by (auto split: port_flow.splits)
  have "w1 = False" using port_handles_busy [OF h(2)] by blast
  then show ?case using handle_port_idle [of H m i count st c1 st1] Cons.IH [of c1 st1] h by auto
qed simp

lemma handle_port_limit: "handle_port H m i count w st = Done (Some r) st' \<Longrightarrow> undisturbed r \<Longrightarrow> m \<le> res_count r"
  by (auto simp: handle_port_def Let_def undisturbed_def execute_result_new_def execute_result_shutdown_def execute_result_error_def
      split: if_splits list.splits prod.splits hresult.splits handled.splits)

lemma port_handles_limit: "port_handles H m is count w st = Done (Some r) st' \<Longrightarrow> undisturbed r \<Longrightarrow> m \<le> res_count r"
  by (induction "is" arbitrary: count w st) (auto split: port_flow.splits dest: handle_port_limit)

lemma execute_loop_empties:
  "execute_loop H m n count w st = (Some r, st') \<Longrightarrow> w \<or> (\<forall>i < n. ps_queues st ! i = []) \<Longrightarrow> undisturbed r \<Longrightarrow> res_count r < m \<Longrightarrow> i < n \<Longrightarrow>
     ps_queues st' ! i = []"
proof (induction H m n count w st rule: execute_loop.induct)
  case (1 H m n count w st)
  show ?case
  proof (cases w)
    case True
    show ?thesis
    proof (cases "port_handles H m [0..<n] count False st")
      case (Go c w1 st1)
      have "execute_loop H m n c w1 st1 = (Some r, st')" using "1.prems"(1) True Go by (simp add: execute_loop.simps [of H m n count])
      moreover have "w1 \<or> (\<forall>i < n. ps_queues st1 ! i = [])" using port_handles_idle [of H m "[0..<n]" count st c st1] Go by (cases w1) auto
      ultimately show ?thesis using "1.IH" [OF True Go] "1.prems"(3-5) by blast
    next
      case (Done r1 st1)
      then show ?thesis using "1.prems" True port_handles_limit [of H m "[0..<n]" count False st r st']
        by (simp add: execute_loop.simps [of H m n count])
    qed
  next
    case False
    then show ?thesis using "1.prems" by (simp add: execute_loop.simps [of H m n count])
  qed
qed

lemma derived_execute_empties:
  assumes "derived_execute H n m sk st = (Some r, st')" "undisturbed r" "res_count r < m" "i < n"
  shows "ps_queues st' ! i = []"
proof (cases "port_handles_skip H m n sk 0 True st")
  case (Go c w st1)
  have "w" using port_handles_busy [OF Go [unfolded port_handles_skip_def]] by blast
  moreover have "execute_loop H m n c w st1 = (Some r, st')" using assms(1,4) Go by (simp add: derived_execute_def split: if_splits)
  ultimately show ?thesis using execute_loop_empties assms(2-4) by blast
next
  case (Done r1 st1)
  then show ?thesis using assms port_handles_limit unfolding port_handles_skip_def derived_execute_def by (fastforce split: if_splits)
qed

subsection \<open>Ports are served in turn\<close>

definition always_ok :: "('d, 'e, 'f) port_handler \<Rightarrow> bool" where
  "always_ok H \<longleftrightarrow> (\<forall>i e d. \<exists>d' ps. H i e d = (d', ps, HRet HOk))"

definition stocked :: "nat \<Rightarrow> nat \<Rightarrow> ('d, 'e) port_state \<Rightarrow> bool" where
  "stocked n k st \<longleftrightarrow> length (ps_queues st) = n \<and> (\<forall>i < n. k \<le> length (ps_queues st ! i))"

abbreviation ports_of :: "('d, 'e) port_state \<Rightarrow> nat list" where
  "ports_of st \<equiv> map fst (ps_handled st)"

lemma handle_port_takes:
  assumes "always_ok H" "stocked n (m - count) st" "count < m" "i < n"
  shows "\<exists>st'. handle_port H m i count w st = Go (count + 1) True st' \<and> stocked n (m - (count + 1)) st' \<and> ports_of st' = ports_of st @ [i]"
proof -
  obtain e rest where q: "ps_queues st ! i = e # rest" using assms(2-4) by (cases "ps_queues st ! i") (auto simp: stocked_def)
  obtain d ps where h: "H i e (ps_def st) = (d, ps, HRet HOk)" using assms(1) unfolding always_ok_def by blast
  have "m - (count + 1) \<le> length (push_events ps ((ps_queues st)[i := rest]) ! j)" if "j < n" for j
  proof -
    have "push_events ps ((ps_queues st)[i := rest]) ! j = (ps_queues st)[i := rest] ! j @ at_port j ps"
      using assms(2) \<open>j < n\<close> by (simp add: stocked_def push_events_at)
    moreover have "m - count \<le> length (ps_queues st ! j)" "m - count \<le> Suc (length rest)" using assms(2,4) that q by (auto simp: stocked_def)
    ultimately show ?thesis using assms(2) that by (cases "j = i") (auto simp: stocked_def)
  qed
  then show ?thesis using q h assms(2,3) by (simp add: handle_port_def stocked_def)
qed

lemma port_handles_takes:
  assumes "always_ok H"
  shows "stocked n (m - count) st \<Longrightarrow> count \<le> m \<Longrightarrow> i \<le> n \<Longrightarrow>
    (if m - count < n - i
     then \<exists>st'. port_handles H m [i..<n] count w st = Done (Some (execute_result_new None m (i + (m - count)))) st' \<and>
       stocked n 0 st' \<and> ports_of st' = ports_of st @ [i..<i + (m - count)]
     else \<exists>w' st'. port_handles H m [i..<n] count w st = Go (count + (n - i)) w' st' \<and> (i < n \<longrightarrow> w') \<and>
       stocked n (m - (count + (n - i))) st' \<and> ports_of st' = ports_of st @ [i..<n])"
proof (induction "n - i" arbitrary: i count w st)
  case (Suc k)
  then have i: "i < n" "[i..<n] = i # [Suc i..<n]" by (auto simp: upt_conv_Cons)
  show ?case
  proof (cases "count = m")
    case True
    then show ?thesis using i Suc.prems(1) by (auto simp: handle_port_def stocked_def)
  next
    case False
    then have "count < m" using Suc.prems(2) by simp
    from handle_port_takes [OF assms Suc.prems(1) this i(1), of w] obtain st1 where
      h: "handle_port H m i count w st = Go (count + 1) True st1" "stocked n (m - (count + 1)) st1" "ports_of st1 = ports_of st @ [i]" by blast
    have "k = n - Suc i" "count + 1 \<le> m" "Suc i \<le> n" using Suc.hyps(2) i \<open>count < m\<close> by auto
    note IH = Suc.hyps(1) [OF this(1) h(2) this(2,3), of True]
    show ?thesis
    proof (cases "m - count < n - i")
      case True
      then have lt: "m - (count + 1) < n - Suc i" and eq: "Suc i + (m - (count + 1)) = i + (m - count)" using \<open>count < m\<close> by auto
      have up: "[i..<i + (m - count)] = i # [Suc i..<i + (m - count)]" using \<open>count < m\<close> by (simp add: upt_conv_Cons)
      obtain st' where "port_handles H m [Suc i..<n] (count + 1) True st1 = Done (Some (execute_result_new None m (i + (m - count)))) st'"
        "stocked n 0 st'" "ports_of st' = ports_of st1 @ [Suc i..<i + (m - count)]"
        using IH unfolding if_P [OF lt] eq by blast
      then show ?thesis unfolding if_P [OF True] up i(2) using h(1,3) by simp
    next
      case False
      then have "\<not> m - (count + 1) < n - Suc i" "count + 1 + (n - Suc i) = count + (n - i)" using i \<open>count < m\<close> by auto
      moreover have "w'" if "port_handles H m [Suc i..<n] (count + 1) True st1 = Go c w' st'" for c w' st' using port_handles_busy [OF that] by blast
      ultimately show ?thesis using IH False h(1,3) i(2) by auto
    qed
  qed
qed simp

lemma cycle_from:
  assumes "sk < n"
  shows "map (\<lambda>j. (sk + j) mod n) [0..<m] =
    (if m < n - sk then [sk..<sk + m] else [sk..<n] @ map (\<lambda>j. j mod n) [0..<m - (n - sk)])" (is "?l = ?r")
proof (rule nth_equalityI)
  fix j assume j: "j < length ?l"
  have "(sk + j) mod n = (j - (n - sk)) mod n" if "n - sk \<le> j"
  proof -
    have "sk + j = n + (j - (n - sk))" using that assms by simp
    then show ?thesis by (metis mod_add_self1)
  qed
  then show "?l ! j = ?r ! j" using j assms by (auto simp: nth_append)
qed (use assms in auto)

lemma cycle_split: "0 < n \<Longrightarrow> n \<le> k \<Longrightarrow> map (\<lambda>j. j mod n) [0..<k] = [0..<n] @ map (\<lambda>j. j mod n) [0..<k - n]"
  using cycle_from [of 0 n k] by simp

lemma execute_loop_cycles:
  assumes "always_ok H" "0 < n"
  shows "stocked n (m - count) st \<Longrightarrow> count \<le> m \<Longrightarrow>
    \<exists>st'. execute_loop H m n count True st = (Some (execute_result_new None m ((m - count) mod n)), st') \<and>
      ports_of st' = ports_of st @ map (\<lambda>j. j mod n) [0..<m - count]"
proof (induction "m - count" arbitrary: count st rule: less_induct)
  case less
  note pass = port_handles_takes [OF assms(1) less.prems, of 0 False]
  show ?case
  proof (cases "m - count < n")
    case True
    moreover have "map (\<lambda>j. j mod n) [0..<m - count] = [0..<m - count]" using cycle_from [OF assms(2), of "m - count"] True by simp
    ultimately show ?thesis using pass by (auto simp: execute_loop.simps [of H m n count])
  next
    case False
    obtain w st1 where st1: "port_handles H m [0..<n] count False st = Go (count + n) w st1" "w"
      "stocked n (m - (count + n)) st1" "ports_of st1 = ports_of st @ [0..<n]"
      using pass False assms(2) by auto
    have "m - (count + n) < m - count" "count + n \<le> m" using False assms(2) by auto
    from less.hyps [OF this(1) st1(3) this(2)] obtain st' where
      st': "execute_loop H m n (count + n) True st1 = (Some (execute_result_new None m ((m - (count + n)) mod n)), st')"
      "ports_of st' = ports_of st1 @ map (\<lambda>j. j mod n) [0..<m - (count + n)]" by blast
    have "(m - count) mod n = (m - (count + n)) mod n" using False le_mod_geq [of n "m - count"] by simp
    then show ?thesis using st1(1,2,4) st' cycle_split [OF assms(2), of "m - count"] False by (simp add: execute_loop.simps [of H m n count])
  qed
qed

lemma upt_skip: "filter (\<lambda>i. sk \<le> i) [0..<n] = [sk..<n]"
proof (induction n)
  case (Suc n)
  then show ?case by (cases "sk \<le> n") auto
qed simp

lemma derived_execute_cycles:
  assumes "always_ok H" "stocked n m st" "sk < n"
  shows "\<exists>st'. derived_execute H n m sk st = (Some (execute_result_new None m ((sk + m) mod n)), st') \<and>
    ports_of st' = ports_of st @ map (\<lambda>j. (sk + j) mod n) [0..<m]"
proof (cases "m < n - sk")
  case True
  then have "(sk + m) mod n = sk + m" by simp
  then show ?thesis using port_handles_takes [OF assms(1), of n m 0 st sk True] assms(2,3) True cycle_from [OF assms(3), of m]
    by (auto simp: derived_execute_def port_handles_skip_def upt_skip)
next
  case False
  obtain w st1 where st1: "port_handles H m [sk..<n] 0 True st = Go (n - sk) w st1" "w" "stocked n (m - (n - sk)) st1" "ports_of st1 = ports_of st @ [sk..<n]"
    using port_handles_takes [OF assms(1), of n m 0 st sk True] assms(2,3) False by auto
  have le: "n - sk \<le> m" using False by simp
  from execute_loop_cycles [OF assms(1) _ st1(3) le] obtain st' where
    st': "execute_loop H m n (n - sk) True st1 = (Some (execute_result_new None m ((m - (n - sk)) mod n)), st')"
    "ports_of st' = ports_of st1 @ map (\<lambda>j. j mod n) [0..<m - (n - sk)]" using assms(3) by auto
  have "sk + m = n + (m - (n - sk))" using False assms(3) by simp
  then have "(sk + m) mod n = (m - (n - sk)) mod n" by (metis mod_add_self1)
  then show ?thesis using st1(1,2,4) st' False cycle_from [OF assms(3), of m] assms(3)
    by (simp add: derived_execute_def port_handles_skip_def upt_skip)
qed

subsection \<open>What the execution of a component relies on\<close>

text \<open>
  The handlers of a component whose \<open>execute\<close> is the generated one: \<open>feed\<close> gives the events that are queued at its ports, and what
  is pushed to them in the meantime is announced like any other work.
\<close>

definition derived_handlers ::
    "('d, 'e, 'f) port_handler \<Rightarrow> nat \<Rightarrow> (nat \<Rightarrow> 'd \<Rightarrow> 'e list list) \<Rightarrow> ('d, 'f, 'm, 'a) handlers \<Rightarrow> ('d, 'f, 'm, 'a) handlers" where
  "derived_handlers H n feed base = base\<lparr>execute_ports := (\<lambda>max_events sk queued d.
     (case derived_execute H n max_events sk \<lparr>ps_def = d, ps_queues = feed queued d, ps_handled = [], ps_pushed = []\<rparr> of
        (r, st) \<Rightarrow> (ps_def st, map (\<lambda>_. EffPort) (ps_pushed st), r)))\<rparr>"

lemma at_port_total: "list_all (\<lambda>(i, _). i < n) es \<Longrightarrow> length es = (\<Sum>i<n. length (at_port i es))"
proof (induction es)
  case (Cons x es)
  obtain j e where x: "x = (j, e)" by fastforce
  have "(\<Sum>i<n. length (at_port i (x # es))) = (\<Sum>i<n. (if i = j then 1 else 0) + length (at_port i es))"
    by (rule sum.cong) (auto simp: x)
  also have "\<dots> = 1 + (\<Sum>i<n. length (at_port i es))" using Cons.prems x by (simp add: sum.distrib)
  finally show ?case using Cons by simp
qed simp

lemma served_bound:
  assumes "served n k st st'" "length (ps_queues st) = n"
  shows "k + length (ps_pushed st) \<le> sum_list (map length (ps_queues st)) + length (ps_pushed st')"
proof -
  obtain es ps where *: "ps_pushed st' = ps_pushed st @ ps" "length es = k" "list_all (\<lambda>(i, _). i < n) es" "list_all (\<lambda>(i, _). i < n) ps"
    "\<forall>i < n. at_port i es @ ps_queues st' ! i = ps_queues st ! i @ at_port i ps"
    using assms(1) unfolding served_def by blast
  have le: "length (at_port i es) \<le> length (ps_queues st ! i) + length (at_port i ps)" if "i < n" for i
    using arg_cong [of _ _ length, OF *(5) [rule_format, OF that]] by simp
  have "k = (\<Sum>i<n. length (at_port i es))" using at_port_total [OF *(3)] *(2) by simp
  also have "\<dots> \<le> (\<Sum>i<n. length (ps_queues st ! i) + length (at_port i ps))" using le by (intro sum_mono) auto
  also have "\<dots> = sum_list (map length (ps_queues st)) + length ps"
    using at_port_total [OF *(4)] assms(2) by (simp add: sum.distrib sum_list_sum_nth atLeast0LessThan)
  finally show ?thesis using *(1) by simp
qed

text \<open>Consecutive executions, each with its own limit and starting where the one before has stopped.\<close>

fun run_ports :: "('d, 'e, 'f) port_handler \<Rightarrow> nat \<Rightarrow> nat list \<Rightarrow> nat \<Rightarrow> ('d, 'e) port_state \<Rightarrow> (nat \<times> ('d, 'e) port_state) option" where
  "run_ports H n [] sk st = Some (sk, st)"
| "run_ports H n (m # ms) sk st =
     (case derived_execute H n m sk st of
        (Some r, st1) \<Rightarrow> run_ports H n ms (res_skip r) st1
      | (None, st1) \<Rightarrow> None)"

lemma stocked_after:
  assumes "stocked n (m + k) st" "served n m st st'"
  shows "stocked n k st'"
proof -
  obtain es ps where *: "length es = m" "length (ps_queues st') = length (ps_queues st)"
    "\<forall>i < n. at_port i es @ ps_queues st' ! i = ps_queues st ! i @ at_port i ps"
    using assms(2) unfolding served_def by blast
  have "k \<le> length (ps_queues st' ! i)" if "i < n" for i
  proof -
    have "length (at_port i es) \<le> m" using *(1) by (auto simp: at_port_def intro: order_trans [OF length_filter_le])
    moreover have "length (at_port i es) + length (ps_queues st' ! i) = length (ps_queues st ! i) + length (at_port i ps)"
      using arg_cong [of _ _ length, OF *(3) [rule_format, OF that]] by simp
    moreover have "m + k \<le> length (ps_queues st ! i)" using assms(1) that by (simp add: stocked_def)
    ultimately show ?thesis by linarith
  qed
  then show ?thesis using assms(1) *(2) by (simp add: stocked_def)
qed

subsection \<open>Properties\<close>

text \<open>
  C12: One execution of the generated port code handles at most the given number of events and reports how many it was; the events of every
  port are handled in the order in which they were pushed, none is lost or repeated, and those pushed meanwhile are
  queued behind the others; and when nothing has interrupted it below the limit, no event is left.
\<close>

theorem port_events_in_order:
  assumes "length (ps_queues st) = n" "derived_execute H n m sk st = (Some r, st')"
  shows "res_count r \<le> m \<and> length (ps_handled st') = length (ps_handled st) + res_count r \<and>
    (\<exists>es ps. ps_handled st' = ps_handled st @ es \<and> ps_pushed st' = ps_pushed st @ ps \<and>
       (\<forall>i < n. at_port i es @ ps_queues st' ! i = ps_queues st ! i @ at_port i ps)) \<and>
    (undisturbed r \<and> res_count r < m \<longrightarrow> (\<forall>i < n. ps_queues st' ! i = []))"
proof -
  have a: "res_count r \<le> m" "served (max 1 n) (res_count r) st st'"
    using derived_execute_accounts [OF assms] by (auto simp: accounts_def)
  then obtain es ps where *: "ps_handled st' = ps_handled st @ es" "ps_pushed st' = ps_pushed st @ ps" "length es = res_count r"
    "\<forall>i < max 1 n. at_port i es @ ps_queues st' ! i = ps_queues st ! i @ at_port i ps"
    unfolding served_def by blast
  show ?thesis
  proof (intro conjI)
    show "\<exists>es ps. ps_handled st' = ps_handled st @ es \<and> ps_pushed st' = ps_pushed st @ ps \<and>
       (\<forall>i < n. at_port i es @ ps_queues st' ! i = ps_queues st ! i @ at_port i ps)"
      using *(1,2,4) by (intro exI [of _ es] exI [of _ ps]) auto
    show "undisturbed r \<and> res_count r < m \<longrightarrow> (\<forall>i < n. ps_queues st' ! i = [])"
      using derived_execute_empties [OF assms(2)] by blast
  qed (use a(1) * in auto)
qed

text \<open>
  C13: The ports of a component are served in turn: as long as all of them have events and the handlers return normally,
  consecutive executions, whatever their limits, handle one event of each port after the other in a cycle that
  goes on where it has stopped, so no port waits for more than one event of every other port.
\<close>

theorem ports_served_in_turn:
  assumes "always_ok H" "sk < n" "stocked n (sum_list ms) st"
  shows "\<exists>st'. run_ports H n ms sk st = Some ((sk + sum_list ms) mod n, st') \<and>
    map fst (ps_handled st') = map fst (ps_handled st) @ map (\<lambda>j. (sk + j) mod n) [0..<sum_list ms]"
  using assms(2,3)
proof (induction ms arbitrary: sk st)
  case (Cons m ms)
  have "stocked n m st" using Cons.prems(2) by (auto simp: stocked_def)
  from derived_execute_cycles [OF assms(1) this Cons.prems(1)] obtain st1 where
    st1: "derived_execute H n m sk st = (Some (execute_result_new None m ((sk + m) mod n)), st1)"
    "map fst (ps_handled st1) = map fst (ps_handled st) @ map (\<lambda>j. (sk + j) mod n) [0..<m]" by blast
  have "length (ps_queues st) = n" using Cons.prems(2) by (simp add: stocked_def)
  from derived_execute_accounts [OF this st1(1)] have "served n m st st1"
    using Cons.prems(1) by (auto simp: accounts_def execute_result_new_def max_def split: if_splits)
  then have "stocked n (sum_list ms) st1" using stocked_after Cons.prems(2) by auto
  from Cons.IH [OF _ this, of "(sk + m) mod n"] obtain st' where
    st': "run_ports H n ms ((sk + m) mod n) st1 = Some (((sk + m) mod n + sum_list ms) mod n, st')"
    "map fst (ps_handled st') = map fst (ps_handled st1) @ map (\<lambda>j. ((sk + m) mod n + j) mod n) [0..<sum_list ms]"
    using Cons.prems(1) by auto
  have "map (\<lambda>j. (sk + j) mod n) [0..<m + sum_list ms] = map (\<lambda>j. (sk + j) mod n) [0..<m] @ map (\<lambda>j. ((sk + m) mod n + j) mod n) [0..<sum_list ms]"
    by (rule nth_equalityI) (auto simp: nth_append mod_simps add.assoc)
  then show ?case using st1 st' by (auto simp: execute_result_new_def mod_simps add.assoc)
qed simp

text \<open>
  C14: The generated code keeps what the execution of a component relies on: it never handles more events than it is
  allowed to, nor more than were queued or have been announced meanwhile, whatever its handlers do.
\<close>

theorem derived_ports_documented:
  assumes "\<And>q d. length (feed q d) = n \<and> sum_list (map length (feed q d)) = q"
  shows "ports_documented (derived_handlers H n feed base)"
  unfolding ports_documented_def
proof (intro allI impI)
  fix m sk q d d' es r
  assume "execute_ports (derived_handlers H n feed base) m sk q d = (d', es, Some r)"
  then obtain st' where st': "derived_execute H n m sk \<lparr>ps_def = d, ps_queues = feed q d, ps_handled = [], ps_pushed = []\<rparr> = (Some r, st')"
    "es = map (\<lambda>_. EffPort) (ps_pushed st')"
    by (auto simp: derived_handlers_def split: prod.splits)
  let ?st = "\<lparr>ps_def = d, ps_queues = feed q d, ps_handled = [], ps_pushed = []\<rparr>"
  have len: "length (ps_queues ?st) = n" using assms by simp
  have acc: "accounts m (max 1 n) 0 ?st (Done (Some r) st')" and "served n (length (ps_handled st')) ?st st'"
    using derived_execute_accounts [OF len st'(1)] by simp_all
  have k: "res_count r \<le> m" "length (ps_handled st') = res_count r" using acc by (auto simp: accounts_def served_def)
  have "port_events es = length (ps_pushed st')" by (simp add: st'(2) port_events_def)
  then show "res_count r \<le> m \<and> res_count r \<le> q + port_events es"
    using k served_bound [OF \<open>served n (length (ps_handled st')) ?st st'\<close> len] assms by simp
qed

text \<open>A component that pushes a further event when it gets a nine.\<close>

definition echo_handler :: "(unit, nat, unit) port_handler" where
  "echo_handler i e d = (d, if e = 9 then [(0, 1)] else [], HRet HOk)"

definition three_ports :: "nat list list \<Rightarrow> (unit, nat) port_state" where
  "three_ports qs = \<lparr>ps_def = (), ps_queues = qs, ps_handled = [], ps_pushed = []\<rparr>"

theorem port_events_in_order_witness:
  "\<exists>r st'. derived_execute echo_handler 3 10 1 (three_ports [[5, 6], [9], []]) = (Some r, st') \<and>
     at_port 0 (ps_handled st') = [5, 6, 1] \<and> res_count r = 4 \<and> ps_queues st' ! 0 = []"
proof -
  let ?st = "three_ports [[5, 6], [9], []]"
  obtain r st' where x: "derived_execute echo_handler 3 10 1 ?st = (Some r, st')" "res_count r = 4" "undisturbed r" "ps_pushed st' = [(0, 1)]"
    by (simp add: derived_execute_def port_handles_skip_def handle_port_def three_ports_def echo_handler_def execute_loop.simps
        upt_conv_Cons execute_result_new_def undisturbed_def eval_nat_numeral)
  obtain es ps where y: "ps_handled st' = ps_handled ?st @ es" "ps_pushed st' = ps_pushed ?st @ ps"
    "\<forall>i < 3. at_port i es @ ps_queues st' ! i = ps_queues ?st ! i @ at_port i ps" "\<forall>i < 3. ps_queues st' ! i = []"
    using port_events_in_order [OF _ x(1)] x(2,3) by (auto simp: three_ports_def)
  have "ps_queues st' ! 0 = []" "at_port 0 es @ ps_queues st' ! 0 = ps_queues ?st ! 0 @ at_port 0 ps" using y(3,4) by auto
  then show ?thesis using x y(1,2) by (intro exI [of _ r] exI [of _ st']) (auto simp: three_ports_def)
qed

theorem ports_served_in_turn_witness:
  "\<exists>st'. run_ports echo_handler 3 [2, 3] 1 (three_ports [[1, 2, 3, 4, 5], [1, 2, 3, 4, 5], [1, 2, 3, 4, 5]]) = Some (0, st') \<and>
     map fst (ps_handled st') = [1, 2, 0, 1, 2]"
proof -
  let ?st = "three_ports [[1, 2, 3, 4, 5], [1, 2, 3, 4, 5], [1, 2, 3, 4, 5]]"
  have ok: "always_ok echo_handler" by (simp add: always_ok_def echo_handler_def)
  have st: "stocked 3 (sum_list [2, 3]) ?st"
    by (simp add: stocked_def three_ports_def less_Suc_eq eval_nat_numeral nth_Cons')
  have "map (\<lambda>j. (1 + j) mod 3) [0..<sum_list [2, 3]] = [1, 2, 0, 1, 2 :: nat]" "(1 + sum_list [2, 3]) mod 3 = (0 :: nat)" "map fst (ps_handled ?st) = []"
    by (simp_all add: upt_rec three_ports_def)
  then show ?thesis using ports_served_in_turn [OF ok _ st, of 1] by simp
qed

theorem derived_ports_documented_witness:
  "ports_documented (derived_handlers echo_handler 2 (\<lambda>q d. [replicate (q div 2) 4, replicate (q - q div 2) 9]) idle_handlers)"
  by (rule derived_ports_documented) simp

end
