(* ===== verification/Ports.thy ===== *)
theory Ports
  imports Routing Lifecycle
begin

text \<open>
  The ports through which components exchange events, the references by which they are connected, and the
  channels that undo a connection (\<open>ports.rs\<close>; \<open>biconnect_components\<close>, \<open>biconnect_ports\<close> and \<open>on_dual_definition\<close> of \<open>utils/mod.rs\<close>).

  References are weak: a reference stands for the addresses of a component and of a queue in a heap, which holds what is
  still allocated. Pushing an event announces work to the component that owns the queue, so the heap has the state word of
  every component. The lemmas show that a triggered event reaches every live connected port once per connection and in order, that
  the work counts follow the queues, that an idle component is scheduled once, and that disconnecting undoes connecting.
\<close>

subsection \<open>References\<close>

record port_ref =
  pr_component :: nat
  pr_queue :: nat

record port_core =
  core_id :: uuid
  core_state :: u64

text \<open>The heap: components and queues that are not deallocated, and the calls that scheduled a component.\<close>

record ('i, 'r) port_heap =
  ph_cores :: "nat \<Rightarrow> port_core option"
  ph_requests :: "nat \<Rightarrow> 'r list option"
  ph_indications :: "nat \<Rightarrow> 'i list option"
  ph_scheduled :: "nat list"

definition core_increment_work ::
    "nat \<Rightarrow> port_core \<Rightarrow> ('i, 'r) port_heap \<Rightarrow> (scheduling_decision \<times> ('i, 'r) port_heap, unit) rresult" where
  "core_increment_work a k h =
     rbind (increment_work (core_state k)) (\<lambda>(sd, w). Ok (sd, h\<lparr>ph_cores := (ph_cores h)(a \<mapsto> k\<lparr>core_state := w\<rparr>)\<rparr>))"

definition schedule_if :: "scheduling_decision \<Rightarrow> nat \<Rightarrow> ('i, 'r) port_heap \<Rightarrow> ('i, 'r) port_heap" where
  "schedule_if sd a h = (if sd = Schedule then h\<lparr>ph_scheduled := ph_scheduled h @ [a]\<rparr> else h)"

text \<open>The result tells whether the event was dropped, since its target is gone.\<close>

definition provided_enqueue :: "'r \<Rightarrow> port_ref \<Rightarrow> ('i, 'r) port_heap \<Rightarrow> (bool \<times> ('i, 'r) port_heap, unit) rresult" where
  "provided_enqueue event c h =
     (case (ph_requests h (pr_queue c), ph_cores h (pr_component c)) of
        (Some q, Some k) \<Rightarrow>
          rbind (core_increment_work (pr_component c) k h) (\<lambda>(sd, h1).
            (let h2 = h1\<lparr>ph_requests := (ph_requests h1)(pr_queue c \<mapsto> q @ [event])\<rparr>
             in Ok (False, schedule_if sd (pr_component c) h2)))
      | _ \<Rightarrow> Ok (True, h))"

definition provided_is_live :: "('i, 'r) port_heap \<Rightarrow> port_ref \<Rightarrow> bool" where
  "provided_is_live h c \<longleftrightarrow> ph_cores h (pr_component c) \<noteq> None \<and> ph_requests h (pr_queue c) \<noteq> None"

definition required_enqueue :: "'i \<Rightarrow> port_ref \<Rightarrow> ('i, 'r) port_heap \<Rightarrow> (bool \<times> ('i, 'r) port_heap, unit) rresult" where
  "required_enqueue event c h =
     (case (ph_indications h (pr_queue c), ph_cores h (pr_component c)) of
        (Some q, Some k) \<Rightarrow>
          rbind (core_increment_work (pr_component c) k h) (\<lambda>(sd, h1).
            (let h2 = h1\<lparr>ph_indications := (ph_indications h1)(pr_queue c \<mapsto> q @ [event])\<rparr>
             in Ok (False, schedule_if sd (pr_component c) h2)))
      | _ \<Rightarrow> Ok (True, h))"

definition required_is_live :: "('i, 'r) port_heap \<Rightarrow> port_ref \<Rightarrow> bool" where
  "required_is_live h c \<longleftrightarrow> ph_cores h (pr_component c) \<noteq> None \<and> ph_indications h (pr_queue c) \<noteq> None"

text \<open>\<open>PartialEq\<close> for both kinds of references\<close>

definition same_port :: "port_ref \<Rightarrow> port_ref \<Rightarrow> bool" where
  "same_port c d \<longleftrightarrow> pr_queue c = pr_queue d"

datatype ownership_result = Owned | NotOwned | Deallocated

definition owned_by_component_with_id :: "('i, 'r) port_heap \<Rightarrow> uuid \<Rightarrow> port_ref \<Rightarrow> ownership_result" where
  "owned_by_component_with_id h u c =
     (case ph_cores h (pr_component c) of
        Some k \<Rightarrow> if core_id k = u then Owned else NotOwned
      | None \<Rightarrow> Deallocated)"

subsection \<open>Ports\<close>

record common_port_data =
  provide_channels :: "port_ref list"
  require_channels :: "port_ref list"

definition common_new :: common_port_data where
  "common_new = \<lparr>provide_channels = [], require_channels = []\<rparr>"

definition clear_by_id :: "('i, 'r) port_heap \<Rightarrow> uuid \<Rightarrow> common_port_data \<Rightarrow> bool \<times> common_port_data" where
  "clear_by_id h u d =
     (let channel_match = (\<lambda>c. owned_by_component_with_id h u c \<in> {Owned, Deallocated})
      in (list_ex channel_match (provide_channels d) \<or> list_ex channel_match (require_channels d),
          \<lparr>provide_channels = filter (\<lambda>c. \<not> channel_match c) (provide_channels d),
           require_channels = filter (\<lambda>c. \<not> channel_match c) (require_channels d)\<rparr>))"

definition common_cleanup :: "('i, 'r) port_heap \<Rightarrow> common_port_data \<Rightarrow> common_port_data" where
  "common_cleanup h d =
     \<lparr>provide_channels = filter (provided_is_live h) (provide_channels d),
      require_channels = filter (required_is_live h) (require_channels d)\<rparr>"

record provided_port =
  pp_common :: common_port_data
  pp_parent :: "nat option"
  pp_queue :: nat

record required_port =
  rp_common :: common_port_data
  rp_parent :: "nat option"
  rp_queue :: nat

text \<open>The queue of a new port is allocated by the caller, at an unused address.\<close>

definition provided_uninitialised :: "nat \<Rightarrow> ('i, 'r) port_heap \<Rightarrow> provided_port \<times> ('i, 'r) port_heap" where
  "provided_uninitialised q h =
     (\<lparr>pp_common = common_new, pp_parent = None, pp_queue = q\<rparr>, h\<lparr>ph_requests := (ph_requests h)(q \<mapsto> [])\<rparr>)"

definition required_uninitialised :: "nat \<Rightarrow> ('i, 'r) port_heap \<Rightarrow> required_port \<times> ('i, 'r) port_heap" where
  "required_uninitialised q h =
     (\<lparr>rp_common = common_new, rp_parent = None, rp_queue = q\<rparr>, h\<lparr>ph_indications := (ph_indications h)(q \<mapsto> [])\<rparr>)"

text \<open>The calls that \<open>for_each_with\<close> makes; whether one of them has met a target that is gone is collected.\<close>

fun trigger_loop ::
    "('e \<Rightarrow> port_ref \<Rightarrow> 'h \<Rightarrow> (bool \<times> 'h, unit) rresult) \<Rightarrow> (port_ref \<times> 'e) list \<Rightarrow> bool \<Rightarrow> 'h \<Rightarrow> (bool \<times> 'h, unit) rresult" where
  "trigger_loop enqueue [] cleanup_required h = Ok (cleanup_required, h)"
| "trigger_loop enqueue ((c, e) # calls) cleanup_required h =
     rbind (enqueue e c h) (\<lambda>(dropped, h1). trigger_loop enqueue calls (cleanup_required \<or> dropped) h1)"

definition provided_trigger ::
    "('i \<Rightarrow> 'i) \<Rightarrow> 'i \<Rightarrow> provided_port \<Rightarrow> ('i, 'r) port_heap \<Rightarrow> (provided_port \<times> ('i, 'r) port_heap, unit) rresult" where
  "provided_trigger clone event p h =
     rbind (trigger_loop required_enqueue (for_each_with clone event (require_channels (pp_common p))) False h) (\<lambda>(cleanup_required, h1).
       Ok (if cleanup_required then p\<lparr>pp_common := common_cleanup h1 (pp_common p)\<rparr> else p, h1))"

definition provided_connect :: "port_ref \<Rightarrow> provided_port \<Rightarrow> provided_port" where
  "provided_connect c p = p\<lparr>pp_common := (pp_common p)\<lparr>require_channels := require_channels (pp_common p) @ [c]\<rparr>\<rparr>"

definition provided_disconnect_port :: "port_ref \<Rightarrow> provided_port \<Rightarrow> bool \<times> provided_port" where
  "provided_disconnect_port c p =
     (list_ex (same_port c) (require_channels (pp_common p)),
      p\<lparr>pp_common := (pp_common p)\<lparr>require_channels := filter (\<lambda>d. \<not> same_port c d) (require_channels (pp_common p))\<rparr>\<rparr>)"

definition provided_disconnect_component :: "('i, 'r) port_heap \<Rightarrow> uuid \<Rightarrow> provided_port \<Rightarrow> bool \<times> provided_port" where
  "provided_disconnect_component h u p = (let (found, d) = clear_by_id h u (pp_common p) in (found, p\<lparr>pp_common := d\<rparr>))"

definition provided_share :: "provided_port \<Rightarrow> (port_ref, unit) rresult" where
  "provided_share p = (case pp_parent p of Some a \<Rightarrow> Ok \<lparr>pr_component = a, pr_queue = pp_queue p\<rparr> | None \<Rightarrow> Panic)"

definition provided_set_parent :: "nat \<Rightarrow> provided_port \<Rightarrow> provided_port" where
  "provided_set_parent a p = p\<lparr>pp_parent := Some a\<rparr>"

definition provided_dequeue :: "provided_port \<Rightarrow> ('i, 'r) port_heap \<Rightarrow> 'r option \<times> ('i, 'r) port_heap" where
  "provided_dequeue p h =
     (case ph_requests h (pp_queue p) of
        Some (e # es) \<Rightarrow> (Some e, h\<lparr>ph_requests := (ph_requests h)(pp_queue p \<mapsto> es)\<rparr>)
      | _ \<Rightarrow> (None, h))"

definition required_trigger ::
    "('r \<Rightarrow> 'r) \<Rightarrow> 'r \<Rightarrow> required_port \<Rightarrow> ('i, 'r) port_heap \<Rightarrow> (required_port \<times> ('i, 'r) port_heap, unit) rresult" where
  "required_trigger clone event p h =
     rbind (trigger_loop provided_enqueue (for_each_with clone event (provide_channels (rp_common p))) False h) (\<lambda>(cleanup_required, h1).
       Ok (if cleanup_required then p\<lparr>rp_common := common_cleanup h1 (rp_common p)\<rparr> else p, h1))"

definition required_connect :: "port_ref \<Rightarrow> required_port \<Rightarrow> required_port" where
  "required_connect c p = p\<lparr>rp_common := (rp_common p)\<lparr>provide_channels := provide_channels (rp_common p) @ [c]\<rparr>\<rparr>"

definition required_disconnect_port :: "port_ref \<Rightarrow> required_port \<Rightarrow> bool \<times> required_port" where
  "required_disconnect_port c p =
     (list_ex (same_port c) (provide_channels (rp_common p)),
      p\<lparr>rp_common := (rp_common p)\<lparr>provide_channels := filter (\<lambda>d. \<not> same_port c d) (provide_channels (rp_common p))\<rparr>\<rparr>)"

definition required_disconnect_component :: "('i, 'r) port_heap \<Rightarrow> uuid \<Rightarrow> required_port \<Rightarrow> bool \<times> required_port" where
  "required_disconnect_component h u p = (let (found, d) = clear_by_id h u (rp_common p) in (found, p\<lparr>rp_common := d\<rparr>))"

definition required_share :: "required_port \<Rightarrow> (port_ref, unit) rresult" where
  "required_share p = (case rp_parent p of Some a \<Rightarrow> Ok \<lparr>pr_component = a, pr_queue = rp_queue p\<rparr> | None \<Rightarrow> Panic)"

definition required_set_parent :: "nat \<Rightarrow> required_port \<Rightarrow> required_port" where
  "required_set_parent a p = p\<lparr>rp_parent := Some a\<rparr>"

definition required_dequeue :: "required_port \<Rightarrow> ('i, 'r) port_heap \<Rightarrow> 'i option \<times> ('i, 'r) port_heap" where
  "required_dequeue p h =
     (case ph_indications h (rp_queue p) of
        Some (e # es) \<Rightarrow> (Some e, h\<lparr>ph_indications := (ph_indications h)(rp_queue p \<mapsto> es)\<rparr>)
      | _ \<Rightarrow> (None, h))"

subsection \<open>Connecting and disconnecting\<close>

text \<open>Whether the mutex of a component can be locked at once is an argument: \<open>None\<close> stands for the lock.\<close>

datatype try_lock_error = LockPoisoned | LockWouldBlock

datatype try_dual_lock_error = LeftWouldBlock | LeftPoisoned | RightWouldBlock | RightPoisoned

fun on_dual_definition ::
    "try_lock_error option \<Rightarrow> try_lock_error option \<Rightarrow> ('a, try_dual_lock_error) rresult \<Rightarrow> ('a, try_dual_lock_error) rresult" where
  "on_dual_definition (Some LockPoisoned) l2 f = Err LeftPoisoned"
| "on_dual_definition (Some LockWouldBlock) l2 f = Err LeftWouldBlock"
| "on_dual_definition None (Some LockPoisoned) f = Err RightPoisoned"
| "on_dual_definition None (Some LockWouldBlock) f = Err RightWouldBlock"
| "on_dual_definition None None f = f"

record two_way_channel =
  tw_provider :: nat
  tw_requirer :: nat
  tw_provided_ref :: port_ref
  tw_required_ref :: port_ref

definition biconnect_components ::
    "try_lock_error option \<Rightarrow> try_lock_error option \<Rightarrow> nat \<Rightarrow> nat \<Rightarrow> provided_port \<Rightarrow> required_port \<Rightarrow>
     (two_way_channel \<times> provided_port \<times> required_port, try_dual_lock_error) rresult" where
  "biconnect_components l1 l2 provider requirer prov req =
     rbind (on_dual_definition l1 l2
              (rbind (expect_ok (provided_share prov)) (\<lambda>prov_share.
               rbind (expect_ok (required_share req)) (\<lambda>req_share.
                 Ok (prov_share, req_share, provided_connect req_share prov, required_connect prov_share req)))))
       (\<lambda>(provided_ref, required_ref, prov1, req1).
          Ok (\<lparr>tw_provider = provider, tw_requirer = requirer, tw_provided_ref = provided_ref, tw_required_ref = required_ref\<rparr>, prov1, req1))"

definition biconnect_ports :: "provided_port \<Rightarrow> required_port \<Rightarrow> (provided_port \<times> required_port, unit) rresult" where
  "biconnect_ports prov req =
     rbind (provided_share prov) (\<lambda>prov_share.
     rbind (required_share req) (\<lambda>req_share.
       Ok (provided_connect req_share prov, required_connect prov_share req)))"

text \<open>One half of a channel: when the component is still there, its mutex must be locked at once.\<close>

definition disconnect_half :: "bool \<Rightarrow> try_lock_error option \<Rightarrow> ('p \<Rightarrow> bool \<times> 'p) \<Rightarrow> 'p \<Rightarrow> (unit, try_lock_error) rresult \<times> 'p" where
  "disconnect_half alive l disconnect p =
     (if alive then (case l of Some e \<Rightarrow> (Err e, p) | None \<Rightarrow> (Ok (), snd (disconnect p))) else (Ok (), p))"

text \<open>The state of the other components: which are alive, and the results of locking them.\<close>

definition two_way_disconnect_by_ref ::
    "(nat \<Rightarrow> bool) \<Rightarrow> (nat \<Rightarrow> try_lock_error option) \<Rightarrow> two_way_channel \<Rightarrow> provided_port \<Rightarrow> required_port \<Rightarrow>
     (unit, try_lock_error) rresult \<times> provided_port \<times> required_port" where
  "two_way_disconnect_by_ref alive lock ch prov req =
     (case disconnect_half (alive (tw_provider ch)) (lock (tw_provider ch)) (provided_disconnect_port (tw_required_ref ch)) prov of
        (Ok _, prov1) \<Rightarrow>
          (let (r, req1) = disconnect_half (alive (tw_requirer ch)) (lock (tw_requirer ch)) (required_disconnect_port (tw_provided_ref ch)) req
           in (r, prov1, req1))
      | (r, prov1) \<Rightarrow> (r, prov1, req))"

record provider_channel =
  pc_provider :: nat
  pc_required_ref :: port_ref

definition provider_disconnect_by_ref ::
    "(nat \<Rightarrow> bool) \<Rightarrow> (nat \<Rightarrow> try_lock_error option) \<Rightarrow> provider_channel \<Rightarrow> provided_port \<Rightarrow> (unit, try_lock_error) rresult \<times> provided_port" where
  "provider_disconnect_by_ref alive lock ch prov =
     disconnect_half (alive (pc_provider ch)) (lock (pc_provider ch)) (provided_disconnect_port (pc_required_ref ch)) prov"

record requirer_channel =
  rc_requirer :: nat
  rc_provided_ref :: port_ref

definition requirer_disconnect_by_ref ::
    "(nat \<Rightarrow> bool) \<Rightarrow> (nat \<Rightarrow> try_lock_error option) \<Rightarrow> requirer_channel \<Rightarrow> required_port \<Rightarrow> (unit, try_lock_error) rresult \<times> required_port" where
  "requirer_disconnect_by_ref alive lock ch req =
     disconnect_half (alive (rc_requirer ch)) (lock (rc_requirer ch)) (required_disconnect_port (rc_provided_ref ch)) req"

text \<open>\<open>disconnect\<close> gives the channel back together with the error.\<close>

definition channel_disconnect :: "'ch \<Rightarrow> (unit, try_lock_error) rresult \<Rightarrow> (unit, 'ch \<times> try_lock_error) rresult" where
  "channel_disconnect ch res = rmap_err (\<lambda>e. (ch, e)) res"

subsection \<open>Triggering\<close>

text \<open>
  Both kinds of ports push events in the same way. The interface: how the events of a queue are read, what else the heap holds,
  and the operation that pushes.
\<close>

definition live_ref :: "(('i, 'r) port_heap \<Rightarrow> nat \<Rightarrow> 'e list option) \<Rightarrow> ('i, 'r) port_heap \<Rightarrow> port_ref \<Rightarrow> bool" where
  "live_ref queue h c \<longleftrightarrow> ph_cores h (pr_component c) \<noteq> None \<and> queue h (pr_queue c) \<noteq> None"

definition headroom :: "nat \<Rightarrow> ('i, 'r) port_heap \<Rightarrow> bool" where
  "headroom n h \<longleftrightarrow> (\<forall>a k. ph_cores h a = Some k \<longrightarrow> flag_code (core_state k) \<le> 4 \<and> work_count (core_state k) + n < 2 ^ 61)"

definition idle_core :: "port_core option \<Rightarrow> bool" where
  "idle_core k \<longleftrightarrow> (case k of Some k \<Rightarrow> flag_code (core_state k) \<le> 1 \<and> work_count (core_state k) = 0 | None \<Rightarrow> False)"

definition hits :: "(('i, 'r) port_heap \<Rightarrow> nat \<Rightarrow> 'e list option) \<Rightarrow> ('i, 'r) port_heap \<Rightarrow> port_ref list \<Rightarrow> nat \<Rightarrow> nat" where
  "hits queue h cs q = length (filter (\<lambda>c. live_ref queue h c \<and> pr_queue c = q) cs)"

definition visits :: "(('i, 'r) port_heap \<Rightarrow> nat \<Rightarrow> 'e list option) \<Rightarrow> ('i, 'r) port_heap \<Rightarrow> port_ref list \<Rightarrow> nat \<Rightarrow> nat" where
  "visits queue h cs a = length (filter (\<lambda>c. live_ref queue h c \<and> pr_component c = a) cs)"

text \<open>A component has been given more work: its flag is the same, and it is scheduled when it was idle.\<close>

definition more_work :: "(nat \<Rightarrow> nat) \<Rightarrow> ('i, 'r) port_heap \<Rightarrow> ('i, 'r) port_heap \<Rightarrow> bool" where
  "more_work n h h' \<longleftrightarrow>
     (\<forall>a. case ph_cores h a of
            None \<Rightarrow> ph_cores h' a = None
          | Some k \<Rightarrow> \<exists>k'. ph_cores h' a = Some k' \<and> core_id k' = core_id k \<and> flag_code (core_state k') = flag_code (core_state k) \<and>
              work_count (core_state k') = work_count (core_state k) + n a) \<and>
     (\<forall>a. count_list (ph_scheduled h') a = count_list (ph_scheduled h) a + (if idle_core (ph_cores h a) \<and> 0 < n a then 1 else 0))"

lemma more_work_trans:
  assumes "more_work m h h1" "more_work n h1 h2"
  shows "more_work (\<lambda>a. m a + n a) h h2"
proof -
  have "case ph_cores h a of None \<Rightarrow> ph_cores h2 a = None
      | Some k \<Rightarrow> \<exists>k'. ph_cores h2 a = Some k' \<and> core_id k' = core_id k \<and> flag_code (core_state k') = flag_code (core_state k) \<and>
          work_count (core_state k') = work_count (core_state k) + (m a + n a)" for a
    using assms by (cases "ph_cores h a") (auto simp: more_work_def dest!: spec [of _ a])
  moreover have "count_list (ph_scheduled h2) a = count_list (ph_scheduled h) a + (if idle_core (ph_cores h a) \<and> 0 < m a + n a then 1 else 0)" for a
    using assms by (cases "ph_cores h a") (auto simp: more_work_def idle_core_def dest!: spec [of _ a])
  ultimately show ?thesis by (simp add: more_work_def)
qed

lemma headroom_more:
  assumes "headroom (m + n) h" "more_work f h h'" "\<And>a. f a \<le> m"
  shows "headroom n h'"
  unfolding headroom_def
proof (intro allI impI)
  fix a k' assume k': "ph_cores h' a = Some k'"
  have "\<exists>k. ph_cores h a = Some k \<and> flag_code (core_state k') = flag_code (core_state k) \<and> work_count (core_state k') = work_count (core_state k) + f a"
    using assms(2) k' by (cases "ph_cores h a") (auto simp: more_work_def dest!: spec [of _ a])
  then show "flag_code (core_state k') \<le> 4 \<and> work_count (core_state k') + n < 2 ^ 61"
    using assms(1) assms(3) [of a] unfolding headroom_def by fastforce
qed

lemma headroom_mono: "headroom n h \<Longrightarrow> m \<le> n \<Longrightarrow> headroom m h"
  by (fastforce simp: headroom_def)

lemma for_each_copies: "(\<And>e. clone e = e) \<Longrightarrow> for_each_with clone e cs = map (\<lambda>c. (c, e)) cs"
proof -
  assume "\<And>e. clone e = e"
  then have "for_each_loop clone e c cs = map (\<lambda>c. (c, e)) (c # cs)" for c cs by (induction cs arbitrary: c) auto
  then show ?thesis by (cases cs) auto
qed

text \<open>Triggering a sequence of events; after each, the channels whose target is gone are removed.\<close>

fun trigger_seq ::
    "('e \<Rightarrow> port_ref \<Rightarrow> 'h \<Rightarrow> (bool \<times> 'h, unit) rresult) \<Rightarrow> ('h \<Rightarrow> port_ref \<Rightarrow> bool) \<Rightarrow> ('e \<Rightarrow> 'e) \<Rightarrow> 'e list \<Rightarrow> port_ref list \<Rightarrow> 'h \<Rightarrow>
     (port_ref list \<times> 'h, unit) rresult" where
  "trigger_seq enqueue live clone [] cs h = Ok (cs, h)"
| "trigger_seq enqueue live clone (e # es) cs h =
     rbind (trigger_loop enqueue (for_each_with clone e cs) False h) (\<lambda>(cleanup_required, h1).
       trigger_seq enqueue live clone es (if cleanup_required then filter (live h1) cs else cs) h1)"

locale event_queue =
  fixes queue :: "('i, 'r) port_heap \<Rightarrow> nat \<Rightarrow> 'e list option"
    and others :: "('i, 'r) port_heap \<Rightarrow> nat \<Rightarrow> 'o list option"
    and enqueue :: "'e \<Rightarrow> port_ref \<Rightarrow> ('i, 'r) port_heap \<Rightarrow> (bool \<times> ('i, 'r) port_heap, unit) rresult"
  assumes enqueue_dead: "\<not> live_ref queue h c \<Longrightarrow> enqueue e c h = Ok (True, h)"
    and enqueue_live: "ph_cores h (pr_component c) = Some k \<Longrightarrow> queue h (pr_queue c) = Some es \<Longrightarrow> increment_work (core_state k) = Ok (sd, w) \<Longrightarrow>
      \<exists>h'. enqueue e c h = Ok (False, h') \<and> queue h' = (queue h)(pr_queue c \<mapsto> es @ [e]) \<and> others h' = others h \<and>
        ph_cores h' = (ph_cores h)(pr_component c \<mapsto> k\<lparr>core_state := w\<rparr>) \<and>
        ph_scheduled h' = ph_scheduled h @ (if sd = Schedule then [pr_component c] else [])"
begin

lemma enqueue_more:
  assumes "live_ref queue h c" "headroom (Suc n) h"
  shows "\<exists>h'. enqueue e c h = Ok (False, h') \<and> queue h' = (queue h)(pr_queue c \<mapsto> the (queue h (pr_queue c)) @ [e]) \<and> others h' = others h \<and>
    more_work (\<lambda>a. if a = pr_component c then 1 else 0) h h' \<and> headroom n h'"
proof -
  obtain k es where k: "ph_cores h (pr_component c) = Some k" "queue h (pr_queue c) = Some es"
    using assms(1) by (auto simp: live_ref_def)
  have r: "flag_code (core_state k) \<le> 4" "work_count (core_state k) + 1 < 2 ^ 61" using assms(2) k(1) by (fastforce simp: headroom_def)+
  from enqueue_live [OF k increment_work_eq [OF r], of e] obtain h' where h': "enqueue e c h = Ok (False, h')"
    "queue h' = (queue h)(pr_queue c \<mapsto> es @ [e])" "others h' = others h"
    "ph_cores h' = (ph_cores h)(pr_component c \<mapsto> k\<lparr>core_state := core_state k + 1\<rparr>)"
    "ph_scheduled h' = ph_scheduled h @
      (if (if flag_code (core_state k) \<le> 1 then if work_count (core_state k) = 0 then Schedule else AlreadyScheduled else NoWork) = Schedule
       then [pr_component c] else [])" by blast
  have "more_work (\<lambda>a. if a = pr_component c then 1 else 0) h h'"
    using h'(4,5) k(1) add_one_split [OF r(2)] by (auto simp: more_work_def idle_core_def count_list_append split: option.split)
  moreover have "headroom n h'" using assms(2) h'(4) k(1) add_one_split [OF r(2)] by (fastforce simp: headroom_def split: if_splits)
  ultimately show ?thesis using h'(1-3) k(2) by auto
qed

lemma same_live:
  assumes "more_work n h h'" "\<And>q. (queue h' q = None) = (queue h q = None)"
  shows "live_ref queue h' c = live_ref queue h c"
proof -
  have "(ph_cores h' a = None) = (ph_cores h a = None)" for a
    using assms(1) by (cases "ph_cores h a") (auto simp: more_work_def dest!: spec [of _ a])
  then show ?thesis using assms(2) by (simp add: live_ref_def)
qed

lemma trigger_loop_reaches:
  "headroom (length cs) h \<Longrightarrow>
     \<exists>h'. trigger_loop enqueue (map (\<lambda>c. (c, e)) cs) b h = Ok (b \<or> list_ex (\<lambda>c. \<not> live_ref queue h c) cs, h') \<and>
       (\<forall>q. queue h' q = map_option (\<lambda>es. es @ replicate (hits queue h cs q) e) (queue h q)) \<and> others h' = others h \<and>
       more_work (visits queue h cs) h h'"
proof (induction cs arbitrary: b h)
  case Nil
  then show ?case by (auto simp: hits_def visits_def more_work_def option.map_id [unfolded id_def] split: option.split)
next
  case (Cons c cs)
  show ?case
  proof (cases "live_ref queue h c")
    case False
    have "headroom (length cs) h" using Cons.prems by (fastforce simp: headroom_def)
    from Cons.IH [OF this, of True] show ?thesis using False enqueue_dead [OF False] by (auto simp: hits_def visits_def)
  next
    case True
    obtain h1 where h1: "enqueue e c h = Ok (False, h1)" "queue h1 = (queue h)(pr_queue c \<mapsto> the (queue h (pr_queue c)) @ [e])" "others h1 = others h"
      "more_work (\<lambda>a. if a = pr_component c then 1 else 0) h h1" "headroom (length cs) h1"
      using enqueue_more [OF True] Cons.prems by auto
    have live: "live_ref queue h1 d = live_ref queue h d" for d
      by (rule same_live [OF h1(4)]) (use h1(2) True in \<open>auto simp: live_ref_def\<close>)
    obtain h' where h': "trigger_loop enqueue (map (\<lambda>c. (c, e)) cs) b h1 = Ok (b \<or> list_ex (\<lambda>c. \<not> live_ref queue h c) cs, h')"
      "\<And>q. queue h' q = map_option (\<lambda>es. es @ replicate (hits queue h cs q) e) (queue h1 q)" "others h' = others h1"
      "more_work (visits queue h cs) h1 h'"
      using Cons.IH [OF h1(5), of b] live by (auto simp: hits_def visits_def [abs_def])
    have "queue h' q = map_option (\<lambda>es. es @ replicate (hits queue h (c # cs) q) e) (queue h q)" for q
      using h'(2) [of q] h1(2) True by (auto simp: hits_def live_ref_def replicate_app_Cons_same)
    moreover have "visits queue h (c # cs) = (\<lambda>a. (if a = pr_component c then 1 else 0) + visits queue h cs a)"
      using True by (auto simp: visits_def)
    ultimately show ?thesis using h'(1,3) h1(1,3) True more_work_trans [OF h1(4) h'(4)] by auto
  qed
qed

lemma filter_none_dead: "\<not> list_ex (\<lambda>c. \<not> P c) cs \<Longrightarrow> filter P cs = cs"
  by (induction cs) auto

lemma trigger_seq_reaches:
  assumes "\<And>e. clone e = e"
  shows "headroom (length es * length cs) h \<Longrightarrow>
     \<exists>h'. trigger_seq enqueue (live_ref queue) clone es cs h = Ok (if es = [] then cs else filter (live_ref queue h) cs, h') \<and>
       (\<forall>q. queue h' q = map_option (\<lambda>old. old @ concat (map (replicate (hits queue h cs q)) es)) (queue h q)) \<and>
       others h' = others h \<and> more_work (\<lambda>a. length es * visits queue h cs a) h h'"
proof (induction es arbitrary: cs h)
  case Nil
  then show ?case by (auto simp: more_work_def option.map_id [unfolded id_def] split: option.split)
next
  case (Cons e es)
  have room: "headroom (length cs) h" using headroom_mono [OF Cons.prems] by simp
  let ?cs = "filter (live_ref queue h) cs"
  obtain h1 where h1: "trigger_loop enqueue (for_each_with clone e cs) False h = Ok (list_ex (\<lambda>c. \<not> live_ref queue h c) cs, h1)"
    "\<And>q. queue h1 q = map_option (\<lambda>es. es @ replicate (hits queue h cs q) e) (queue h q)" "others h1 = others h"
    "more_work (visits queue h cs) h h1"
    using trigger_loop_reaches [OF room, of e False] unfolding for_each_copies [OF assms] by auto
  have live: "live_ref queue h1 = live_ref queue h"
    by (rule ext, rule same_live [OF h1(4)]) (simp add: h1(2))
  have same: "hits queue h1 ?cs = hits queue h cs" "visits queue h1 ?cs = visits queue h cs" "filter (live_ref queue h) ?cs = ?cs"
    by (auto simp: hits_def [abs_def] visits_def [abs_def] live conj_ac)
  have "visits queue h cs a \<le> length cs" for a by (simp add: visits_def)
  moreover have "headroom (length cs + length es * length ?cs) h"
    using headroom_mono [OF Cons.prems] mult_le_mono2 [OF length_filter_le [of "live_ref queue h" cs], of "length es"] by simp
  ultimately have "headroom (length es * length ?cs) h1" using headroom_more [OF _ h1(4)] by blast
  from Cons.IH [OF this] obtain h' where h': "trigger_seq enqueue (live_ref queue) clone es ?cs h1 = Ok (?cs, h')"
    "\<And>q. queue h' q = map_option (\<lambda>old. old @ concat (map (replicate (hits queue h cs q)) es)) (queue h1 q)" "others h' = others h1"
    "more_work (\<lambda>a. length es * visits queue h cs a) h1 h'"
    unfolding same live by auto
  have "trigger_seq enqueue (live_ref queue) clone (e # es) cs h = Ok (?cs, h')"
    using h1(1) h'(1) live filter_none_dead [of "live_ref queue h" cs] by auto
  moreover have "queue h' q = map_option (\<lambda>old. old @ concat (map (replicate (hits queue h cs q)) (e # es))) (queue h q)" for q
    using h1(2) [of q] h'(2) [of q] by (simp add: option.map_comp comp_def)
  ultimately show ?case using h1(3) h'(3) more_work_trans [OF h1(4) h'(4)] by auto
qed

end

interpretation indications: event_queue ph_indications ph_requests required_enqueue
  by unfold_locales (auto simp: required_enqueue_def live_ref_def core_increment_work_def schedule_if_def split: option.splits)

interpretation requests: event_queue ph_requests ph_indications provided_enqueue
  by unfold_locales (auto simp: provided_enqueue_def live_ref_def core_increment_work_def schedule_if_def split: option.splits)

fun provided_triggers ::
    "('i \<Rightarrow> 'i) \<Rightarrow> 'i list \<Rightarrow> provided_port \<Rightarrow> ('i, 'r) port_heap \<Rightarrow> (provided_port \<times> ('i, 'r) port_heap, unit) rresult" where
  "provided_triggers clone [] p h = Ok (p, h)"
| "provided_triggers clone (e # es) p h = rbind (provided_trigger clone e p h) (\<lambda>(p1, h1). provided_triggers clone es p1 h1)"

fun required_triggers ::
    "('r \<Rightarrow> 'r) \<Rightarrow> 'r list \<Rightarrow> required_port \<Rightarrow> ('i, 'r) port_heap \<Rightarrow> (required_port \<times> ('i, 'r) port_heap, unit) rresult" where
  "required_triggers clone [] p h = Ok (p, h)"
| "required_triggers clone (e # es) p h = rbind (required_trigger clone e p h) (\<lambda>(p1, h1). required_triggers clone es p1 h1)"

lemma is_live: "required_is_live = live_ref ph_indications" "provided_is_live = live_ref ph_requests"
  by (auto simp: required_is_live_def provided_is_live_def live_ref_def fun_eq_iff)

lemma provided_triggers_seq:
  "trigger_seq required_enqueue (live_ref ph_indications) clone es (require_channels (pp_common p)) h = Ok (cs, h') \<Longrightarrow>
     \<exists>p'. provided_triggers clone es p h = Ok (p', h') \<and> require_channels (pp_common p') = cs \<and> pp_queue p' = pp_queue p \<and> pp_parent p' = pp_parent p"
proof (induction es arbitrary: p h)
  case (Cons e es)
  then obtain b h1 where t: "trigger_loop required_enqueue (for_each_with clone e (require_channels (pp_common p))) False h = Ok (b, h1)"
    "trigger_seq required_enqueue (live_ref ph_indications) clone es
       (if b then filter (live_ref ph_indications h1) (require_channels (pp_common p)) else require_channels (pp_common p)) h1 = Ok (cs, h')"
    by (auto simp: rbind_eq_Ok)
  let ?p = "if b then p\<lparr>pp_common := common_cleanup h1 (pp_common p)\<rparr> else p"
  have "provided_trigger clone e p h = Ok (?p, h1)" using t(1) by (simp add: provided_trigger_def)
  then show ?case using Cons.IH [of ?p h1] t(2) by (simp add: common_cleanup_def is_live split: if_splits)
qed simp

lemma required_triggers_seq:
  "trigger_seq provided_enqueue (live_ref ph_requests) clone es (provide_channels (rp_common p)) h = Ok (cs, h') \<Longrightarrow>
     \<exists>p'. required_triggers clone es p h = Ok (p', h') \<and> provide_channels (rp_common p') = cs \<and> rp_queue p' = rp_queue p \<and> rp_parent p' = rp_parent p"
proof (induction es arbitrary: p h)
  case (Cons e es)
  then obtain b h1 where t: "trigger_loop provided_enqueue (for_each_with clone e (provide_channels (rp_common p))) False h = Ok (b, h1)"
    "trigger_seq provided_enqueue (live_ref ph_requests) clone es
       (if b then filter (live_ref ph_requests h1) (provide_channels (rp_common p)) else provide_channels (rp_common p)) h1 = Ok (cs, h')"
    by (auto simp: rbind_eq_Ok)
  let ?p = "if b then p\<lparr>rp_common := common_cleanup h1 (rp_common p)\<rparr> else p"
  have "required_trigger clone e p h = Ok (?p, h1)" using t(1) by (simp add: required_trigger_def)
  then show ?case using Cons.IH [of ?p h1] t(2) by (simp add: common_cleanup_def is_live split: if_splits)
qed simp

subsection \<open>Properties\<close>

text \<open>
  C11: A sequence of indications triggered on a provided port reaches the connected ports: every queue gets all of them, in
  order and once per connection, when its port and component are still there, and no other queue changes; the work count of every
  component grows by the number of events pushed for it, and it is scheduled once when it was idle and not at
  all otherwise. Connections whose target is gone are removed. Nothing of this panics below the limit of the work count.
\<close>

theorem indications_reach_connected_ports:
  assumes "\<And>e. clone e = e" "headroom (length es * length (require_channels (pp_common p))) h"
  shows "\<exists>p' h'. provided_triggers clone es p h = Ok (p', h') \<and>
    require_channels (pp_common p') = (if es = [] then require_channels (pp_common p) else filter (required_is_live h) (require_channels (pp_common p))) \<and>
    (\<forall>q. ph_indications h' q =
       map_option (\<lambda>old. old @ concat (map (replicate (hits ph_indications h (require_channels (pp_common p)) q)) es)) (ph_indications h q)) \<and>
    ph_requests h' = ph_requests h \<and> more_work (\<lambda>a. length es * visits ph_indications h (require_channels (pp_common p)) a) h h'"
  using indications.trigger_seq_reaches [OF assms] provided_triggers_seq [of clone es p h] unfolding is_live by fastforce

text \<open>
  The same holds of requests triggered on a required port: they reach the connected provided ports.
\<close>

theorem requests_reach_connected_ports:
  assumes "\<And>e. clone e = e" "headroom (length es * length (provide_channels (rp_common p))) h"
  shows "\<exists>p' h'. required_triggers clone es p h = Ok (p', h') \<and>
    provide_channels (rp_common p') = (if es = [] then provide_channels (rp_common p) else filter (provided_is_live h) (provide_channels (rp_common p))) \<and>
    (\<forall>q. ph_requests h' q =
       map_option (\<lambda>old. old @ concat (map (replicate (hits ph_requests h (provide_channels (rp_common p)) q)) es)) (ph_requests h q)) \<and>
    ph_indications h' = ph_indications h \<and> more_work (\<lambda>a. length es * visits ph_requests h (provide_channels (rp_common p)) a) h h'"
  using requests.trigger_seq_reaches [OF assms] required_triggers_seq [of clone es p h] unfolding is_live by fastforce

text \<open>
  C15: Disconnecting undoes connecting: two components that were not connected before are connected on their ports when
  both can be locked, and whatever attempts to disconnect them failed since one of them could not be locked, the first
  attempt that succeeds leaves both ports as they were before.
\<close>

theorem disconnect_undoes_connect:
  assumes "pp_parent prov = Some a" "rp_parent req = Some b"
    and "list_all (\<lambda>c. pr_queue c \<noteq> rp_queue req) (require_channels (pp_common prov))"
    and "list_all (\<lambda>c. pr_queue c \<noteq> pp_queue prov) (provide_channels (rp_common req))"
    and "alive a" "alive b"
  shows "\<exists>ch prov1 req1. biconnect_components None None a b prov req = Ok (ch, prov1, req1) \<and>
    require_channels (pp_common prov1) = require_channels (pp_common prov) @ [\<lparr>pr_component = b, pr_queue = rp_queue req\<rparr>] \<and>
    provide_channels (rp_common req1) = provide_channels (rp_common req) @ [\<lparr>pr_component = a, pr_queue = pp_queue prov\<rparr>] \<and>
    (\<forall>locks prov2 req2. (prov2, req2) = fold (\<lambda>lock (p, r). snd (two_way_disconnect_by_ref alive lock ch p r)) locks (prov1, req1) \<longrightarrow>
       (\<forall>lock r prov3 req3. two_way_disconnect_by_ref alive lock ch prov2 req2 = (Ok r, prov3, req3) \<longrightarrow> prov3 = prov \<and> req3 = req))"
proof -
  let ?pr = "\<lparr>pr_component = a, pr_queue = pp_queue prov\<rparr>" and ?rr = "\<lparr>pr_component = b, pr_queue = rp_queue req\<rparr>"
  let ?prov = "provided_connect ?rr prov" and ?req = "required_connect ?pr req"
  let ?ch = "\<lparr>tw_provider = a, tw_requirer = b, tw_provided_ref = ?pr, tw_required_ref = ?rr\<rparr>"
  have con: "biconnect_components None None a b prov req = Ok (?ch, ?prov, ?req)"
    using assms(1,2) by (simp add: biconnect_components_def provided_share_def required_share_def)
  have f: "filter (\<lambda>d. rp_queue req \<noteq> pr_queue d) (require_channels (pp_common prov)) = require_channels (pp_common prov)"
    "filter (\<lambda>d. pp_queue prov \<noteq> pr_queue d) (provide_channels (rp_common req)) = provide_channels (rp_common req)"
    using assms(3,4) by (auto simp: filter_id_conv list_all_iff)
  have step: "snd (provided_disconnect_port ?rr p) = prov" if "p \<in> {prov, ?prov}" for p
    using that f(1) by (auto simp: provided_disconnect_port_def provided_connect_def same_port_def)
  have step2: "snd (required_disconnect_port ?pr r) = req" if "r \<in> {req, ?req}" for r
    using that f(2) by (auto simp: required_disconnect_port_def required_connect_def same_port_def)
  have dis: "(p', r') \<in> {prov, ?prov} \<times> {req, ?req} \<and> (\<forall>u. res = Ok u \<longrightarrow> p' = prov \<and> r' = req)"
    if "(p, r) \<in> {prov, ?prov} \<times> {req, ?req}" "two_way_disconnect_by_ref alive lock ?ch p r = (res, p', r')" for p r lock res p' r'
    using that assms(5,6) step [of p] step2 [of r]
    by (cases "lock a"; cases "lock b") (auto simp: two_way_disconnect_by_ref_def disconnect_half_def)
  have run: "fold (\<lambda>lock (p, r). snd (two_way_disconnect_by_ref alive lock ?ch p r)) locks pr \<in> {prov, ?prov} \<times> {req, ?req}"
    if "pr \<in> {prov, ?prov} \<times> {req, ?req}" for locks pr
    using that
  proof (induction locks arbitrary: pr)
    case (Cons lock locks)
    obtain p r where pr: "pr = (p, r)" by fastforce
    obtain res p' r' where d: "two_way_disconnect_by_ref alive lock ?ch p r = (res, p', r')"
      by (cases "two_way_disconnect_by_ref alive lock ?ch p r") auto
    have "(p', r') \<in> {prov, ?prov} \<times> {req, ?req}" using dis [OF _ d] Cons.prems pr by blast
    then show ?case using Cons.IH d pr by simp
  qed simp
  show ?thesis
  proof (intro exI [of _ ?ch] exI [of _ ?prov] exI [of _ ?req] conjI allI impI)
    fix locks prov2 req2 lock r prov3 req3
    assume "(prov2, req2) = fold (\<lambda>lock (p, r). snd (two_way_disconnect_by_ref alive lock ?ch p r)) locks (?prov, ?req)"
      and d: "two_way_disconnect_by_ref alive lock ?ch prov2 req2 = (Ok r, prov3, req3)"
    then have "(prov2, req2) \<in> {prov, ?prov} \<times> {req, ?req}" using run [of "(?prov, ?req)" locks] by simp
    from dis [OF this d] show "prov3 = prov" "req3 = req" by blast+
  qed (use con in \<open>simp_all add: provided_connect_def required_connect_def\<close>)
qed

text \<open>A provider at address 0, connected to an idle and a busy component, and to one that is gone.\<close>

definition sample_heap :: "(nat, nat) port_heap" where
  "sample_heap = \<lparr>ph_cores = [0 \<mapsto> \<lparr>core_id = 100, core_state = ACTIVE\<rparr>, 1 \<mapsto> \<lparr>core_id = 101, core_state = ACTIVE\<rparr>, 2 \<mapsto> \<lparr>core_id = 102, core_state = ACTIVE + 1\<rparr>],
     ph_requests = [10 \<mapsto> []], ph_indications = [20 \<mapsto> [], 21 \<mapsto> [7]], ph_scheduled = []\<rparr>"

definition sample_provided :: provided_port where
  "sample_provided = \<lparr>pp_common = \<lparr>provide_channels = [],
       require_channels = [\<lparr>pr_component = 1, pr_queue = 20\<rparr>, \<lparr>pr_component = 3, pr_queue = 22\<rparr>, \<lparr>pr_component = 2, pr_queue = 21\<rparr>]\<rparr>,
     pp_parent = Some 0, pp_queue = 10\<rparr>"

definition sample_required :: required_port where
  "sample_required = \<lparr>rp_common = \<lparr>provide_channels = [], require_channels = []\<rparr>, rp_parent = Some 1, rp_queue = 23\<rparr>"

lemma sample_headroom: "headroom 10 sample_heap"
  by (simp add: headroom_def sample_heap_def flag_code_def work_count_def ACTIVE_def)

theorem indications_reach_connected_ports_witness:
  "\<exists>p' h'. provided_triggers id [4, 5] sample_provided sample_heap = Ok (p', h') \<and>
     require_channels (pp_common p') = [\<lparr>pr_component = 1, pr_queue = 20\<rparr>, \<lparr>pr_component = 2, pr_queue = 21\<rparr>] \<and>
     ph_indications h' 20 = Some [4, 5] \<and> ph_indications h' 21 = Some [7, 4, 5] \<and> count_list (ph_scheduled h') 1 = 1 \<and> count_list (ph_scheduled h') 2 = 0"
proof -
  have "headroom (length [4, 5 :: nat] * length (require_channels (pp_common sample_provided))) sample_heap"
    by (rule headroom_mono [OF sample_headroom]) (simp add: sample_provided_def)
  from indications_reach_connected_ports [of id, OF _ this] obtain p' h' where
    x: "provided_triggers id [4, 5] sample_provided sample_heap = Ok (p', h')"
    "require_channels (pp_common p') = filter (required_is_live sample_heap) (require_channels (pp_common sample_provided))"
    "\<And>q. ph_indications h' q = map_option (\<lambda>old. old @ concat (map (replicate (hits ph_indications sample_heap (require_channels (pp_common sample_provided)) q)) [4, 5]))
        (ph_indications sample_heap q)"
    "more_work (\<lambda>a. length [4, 5 :: nat] * visits ph_indications sample_heap (require_channels (pp_common sample_provided)) a) sample_heap h'"
    by auto
  have "require_channels (pp_common p') = [\<lparr>pr_component = 1, pr_queue = 20\<rparr>, \<lparr>pr_component = 2, pr_queue = 21\<rparr>]"
    unfolding x(2) by (simp add: sample_provided_def sample_heap_def required_is_live_def)
  moreover have "ph_indications h' 20 = Some [4, 5]" "ph_indications h' 21 = Some [7, 4, 5]"
    unfolding x(3) by (simp_all add: hits_def live_ref_def sample_provided_def sample_heap_def)
  moreover have "count_list (ph_scheduled h') 1 = 1" "count_list (ph_scheduled h') 2 = 0"
    using x(4) unfolding more_work_def
    by (simp_all add: visits_def live_ref_def sample_provided_def sample_heap_def idle_core_def flag_code_def work_count_def ACTIVE_def)
  ultimately show ?thesis using x(1) by blast
qed

theorem requests_reach_connected_ports_witness:
  "\<exists>p' h'. required_triggers id [9] (required_connect \<lparr>pr_component = 0, pr_queue = 10\<rparr> sample_required) sample_heap = Ok (p', h') \<and>
     ph_requests h' 10 = Some [9] \<and> ph_indications h' = ph_indications sample_heap"
proof -
  let ?p = "required_connect \<lparr>pr_component = 0, pr_queue = 10\<rparr> sample_required"
  have "headroom (length [9 :: nat] * length (provide_channels (rp_common ?p))) sample_heap"
    by (rule headroom_mono [OF sample_headroom]) (simp add: sample_required_def required_connect_def)
  from requests_reach_connected_ports [of id, OF _ this] obtain p' h' where
    x: "required_triggers id [9] ?p sample_heap = Ok (p', h')" "ph_indications h' = ph_indications sample_heap"
    "\<And>q. ph_requests h' q = map_option (\<lambda>old. old @ concat (map (replicate (hits ph_requests sample_heap (provide_channels (rp_common ?p)) q)) [9]))
        (ph_requests sample_heap q)"
    by auto
  then show ?thesis by (auto simp: hits_def live_ref_def sample_required_def required_connect_def sample_heap_def)
qed

theorem disconnect_undoes_connect_witness:
  "\<exists>ch prov1 req1 prov2 req2. biconnect_components None None 0 1 sample_provided sample_required = Ok (ch, prov1, req1) \<and>
     two_way_disconnect_by_ref (\<lambda>_. True) (\<lambda>a. if a = 1 then Some LockWouldBlock else None) ch prov1 req1 = (Err LockWouldBlock, prov2, req2) \<and>
     req2 = req1 \<and> prov2 = sample_provided \<and>
     two_way_disconnect_by_ref (\<lambda>_. True) (\<lambda>_. None) ch prov2 req2 = (Ok (), sample_provided, sample_required)"
proof -
  let ?busy = "\<lambda>a. if a = 1 then Some LockWouldBlock else None"
  obtain ch prov1 req1 where x: "biconnect_components None None 0 1 sample_provided sample_required = Ok (ch, prov1, req1)"
    and undo: "\<And>locks prov2 req2 lock r prov3 req3.
      (prov2, req2) = fold (\<lambda>lock (p, r). snd (two_way_disconnect_by_ref (\<lambda>_. True) lock ch p r)) locks (prov1, req1) \<Longrightarrow>
      two_way_disconnect_by_ref (\<lambda>_. True) lock ch prov2 req2 = (Ok r, prov3, req3) \<Longrightarrow> prov3 = sample_provided \<and> req3 = sample_required"
    using disconnect_undoes_connect [of sample_provided 0 sample_required 1 "\<lambda>_. True"] by (fastforce simp: sample_provided_def sample_required_def)
  have ch: "ch = \<lparr>tw_provider = 0, tw_requirer = 1, tw_provided_ref = \<lparr>pr_component = 0, pr_queue = 10\<rparr>, tw_required_ref = \<lparr>pr_component = 1, pr_queue = 23\<rparr>\<rparr>"
    "prov1 = provided_connect \<lparr>pr_component = 1, pr_queue = 23\<rparr> sample_provided"
    using x by (simp_all add: biconnect_components_def provided_share_def required_share_def sample_provided_def sample_required_def)
  have first: "two_way_disconnect_by_ref (\<lambda>_. True) ?busy ch prov1 req1 = (Err LockWouldBlock, sample_provided, req1)"
    by (simp add: ch two_way_disconnect_by_ref_def disconnect_half_def provided_disconnect_port_def provided_connect_def same_port_def sample_provided_def)
  obtain r prov3 req3 where d: "two_way_disconnect_by_ref (\<lambda>_. True) (\<lambda>_. None) ch sample_provided req1 = (Ok r, prov3, req3)"
    by (simp add: two_way_disconnect_by_ref_def disconnect_half_def)
  have "prov3 = sample_provided \<and> req3 = sample_required"
    by (rule undo [of _ _ "[?busy]", OF _ d]) (use first in simp)
  then show ?thesis using x first d by auto
qed

text \<open>
  \<open>disconnect_component\<close> reports a change also when the component had no connection, since connections to components that
  are gone are removed with it.
\<close>

theorem disconnect_component_reports_gone:
  assumes "ph_cores h (pr_component c) = None" "pp_common p = \<lparr>provide_channels = [], require_channels = [c]\<rparr>"
  shows "fst (provided_disconnect_component h u p)"
  using assms by (simp add: provided_disconnect_component_def clear_by_id_def owned_by_component_with_id_def Let_def)

end
