(* ===== verification/Supervisor.thy ===== *)
theory Supervisor
  imports Lifecycle "HOL-Library.Multiset"
begin

section \<open>Supervision (\<open>core/src/supervision.rs\<close>)\<close>

text \<open>
  The component supervisor: its children, the promises of lifecycle listeners and of a
  shutdown request, and its reaction to every supervision message. A child is its unique id,
  a promise a number; completing a promise whose receiver is gone fails (the argument
  \<open>broken\<close>). What the supervisor does to the outside (promises completed, children told to
  die, recovery handlers run) is recorded. The lemmas show that no promise is completed
  twice, that listeners are served by exactly the events they wait for, and when a shutdown
  completes.
\<close>

subsection \<open>Data and operations\<close>

type_synonym promise = nat

datatype listen_event = LStarted uuid | LStopped uuid | LDestroyed uuid

fun listen_id :: "listen_event \<Rightarrow> uuid" where
  "listen_id (LStarted u) = u" | "listen_id (LStopped u) = u" | "listen_id (LDestroyed u) = u"

text \<open>
  The promises of \<open>Listen\<close> and \<open>Shutdown\<close> come in a mutex behind a shared pointer. The pointer
  cannot be unwrapped while somebody else holds it too, and the mutex may be poisoned.
\<close>

datatype shared_promise = Unshared promise | StillShared | Poisoned

datatype sup_message =
  Started uuid | Stopped uuid | Killed uuid | FaultyMsg uuid
  | Listen shared_promise listen_event | Shutdown shared_promise

record supervisor =
  children :: "uuid list"
  listeners :: "(uuid \<times> (listen_event \<times> promise) list) list"
  shutdown :: "promise option"
  completed :: "promise list"
  kill_sent :: "uuid list"
  recovered :: "uuid list"

definition supervisor_new :: supervisor where
  "supervisor_new = \<lparr>children = [], listeners = [], shutdown = None, completed = [], kill_sent = [],
     recovered = []\<rparr>"

definition complete_promises :: "(promise \<Rightarrow> bool) \<Rightarrow> promise list \<Rightarrow> supervisor \<Rightarrow> supervisor" where
  "complete_promises broken ps s = s\<lparr>completed := completed s @ filter (\<lambda>p. \<not> broken p) ps\<rparr>"

definition notify_listeners ::
    "(promise \<Rightarrow> bool) \<Rightarrow> uuid \<Rightarrow> (listen_event \<Rightarrow> bool) \<Rightarrow> supervisor \<Rightarrow> supervisor" where
  "notify_listeners broken u selector s =
     (case map_of (listeners s) u of
        Some l \<Rightarrow>
          (let selected = filter (\<lambda>(e, _). selector e) l; unselected = filter (\<lambda>(e, _). \<not> selector e) l
           in complete_promises broken (map snd selected)
                (s\<lparr>listeners := AList.update u unselected (listeners s)\<rparr>))
      | None \<Rightarrow> s)"

definition drop_listeners :: "uuid \<Rightarrow> supervisor \<Rightarrow> supervisor" where
  "drop_listeners u s = s\<lparr>listeners := AList.delete u (listeners s)\<rparr>"

text \<open>\<open>complete().expect(...)\<close> of a shutdown promise.\<close>

definition fulfil_shutdown :: "(promise \<Rightarrow> bool) \<Rightarrow> promise \<Rightarrow> supervisor \<Rightarrow> (supervisor, unit) rresult" where
  "fulfil_shutdown broken p s =
     (if broken p then Panic else Ok (s\<lparr>completed := completed s @ [p], listeners := []\<rparr>))"

definition shutdown_if_no_more_children ::
    "(promise \<Rightarrow> bool) \<Rightarrow> supervisor \<Rightarrow> (supervisor, unit) rresult" where
  "shutdown_if_no_more_children broken s =
     (case shutdown s of
        Some p \<Rightarrow> if children s = [] then fulfil_shutdown broken p (s\<lparr>shutdown := None\<rparr>) else Ok s
      | None \<Rightarrow> Ok s)"

fun is_started :: "listen_event \<Rightarrow> bool" where
  "is_started (LStarted _) = True" | "is_started _ = False"
fun is_stopped :: "listen_event \<Rightarrow> bool" where
  "is_stopped (LStopped _) = True" | "is_stopped _ = False"
fun is_killed :: "listen_event \<Rightarrow> bool" where
  "is_killed (LDestroyed _) = True" | "is_killed _ = False"

fun supervisor_handle :: "(promise \<Rightarrow> bool) \<Rightarrow> sup_message \<Rightarrow> supervisor \<Rightarrow> (supervisor, unit) rresult" where
  "supervisor_handle broken (Started u) s =
     (let s1 = s\<lparr>children := (if u \<in> set (children s) then children s else children s @ [u])\<rparr>;
          s2 = notify_listeners broken u is_started s1
      in Ok (if shutdown s2 \<noteq> None then s2\<lparr>kill_sent := kill_sent s2 @ [u]\<rparr> else s2))"
| "supervisor_handle broken (Stopped u) s = Ok (notify_listeners broken u is_stopped s)"
| "supervisor_handle broken (Killed u) s =
     (let s1 = (if u \<in> set (children s)
                then drop_listeners u (notify_listeners broken u is_killed
                       (s\<lparr>children := remove1 u (children s)\<rparr>))
                else s)
      in shutdown_if_no_more_children broken s1)"
| "supervisor_handle broken (FaultyMsg u) s =
     (let s1 = drop_listeners u s;
          s2 = s1\<lparr>children := remove1 u (children s1)\<rparr>;
          s3 = (if shutdown s2 = None then s2\<lparr>recovered := recovered s2 @ [u]\<rparr> else s2)
      in shutdown_if_no_more_children broken s3)"
| "supervisor_handle broken (Listen amp event) s =
     (case amp of
        Unshared p \<Rightarrow>
          (let l = (case map_of (listeners s) (listen_id event) of Some l \<Rightarrow> l | None \<Rightarrow> [])
           in Ok (s\<lparr>listeners := AList.update (listen_id event) (l @ [(event, p)]) (listeners s)\<rparr>))
      | StillShared \<Rightarrow> Ok s
      | Poisoned \<Rightarrow> Panic)"
| "supervisor_handle broken (Shutdown amp) s =
     (case amp of
        Unshared p \<Rightarrow>
          if children s = [] then fulfil_shutdown broken p s
          else Ok (s\<lparr>shutdown := Some p, kill_sent := kill_sent s @ children s\<rparr>)
      | StillShared \<Rightarrow> Ok s
      | Poisoned \<Rightarrow> Panic)"

fun supervisor_run :: "(promise \<Rightarrow> bool) \<Rightarrow> sup_message list \<Rightarrow> supervisor \<Rightarrow> (supervisor, unit) rresult" where
  "supervisor_run broken [] s = Ok s"
| "supervisor_run broken (m # ms) s = rbind (supervisor_handle broken m s) (supervisor_run broken ms)"

subsection \<open>Promises\<close>

fun message_promises :: "sup_message \<Rightarrow> promise list" where
  "message_promises (Listen (Unshared p) _) = [p]"
| "message_promises (Shutdown (Unshared p)) = [p]"
| "message_promises _ = []"

text \<open>The promises the supervisor holds, for listeners and for the shutdown.\<close>

definition waiting :: "supervisor \<Rightarrow> promise list" where
  "waiting s = concat (map (\<lambda>(_, l). map snd l) (listeners s)) @ (case shutdown s of Some p \<Rightarrow> [p] | None \<Rightarrow> [])"

definition listener_promises :: "(uuid \<times> (listen_event \<times> promise) list) list \<Rightarrow> promise list" where
  "listener_promises ls = concat (map (\<lambda>(_, l). map snd l) ls)"

lemma waiting_eq: "waiting s = listener_promises (listeners s) @ (case shutdown s of Some p \<Rightarrow> [p] | None \<Rightarrow> [])"
  by (simp add: waiting_def listener_promises_def)

lemma mset_listener_update:
  "map_of ls u = Some l \<Longrightarrow> distinct (map fst ls) \<Longrightarrow>
     mset (listener_promises (AList.update u l' ls)) + mset (map snd l) = mset (listener_promises ls) + mset (map snd l')"
  by (induction ls) (auto simp: listener_promises_def split: if_splits)

lemma mset_listener_insert:
  "map_of ls u = None \<Longrightarrow> mset (listener_promises (AList.update u l' ls)) = mset (listener_promises ls) + mset (map snd l')"
  by (induction ls) (auto simp: listener_promises_def split: if_splits)

lemma mset_listener_delete:
  "distinct (map fst ls) \<Longrightarrow> mset (listener_promises (AList.delete u ls)) \<subseteq># mset (listener_promises ls)"
  by (induction ls) (auto simp: listener_promises_def intro: subset_mset.add_mono subset_mset.order_trans)

lemma mset_partition: "mset (map snd (filter P l)) + mset (map snd (filter (\<lambda>x. \<not> P x) l)) = mset (map snd l)"
  by (induction l) auto

definition held :: "supervisor \<Rightarrow> promise multiset" where
  "held s = mset (completed s) + mset (waiting s)"

definition sup_wf :: "supervisor \<Rightarrow> bool" where
  "sup_wf s \<longleftrightarrow> distinct (children s) \<and> distinct (map fst (listeners s)) \<and>
     (shutdown s \<noteq> None \<longrightarrow> children s \<noteq> [])"

lemma notify_held:
  assumes "distinct (map fst (listeners s))"
  shows "held (notify_listeners broken u sel s) \<subseteq># held s"
proof (cases "map_of (listeners s) u")
  case (Some l)
  let ?sel = "map snd (filter (\<lambda>(e, _). sel e) l)" and ?un = "filter (\<lambda>(e, _). \<not> sel e) l"
  let ?upd = "mset (listener_promises (AList.update u ?un (listeners s)))"
    and ?sd = "mset (case shutdown s of Some p \<Rightarrow> [p] | None \<Rightarrow> [])"
  have part: "mset ?sel + mset (map snd ?un) = mset (map snd l)"
    using mset_partition [of "\<lambda>(e, _). sel e" l] by (simp add: case_prod_unfold)
  have "(?upd + mset ?sel) + mset (map snd ?un) = mset (listener_promises (listeners s)) + mset (map snd ?un)"
    using mset_listener_update [OF Some assms, of ?un] part by (simp add: add.assoc)
  then have old: "?upd + mset ?sel = mset (listener_promises (listeners s))" by simp
  have "held (notify_listeners broken u sel s)
      = mset (completed s) + mset (filter (\<lambda>p. \<not> broken p) ?sel) + (?upd + ?sd)"
    by (simp add: notify_listeners_def Some Let_def complete_promises_def held_def waiting_eq)
  also have "\<dots> \<subseteq># mset (completed s) + mset ?sel + (?upd + ?sd)"
    by (simp add: multiset_filter_subset)
  also have "\<dots> = held s"
    by (simp add: held_def waiting_eq old [symmetric] ac_simps)
  finally show ?thesis .
qed (simp add: notify_listeners_def)

lemma notify_other [simp]:
  "children (notify_listeners broken u sel s) = children s" "shutdown (notify_listeners broken u sel s) = shutdown s"
  "kill_sent (notify_listeners broken u sel s) = kill_sent s" "recovered (notify_listeners broken u sel s) = recovered s"
  by (simp_all add: notify_listeners_def complete_promises_def Let_def split: option.splits)

lemma notify_keys [simp]:
  "distinct (map fst (listeners s)) \<Longrightarrow> distinct (map fst (listeners (notify_listeners broken u sel s)))"
  by (simp add: notify_listeners_def complete_promises_def Let_def distinct_update split: option.splits)

lemma drop_held: "distinct (map fst (listeners s)) \<Longrightarrow> held (drop_listeners u s) \<subseteq># held s"
  by (simp add: held_def waiting_eq drop_listeners_def mset_listener_delete)

lemma fulfil_held:
  "fulfil_shutdown broken p s = Ok s' \<Longrightarrow> held s' \<subseteq># held s + {#p#}"
  by (auto simp: fulfil_shutdown_def held_def waiting_eq listener_promises_def split: if_splits option.splits)

lemma shutdown_check_held:
  "shutdown_if_no_more_children broken s = Ok s' \<Longrightarrow> held s' \<subseteq># held s"
  by (auto simp: shutdown_if_no_more_children_def held_def waiting_eq listener_promises_def fulfil_shutdown_def
      split: if_splits option.splits)

lemma fulfil_fields:
  "fulfil_shutdown broken p s = Ok s' \<Longrightarrow> children s' = children s \<and> shutdown s' = shutdown s \<and> listeners s' = [] \<and>
     kill_sent s' = kill_sent s \<and> recovered s' = recovered s"
  by (auto simp: fulfil_shutdown_def split: if_splits)

lemma listen_held:
  assumes "distinct (map fst (listeners s))"
  shows "held (s\<lparr>listeners := AList.update u ((case map_of (listeners s) u of Some l \<Rightarrow> l | None \<Rightarrow> []) @ [(e, p)])
           (listeners s)\<rparr>) = held s + {#p#}"
proof (cases "map_of (listeners s) u")
  case None
  then show ?thesis by (simp add: held_def waiting_eq mset_listener_insert)
next
  case (Some l)
  have "mset (listener_promises (AList.update u (l @ [(e, p)]) (listeners s))) + mset (map snd l)
      = (mset (listener_promises (listeners s)) + {#p#}) + mset (map snd l)"
    using mset_listener_update [OF Some assms, of "l @ [(e, p)]"] by simp
  then have "mset (listener_promises (AList.update u (l @ [(e, p)]) (listeners s)))
      = mset (listener_promises (listeners s)) + {#p#}" by simp
  then show ?thesis by (simp add: held_def waiting_eq Some)
qed

subsection \<open>The invariant of the supervisor\<close>

text \<open>
  Ids are tracked once, listeners grouped by id, and during a shutdown there is a child left and
  every child has been told to die.
\<close>

definition sup_inv :: "supervisor \<Rightarrow> bool" where
  "sup_inv s \<longleftrightarrow> sup_wf s \<and> (shutdown s \<noteq> None \<longrightarrow> set (children s) \<subseteq> set (kill_sent s))"

lemma sup_fields [simp]:
  "children (drop_listeners u s) = children s" "shutdown (drop_listeners u s) = shutdown s"
  "kill_sent (drop_listeners u s) = kill_sent s" "recovered (drop_listeners u s) = recovered s"
  "completed (drop_listeners u s) = completed s"
  "distinct (map fst (listeners s)) \<Longrightarrow> distinct (map fst (listeners (drop_listeners u s)))"
  by (simp_all add: drop_listeners_def distinct_delete)

lemma shutdown_check_inv:
  assumes "shutdown_if_no_more_children broken s = Ok s'" "distinct (children s)" "distinct (map fst (listeners s))"
    "shutdown s \<noteq> None \<longrightarrow> set (children s) \<subseteq> set (kill_sent s)"
  shows "sup_inv s'"
  using assms
  by (auto simp: sup_inv_def sup_wf_def shutdown_if_no_more_children_def fulfil_shutdown_def
      split: option.splits if_splits)

lemma supervisor_handle_inv:
  assumes "sup_inv s" "supervisor_handle broken m s = Ok s'"
  shows "sup_inv s'"
proof (cases m)
  case (Started u)
  then show ?thesis using assms
    by (cases "shutdown s") (auto simp: sup_inv_def sup_wf_def Let_def split: if_splits)
next
  case (Stopped u)
  then show ?thesis using assms by (auto simp: sup_inv_def sup_wf_def)
next
  case (Killed u)
  let ?s1 = "if u \<in> set (children s) then drop_listeners u (notify_listeners broken u is_killed
      (s\<lparr>children := remove1 u (children s)\<rparr>)) else s"
  have "shutdown_if_no_more_children broken ?s1 = Ok s'" using assms(2) Killed by (simp add: Let_def)
  then show ?thesis
    by (rule shutdown_check_inv)
      (use assms(1) set_remove1_subset [of u "children s"] in \<open>auto simp: sup_inv_def sup_wf_def\<close>)
next
  case (FaultyMsg u)
  let ?s2 = "(drop_listeners u s)\<lparr>children := remove1 u (children s)\<rparr>"
  let ?s3 = "if shutdown s = None then ?s2\<lparr>recovered := recovered s @ [u]\<rparr> else ?s2"
  have "shutdown_if_no_more_children broken ?s3 = Ok s'"
    using assms(2) FaultyMsg by (simp add: Let_def split del: if_split cong: if_cong)
  then show ?thesis
    by (rule shutdown_check_inv)
      (use assms(1) set_remove1_subset [of u "children s"] in \<open>auto simp: sup_inv_def sup_wf_def\<close>)
next
  case (Listen amp e)
  then show ?thesis using assms
    by (auto simp: sup_inv_def sup_wf_def Let_def distinct_update split: shared_promise.splits)
next
  case (Shutdown amp)
  then show ?thesis using assms
    by (auto simp: sup_inv_def sup_wf_def fulfil_shutdown_def split: shared_promise.splits if_splits)
qed

lemma supervisor_run_inv:
  "sup_inv s \<Longrightarrow> supervisor_run broken ms s = Ok s' \<Longrightarrow> sup_inv s'"
  by (induction ms arbitrary: s) (auto simp: rbind_eq_Ok dest: supervisor_handle_inv)

lemma supervisor_new_inv [simp]: "sup_inv supervisor_new"
  by (simp add: sup_inv_def sup_wf_def supervisor_new_def)

lemma supervisor_handle_held:
  assumes "sup_inv s" "supervisor_handle broken m s = Ok s'"
  shows "held s' \<subseteq># held s + mset (message_promises m)"
proof -
  have d: "distinct (map fst (listeners s))" using assms(1) by (simp add: sup_inv_def sup_wf_def)
  have up: "held (r\<lparr>children := c\<rparr>) = held r" "held (r\<lparr>kill_sent := k\<rparr>) = held r" "held (r\<lparr>recovered := k\<rparr>) = held r"
    for r c k by (simp_all add: held_def waiting_eq)
  show ?thesis
  proof (cases m)
    case (Started u)
    have "held s' = held (notify_listeners broken u is_started
        (s\<lparr>children := (if u \<in> set (children s) then children s else children s @ [u])\<rparr>))"
      using assms(2) Started by (auto simp: Let_def up)
    also have "\<dots> \<subseteq># held (s\<lparr>children := (if u \<in> set (children s) then children s else children s @ [u])\<rparr>)"
      by (rule notify_held) (simp add: d)
    finally show ?thesis by (simp add: up Started)
  next
    case (Stopped u)
    then show ?thesis using assms(2) notify_held [OF d, of broken u is_stopped] by auto
  next
    case (Killed u)
    let ?s0 = "s\<lparr>children := remove1 u (children s)\<rparr>"
    let ?s1 = "if u \<in> set (children s) then drop_listeners u (notify_listeners broken u is_killed ?s0) else s"
    have "held (drop_listeners u (notify_listeners broken u is_killed ?s0)) \<subseteq># held (notify_listeners broken u is_killed ?s0)"
      by (rule drop_held) (simp add: d)
    also have "\<dots> \<subseteq># held ?s0" by (rule notify_held) (simp add: d)
    finally have "held ?s1 \<subseteq># held s" by (simp add: up)
    moreover have "held s' \<subseteq># held ?s1"
      by (rule shutdown_check_held [where broken = broken]) (use assms(2) Killed in \<open>simp add: Let_def\<close>)
    ultimately show ?thesis using Killed by auto
  next
    case (FaultyMsg u)
    let ?s1 = "drop_listeners u s"
    let ?s2 = "?s1\<lparr>children := remove1 u (children ?s1)\<rparr>"
    let ?s3 = "if shutdown ?s2 = None then ?s2\<lparr>recovered := recovered ?s2 @ [u]\<rparr> else ?s2"
    have "held s' \<subseteq># held ?s3"
      by (rule shutdown_check_held [where broken = broken]) (use assms(2) FaultyMsg in \<open>simp add: Let_def\<close>)
    moreover have "held ?s3 \<subseteq># held s" using drop_held [OF d, of u] by (auto simp: up)
    ultimately show ?thesis using FaultyMsg by auto
  next
    case (Listen amp e)
    then show ?thesis using assms(2) listen_held [OF d, of "listen_id e" e]
      by (auto simp: Let_def split: shared_promise.splits)
  next
    case (Shutdown amp)
    then show ?thesis using assms(2) fulfil_held [of broken _ s s']
      by (auto simp: held_def waiting_eq split: shared_promise.splits if_splits option.splits)
  qed
qed

lemma supervisor_run_held:
  "sup_inv s \<Longrightarrow> supervisor_run broken ms s = Ok s' \<Longrightarrow> held s' \<subseteq># held s + mset (concat (map message_promises ms))"
proof (induction ms arbitrary: s)
  case (Cons m ms)
  then obtain s1 where 1: "supervisor_handle broken m s = Ok s1" "supervisor_run broken ms s1 = Ok s'"
    by (auto simp: rbind_eq_Ok)
  have "held s' \<subseteq># held s1 + mset (concat (map message_promises ms))"
    using Cons.IH [OF supervisor_handle_inv [OF Cons.prems(1) 1(1)] 1(2)] .
  also have "\<dots> \<subseteq># (held s + mset (message_promises m)) + mset (concat (map message_promises ms))"
    by (rule subset_mset.add_right_mono) (rule supervisor_handle_held [OF Cons.prems(1) 1(1)])
  finally show ?case by (simp add: ac_simps)
qed simp

subsection \<open>Exact notification\<close>

text \<open>The listeners of one component.\<close>

definition listeners_of :: "supervisor \<Rightarrow> uuid \<Rightarrow> (listen_event \<times> promise) list" where
  "listeners_of s u = (case map_of (listeners s) u of Some l \<Rightarrow> l | None \<Rightarrow> [])"

definition served :: "(promise \<Rightarrow> bool) \<Rightarrow> (listen_event \<Rightarrow> bool) \<Rightarrow> (listen_event \<times> promise) list \<Rightarrow> promise list" where
  "served broken sel l = filter (\<lambda>p. \<not> broken p) (map snd (filter (\<lambda>(e, _). sel e) l))"

lemma listeners_of_simps [simp]:
  "listeners_of (s\<lparr>children := c\<rparr>) u = listeners_of s u" "listeners_of (s\<lparr>kill_sent := c\<rparr>) u = listeners_of s u"
  by (simp_all add: listeners_of_def)

lemma notify_exact [simp]:
  "completed (notify_listeners broken u sel s) = completed s @ served broken sel (listeners_of s u)"
  "listeners_of (notify_listeners broken u sel s) v
     = (if v = u then filter (\<lambda>(e, _). \<not> sel e) (listeners_of s u) else listeners_of s v)"
  by (auto simp: notify_listeners_def complete_promises_def listeners_of_def served_def Let_def update_conv'
      split: option.splits)

lemma drop_exact [simp]: "listeners_of (drop_listeners u s) v = (if v = u then [] else listeners_of s v)"
  by (simp add: drop_listeners_def listeners_of_def delete_conv')

text \<open>
  Over any sequence of supervision messages whose promises are different, no promise is
  completed twice, none that was completed is still held, and only promises that were handed in
  are completed.
\<close>

theorem promises_completed_at_most_once:
  assumes "distinct (concat (map message_promises ms))"
    and "supervisor_run broken ms supervisor_new = Ok s"
  shows "distinct (completed s @ waiting s) \<and>
         set (completed s @ waiting s) \<subseteq> set (concat (map message_promises ms)) \<and> sup_inv s"
proof -
  have "held supervisor_new = {#}" by (simp add: held_def waiting_def supervisor_new_def)
  then have sub: "mset (completed s @ waiting s) \<subseteq># mset (concat (map message_promises ms))"
    using supervisor_run_held [OF supervisor_new_inv assms(2)] by (simp add: held_def)
  then obtain D where "mset (concat (map message_promises ms)) = mset (completed s @ waiting s) + D"
    using subset_mset.le_iff_add by blast
  moreover obtain ds where "D = mset ds" using ex_mset by metis
  ultimately have "mset ((completed s @ waiting s) @ ds) = mset (concat (map message_promises ms))" by simp
  then have "distinct ((completed s @ waiting s) @ ds)"
    using assms(1) mset_eq_imp_distinct_iff by blast
  then show ?thesis
    using set_mset_mono [OF sub] supervisor_run_inv [OF supervisor_new_inv assms(2)] by auto
qed

theorem promises_completed_at_most_once_witness:
  "\<exists>s. supervisor_run (\<lambda>_. False)
       [Started 1, Listen (Unshared 10) (LDestroyed 1), Listen (Unshared 11) (LStopped 1), Stopped 1, Shutdown (Unshared 12),
        Killed 1] supervisor_new = Ok s \<and> completed s = [11, 10, 12] \<and> distinct (completed s @ waiting s)"
  using promises_completed_at_most_once
    [of "[Started 1, Listen (Unshared 10) (LDestroyed 1), Listen (Unshared 11) (LStopped 1), Stopped 1, Shutdown (Unshared 12), Killed 1]"
      "\<lambda>_. False"]
  by (simp add: supervisor_new_def notify_listeners_def complete_promises_def drop_listeners_def
      shutdown_if_no_more_children_def fulfil_shutdown_def waiting_def Let_def)

text \<open>
  C25: A report that a component was started or stopped completes, in order, exactly the live promises that wait for this kind
  of event of this component; its promises for other events stay, and those of other components are not touched.
  Outside a shutdown the same holds of the report that a component the supervisor tracks was killed, except that its
  other promises are dropped. Such a report of a component it does not track changes nothing, and completes none of
  the promises that wait for it.
\<close>

theorem events_serve_their_listeners:
  "(\<exists>s'. supervisor_handle broken (Started u) s = Ok s' \<and>
      completed s' = completed s @ served broken is_started (listeners_of s u) \<and>
      listeners_of s' = (listeners_of s)(u := filter (\<lambda>(e, _). \<not> is_started e) (listeners_of s u))) \<and>
   (\<exists>s'. supervisor_handle broken (Stopped u) s = Ok s' \<and>
      completed s' = completed s @ served broken is_stopped (listeners_of s u) \<and>
      listeners_of s' = (listeners_of s)(u := filter (\<lambda>(e, _). \<not> is_stopped e) (listeners_of s u))) \<and>
   (shutdown s = None \<and> u \<in> set (children s) \<longrightarrow>
      (\<exists>s'. supervisor_handle broken (Killed u) s = Ok s' \<and>
        completed s' = completed s @ served broken is_killed (listeners_of s u) \<and>
        listeners_of s' = (listeners_of s)(u := []))) \<and>
   (sup_inv s \<and> shutdown s = None \<and> u \<notin> set (children s) \<longrightarrow> supervisor_handle broken (Killed u) s = Ok s)"
  by (auto simp: Let_def shutdown_if_no_more_children_def)

theorem events_serve_their_listeners_witness:
  "\<exists>s'. supervisor_handle (\<lambda>p. p = 4) (Killed 1)
       (supervisor_new\<lparr>children := [1], listeners := [(1, [(LDestroyed 1, 3), (LDestroyed 1, 4), (LStarted 1, 5), (LDestroyed 1, 6)])]\<rparr>)
     = Ok s' \<and> completed s' = [3, 6]"
  using events_serve_their_listeners [of "\<lambda>p. p = 4" 1
      "supervisor_new\<lparr>children := [1], listeners := [(1, [(LDestroyed 1, 3), (LDestroyed 1, 4), (LStarted 1, 5), (LDestroyed 1, 6)])]\<rparr>"]
  by (auto simp: supervisor_new_def listeners_of_def served_def)

subsection \<open>Shutdown\<close>

text \<open>The messages by which a component leaves the supervisor.\<close>

fun departs :: "sup_message \<Rightarrow> uuid option" where
  "departs (Killed u) = Some u" | "departs (FaultyMsg u) = Some u" | "departs _ = None"

lemma departure_step:
  assumes "departs m = Some u" "shutdown s = Some p" "u \<in> set (children s)" "\<not> broken p"
  shows "\<exists>s'. supervisor_handle broken m s = Ok s' \<and> children s' = remove1 u (children s) \<and>
    recovered s' = recovered s \<and> kill_sent s' = kill_sent s \<and>
    (if children s = [u] then shutdown s' = None \<and> last (completed s') = p \<and> completed s' \<noteq> []
     else shutdown s' = Some p)"
proof -
  have r: "remove1 u (children s) = [] \<longleftrightarrow> children s = [u]" using assms(3)
    by (cases "children s") (auto split: if_splits)
  show ?thesis using assms
    by (cases m) (auto simp: Let_def shutdown_if_no_more_children_def fulfil_shutdown_def r)
qed

lemma departures:
  assumes "shutdown s = Some p" "\<not> broken p" "map departs ms = map Some us" "mset us \<subseteq># mset (children s)" "children s \<noteq> []"
  shows "\<exists>s'. supervisor_run broken ms s = Ok s' \<and> mset (children s') = mset (children s) - mset us \<and>
    recovered s' = recovered s \<and> kill_sent s' = kill_sent s \<and>
    (if children s' = [] then shutdown s' = None \<and> last (completed s') = p \<and> completed s' \<noteq> []
     else shutdown s' = Some p)"
  using assms
proof (induction ms arbitrary: s us)
  case (Cons m ms)
  then obtain u vs where us: "us = u # vs" "departs m = Some u" "map departs ms = map Some vs" by (cases us) auto
  have mem: "u \<in> set (children s)" using Cons.prems(4) us(1) by (metis in_multiset_in_set list.set_intros(1) mset_subset_eqD)
  obtain s1 where s1: "supervisor_handle broken m s = Ok s1" "children s1 = remove1 u (children s)"
    "recovered s1 = recovered s" "kill_sent s1 = kill_sent s"
    "if children s = [u] then shutdown s1 = None \<and> last (completed s1) = p \<and> completed s1 \<noteq> []
     else shutdown s1 = Some p"
    using departure_step [where broken = broken, OF us(2) Cons.prems(1) mem Cons.prems(2)] by blast
  have sub: "mset vs \<subseteq># mset (children s1)"
    using Cons.prems(4) mem by (simp add: us(1) s1(2) insert_subset_eq_iff)
  show ?case
  proof (cases "children s = [u]")
    case True
    then have "vs = []" using sub s1(2) by simp
    then show ?thesis using s1 us True by simp
  next
    case False
    then have "children s1 \<noteq> []" using mem s1(2) by (cases "children s") (auto split: if_splits)
    then show ?thesis using Cons.IH [of s1 vs] s1 False sub us Cons.prems(2) by simp
  qed
qed simp

text \<open>
  C26: A shutdown request tells every child to die and completes its promise exactly with the
  last departure: while some children were reported killed or faulty, in any order, and others
  were not, the promise is still held, and once all were it has been completed. No recovery
  handler runs in between.
\<close>

theorem shutdown_completes_with_last_child:
  assumes "children s \<noteq> []" "\<not> broken p"
    and "map departs ms = map Some us" "mset us \<subseteq># mset (children s)"
  shows "\<exists>s'. supervisor_run broken (Shutdown (Unshared p) # ms) s = Ok s' \<and>
           mset (children s') = mset (children s) - mset us \<and>
           recovered s' = recovered s \<and> kill_sent s' = kill_sent s @ children s \<and>
           (if mset us = mset (children s) then shutdown s' = None \<and> completed s' \<noteq> [] \<and> last (completed s') = p
            else shutdown s' = Some p)"
proof -
  let ?s = "s\<lparr>shutdown := Some p, kill_sent := kill_sent s @ children s\<rparr>"
  obtain s' where s': "supervisor_run broken ms ?s = Ok s'" "mset (children s') = mset (children s) - mset us"
    "recovered s' = recovered s" "kill_sent s' = kill_sent s @ children s"
    "if children s' = [] then shutdown s' = None \<and> last (completed s') = p \<and> completed s' \<noteq> [] else shutdown s' = Some p"
    using departures [of ?s p broken ms us] assms by auto
  have "children s' = [] \<longleftrightarrow> mset us = mset (children s)"
    using s'(2) assms(4) by (metis Diff_eq_empty_iff_mset mset_zero_iff subset_mset.antisym subset_mset.order_refl)
  then show ?thesis using s' assms(1) by auto
qed

theorem shutdown_completes_with_last_child_witness:
  "\<exists>s'. supervisor_run (\<lambda>_. False) [Shutdown (Unshared 9), Killed 2, FaultyMsg 1] (supervisor_new\<lparr>children := [1, 2]\<rparr>) = Ok s' \<and>
     shutdown s' = None \<and> last (completed s') = 9 \<and> kill_sent s' = [1, 2]"
  using shutdown_completes_with_last_child
    [of "supervisor_new\<lparr>children := [1, 2]\<rparr>" "\<lambda>_. False" 9 "[Killed 2, FaultyMsg 1]" "[2, 1]"]
  by (auto simp: supervisor_new_def)

text \<open>
  A listener on the destruction of a component the supervisor does not track (one that was
  created and killed without having been started) is not served by the report of its
  death: its promise stays held.
\<close>

theorem untracked_kill_keeps_listener:
  assumes "sup_inv s" "shutdown s = None" "u \<notin> set (children s)"
  shows "supervisor_handle broken (Killed u) s = Ok s"
  using assms by (simp add: Let_def shutdown_if_no_more_children_def)

text \<open>A second shutdown request replaces the promise of the first, which is then never completed.\<close>

theorem second_shutdown_drops_first:
  assumes "shutdown s = Some p" "children s \<noteq> []"
  shows "\<exists>s'. supervisor_handle broken (Shutdown (Unshared q)) s = Ok s' \<and> shutdown s' = Some q \<and>
    listeners s' = listeners s \<and> completed s' = completed s"
  using assms by simp

end
