(* ===== verification/Block_List.thy ===== *)
theory Block_List
  imports Actor_Paths
begin

section \<open>Block lists (\<open>network/src/transport/network_thread.rs\<close>)\<close>

text \<open>
  The rules by which a network thread refuses peers: a set of blocked IP addresses per
  address family, and sets of explicitly blocked and explicitly allowed sockets. The sets of IP
  addresses come from the crate \<open>iprange\<close> and the networks from \<open>ipnet\<close>; neither is part of the
  repository, so both are a parameter here, and the locale states the documented behaviour
  the rules rely on. The theorem relates the rules to a policy: what each command
  does to the verdict on each socket.
\<close>

subsection \<open>Sets of IP addresses\<close>

record ('a, 'n, 'r) range_ops =
  to_network :: "'a \<Rightarrow> 'n"
  net_contains :: "'n \<Rightarrow> 'a \<Rightarrow> bool"
  range_new :: 'r
  range_add :: "'n \<Rightarrow> 'r \<Rightarrow> 'r"
  range_remove :: "'n \<Rightarrow> 'r \<Rightarrow> 'r"
  range_contains :: "'r \<Rightarrow> 'n \<Rightarrow> bool"

text \<open>
  An address is a network of its own. Adding a network to a range adds its addresses, removing
  it takes them out; the rules ask for the networks of single addresses only.
\<close>

definition ranges_documented :: "('a, 'n, 'r) range_ops \<Rightarrow> bool" where
  "ranges_documented ops \<longleftrightarrow>
     (\<forall>a b. net_contains ops (to_network ops a) b \<longleftrightarrow> a = b) \<and>
     (\<forall>a. \<not> range_contains ops (range_new ops) (to_network ops a)) \<and>
     (\<forall>n r a. range_contains ops (range_add ops n r) (to_network ops a) \<longleftrightarrow>
        net_contains ops n a \<or> range_contains ops r (to_network ops a)) \<and>
     (\<forall>n r a. range_contains ops (range_remove ops n r) (to_network ops a) \<longleftrightarrow>
        \<not> net_contains ops n a \<and> range_contains ops r (to_network ops a))"

text \<open>A concrete instance: networks are prefixes of a given length, a range is the log of its changes.\<close>

definition prefix_ranges :: "('w::len word, 'w word \<times> nat, (bool \<times> 'w word \<times> nat) list) range_ops" where
  "prefix_ranges = (let inside = (\<lambda>n a. drop_bit (LENGTH('w) - snd n) (fst n) = drop_bit (LENGTH('w) - snd n) a) in
     \<lparr>to_network = (\<lambda>a. (a, LENGTH('w))),
      net_contains = inside,
      range_new = [],
      range_add = (\<lambda>n r. (True, n) # r),
      range_remove = (\<lambda>n r. (False, n) # r),
      range_contains = (\<lambda>r n. case find (\<lambda>e. inside (snd e) (fst n)) r of Some (b, _) \<Rightarrow> b | None \<Rightarrow> False)\<rparr>)"

lemma prefix_ranges_documented [simp]: "ranges_documented prefix_ranges"
  by (auto simp: ranges_documented_def prefix_ranges_def Let_def)

subsection \<open>The rules\<close>

datatype ('n4, 'n6) ip_net = Net4 'n4 | Net6 'n6

text \<open>The operations of both address families.\<close>

record ('n4, 'r4, 'n6, 'r6) net_ops =
  ops4 :: "(u32, 'n4, 'r4) range_ops"
  ops6 :: "(u128, 'n6, 'r6) range_ops"

record ('r4, 'r6) block_list =
  ipv4_set :: 'r4
  ipv6_set :: 'r6
  blocked_socket_addr :: "socket_addr set"
  allowed_socket_addr :: "socket_addr set"

definition block_list_default :: "('n4, 'r4, 'n6, 'r6) net_ops \<Rightarrow> ('r4, 'r6) block_list" where
  "block_list_default N =
     \<lparr>ipv4_set = range_new (ops4 N), ipv6_set = range_new (ops6 N), blocked_socket_addr = {}, allowed_socket_addr = {}\<rparr>"

fun ip_sets_contains_ip_addr :: "('n4, 'r4, 'n6, 'r6) net_ops \<Rightarrow> ip_addr \<Rightarrow> ('r4, 'r6) block_list \<Rightarrow> bool" where
  "ip_sets_contains_ip_addr N (V4 a) bl = range_contains (ops4 N) (ipv4_set bl) (to_network (ops4 N) a)"
| "ip_sets_contains_ip_addr N (V6 a) bl = range_contains (ops6 N) (ipv6_set bl) (to_network (ops6 N) a)"

text \<open>The operations that report whether the rules have changed return that first.\<close>

fun bl_block_ip_addr :: "('n4, 'r4, 'n6, 'r6) net_ops \<Rightarrow> ip_addr \<Rightarrow> ('r4, 'r6) block_list \<Rightarrow> bool \<times> ('r4, 'r6) block_list" where
  "bl_block_ip_addr N (V4 a) bl =
     (if range_contains (ops4 N) (ipv4_set bl) (to_network (ops4 N) a) then (False, bl)
      else (True, bl\<lparr>ipv4_set := range_add (ops4 N) (to_network (ops4 N) a) (ipv4_set bl)\<rparr>))"
| "bl_block_ip_addr N (V6 a) bl =
     (if range_contains (ops6 N) (ipv6_set bl) (to_network (ops6 N) a) then (False, bl)
      else (True, bl\<lparr>ipv6_set := range_add (ops6 N) (to_network (ops6 N) a) (ipv6_set bl)\<rparr>))"

fun bl_block_ip_net :: "('n4, 'r4, 'n6, 'r6) net_ops \<Rightarrow> ('n4, 'n6) ip_net \<Rightarrow> ('r4, 'r6) block_list \<Rightarrow> ('r4, 'r6) block_list" where
  "bl_block_ip_net N (Net4 n) bl = bl\<lparr>ipv4_set := range_add (ops4 N) n (ipv4_set bl)\<rparr>"
| "bl_block_ip_net N (Net6 n) bl = bl\<lparr>ipv6_set := range_add (ops6 N) n (ipv6_set bl)\<rparr>"

fun bl_allow_ip_net :: "('n4, 'r4, 'n6, 'r6) net_ops \<Rightarrow> ('n4, 'n6) ip_net \<Rightarrow> ('r4, 'r6) block_list \<Rightarrow> ('r4, 'r6) block_list" where
  "bl_allow_ip_net N (Net4 n) bl = bl\<lparr>ipv4_set := range_remove (ops4 N) n (ipv4_set bl)\<rparr>"
| "bl_allow_ip_net N (Net6 n) bl = bl\<lparr>ipv6_set := range_remove (ops6 N) n (ipv6_set bl)\<rparr>"

fun bl_allow_ip_addr :: "('n4, 'r4, 'n6, 'r6) net_ops \<Rightarrow> ip_addr \<Rightarrow> ('r4, 'r6) block_list \<Rightarrow> bool \<times> ('r4, 'r6) block_list" where
  "bl_allow_ip_addr N (V4 a) bl =
     (if range_contains (ops4 N) (ipv4_set bl) (to_network (ops4 N) a)
      then (True, bl\<lparr>ipv4_set := range_remove (ops4 N) (to_network (ops4 N) a) (ipv4_set bl)\<rparr>)
      else (False, bl))"
| "bl_allow_ip_addr N (V6 a) bl =
     (if range_contains (ops6 N) (ipv6_set bl) (to_network (ops6 N) a)
      then (True, bl\<lparr>ipv6_set := range_remove (ops6 N) (to_network (ops6 N) a) (ipv6_set bl)\<rparr>)
      else (False, bl))"

text \<open>
  \<open>remove(x) || insert(x)\<close>: both report a change, and the second is only tried when the first
  changes nothing.
\<close>

definition bl_block_socket_addr :: "socket_addr \<Rightarrow> ('r4, 'r6) block_list \<Rightarrow> bool \<times> ('r4, 'r6) block_list" where
  "bl_block_socket_addr a bl =
     (if a \<in> allowed_socket_addr bl then (True, bl\<lparr>allowed_socket_addr := allowed_socket_addr bl - {a}\<rparr>)
      else (a \<notin> blocked_socket_addr bl, bl\<lparr>blocked_socket_addr := insert a (blocked_socket_addr bl)\<rparr>))"

definition bl_allow_socket_addr :: "socket_addr \<Rightarrow> ('r4, 'r6) block_list \<Rightarrow> bool \<times> ('r4, 'r6) block_list" where
  "bl_allow_socket_addr a bl =
     (if a \<in> blocked_socket_addr bl then (True, bl\<lparr>blocked_socket_addr := blocked_socket_addr bl - {a}\<rparr>)
      else (a \<notin> allowed_socket_addr bl, bl\<lparr>allowed_socket_addr := insert a (allowed_socket_addr bl)\<rparr>))"

definition ip_addr_is_blocked :: "('n4, 'r4, 'n6, 'r6) net_ops \<Rightarrow> ip_addr \<Rightarrow> ('r4, 'r6) block_list \<Rightarrow> bool" where
  "ip_addr_is_blocked N ip bl =
     (if ip_sets_contains_ip_addr N ip bl then \<not> (\<exists>a \<in> allowed_socket_addr bl. sock_ip a = ip) else False)"

definition socket_addr_is_blocked :: "('n4, 'r4, 'n6, 'r6) net_ops \<Rightarrow> socket_addr \<Rightarrow> ('r4, 'r6) block_list \<Rightarrow> bool" where
  "socket_addr_is_blocked N a bl =
     (if a \<in> allowed_socket_addr bl then False
      else if a \<in> blocked_socket_addr bl then True
      else ip_sets_contains_ip_addr N (sock_ip a) bl)"

subsection \<open>The interface\<close>

text \<open>\<open>IpNet::contains\<close>\<close>

fun ip_net_contains :: "('n4, 'r4, 'n6, 'r6) net_ops \<Rightarrow> ('n4, 'n6) ip_net \<Rightarrow> ip_addr \<Rightarrow> bool" where
  "ip_net_contains N (Net4 n) (V4 a) = net_contains (ops4 N) n a"
| "ip_net_contains N (Net6 n) (V6 a) = net_contains (ops6 N) n a"
| "ip_net_contains N _ _ = False"

definition nets_documented :: "('n4, 'r4, 'n6, 'r6) net_ops \<Rightarrow> bool" where
  "nets_documented N \<longleftrightarrow> ranges_documented (ops4 N) \<and> ranges_documented (ops6 N)"

definition prefix_nets where "prefix_nets = \<lparr>ops4 = prefix_ranges, ops6 = prefix_ranges\<rparr>"

lemma prefix_nets_documented [simp]: "nets_documented prefix_nets"
  by (simp add: nets_documented_def prefix_nets_def)

locale ip_ranges =
  fixes N :: "('n4, 'r4, 'n6, 'r6) net_ops"
  assumes documented: "nets_documented N"
begin

lemma contains_default: "\<not> ip_sets_contains_ip_addr N ip (block_list_default N)"
  using documented by (cases ip) (auto simp: nets_documented_def ranges_documented_def block_list_default_def)

lemma contains_block_ip:
  "ip_sets_contains_ip_addr N ip (snd (bl_block_ip_addr N ip' bl)) \<longleftrightarrow> ip = ip' \<or> ip_sets_contains_ip_addr N ip bl"
  using documented by (cases ip; cases ip') (auto simp: nets_documented_def ranges_documented_def)

lemma contains_allow_ip:
  "ip_sets_contains_ip_addr N ip (snd (bl_allow_ip_addr N ip' bl)) \<longleftrightarrow> ip \<noteq> ip' \<and> ip_sets_contains_ip_addr N ip bl"
  using documented by (cases ip; cases ip') (auto simp: nets_documented_def ranges_documented_def)

lemma contains_block_net:
  "ip_sets_contains_ip_addr N ip (bl_block_ip_net N n bl) \<longleftrightarrow> ip_net_contains N n ip \<or> ip_sets_contains_ip_addr N ip bl"
  using documented by (cases ip; cases n) (auto simp: nets_documented_def ranges_documented_def)

lemma contains_allow_net:
  "ip_sets_contains_ip_addr N ip (bl_allow_ip_net N n bl) \<longleftrightarrow> \<not> ip_net_contains N n ip \<and> ip_sets_contains_ip_addr N ip bl"
  using documented by (cases ip; cases n) (auto simp: nets_documented_def ranges_documented_def)

lemmas contains_rules = contains_default contains_block_ip contains_allow_ip contains_block_net contains_allow_net

end

interpretation prefix_ips: ip_ranges prefix_nets
  by unfold_locales simp

subsection \<open>The policy\<close>

text \<open>
  A policy says for each socket whether there is an explicit exception (\<open>Some True\<close> to block it)
  and which IP addresses are blocked. The commands are the operations of the rules.
\<close>

datatype ('n4, 'n6) rule_command =
  BlockSock socket_addr | AllowSock socket_addr | BlockIp ip_addr | AllowIp ip_addr
  | BlockNet "('n4, 'n6) ip_net" | AllowNet "('n4, 'n6) ip_net"

fun run_rule :: "('n4, 'r4, 'n6, 'r6) net_ops \<Rightarrow> ('n4, 'n6) rule_command \<Rightarrow> ('r4, 'r6) block_list \<Rightarrow> ('r4, 'r6) block_list" where
  "run_rule N (BlockSock a) bl = snd (bl_block_socket_addr a bl)"
| "run_rule N (AllowSock a) bl = snd (bl_allow_socket_addr a bl)"
| "run_rule N (BlockIp ip) bl = snd (bl_block_ip_addr N ip bl)"
| "run_rule N (AllowIp ip) bl = snd (bl_allow_ip_addr N ip bl)"
| "run_rule N (BlockNet n) bl = bl_block_ip_net N n bl"
| "run_rule N (AllowNet n) bl = bl_allow_ip_net N n bl"

type_synonym policy = "(socket_addr \<Rightarrow> bool option) \<times> (ip_addr \<Rightarrow> bool)"

text \<open>
  What the code makes of the commands: one on a socket cancels the opposite exception if there is one, else makes one. What
  the documentation promises is stated below.
\<close>

fun policy_step :: "('n4, 'r4, 'n6, 'r6) net_ops \<Rightarrow> ('n4, 'n6) rule_command \<Rightarrow> policy \<Rightarrow> policy" where
  "policy_step N (BlockSock a) (e, ips) = (e(a := if e a = Some False then None else Some True), ips)"
| "policy_step N (AllowSock a) (e, ips) = (e(a := if e a = Some True then None else Some False), ips)"
| "policy_step N (BlockIp ip) (e, ips) = (e, ips(ip := True))"
| "policy_step N (AllowIp ip) (e, ips) = (e, ips(ip := False))"
| "policy_step N (BlockNet n) (e, ips) = (e, \<lambda>ip. ip_net_contains N n ip \<or> ips ip)"
| "policy_step N (AllowNet n) (e, ips) = (e, \<lambda>ip. \<not> ip_net_contains N n ip \<and> ips ip)"

definition verdict :: "policy \<Rightarrow> socket_addr \<Rightarrow> bool" where
  "verdict p a = (case fst p a of Some b \<Rightarrow> b | None \<Rightarrow> snd p (sock_ip a))"

definition policy_of :: "('n4, 'r4, 'n6, 'r6) net_ops \<Rightarrow> ('r4, 'r6) block_list \<Rightarrow> policy" where
  "policy_of N bl =
     (\<lambda>a. if a \<in> allowed_socket_addr bl then Some False else if a \<in> blocked_socket_addr bl then Some True else None,
      \<lambda>ip. ip_sets_contains_ip_addr N ip bl)"

text \<open>No socket is both blocked and allowed.\<close>

definition rules_ok :: "('r4, 'r6) block_list \<Rightarrow> bool" where
  "rules_ok bl \<longleftrightarrow> blocked_socket_addr bl \<inter> allowed_socket_addr bl = {}"

lemma sockets_keep_ips [simp]:
  "ip_sets_contains_ip_addr N ip (bl\<lparr>allowed_socket_addr := S\<rparr>) = ip_sets_contains_ip_addr N ip bl"
  "ip_sets_contains_ip_addr N ip (bl\<lparr>blocked_socket_addr := S\<rparr>) = ip_sets_contains_ip_addr N ip bl"
  by (cases ip; simp)+

lemma ips_keep_sockets [simp]:
  "blocked_socket_addr (snd (bl_block_ip_addr N ip bl)) = blocked_socket_addr bl"
  "allowed_socket_addr (snd (bl_block_ip_addr N ip bl)) = allowed_socket_addr bl"
  "blocked_socket_addr (snd (bl_allow_ip_addr N ip bl)) = blocked_socket_addr bl"
  "allowed_socket_addr (snd (bl_allow_ip_addr N ip bl)) = allowed_socket_addr bl"
  "blocked_socket_addr (bl_block_ip_net N n bl) = blocked_socket_addr bl"
  "allowed_socket_addr (bl_block_ip_net N n bl) = allowed_socket_addr bl"
  "blocked_socket_addr (bl_allow_ip_net N n bl) = blocked_socket_addr bl"
  "allowed_socket_addr (bl_allow_ip_net N n bl) = allowed_socket_addr bl"
  by (cases ip; simp; fail | cases n; simp)+

lemma rules_ok_step: "rules_ok bl \<Longrightarrow> rules_ok (run_rule N c bl)"
  by (cases c) (auto simp: rules_ok_def bl_block_socket_addr_def bl_allow_socket_addr_def)

lemma rules_ok_run: "rules_ok bl \<Longrightarrow> rules_ok (fold (run_rule N) cs bl)"
  by (induction cs arbitrary: bl) (auto simp: rules_ok_step)

lemma rules_ok_default [simp]: "rules_ok (block_list_default N)"
  by (simp add: rules_ok_def block_list_default_def)

context ip_ranges
begin

lemma step_refines:
  assumes "rules_ok bl"
  shows "policy_of N (run_rule N c bl) = policy_step N c (policy_of N bl)"
  using assms
  by (cases c) (auto simp: rules_ok_def policy_of_def fun_eq_iff contains_rules bl_block_socket_addr_def bl_allow_socket_addr_def)

lemma run_refines:
  "rules_ok bl \<Longrightarrow> policy_of N (fold (run_rule N) cs bl) = fold (policy_step N) cs (policy_of N bl)"
  by (induction cs arbitrary: bl) (simp_all add: rules_ok_step step_refines)

lemma default_policy: "policy_of N (block_list_default N) = (\<lambda>_. None, \<lambda>_. False)"
  by (simp add: policy_of_def contains_default) (simp add: block_list_default_def)

end

lemma socket_verdict: "socket_addr_is_blocked N a bl = verdict (policy_of N bl) a"
  by (simp add: socket_addr_is_blocked_def verdict_def policy_of_def)

text \<open>
  The documented verdict: the commands on IP addresses and networks form one list in which the last command that concerns an address
  decides, and the last command on a socket, if there was one, takes precedence over it.
\<close>

fun ip_word :: "('n4, 'r4, 'n6, 'r6) net_ops \<Rightarrow> ip_addr \<Rightarrow> ('n4, 'n6) rule_command \<Rightarrow> bool option" where
  "ip_word N ip (BlockIp ip') = (if ip' = ip then Some True else None)"
| "ip_word N ip (AllowIp ip') = (if ip' = ip then Some False else None)"
| "ip_word N ip (BlockNet n) = (if ip_net_contains N n ip then Some True else None)"
| "ip_word N ip (AllowNet n) = (if ip_net_contains N n ip then Some False else None)"
| "ip_word N ip _ = None"

fun socket_word :: "socket_addr \<Rightarrow> ('n4, 'n6) rule_command \<Rightarrow> bool option" where
  "socket_word a (BlockSock a') = (if a' = a then Some True else None)"
| "socket_word a (AllowSock a') = (if a' = a then Some False else None)"
| "socket_word a _ = None"

definition last_word :: "('a \<Rightarrow> bool option) \<Rightarrow> 'a list \<Rightarrow> bool option" where
  "last_word f cs = (case List.map_filter f cs of [] \<Rightarrow> None | ws \<Rightarrow> Some (last ws))"

definition documented_verdict :: "('n4, 'r4, 'n6, 'r6) net_ops \<Rightarrow> ('n4, 'n6) rule_command list \<Rightarrow> socket_addr \<Rightarrow> bool" where
  "documented_verdict N cs a =
     (case last_word (socket_word a) cs of Some b \<Rightarrow> b | None \<Rightarrow> last_word (ip_word N (sock_ip a)) cs = Some True)"

lemma last_word_simps [simp]:
  "last_word f [] = None" "last_word f (cs @ [c]) = (case f c of Some b \<Rightarrow> Some b | None \<Rightarrow> last_word f cs)"
proof -
  have "(case ws @ [b] of [] \<Rightarrow> None | ws' \<Rightarrow> Some (last ws')) = Some b" for ws and b :: bool by (cases ws) simp_all
  then show "last_word f (cs @ [c]) = (case f c of Some b \<Rightarrow> Some b | None \<Rightarrow> last_word f cs)"
    by (simp add: last_word_def List.map_filter_def split: option.splits)
qed (simp add: last_word_def List.map_filter_def)

lemma last_word_socket:
  "last_word (socket_word a) cs = Some True \<Longrightarrow> BlockSock a \<in> set cs" "last_word (socket_word a) cs = Some False \<Longrightarrow> AllowSock a \<in> set cs"
  by (induction cs rule: rev_induct; auto split: option.splits if_splits elim!: socket_word.elims)+

lemma policy_words:
  "snd (fold (policy_step N) cs (\<lambda>_. None, \<lambda>_. False)) ip \<longleftrightarrow> last_word (ip_word N ip) cs = Some True"
  "\<not> (BlockSock a \<in> set cs \<and> AllowSock a \<in> set cs) \<Longrightarrow>
     fst (fold (policy_step N) cs (\<lambda>_. None, \<lambda>_. False)) a = last_word (socket_word a) cs"
proof (induction cs rule: rev_induct)
  case (snoc c cs)
  obtain e ips where p: "fold (policy_step N) cs (\<lambda>_. None, \<lambda>_. False) = (e, ips)" by force
  { case 1 then show ?case using snoc.IH(1) p by (cases c) auto }
  { case 2 then show ?case using snoc.IH(2) p last_word_socket [of a cs] by (cases c) auto }
qed simp_all

text \<open>
  C30: For a socket that the commands do not both block and allow, the rules give the documented verdict after any sequence of
  commands: blocked when it was blocked, open when it was allowed, whatever is said about its IP address before or after, and
  otherwise as the last command that concerns its IP address says. An IP address is refused as a whole only if each of its sockets is
  blocked, and no socket is ever listed as blocked and as allowed.
\<close>

theorem block_list_keeps_documentation:
  assumes "nets_documented N" "\<not> (BlockSock a \<in> set cs \<and> AllowSock a \<in> set cs)"
  shows "socket_addr_is_blocked N a (fold (run_rule N) cs (block_list_default N)) = documented_verdict N cs a \<and>
         rules_ok (fold (run_rule N) cs (block_list_default N)) \<and>
         (ip_addr_is_blocked N (sock_ip a) (fold (run_rule N) cs (block_list_default N)) \<longrightarrow> documented_verdict N cs a)"
proof -
  note api = ip_ranges.intro [OF assms(1)]
  have "socket_addr_is_blocked N a (fold (run_rule N) cs (block_list_default N)) = documented_verdict N cs a"
    using policy_words(1) [of N cs "sock_ip a"] policy_words(2) [OF assms(2), of N]
    by (simp add: socket_verdict ip_ranges.run_refines [OF api] ip_ranges.default_policy [OF api] verdict_def documented_verdict_def
        split: option.splits)
  then show ?thesis
    by (auto simp: rules_ok_run ip_addr_is_blocked_def socket_addr_is_blocked_def split: if_splits)
qed

theorem block_list_keeps_documentation_witness:
  "\<not> socket_addr_is_blocked prefix_nets \<lparr>sock_ip = V4 0x0A000001, sock_port = 80\<rparr>
       (fold (run_rule prefix_nets) [AllowSock \<lparr>sock_ip = V4 0x0A000001, sock_port = 80\<rparr>, BlockNet (Net4 (0x0A000000, 8))]
          (block_list_default prefix_nets)) \<and>
   socket_addr_is_blocked prefix_nets \<lparr>sock_ip = V4 0x0A000001, sock_port = 81\<rparr>
       (fold (run_rule prefix_nets) [AllowSock \<lparr>sock_ip = V4 0x0A000001, sock_port = 80\<rparr>, BlockNet (Net4 (0x0A000000, 8))]
          (block_list_default prefix_nets))"
proof -
  let ?a = "\<lambda>p. \<lparr>sock_ip = V4 0x0A000001, sock_port = p\<rparr>"
  let ?cs = "[AllowSock (?a 80), BlockNet (Net4 (0x0A000000, 8))]"
  have "\<not> documented_verdict prefix_nets ?cs (?a 80)" "documented_verdict prefix_nets ?cs (?a 81)"
    by (simp_all add: documented_verdict_def last_word_def List.map_filter_simps prefix_nets_def prefix_ranges_def Let_def)
  then show ?thesis
    using block_list_keeps_documentation [OF prefix_nets_documented, of "?a 80" ?cs] block_list_keeps_documentation [OF prefix_nets_documented, of "?a 81" ?cs]
    by simp
qed

text \<open>The socket commands report a change exactly when the rules have changed.\<close>

lemma socket_commands_report_changes:
  assumes "rules_ok bl"
  shows "fst (bl_block_socket_addr a bl) \<longleftrightarrow> snd (bl_block_socket_addr a bl) \<noteq> bl"
    and "fst (bl_allow_socket_addr a bl) \<longleftrightarrow> snd (bl_allow_socket_addr a bl) \<noteq> bl"
  by (cases bl; auto simp: bl_block_socket_addr_def bl_allow_socket_addr_def)+

text \<open>
  A socket that was explicitly allowed is not blocked by the next command to block it, although
  the command reports a change: it only cancels the exception. In the same way a command to
  allow a blocked socket of a blocked IP address leaves it blocked. The second
  command of the same kind has the effect.
\<close>

theorem opposite_command_only_cancels:
  assumes "nets_documented N"
  shows "fst (bl_block_socket_addr a (run_rule N (AllowSock a) (block_list_default N)))"
    and "\<not> socket_addr_is_blocked N a (fold (run_rule N) [AllowSock a, BlockSock a] (block_list_default N))"
    and "socket_addr_is_blocked N a (fold (run_rule N) [AllowSock a, BlockSock a, BlockSock a] (block_list_default N))"
    and "socket_addr_is_blocked N a (fold (run_rule N) [BlockSock a, BlockIp (sock_ip a), AllowSock a] (block_list_default N))"
proof -
  note api = ip_ranges.intro [OF assms]
  note verdicts = socket_verdict ip_ranges.run_refines [OF api rules_ok_default] ip_ranges.default_policy [OF api]
  show "fst (bl_block_socket_addr a (run_rule N (AllowSock a) (block_list_default N)))"
    by (simp add: bl_block_socket_addr_def bl_allow_socket_addr_def block_list_default_def)
  show "\<not> socket_addr_is_blocked N a (fold (run_rule N) [AllowSock a, BlockSock a] (block_list_default N))"
    unfolding verdicts by (simp add: verdict_def)
  show "socket_addr_is_blocked N a (fold (run_rule N) [AllowSock a, BlockSock a, BlockSock a] (block_list_default N))"
    unfolding verdicts by (simp add: verdict_def)
  show "socket_addr_is_blocked N a (fold (run_rule N) [BlockSock a, BlockIp (sock_ip a), AllowSock a] (block_list_default N))"
    unfolding verdicts by (simp add: verdict_def)
qed

end
