(* ===== verification/Tcp_Reading.thy ===== *)
theory Tcp_Reading
  imports Encode_Buffer Tcp_Channel
begin

section \<open>Reading frames from a TCP channel\<close>

text \<open>
  What \<open>read_frame\<close> of a channel promises to the network thread: over any sequence of
  socket results, whatever their sizes, it returns the frames of the peer one by one, keeps the bytes of
  an incomplete frame, and ends. The bytes of a connection are those the decode buffer holds followed by those
  the socket is still going to deliver.
\<close>

subsection \<open>Receiving\<close>

definition arriving :: "tcp_stream \<Rightarrow> u8 list" where
  "arriving s = concat (map (\<lambda>oc. case oc of Received bs \<Rightarrow> bs | ReadFails _ \<Rightarrow> []) (read_outcomes s))"

lemma stream_read_arriving:
  assumes "stream_read room s = (r, s')"
  shows "arriving s = (case r of Ok bs \<Rightarrow> bs | _ \<Rightarrow> []) @ arriving s' \<and> r \<noteq> Panic \<and>
    (case r of Ok bs \<Rightarrow> length bs \<le> room | _ \<Rightarrow> True) \<and> s' = s\<lparr>read_outcomes := read_outcomes s'\<rparr> \<and> read_weight s' \<le> read_weight s"
  using assms by (auto simp: stream_read_def arriving_def read_weight_def split: list.splits read_outcome.splits if_splits)

lemma write_bytes_room:
  "db_config (write_bytes bs db) = db_config db"
  "db_wf db \<Longrightarrow> length bs \<le> writeable_len db \<Longrightarrow> length (chunk (db_buffer (write_bytes bs db))) = length (chunk (db_buffer db))"
  by (auto simp: write_bytes_def advance_writeable_def Let_def db_wf_def writeable_len_def)

text \<open>The part of a channel that reading the socket leaves alone.\<close>

definition reads_to :: "tcp_channel \<Rightarrow> tcp_channel \<Rightarrow> bool" where
  "reads_to ch ch' \<longleftrightarrow>
     ch' = ch\<lparr>ch_stream := (ch_stream ch)\<lparr>read_outcomes := read_outcomes (ch_stream ch')\<rparr>, input_buffer := input_buffer ch'\<rparr> \<and>
     db_wf (input_buffer ch') \<and> db_config (input_buffer ch') = db_config (input_buffer ch) \<and>
     stream (input_buffer ch') @ arriving (ch_stream ch') = stream (input_buffer ch) @ arriving (ch_stream ch) \<and>
     read_weight (ch_stream ch') \<le> read_weight (ch_stream ch)"

lemma reads_to_trans: "reads_to a b \<Longrightarrow> reads_to b c \<Longrightarrow> reads_to a c"
  unfolding reads_to_def by (cases a; cases b; cases c; cases "ch_stream a"; cases "ch_stream b"; cases "ch_stream c") auto

lemma reads_to_buffer:
  "reads_to ch ch1 \<Longrightarrow> db_wf db \<Longrightarrow> db_config db = db_config (input_buffer ch1) \<Longrightarrow> stream db = stream (input_buffer ch1) \<Longrightarrow>
     reads_to ch (ch1\<lparr>input_buffer := db\<rparr>)"
  unfolding reads_to_def by (cases ch; cases ch1) auto

lemma receive_loop_reads:
  "db_wf (input_buffer ch) \<Longrightarrow> receive_loop i ch = (r, ch') \<Longrightarrow>
     reads_to ch ch' \<and> r \<noteq> Panic \<and> length (chunk (db_buffer (input_buffer ch'))) = length (chunk (db_buffer (input_buffer ch))) \<and>
     (is_writeable (input_buffer ch) \<longrightarrow> r = Ok () \<or> read_weight (ch_stream ch') < read_weight (ch_stream ch))"
proof (induction i ch arbitrary: r ch' rule: receive_loop.induct)
  case (1 i ch)
  let ?db = "input_buffer ch"
  note step = receive_loop.simps [of i ch]
  show ?case
  proof (cases "is_writeable ?db")
    case False
    then show ?thesis using 1(3,4) step by (auto simp: get_writeable_def reads_to_def)
  next
    case True
    let ?lo = "write_offset ?db" and ?hi = "length (chunk (db_buffer ?db))"
    have gw: "get_writeable ?db = Ok (Some (?lo, ?hi))"
      using True 1(3) by (simp add: get_writeable_def is_writeable_def get_slice_def db_wf_def writeable_len_def)
    obtain x s' where rd: "stream_read (?hi - ?lo) (ch_stream ch) = (x, s')" by force
    note arr = stream_read_arriving [OF rd]
    have keep: "reads_to ch (ch\<lparr>ch_stream := s'\<rparr>)" if "x = Ok [] \<or> (\<exists>e. x = Err e)"
      using that arr 1(3) by (auto simp: reads_to_def)
    show ?thesis
    proof (cases x)
      case (Ok bs)
      show ?thesis
      proof (cases "bs = []")
        case True
        then show ?thesis using step 1(4) gw rd Ok keep by auto
      next
        case ne: False
        let ?ch1 = "ch\<lparr>ch_stream := s', input_buffer := write_bytes bs ?db\<rparr>"
        have fit: "length bs \<le> writeable_len ?db" using arr Ok by (simp add: writeable_len_def)
        have run: "receive_loop i ?ch1 = (r, ch')" using step 1(4) gw rd Ok ne by simp
        have wf: "db_wf (input_buffer ?ch1)" using write_bytes_spec(2) [OF 1(3) fit] by simp
        have less: "read_weight s' < read_weight (ch_stream ch)" using receive_consumes [OF gw] rd Ok by simp
        have first: "reads_to ch ?ch1"
          using arr Ok wf write_bytes_spec [OF 1(3) fit] write_bytes_room less by (auto simp: reads_to_def)
        from 1(1) [OF gw refl refl rd [unfolded Ok, symmetric] refl ne wf run]
        have "reads_to ?ch1 ch'" "r \<noteq> Panic" "length (chunk (db_buffer (input_buffer ch'))) = length (chunk (db_buffer (input_buffer ?ch1)))"
          "read_weight (ch_stream ch') \<le> read_weight s'"
          by (auto simp: reads_to_def)
        then show ?thesis using first reads_to_trans less write_bytes_room(2) [OF 1(3) fit] by (auto simp: less_le_trans)
      qed
    next
      case (Err e)
      let ?ch1 = "ch\<lparr>ch_stream := s'\<rparr>"
      have less: "e \<noteq> IoWouldBlock \<Longrightarrow> read_weight s' < read_weight (ch_stream ch)"
        using stream_read_consumes(2) rd Err by simp
      show ?thesis
      proof (cases "e = IoInterrupted \<and> i + 1 < MAX_INTERRUPTS")
        case True
        then have run: "receive_loop (i + 1) ?ch1 = (r, ch')" using step 1(4) gw rd Err by simp
        have wf: "db_wf (input_buffer ?ch1)" using 1(3) by simp
        from 1(2) [OF gw refl refl rd [unfolded Err, symmetric] refl _ _ _ wf run] True
        have "reads_to ?ch1 ch'" "r \<noteq> Panic" "length (chunk (db_buffer (input_buffer ch'))) = length (chunk (db_buffer (input_buffer ?ch1)))"
          "read_weight (ch_stream ch') \<le> read_weight s'"
          by (auto simp: reads_to_def)
        then show ?thesis using keep Err reads_to_trans less True by auto
      next
        case False
        then show ?thesis using step 1(4) gw rd Err keep less by (auto split: if_splits)
      qed
    next
      case Panic
      then show ?thesis using arr by simp
    qed
  qed
qed

text \<open>A socket that delivers bytes until it would block: then receiving ends only when it is empty or the buffer is full.\<close>

definition clean :: "tcp_stream \<Rightarrow> bool" where
  "clean s \<longleftrightarrow> list_all (\<lambda>oc. \<exists>bs. oc = Received bs \<and> bs \<noteq> []) (read_outcomes s)"

lemma stream_read_clean:
  "clean s \<Longrightarrow> 0 < room \<Longrightarrow> stream_read room s = (r, s') \<Longrightarrow>
     clean s' \<and> r \<noteq> Ok [] \<and> (\<forall>e. r = Err e \<longrightarrow> e = IoWouldBlock \<and> read_outcomes s' = [])"
  by (auto simp: clean_def stream_read_def split: list.splits read_outcome.splits if_splits)

lemma receive_loop_clean:
  "clean (ch_stream ch) \<Longrightarrow> receive_loop i ch = (r, ch') \<Longrightarrow> clean (ch_stream ch') \<and> (r = Ok () \<longrightarrow> read_outcomes (ch_stream ch') = []) \<and>
     (\<forall>e. r = Err e \<longrightarrow> e = IoInvalidInput)"
proof (induction i ch arbitrary: r ch' rule: receive_loop.induct)
  case (1 i ch)
  note step = receive_loop.simps [of i ch]
  show ?case
  proof (cases "\<exists>lo hi. get_writeable (input_buffer ch) = Ok (Some (lo, hi))")
    case True
    then obtain lo hi where gw: "get_writeable (input_buffer ch) = Ok (Some (lo, hi))" by blast
    obtain x s' where rd: "stream_read (hi - lo) (ch_stream ch) = (x, s')" by force
    note cl = stream_read_clean [OF 1(3) _ rd] get_writeable_room [OF gw]
    show ?thesis
    proof (cases x)
      case (Ok bs)
      then have ne: "bs \<noteq> []" using cl by auto
      let ?ch1 = "ch\<lparr>ch_stream := s', input_buffer := write_bytes bs (input_buffer ch)\<rparr>"
      have "receive_loop i ?ch1 = (r, ch')" using step 1(4) gw rd Ok ne by simp
      then show ?thesis using 1(1) [OF gw refl refl rd [unfolded Ok, symmetric] refl ne, of r ch'] cl by simp
    next
      case (Err e)
      then show ?thesis using step 1(4) gw rd cl by auto
    next
      case Panic
      then show ?thesis using step 1(4) gw rd cl by auto
    qed
  next
    case False
    then show ?thesis using step 1(3,4) by (auto split: rresult.splits option.splits)
  qed
qed

subsection \<open>Looking for a frame\<close>

lemma read_chunk_lease_keeps:
  "read_chunk_lease fresh n db = Ok (l, db') \<Longrightarrow>
     db_config db' = db_config db \<and> db_buffer db' = db_buffer db \<and> write_offset db' = write_offset db"
  by (auto simp: read_chunk_lease_def Let_def split: option.splits if_splits rresult.splits prod.splits)

lemma head_decode_small: "head_decode_from ops bs = Ok (h, rest) \<Longrightarrow> content_length h < 2 ^ 32"
proof -
  have "unat (w :: u32) < 2 ^ 32" for w using unsigned_less [of w] by simp
  then show "head_decode_from ops bs = Ok (h, rest) \<Longrightarrow> ?thesis"
    by (auto simp: head_decode_from_def rbind_eq_Ok split: if_splits)
qed

lemma has_frame_keeps:
  assumes "db_wf db" "has_frame ops fresh db = (Ok b, db')"
  shows "db_wf db' \<and> db_config db' = db_config db \<and> db_buffer db' = db_buffer db \<and> write_offset db' = write_offset db"
proof -
  from assms(2) have d: "decode_frame_head ops fresh db = (Ok (), db')"
    by (auto simp: has_frame_def split: prod.splits rresult.splits)
  show ?thesis
  proof (cases "next_frame_head db = None \<and> readable_len db \<ge> FRAME_HEAD_LEN")
    case True
    then obtain l db1 h rest where l: "read_chunk_lease fresh FRAME_HEAD_LEN db = Ok (l, db1)"
      "head_decode_from ops (lease_unread l) = Ok (h, rest)" "db' = db1\<lparr>next_frame_head := Some h\<rparr>"
      using d by (auto simp: decode_frame_head_def split: prod.splits rresult.splits)
    have "FRAME_HEAD_LEN \<le> length (unread db)" "0 < FRAME_HEAD_LEN"
      using True readable_len_unread [OF assms(1)] by (simp_all add: FRAME_HEAD_LEN_def)
    then have "db_wf db1" using read_chunk_lease_spec [OF assms(1), of FRAME_HEAD_LEN fresh] l(1) by auto
    then show ?thesis using l(3) read_chunk_lease_keeps [OF l(1)] head_decode_small [OF l(2)] db_wf_no_head by simp
  next
    case False
    then show ?thesis using d assms(1) by (auto simp: decode_frame_head_def)
  qed
qed

text \<open>A peer that sends well-formed frames: what has arrived and what may follow is a sequence of them.\<close>

definition peer_sends :: "frame list \<Rightarrow> u8 list \<Rightarrow> u8 list \<Rightarrow> bool" where
  "peer_sends fs bs future \<longleftrightarrow> list_all sendable fs \<and> bs @ future = concat (map frame_bytes fs)"

definition arrived :: "tcp_channel \<Rightarrow> u8 list" where
  "arrived ch = stream (input_buffer ch) @ arriving (ch_stream ch)"

definition sane :: "tcp_channel \<Rightarrow> bool" where
  "sane ch \<longleftrightarrow> (\<exists>fs future. peer_sends fs (arrived ch) future)"

lemma reads_to_arrived: "reads_to ch ch' \<Longrightarrow> arrived ch' = arrived ch"
  by (simp add: reads_to_def arrived_def)

lemma reads_to_sane: "reads_to ch ch' \<Longrightarrow> sane ch \<Longrightarrow> sane ch'"
  by (simp add: sane_def reads_to_arrived)

text \<open>The next frame has arrived completely.\<close>

definition complete :: "tcp_channel \<Rightarrow> bool" where
  "complete ch \<longleftrightarrow> (\<forall>fs future. peer_sends fs (arrived ch) future \<longrightarrow>
     (\<exists>f fs'. fs = f # fs' \<and> length (frame_bytes f) \<le> length (stream (input_buffer ch))))"

lemma has_frame_sane:
  assumes "bytes_documented ops" "db_wf (input_buffer ch)" "peer_sends fs (arrived ch) future"
  shows "\<exists>b db'. has_frame ops fresh (input_buffer ch) = (Ok b, db') \<and> stream db' = stream (input_buffer ch) \<and>
    (b \<longrightarrow> (\<exists>f fs'. fs = f # fs' \<and> length (frame_bytes f) \<le> length (stream (input_buffer ch))))"
proof -
  let ?db = "input_buffer ch"
  obtain rest where fs: "list_all sendable fs" "stream ?db @ rest = concat (map frame_bytes fs)"
    using assms(3) by (auto simp: peer_sends_def arrived_def)
  show ?thesis
  proof (cases fs)
    case Nil
    then have "stream ?db = []" using fs(2) by simp
    then have "decode_frame_head ops fresh ?db = (Ok (), ?db)"
      using readable_len_unread [OF assms(2)] by (auto simp: decode_frame_head_def stream_def FRAME_HEAD_LEN_def split: option.splits)
    moreover have "next_frame_head ?db = None" using \<open>stream ?db = []\<close> by (auto simp: stream_def split: option.splits)
    ultimately show ?thesis by (auto simp: has_frame_def)
  next
    case (Cons f fs')
    then have eq: "stream ?db @ rest = head_bytes (frame_head_of f) @ (content_bytes f @ concat (map frame_bytes fs'))"
      and small: "content_length (frame_head_of f) < 2 ^ 32"
      using fs sendable_small [of f] by (simp_all add: frame_bytes_split frame_head_of_def)
    obtain db1 where db1: "decode_frame_head ops fresh ?db = (Ok (), db1)" "stream db1 = stream ?db" "db_wf db1"
      "next_frame_head db1 = (if FRAME_HEAD_LEN \<le> length (stream ?db) then Some (frame_head_of f) else None)"
      using decode_frame_head_spec [OF assms(1,2) small eq, of fresh] by blast
    have len: "length (frame_bytes f) = FRAME_HEAD_LEN + content_length (frame_head_of f)"
      using fs Cons sendable_content [of f] by (simp add: frame_bytes_split) (simp add: frame_head_of_def)
    have "length (stream db1) = FRAME_HEAD_LEN + readable_len db1" if "FRAME_HEAD_LEN \<le> length (stream ?db)"
      using that db1(4) readable_len_unread [OF db1(3)] by (simp add: stream_def)
    then show ?thesis using db1 len Cons by (auto simp: has_frame_def)
  qed
qed

text \<open>A chunk that is swapped in leaves room to write, when the reserve is at least the smallest slice that is written to.\<close>

lemma swap_buffer_room:
  assumes "db_wf db" "is_free sc other" "roomy (chunk other)" "8 \<le> encode_buf_min_free_space (db_config db)"
    and "swap_buffer sc other db = Ok (db', old)"
  shows "is_writeable db' \<and> db_config db' = db_config db"
proof -
  have "8 < length (chunk other)" using assms(3) by (simp add: roomy_def FRAME_HEAD_LEN_def)
  then show ?thesis using assms(2,4,5)
    by (auto simp: swap_buffer_def free_eq get_overflow_spec [OF assms(1)] Let_def is_writeable_def writeable_len_def lease_remaining_def
        split: if_splits rresult.splits option.splits)
qed

subsection \<open>Reading a frame\<close>

definition channel_ok :: "tcp_channel \<Rightarrow> bool" where
  "channel_ok ch \<longleftrightarrow> db_wf (input_buffer ch) \<and> roomy (chunk (db_buffer (input_buffer ch))) \<and>
     8 \<le> encode_buf_min_free_space (db_config (input_buffer ch))"

text \<open>The three things \<open>read_frame\<close> does before it decodes: look for a frame, receive, and swap in another chunk.\<close>

lemma looking:
  assumes "bytes_documented ops" "channel_ok ch" "has_frame ops fresh (input_buffer ch) = (h, db)"
  shows "sane ch \<Longrightarrow> (\<exists>b. h = Ok b) \<and> reads_to ch (ch\<lparr>input_buffer := db\<rparr>)"
    and "h = Ok b \<Longrightarrow> channel_ok (ch\<lparr>input_buffer := db\<rparr>) \<and> is_writeable db = is_writeable (input_buffer ch)"
    and "sane ch \<Longrightarrow> h = Ok True \<Longrightarrow> complete (ch\<lparr>input_buffer := db\<rparr>)"
proof -
  have wf: "db_wf (input_buffer ch)" using assms(2) by (simp add: channel_ok_def)
  have keep: "h = Ok b \<Longrightarrow> db_wf db \<and> db_config db = db_config (input_buffer ch) \<and> db_buffer db = db_buffer (input_buffer ch) \<and>
      write_offset db = write_offset (input_buffer ch)" for b
    using has_frame_keeps [OF wf] assms(3) by blast
  have id: "reads_to ch ch" using wf by (simp add: reads_to_def)
  show sane: "(\<exists>b. h = Ok b) \<and> reads_to ch (ch\<lparr>input_buffer := db\<rparr>)" if s: "sane ch"
  proof -
    obtain fs future where "peer_sends fs (arrived ch) future" using s by (auto simp: sane_def)
    from has_frame_sane [OF assms(1) wf this, of fresh] obtain b where "h = Ok b" "stream db = stream (input_buffer ch)"
      using assms(3) by auto
    then show ?thesis using reads_to_buffer [OF id] keep by simp
  qed
  show "complete (ch\<lparr>input_buffer := db\<rparr>)" if "sane ch" "h = Ok True"
    unfolding complete_def reads_to_arrived [OF sane [OF that(1), THEN conjunct2]]
  proof (intro allI impI)
    fix fs future assume fs: "peer_sends fs (arrived ch) future"
    show "\<exists>f fs'. fs = f # fs' \<and> length (frame_bytes f) \<le> length (stream (input_buffer (ch\<lparr>input_buffer := db\<rparr>)))"
      using has_frame_sane [OF assms(1) wf fs, of fresh] assms(3) that(2) by auto
  qed
  show "h = Ok b \<Longrightarrow> channel_ok (ch\<lparr>input_buffer := db\<rparr>) \<and> is_writeable db = is_writeable (input_buffer ch)"
    using keep assms(2) by (simp add: channel_ok_def is_writeable_def writeable_len_def)
qed

lemma receiving:
  assumes "channel_ok ch" "receive ch = (r, ch1)"
  shows "reads_to ch ch1" "channel_ok ch1" "r \<noteq> Panic"
    "is_writeable (input_buffer ch) \<Longrightarrow> r = Ok () \<or> read_weight (ch_stream ch1) < read_weight (ch_stream ch)"
    "read_weight (ch_stream ch1) \<le> read_weight (ch_stream ch)"
    "clean (ch_stream ch) \<Longrightarrow> clean (ch_stream ch1) \<and> (r = Ok () \<longrightarrow> read_outcomes (ch_stream ch1) = []) \<and>
      (\<forall>e. r = Err e \<longrightarrow> e = IoInvalidInput)"
proof -
  show "clean (ch_stream ch) \<Longrightarrow> clean (ch_stream ch1) \<and> (r = Ok () \<longrightarrow> read_outcomes (ch_stream ch1) = []) \<and>
      (\<forall>e. r = Err e \<longrightarrow> e = IoInvalidInput)"
    using receive_loop_clean assms(2) unfolding receive_def by blast
  have "db_wf (input_buffer ch)" using assms(1) by (simp add: channel_ok_def)
  from receive_loop_reads [OF this assms(2) [unfolded receive_def]]
  show "reads_to ch ch1" "channel_ok ch1" "r \<noteq> Panic"
    "is_writeable (input_buffer ch) \<Longrightarrow> r = Ok () \<or> read_weight (ch_stream ch1) < read_weight (ch_stream ch)"
    "read_weight (ch_stream ch1) \<le> read_weight (ch_stream ch)"
    using assms(1) by (auto simp: channel_ok_def reads_to_def roomy_def)
qed

lemma swapping:
  assumes "channel_ok ch" "pool_ok p" "get_buffer sc p = (Some b, p1)"
  shows "\<exists>db old. swap_buffer sc b (input_buffer ch) = Ok (db, old) \<and> pool_ok (return_buffer old p1) \<and>
    channel_ok (ch\<lparr>input_buffer := db\<rparr>) \<and> is_writeable db \<and> reads_to ch (ch\<lparr>input_buffer := db\<rparr>)"
proof -
  let ?db = "input_buffer ch"
  have ch: "db_wf ?db" "roomy (chunk (db_buffer ?db))" "8 \<le> encode_buf_min_free_space (db_config ?db)"
    using assms(1) by (simp_all add: channel_ok_def)
  have b: "is_free sc b" "roomy (chunk b)" "pool_ok p1" using get_buffer_ok [OF assms(2,3)] by (simp_all add: is_free_def)
  obtain db where sw: "swap_buffer sc b ?db = Ok (db, lock_chunk (db_buffer ?db))" "db_wf db" "stream db = stream ?db"
    "length (chunk (db_buffer db)) = length (chunk b)" using swap_buffer_spec [OF ch(1) b(1)] by blast
  have "pool_ok (return_buffer (lock_chunk (db_buffer ?db)) p1)"
    using b(3) ch(2) return_buffer_ok [of p1 "lock_chunk (db_buffer ?db)"] by (simp add: lock_chunk_def)
  moreover note swap_buffer_room [OF ch(1) b(1,2) ch(3) sw(1)]
  ultimately show ?thesis using sw b(2) ch by (simp add: channel_ok_def roomy_def reads_to_def)
qed

text \<open>
  Reading ends after at most as many repetitions as the socket has results and bytes, and
  then, unless it fails, looks for a frame in what has been received.
\<close>

definition finished :: "buf_ops \<Rightarrow> lock \<Rightarrow> (lock \<Rightarrow> nat) \<Rightarrow> buffer_pool \<Rightarrow> tcp_channel \<Rightarrow> (frame option, io_error) rresult \<times> buffer_pool \<times> tcp_channel \<Rightarrow> bool" where
  "finished ops fresh sc p ch = (\<lambda>(r, p', ch').
     sane ch \<longrightarrow> pool_ok p' \<and> exchanged p p' \<and> (\<exists>ch1. reads_to ch ch1 \<and> channel_ok ch1 \<and>
       ((\<exists>e. r = Err e \<and> (clean (ch_stream ch) \<longrightarrow> e = IoInvalidInput \<and> exhausted sc p')) \<and> ch' = ch1 \<or>
        decode_and_react ops fresh ch1 = (r, ch') \<and> (clean (ch_stream ch) \<longrightarrow> read_outcomes (ch_stream ch1) = [] \<or> complete ch1)) \<and>
       (clean (ch_stream ch) \<longrightarrow> clean (ch_stream ch1))))"

lemma finished_decode:
  "pool_ok p \<Longrightarrow> (sane ch \<Longrightarrow> reads_to ch ch1) \<Longrightarrow> channel_ok ch1 \<Longrightarrow> decode_and_react ops fresh ch1 = (r, ch') \<Longrightarrow>
     (sane ch \<Longrightarrow> clean (ch_stream ch) \<Longrightarrow> clean (ch_stream ch1) \<and> (read_outcomes (ch_stream ch1) = [] \<or> complete ch1)) \<Longrightarrow>
     finished ops fresh sc p ch (r, p, ch')"
  by (auto simp: finished_def)

lemma finished_err:
  "pool_ok p \<Longrightarrow> (sane ch \<Longrightarrow> reads_to ch ch1) \<Longrightarrow> channel_ok ch1 \<Longrightarrow> (clean (ch_stream ch) \<Longrightarrow> clean (ch_stream ch1) \<and> e = IoInvalidInput \<and> exhausted sc p) \<Longrightarrow>
     finished ops fresh sc p ch (Err e, p, ch1)"
  by (auto simp: finished_def)

lemma finished_later:
  assumes "sane ch \<Longrightarrow> reads_to ch ch1" "clean (ch_stream ch) \<Longrightarrow> clean (ch_stream ch1)" "finished ops fresh sc p1 ch1 (r, p', ch')" "exchanged p p1"
  shows "finished ops fresh sc p ch (r, p', ch')"
proof (cases "sane ch")
  case True
  then obtain ch2 where "pool_ok p'" "exchanged p p'" "reads_to ch1 ch2" "channel_ok ch2"
      "(\<exists>e. r = Err e \<and> (clean (ch_stream ch1) \<longrightarrow> e = IoInvalidInput \<and> exhausted sc p')) \<and> ch' = ch2 \<or>
        decode_and_react ops fresh ch2 = (r, ch') \<and> (clean (ch_stream ch1) \<longrightarrow> read_outcomes (ch_stream ch2) = [] \<or> complete ch2)"
      "clean (ch_stream ch1) \<longrightarrow> clean (ch_stream ch2)"
    using assms(3) reads_to_sane [OF assms(1) True] exchanged_trans [OF assms(4)] by (auto simp: finished_def)
  then show ?thesis using assms(1) [OF True] assms(2) reads_to_trans unfolding finished_def by blast
qed (simp add: finished_def)

lemma read_frame_after_full:
  assumes "bytes_documented ops" "pool_ok p" "channel_ok ch1" "has_frame ops fresh (input_buffer ch) = (Ok False, db)"
    and "receive (ch\<lparr>input_buffer := db\<rparr>) = (Err IoInvalidInput, ch1)"
  shows "(\<exists>x. read_frame (Suc n) ops fresh sc p ch = Some x \<and> finished ops fresh sc p ch1 x) \<or>
    (\<exists>p2 db2. read_frame (Suc n) ops fresh sc p ch = read_frame n ops fresh sc p2 (ch1\<lparr>input_buffer := db2\<rparr>) \<and>
       pool_ok p2 \<and> exchanged p p2 \<and> channel_ok (ch1\<lparr>input_buffer := db2\<rparr>) \<and> is_writeable db2 \<and> (sane ch1 \<longrightarrow> reads_to ch1 (ch1\<lparr>input_buffer := db2\<rparr>)))"
proof -
  obtain h1 db1 where h1: "has_frame ops fresh (input_buffer ch1) = (h1, db1)" by force
  note look = looking [OF assms(1,3) h1]
  obtain r ch' where d: "decode_and_react ops fresh (ch1\<lparr>input_buffer := db1\<rparr>) = (r, ch')" by force
  obtain b p1 where g: "get_buffer sc p = (b, p1)" by force
  have p1: "pool_ok p1" using get_buffer_ok [OF assms(2) g] by simp
  consider "h1 = Ok True" | "h1 = Ok False" | "\<not> (\<exists>b. h1 = Ok b)" by (cases h1) auto
  then show ?thesis
  proof cases
    case 1
    then have "read_frame (Suc n) ops fresh sc p ch = Some (r, p, ch')" using assms(4,5) h1 d by (simp add: Let_def)
    moreover have "finished ops fresh sc p ch1 (r, p, ch')" using finished_decode [OF assms(2) _ _ d] look(1) look(2) [OF 1] look(3) 1 by simp
    ultimately show ?thesis by blast
  next
    case 2
    then have ok: "channel_ok (ch1\<lparr>input_buffer := db1\<rparr>)" using look(2) [OF 2] by simp
    show ?thesis
    proof (cases b)
      case None
      then have "read_frame (Suc n) ops fresh sc p ch = Some (Err IoInvalidInput, p1, ch1\<lparr>input_buffer := db1\<rparr>)"
        using assms(4,5) h1 2 g by (simp add: Let_def)
      moreover have "finished ops fresh sc p ch1 (Err IoInvalidInput, p1, ch1\<lparr>input_buffer := db1\<rparr>)"
        using finished_err [OF p1 _ ok] look get_buffer_None [of sc p p1] g None by simp
      ultimately show ?thesis by blast
    next
      case (Some c)
      obtain db2 old where sw: "swap_buffer sc c db1 = Ok (db2, old)" "pool_ok (return_buffer old p1)"
        "channel_ok (ch1\<lparr>input_buffer := db2\<rparr>)" "is_writeable db2" "reads_to (ch1\<lparr>input_buffer := db1\<rparr>) (ch1\<lparr>input_buffer := db2\<rparr>)"
        using swapping [OF ok assms(2) g [unfolded Some]] by auto
      moreover have "read_frame (Suc n) ops fresh sc p ch = read_frame n ops fresh sc (return_buffer old p1) (ch1\<lparr>input_buffer := db2\<rparr>)"
        using assms(4,5) h1 2 g Some sw(1) by (simp add: Let_def)
      moreover have "exchanged p (return_buffer old p1)" by simp
      moreover have "sane ch1 \<Longrightarrow> reads_to ch1 (ch1\<lparr>input_buffer := db2\<rparr>)" using look(1) sw(5) reads_to_trans by blast
      ultimately show ?thesis by blast
    qed
  next
    case 3
    then have "\<exists>x. read_frame (Suc n) ops fresh sc p ch = Some x" using assms(4,5) h1 by (cases h1) (auto simp: Let_def)
    moreover have "\<not> sane ch1" using look 3 by blast
    ultimately show ?thesis by (auto simp: finished_def)
  qed
qed

lemma read_frame_reads:
  assumes "bytes_documented ops"
  shows "pool_ok p \<Longrightarrow> channel_ok ch \<Longrightarrow>
    read_weight (ch_stream ch) + (if is_writeable (input_buffer ch) then 0 else 1) < n \<Longrightarrow>
    \<exists>x. read_frame n ops fresh sc p ch = Some x \<and> finished ops fresh sc p ch x"
proof (induction n arbitrary: p ch)
  case (Suc n)
  obtain h db where h: "has_frame ops fresh (input_buffer ch) = (h, db)" by force
  let ?ch0 = "ch\<lparr>input_buffer := db\<rparr>"
  note look = looking [OF assms Suc.prems(2) h]
  obtain r1 ch1 where rc: "receive ?ch0 = (r1, ch1)" by force
  consider "h = Ok True" | "h = Ok False" | "\<not> (\<exists>b. h = Ok b)" by (cases h) auto
  then show ?case
  proof cases
    case 1
    obtain r ch' where d: "decode_and_react ops fresh ?ch0 = (r, ch')" by force
    then have "read_frame (Suc n) ops fresh sc p ch = Some (r, p, ch')" using h 1 by simp
    moreover have "finished ops fresh sc p ch (r, p, ch')" using finished_decode [OF Suc.prems(1) _ _ d] look(1) look(2) [OF 1] look(3) 1 by simp
    ultimately show ?thesis by blast
  next
    case 2
    have ok0: "channel_ok ?ch0" "is_writeable db = is_writeable (input_buffer ch)" using look(2) [OF 2] by simp_all
    note rcv = receiving [OF ok0(1) rc]
    have r1: "sane ch \<Longrightarrow> reads_to ch ch1" using look(1) rcv(1) reads_to_trans by blast
    obtain r ch' where d: "decode_and_react ops fresh ch1 = (r, ch')" by force
    consider "r1 = Ok ()" | e where "r1 = Err e" "e \<noteq> IoInvalidInput" | "r1 = Err IoInvalidInput"
      using rcv(3) by (cases r1) auto
    then show ?thesis
    proof cases
      case 1
      then have "read_frame (Suc n) ops fresh sc p ch = Some (r, p, ch')" using h 2 rc d by (simp add: Let_def)
      then show ?thesis using finished_decode [OF Suc.prems(1) r1 rcv(2) d] rcv(6) 1 by auto
    next
      case (2 e)
      then have "read_frame (Suc n) ops fresh sc p ch = Some (Err e, p, ch1)" using h \<open>h = Ok False\<close> rc by (simp add: Let_def)
      moreover have "finished ops fresh sc p ch (Err e, p, ch1)"
        by (rule finished_err [OF Suc.prems(1) r1 rcv(2)]) (use rcv(6) 2 in auto)
      ultimately show ?thesis by blast
    next
      case 3
      then have w: "read_weight (ch_stream ch1) < n" using rcv(4,5) Suc.prems(3) ok0(2) by (auto split: if_splits)
      from read_frame_after_full [OF assms Suc.prems(1) rcv(2) h [unfolded 2] rc [unfolded 3], of n sc]
      show ?thesis
      proof (elim disjE exE conjE)
        fix x assume "read_frame (Suc n) ops fresh sc p ch = Some x" "finished ops fresh sc p ch1 x"
        then show ?thesis using finished_later [OF r1] rcv(6) by (cases x) auto
      next
        fix p2 db2 assume rec: "read_frame (Suc n) ops fresh sc p ch = read_frame n ops fresh sc p2 (ch1\<lparr>input_buffer := db2\<rparr>)"
          and p2: "pool_ok p2" "channel_ok (ch1\<lparr>input_buffer := db2\<rparr>)" "is_writeable db2" "exchanged p p2"
          and r2: "sane ch1 \<longrightarrow> reads_to ch1 (ch1\<lparr>input_buffer := db2\<rparr>)"
        have "\<exists>x. read_frame n ops fresh sc p2 (ch1\<lparr>input_buffer := db2\<rparr>) = Some x \<and> finished ops fresh sc p2 (ch1\<lparr>input_buffer := db2\<rparr>) x"
          using Suc.IH [OF p2(1,2)] w p2(3) by simp
        moreover have "sane ch \<Longrightarrow> reads_to ch (ch1\<lparr>input_buffer := db2\<rparr>)"
          using r1 r2 reads_to_trans reads_to_sane by blast
        ultimately show ?thesis using rec finished_later [of ch "ch1\<lparr>input_buffer := db2\<rparr>", OF _ _ _ p2(4)] rcv(6) by fastforce
      qed
    qed
  next
    case 3
    then have "\<exists>x. read_frame (Suc n) ops fresh sc p ch = Some x" using h by (cases h) (auto simp: Let_def)
    moreover have "\<not> sane ch" using look 3 by blast
    ultimately show ?thesis by (auto simp: finished_def)
  qed
qed simp

text \<open>Sending a control frame touches the queue and the socket only.\<close>

lemma send_frame_keeps:
  assumes "send_frame ops f ch = Ok ch'"
  shows "ch' = ch\<lparr>outbound_queue := outbound_queue ch', ch_stream := ch_stream ch'\<rparr>"
proof -
  obtain bs where "encode_control ops f = Ok bs" using assms by (auto simp: send_frame_def rbind_eq_Ok)
  moreover obtain r q str where "drain_loop 0 0 (outbound_queue ch @ [SF_Bytes bs]) (ch_stream ch) = (r, q, str)" by (metis prod_cases3)
  ultimately show ?thesis using assms
    by (cases r) (auto simp: send_frame_def try_drain_def enqueue_serialised_def)
qed

lemma send_frame_fields:
  assumes "send_frame ops f ch = Ok ch'"
  shows "input_buffer ch' = input_buffer ch" "ch_state ch' = ch_state ch" "ch_token ch' = ch_token ch"
    "ch_address ch' = ch_address ch" "ch_messages ch' = ch_messages ch" "own_addr ch' = own_addr ch"
  by (subst send_frame_keeps [OF assms]; simp)+

lemma ch_handle_ack_fields:
  "ch_handle_ack ch = Ok ch' \<Longrightarrow> input_buffer ch' = input_buffer ch \<and> ch_token ch' = ch_token ch \<and> ch_address ch' = ch_address ch"
  by (auto simp: ch_handle_ack_def rbind_eq_Ok split: channel_state.splits)

lemma ch_handle_bye_fields:
  "ch_handle_bye ops ch = Ok ch' \<Longrightarrow> input_buffer ch' = input_buffer ch \<and> ch_token ch' = ch_token ch \<and> ch_address ch' = ch_address ch"
  by (auto simp: ch_handle_bye_def send_bye_def rbind_eq_Ok send_frame_fields split: channel_state.splits)

lemma send_frame_arriving: "send_frame ops f ch = Ok ch' \<Longrightarrow> arriving (ch_stream ch') = arriving (ch_stream ch)"
proof -
  assume a: "send_frame ops f ch = Ok ch'"
  then obtain bs where "encode_control ops f = Ok bs" by (auto simp: send_frame_def rbind_eq_Ok)
  moreover obtain r q str where d: "drain_loop 0 0 (outbound_queue ch @ [SF_Bytes bs]) (ch_stream ch) = (r, q, str)" by (metis prod_cases3)
  ultimately show ?thesis using a drain_loop_keeps [OF d]
    by (cases r) (auto simp: send_frame_def try_drain_def enqueue_serialised_def arriving_def)
qed

lemma decode_and_react_arriving:
  "decode_and_react ops fresh ch = (r, ch') \<Longrightarrow> arriving (ch_stream ch') = arriving (ch_stream ch)"
  by (auto simp: decode_and_react_def ch_decode_def Let_def ch_handle_ack_def ch_handle_bye_def send_bye_def rbind_eq_Ok
      split: prod.splits rresult.splits frame.splits framing_error.splits channel_state.splits if_splits dest!: send_frame_arriving)

lemma decode_and_react_sane:
  assumes "bytes_documented ops" "channel_ok ch" "list_all sendable fs" "stream (input_buffer ch) @ future = concat (map frame_bytes fs)"
    and "decode_and_react ops fresh ch = (r, ch')"
  shows "(r = Ok None \<and> stream (input_buffer ch') = stream (input_buffer ch) \<and>
      (\<forall>f fs'. fs = f # fs' \<longrightarrow> length (stream (input_buffer ch)) < length (frame_bytes f))) \<or>
    (\<exists>f fs' g. fs = f # fs' \<and> same_frame f g \<and> (r = Ok (Some g) \<or> r = Panic \<and> (f = Ack \<or> f = Bye)) \<and>
       stream (input_buffer ch') @ future = concat (map frame_bytes fs'))"
proof -
  have wf: "db_wf (input_buffer ch)" using assms(2) by (simp add: channel_ok_def)
  show ?thesis
  proof (cases fs)
    case Nil
    then have "stream (input_buffer ch) = []" using assms(4) by simp
    then have "get_frame ops fresh (input_buffer ch) = (Err NoData, input_buffer ch)" using get_frame_empty [OF wf] by blast
    then show ?thesis using assms(5) Nil by (auto simp: decode_and_react_def ch_decode_def)
  next
    case (Cons f fs')
    have f: "sendable f" "stream (input_buffer ch) @ future = frame_bytes f @ concat (map frame_bytes fs')"
      using assms(3,4) Cons by simp_all
    note get = get_frame_spec [OF assms(1) wf f, of fresh]
    show ?thesis
    proof (cases "length (frame_bytes f) \<le> length (stream (input_buffer ch))")
      case False
      then obtain db where "get_frame ops fresh (input_buffer ch) = (Err NoData, db)" "stream db = stream (input_buffer ch)"
        using get by auto
      then show ?thesis using assms(5) False Cons by (auto simp: decode_and_react_def ch_decode_def)
    next
      case True
      then obtain g db where g: "get_frame ops fresh (input_buffer ch) = (Ok g, db)" "same_frame f g"
        "stream db @ future = concat (map frame_bytes fs')" using get by auto
      have "input_buffer ch' = db \<and> (r = Ok (Some g) \<or> r = Panic \<and> (g = Ack \<or> g = Bye))"
        using assms(5) g(1)
        by (auto simp: decode_and_react_def ch_decode_def Let_def split: frame.splits rresult.splits
            dest: ch_handle_ack_fields ch_handle_bye_fields)
      then show ?thesis using g Cons by (cases f; cases g) auto
    qed
  qed
qed

text \<open>What is left of a channel after a data frame has been taken from it.\<close>

lemma decode_frame_head_keeps:
  "decode_frame_head ops fresh db = (r, db') \<Longrightarrow>
     db_config db' = db_config db \<and> db_buffer db' = db_buffer db \<and> write_offset db' = write_offset db"
  by (auto simp: decode_frame_head_def split: if_splits rresult.splits prod.splits dest: read_chunk_lease_keeps)

lemma get_frame_keeps:
  "get_frame ops fresh db = (r, db') \<Longrightarrow>
     db_config db' = db_config db \<and> db_buffer db' = db_buffer db \<and> write_offset db' = write_offset db"
  by (auto simp: get_frame_def Let_def split: prod.splits rresult.splits option.splits if_splits
      dest!: decode_frame_head_keeps read_chunk_lease_keeps)

definition took_data :: "tcp_channel \<Rightarrow> tcp_channel \<Rightarrow> bool" where
  "took_data ch ch' \<longleftrightarrow> channel_ok ch' \<and> ch_state ch' = ch_state ch \<and> ch_token ch' = ch_token ch \<and> ch_address ch' = ch_address ch \<and>
     outbound_queue ch' = outbound_queue ch \<and> read_weight (ch_stream ch') \<le> read_weight (ch_stream ch) \<and>
     (clean (ch_stream ch) \<longrightarrow> clean (ch_stream ch'))"

lemma reads_to_fields:
  assumes "reads_to ch ch1"
  shows "ch_state ch1 = ch_state ch" "ch_token ch1 = ch_token ch" "ch_address ch1 = ch_address ch" "outbound_queue ch1 = outbound_queue ch"
  using assms by (cases ch; cases ch1; auto simp: reads_to_def)+

lemma decode_data_keeps:
  assumes "bytes_documented ops" "reads_to ch ch1" "channel_ok ch1" "clean (ch_stream ch) \<Longrightarrow> clean (ch_stream ch1)"
    and "list_all sendable fs" "stream (input_buffer ch1) @ future = concat (map frame_bytes fs)"
    and "decode_and_react ops fresh ch1 = (Ok (Some (DataFrame q)), ch')"
  shows "took_data ch ch'"
proof -
  have wf: "db_wf (input_buffer ch1)" using assms(3) by (simp add: channel_ok_def)
  obtain db where g: "get_frame ops fresh (input_buffer ch1) = (Ok (DataFrame q), db)"
    "ch' = ch1\<lparr>input_buffer := db, ch_messages := ch_messages ch1 + 1\<rparr>"
    using assms(7) by (auto simp: decode_and_react_def ch_decode_def Let_def split: prod.splits rresult.splits frame.splits framing_error.splits if_splits)
  have "db_wf db"
  proof (cases fs)
    case Nil
    then show ?thesis using get_frame_empty [OF wf] g(1) assms(6) by auto
  next
    case (Cons f fs')
    then have "sendable f" "stream (input_buffer ch1) @ future = frame_bytes f @ concat (map frame_bytes fs')" using assms(5,6) by simp_all
    from get_frame_spec [OF assms(1) wf this, of fresh] g(1) show ?thesis by (auto split: if_splits)
  qed
  then show ?thesis using g(2) get_frame_keeps [OF g(1)] assms(2-4) reads_to_fields [OF assms(2)]
    by (auto simp: took_data_def channel_ok_def reads_to_def)
qed

lemma read_frame_result:
  assumes "bytes_documented ops" "pool_ok p" "channel_ok ch" "peer_sends fs (arrived ch) future" "read_weight (ch_stream ch) + 1 < n"
  shows "\<exists>r p' ch'. read_frame n ops fresh sc p ch = Some (r, p', ch') \<and> pool_ok p' \<and> exchanged p p' \<and>
    ((r = Ok None \<and> (clean (ch_stream ch) \<longrightarrow> (\<forall>f fs'. fs = f # fs' \<longrightarrow> length (arrived ch) < length (frame_bytes f))) \<or>
      (\<exists>e. r = Err e \<and> (clean (ch_stream ch) \<longrightarrow> e = IoInvalidInput \<and> exhausted sc p'))) \<and> arrived ch' = arrived ch \<or>
     (\<exists>f fs' g. fs = f # fs' \<and> same_frame f g \<and> (r = Ok (Some g) \<or> r = Panic \<and> (f = Ack \<or> f = Bye)) \<and>
        peer_sends fs' (arrived ch') future \<and> (is_data g \<longrightarrow> took_data ch ch')))"
proof -
  have sane: "sane ch" using assms(4) by (auto simp: sane_def)
  have "read_weight (ch_stream ch) + (if is_writeable (input_buffer ch) then 0 else 1) < n" using assms(5) by simp
  from read_frame_reads [OF assms(1-3) this, of fresh sc] obtain r p' ch' where
    x: "read_frame n ops fresh sc p ch = Some (r, p', ch')" "finished ops fresh sc p ch (r, p', ch')" by auto
  obtain ch1 where ch1: "pool_ok p' \<and> exchanged p p'" "reads_to ch ch1" "channel_ok ch1"
    "(\<exists>e. r = Err e \<and> (clean (ch_stream ch) \<longrightarrow> e = IoInvalidInput \<and> exhausted sc p')) \<and> ch' = ch1 \<or> decode_and_react ops fresh ch1 = (r, ch') \<and>
       (clean (ch_stream ch) \<longrightarrow> read_outcomes (ch_stream ch1) = [] \<or> complete ch1)"
    "clean (ch_stream ch) \<Longrightarrow> clean (ch_stream ch1)"
    using x(2) sane by (auto simp: finished_def)
  note arr = reads_to_arrived [OF ch1(2)]
  show ?thesis
  proof (cases "(\<exists>e. r = Err e \<and> (clean (ch_stream ch) \<longrightarrow> e = IoInvalidInput \<and> exhausted sc p')) \<and> ch' = ch1")
    case True
    then show ?thesis using x(1) ch1(1) arr by auto
  next
    case False
    then have d: "decode_and_react ops fresh ch1 = (r, ch')"
      and done_reading: "clean (ch_stream ch) \<Longrightarrow> read_outcomes (ch_stream ch1) = [] \<or> complete ch1" using ch1(4) by blast+
    have fs: "list_all sendable fs" "stream (input_buffer ch1) @ (arriving (ch_stream ch1) @ future) = concat (map frame_bytes fs)"
      using assms(4) arg_cong [OF arr, of "\<lambda>bs. bs @ future"] by (simp_all add: peer_sends_def arrived_def)
    note st = decode_and_react_arriving [OF d]
    from decode_and_react_sane [OF assms(1) ch1(3) fs d]
    consider "r = Ok None" "stream (input_buffer ch') = stream (input_buffer ch1)"
        "\<forall>f fs'. fs = f # fs' \<longrightarrow> length (stream (input_buffer ch1)) < length (frame_bytes f)"
      | f fs' g where "fs = f # fs'" "same_frame f g" "r = Ok (Some g) \<or> r = Panic \<and> (f = Ack \<or> f = Bye)"
        "stream (input_buffer ch') @ arriving (ch_stream ch1) @ future = concat (map frame_bytes fs')" by blast
    then show ?thesis
    proof cases
      case 1
      have "length (arrived ch) < length (frame_bytes f)" if "clean (ch_stream ch)" "fs = f # fs'" for f fs'
        using done_reading [OF that(1)] 1(3) that(2) assms(4) arr by (auto simp: complete_def arrived_def arriving_def)
      then show ?thesis using 1 x(1) ch1(1) arr st by (simp add: arrived_def)
    next
      case 2
      have "peer_sends fs' (arrived ch') future" using 2(1,4) st assms(4) by (auto simp: peer_sends_def arrived_def)
      moreover have "took_data ch ch'" if "is_data g"
      proof -
        have "\<exists>q. g = DataFrame q" "r = Ok (Some g)" using that 2(2,3) by (cases g; cases f; auto)+
        then show ?thesis using decode_data_keeps [OF assms(1) ch1(2,3,5) fs] d by auto
      qed
      ultimately show ?thesis using 2 x(1) ch1(1) by blast
    qed
  qed
qed

subsection \<open>Properties\<close>


definition peer_hello :: frame where
  "peer_hello = Hello \<lparr>sock_ip = V4 5, sock_port = 9\<rparr>"

definition split_channel :: tcp_channel where
  "split_channel = channel_new
     \<lparr>write_outcomes = [], read_outcomes = [Received (take 3 (frame_bytes peer_hello)), Received (drop 3 (frame_bytes peer_hello) @ frame_bytes Bye)],
      accepted = [], is_shutdown = False, nodelay_refused = False, pending_error = None\<rparr>
     3 \<lparr>sock_ip = V4 1, sock_port = 9\<rparr> (from_chunk (replicate 80 0) 0) Initialising \<lparr>sock_ip = V4 2, sock_port = 9\<rparr>
     buffer_config_default True"

definition small_pool :: buffer_pool where
  "small_pool = \<lparr>pool = [], pool_size = 1, alloc_chunk = replicate 80 0, next_lock = 1, pool_chunk_size = 80, max_pool_size = 2\<rparr>"


text \<open>
  With a reserve smaller than the smallest slice that is written to, \<open>read_frame\<close> may swap chunks
  for ever: a chunk with exactly eight bytes left counts as full, and when these exceed the reserve, the
  unfinished frame is copied into the next chunk, which is then full in the same way. No fuel is enough.
\<close>

definition tight_config :: buffer_config where
  "tight_config = \<lparr>chunk_size = 128, initial_chunk_count = 2, max_chunk_count = 2, encode_buf_min_free_space = 4\<rparr>"

definition full_buffer :: "lock \<Rightarrow> u8 list \<Rightarrow> decode_buffer" where
  "full_buffer l body = \<lparr>db_buffer = \<lparr>chunk = body @ replicate 8 0, ref_count = l, locked = False\<rparr>, write_offset = 120,
     read_offset = 0, next_frame_head = Some \<lparr>head_type = FT_Data, content_length = 1000\<rparr>, chain_head = None, db_config = tight_config\<rparr>"

definition spare_pool :: "lock \<Rightarrow> u8 list \<Rightarrow> buffer_pool" where
  "spare_pool l bs = \<lparr>pool = [\<lparr>chunk = bs, ref_count = l, locked = True\<rparr>], pool_size = 2, alloc_chunk = replicate 128 0,
     next_lock = 2, pool_chunk_size = 128, max_pool_size = 2\<rparr>"

theorem small_reserve_loops_forever:
  assumes "length body = 120" "length bs = 128" "drop 120 bs = replicate 8 0" "input_buffer ch = full_buffer l body"
  shows "read_frame n ops fresh (\<lambda>_. 1) (spare_pool k bs) ch = None"
  using assms
proof (induction n arbitrary: l k bs ch)
  case (Suc n)
  have db: "input_buffer ch = full_buffer l body" using Suc.prems by simp
  have hf: "has_frame ops fresh (full_buffer l body) = (Ok False, full_buffer l body)"
    by (simp add: has_frame_def decode_frame_head_def full_buffer_def readable_len_def)
  have rc: "receive (ch\<lparr>input_buffer := full_buffer l body\<rparr>) = (Err IoInvalidInput, ch\<lparr>input_buffer := full_buffer l body\<rparr>)"
    using Suc.prems(1) by (simp add: receive_def receive_loop.simps get_writeable_def is_writeable_def writeable_len_def full_buffer_def)
  have g: "get_buffer (\<lambda>_. 1) (spare_pool k bs) = (Some \<lparr>chunk = bs, ref_count = k, locked = False\<rparr>, (spare_pool k bs)\<lparr>pool := []\<rparr>)"
    by (simp add: get_buffer_def try_reclaim_def spare_pool_def free_def)
  have sw: "swap_buffer (\<lambda>_. 1) \<lparr>chunk = bs, ref_count = k, locked = False\<rparr> (full_buffer l body) =
      Ok (full_buffer k body, \<lparr>chunk = body @ replicate 8 0, ref_count = l, locked = True\<rparr>)"
    using Suc.prems
    by (simp add: swap_buffer_def free_def get_overflow_def get_lease_def get_slice_def full_buffer_def writeable_len_def tight_config_def
        lease_remaining_def lock_chunk_def Let_def)
  have rb: "return_buffer \<lparr>chunk = body @ replicate 8 0, ref_count = l, locked = True\<rparr> ((spare_pool k bs)\<lparr>pool := []\<rparr>) =
      spare_pool l (body @ replicate 8 0)"
    by (simp add: return_buffer_def spare_pool_def lock_chunk_def)
  have "read_frame (Suc n) ops fresh (\<lambda>_. 1) (spare_pool k bs) ch =
      read_frame n ops fresh (\<lambda>_. 1) (spare_pool l (body @ replicate 8 0)) (ch\<lparr>input_buffer := full_buffer k body\<rparr>)"
    using db hf rc g sw rb by (simp add: Let_def)
  then show ?case using Suc.IH [of "body @ replicate 8 0" "ch\<lparr>input_buffer := full_buffer k body\<rparr>" k l] Suc.prems(1) by simp
qed simp

end
