(* ===== verification/Udp_State.thy ===== *)
theory Udp_State
  imports Net_Messages Tcp_Reading
begin

section \<open>The UDP socket (\<open>network/src/transport/udp_state.rs\<close>, \<open>core/src/messaging/serialised.rs\<close>)\<close>

text \<open>
  Sending frames as datagrams and decoding received datagrams into messages. What the socket answers to
  the next calls is part of the state, as a list of outcomes (an exhausted list would block), and so
  are the datagrams it has sent. A received datagram that does not fit is cut off, as the
  operating system does it.
\<close>

datatype send_outcome = SentTo nat | SendFails io_error
datatype recv_outcome = Datagram "u8 list" socket_addr | RecvFails io_error

record udp_socket =
  send_outcomes :: "send_outcome list"
  recv_outcomes :: "recv_outcome list"
  datagrams :: "(socket_addr \<times> u8 list) list"

definition send_to :: "u8 list \<Rightarrow> socket_addr \<Rightarrow> udp_socket \<Rightarrow> (nat, io_error) rresult \<times> udp_socket" where
  "send_to bs addr s =
     (case send_outcomes s of
        [] \<Rightarrow> (Err IoWouldBlock, s)
      | SentTo n # os \<Rightarrow> (Ok n, s\<lparr>send_outcomes := os, datagrams := datagrams s @ [(addr, bs)]\<rparr>)
      | SendFails e # os \<Rightarrow> (Err e, s\<lparr>send_outcomes := os\<rparr>))"

definition recv_from :: "nat \<Rightarrow> udp_socket \<Rightarrow> (u8 list \<times> socket_addr, io_error) rresult \<times> udp_socket" where
  "recv_from room s =
     (case recv_outcomes s of
        [] \<Rightarrow> (Err IoWouldBlock, s)
      | Datagram bs addr # os \<Rightarrow> (Ok (take room bs, addr), s\<lparr>recv_outcomes := os\<rparr>)
      | RecvFails e # os \<Rightarrow> (Err e, s\<lparr>recv_outcomes := os\<rparr>))"

definition MAX_PACKET_SIZE :: nat where "MAX_PACKET_SIZE = 65535"

record 'v udp_state =
  us_socket :: udp_socket
  us_outbound :: "(socket_addr \<times> serialised_frame) list"
  us_input :: decode_buffer
  incoming_messages :: "'v net_message list"
  max_packet_size :: nat

definition udp_state_new :: "udp_socket \<Rightarrow> buffer_chunk \<Rightarrow> buffer_config \<Rightarrow> 'v udp_state" where
  "udp_state_new s b cfg =
     \<lparr>us_socket = s, us_outbound = [], us_input = decode_buffer_new b cfg, incoming_messages = [],
      max_packet_size = min (chunk_size cfg) MAX_PACKET_SIZE\<rparr>"

definition pending_messages :: "'v udp_state \<Rightarrow> nat" where
  "pending_messages u = length (us_outbound u)"

definition udp_enqueue :: "socket_addr \<Rightarrow> serialised_frame \<Rightarrow> 'v udp_state \<Rightarrow> 'v udp_state" where
  "udp_enqueue addr f u = u\<lparr>us_outbound := us_outbound u @ [(addr, f)]\<rparr>"

subsection \<open>Sending\<close>

text \<open>
  A chained frame is copied into one slice of bytes, with \<open>Buf::copy_to_bytes\<close> of the crate
  \<open>bytes\<close>, which reads chunk after chunk; a copy that does not end is counted with the panics.
\<close>

definition make_contiguous :: "serialised_frame \<Rightarrow> (serialised_frame, unit) rresult" where
  "make_contiguous f =
     rbind (frame_chunk f) (\<lambda>c.
       if frame_remaining f > length c then
         (case f of
            SF_Bytes _ \<Rightarrow> Panic
          | _ \<Rightarrow>
              (case buf_drain frame_remaining frame_chunk frame_advance f [] of
                 Some r \<Rightarrow> rbind r (\<lambda>bs. Ok (SF_Bytes bs))
               | None \<Rightarrow> Panic))
       else Ok f)"

text \<open>The loop of \<open>try_write\<close>; every repetition takes an outcome from the socket.\<close>

function udp_write_loop :: "nat \<Rightarrow> nat \<Rightarrow> (socket_addr \<times> serialised_frame) list \<Rightarrow> udp_socket \<Rightarrow>
    (nat, io_error) rresult \<times> (socket_addr \<times> serialised_frame) list \<times> udp_socket" where
  "udp_write_loop interrupts sent_bytes q s =
     (case q of
        [] \<Rightarrow> (Ok sent_bytes, [], s)
      | (addr, f0) # rest \<Rightarrow>
          (case rbind (make_contiguous f0) (\<lambda>f. rbind (frame_chunk f) (\<lambda>c. Ok (f, c))) of
             Ok (f, c) \<Rightarrow>
               (case send_to c addr s of
                  (Ok n, s') \<Rightarrow>
                    if n = frame_remaining f then udp_write_loop interrupts (sent_bytes + n) rest s'
                    else (Panic, rest, s')
                | (Err e, s') \<Rightarrow>
                    if e = IoWouldBlock then (Ok sent_bytes, (addr, f) # rest, s')
                    else if e = IoInterrupted then
                      if interrupts + 1 \<ge> MAX_INTERRUPTS then (Err e, (addr, f) # rest, s')
                      else udp_write_loop (interrupts + 1) sent_bytes ((addr, f) # rest) s'
                    else (Err e, (addr, f) # rest, s')
                | (Panic, s') \<Rightarrow> (Panic, rest, s'))
           | _ \<Rightarrow> (Panic, rest, s)))"
  by pat_completeness auto
termination
  by (relation "measure (\<lambda>(_, _, _, s). length (send_outcomes s))")
    (auto simp: send_to_def split: list.splits send_outcome.splits)

declare udp_write_loop.simps [simp del]

definition udp_try_write :: "'v udp_state \<Rightarrow> (nat, io_error) rresult \<times> 'v udp_state" where
  "udp_try_write u =
     (let (r, q, s) = udp_write_loop 0 0 (us_outbound u) (us_socket u)
      in (r, u\<lparr>us_outbound := q, us_socket := s\<rparr>))"

subsection \<open>Receiving\<close>

definition udp_swap_buffer :: "(lock \<Rightarrow> nat) \<Rightarrow> buffer_pool \<Rightarrow> 'v udp_state \<Rightarrow> (buffer_pool \<times> 'v udp_state, io_error) rresult" where
  "udp_swap_buffer sc p u =
     (case get_buffer sc p of
        (None, p') \<Rightarrow> Ok (p', u)
      | (Some b, p') \<Rightarrow>
          (case swap_buffer sc b (us_input u) of
             Ok (db, old) \<Rightarrow> Ok (return_buffer old p', u\<lparr>us_input := db\<rparr>)
           | _ \<Rightarrow> Panic))"

text \<open>One frame is taken from the buffer per datagram; anything but a readable data frame is logged and dropped.\<close>

definition decode_message :: "bool \<Rightarrow> buf_ops \<Rightarrow> lock \<Rightarrow> 'v udp_state \<Rightarrow> ('v udp_state, io_error) rresult" where
  "decode_message dbg ops fresh u =
     (case get_frame ops fresh (us_input u) of
        (Ok (DataFrame payload), db) \<Rightarrow>
          (case deserialise_chunk_lease dbg ops fresh payload of
             Ok m \<Rightarrow> Ok (u\<lparr>us_input := db, incoming_messages := incoming_messages u @ [m]\<rparr>)
           | Err _ \<Rightarrow> Ok (u\<lparr>us_input := db\<rparr>)
           | Panic \<Rightarrow> Panic)
      | (Ok _, db) \<Rightarrow> Ok (u\<lparr>us_input := db\<rparr>)
      | (Err _, db) \<Rightarrow> Ok (u\<lparr>us_input := db\<rparr>)
      | (Panic, db) \<Rightarrow> Panic)"

text \<open>Before each read the buffer must have room for the largest packet.\<close>

definition udp_make_room :: "(lock \<Rightarrow> nat) \<Rightarrow> buffer_pool \<Rightarrow> 'v udp_state \<Rightarrow> (buffer_pool \<times> 'v udp_state \<times> bool, io_error) rresult" where
  "udp_make_room sc p u =
     (if writeable_len (us_input u) < max_packet_size u then
        rbind (udp_swap_buffer sc p u) (\<lambda>(p', u'). Ok (p', u', \<not> writeable_len (us_input u') < max_packet_size u'))
      else Ok (p, u, True))"

text \<open>The loop ends, since every repetition takes a result of the socket.\<close>

lemma make_room_socket: "udp_make_room sc p u = Ok (p1, u1, room) \<Longrightarrow> us_socket u1 = us_socket u"
  by (auto simp: udp_make_room_def udp_swap_buffer_def rbind_eq_Ok split: if_splits prod.splits option.splits rresult.splits)

lemma decode_message_socket: "decode_message dbg ops fresh u = Ok u' \<Longrightarrow> us_socket u' = us_socket u \<and> max_packet_size u' = max_packet_size u"
  by (auto simp: decode_message_def split: prod.splits rresult.splits frame.splits)

lemma recv_consumes:
  "(Ok x, s') = recv_from room s \<Longrightarrow> length (recv_outcomes s') < length (recv_outcomes s)"
  "(Err e, s') = recv_from room s \<Longrightarrow> e \<noteq> IoWouldBlock \<Longrightarrow> length (recv_outcomes s') < length (recv_outcomes s)"
  by (auto simp: recv_from_def split: list.splits recv_outcome.splits)

function udp_read_loop ::
    "bool \<Rightarrow> buf_ops \<Rightarrow> lock \<Rightarrow> (lock \<Rightarrow> nat) \<Rightarrow> nat \<Rightarrow> buffer_pool \<Rightarrow> 'v udp_state \<Rightarrow>
     (unit, io_error) rresult \<times> buffer_pool \<times> 'v udp_state" where
  "udp_read_loop dbg ops fresh sc interrupts p u =
     (case udp_make_room sc p u of
        Ok (p1, u1, room) \<Rightarrow>
          if \<not> room then (Err IoInvalidInput, p1, u1)
          else
            (case get_writeable (us_input u1) of
               Ok (Some (from, to)) \<Rightarrow>
                 (case recv_from (to - from) (us_socket u1) of
                    (Ok (bs, addr), s') \<Rightarrow>
                      if bs = [] then (Ok (), p1, u1\<lparr>us_socket := s'\<rparr>)
                      else
                        (case decode_message dbg ops fresh (u1\<lparr>us_socket := s', us_input := write_bytes bs (us_input u1)\<rparr>) of
                           Ok u2 \<Rightarrow> udp_read_loop dbg ops fresh sc interrupts p1 u2
                         | _ \<Rightarrow> (Panic, p1, u1\<lparr>us_socket := s'\<rparr>))
                  | (Err e, s') \<Rightarrow>
                      if e = IoWouldBlock then (Ok (), p1, u1\<lparr>us_socket := s'\<rparr>)
                      else if e = IoInterrupted then
                        if interrupts + 1 \<ge> MAX_INTERRUPTS then (Err e, p1, u1\<lparr>us_socket := s'\<rparr>)
                        else udp_read_loop dbg ops fresh sc (interrupts + 1) p1 (u1\<lparr>us_socket := s'\<rparr>)
                      else (Err e, p1, u1\<lparr>us_socket := s'\<rparr>)
                  | (Panic, s') \<Rightarrow> (Panic, p1, u1\<lparr>us_socket := s'\<rparr>))
             | Ok None \<Rightarrow> (Err IoInvalidInput, p1, u1)
             | _ \<Rightarrow> (Panic, p1, u1))
      | _ \<Rightarrow> (Panic, p, u))"
  by pat_completeness auto

termination
  by (relation "measure (\<lambda>(_, _, _, _, _, _, u). length (recv_outcomes (us_socket u)))")
    (auto dest!: make_room_socket recv_consumes decode_message_socket)

declare udp_read_loop.simps [simp del]

definition udp_try_read ::
    "bool \<Rightarrow> buf_ops \<Rightarrow> lock \<Rightarrow> (lock \<Rightarrow> nat) \<Rightarrow> buffer_pool \<Rightarrow> 'v udp_state \<Rightarrow>
     (unit, io_error) rresult \<times> buffer_pool \<times> 'v udp_state" where
  "udp_try_read dbg ops fresh sc p u = udp_read_loop dbg ops fresh sc 0 p u"


subsection \<open>Whole frames in, whole frames out\<close>

text \<open>Making a frame contiguous keeps its bytes and leaves them in one slice.\<close>

lemma make_contiguous_spec:
  assumes "sf_pending f"
  shows "\<exists>f'. make_contiguous f = Ok f' \<and> sf_pending f' \<and> sf_unread f' = sf_unread f \<and> frame_chunk f' = Ok (sf_unread f)"
proof -
  have v: "sf_valid f" "sf_unread f \<noteq> []" using assms by (simp_all add: sf_pending_def)
  obtain c rest where c: "frame_chunk f = Ok c" "sf_unread f = c @ rest"
    using frame_buf.chunk_prefix [OF v] by auto
  have len: "frame_remaining f = length (sf_unread f)" using frame_buf.remaining_unread [OF v(1)] .
  show ?thesis
  proof (cases "rest = []")
    case True
    then show ?thesis using c len assms by (simp add: make_contiguous_def)
  next
    case False
    then have more: "frame_remaining f > length c" using c(2) len by simp
    then have "\<not> (\<exists>bs. f = SF_Bytes bs)" using c(1) by auto
    moreover have "buf_drain frame_remaining frame_chunk frame_advance f [] = Some (Ok (sf_unread f))"
      using frame_buf.drain_all [OF v(1), of "[]"] by simp
    ultimately have "make_contiguous f = Ok (SF_Bytes (sf_unread f))"
      using c(1) more by (cases f) (simp_all add: make_contiguous_def)
    then show ?thesis using v(2) by (simp add: sf_pending_def)
  qed
qed

lemma udp_write_loop_spec:
  "list_all (\<lambda>(_, f). sf_pending f) q \<Longrightarrow> udp_write_loop i b q s = (r, q', s') \<Longrightarrow> r \<noteq> Panic \<Longrightarrow>
   list_all (\<lambda>(_, f). sf_pending f) q' \<and>
   datagrams s' @ map (map_prod id sf_unread) q' = datagrams s @ map (map_prod id sf_unread) q"
proof (induction i b q s arbitrary: r q' s' rule: udp_write_loop.induct)
  case (1 i b q s)
  note step = udp_write_loop.simps [of i b q s]
  show ?case
  proof (cases q)
    case Nil
    then show ?thesis using 1(4) step by simp
  next
    case (Cons af rest)
    obtain addr f0 where af: "af = (addr, f0)" by force
    have f0: "sf_pending f0" "list_all (\<lambda>(_, f). sf_pending f) rest" using 1(3) Cons af by simp_all
    obtain f where f: "make_contiguous f0 = Ok f" "sf_pending f" "sf_unread f = sf_unread f0" "frame_chunk f = Ok (sf_unread f0)"
      using make_contiguous_spec [OF f0(1)] by blast
    have sel: "rbind (make_contiguous f0) (\<lambda>f. rbind (frame_chunk f) (\<lambda>c. Ok (f, c))) = Ok (f, sf_unread f0)"
      using f by simp
    show ?thesis
    proof (cases "send_outcomes s")
      case Nil
      then have "send_to (sf_unread f0) addr s = (Err IoWouldBlock, s)" by (simp add: send_to_def)
      then show ?thesis using 1(4) step Cons af f0 f by (auto simp: sel)
    next
      case os: (Cons oc os)
      show ?thesis
      proof (cases oc)
        case (SentTo n)
        define s1 where "s1 = s\<lparr>send_outcomes := os, datagrams := datagrams s @ [(addr, sf_unread f0)]\<rparr>"
        have snd: "send_to (sf_unread f0) addr s = (Ok n, s1)" using os SentTo by (simp add: send_to_def s1_def)
        then have n: "n = frame_remaining f" and run: "udp_write_loop i (b + n) rest s1 = (r, q', s')"
          using 1(4,5) step Cons af by (auto simp: sel split: if_splits)
        from 1(1) [OF Cons af [symmetric] sel refl snd [symmetric] refl n f0(2) run 1(5)]
        show ?thesis using Cons af by (simp add: s1_def)
      next
        case (SendFails e)
        then have snd: "send_to (sf_unread f0) addr s = (Err e, s\<lparr>send_outcomes := os\<rparr>)" using os by (simp add: send_to_def)
        show ?thesis
        proof (cases "e = IoInterrupted \<and> i + 1 < MAX_INTERRUPTS")
          case True
          then have run: "udp_write_loop (i + 1) b ((addr, f) # rest) (s\<lparr>send_outcomes := os\<rparr>) = (r, q', s')"
            using 1(4) step Cons af snd by (simp add: sel)
          have "list_all (\<lambda>(_, f). sf_pending f) ((addr, f) # rest)" using f(2) f0(2) by simp
          from 1(2) [OF Cons af [symmetric] sel refl snd [symmetric] refl _ _ _ this run 1(5)] True
          show ?thesis using Cons af f(3) by simp
        next
          case False
          then show ?thesis using 1(4) step Cons af snd f f0 by (auto simp: sel split: if_splits)
        qed
      qed
    qed
  qed
qed

text \<open>
  A message as it is posted in a datagram of its own, and as it is delivered.
\<close>

type_synonym posted = "actor_path \<times> actor_path \<times> u64 \<times> u8 list"

fun posted_bytes :: "buf_ops \<Rightarrow> posted \<Rightarrow> u8 list" where
  "posted_bytes ops (src, dst, sid, data) = data_frame_bytes (envelope ops src dst sid data)"

fun posted_ok :: "posted \<Rightarrow> bool" where
  "posted_ok (src, dst, sid, data) \<longleftrightarrow> wire_path src \<and> wire_path dst"

fun delivered :: "posted \<Rightarrow> 'v net_message \<Rightarrow> bool" where
  "delivered (src, dst, sid, data) m \<longleftrightarrow> (\<exists>cr. m = with_chunk_ref sid src dst cr \<and> ref_unread cr = data)"

lemma envelope_not_Nil: "bytes_documented ops \<Longrightarrow> envelope ops src dst sid data \<noteq> []"
  by (auto simp: envelope_def bytes_documented_def dest: arg_cong [where f = length])

lemma posted_not_Nil [simp]: "posted_bytes ops pm \<noteq> []"
  by (cases pm) (simp add: data_frame_bytes_def)

lemma decode_message_delivers:
  fixes u :: "'v udp_state"
  assumes "bytes_documented ops" "db_wf (us_input u)" "stream (us_input u) = posted_bytes ops pm" "posted_ok pm"
    and "length (posted_bytes ops pm) < 2 ^ 32"
  shows "\<exists>db' m. decode_message dbg ops fresh u = Ok (u\<lparr>us_input := db', incoming_messages := incoming_messages u @ [m]\<rparr>) \<and>
    db_wf db' \<and> stream db' = [] \<and> delivered pm m \<and> db_buffer db' = db_buffer (us_input u)"
proof -
  obtain src dst sid data where pm: "pm = (src, dst, sid, data)" by (cases pm) auto
  define env where "env = envelope ops src dst sid data"
  define l where "l = lease_new env 0"
  have len: "length env < 2 ^ 32" using assms(5) pm by (simp add: data_frame_bytes_def env_def)
  have ne: "0 < length env" using envelope_not_Nil [OF assms(1)] by (simp add: env_def)
  have l: "leases env l" "lease_unread l = env" by (simp_all add: l_def leases_def comp_def)
  have "sendable (DataFrame l)" using len ne by (simp add: l_def capacity_def)
  moreover have "stream (us_input u) @ [] = frame_bytes (DataFrame l) @ []"
    using assms(3) data_frame_bytes_frame [OF l(1)] pm by (simp add: env_def)
  moreover have "length (frame_bytes (DataFrame l)) \<le> length (stream (us_input u))"
    using assms(3) data_frame_bytes_frame [OF l(1)] pm by (simp add: env_def)
  ultimately obtain g db' where g: "get_frame ops fresh (us_input u) = (Ok g, db')" "same_frame (DataFrame l) g" "db_wf db'" "stream db' = []"
    using get_frame_spec [OF assms(1,2), of "DataFrame l" "[]" "[]" fresh] by auto
  then obtain q where q: "g = DataFrame q" "lease_valid q" "lease_unread q = envelope ops src dst sid data"
    using l(2) by (cases g) (auto simp: env_def)
  obtain cr where "deserialise_chunk_lease dbg ops fresh q = Ok (with_chunk_ref sid src dst cr :: 'v net_message)" "ref_unread cr = data"
    using deserialise_chunk_lease_spec [OF assms(1) _ _ q(2,3), of dbg fresh] assms(4) pm by auto
  then show ?thesis using g q(1) pm get_frame_keeps [OF g(1)] by (auto simp: decode_message_def)
qed

text \<open>A pool whose chunks have room for a packet, as those of the default allocator do, whose length bounds the packet size.\<close>

definition packet_pool :: "nat \<Rightarrow> buffer_pool \<Rightarrow> bool" where
  "packet_pool n p \<longleftrightarrow> (\<forall>b \<in> set (pool p). n \<le> length (chunk b)) \<and> n \<le> length (alloc_chunk p)"

lemma get_buffer_packet:
  "packet_pool n p \<Longrightarrow> get_buffer sc p = (Some b, p') \<Longrightarrow> n \<le> length (chunk b) \<and> packet_pool n p'"
  by (rule get_buffer_cases [of p sc]) (auto simp: packet_pool_def from_chunk_def)

lemma swap_empty_buffer:
  assumes "db_wf db" "stream db = []" "is_free sc other" "swap_buffer sc other db = Ok (db', old)"
  shows "writeable_len db' = length (chunk other)"
proof -
  have "\<not> read_offset db < write_offset db" using assms(1,2) by (auto simp: stream_def unread_def db_wf_def)
  then show ?thesis using assms(3,4) get_overflow_spec [OF assms(1)]
    by (auto simp: swap_buffer_def free_eq Let_def writeable_len_def)
qed

definition packet_ready :: "nat \<Rightarrow> buffer_pool \<Rightarrow> decode_buffer \<Rightarrow> bool" where
  "packet_ready n p db \<longleftrightarrow> packet_pool n p \<and> n \<le> length (chunk (db_buffer db)) \<and> db_wf db \<and> stream db = []"

lemma make_room_spec:
  assumes "packet_ready (max_packet_size u) p (us_input u)"
  shows "\<exists>p' db room. udp_make_room sc p u = Ok (p', u\<lparr>us_input := db\<rparr>, room) \<and> packet_ready (max_packet_size u) p' db \<and> exchanged p p' \<and>
    (if room then max_packet_size u \<le> writeable_len db else exhausted sc p')"
proof (cases "writeable_len (us_input u) < max_packet_size u")
  case False
  then show ?thesis using assms by (intro exI [of _ p] exI [of _ "us_input u"] exI [of _ True]) (simp add: udp_make_room_def)
next
  case low: True
  have a: "packet_pool (max_packet_size u) p" "max_packet_size u \<le> length (chunk (db_buffer (us_input u)))"
    "db_wf (us_input u)" "stream (us_input u) = []" using assms by (simp_all add: packet_ready_def)
  obtain b p' where g: "get_buffer sc p = (b, p')" by force
  show ?thesis
  proof (cases b)
    case None
    then show ?thesis using low g assms get_buffer_None [of sc p p']
      by (intro exI [of _ p'] exI [of _ "us_input u"] exI [of _ False]) (simp add: udp_make_room_def udp_swap_buffer_def)
  next
    case (Some c)
    have c: "is_free sc c" "max_packet_size u \<le> length (chunk c)" "packet_pool (max_packet_size u) p'"
      using get_buffer_unlocked [of sc p c p'] get_buffer_packet [OF a(1)] g Some by (simp_all add: is_free_def)
    then obtain db' where sw: "swap_buffer sc c (us_input u) = Ok (db', lock_chunk (db_buffer (us_input u)))" "db_wf db'"
      "stream db' = []" "length (chunk (db_buffer db')) = length (chunk c)" using swap_buffer_spec [OF a(3)] a(4) by fastforce
    let ?p = "return_buffer (lock_chunk (db_buffer (us_input u))) p'"
    have "packet_ready (max_packet_size u) ?p db'"
      using a(2) c(2,3) sw(2-4) by (auto simp: packet_ready_def packet_pool_def return_buffer_def lock_chunk_def)
    moreover have "max_packet_size u \<le> writeable_len db'" using swap_empty_buffer [OF a(3,4) c(1) sw(1)] c(2) by simp
    ultimately show ?thesis using low g Some sw(1)
      by (intro exI [of _ ?p] exI [of _ db'] exI [of _ True]) (simp add: udp_make_room_def udp_swap_buffer_def)
  qed
qed

lemma get_writeable_Ok:
  "db_wf db \<Longrightarrow> 8 < writeable_len db \<Longrightarrow> get_writeable db = Ok (Some (write_offset db, length (chunk (db_buffer db))))"
  by (simp add: get_writeable_def is_writeable_def get_slice_def db_wf_def writeable_len_def)

lemma udp_read_loop_delivers:
  assumes "bytes_documented ops"
  shows "packet_ready (max_packet_size u) p (us_input u) \<Longrightarrow> 8 < max_packet_size u \<Longrightarrow> max_packet_size u < 2 ^ 32 \<Longrightarrow>
    list_all posted_ok ms \<Longrightarrow> list_all (\<lambda>pm. length (posted_bytes ops pm) \<le> max_packet_size u) ms \<Longrightarrow>
    recv_outcomes (us_socket u) = map (\<lambda>pm. Datagram (posted_bytes ops pm) addr) ms \<Longrightarrow>
    \<exists>k r p' u' gs. udp_read_loop dbg ops fresh sc i p u = (r, p', u') \<and> k \<le> length ms \<and>
      incoming_messages u' = incoming_messages u @ gs \<and> list_all2 delivered (take k ms) gs \<and>
      recv_outcomes (us_socket u') = drop k (recv_outcomes (us_socket u)) \<and> packet_ready (max_packet_size u) p' (us_input u') \<and>
      exchanged p p' \<and> (r = Ok () \<and> k = length ms \<or> r = Err IoInvalidInput \<and> exhausted sc p')"
proof (induction ms arbitrary: p u)
  case Nil
  obtain p1 db room where mr: "udp_make_room sc p u = Ok (p1, u\<lparr>us_input := db\<rparr>, room)" "packet_ready (max_packet_size u) p1 db" "exchanged p p1"
    "if room then max_packet_size u \<le> writeable_len db else exhausted sc p1"
    using make_room_spec [OF Nil(1)] by blast
  have "room \<Longrightarrow> get_writeable db = Ok (Some (write_offset db, length (chunk (db_buffer db))))"
    using get_writeable_Ok [of db] mr(2,4) Nil(2) by (simp add: packet_ready_def)
  moreover have "recv_from n (us_socket u) = (Err IoWouldBlock, us_socket u)" for n using Nil(6) by (simp add: recv_from_def)
  ultimately show ?case using mr Nil by (cases room) (auto simp: udp_read_loop.simps [of dbg ops fresh sc i p u])
next
  case (Cons pm ms)
  obtain p1 db room where mr: "udp_make_room sc p u = Ok (p1, u\<lparr>us_input := db\<rparr>, room)" "packet_ready (max_packet_size u) p1 db" "exchanged p p1"
    "if room then max_packet_size u \<le> writeable_len db else exhausted sc p1"
    using make_room_spec [OF Cons.prems(1)] by blast
  have db: "db_wf db" "stream db = []" "packet_pool (max_packet_size u) p1" "max_packet_size u \<le> length (chunk (db_buffer db))"
    using mr(2) by (simp_all add: packet_ready_def)
  show ?case
  proof (cases room)
    case False
    then show ?thesis using mr
      by (intro exI [of _ 0]) (auto simp: udp_read_loop.simps [of dbg ops fresh sc i p u])
  next
    case True
    let ?bs = "posted_bytes ops pm"
    define s' where "s' = (us_socket u)\<lparr>recv_outcomes := map (\<lambda>pm. Datagram (posted_bytes ops pm) addr) ms\<rparr>"
    have fit: "length ?bs \<le> writeable_len db" using mr(4) True Cons.prems(5) by simp
    have gw: "get_writeable db = Ok (Some (write_offset db, length (chunk (db_buffer db))))"
      using get_writeable_Ok [OF db(1)] mr(4) True Cons.prems(2) by simp
    have rf: "recv_from (length (chunk (db_buffer db)) - write_offset db) (us_socket u) = (Ok (?bs, addr), s')"
      using Cons.prems(6) fit by (simp add: recv_from_def s'_def writeable_len_def)
    let ?u1 = "u\<lparr>us_socket := s', us_input := write_bytes ?bs db\<rparr>"
    obtain db' m where d: "decode_message dbg ops fresh ?u1 = Ok (?u1\<lparr>us_input := db', incoming_messages := incoming_messages u @ [m]\<rparr>)"
      "db_wf db'" "stream db' = []" "delivered pm m" "db_buffer db' = db_buffer (write_bytes ?bs db)"
      using decode_message_delivers [OF assms, of ?u1 pm dbg fresh] write_bytes_spec [OF db(1) fit] db(2) Cons.prems(3-5) by auto
    let ?u2 = "?u1\<lparr>us_input := db', incoming_messages := incoming_messages u @ [m]\<rparr>"
    have step: "udp_read_loop dbg ops fresh sc i p u = udp_read_loop dbg ops fresh sc i p1 ?u2"
      using mr(1) True gw rf d(1) by (simp add: udp_read_loop.simps [of dbg ops fresh sc i p u])
    have "packet_ready (max_packet_size u) p1 db'"
      using db(3,4) d(2,3,5) write_bytes_room(2) [OF db(1) fit] by (simp add: packet_ready_def)
    then have "\<exists>k r p' u' gs. udp_read_loop dbg ops fresh sc i p1 ?u2 = (r, p', u') \<and> k \<le> length ms \<and>
      incoming_messages u' = incoming_messages ?u2 @ gs \<and> list_all2 delivered (take k ms) gs \<and>
      recv_outcomes (us_socket u') = drop k (recv_outcomes (us_socket ?u2)) \<and> packet_ready (max_packet_size u) p' (us_input u') \<and>
      exchanged p1 p' \<and> (r = Ok () \<and> k = length ms \<or> r = Err IoInvalidInput \<and> exhausted sc p')"
      using Cons.IH [of ?u2 p1] Cons.prems by (simp add: s'_def)
    then obtain k r p' u' gs where rec: "udp_read_loop dbg ops fresh sc i p1 ?u2 = (r, p', u')" "k \<le> length ms"
      "incoming_messages u' = incoming_messages ?u2 @ gs" "list_all2 delivered (take k ms) gs"
      "recv_outcomes (us_socket u') = drop k (recv_outcomes (us_socket ?u2))" "packet_ready (max_packet_size u) p' (us_input u')" "exchanged p1 p'"
      "r = Ok () \<and> k = length ms \<or> r = Err IoInvalidInput \<and> exhausted sc p'" by blast
    show ?thesis using rec d(4) step Cons.prems(6) exchanged_trans [OF mr(3) rec(7)]
      by (intro exI [of _ "Suc k"] exI [of _ r] exI [of _ p'] exI [of _ u'] exI [of _ "m # gs"]) (auto simp: s'_def)
  qed
qed

subsection \<open>Properties\<close>


definition two_frame_udp :: "unit udp_state" where
  "two_frame_udp = udp_enqueue \<lparr>sock_ip = V4 2, sock_port = 9\<rparr> (SF_ChunkLease (append_to_chain (lease_new [2] 0) (lease_new [3] 1)))
     (udp_enqueue \<lparr>sock_ip = V4 1, sock_port = 9\<rparr> (SF_Bytes [1])
       (udp_state_new \<lparr>send_outcomes = [SentTo 1, SendFails IoInterrupted, SentTo 2], recv_outcomes = [], datagrams = []\<rparr>
          (from_chunk (replicate 80 0) 0) buffer_config_default))"


text \<open>
  C38: Messages between wire paths (IPv4 addresses, valid and non-empty named paths) that arrive in datagrams of their own, each within the packet size limit,
  are delivered once, in the order of arrival and with the contents they were sent with. Reading never panics; it stops early only when the pool
  is exhausted, all of its chunks in use and none left to allocate, and then the rest is still in the socket. The chunks
  are as long as the largest packet, as those of the default allocator are, and the buffer holds no rest of a frame.
\<close>

theorem udp_messages_arrive_in_order:
  assumes "bytes_documented ops" and "packet_ready (max_packet_size u) p (us_input u)"
    and "8 < max_packet_size u" "max_packet_size u < 2 ^ 32"
    and "list_all posted_ok ms" "list_all (\<lambda>pm. length (posted_bytes ops pm) \<le> max_packet_size u) ms"
    and "recv_outcomes (us_socket u) = map (\<lambda>pm. Datagram (posted_bytes ops pm) addr) ms"
  shows "\<exists>k r p' u' gs. udp_try_read dbg ops fresh sc p u = (r, p', u') \<and> k \<le> length ms \<and>
      incoming_messages u' = incoming_messages u @ gs \<and> list_all2 delivered (take k ms) gs \<and>
      recv_outcomes (us_socket u') = drop k (recv_outcomes (us_socket u)) \<and> packet_ready (max_packet_size u) p' (us_input u') \<and>
      exchanged p p' \<and> (r = Ok () \<and> k = length ms \<or> r = Err IoInvalidInput \<and> exhausted sc p')"
  unfolding udp_try_read_def by (rule udp_read_loop_delivers [OF assms])

definition receiving_udp :: "unit udp_state" where
  "receiving_udp = udp_state_new
     \<lparr>send_outcomes = [],
      recv_outcomes = map (\<lambda>pm. Datagram (posted_bytes be_buf_ops pm) \<lparr>sock_ip = V4 1, sock_port = 9\<rparr>) [(sample_path, sample_path, 42, [1]), (sample_path, sample_path, 43, [2])],
      datagrams = []\<rparr>
     (from_chunk (replicate 128 0) 0) \<lparr>chunk_size = 128, initial_chunk_count = 1, max_chunk_count = 2, encode_buf_min_free_space = 64\<rparr>"

definition packet_sized_pool :: buffer_pool where
  "packet_sized_pool = \<lparr>pool = [], pool_size = 1, alloc_chunk = replicate 128 0, next_lock = 1, pool_chunk_size = 128, max_pool_size = 2\<rparr>"

theorem udp_messages_arrive_in_order_witness:
  "\<exists>p' u'. udp_try_read True be_buf_ops 7 (\<lambda>_. 1) packet_sized_pool receiving_udp = (Ok (), p', u') \<and>
     list_all2 delivered [(sample_path, sample_path, 42, [1]), (sample_path, sample_path, 43, [2])] (incoming_messages u')"
proof -
  let ?ms = "[(sample_path, sample_path, 42, [1]), (sample_path, sample_path, 43, [2])] :: posted list"
  have u: "us_input receiving_udp = decode_buffer_new (from_chunk (replicate 128 0) 0)
       \<lparr>chunk_size = 128, initial_chunk_count = 1, max_chunk_count = 2, encode_buf_min_free_space = 64\<rparr>"
    "max_packet_size receiving_udp = 128" "incoming_messages receiving_udp = []"
    "recv_outcomes (us_socket receiving_udp) = map (\<lambda>pm. Datagram (posted_bytes be_buf_ops pm) \<lparr>sock_ip = V4 1, sock_port = 9\<rparr>) ?ms"
    by (simp_all add: receiving_udp_def udp_state_new_def MAX_PACKET_SIZE_def)
  have "list_all (\<lambda>pm. length (posted_bytes be_buf_ops pm) \<le> max_packet_size receiving_udp) ?ms"
    by (simp add: u data_frame_bytes_def envelope_def sample_path_facts FRAME_HEAD_LEN_def)
  moreover have "list_all posted_ok ?ms" by (simp add: sample_path_facts)
  moreover have "packet_ready (max_packet_size receiving_udp) packet_sized_pool (us_input receiving_udp)"
    by (simp add: u packet_ready_def packet_pool_def packet_sized_pool_def decode_buffer_new_def db_wf_def from_chunk_def stream_def unread_def)
  moreover have "\<not> exhausted (\<lambda>_. 1) packet_sized_pool" by (simp add: exhausted_def packet_sized_pool_def)
  ultimately show ?thesis
    using udp_messages_arrive_in_order [OF be_buf_ops_documented, of receiving_udp packet_sized_pool ?ms "\<lparr>sock_ip = V4 1, sock_port = 9\<rparr>" True 7 "\<lambda>_. 1"] u
      exchanged_not_exhausted [of packet_sized_pool]
    by fastforce
qed

text \<open>
  All datagrams share one decode buffer. A datagram that ends inside its frame delivers nothing, but its bytes
  stay in the buffer in front of those of the next datagram, of any sender, which is then
  taken for the rest of the frame.
\<close>

theorem short_datagram_stays_in_buffer:
  assumes "bytes_documented ops" "db_wf (us_input u)" "sendable f" "frame_bytes f = stream (us_input u) @ future" "future \<noteq> []"
  shows "\<exists>db'. decode_message dbg ops fresh u = Ok (u\<lparr>us_input := db'\<rparr>) \<and> db_wf db' \<and> stream db' = stream (us_input u) \<and>
    (\<forall>bs. length bs \<le> writeable_len db' \<longrightarrow> stream (write_bytes bs db') = stream (us_input u) @ bs)"
proof -
  have "\<not> length (frame_bytes f) \<le> length (stream (us_input u))" using assms(4,5) by simp
  then obtain db' where "get_frame ops fresh (us_input u) = (Err NoData, db')" "db_wf db'" "stream db' = stream (us_input u)"
    using get_frame_spec [OF assms(1-3), of future "[]" fresh] assms(4) by auto
  then show ?thesis using write_bytes_spec by (auto simp: decode_message_def)
qed

end
