(* ===== verification/Network_Thread.thy ===== *)
theory Network_Thread
  imports Net_Dispatcher Udp_State Tcp_Reading Block_List
begin

section \<open>The network thread (\<open>network/src/transport/network_thread.rs\<close>)\<close>

text \<open>
  The thread that drives the sockets: it owns the TCP channels and the UDP socket, takes commands from the dispatcher
  and reports to it. A channel is shared between two tables through an \<open>Rc<RefCell<_>>\<close>, so the model
  keeps the channels in a store, with their token as the address, and the tables hold tokens. Borrowing a channel that is
  already borrowed panics: the functions that are called while a channel is borrowed take the
  set of borrowed tokens. What the poll reports is the input of the model, what the listener and
  connecting sockets return is part of the state, and so are the messages told to actors and the events told to the
  dispatcher. A panic ends the thread; a copy or a loop that does not end is counted with the panics.
\<close>

subsection \<open>The cache of channels\<close>

text \<open>
  The cache comes from the crate \<open>lru\<close>, which is not part of the repository, so its operations are
  a parameter. Its documentation: \<open>get\<close> and \<open>put\<close> make an entry the most recently used one, \<open>put\<close> into a full
  cache evicts the least recently used one, \<open>iter\<close> starts at the most recently used.
\<close>

record 'c lru_ops =
  lru_new :: "nat \<Rightarrow> 'c"
  lru_cap :: "'c \<Rightarrow> nat"
  lru_iter :: "'c \<Rightarrow> nat list"
  lru_get :: "nat \<Rightarrow> 'c \<Rightarrow> bool \<times> 'c"
  lru_put :: "nat \<Rightarrow> 'c \<Rightarrow> 'c"
  lru_pop :: "nat \<Rightarrow> 'c \<Rightarrow> 'c"

definition lru_documented :: "'c lru_ops \<Rightarrow> bool" where
  "lru_documented L \<longleftrightarrow>
     (\<forall>n. lru_iter L (lru_new L n) = [] \<and> lru_cap L (lru_new L n) = n) \<and>
     (\<forall>k c. fst (lru_get L k c) \<longleftrightarrow> k \<in> set (lru_iter L c)) \<and>
     (\<forall>k c. lru_iter L (snd (lru_get L k c)) = (if k \<in> set (lru_iter L c) then k # remove1 k (lru_iter L c) else lru_iter L c)) \<and>
     (\<forall>k c. lru_cap L (snd (lru_get L k c)) = lru_cap L c) \<and>
     (\<forall>k c. 0 < lru_cap L c \<longrightarrow> lru_iter L (lru_put L k c) =
        k # remove1 k (if k \<notin> set (lru_iter L c) \<and> length (lru_iter L c) = lru_cap L c then butlast (lru_iter L c) else lru_iter L c)) \<and>
     (\<forall>k c. lru_cap L (lru_put L k c) = lru_cap L c) \<and>
     (\<forall>k c. lru_iter L (lru_pop L k c) = remove1 k (lru_iter L c) \<and> lru_cap L (lru_pop L k c) = lru_cap L c)"

text \<open>A concrete instance.\<close>

definition list_lru :: "(nat \<times> nat list) lru_ops" where
  "list_lru =
     \<lparr>lru_new = (\<lambda>n. (n, [])), lru_cap = fst, lru_iter = snd,
      lru_get = (\<lambda>k (n, ks). (k \<in> set ks, n, if k \<in> set ks then k # remove1 k ks else ks)),
      lru_put = (\<lambda>k (n, ks). (n, k # remove1 k (if k \<notin> set ks \<and> length ks = n then butlast ks else ks))),
      lru_pop = (\<lambda>k (n, ks). (n, remove1 k ks))\<rparr>"

lemma list_lru_documented [simp]: "lru_documented list_lru"
  by (auto simp: lru_documented_def list_lru_def)

definition cache_ok :: "'c lru_ops \<Rightarrow> 'c \<Rightarrow> bool" where
  "cache_ok L c \<longleftrightarrow> distinct (lru_iter L c) \<and> length (lru_iter L c) \<le> lru_cap L c"

lemma to_front: "k \<in> set ks \<Longrightarrow> set (k # remove1 k ks) = set ks \<and> length (k # remove1 k ks) = length ks \<and> (distinct ks \<longrightarrow> distinct (k # remove1 k ks))"
  by (drule split_list_first) (auto simp: remove1_append)

locale lru_cache =
  fixes L :: "'c lru_ops"
  assumes documented: "lru_documented L"
begin

lemma new_facts: "lru_iter L (lru_new L n) = []" "lru_cap L (lru_new L n) = n" "cache_ok L (lru_new L n)"
  using documented by (simp_all add: lru_documented_def cache_ok_def)

lemma get_found: "fst (lru_get L k c) \<longleftrightarrow> k \<in> set (lru_iter L c)"
  using documented by (simp add: lru_documented_def)

lemma get_iter: "lru_iter L (snd (lru_get L k c)) = (if k \<in> set (lru_iter L c) then k # remove1 k (lru_iter L c) else lru_iter L c)"
  using documented by (simp add: lru_documented_def)

lemma get_cap: "lru_cap L (snd (lru_get L k c)) = lru_cap L c"
  using documented by (simp add: lru_documented_def)

lemma get_keeps: "set (lru_iter L (snd (lru_get L k c))) = set (lru_iter L c)" "length (lru_iter L (snd (lru_get L k c))) = length (lru_iter L c)"
  "cache_ok L c \<Longrightarrow> cache_ok L (snd (lru_get L k c))"
  using to_front [of k "lru_iter L c"] by (auto simp: get_iter get_cap cache_ok_def)

lemma pop_iter: "lru_iter L (lru_pop L k c) = remove1 k (lru_iter L c)" "lru_cap L (lru_pop L k c) = lru_cap L c"
  using documented by (simp_all add: lru_documented_def)

lemma pop_keeps: "set (lru_iter L (lru_pop L k c)) \<subseteq> set (lru_iter L c)" "length (lru_iter L (lru_pop L k c)) \<le> length (lru_iter L c)"
  "cache_ok L c \<Longrightarrow> cache_ok L (lru_pop L k c)" "cache_ok L c \<Longrightarrow> k \<notin> set (lru_iter L (lru_pop L k c))"
  using set_remove1_subset [of k "lru_iter L c"] by (auto simp: pop_iter cache_ok_def length_remove1)

text \<open>A new entry evicts nothing as long as the cache is not full.\<close>

lemma put_keeps:
  assumes "cache_ok L c" "k \<notin> set (lru_iter L c)" "length (lru_iter L c) < lru_cap L c"
  shows "lru_iter L (lru_put L k c) = k # lru_iter L c" "lru_cap L (lru_put L k c) = lru_cap L c" "cache_ok L (lru_put L k c)"
proof -
  have pos: "0 < lru_cap L c" using assms(3) by simp
  show it: "lru_iter L (lru_put L k c) = k # lru_iter L c"
    using documented pos assms(2,3) by (simp add: lru_documented_def remove1_idem)
  show cap: "lru_cap L (lru_put L k c) = lru_cap L c" using documented by (simp add: lru_documented_def)
  show "cache_ok L (lru_put L k c)" using assms by (simp add: cache_ok_def it cap)
qed

end

interpretation list_cache: lru_cache list_lru
  by unfold_locales simp

subsection \<open>State\<close>

definition TCP_SERVER :: nat where "TCP_SERVER = 0"
definition UDP_SOCKET :: nat where "UDP_SOCKET = 1"
definition DISPATCHER :: nat where "DISPATCHER = 2"
definition START_TOKEN :: nat where "START_TOKEN = 3"
definition MAX_BIND_RETRIES :: nat where "MAX_BIND_RETRIES = 5"

record event_with_retries =
  ev_token :: nat
  ev_readable :: bool
  ev_writeable :: bool
  ev_retries :: u8

definition event_from :: "nat \<Rightarrow> bool \<Rightarrow> bool \<Rightarrow> event_with_retries" where
  "event_from tok r w = \<lparr>ev_token = tok, ev_readable = r, ev_writeable = w, ev_retries = 0\<rparr>"

definition writeable_with_token :: "nat \<Rightarrow> event_with_retries" where
  "writeable_with_token tok = \<lparr>ev_token = tok, ev_readable = False, ev_writeable = True, ev_retries = 0\<rparr>"

text \<open>The addition overflows, which panics when overflow checks are on.\<close>

definition get_retry_event :: "bool \<Rightarrow> event_with_retries \<Rightarrow> (event_with_retries, unit) rresult" where
  "get_retry_event checks ev = (if checks \<and> ev_retries ev = 255 then Panic else Ok (ev\<lparr>ev_retries := ev_retries ev + 1\<rparr>))"

text \<open>An accepted connection, and whether shutting it down at once succeeds.\<close>

record accepted_stream =
  as_stream :: tcp_stream
  as_addr :: socket_addr
  as_shutdown_ok :: bool

record ('v, 'r, 't, 'n4, 'r4, 'n6, 'r6, 'c) network_thread =
  nt_addr :: socket_addr
  nt_lookup :: "('r, 'v net_message, 't) actor_store"
  nt_accepts :: "accepted_stream list"
  nt_connects :: "tcp_stream option list"
  nt_udp :: "'v udp_state option"
  nt_channels :: "nat \<Rightarrow> tcp_channel option"
  nt_address_map :: "(socket_addr \<times> nat) list"
  nt_token_map :: 'c
  nt_token :: nat
  nt_input :: "('v dispatch_data, ('n4, 'n6) ip_net) thread_event list"
  nt_pool :: buffer_pool
  nt_stopped :: bool
  nt_promise :: bool
  nt_config :: network_config
  nt_retry_queue :: "event_with_retries list"
  nt_out_of_buffers :: bool
  nt_encode_buffer :: encode_buffer
  nt_block_list :: "('r4, 'r6) block_list"
  nt_told :: "('r \<times> 'v net_message) list"
  nt_notified :: "('v dispatch_data, ('n4, 'n6) ip_net) dispatcher_event list"

text \<open>
  What the thread reads of its surroundings: the build, the crates \<open>bytes\<close>, \<open>lru\<close> and \<open>iprange\<close>,
  fresh locks and session ids, how many leases of a chunk are alive, whether overflows are checked,
  whether the listener can be deregistered, and the fuel of the loops that read from a socket.
\<close>

record ('v, 't, 'n4, 'r4, 'n6, 'r6, 'c) thread_env =
  te_build :: "('v net_message, 't) lookup_build"
  te_ops :: buf_ops
  te_lru :: "'c lru_ops"
  te_nets :: "('n4, 'r4, 'n6, 'r6) net_ops"
  te_fresh :: lock
  te_new_unique :: "nat \<Rightarrow> uuid"
  te_locks :: "lock \<Rightarrow> nat"
  te_overflow_checks :: bool
  te_deregister_ok :: bool
  te_fuel :: nat

subsection \<open>Building the thread\<close>

text \<open>The result of every attempt to bind is a parameter; between two attempts the source sleeps.\<close>

fun bind_with_retries :: "(nat \<Rightarrow> (socket_addr, io_error) rresult) \<Rightarrow> nat \<Rightarrow> (socket_addr, io_error) rresult" where
  "bind_with_retries attempt retries =
     (case attempt retries of
        Ok listener \<Rightarrow> Ok listener
      | Err e \<Rightarrow> (case retries of Suc n \<Rightarrow> bind_with_retries attempt n | 0 \<Rightarrow> Err e)
      | Panic \<Rightarrow> Panic)"

definition builder_new :: "(nat \<Rightarrow> (socket_addr, io_error) rresult) \<Rightarrow> (socket_addr, io_error) rresult" where
  "builder_new attempt = bind_with_retries attempt MAX_BIND_RETRIES"

text \<open>The locks of the second pool are numbered after those that the first one can use.\<close>

definition thread_build ::
    "('v, 't, 'n4, 'r4, 'n6, 'r6, 'c) thread_env \<Rightarrow> socket_addr \<Rightarrow> udp_socket option \<Rightarrow> u8 list option \<Rightarrow> network_config \<Rightarrow>
     ('r, 'v net_message, 't) actor_store \<Rightarrow> (('v, 'r, 't, 'n4, 'r4, 'n6, 'r6, 'c) network_thread, unit) rresult" where
  "thread_build env addr udp custom cfg lookup =
     rbind (or_panic udp) (\<lambda>sock.
     rbind (pool_with_config 0 (nc_buffer_config cfg) custom) (\<lambda>p.
     rbind (encode_buffer_with_config (te_locks env) (max_chunk_count (nc_buffer_config cfg)) False (nc_buffer_config cfg) custom) (\<lambda>eb.
       case get_buffer (te_locks env) p of
         (Some b, p') \<Rightarrow>
           if nc_hard_connection_limit cfg = 0 then Panic
           else Ok \<lparr>nt_addr = addr, nt_lookup = lookup, nt_accepts = [], nt_connects = [],
             nt_udp = Some (udp_state_new sock b (nc_buffer_config cfg)), nt_channels = Map.empty, nt_address_map = [],
             nt_token_map = lru_new (te_lru env) (unat (nc_hard_connection_limit cfg)), nt_token = START_TOKEN, nt_input = [],
             nt_pool = p', nt_stopped = False, nt_promise = True, nt_config = cfg, nt_retry_queue = [], nt_out_of_buffers = False,
             nt_encode_buffer = eb, nt_block_list = block_list_default (te_nets env), nt_told = [], nt_notified = []\<rparr>
       | (None, _) \<Rightarrow> Panic)))"

subsection \<open>Small steps\<close>

type_synonym ('v, 'r, 't, 'n4, 'r4, 'n6, 'r6, 'c) thread_result =
  "(('v, 'r, 't, 'n4, 'r4, 'n6, 'r6, 'c) network_thread, unit) rresult"

definition notify_network_status ::
    "('n4, 'n6) ip_net network_status \<Rightarrow> ('v, 'r, 't, 'n4, 'r4, 'n6, 'r6, 'c) network_thread \<Rightarrow> ('v, 'r, 't, 'n4, 'r4, 'n6, 'r6, 'c) network_thread" where
  "notify_network_status st nt = nt\<lparr>nt_notified := nt_notified nt @ [NetworkEvent st]\<rparr>"

definition reject_dispatch_data ::
    "socket_addr \<Rightarrow> 'v dispatch_data \<Rightarrow> ('v, 'r, 't, 'n4, 'r4, 'n6, 'r6, 'c) network_thread \<Rightarrow> ('v, 'r, 't, 'n4, 'r4, 'n6, 'r6, 'c) network_thread" where
  "reject_dispatch_data addr d nt = nt\<lparr>nt_notified := nt_notified nt @ [RejectedData addr d]\<rparr>"

definition next_token :: "('v, 'r, 't, 'n4, 'r4, 'n6, 'r6, 'c) network_thread \<Rightarrow> ('v, 'r, 't, 'n4, 'r4, 'n6, 'r6, 'c) network_thread" where
  "next_token nt = nt\<lparr>nt_token := nt_token nt + 1\<rparr>"

definition set_channel ::
    "nat \<Rightarrow> tcp_channel \<Rightarrow> ('v, 'r, 't, 'n4, 'r4, 'n6, 'r6, 'c) network_thread \<Rightarrow> ('v, 'r, 't, 'n4, 'r4, 'n6, 'r6, 'c) network_thread" where
  "set_channel tok ch nt = nt\<lparr>nt_channels := (nt_channels nt)(tok \<mapsto> ch)\<rparr>"

text \<open>\<open>borrow_mut\<close> and \<open>borrow\<close>\<close>

definition borrow_mut ::
    "nat set \<Rightarrow> nat \<Rightarrow> ('v, 'r, 't, 'n4, 'r4, 'n6, 'r6, 'c) network_thread \<Rightarrow> (tcp_channel, unit) rresult" where
  "borrow_mut held tok nt = (if tok \<in> held then Panic else or_panic (nt_channels nt tok))"

definition get_channel_by_token ::
    "('v, 't, 'n4, 'r4, 'n6, 'r6, 'c) thread_env \<Rightarrow> nat \<Rightarrow> ('v, 'r, 't, 'n4, 'r4, 'n6, 'r6, 'c) network_thread \<Rightarrow>
     bool \<times> ('v, 'r, 't, 'n4, 'r4, 'n6, 'r6, 'c) network_thread" where
  "get_channel_by_token env tok nt =
     (let (found, c) = lru_get (te_lru env) tok (nt_token_map nt) in (found, nt\<lparr>nt_token_map := c\<rparr>))"

definition update_lru ::
    "('v, 't, 'n4, 'r4, 'n6, 'r6, 'c) thread_env \<Rightarrow> nat \<Rightarrow> ('v, 'r, 't, 'n4, 'r4, 'n6, 'r6, 'c) network_thread \<Rightarrow>
     ('v, 'r, 't, 'n4, 'r4, 'n6, 'r6, 'c) network_thread" where
  "update_lru env tok nt = snd (get_channel_by_token env tok nt)"

definition get_channel_by_address :: "socket_addr \<Rightarrow> ('v, 'r, 't, 'n4, 'r4, 'n6, 'r6, 'c) network_thread \<Rightarrow> nat option" where
  "get_channel_by_address addr nt = map_of (nt_address_map nt) addr"

definition reregister_channel_address ::
    "socket_addr \<Rightarrow> socket_addr \<Rightarrow> ('v, 'r, 't, 'n4, 'r4, 'n6, 'r6, 'c) network_thread \<Rightarrow> ('v, 'r, 't, 'n4, 'r4, 'n6, 'r6, 'c) network_thread" where
  "reregister_channel_address old new nt =
     (case map_of (nt_address_map nt) old of
        Some tok \<Rightarrow> nt\<lparr>nt_address_map := AList.update new tok (AList.delete old (nt_address_map nt))\<rparr>
      | None \<Rightarrow> nt)"

definition enqueue_writeable_event ::
    "nat \<Rightarrow> ('v, 'r, 't, 'n4, 'r4, 'n6, 'r6, 'c) network_thread \<Rightarrow> ('v, 'r, 't, 'n4, 'r4, 'n6, 'r6, 'c) network_thread" where
  "enqueue_writeable_event tok nt = nt\<lparr>nt_retry_queue := nt_retry_queue nt @ [writeable_with_token tok]\<rparr>"

definition get_poll_timeout :: "('v, 'r, 't, 'n4, 'r4, 'n6, 'r6, 'c) network_thread \<Rightarrow> u64 option" where
  "get_poll_timeout nt =
     (if nt_out_of_buffers nt then Some (nc_connection_retry_interval (nt_config nt))
      else if nt_retry_queue nt = [] then None else Some 0)"

subsection \<open>Ending channels\<close>

definition deregister_channel ::
    "('v, 't, 'n4, 'r4, 'n6, 'r6, 'c) thread_env \<Rightarrow> tcp_channel \<Rightarrow> ('v, 'r, 't, 'n4, 'r4, 'n6, 'r6, 'c) network_thread \<Rightarrow>
     ('v, 'r, 't, 'n4, 'r4, 'n6, 'r6, 'c) network_thread" where
  "deregister_channel env ch nt = nt\<lparr>nt_token_map := lru_pop (te_lru env) (ch_token ch) (nt_token_map nt)\<rparr>"

text \<open>The channel of the given token is borrowed by the caller, so it can be accessed here.\<close>

definition drop_channel ::
    "('v, 't, 'n4, 'r4, 'n6, 'r6, 'c) thread_env \<Rightarrow> nat \<Rightarrow> ('v, 'r, 't, 'n4, 'r4, 'n6, 'r6, 'c) network_thread \<Rightarrow>
     ('v, 'r, 't, 'n4, 'r4, 'n6, 'r6, 'c) thread_result" where
  "drop_channel env tok nt =
     rbind (or_panic (nt_channels nt tok)) (\<lambda>ch.
       (let nt1 = deregister_channel env ch nt;
            nt2 = nt1\<lparr>nt_address_map := AList.delete (ch_address ch) (nt_address_map nt1)\<rparr>;
            ch1 = ch_shutdown ch
        in case swap_buffer (te_locks env) (from_chunk [] (te_fresh env)) (input_buffer ch1) of
             Ok (db, old) \<Rightarrow>
               Ok (set_channel tok (ch1\<lparr>input_buffer := db\<rparr>) (nt2\<lparr>nt_pool := return_buffer old (nt_pool nt2)\<rparr>))
           | _ \<Rightarrow> Panic))"

definition reject_outbound_for_channel ::
    "nat \<Rightarrow> ('v, 'r, 't, 'n4, 'r4, 'n6, 'r6, 'c) network_thread \<Rightarrow> ('v, 'r, 't, 'n4, 'r4, 'n6, 'r6, 'c) thread_result" where
  "reject_outbound_for_channel tok nt =
     rbind (or_panic (nt_channels nt tok)) (\<lambda>ch.
       (let (frames, ch1) = take_outbound ch
        in Ok (fold (\<lambda>f. reject_dispatch_data (ch_address ch1) (DD_Serialised f)) frames (set_channel tok ch1 nt))))"

definition lost_connection ::
    "('v, 't, 'n4, 'r4, 'n6, 'r6, 'c) thread_env \<Rightarrow> nat \<Rightarrow> ('v, 'r, 't, 'n4, 'r4, 'n6, 'r6, 'c) network_thread \<Rightarrow>
     ('v, 'r, 't, 'n4, 'r4, 'n6, 'r6, 'c) thread_result" where
  "lost_connection env tok nt =
     rbind (or_panic (nt_channels nt tok)) (\<lambda>ch.
       (let nt1 = (case ch_session_id ch of
                     Some sid \<Rightarrow> notify_network_status (ConnectionLost (system_path_with_socket Tcp (ch_address ch)) sid) nt
                   | None \<Rightarrow> nt)
        in rbind (reject_outbound_for_channel tok nt1) (\<lambda>nt2.
           rbind (or_panic (nt_channels nt2 tok)) (\<lambda>ch2.
           case send_bye (te_ops env) ch2 of
             Ok (_, ch3) \<Rightarrow> Ok (set_channel tok (ch_shutdown ch3) (deregister_channel env ch3 nt2))
           | _ \<Rightarrow> Panic))))"

text \<open>A graceful closing when the channel is connected, otherwise it is dropped.\<close>

definition close_connection ::
    "('v, 't, 'n4, 'r4, 'n6, 'r6, 'c) thread_env \<Rightarrow> nat set \<Rightarrow> socket_addr \<Rightarrow> ('v, 'r, 't, 'n4, 'r4, 'n6, 'r6, 'c) network_thread \<Rightarrow>
     ('v, 'r, 't, 'n4, 'r4, 'n6, 'r6, 'c) thread_result" where
  "close_connection env held addr nt =
     (case get_channel_by_address addr nt of
        None \<Rightarrow> Ok nt
      | Some tok \<Rightarrow>
          rbind (borrow_mut held tok nt) (\<lambda>ch.
            if connected ch then
              (case initiate_graceful_shutdown (te_ops env) ch of
                 Ok ch1 \<Rightarrow> Ok (update_lru env (ch_token ch1) (set_channel tok ch1 nt))
               | _ \<Rightarrow> Panic)
            else drop_channel env tok nt))"

definition count_active_connections ::
    "('v, 't, 'n4, 'r4, 'n6, 'r6, 'c) thread_env \<Rightarrow> nat set \<Rightarrow> ('v, 'r, 't, 'n4, 'r4, 'n6, 'r6, 'c) network_thread \<Rightarrow> nat" where
  "count_active_connections env held nt =
     length (filter (\<lambda>tok. case borrow_mut held tok nt of Ok ch \<Rightarrow> connected ch | _ \<Rightarrow> True) (lru_iter (te_lru env) (nt_token_map nt)))"

text \<open>The loop over the channels, from the least recently used one, for one that is connected.\<close>

fun find_connected ::
    "nat set \<Rightarrow> nat list \<Rightarrow> ('v, 'r, 't, 'n4, 'r4, 'n6, 'r6, 'c) network_thread \<Rightarrow> (tcp_channel option, unit) rresult" where
  "find_connected held [] nt = Ok None"
| "find_connected held (tok # toks) nt =
     rbind (borrow_mut held tok nt) (\<lambda>ch. if connected ch then Ok (Some ch) else find_connected held toks nt)"

definition check_soft_connection_limit ::
    "('v, 't, 'n4, 'r4, 'n6, 'r6, 'c) thread_env \<Rightarrow> nat set \<Rightarrow> ('v, 'r, 't, 'n4, 'r4, 'n6, 'r6, 'c) network_thread \<Rightarrow>
     ('v, 'r, 't, 'n4, 'r4, 'n6, 'r6, 'c) thread_result" where
  "check_soft_connection_limit env held nt =
     (let limit = unat (nc_soft_connection_limit (nt_config nt));
          toks = lru_iter (te_lru env) (nt_token_map nt)
      in if length toks > limit \<and> count_active_connections env held nt > limit then
           rbind (find_connected held (rev toks) nt) (\<lambda>found.
             case found of
               None \<Rightarrow> Ok nt
             | Some ch \<Rightarrow> close_connection env held (ch_address ch) (notify_network_status SoftConnectionLimitExceeded nt))
         else Ok nt)"

text \<open>\<open>check_hard_connection_limit\<close> also notifies the dispatcher when the limit is reached.\<close>

definition check_hard_connection_limit ::
    "('v, 't, 'n4, 'r4, 'n6, 'r6, 'c) thread_env \<Rightarrow> ('v, 'r, 't, 'n4, 'r4, 'n6, 'r6, 'c) network_thread \<Rightarrow>
     bool \<times> ('v, 'r, 't, 'n4, 'r4, 'n6, 'r6, 'c) network_thread" where
  "check_hard_connection_limit env nt =
     (if length (lru_iter (te_lru env) (nt_token_map nt)) \<ge> unat (nc_hard_connection_limit (nt_config nt))
      then (True, notify_network_status HardConnectionLimitReached nt) else (False, nt))"

definition retry_event ::
    "('v, 't, 'n4, 'r4, 'n6, 'r6, 'c) thread_env \<Rightarrow> nat set \<Rightarrow> event_with_retries \<Rightarrow> ('v, 'r, 't, 'n4, 'r4, 'n6, 'r6, 'c) network_thread \<Rightarrow>
     ('v, 'r, 't, 'n4, 'r4, 'n6, 'r6, 'c) thread_result" where
  "retry_event env held ev nt =
     (if ev_retries ev \<le> nc_max_connection_retry_attempts (nt_config nt) then
        rbind (get_retry_event (te_overflow_checks env) ev) (\<lambda>ev'. Ok (nt\<lparr>nt_retry_queue := nt_retry_queue nt @ [ev']\<rparr>))
      else
        (case get_channel_by_token env (ev_token ev) nt of
           (False, nt1) \<Rightarrow> Ok nt1
         | (True, nt1) \<Rightarrow> rbind (borrow_mut held (ev_token ev) nt1) (\<lambda>_. lost_connection env (ev_token ev) nt1)))"

subsection \<open>Delivering messages\<close>

definition deliver_net_message :: "('v, 't, 'n4, 'r4, 'n6, 'r6, 'c) thread_env \<Rightarrow> 'v net_message \<Rightarrow> ('v, 'r, 't, 'n4, 'r4, 'n6, 'r6, 'c) network_thread \<Rightarrow> ('v, 'r, 't, 'n4, 'r4, 'n6, 'r6, 'c) thread_result" where
  "deliver_net_message env m nt =
     (case get_by_actor_path (te_build env) (nm_receiver m) (nt_lookup nt) of
        Ok (LookupRef actor) \<Rightarrow> Ok (nt\<lparr>nt_told := nt_told nt @ [(actor, m)]\<rparr>)
      | Ok (LookupGroup grp) \<Rightarrow>
          (case group_route clone_for_group grp m of
             Ok (calls, grp') \<Rightarrow>
               Ok (nt\<lparr>nt_told := nt_told nt @ calls, nt_lookup := advance_stored_policy (nm_receiver m) (rg_policy grp') (nt_lookup nt)\<rparr>)
           | _ \<Rightarrow> Panic)
      | Ok LookupNone \<Rightarrow> Ok nt
      | Ok (LookupErr _) \<Rightarrow> Ok nt
      | _ \<Rightarrow> Panic)"

fun deliver_all :: "('v, 't, 'n4, 'r4, 'n6, 'r6, 'c) thread_env \<Rightarrow> 'v net_message list \<Rightarrow> ('v, 'r, 't, 'n4, 'r4, 'n6, 'r6, 'c) network_thread \<Rightarrow> ('v, 'r, 't, 'n4, 'r4, 'n6, 'r6, 'c) thread_result" where
  "deliver_all env [] nt = Ok nt"
| "deliver_all env (m # ms) nt = rbind (deliver_net_message env m nt) (deliver_all env ms)"

definition handle_data_frame :: "('v, 't, 'n4, 'r4, 'n6, 'r6, 'c) thread_env \<Rightarrow> chunk_lease \<Rightarrow> uuid \<Rightarrow> ('v, 'r, 't, 'n4, 'r4, 'n6, 'r6, 'c) network_thread \<Rightarrow> ('v, 'r, 't, 'n4, 'r4, 'n6, 'r6, 'c) thread_result" where
  "handle_data_frame env payload sid nt =
     (case deserialise_chunk_lease (debug_assertions (te_build env)) (te_ops env) (te_fresh env) payload of
        Ok m \<Rightarrow> deliver_net_message env (set_session sid m) nt
      | _ \<Rightarrow> Panic)"

subsection \<open>The handshake\<close>

definition handle_hello :: "('v, 't, 'n4, 'r4, 'n6, 'r6, 'c) thread_env \<Rightarrow> nat \<Rightarrow> socket_addr \<Rightarrow> ('v, 'r, 't, 'n4, 'r4, 'n6, 'r6, 'c) network_thread \<Rightarrow> ('v, 'r, 't, 'n4, 'r4, 'n6, 'r6, 'c) thread_result" where
  "handle_hello env tok addr nt =
     (if socket_addr_is_blocked (te_nets env) addr (nt_block_list nt) then drop_channel env tok nt
      else
        rbind (or_panic (nt_channels nt tok)) (\<lambda>ch.
          case ch_handle_hello (te_ops env) addr ch of
            Ok ch1 \<Rightarrow> Ok (set_channel tok ch1 (reregister_channel_address (ch_address ch) addr nt))
          | _ \<Rightarrow> Panic))"

text \<open>
  What a \<open>Start\<close> does to a channel that is already registered for the address of the peer: the
  result tells whether the new channel goes on.
\<close>

definition merge_channels :: "('v, 't, 'n4, 'r4, 'n6, 'r6, 'c) thread_env \<Rightarrow> nat \<Rightarrow> nat \<Rightarrow> uuid \<Rightarrow> ('v, 'r, 't, 'n4, 'r4, 'n6, 'r6, 'c) network_thread \<Rightarrow> (bool \<times> ('v, 'r, 't, 'n4, 'r4, 'n6, 'r6, 'c) network_thread, unit) rresult" where
  "merge_channels env tok other sid nt =
     rbind (borrow_mut {tok} other nt) (\<lambda>och.
       (let (st, och1) = read_state och;
            nt1 = set_channel other och1 nt;
            yield_to = rbind (drop_channel env tok nt1) (\<lambda>nt2. Ok (False, nt2));
            take_over = rbind (drop_channel env other nt1) (\<lambda>nt2. Ok (True, nt2))
        in case st of
             ChConnected _ _ \<Rightarrow>
               if ch_messages och1 = 0 then yield_to
               else rbind (lost_connection env other nt1) (\<lambda>nt2. Ok (True, nt2))
           | Requested _ other_id \<Rightarrow> if other_id > sid then yield_to else take_over
           | Initialised _ other_id \<Rightarrow> if other_id > sid then yield_to else take_over
           | _ \<Rightarrow> take_over))"

definition start_channel :: "('v, 't, 'n4, 'r4, 'n6, 'r6, 'c) thread_env \<Rightarrow> event_with_retries \<Rightarrow> nat \<Rightarrow> socket_addr \<Rightarrow> uuid \<Rightarrow> ('v, 'r, 't, 'n4, 'r4, 'n6, 'r6, 'c) network_thread \<Rightarrow> ('v, 'r, 't, 'n4, 'r4, 'n6, 'r6, 'c) thread_result" where
  "start_channel env ev tok addr sid nt =
     rbind (or_panic (nt_channels nt tok)) (\<lambda>ch.
       case ch_handle_start (te_ops env) addr sid ch of
         Ok ch1 \<Rightarrow>
           rbind (retry_event env {tok} ev (set_channel tok ch1 (reregister_channel_address (ch_address ch) addr nt))) (\<lambda>nt1.
           rbind (check_soft_connection_limit env {tok} nt1) (\<lambda>nt2.
             Ok (notify_network_status (ConnectionEstablished (system_path_with_socket Tcp addr) sid) nt2)))
       | _ \<Rightarrow> Panic)"

definition handle_start :: "('v, 't, 'n4, 'r4, 'n6, 'r6, 'c) thread_env \<Rightarrow> event_with_retries \<Rightarrow> nat \<Rightarrow> socket_addr \<Rightarrow> uuid \<Rightarrow> ('v, 'r, 't, 'n4, 'r4, 'n6, 'r6, 'c) network_thread \<Rightarrow> ('v, 'r, 't, 'n4, 'r4, 'n6, 'r6, 'c) thread_result" where
  "handle_start env ev tok addr sid nt =
     (if socket_addr_is_blocked (te_nets env) addr (nt_block_list nt) then drop_channel env tok nt
      else
        (case get_channel_by_address addr nt of
           None \<Rightarrow> start_channel env ev tok addr sid nt
         | Some other \<Rightarrow>
             rbind (merge_channels env tok other sid nt) (\<lambda>(go_on, nt1).
               if go_on then start_channel env ev tok addr sid nt1 else Ok nt1)))"

definition handle_bye :: "('v, 't, 'n4, 'r4, 'n6, 'r6, 'c) thread_env \<Rightarrow> nat \<Rightarrow> ('v, 'r, 't, 'n4, 'r4, 'n6, 'r6, 'c) network_thread \<Rightarrow> ('v, 'r, 't, 'n4, 'r4, 'n6, 'r6, 'c) thread_result" where
  "handle_bye env tok nt =
     rbind (or_panic (nt_channels nt tok)) (\<lambda>ch.
       case ch_state ch of
         ChClosed addr sid \<Rightarrow>
           reject_outbound_for_channel tok
             (notify_network_status (ConnectionClosed (system_path_with_socket Tcp addr) sid) (deregister_channel env ch nt))
       | CloseReceived _ _ \<Rightarrow> Ok nt
       | _ \<Rightarrow> drop_channel env tok nt)"

definition handle_closed_ack :: "('v, 't, 'n4, 'r4, 'n6, 'r6, 'c) thread_env \<Rightarrow> socket_addr \<Rightarrow> ('v, 'r, 't, 'n4, 'r4, 'n6, 'r6, 'c) network_thread \<Rightarrow> ('v, 'r, 't, 'n4, 'r4, 'n6, 'r6, 'c) thread_result" where
  "handle_closed_ack env addr nt =
     (case get_channel_by_address addr nt of
        Some tok \<Rightarrow> rbind (borrow_mut {} tok nt) (\<lambda>ch. if connected ch then Ok nt else drop_channel env tok nt)
      | None \<Rightarrow> Ok nt)"

subsection \<open>Reading and writing\<close>

text \<open>The loop of \<open>read_tcp\<close>; the first argument bounds it.\<close>

fun read_tcp_loop :: "nat \<Rightarrow> ('v, 't, 'n4, 'r4, 'n6, 'r6, 'c) thread_env \<Rightarrow> event_with_retries \<Rightarrow> ('v, 'r, 't, 'n4, 'r4, 'n6, 'r6, 'c) network_thread \<Rightarrow> ('v, 'r, 't, 'n4, 'r4, 'n6, 'r6, 'c) thread_result" where
  "read_tcp_loop 0 env ev nt = Panic"
| "read_tcp_loop (Suc n) env ev nt =
     (let tok = ev_token ev
      in rbind (or_panic (nt_channels nt tok)) (\<lambda>ch.
         case read_frame (te_fuel env) (te_ops env) (te_fresh env) (te_locks env) (nt_pool nt) ch of
           None \<Rightarrow> Panic
         | Some (r, p, ch1) \<Rightarrow>
             (let nt1 = set_channel tok ch1 (nt\<lparr>nt_pool := p\<rparr>)
              in case r of
                   Ok None \<Rightarrow> Ok nt1
                 | Ok (Some (DataFrame payload)) \<Rightarrow>
                     rbind (or_panic (ch_session_id ch1)) (\<lambda>sid.
                     rbind (handle_data_frame env payload sid nt1) (read_tcp_loop n env ev))
                 | Ok (Some (StartFrame addr sid)) \<Rightarrow> handle_start env ev tok addr sid nt1
                 | Ok (Some (Hello addr)) \<Rightarrow> rbind (handle_hello env tok addr nt1) (read_tcp_loop n env ev)
                 | Ok (Some Ack) \<Rightarrow>
                     rbind (check_soft_connection_limit env {tok} nt1) (\<lambda>nt2.
                     rbind (or_panic (ch_session_id ch1)) (\<lambda>sid.
                       read_tcp_loop n env ev
                         (notify_network_status (ConnectionEstablished (system_path_with_socket Tcp (ch_address ch1)) sid) nt2)))
                 | Ok (Some Bye) \<Rightarrow> handle_bye env tok nt1
                 | Err e \<Rightarrow>
                     if e = IoInvalidInput then retry_event env {} ev (nt1\<lparr>nt_out_of_buffers := True\<rparr>)
                     else if e = IoConnectionReset then lost_connection env tok nt1
                     else Ok nt1
                 | Panic \<Rightarrow> Panic)))"

definition read_tcp :: "('v, 't, 'n4, 'r4, 'n6, 'r6, 'c) thread_env \<Rightarrow> event_with_retries \<Rightarrow> ('v, 'r, 't, 'n4, 'r4, 'n6, 'r6, 'c) network_thread \<Rightarrow> ('v, 'r, 't, 'n4, 'r4, 'n6, 'r6, 'c) thread_result" where
  "read_tcp env ev nt =
     (case get_channel_by_token env (ev_token ev) nt of
        (True, nt1) \<Rightarrow> read_tcp_loop (te_fuel env) env ev nt1
      | (False, nt1) \<Rightarrow> Ok nt1)"

definition write_tcp :: "('v, 't, 'n4, 'r4, 'n6, 'r6, 'c) thread_env \<Rightarrow> nat \<Rightarrow> ('v, 'r, 't, 'n4, 'r4, 'n6, 'r6, 'c) network_thread \<Rightarrow> ('v, 'r, 't, 'n4, 'r4, 'n6, 'r6, 'c) thread_result" where
  "write_tcp env tok nt =
     (case get_channel_by_token env tok nt of
        (True, nt1) \<Rightarrow>
          rbind (borrow_mut {} tok nt1) (\<lambda>ch.
            case try_drain ch of
              (Ok _, ch1) \<Rightarrow>
                (case ch_state ch1 of
                   CloseReceived addr sid \<Rightarrow>
                     (let ch2 = ch1\<lparr>ch_state := ChClosed addr sid\<rparr>
                      in reject_outbound_for_channel tok
                           (notify_network_status (ConnectionClosed (system_path_with_socket Tcp (ch_address ch2)) sid)
                             (deregister_channel env ch2 (set_channel tok ch2 nt1))))
                 | _ \<Rightarrow> Ok (set_channel tok ch1 nt1))
            | (Err e, ch1) \<Rightarrow>
                if e = IoBrokenPipe then lost_connection env tok (set_channel tok ch1 nt1) else Ok (set_channel tok ch1 nt1)
            | (Panic, _) \<Rightarrow> Panic)
      | (False, nt1) \<Rightarrow> Ok nt1)"

text \<open>The UDP state is taken out of the thread while it is used.\<close>

definition read_udp :: "('v, 't, 'n4, 'r4, 'n6, 'r6, 'c) thread_env \<Rightarrow> 'v udp_state \<Rightarrow> event_with_retries \<Rightarrow> ('v, 'r, 't, 'n4, 'r4, 'n6, 'r6, 'c) network_thread \<Rightarrow> (('v, 'r, 't, 'n4, 'r4, 'n6, 'r6, 'c) network_thread \<times> 'v udp_state, unit) rresult" where
  "read_udp env u ev nt =
     (case udp_try_read (debug_assertions (te_build env)) (te_ops env) (te_fresh env) (te_locks env) (nt_pool nt) u of
        (r, p, u1) \<Rightarrow>
          (let nt1 = nt\<lparr>nt_pool := p\<rparr>
           in rbind (case r of
                       Ok _ \<Rightarrow> Ok nt1
                     | Err e \<Rightarrow> if e = IoInvalidInput then retry_event env {} ev (nt1\<lparr>nt_out_of_buffers := True\<rparr>) else Ok nt1
                     | Panic \<Rightarrow> Panic) (\<lambda>nt2.
              rbind (deliver_all env (incoming_messages u1) nt2) (\<lambda>nt3. Ok (nt3, u1\<lparr>incoming_messages := []\<rparr>)))))"

definition write_udp :: "'v udp_state \<Rightarrow> ('v udp_state, unit) rresult" where
  "write_udp u = (case udp_try_write u of (Panic, _) \<Rightarrow> Panic | (_, u') \<Rightarrow> Ok u')"

subsection \<open>Sending\<close>

definition serialise_dispatch_data ::
    "('v, 't, 'n4, 'r4, 'n6, 'r6, 'c) thread_env \<Rightarrow> 'v dispatch_data \<Rightarrow> ('v, 'r, 't, 'n4, 'r4, 'n6, 'r6, 'c) network_thread \<Rightarrow> (serialised_frame, ser_error) rresult \<times> ('v, 'r, 't, 'n4, 'r4, 'n6, 'r6, 'c) network_thread" where
  "serialise_dispatch_data env d nt =
     (case d of
        DD_Serialised f \<Rightarrow> (Ok f, nt)
      | _ \<Rightarrow>
          (case get_buffer_encoder (te_locks env) (nt_encode_buffer nt) of
             (Ok e, _) \<Rightarrow>
               (case into_serialised (te_locks env) (te_ops env) (te_fresh env) d e of
                  Some (r, e') \<Rightarrow> (r, nt\<lparr>nt_encode_buffer := encoder_drop e'\<rparr>)
                | None \<Rightarrow> (Panic, nt))
           | (Err er, eb) \<Rightarrow> (Err er, nt\<lparr>nt_encode_buffer := eb\<rparr>)
           | (Panic, _) \<Rightarrow> (Panic, nt)))"

fun out_of_buffers :: "ser_error \<Rightarrow> bool" where
  "out_of_buffers (NoBuffersAvailable _) = True" | "out_of_buffers _ = False"

definition send_tcp_message :: "('v, 't, 'n4, 'r4, 'n6, 'r6, 'c) thread_env \<Rightarrow> socket_addr \<Rightarrow> 'v dispatch_data \<Rightarrow> ('v, 'r, 't, 'n4, 'r4, 'n6, 'r6, 'c) network_thread \<Rightarrow> ('v, 'r, 't, 'n4, 'r4, 'n6, 'r6, 'c) thread_result" where
  "send_tcp_message env addr d nt =
     (case get_channel_by_address addr nt of
        Some tok \<Rightarrow>
          rbind (borrow_mut {} tok nt) (\<lambda>ch.
            (let nt1 = update_lru env (ch_token ch) nt
             in if connected ch then
                  (case serialise_dispatch_data env d nt1 of
                     (Ok f, nt2) \<Rightarrow> Ok (enqueue_writeable_event (ch_token ch) (set_channel tok (enqueue_serialised f ch) nt2))
                   | (Err er, nt2) \<Rightarrow> Ok (if out_of_buffers er then nt2\<lparr>nt_out_of_buffers := True\<rparr> else nt2)
                   | (Panic, _) \<Rightarrow> Panic)
                else Ok (reject_dispatch_data addr d nt1)))
      | None \<Rightarrow> Ok (reject_dispatch_data addr d nt))"

definition send_udp_message :: "('v, 't, 'n4, 'r4, 'n6, 'r6, 'c) thread_env \<Rightarrow> socket_addr \<Rightarrow> 'v dispatch_data \<Rightarrow> ('v, 'r, 't, 'n4, 'r4, 'n6, 'r6, 'c) network_thread \<Rightarrow> ('v, 'r, 't, 'n4, 'r4, 'n6, 'r6, 'c) thread_result" where
  "send_udp_message env addr d nt =
     (case nt_udp nt of
        Some u \<Rightarrow>
          (case serialise_dispatch_data env d nt of
             (Ok f, nt1) \<Rightarrow> rbind (write_udp (udp_enqueue addr f u)) (\<lambda>u1. Ok (nt1\<lparr>nt_udp := Some u1\<rparr>))
           | (Err er, nt1) \<Rightarrow> Ok (if out_of_buffers er then nt1\<lparr>nt_out_of_buffers := True\<rparr> else nt1)
           | (Panic, _) \<Rightarrow> Panic)
      | None \<Rightarrow> Ok (reject_dispatch_data addr d nt))"

subsection \<open>New connections\<close>

definition store_stream :: "('v, 't, 'n4, 'r4, 'n6, 'r6, 'c) thread_env \<Rightarrow> tcp_stream \<Rightarrow> socket_addr \<Rightarrow> channel_state \<Rightarrow> buffer_chunk \<Rightarrow> ('v, 'r, 't, 'n4, 'r4, 'n6, 'r6, 'c) network_thread \<Rightarrow> ('v, 'r, 't, 'n4, 'r4, 'n6, 'r6, 'c) thread_result" where
  "store_stream env str addr st b nt =
     (let tok = nt_token nt;
          ch = channel_new str tok addr b st (nt_addr nt) (nc_buffer_config (nt_config nt)) (nc_tcp_nodelay (nt_config nt))
      in case initialise (te_ops env) (nt_addr nt) ch of
           Ok ch1 \<Rightarrow>
             Ok (next_token ((set_channel tok ch1 nt)
                  \<lparr>nt_address_map := AList.update addr tok (nt_address_map nt),
                   nt_token_map := lru_put (te_lru env) tok (nt_token_map nt)\<rparr>))
         | _ \<Rightarrow> Panic)"

definition open_stream :: "('v, 't, 'n4, 'r4, 'n6, 'r6, 'c) thread_env \<Rightarrow> socket_addr \<Rightarrow> ('v, 'r, 't, 'n4, 'r4, 'n6, 'r6, 'c) network_thread \<Rightarrow> ('v, 'r, 't, 'n4, 'r4, 'n6, 'r6, 'c) thread_result" where
  "open_stream env addr nt =
     (case check_hard_connection_limit env nt of
        (True, nt1) \<Rightarrow> Ok nt1
      | (False, nt1) \<Rightarrow>
          (case get_buffer (te_locks env) (nt_pool nt1) of
             (Some b, p) \<Rightarrow>
               (case nt_connects nt1 of
                  Some str # cs \<Rightarrow>
                    store_stream env str addr (Requested addr (te_new_unique env (nt_token nt1))) b (nt1\<lparr>nt_pool := p, nt_connects := cs\<rparr>)
                | None # cs \<Rightarrow> Ok (nt1\<lparr>nt_pool := return_buffer b p, nt_connects := cs\<rparr>)
                | [] \<Rightarrow> Ok (nt1\<lparr>nt_pool := return_buffer b p\<rparr>))
           | (None, p) \<Rightarrow> Ok (nt1\<lparr>nt_pool := p, nt_out_of_buffers := True\<rparr>)))"

definition request_stream :: "('v, 't, 'n4, 'r4, 'n6, 'r6, 'c) thread_env \<Rightarrow> socket_addr \<Rightarrow> ('v, 'r, 't, 'n4, 'r4, 'n6, 'r6, 'c) network_thread \<Rightarrow> ('v, 'r, 't, 'n4, 'r4, 'n6, 'r6, 'c) thread_result" where
  "request_stream env addr nt =
     (case get_channel_by_address addr nt of
        None \<Rightarrow> open_stream env addr nt
      | Some tok \<Rightarrow>
          rbind (borrow_mut {} tok nt) (\<lambda>ch.
            case ch_state ch of
              ChConnected _ _ \<Rightarrow> Ok nt
            | ChClosed _ _ \<Rightarrow> Ok nt
            | _ \<Rightarrow> rbind (drop_channel env tok nt) (open_stream env addr)))"

text \<open>The loop of \<open>receive_stream\<close>; when shutting a refused stream down fails, the rest waits for the next event.\<close>

fun accept_loop :: "('v, 't, 'n4, 'r4, 'n6, 'r6, 'c) thread_env \<Rightarrow> accepted_stream list \<Rightarrow> ('v, 'r, 't, 'n4, 'r4, 'n6, 'r6, 'c) network_thread \<Rightarrow> ('v, 'r, 't, 'n4, 'r4, 'n6, 'r6, 'c) thread_result" where
  "accept_loop env [] nt = Ok (nt\<lparr>nt_accepts := []\<rparr>)"
| "accept_loop env (a # as) nt =
     (let refuse = (\<lambda>nt. if as_shutdown_ok a then accept_loop env as nt else Ok (nt\<lparr>nt_accepts := as\<rparr>))
      in if ip_addr_is_blocked (te_nets env) (sock_ip (as_addr a)) (nt_block_list nt) then refuse nt
         else
           (case check_hard_connection_limit env nt of
              (True, nt1) \<Rightarrow> refuse nt1
            | (False, nt1) \<Rightarrow>
                (case get_buffer (te_locks env) (nt_pool nt1) of
                   (Some b, p) \<Rightarrow>
                     rbind (store_stream env (as_stream a) (as_addr a) Initialising b (nt1\<lparr>nt_pool := p\<rparr>)) (accept_loop env as)
                 | (None, p) \<Rightarrow> refuse (nt1\<lparr>nt_pool := p\<rparr>))))"

definition receive_stream :: "('v, 't, 'n4, 'r4, 'n6, 'r6, 'c) thread_env \<Rightarrow> ('v, 'r, 't, 'n4, 'r4, 'n6, 'r6, 'c) network_thread \<Rightarrow> ('v, 'r, 't, 'n4, 'r4, 'n6, 'r6, 'c) thread_result" where
  "receive_stream env nt = accept_loop env (nt_accepts nt) nt"

subsection \<open>Stopping\<close>

fun shut_down_all :: "('v, 't, 'n4, 'r4, 'n6, 'r6, 'c) thread_env \<Rightarrow> (socket_addr \<times> nat) list \<Rightarrow> ('v, 'r, 't, 'n4, 'r4, 'n6, 'r6, 'c) network_thread \<Rightarrow> ('v, 'r, 't, 'n4, 'r4, 'n6, 'r6, 'c) thread_result" where
  "shut_down_all env [] nt = Ok nt"
| "shut_down_all env ((_, tok) # cs) nt =
     rbind (borrow_mut {} tok nt) (\<lambda>ch.
       case initiate_graceful_shutdown (te_ops env) ch of
         Ok ch1 \<Rightarrow>
           shut_down_all env cs ((set_channel tok ch1 nt)\<lparr>nt_token_map := lru_pop (te_lru env) (ch_token ch1) (nt_token_map nt)\<rparr>)
       | _ \<Rightarrow> Panic)"

definition thread_stop :: "('v, 't, 'n4, 'r4, 'n6, 'r6, 'c) thread_env \<Rightarrow> ('v, 'r, 't, 'n4, 'r4, 'n6, 'r6, 'c) network_thread \<Rightarrow> ('v, 'r, 't, 'n4, 'r4, 'n6, 'r6, 'c) thread_result" where
  "thread_stop env nt =
     rbind (shut_down_all env (nt_address_map nt) (nt\<lparr>nt_address_map := []\<rparr>)) (\<lambda>nt1.
       if te_deregister_ok env then Ok (nt1\<lparr>nt_udp := None, nt_stopped := True\<rparr>) else Panic)"

fun kill_all :: "(socket_addr \<times> nat) list \<Rightarrow> ('v, 'r, 't, 'n4, 'r4, 'n6, 'r6, 'c) network_thread \<Rightarrow> ('v, 'r, 't, 'n4, 'r4, 'n6, 'r6, 'c) thread_result" where
  "kill_all [] nt = Ok nt"
| "kill_all ((_, tok) # cs) nt = rbind (borrow_mut {} tok nt) (\<lambda>ch. kill_all cs (set_channel tok (ch_kill ch) nt))"

definition thread_kill :: "('v, 't, 'n4, 'r4, 'n6, 'r6, 'c) thread_env \<Rightarrow> ('v, 'r, 't, 'n4, 'r4, 'n6, 'r6, 'c) network_thread \<Rightarrow> ('v, 'r, 't, 'n4, 'r4, 'n6, 'r6, 'c) thread_result" where
  "thread_kill env nt = rbind (kill_all (nt_address_map nt) (nt\<lparr>nt_address_map := []\<rparr>)) (thread_stop env)"

text \<open>Dropping the thread when it has not been stopped, that is, after a panic.\<close>

fun drop_channels :: "('v, 't, 'n4, 'r4, 'n6, 'r6, 'c) thread_env \<Rightarrow> nat list \<Rightarrow> ('v, 'r, 't, 'n4, 'r4, 'n6, 'r6, 'c) network_thread \<Rightarrow> ('v, 'r, 't, 'n4, 'r4, 'n6, 'r6, 'c) thread_result" where
  "drop_channels env [] nt = Ok nt"
| "drop_channels env (tok # toks) nt =
     rbind (drop_channel env tok (nt\<lparr>nt_token_map := lru_pop (te_lru env) tok (nt_token_map nt)\<rparr>)) (drop_channels env toks)"

definition thread_drop :: "('v, 't, 'n4, 'r4, 'n6, 'r6, 'c) thread_env \<Rightarrow> ('v, 'r, 't, 'n4, 'r4, 'n6, 'r6, 'c) network_thread \<Rightarrow> ('v, 'r, 't, 'n4, 'r4, 'n6, 'r6, 'c) thread_result" where
  "thread_drop env nt = (if nt_stopped nt then Ok nt else drop_channels env (rev (lru_iter (te_lru env) (nt_token_map nt))) nt)"

subsection \<open>Blocking\<close>

text \<open>The loop over the channels of an IP address or network that has been blocked.\<close>

fun drop_blocked :: "('v, 't, 'n4, 'r4, 'n6, 'r6, 'c) thread_env \<Rightarrow> socket_addr list \<Rightarrow> ('v, 'r, 't, 'n4, 'r4, 'n6, 'r6, 'c) network_thread \<Rightarrow> ('v, 'r, 't, 'n4, 'r4, 'n6, 'r6, 'c) thread_result" where
  "drop_blocked env [] nt = Ok nt"
| "drop_blocked env (addr # addrs) nt =
     (case get_channel_by_address addr nt of
        None \<Rightarrow> drop_blocked env addrs nt
      | Some tok \<Rightarrow>
          rbind (borrow_mut {} tok nt) (\<lambda>ch.
          rbind (drop_channel env tok
                  (if connected ch then notify_network_status (ConnectionDropped (system_path_with_socket Tcp addr)) nt else nt))
            (drop_blocked env addrs)))"

definition blocked_sockets :: "('v, 't, 'n4, 'r4, 'n6, 'r6, 'c) thread_env \<Rightarrow> (ip_addr \<Rightarrow> bool) \<Rightarrow> ('v, 'r, 't, 'n4, 'r4, 'n6, 'r6, 'c) network_thread \<Rightarrow> socket_addr list" where
  "blocked_sockets env concerned nt =
     filter (\<lambda>a. concerned (sock_ip a) \<and> socket_addr_is_blocked (te_nets env) a (nt_block_list nt)) (map fst (nt_address_map nt))"

definition block_ip_addr :: "('v, 't, 'n4, 'r4, 'n6, 'r6, 'c) thread_env \<Rightarrow> ip_addr \<Rightarrow> ('v, 'r, 't, 'n4, 'r4, 'n6, 'r6, 'c) network_thread \<Rightarrow> ('v, 'r, 't, 'n4, 'r4, 'n6, 'r6, 'c) thread_result" where
  "block_ip_addr env ip nt =
     (let (changed, bl) = bl_block_ip_addr (te_nets env) ip (nt_block_list nt);
          nt1 = nt\<lparr>nt_block_list := bl\<rparr>
      in rbind (if changed then drop_blocked env (blocked_sockets env ((=) ip) nt1) nt1 else Ok nt1) (\<lambda>nt2.
           Ok (notify_network_status (BlockedIp ip) nt2)))"

definition block_socket_addr :: "('v, 't, 'n4, 'r4, 'n6, 'r6, 'c) thread_env \<Rightarrow> socket_addr \<Rightarrow> ('v, 'r, 't, 'n4, 'r4, 'n6, 'r6, 'c) network_thread \<Rightarrow> ('v, 'r, 't, 'n4, 'r4, 'n6, 'r6, 'c) thread_result" where
  "block_socket_addr env addr nt =
     (let (changed, bl) = bl_block_socket_addr addr (nt_block_list nt);
          nt1 = nt\<lparr>nt_block_list := bl\<rparr>
      in rbind (case get_channel_by_address addr nt1 of
                  Some tok \<Rightarrow> if changed then rbind (borrow_mut {} tok nt1) (\<lambda>_. drop_channel env tok nt1) else Ok nt1
                | None \<Rightarrow> Ok nt1) (\<lambda>nt2.
           Ok (notify_network_status (BlockedSystem (system_path_with_socket Tcp addr)) nt2)))"

definition thread_allow_ip_addr :: "('v, 't, 'n4, 'r4, 'n6, 'r6, 'c) thread_env \<Rightarrow> ip_addr \<Rightarrow> ('v, 'r, 't, 'n4, 'r4, 'n6, 'r6, 'c) network_thread \<Rightarrow> ('v, 'r, 't, 'n4, 'r4, 'n6, 'r6, 'c) network_thread" where
  "thread_allow_ip_addr env ip nt =
     notify_network_status (AllowedIp ip) (nt\<lparr>nt_block_list := snd (bl_allow_ip_addr (te_nets env) ip (nt_block_list nt))\<rparr>)"

definition thread_allow_socket_addr :: "socket_addr \<Rightarrow> ('v, 'r, 't, 'n4, 'r4, 'n6, 'r6, 'c) network_thread \<Rightarrow> ('v, 'r, 't, 'n4, 'r4, 'n6, 'r6, 'c) network_thread" where
  "thread_allow_socket_addr addr nt =
     (let (changed, bl) = bl_allow_socket_addr addr (nt_block_list nt);
          nt1 = nt\<lparr>nt_block_list := bl\<rparr>
      in if changed then notify_network_status (AllowedSystem (system_path_with_socket Tcp addr)) nt1 else nt1)"

definition thread_block_ip_net :: "('v, 't, 'n4, 'r4, 'n6, 'r6, 'c) thread_env \<Rightarrow> ('n4, 'n6) ip_net \<Rightarrow> ('v, 'r, 't, 'n4, 'r4, 'n6, 'r6, 'c) network_thread \<Rightarrow> ('v, 'r, 't, 'n4, 'r4, 'n6, 'r6, 'c) thread_result" where
  "thread_block_ip_net env net nt =
     (let nt1 = nt\<lparr>nt_block_list := bl_block_ip_net (te_nets env) net (nt_block_list nt)\<rparr>
      in rbind (drop_blocked env (blocked_sockets env (ip_net_contains (te_nets env) net) nt1) nt1) (\<lambda>nt2.
           Ok (notify_network_status (BlockedIpNet net) nt2)))"

definition thread_allow_ip_net :: "('v, 't, 'n4, 'r4, 'n6, 'r6, 'c) thread_env \<Rightarrow> ('n4, 'n6) ip_net \<Rightarrow> ('v, 'r, 't, 'n4, 'r4, 'n6, 'r6, 'c) network_thread \<Rightarrow> ('v, 'r, 't, 'n4, 'r4, 'n6, 'r6, 'c) network_thread" where
  "thread_allow_ip_net env net nt =
     notify_network_status (AllowedIpNet net) (nt\<lparr>nt_block_list := bl_allow_ip_net (te_nets env) net (nt_block_list nt)\<rparr>)"

subsection \<open>Events\<close>

fun handle_dispatch_event :: "('v, 't, 'n4, 'r4, 'n6, 'r6, 'c) thread_env \<Rightarrow> ('v dispatch_data, ('n4, 'n6) ip_net) thread_event \<Rightarrow> ('v, 'r, 't, 'n4, 'r4, 'n6, 'r6, 'c) network_thread \<Rightarrow> ('v, 'r, 't, 'n4, 'r4, 'n6, 'r6, 'c) thread_result" where
  "handle_dispatch_event env (SendTcp addr d) nt = send_tcp_message env addr d nt"
| "handle_dispatch_event env (SendUdp addr d) nt = send_udp_message env addr d nt"
| "handle_dispatch_event env StopThread nt = thread_stop env nt"
| "handle_dispatch_event env KillThread nt = thread_kill env nt"
| "handle_dispatch_event env (Connect addr) nt =
     (if socket_addr_is_blocked (te_nets env) addr (nt_block_list nt) then Ok nt else request_stream env addr nt)"
| "handle_dispatch_event env (ClosedAck addr) nt = handle_closed_ack env addr nt"
| "handle_dispatch_event env (Close addr) nt = close_connection env {} addr nt"
| "handle_dispatch_event env (BlockSocket addr) nt = block_socket_addr env addr nt"
| "handle_dispatch_event env (BlockIpAddr ip) nt = block_ip_addr env ip nt"
| "handle_dispatch_event env (AllowSocket addr) nt = Ok (thread_allow_socket_addr addr nt)"
| "handle_dispatch_event env (AllowIpAddr ip) nt = Ok (thread_allow_ip_addr env ip nt)"
| "handle_dispatch_event env (BlockIpNet net) nt = thread_block_ip_net env net nt"
| "handle_dispatch_event env (AllowIpNet net) nt = Ok (thread_allow_ip_net env net nt)"

text \<open>The commands in the input queue; later ones are taken by the next event.\<close>

fun dispatch_loop :: "('v, 't, 'n4, 'r4, 'n6, 'r6, 'c) thread_env \<Rightarrow> ('v dispatch_data, ('n4, 'n6) ip_net) thread_event list \<Rightarrow> ('v, 'r, 't, 'n4, 'r4, 'n6, 'r6, 'c) network_thread \<Rightarrow> ('v, 'r, 't, 'n4, 'r4, 'n6, 'r6, 'c) thread_result" where
  "dispatch_loop env [] nt = Ok nt"
| "dispatch_loop env (e # es) nt = rbind (handle_dispatch_event env e nt) (dispatch_loop env es)"

definition receive_dispatch :: "('v, 't, 'n4, 'r4, 'n6, 'r6, 'c) thread_env \<Rightarrow> ('v, 'r, 't, 'n4, 'r4, 'n6, 'r6, 'c) network_thread \<Rightarrow> ('v, 'r, 't, 'n4, 'r4, 'n6, 'r6, 'c) thread_result" where
  "receive_dispatch env nt = dispatch_loop env (nt_input nt) (nt\<lparr>nt_input := []\<rparr>)"

definition handle_udp_event :: "('v, 't, 'n4, 'r4, 'n6, 'r6, 'c) thread_env \<Rightarrow> event_with_retries \<Rightarrow> ('v, 'r, 't, 'n4, 'r4, 'n6, 'r6, 'c) network_thread \<Rightarrow> ('v, 'r, 't, 'n4, 'r4, 'n6, 'r6, 'c) thread_result" where
  "handle_udp_event env ev nt =
     (case nt_udp nt of
        None \<Rightarrow> Ok nt
      | Some u \<Rightarrow>
          rbind (if ev_writeable ev then write_udp u else Ok u) (\<lambda>u1.
          rbind (if ev_readable ev then read_udp env u1 ev (nt\<lparr>nt_udp := None\<rparr>) else Ok (nt, u1)) (\<lambda>(nt1, u2).
            Ok (nt1\<lparr>nt_udp := Some u2\<rparr>))))"

definition handle_event :: "('v, 't, 'n4, 'r4, 'n6, 'r6, 'c) thread_env \<Rightarrow> event_with_retries \<Rightarrow> ('v, 'r, 't, 'n4, 'r4, 'n6, 'r6, 'c) network_thread \<Rightarrow> ('v, 'r, 't, 'n4, 'r4, 'n6, 'r6, 'c) thread_result" where
  "handle_event env ev nt =
     (if ev_token ev = TCP_SERVER then receive_stream env nt
      else if ev_token ev = UDP_SOCKET then handle_udp_event env ev nt
      else if ev_token ev = DISPATCHER then receive_dispatch env nt
      else
        rbind (if ev_writeable ev then write_tcp env (ev_token ev) nt else Ok nt) (\<lambda>nt1.
          if ev_readable ev then read_tcp env ev nt1 else Ok nt1))"

text \<open>
  One round of \<open>run\<close>: the events of the poll and then those to be retried. A thread that has been stopped completes its
  promise and ends.
\<close>

fun handle_events :: "('v, 't, 'n4, 'r4, 'n6, 'r6, 'c) thread_env \<Rightarrow> event_with_retries list \<Rightarrow> ('v, 'r, 't, 'n4, 'r4, 'n6, 'r6, 'c) network_thread \<Rightarrow> ('v, 'r, 't, 'n4, 'r4, 'n6, 'r6, 'c) thread_result" where
  "handle_events env [] nt = Ok nt"
| "handle_events env (ev # evs) nt =
     rbind (handle_event env ev nt) (\<lambda>nt1.
       if nt_stopped nt1 then Ok (nt1\<lparr>nt_promise := False\<rparr>) else handle_events env evs nt1)"

definition run_round :: "('v, 't, 'n4, 'r4, 'n6, 'r6, 'c) thread_env \<Rightarrow> event_with_retries list \<Rightarrow> ('v, 'r, 't, 'n4, 'r4, 'n6, 'r6, 'c) network_thread \<Rightarrow> ('v, 'r, 't, 'n4, 'r4, 'n6, 'r6, 'c) thread_result" where
  "run_round env polled nt = handle_events env (polled @ nt_retry_queue nt) (nt\<lparr>nt_retry_queue := []\<rparr>)"

end
