(* ===== verification/Thread_Tables.thy ===== *)
theory Thread_Tables
  imports Network_Thread
begin

section \<open>The tables of the network thread\<close>

text \<open>
  The two tables of the network thread and its store of channels stay consistent whatever the poll, the peers and the
  dispatcher do, and the number of channels never exceeds the hard limit, without the cache ever evicting one.
\<close>

text \<open>
  A channel in use: its socket has not been shut down, and its connection is requested, being initialised or established.
  A channel that no table refers to is freed in the source, which drops the last \<open>Rc\<close> of it; here it stays in the store.
\<close>

definition in_use :: "tcp_channel \<Rightarrow> bool" where
  "in_use ch \<longleftrightarrow> \<not> is_shutdown (ch_stream ch) \<and>
     (case ch_state ch of Requested _ _ \<Rightarrow> True | Initialising \<Rightarrow> True | Initialised _ _ \<Rightarrow> True | ChConnected _ _ \<Rightarrow> True | _ \<Rightarrow> False)"

definition tables_ok :: "('v, 't, 'n4, 'r4, 'n6, 'r6, 'c) thread_env \<Rightarrow> ('v, 'r, 't, 'n4, 'r4, 'n6, 'r6, 'c) network_thread \<Rightarrow> bool" where
  "tables_ok env nt \<longleftrightarrow>
     (\<forall>tok ch. nt_channels nt tok = Some ch \<longrightarrow> ch_token ch = tok \<and> START_TOKEN \<le> tok \<and> tok < nt_token nt) \<and>
     START_TOKEN \<le> nt_token nt \<and> cache_ok (te_lru env) (nt_token_map nt) \<and>
     lru_cap (te_lru env) (nt_token_map nt) = unat (nc_hard_connection_limit (nt_config nt)) \<and>
     set (lru_iter (te_lru env) (nt_token_map nt)) \<subseteq> dom (nt_channels nt) \<and>
     (\<forall>p \<in> set (nt_address_map nt). snd p \<in> dom (nt_channels nt)) \<and> distinct (map fst (nt_address_map nt)) \<and>
     (nt_stopped nt \<or> (\<forall>tok ch. nt_channels nt tok = Some ch \<longrightarrow> in_use ch \<longrightarrow> tok \<in> set (lru_iter (te_lru env) (nt_token_map nt))))"

subsection \<open>What the operations keep of a channel\<close>

text \<open>They keep its token, and bring no channel back into use.\<close>

definition keeps :: "tcp_channel \<Rightarrow> tcp_channel \<Rightarrow> bool" where
  "keeps ch ch' \<longleftrightarrow> ch_token ch' = ch_token ch \<and> (in_use ch' \<longrightarrow> in_use ch)"

lemma keeps_refl [simp]: "keeps ch ch"
  by (simp add: keeps_def)

lemma keeps_trans: "keeps a b \<Longrightarrow> keeps b c \<Longrightarrow> keeps a c"
  by (simp add: keeps_def)

lemma keeps_fields [simp]:
  "keeps ch (ch'\<lparr>input_buffer := db\<rparr>) = keeps ch ch'" "keeps ch (ch'\<lparr>outbound_queue := q\<rparr>) = keeps ch ch'"
  "keeps ch (ch'\<lparr>ch_messages := n\<rparr>) = keeps ch ch'" "keeps ch (ch'\<lparr>ch_address := a\<rparr>) = keeps ch ch'"
  "keeps (ch\<lparr>input_buffer := db\<rparr>) ch' = keeps ch ch'"
  by (simp_all add: keeps_def in_use_def)

lemma ch_shutdown_over [simp]: "\<not> in_use (ch_shutdown ch)" "\<not> in_use (ch_kill ch)"
  by (simp_all add: in_use_def ch_shutdown_def ch_kill_def Let_def split: channel_state.splits)

lemma ch_shutdown_token [simp]: "ch_token (ch_shutdown ch) = ch_token ch" "ch_token (ch_kill ch) = ch_token ch"
  by (simp_all add: ch_shutdown_def ch_kill_def Let_def split: channel_state.splits)

lemma channel_new_token [simp]: "ch_token (channel_new str tok addr b st own cfg nd) = tok"
  by (simp add: channel_new_def)

lemma ch_kill_keeps [simp]: "keeps ch (ch_kill ch)" "keeps ch (ch_shutdown ch)"
  by (simp_all add: keeps_def)

lemma take_outbound_keeps: "take_outbound ch = (fs, ch') \<Longrightarrow> keeps ch ch'"
  by (auto simp: take_outbound_def)

lemma try_drain_keeps: "try_drain ch = (r, ch') \<Longrightarrow> keeps ch ch'"
  by (auto simp: try_drain_def keeps_def in_use_def split: prod.splits dest: drain_loop_keeps)

lemma enqueue_keeps [simp]: "keeps ch (enqueue_serialised f ch)" "ch_token (enqueue_serialised f ch) = ch_token ch"
  by (simp_all add: enqueue_serialised_def)

lemma send_frame_shutdown: "send_frame ops f ch = Ok ch' \<Longrightarrow> is_shutdown (ch_stream ch') = is_shutdown (ch_stream ch)"
  by (auto simp: send_frame_def rbind_eq_Ok try_drain_def enqueue_serialised_def Let_def split: prod.splits rresult.splits if_splits
      dest: drain_loop_keeps)

lemmas send_frame_all = send_frame_fields send_frame_shutdown

lemma send_bye_keeps: "send_bye ops ch = Ok (b, ch') \<Longrightarrow> keeps ch ch'"
  by (auto simp: send_bye_def rbind_eq_Ok keeps_def in_use_def send_frame_all)

lemma read_state_keeps: "read_state ch = (st, ch') \<Longrightarrow> keeps ch ch'"
  by (auto simp: read_state_def Let_def keeps_def in_use_def split: option.splits)

lemma initialise_token: "initialise ops addr ch = Ok ch' \<Longrightarrow> ch_token ch' = ch_token ch"
  by (auto simp: initialise_def send_frame_fields split: if_splits)

lemma ch_handle_hello_keeps: "ch_handle_hello ops addr ch = Ok ch' \<Longrightarrow> keeps ch ch'"
  by (auto simp: ch_handle_hello_def rbind_eq_Ok keeps_def in_use_def send_frame_all split: channel_state.splits)

lemma ch_handle_start_keeps: "ch_handle_start ops addr sid ch = Ok ch' \<Longrightarrow> keeps ch ch'"
  by (auto simp: ch_handle_start_def rbind_eq_Ok keeps_def in_use_def send_frame_all split: if_splits)

lemma graceful_keeps: "initiate_graceful_shutdown ops ch = Ok ch' \<Longrightarrow> keeps ch ch'"
  by (auto simp: initiate_graceful_shutdown_def rbind_eq_Ok send_bye_def keeps_def in_use_def send_frame_all split: channel_state.splits)

lemma ch_handle_ack_keeps: "ch_handle_ack ch = Ok ch' \<Longrightarrow> keeps ch ch'"
  by (auto simp: ch_handle_ack_def rbind_eq_Ok keeps_def in_use_def split: channel_state.splits)

lemma ch_handle_bye_keeps: "ch_handle_bye ops ch = Ok ch' \<Longrightarrow> keeps ch ch'"
  by (auto simp: ch_handle_bye_def send_bye_def rbind_eq_Ok keeps_def in_use_def send_frame_all split: channel_state.splits if_splits)

lemma receive_loop_keeps: "receive_loop i ch = (r, ch') \<Longrightarrow> keeps ch ch'"
proof (induction i ch arbitrary: r ch' rule: receive_loop.induct)
  case (1 i ch)
  have s: "keeps ch (ch\<lparr>ch_stream := s'\<rparr>)" if "stream_read room (ch_stream ch) = (x, s')" for room x s'
    using that by (auto simp: stream_read_def keeps_def in_use_def split: list.splits read_outcome.splits if_splits)
  note step = receive_loop.simps [of i ch]
  show ?case
  proof (cases "\<exists>lo hi. get_writeable (input_buffer ch) = Ok (Some (lo, hi))")
    case True
    then obtain lo hi where gw: "get_writeable (input_buffer ch) = Ok (Some (lo, hi))" by blast
    obtain x s' where rd: "stream_read (hi - lo) (ch_stream ch) = (x, s')" by force
    note ih = 1(1) [OF gw refl refl rd [symmetric], of _ r ch'] 1(2) [OF gw refl refl rd [symmetric], of _ r ch']
    show ?thesis using step 1(3) gw rd s [OF rd] ih keeps_trans
      by (auto split: rresult.splits if_splits)
  qed (use step 1(3) in \<open>auto split: rresult.splits option.splits\<close>)
qed

lemma decode_and_react_keeps: "decode_and_react ops fresh ch = (r, ch') \<Longrightarrow> keeps ch ch'"
  by (auto simp: decode_and_react_def ch_decode_def Let_def split: prod.splits rresult.splits frame.splits framing_error.splits if_splits
      dest: ch_handle_ack_keeps ch_handle_bye_keeps)

lemma read_frame_keeps: "read_frame n ops fresh sc p ch = Some (r, p', ch') \<Longrightarrow> keeps ch ch'"
proof (induction n arbitrary: p ch)
  case (Suc n)
  obtain h db where h: "has_frame ops fresh (input_buffer ch) = (h, db)" by force
  obtain r1 ch1 where rc: "receive (ch\<lparr>input_buffer := db\<rparr>) = (r1, ch1)" by force
  have t1: "keeps ch ch1" using receive_loop_keeps rc by (fastforce simp: receive_def)
  obtain h1 db1 where h1: "has_frame ops fresh (input_buffer ch1) = (h1, db1)" by force
  show ?case using Suc.prems t1 h rc h1
    by (auto simp: Let_def split: rresult.splits bool.splits prod.splits option.splits if_splits dest!: decode_and_react_keeps Suc.IH intro: keeps_trans)
qed simp

subsection \<open>Steps that keep the tables\<close>

lemma tables_fields [simp]:
  "tables_ok env (nt\<lparr>nt_pool := p\<rparr>) = tables_ok env nt" "tables_ok env (nt\<lparr>nt_retry_queue := q\<rparr>) = tables_ok env nt"
  "tables_ok env (nt\<lparr>nt_out_of_buffers := b\<rparr>) = tables_ok env nt" "tables_ok env (nt\<lparr>nt_encode_buffer := eb\<rparr>) = tables_ok env nt"
  "tables_ok env (nt\<lparr>nt_block_list := bl\<rparr>) = tables_ok env nt" "tables_ok env (nt\<lparr>nt_told := ts\<rparr>) = tables_ok env nt"
  "tables_ok env (nt\<lparr>nt_lookup := s\<rparr>) = tables_ok env nt" "tables_ok env (nt\<lparr>nt_udp := u\<rparr>) = tables_ok env nt"
  "tables_ok env (nt\<lparr>nt_accepts := as\<rparr>) = tables_ok env nt" "tables_ok env (nt\<lparr>nt_connects := cs\<rparr>) = tables_ok env nt"
  "tables_ok env (nt\<lparr>nt_input := es\<rparr>) = tables_ok env nt"
  "tables_ok env (nt\<lparr>nt_promise := b\<rparr>) = tables_ok env nt" "tables_ok env (notify_network_status st nt) = tables_ok env nt"
  "tables_ok env (reject_dispatch_data addr d nt) = tables_ok env nt" "tables_ok env (enqueue_writeable_event tok nt) = tables_ok env nt"
  by (simp_all add: tables_ok_def notify_network_status_def reject_dispatch_data_def enqueue_writeable_event_def)

lemma tables_rejected [simp]: "tables_ok env (fold (\<lambda>f. reject_dispatch_data addr (g f)) fs nt) = tables_ok env nt"
  by (induction fs arbitrary: nt) simp_all

lemma tables_stopped: "tables_ok env nt \<Longrightarrow> tables_ok env (nt\<lparr>nt_stopped := True\<rparr>)"
  by (simp add: tables_ok_def)

lemma tables_set_channel:
  "rel_option keeps (nt_channels nt tok) (Some ch) \<Longrightarrow> tables_ok env nt \<Longrightarrow> tables_ok env (set_channel tok ch nt)"
  by (auto simp: tables_ok_def set_channel_def keeps_def option_rel_Some2)

lemma tables_token: "tables_ok env nt \<Longrightarrow> nt_channels nt tok = Some ch \<Longrightarrow> ch_token ch = tok"
  by (auto simp: tables_ok_def)

lemma set_AList_delete: "set (AList.delete k xs) \<subseteq> set xs"
  by (induction xs) auto

lemma tables_delete: "tables_ok env nt \<Longrightarrow> tables_ok env (nt\<lparr>nt_address_map := AList.delete addr (nt_address_map nt)\<rparr>)"
  using set_AList_delete [of addr "nt_address_map nt"] unfolding tables_ok_def by (auto simp: distinct_delete)

lemma tables_no_addresses: "tables_ok env nt \<Longrightarrow> tables_ok env (nt\<lparr>nt_address_map := []\<rparr>)"
  by (simp add: tables_ok_def)

lemma tables_update:
  assumes "tables_ok env nt" "tok \<in> dom (nt_channels nt)"
  shows "tables_ok env (nt\<lparr>nt_address_map := AList.update addr tok (nt_address_map nt)\<rparr>)"
  using assms set_AList_update [of addr tok "nt_address_map nt"] unfolding tables_ok_def by (auto simp: distinct_update)

lemma tables_reregister: "tables_ok env nt \<Longrightarrow> tables_ok env (reregister_channel_address old new nt)"
proof (cases "map_of (nt_address_map nt) old")
  case (Some tok)
  assume ok: "tables_ok env nt"
  have "tok \<in> dom (nt_channels nt)" using ok map_of_SomeD [OF Some] by (force simp: tables_ok_def)
  then show ?thesis using tables_update [OF tables_delete [OF ok], of tok old new] Some by (simp add: reregister_channel_address_def)
qed (simp add: reregister_channel_address_def)

lemma reregister_channels [simp]: "nt_channels (reregister_channel_address old new nt) = nt_channels nt"
  by (simp add: reregister_channel_address_def split: option.splits)

lemma thread_fields [simp]:
  "nt_channels (notify_network_status st nt) = nt_channels nt" "nt_channels (reject_dispatch_data addr d nt) = nt_channels nt"
  "nt_channels (enqueue_writeable_event tok nt) = nt_channels nt" "nt_channels (deregister_channel env ch nt) = nt_channels nt"
  "nt_channels (set_channel tok ch nt) = (nt_channels nt)(tok \<mapsto> ch)" "nt_channels (update_lru env tok nt) = nt_channels nt"
  "nt_channels (snd (get_channel_by_token env tok nt)) = nt_channels nt"
  by (simp_all add: notify_network_status_def reject_dispatch_data_def enqueue_writeable_event_def deregister_channel_def set_channel_def
      update_lru_def get_channel_by_token_def split: prod.splits)

lemma or_panic_Ok [simp]: "or_panic x = Ok a \<longleftrightarrow> x = Some a"
  by (cases x) simp_all

lemma rbind_OkE: "rbind x f = Ok b \<Longrightarrow> (\<And>a. x = Ok a \<Longrightarrow> f a = Ok b \<Longrightarrow> P) \<Longrightarrow> P"
  by (auto simp: rbind_eq_Ok)

lemma borrow_Ok: "borrow_mut held tok nt = Ok ch \<longleftrightarrow> tok \<notin> held \<and> nt_channels nt tok = Some ch"
  by (simp add: borrow_mut_def)

locale thread_tables =
  fixes env :: "('v, 't, 'n4, 'r4, 'n6, 'r6, 'c) thread_env"
  assumes lru: "lru_documented (te_lru env)"
begin

lemma tables_get:
  assumes "tables_ok env nt" "get_channel_by_token env tok nt = (b, nt')"
  shows "tables_ok env nt'"
proof -
  obtain c where c: "lru_get (te_lru env) tok (nt_token_map nt) = (b, c)" "nt' = nt\<lparr>nt_token_map := c\<rparr>"
    using assms(2) by (auto simp: get_channel_by_token_def split: prod.splits)
  show ?thesis using assms(1) lru_cache.get_keeps [OF lru_cache.intro [OF lru], where k = tok and c = "nt_token_map nt"]
      lru_cache.get_cap [OF lru_cache.intro [OF lru], where k = tok and c = "nt_token_map nt"] c
    by (simp add: tables_ok_def)
qed

end

sublocale thread_tables \<subseteq> cache: lru_cache "te_lru env"
  by unfold_locales (rule lru)

context thread_tables begin

lemma tables_update_lru: "tables_ok env nt \<Longrightarrow> tables_ok env (update_lru env tok nt)"
  using tables_get [of nt tok] by (cases "get_channel_by_token env tok nt") (simp add: update_lru_def)

lemma tables_pop:
  assumes "tables_ok env nt" "nt_stopped nt \<or> (\<forall>ch. nt_channels nt tok = Some ch \<longrightarrow> \<not> in_use ch)"
  shows "tables_ok env (nt\<lparr>nt_token_map := lru_pop (te_lru env) tok (nt_token_map nt)\<rparr>)"
proof -
  have "set (lru_iter (te_lru env) (lru_pop (te_lru env) tok (nt_token_map nt))) = set (lru_iter (te_lru env) (nt_token_map nt)) - {tok}"
    using assms(1) by (simp add: tables_ok_def cache.pop_iter(1) cache_ok_def)
  then show ?thesis using assms cache.pop_keeps(3) [where k = tok and c = "nt_token_map nt"]
    by (auto simp: tables_ok_def cache.pop_iter(2))
qed

lemma tables_deregister:
  "tables_ok env nt \<Longrightarrow> nt_stopped nt \<or> (\<forall>ch'. nt_channels nt (ch_token ch) = Some ch' \<longrightarrow> \<not> in_use ch') \<Longrightarrow> tables_ok env (deregister_channel env ch nt)"
  by (simp add: deregister_channel_def tables_pop)

lemma tables_deregister_over: "tables_ok env nt \<Longrightarrow> nt_channels nt tok = Some ch \<Longrightarrow> \<not> in_use ch \<Longrightarrow> tables_ok env (deregister_channel env ch nt)"
  using tables_deregister [of nt ch] tables_token [of env nt tok ch] by auto

text \<open>Ending a channel: it is no longer in use when it is taken from the cache, in whichever order the two happen.\<close>

lemma tables_close_channel:
  assumes "tables_ok env nt" "nt_channels nt tok = Some ch" "ch_token ch' = ch_token ch" "\<not> in_use ch'"
  shows "tables_ok env (deregister_channel env ch' (set_channel tok ch' nt))"
proof -
  have "tables_ok env (set_channel tok ch' nt)" using tables_set_channel [OF _ assms(1)] assms(2-4) by (simp add: keeps_def)
  moreover have "nt_channels (set_channel tok ch' nt) tok = Some ch'" by simp
  ultimately show ?thesis using tables_deregister_over assms(4) by blast
qed

lemma tables_end_channel:
  assumes "tables_ok env nt" "nt_channels nt tok = Some ch" "ch_token ch' = ch_token ch" "\<not> in_use ch'"
  shows "tables_ok env (set_channel tok ch' (deregister_channel env ch nt))"
  using tables_close_channel [OF assms] assms(3) by (simp add: deregister_channel_def set_channel_def tables_ok_def)

lemma tables_drop_channel:
  assumes "tables_ok env nt" "drop_channel env tok nt = Ok nt'"
  shows "tables_ok env nt'"
proof -
  obtain ch db old where d: "nt_channels nt tok = Some ch"
    "nt' = set_channel tok ((ch_shutdown ch)\<lparr>input_buffer := db\<rparr>)
       ((deregister_channel env ch nt)\<lparr>nt_address_map := AList.delete (ch_address ch) (nt_address_map (deregister_channel env ch nt)),
         nt_pool := return_buffer old (nt_pool (deregister_channel env ch nt))\<rparr>)"
    using assms(2) by (auto elim!: rbind_OkE simp: drop_channel_def Let_def split: rresult.splits prod.splits)
  have "\<not> in_use ((ch_shutdown ch)\<lparr>input_buffer := db\<rparr>)" using ch_shutdown_over(1) [of ch] by (simp add: in_use_def)
  then have "tables_ok env (set_channel tok ((ch_shutdown ch)\<lparr>input_buffer := db\<rparr>) (deregister_channel env ch nt))"
    using tables_end_channel [OF assms(1) d(1)] by simp
  from tables_delete [OF this, of "ch_address ch"] show ?thesis unfolding d(2) by (simp add: set_channel_def tables_ok_def)
qed

lemma tables_reject_outbound:
  "tables_ok env nt \<Longrightarrow> reject_outbound_for_channel tok nt = Ok nt' \<Longrightarrow> tables_ok env nt'"
  by (auto elim!: rbind_OkE simp: reject_outbound_for_channel_def take_outbound_def intro!: tables_set_channel split: prod.splits)

lemma tables_lost_connection:
  assumes "tables_ok env nt" "lost_connection env tok nt = Ok nt'"
  shows "tables_ok env nt'"
proof -
  obtain ch where ch: "nt_channels nt tok = Some ch" using assms(2) by (auto elim!: rbind_OkE simp: lost_connection_def)
  define nt1 where "nt1 = (case ch_session_id ch of
    Some sid \<Rightarrow> notify_network_status (ConnectionLost (system_path_with_socket Tcp (ch_address ch)) sid) nt | None \<Rightarrow> nt)"
  have "tables_ok env nt1" using assms(1) by (simp add: nt1_def split: option.splits)
  moreover obtain nt2 ch2 b ch3 where "reject_outbound_for_channel tok nt1 = Ok nt2" "nt_channels nt2 tok = Some ch2"
    "send_bye (te_ops env) ch2 = Ok (b, ch3)" "nt' = set_channel tok (ch_shutdown ch3) (deregister_channel env ch3 nt2)"
    using assms(2) ch by (auto elim!: rbind_OkE simp: lost_connection_def nt1_def [symmetric] Let_def split: rresult.splits prod.splits)
  note l = calculation this
  have "ch_token ch3 = ch_token ch2" using send_bye_keeps [OF l(4)] by (simp add: keeps_def)
  then show ?thesis using tables_end_channel [OF tables_reject_outbound [OF l(1,2)] l(3), of "ch_shutdown ch3"] l(5)
    by (simp add: deregister_channel_def)
qed

lemma tables_close_connection: "tables_ok env nt \<Longrightarrow> close_connection env held addr nt = Ok nt' \<Longrightarrow> tables_ok env nt'"
  by (auto elim!: rbind_OkE simp: close_connection_def borrow_Ok graceful_keeps split: option.splits if_splits rresult.splits
      intro!: tables_update_lru tables_set_channel dest: tables_drop_channel)

lemma tables_check_soft: "tables_ok env nt \<Longrightarrow> check_soft_connection_limit env held nt = Ok nt' \<Longrightarrow> tables_ok env nt'"
  by (auto elim!: rbind_OkE simp: check_soft_connection_limit_def Let_def split: if_splits option.splits dest!: tables_close_connection [rotated])

lemma tables_check_hard: "tables_ok env nt \<Longrightarrow> check_hard_connection_limit env nt = (b, nt') \<Longrightarrow> tables_ok env nt'"
  by (auto elim!: rbind_OkE simp: check_hard_connection_limit_def split: if_splits)

lemma tables_retry_event: "tables_ok env nt \<Longrightarrow> retry_event env held ev nt = Ok nt' \<Longrightarrow> tables_ok env nt'"
  by (auto elim!: rbind_OkE simp: retry_event_def split: if_splits prod.splits bool.splits dest: tables_get tables_lost_connection)

lemma tables_deliver: "tables_ok env nt \<Longrightarrow> deliver_net_message env m nt = Ok nt' \<Longrightarrow> tables_ok env nt'"
  by (auto elim!: rbind_OkE simp: deliver_net_message_def split: rresult.splits lookup_result.splits prod.splits)

lemma tables_deliver_all: "tables_ok env nt \<Longrightarrow> deliver_all env ms nt = Ok nt' \<Longrightarrow> tables_ok env nt'"
  by (induction ms arbitrary: nt) (auto elim!: rbind_OkE dest: tables_deliver)

lemma tables_data_frame: "tables_ok env nt \<Longrightarrow> handle_data_frame env payload sid nt = Ok nt' \<Longrightarrow> tables_ok env nt'"
  by (auto elim!: rbind_OkE simp: handle_data_frame_def split: rresult.splits dest: tables_deliver)

lemma tables_hello: "tables_ok env nt \<Longrightarrow> handle_hello env tok addr nt = Ok nt' \<Longrightarrow> tables_ok env nt'"
  by (auto elim!: rbind_OkE simp: handle_hello_def ch_handle_hello_keeps split: if_splits rresult.splits
      intro!: tables_set_channel tables_reregister dest: tables_drop_channel)

lemma tables_merge: "tables_ok env nt \<Longrightarrow> merge_channels env tok other sid nt = Ok (b, nt') \<Longrightarrow> tables_ok env nt'"
  by (auto elim!: rbind_OkE simp: merge_channels_def Let_def borrow_Ok read_state_keeps split: prod.splits channel_state.splits if_splits
      dest!: tables_drop_channel [rotated] tables_lost_connection [rotated] intro!: tables_set_channel)

lemma tables_start_channel: "tables_ok env nt \<Longrightarrow> start_channel env ev tok addr sid nt = Ok nt' \<Longrightarrow> tables_ok env nt'"
  by (auto elim!: rbind_OkE simp: start_channel_def ch_handle_start_keeps split: rresult.splits
      dest!: tables_retry_event [rotated] tables_check_soft [rotated] intro!: tables_set_channel tables_reregister)

lemma tables_start: "tables_ok env nt \<Longrightarrow> handle_start env ev tok addr sid nt = Ok nt' \<Longrightarrow> tables_ok env nt'"
  by (auto elim!: rbind_OkE simp: handle_start_def split: if_splits option.splits dest!: tables_drop_channel [rotated] tables_merge [rotated] tables_start_channel [rotated])

lemma tables_bye:
  assumes "tables_ok env nt" "handle_bye env tok nt = Ok nt'"
  shows "tables_ok env nt'"
proof -
  obtain ch where ch: "nt_channels nt tok = Some ch" using assms(2) by (auto elim!: rbind_OkE simp: handle_bye_def)
  have closed: "tables_ok env (deregister_channel env ch nt)" if "ch_state ch = ChClosed a sid" for a sid
    using tables_deregister_over [OF assms(1) ch] that by (simp add: in_use_def)
  show ?thesis using assms ch
    by (auto simp: handle_bye_def split: channel_state.splits dest!: tables_drop_channel [rotated] tables_reject_outbound [rotated] dest: closed)
qed

lemma tables_closed_ack: "tables_ok env nt \<Longrightarrow> handle_closed_ack env addr nt = Ok nt' \<Longrightarrow> tables_ok env nt'"
  by (auto elim!: rbind_OkE simp: handle_closed_ack_def split: option.splits if_splits dest!: tables_drop_channel [rotated])

lemma tables_read_loop: "tables_ok env nt \<Longrightarrow> read_tcp_loop n env ev nt = Ok nt' \<Longrightarrow> tables_ok env nt'"
proof (induction n arbitrary: nt)
  case (Suc n)
  let ?tok = "ev_token ev"
  obtain ch r p ch1 where ch: "nt_channels nt ?tok = Some ch"
    "read_frame (te_fuel env) (te_ops env) (te_fresh env) (te_locks env) (nt_pool nt) ch = Some (r, p, ch1)"
    using Suc.prems(2) by (auto elim!: rbind_OkE simp: Let_def split: option.splits)
  let ?nt1 = "set_channel ?tok ch1 (nt\<lparr>nt_pool := p\<rparr>)"
  have ok: "tables_ok env ?nt1" using tables_set_channel [of "nt\<lparr>nt_pool := p\<rparr>" ?tok ch1] read_frame_keeps [OF ch(2)] ch(1) Suc.prems(1) by simp
  show ?case using Suc.prems(2) ok ch
    by (auto elim!: rbind_OkE simp: Let_def split: rresult.splits option.splits frame.splits if_splits
        dest!: tables_data_frame [rotated] tables_hello [rotated] tables_check_soft [rotated] tables_start [rotated] tables_bye [rotated]
          tables_retry_event [rotated] tables_lost_connection [rotated] Suc.IH [rotated])
qed simp

lemma tables_read_tcp: "tables_ok env nt \<Longrightarrow> read_tcp env ev nt = Ok nt' \<Longrightarrow> tables_ok env nt'"
  by (auto simp: read_tcp_def split: prod.splits bool.splits dest: tables_get tables_read_loop)

lemma tables_write_tcp:
  assumes "tables_ok env nt" "write_tcp env tok nt = Ok nt'"
  shows "tables_ok env nt'"
proof -
  obtain b nt1 where g: "get_channel_by_token env tok nt = (b, nt1)" by force
  note ok1 = tables_get [OF assms(1) g]
  show ?thesis
  proof (cases b)
    case True
    then obtain ch r ch1 where ch: "nt_channels nt1 tok = Some ch" "try_drain ch = (r, ch1)"
      using assms(2) g by (auto elim!: rbind_OkE simp: write_tcp_def borrow_Ok split: prod.splits)
    have ch1: "ch_token ch1 = ch_token ch" using try_drain_keeps [OF ch(2)] by (simp add: keeps_def)
    have ok2: "tables_ok env (set_channel tok ch1 nt1)"
      using tables_set_channel [OF _ ok1] try_drain_keeps [OF ch(2)] ch(1) by simp
    show ?thesis
    proof (cases "\<exists>n a sid. r = Ok n \<and> ch_state ch1 = CloseReceived a sid")
      case True
      then obtain n a sid where st: "r = Ok n" "ch_state ch1 = CloseReceived a sid" by blast
      let ?ch = "ch1\<lparr>ch_state := ChClosed a sid\<rparr>"
      have rej: "reject_outbound_for_channel tok (notify_network_status (ConnectionClosed (system_path_with_socket Tcp (ch_address ?ch)) sid)
          (deregister_channel env ?ch (set_channel tok ?ch nt1))) = Ok nt'"
        using assms(2) g \<open>b\<close> ch st by (simp add: write_tcp_def borrow_mut_def Let_def)
      have "tables_ok env (deregister_channel env ?ch (set_channel tok ?ch nt1))"
        using tables_close_channel [OF ok1 ch(1), of ?ch] ch1 by (simp add: in_use_def)
      then show ?thesis using tables_reject_outbound [OF _ rej] by simp
    next
      case False
      then have "nt' = set_channel tok ch1 nt1 \<or> lost_connection env tok (set_channel tok ch1 nt1) = Ok nt'"
        using assms(2) g \<open>b\<close> ch by (cases r; cases "ch_state ch1") (simp_all add: write_tcp_def borrow_mut_def split: if_splits)
      then show ?thesis using tables_lost_connection ok2 by blast
    qed
  qed (use assms(2) g ok1 in \<open>simp add: write_tcp_def\<close>)
qed

lemma tables_serialise: "tables_ok env nt \<Longrightarrow> serialise_dispatch_data env d nt = (r, nt') \<Longrightarrow> tables_ok env nt' \<and> nt_channels nt' = nt_channels nt"
  by (auto simp: serialise_dispatch_data_def split: dispatch_data.splits prod.splits rresult.splits option.splits)

lemma tables_send_tcp: "tables_ok env nt \<Longrightarrow> send_tcp_message env addr d nt = Ok nt' \<Longrightarrow> tables_ok env nt'"
  by (auto elim!: rbind_OkE simp: send_tcp_message_def borrow_Ok Let_def tables_update_lru
      split: option.splits prod.splits rresult.splits if_splits dest!: tables_serialise [rotated] intro!: tables_set_channel)

lemma tables_send_udp: "tables_ok env nt \<Longrightarrow> send_udp_message env addr d nt = Ok nt' \<Longrightarrow> tables_ok env nt'"
  by (auto elim!: rbind_OkE simp: send_udp_message_def split: option.splits prod.splits rresult.splits if_splits dest!: tables_serialise [rotated])

text \<open>A new stream gets a token of its own, and there is room for it.\<close>

lemma tables_store_stream:
  assumes "tables_ok env nt" "store_stream env str addr st b nt = Ok nt'"
    and "length (lru_iter (te_lru env) (nt_token_map nt)) < unat (nc_hard_connection_limit (nt_config nt))"
  shows "tables_ok env nt'" "lru_iter (te_lru env) (nt_token_map nt') = nt_token nt # lru_iter (te_lru env) (nt_token_map nt)"
proof -
  let ?tok = "nt_token nt"
  obtain ch where ch: "initialise (te_ops env) (nt_addr nt) (channel_new str ?tok addr b st (nt_addr nt)
      (nc_buffer_config (nt_config nt)) (nc_tcp_nodelay (nt_config nt))) = Ok ch"
    "nt' = next_token ((set_channel ?tok ch nt)\<lparr>nt_address_map := AList.update addr ?tok (nt_address_map nt),
        nt_token_map := lru_put (te_lru env) ?tok (nt_token_map nt)\<rparr>)"
    using assms(2) by (auto simp: store_stream_def Let_def split: rresult.splits)
  have tok: "ch_token ch = ?tok" using initialise_token [OF ch(1)] by simp
  have fresh: "?tok \<notin> dom (nt_channels nt)" using assms(1) by (auto simp: tables_ok_def)
  then have "?tok \<notin> set (lru_iter (te_lru env) (nt_token_map nt))" using assms(1) by (auto simp: tables_ok_def)
  then have put: "lru_iter (te_lru env) (lru_put (te_lru env) ?tok (nt_token_map nt)) = ?tok # lru_iter (te_lru env) (nt_token_map nt)"
    "lru_cap (te_lru env) (lru_put (te_lru env) ?tok (nt_token_map nt)) = lru_cap (te_lru env) (nt_token_map nt)"
    "cache_ok (te_lru env) (lru_put (te_lru env) ?tok (nt_token_map nt))"
    using cache.put_keeps assms(1,3) by (auto simp: tables_ok_def)
  then show "lru_iter (te_lru env) (nt_token_map nt') = ?tok # lru_iter (te_lru env) (nt_token_map nt)"
    by (simp add: ch(2) next_token_def set_channel_def)
  show "tables_ok env nt'" using assms(1) put tok fresh set_AList_update [of addr ?tok "nt_address_map nt"]
    unfolding tables_ok_def ch(2) by (auto simp: next_token_def set_channel_def distinct_update less_Suc_eq START_TOKEN_def)
qed


lemma check_hard_room:
  "check_hard_connection_limit env nt = (False, nt') \<Longrightarrow>
     nt' = nt \<and> length (lru_iter (te_lru env) (nt_token_map nt)) < unat (nc_hard_connection_limit (nt_config nt))"
  by (auto simp: check_hard_connection_limit_def split: if_splits)

lemma tables_open_stream: "tables_ok env nt \<Longrightarrow> open_stream env addr nt = Ok nt' \<Longrightarrow> tables_ok env nt'"
  by (auto simp: open_stream_def split: prod.splits bool.splits option.splits list.splits
      dest: tables_check_hard dest!: check_hard_room tables_store_stream(1) [rotated])

lemma tables_request_stream: "tables_ok env nt \<Longrightarrow> request_stream env addr nt = Ok nt' \<Longrightarrow> tables_ok env nt'"
  by (auto elim!: rbind_OkE simp: request_stream_def split: option.splits channel_state.splits
      dest!: tables_open_stream [rotated] tables_drop_channel [rotated])

lemma tables_accept_loop: "tables_ok env nt \<Longrightarrow> accept_loop env as nt = Ok nt' \<Longrightarrow> tables_ok env nt'"
proof (induction as arbitrary: nt)
  case (Cons a as)
  have refuse: "tables_ok env nt'" if "tables_ok env nt1" "(if as_shutdown_ok a then accept_loop env as nt1 else Ok (nt1\<lparr>nt_accepts := as\<rparr>)) = Ok nt'" for nt1
    using that Cons.IH by (auto split: if_splits)
  obtain full nt1 where hard: "check_hard_connection_limit env nt = (full, nt1)" by force
  note ok1 = tables_check_hard [OF Cons.prems(1) hard]
  obtain b p where g: "get_buffer (te_locks env) (nt_pool nt1) = (b, p)" by force
  show ?case
  proof (cases "ip_addr_is_blocked (te_nets env) (sock_ip (as_addr a)) (nt_block_list nt)")
    case True
    then show ?thesis using refuse [OF Cons.prems(1)] Cons.prems(2) by (simp add: Let_def)
  next
    case allowed: False
    show ?thesis
    proof (cases "full \<or> b = None")
      case True
      then show ?thesis using refuse [OF ok1] refuse [of "nt1\<lparr>nt_pool := p\<rparr>"] ok1 Cons.prems(2) allowed hard g
        by (auto simp: Let_def split: bool.splits)
    next
      case False
      then obtain c nt2 where "store_stream env (as_stream a) (as_addr a) Initialising c (nt1\<lparr>nt_pool := p\<rparr>) = Ok nt2" "accept_loop env as nt2 = Ok nt'"
        using Cons.prems(2) allowed hard g by (auto elim!: rbind_OkE simp: Let_def)
      then show ?thesis using Cons.IH [of nt2] tables_store_stream(1) [of "nt1\<lparr>nt_pool := p\<rparr>"] ok1 check_hard_room [of nt nt1] hard False by auto
    qed
  qed
qed auto

lemma tables_shut_down_all: "tables_ok env nt \<Longrightarrow> nt_stopped nt \<Longrightarrow> shut_down_all env cs nt = Ok nt' \<Longrightarrow> tables_ok env nt'"
proof (induction cs arbitrary: nt)
  case (Cons c cs)
  obtain addr tok where c: "c = (addr, tok)" by force
  obtain ch ch1 where ch: "nt_channels nt tok = Some ch" "initiate_graceful_shutdown (te_ops env) ch = Ok ch1"
    "shut_down_all env cs ((set_channel tok ch1 nt)\<lparr>nt_token_map := lru_pop (te_lru env) (ch_token ch1) (nt_token_map nt)\<rparr>) = Ok nt'"
    using Cons.prems(3) c by (auto elim!: rbind_OkE simp: borrow_Ok split: rresult.splits)
  have "tables_ok env (set_channel tok ch1 nt)" using tables_set_channel [OF _ Cons.prems(1)] graceful_keeps [OF ch(2)] ch(1) by simp
  from tables_pop [OF this, of "ch_token ch1"] show ?case using Cons.IH [OF _ _ ch(3)] Cons.prems(2) by (simp add: set_channel_def)
qed simp

text \<open>Stopping pops channels that are still being initialised; the thread then is stopped, and it makes no difference to mark it as such before.\<close>

lemma shut_down_all_stopped:
  "shut_down_all env cs (nt\<lparr>nt_stopped := b\<rparr>) = rbind (shut_down_all env cs nt) (\<lambda>nt1. Ok (nt1\<lparr>nt_stopped := b\<rparr>))"
proof (induction cs arbitrary: nt)
  case (Cons c cs)
  obtain addr tok where c: "c = (addr, tok)" by force
  have "(set_channel tok ch (nt\<lparr>nt_stopped := b\<rparr>))\<lparr>nt_token_map := m\<rparr> = ((set_channel tok ch nt)\<lparr>nt_token_map := m\<rparr>)\<lparr>nt_stopped := b\<rparr>" for ch m
    by (simp add: set_channel_def)
  then show ?case using Cons.IH c
    by (cases "nt_channels nt tok") (auto simp: borrow_mut_def split: rresult.splits)
qed simp

lemma tables_stop:
  assumes "tables_ok env nt" "thread_stop env nt = Ok nt'"
  shows "tables_ok env nt'"
proof -
  let ?nt = "nt\<lparr>nt_address_map := []\<rparr>"
  obtain nt1 where s: "shut_down_all env (nt_address_map nt) ?nt = Ok nt1" "nt' = nt1\<lparr>nt_udp := None, nt_stopped := True\<rparr>"
    using assms(2) by (auto elim!: rbind_OkE simp: thread_stop_def split: if_splits)
  have "shut_down_all env (nt_address_map nt) (?nt\<lparr>nt_stopped := True\<rparr>) = Ok (nt1\<lparr>nt_stopped := True\<rparr>)"
    using s(1) shut_down_all_stopped [where cs = "nt_address_map nt" and nt = ?nt and b = True] by simp
  from tables_shut_down_all [OF tables_stopped [OF tables_no_addresses [OF assms(1)]] _ this] show ?thesis
    by (simp add: s(2) tables_ok_def)
qed

lemma tables_kill_all: "tables_ok env nt \<Longrightarrow> kill_all cs nt = Ok nt' \<Longrightarrow> tables_ok env nt'"
proof (induction cs arbitrary: nt)
  case (Cons c cs)
  then show ?case by (cases c) (auto elim!: rbind_OkE simp: borrow_Ok dest!: Cons.IH [rotated] intro!: tables_set_channel)
qed simp

lemma tables_kill: "tables_ok env nt \<Longrightarrow> thread_kill env nt = Ok nt' \<Longrightarrow> tables_ok env nt'"
  by (auto elim!: rbind_OkE simp: thread_kill_def tables_no_addresses dest!: tables_stop [rotated] tables_kill_all [rotated])

lemma tables_drop_blocked: "tables_ok env nt \<Longrightarrow> drop_blocked env addrs nt = Ok nt' \<Longrightarrow> tables_ok env nt'"
proof (induction addrs arbitrary: nt)
  case (Cons a addrs)
  then show ?case
    by (auto elim!: rbind_OkE split: option.splits if_splits dest!: Cons.IH [rotated] tables_drop_channel [rotated])
qed simp

lemma tables_block_ip: "tables_ok env nt \<Longrightarrow> block_ip_addr env ip nt = Ok nt' \<Longrightarrow> tables_ok env nt'"
  by (auto elim!: rbind_OkE simp: block_ip_addr_def Let_def split: prod.splits if_splits dest!: tables_drop_blocked [rotated])

lemma tables_block_socket: "tables_ok env nt \<Longrightarrow> block_socket_addr env addr nt = Ok nt' \<Longrightarrow> tables_ok env nt'"
  by (auto elim!: rbind_OkE simp: block_socket_addr_def Let_def split: prod.splits option.splits if_splits dest!: tables_drop_channel [rotated])

lemma tables_block_net: "tables_ok env nt \<Longrightarrow> thread_block_ip_net env net nt = Ok nt' \<Longrightarrow> tables_ok env nt'"
  by (auto elim!: rbind_OkE simp: thread_block_ip_net_def Let_def dest!: tables_drop_blocked [rotated])

lemma tables_allow [simp]:
  "tables_ok env (thread_allow_ip_addr env ip nt) = tables_ok env nt" "tables_ok env (thread_allow_socket_addr addr nt) = tables_ok env nt"
  "tables_ok env (thread_allow_ip_net env net nt) = tables_ok env nt"
  by (simp_all add: thread_allow_ip_addr_def thread_allow_socket_addr_def thread_allow_ip_net_def Let_def split: prod.splits)

lemma tables_dispatch_event: "tables_ok env nt \<Longrightarrow> handle_dispatch_event env e nt = Ok nt' \<Longrightarrow> tables_ok env nt'"
  by (cases e)
    (auto split: if_splits dest: tables_send_tcp tables_send_udp tables_stop tables_kill tables_request_stream tables_closed_ack
      tables_close_connection tables_block_ip tables_block_socket tables_block_net)

lemma tables_dispatch_loop: "tables_ok env nt \<Longrightarrow> dispatch_loop env es nt = Ok nt' \<Longrightarrow> tables_ok env nt'"
  by (induction es arbitrary: nt) (auto elim!: rbind_OkE dest!: tables_dispatch_event [rotated])

lemma tables_udp_event: "tables_ok env nt \<Longrightarrow> handle_udp_event env ev nt = Ok nt' \<Longrightarrow> tables_ok env nt'"
  by (auto elim!: rbind_OkE simp: handle_udp_event_def read_udp_def Let_def split: option.splits if_splits prod.splits rresult.splits
      dest!: tables_deliver_all [rotated] tables_retry_event [rotated])

lemma tables_event: "tables_ok env nt \<Longrightarrow> handle_event env ev nt = Ok nt' \<Longrightarrow> tables_ok env nt'"
  by (auto elim!: rbind_OkE simp: handle_event_def receive_stream_def receive_dispatch_def split: if_splits
      dest!: tables_accept_loop [rotated] tables_udp_event [rotated] tables_write_tcp [rotated] tables_read_tcp [rotated]
        tables_dispatch_loop [rotated])

lemma tables_events: "tables_ok env nt \<Longrightarrow> handle_events env evs nt = Ok nt' \<Longrightarrow> tables_ok env nt'"
  by (induction evs arbitrary: nt) (auto elim!: rbind_OkE split: if_splits dest!: tables_event [rotated])

lemma tables_round: "tables_ok env nt \<Longrightarrow> run_round env polled nt = Ok nt' \<Longrightarrow> tables_ok env nt'"
  by (auto simp: run_round_def dest!: tables_events [rotated])

end

subsection \<open>Reachable states\<close>

text \<open>
  Between two rounds, peers connect, the sockets get new results, the dispatcher sends commands and
  changes the table of actors.
\<close>

definition world_change :: "('v, 'r, 't, 'n4, 'r4, 'n6, 'r6, 'c) network_thread \<Rightarrow> ('v, 'r, 't, 'n4, 'r4, 'n6, 'r6, 'c) network_thread \<Rightarrow> bool" where
  "world_change nt nt' \<longleftrightarrow>
     (\<exists>as cs es store u strs. nt' = nt\<lparr>nt_accepts := as, nt_connects := cs, nt_input := es, nt_lookup := store, nt_udp := u,
        nt_channels := (\<lambda>tok. map_option (\<lambda>ch. ch\<lparr>ch_stream := (strs tok)\<lparr>is_shutdown := is_shutdown (ch_stream ch)\<rparr>\<rparr>) (nt_channels nt tok))\<rparr>)"

inductive thread_reachable :: "('v, 't, 'n4, 'r4, 'n6, 'r6, 'c) thread_env \<Rightarrow> ('v, 'r, 't, 'n4, 'r4, 'n6, 'r6, 'c) network_thread \<Rightarrow> bool"
  for env where
  built: "thread_build env addr udp custom cfg store = Ok nt \<Longrightarrow> thread_reachable env nt"
| world: "thread_reachable env nt \<Longrightarrow> world_change nt nt' \<Longrightarrow> thread_reachable env nt'"
| round: "thread_reachable env nt \<Longrightarrow> run_round env polled nt = Ok nt' \<Longrightarrow> thread_reachable env nt'"

lemma dom_map_option: "dom (\<lambda>k. map_option (f k) (m k)) = dom m"
  by (auto simp: dom_def)

lemma tables_world:
  assumes "tables_ok env nt" "world_change nt nt'"
  shows "tables_ok env nt'"
proof -
  obtain strs where "nt_channels nt' = (\<lambda>tok. map_option (\<lambda>ch. ch\<lparr>ch_stream := (strs tok)\<lparr>is_shutdown := is_shutdown (ch_stream ch)\<rparr>\<rparr>) (nt_channels nt tok))"
    "nt_stopped nt' = nt_stopped nt" "nt_address_map nt' = nt_address_map nt" "nt_token_map nt' = nt_token_map nt" "nt_token nt' = nt_token nt" "nt_config nt' = nt_config nt"
    using assms(2) by (auto simp: world_change_def)
  moreover have "in_use (ch\<lparr>ch_stream := s\<lparr>is_shutdown := is_shutdown (ch_stream ch)\<rparr>\<rparr>) = in_use ch" for ch s by (simp add: in_use_def)
  ultimately show ?thesis using assms(1) by (simp add: tables_ok_def dom_map_option) auto
qed

context thread_tables begin

lemma tables_build: "thread_build env addr udp custom cfg store = Ok nt \<Longrightarrow> tables_ok env nt"
  by (auto elim!: rbind_OkE simp: thread_build_def tables_ok_def cache.new_facts split: prod.splits option.splits if_splits)

lemma reachable_tables: "thread_reachable env nt \<Longrightarrow> tables_ok env nt"
  by (induction rule: thread_reachable.induct) (auto dest: tables_build tables_world tables_round)

end

text \<open>
  C6: Whatever the poll, the peers, the operating system and the dispatcher do, until the thread is stopped every
  channel in use (requested, being initialised or connected, its socket not shut down) is in the table that the events of the
  poll are looked up in, and there are never more of them than the hard connection limit allows: a new connection is refused instead of
  evicting another one from that table. Every token in the table and every token registered for an address was given out
  once, to the channel that carries it.
\<close>

theorem connection_tables_consistent:
  assumes "lru_documented (te_lru env)" "thread_reachable env nt"
  shows "(nt_stopped nt \<or>
      (\<forall>tok ch. nt_channels nt tok = Some ch \<and> in_use ch \<longrightarrow> tok \<in> set (lru_iter (te_lru env) (nt_token_map nt))) \<and>
      card {tok. \<exists>ch. nt_channels nt tok = Some ch \<and> in_use ch} \<le> unat (nc_hard_connection_limit (nt_config nt))) \<and>
    distinct (lru_iter (te_lru env) (nt_token_map nt)) \<and>
    (\<forall>tok. tok \<in> set (lru_iter (te_lru env) (nt_token_map nt)) \<union> snd ` set (nt_address_map nt) \<longrightarrow>
       (\<exists>ch. nt_channels nt tok = Some ch \<and> ch_token ch = tok \<and> START_TOKEN \<le> tok \<and> tok < nt_token nt))"
proof -
  let ?cache = "lru_iter (te_lru env) (nt_token_map nt)" and ?used = "{tok. \<exists>ch. nt_channels nt tok = Some ch \<and> in_use ch}"
  have ok: "tables_ok env nt" using thread_tables.reachable_tables [OF thread_tables.intro [OF assms(1)] assms(2)] .
  have dist: "distinct ?cache" "length ?cache \<le> unat (nc_hard_connection_limit (nt_config nt))" using ok by (auto simp: tables_ok_def cache_ok_def)
  have used: "?used \<subseteq> set ?cache" if "\<not> nt_stopped nt" using ok that by (auto simp: tables_ok_def)
  have "card ?used \<le> unat (nc_hard_connection_limit (nt_config nt))" if "\<not> nt_stopped nt"
    using card_mono [OF _ used [OF that]] dist(2) distinct_card [OF dist(1)] by simp
  then show ?thesis using used dist(1) ok by (auto simp: tables_ok_def)
qed

text \<open>A thread with room for two channels.\<close>

type_synonym prefix_env = "(unit, nat, u32 \<times> nat, (bool \<times> u32 \<times> nat) list, u128 \<times> nat, (bool \<times> u128 \<times> nat) list, nat \<times> nat list) thread_env"

definition sample_thread_env :: prefix_env where
  "sample_thread_env =
     \<lparr>te_build = \<lparr>debug_assertions = True, implicit_routes = False, default_select = \<lparr>hash_one = of_nat, field_extractor = (\<lambda>_. 0)\<rparr>\<rparr>,
      te_ops = be_buf_ops, te_lru = list_lru, te_nets = prefix_nets, te_fresh = 99, te_new_unique = of_nat, te_locks = (\<lambda>_. 1),
      te_overflow_checks = True, te_deregister_ok = True, te_fuel = 100\<rparr>"

interpretation sample_tables: thread_tables sample_thread_env
  by unfold_locales (simp add: sample_thread_env_def)

definition two_channel_config :: network_config where
  "two_channel_config = network_config_default
     \<lparr>nc_hard_connection_limit := 2, nc_buffer_config := \<lparr>chunk_size = 128, initial_chunk_count = 1, max_chunk_count = 3, encode_buf_min_free_space = 64\<rparr>\<rparr>"

definition quiet_socket :: udp_socket where
  "quiet_socket = \<lparr>send_outcomes = [], recv_outcomes = [], datagrams = []\<rparr>"

text \<open>Three peers connect to a thread with room for two channels.\<close>

definition knocking :: "u32 \<Rightarrow> accepted_stream" where
  "knocking n = \<lparr>as_stream = \<lparr>write_outcomes = [], read_outcomes = [], accepted = [], is_shutdown = False, nodelay_refused = False, pending_error = None\<rparr>,
     as_addr = \<lparr>sock_ip = V4 n, sock_port = 9\<rparr>, as_shutdown_ok = True\<rparr>"

definition visited_thread ::
    "(unit, nat, nat, u32 \<times> nat, (bool \<times> u32 \<times> nat) list, u128 \<times> nat, (bool \<times> u128 \<times> nat) list, nat \<times> nat list) thread_result" where
  "visited_thread =
     rbind (thread_build sample_thread_env \<lparr>sock_ip = V4 1, sock_port = 9\<rparr> (Some quiet_socket) None two_channel_config store_new) (\<lambda>nt.
       run_round sample_thread_env [event_from TCP_SERVER True False] (nt\<lparr>nt_accepts := [knocking 2, knocking 3, knocking 4]\<rparr>))"

lemma visited_thread_reached: "visited_thread = Ok nt \<Longrightarrow> thread_reachable sample_thread_env nt"
proof -
  assume "visited_thread = Ok nt"
  then obtain nt0 where nt0: "thread_build sample_thread_env \<lparr>sock_ip = V4 1, sock_port = 9\<rparr> (Some quiet_socket) None two_channel_config store_new = Ok nt0"
    "run_round sample_thread_env [event_from TCP_SERVER True False] (nt0\<lparr>nt_accepts := [knocking 2, knocking 3, knocking 4]\<rparr>) = Ok nt"
    by (auto simp: visited_thread_def elim!: rbind_OkE)
  have "world_change nt0 (nt0\<lparr>nt_accepts := [knocking 2, knocking 3, knocking 4]\<rparr>)"
    unfolding world_change_def
    by (rule exI [of _ "[knocking 2, knocking 3, knocking 4]"], rule exI [of _ "nt_connects nt0"], rule exI [of _ "nt_input nt0"],
        rule exI [of _ "nt_lookup nt0"], rule exI [of _ "nt_udp nt0"],
        rule exI [of _ "\<lambda>tok. case nt_channels nt0 tok of Some ch \<Rightarrow> ch_stream ch | None \<Rightarrow> undefined"])
      (auto simp: fun_eq_iff option.map_ident intro!: network_thread.equality split: option.splits)
  then show ?thesis using thread_reachable.intros nt0 by meson
qed

lemma visited_thread_build:
  "\<exists>nt b. thread_build sample_thread_env \<lparr>sock_ip = V4 1, sock_port = 9\<rparr> (Some quiet_socket) None two_channel_config store_new =
       (Ok nt :: (unit, nat, nat, u32 \<times> nat, (bool \<times> u32 \<times> nat) list, u128 \<times> nat, (bool \<times> u128 \<times> nat) list, nat \<times> nat list) thread_result) \<and>
     nt_channels nt = Map.empty \<and> nt_token nt = 3 \<and> nt_token_map nt = (2, []) \<and> nt_retry_queue nt = [] \<and> \<not> nt_stopped nt \<and>
     nt_config nt = two_channel_config \<and> nt_notified nt = [] \<and> nt_block_list nt = block_list_default prefix_nets \<and>
     nt_pool nt = \<lparr>pool = [], pool_size = 1, alloc_chunk = b, next_lock = 1, pool_chunk_size = 128, max_pool_size = 3\<rparr>"
  by (simp add: thread_build_def sample_thread_env_def two_channel_config_def pool_with_config_def config_validate_def
        encode_buffer_with_config_def new_buffer_def get_buffer_def try_reclaim_def free_def from_chunk_def Let_def START_TOKEN_def list_lru_def)

lemma store_knocking:
  "\<exists>ch. in_use ch \<and> store_stream sample_thread_env (as_stream (knocking n)) a Initialising b nt =
     Ok (next_token ((set_channel (nt_token nt) ch nt)\<lparr>nt_address_map := AList.update a (nt_token nt) (nt_address_map nt),
       nt_token_map := lru_put list_lru (nt_token nt) (nt_token_map nt)\<rparr>))"
proof -
  let ?ch = "channel_new (as_stream (knocking n)) (nt_token nt) a b Initialising (nt_addr nt) (nc_buffer_config (nt_config nt)) (nc_tcp_nodelay (nt_config nt))"
  have "queue_ok ?ch" by (simp add: queue_ok_def channel_new_def)
  then obtain ch where ch: "send_frame be_buf_ops (Hello (nt_addr nt)) ?ch = Ok ch"
    using send_frame_emits [OF be_buf_ops_documented, of ?ch "Hello (nt_addr nt)"] by auto
  have "in_use ?ch" "ch_state ?ch = Initialising" by (simp_all add: in_use_def channel_new_def knocking_def)
  then have "in_use ch" using send_frame_all(2,7) [OF ch] by (simp add: in_use_def)
  then show ?thesis using ch \<open>ch_state ?ch = Initialising\<close>
    by (intro exI [of _ ch]) (simp add: store_stream_def initialise_def sample_thread_env_def Let_def)
qed

lemma accept_knocking:
  assumes "nt_block_list nt = block_list_default prefix_nets" "nt_config nt = two_channel_config"
    and "nt_token_map nt = (2, toks)" "length toks < 2" "distinct (nt_token nt # toks)" "pool (nt_pool nt) = []" "pool_size (nt_pool nt) < max_pool_size (nt_pool nt)"
  shows "\<exists>ch nt1. in_use ch \<and> accept_loop sample_thread_env (knocking n # as) nt = accept_loop sample_thread_env as nt1 \<and>
    nt_channels nt1 = (nt_channels nt)(nt_token nt \<mapsto> ch) \<and> nt_token nt1 = nt_token nt + 1 \<and> nt_token_map nt1 = (2, nt_token nt # toks) \<and>
    pool (nt_pool nt1) = [] \<and> pool_size (nt_pool nt1) = pool_size (nt_pool nt) + 1 \<and> max_pool_size (nt_pool nt1) = max_pool_size (nt_pool nt) \<and>
    nt_block_list nt1 = nt_block_list nt \<and> nt_config nt1 = nt_config nt \<and> nt_stopped nt1 = nt_stopped nt \<and> nt_notified nt1 = nt_notified nt"
proof -
  let ?p = "(nt_pool nt)\<lparr>pool_size := pool_size (nt_pool nt) + 1, next_lock := Suc (next_lock (nt_pool nt))\<rparr>"
  obtain b where g: "get_buffer (\<lambda>_. 1) (nt_pool nt) = (Some b, ?p)"
    using assms(6,7) by (auto simp: get_buffer_def try_reclaim_def increase_pool_def new_buffer_def)
  obtain ch where ch: "in_use ch" "store_stream sample_thread_env (as_stream (knocking n)) (as_addr (knocking n)) Initialising b (nt\<lparr>nt_pool := ?p\<rparr>) =
     Ok (next_token ((set_channel (nt_token nt) ch (nt\<lparr>nt_pool := ?p\<rparr>))\<lparr>nt_address_map := AList.update (as_addr (knocking n)) (nt_token nt) (nt_address_map nt),
       nt_token_map := lru_put list_lru (nt_token nt) (nt_token_map nt)\<rparr>))"
    using store_knocking [of n "as_addr (knocking n)" b "nt\<lparr>nt_pool := ?p\<rparr>"] by auto
  have "\<not> ip_addr_is_blocked (te_nets sample_thread_env) (sock_ip (as_addr (knocking n))) (nt_block_list nt)"
    by (simp add: sample_thread_env_def knocking_def ip_addr_is_blocked_def assms(1) block_list_default_def prefix_nets_def prefix_ranges_def Let_def)
  moreover have "check_hard_connection_limit sample_thread_env nt = (False, nt)"
    using assms(2-4) by (simp add: check_hard_connection_limit_def sample_thread_env_def two_channel_config_def list_lru_def)
  moreover have "lru_put list_lru (nt_token nt) (nt_token_map nt) = (2, nt_token nt # toks)" using assms(3-5) by (simp add: list_lru_def remove1_idem)
  moreover have "te_locks sample_thread_env = (\<lambda>_. 1)" by (simp add: sample_thread_env_def)
  moreover define nt1 where "nt1 = next_token ((set_channel (nt_token nt) ch (nt\<lparr>nt_pool := ?p\<rparr>))
     \<lparr>nt_address_map := AList.update (as_addr (knocking n)) (nt_token nt) (nt_address_map nt),
       nt_token_map := lru_put list_lru (nt_token nt) (nt_token_map nt)\<rparr>)"
  ultimately show ?thesis using ch g
    by (intro exI [of _ ch] exI [of _ nt1]) (simp add: Let_def nt1_def next_token_def set_channel_def assms(6))
qed

lemma visited_thread_channels:
  "\<exists>nt ch1 ch2. visited_thread = Ok nt \<and> nt_channels nt = [3 \<mapsto> ch1, 4 \<mapsto> ch2] \<and> in_use ch1 \<and> in_use ch2 \<and> \<not> nt_stopped nt \<and>
     nt_notified nt = [NetworkEvent HardConnectionLimitReached]"
proof -
  let ?as = "[knocking 2, knocking 3, knocking 4]"
  obtain nt b where nt: "thread_build sample_thread_env \<lparr>sock_ip = V4 1, sock_port = 9\<rparr> (Some quiet_socket) None two_channel_config store_new =
       (Ok nt :: (unit, nat, nat, u32 \<times> nat, (bool \<times> u32 \<times> nat) list, u128 \<times> nat, (bool \<times> u128 \<times> nat) list, nat \<times> nat list) thread_result)"
     "nt_channels nt = Map.empty" "nt_token nt = 3" "nt_token_map nt = (2, [])" "nt_retry_queue nt = []" "\<not> nt_stopped nt"
     "nt_config nt = two_channel_config" "nt_notified nt = []" "nt_block_list nt = block_list_default prefix_nets"
     "nt_pool nt = \<lparr>pool = [], pool_size = 1, alloc_chunk = b, next_lock = 1, pool_chunk_size = 128, max_pool_size = 3\<rparr>"
    using visited_thread_build by blast
  let ?nt = "nt\<lparr>nt_accepts := ?as, nt_retry_queue := []\<rparr>"
  obtain ch1 nt1 where a1: "in_use ch1" "accept_loop sample_thread_env ?as ?nt = accept_loop sample_thread_env [knocking 3, knocking 4] nt1"
    "nt_channels nt1 = [3 \<mapsto> ch1]" "nt_token nt1 = 4" "nt_token_map nt1 = (2, [3])" "pool (nt_pool nt1) = []" "pool_size (nt_pool nt1) = 2" "max_pool_size (nt_pool nt1) = 3"
    "nt_block_list nt1 = block_list_default prefix_nets" "nt_config nt1 = two_channel_config" "\<not> nt_stopped nt1" "nt_notified nt1 = []"
    using accept_knocking [of ?nt "[]" 2 "[knocking 3, knocking 4]"] nt by auto
  obtain ch2 nt2 where a2: "in_use ch2" "accept_loop sample_thread_env [knocking 3, knocking 4] nt1 = accept_loop sample_thread_env [knocking 4] nt2"
    "nt_channels nt2 = [3 \<mapsto> ch1, 4 \<mapsto> ch2]" "nt_token_map nt2 = (2, [4, 3])"
    "nt_block_list nt2 = block_list_default prefix_nets" "nt_config nt2 = two_channel_config" "\<not> nt_stopped nt2" "nt_notified nt2 = []"
    using accept_knocking [of nt1 "[3]" 3 "[knocking 4]"] a1 by auto
  have "\<not> ip_addr_is_blocked (te_nets sample_thread_env) (sock_ip (as_addr (knocking 4))) (nt_block_list nt2)"
    by (simp add: sample_thread_env_def knocking_def ip_addr_is_blocked_def a2(5) block_list_default_def prefix_nets_def prefix_ranges_def Let_def)
  moreover have "check_hard_connection_limit sample_thread_env nt2 = (True, notify_network_status HardConnectionLimitReached nt2)"
    using a2(4,6) by (simp add: check_hard_connection_limit_def sample_thread_env_def two_channel_config_def list_lru_def)
  ultimately have "accept_loop sample_thread_env [knocking 4] nt2 = Ok ((notify_network_status HardConnectionLimitReached nt2)\<lparr>nt_accepts := []\<rparr>)"
    by (simp add: knocking_def)
  then have "visited_thread = Ok ((notify_network_status HardConnectionLimitReached nt2)\<lparr>nt_accepts := []\<rparr>)"
    using nt(1,5) a1(2) a2(2,7) by (simp add: visited_thread_def run_round_def handle_event_def event_from_def receive_stream_def notify_network_status_def)
  then show ?thesis using a1(1) a2(1,3,7,8)
    by (intro exI [of _ "(notify_network_status HardConnectionLimitReached nt2)\<lparr>nt_accepts := []\<rparr>"] exI [of _ ch1] exI [of _ ch2])
      (simp add: notify_network_status_def)
qed

theorem connection_tables_consistent_witness:
  "\<exists>nt. visited_thread = Ok nt \<and> card {tok. \<exists>ch. nt_channels nt tok = Some ch \<and> in_use ch} = 2 \<and>
     nt_notified nt = [NetworkEvent HardConnectionLimitReached] \<and> {3, 4} \<subseteq> set (lru_iter list_lru (nt_token_map nt))"
proof -
  obtain nt ch1 ch2 where nt: "visited_thread = Ok nt" "nt_channels nt = [3 \<mapsto> ch1, 4 \<mapsto> ch2]" "in_use ch1" "in_use ch2" "\<not> nt_stopped nt"
    "nt_notified nt = [NetworkEvent HardConnectionLimitReached]"
    using visited_thread_channels by blast
  have "lru_documented (te_lru sample_thread_env)" "te_lru sample_thread_env = list_lru" by (simp_all add: sample_thread_env_def)
  note all = connection_tables_consistent [OF this(1) visited_thread_reached [OF nt(1)], unfolded this(2)]
  have "{tok. \<exists>ch. nt_channels nt tok = Some ch \<and> in_use ch} = {3, 4}" using nt(2-4) by (auto split: if_splits)
  then show ?thesis using all nt by auto
qed

end
