(* ===== verification/Thread_Connections.thy ===== *)
theory Thread_Connections
  imports Thread_Tables
begin

section \<open>Connections of the network thread\<close>

text \<open>
  What becomes of a connection: when two systems connect to each other at the same time, both keep the same
  channel; blocking an address ends its channel and keeps it from coming back; and the frames of a lost
  connection are given back to the dispatcher in order. The last lemmas show how a peer can
  make the thread panic.
\<close>

subsection \<open>Dropping and losing a channel\<close>

text \<open>Dropping a channel that has a well-formed buffer always succeeds.\<close>

lemma drop_channel_spec:
  assumes "nt_channels nt tok = Some ch" "db_wf (input_buffer ch)"
  shows "\<exists>db p. drop_channel env tok nt =
    Ok (nt\<lparr>nt_token_map := lru_pop (te_lru env) (ch_token ch) (nt_token_map nt),
           nt_address_map := AList.delete (ch_address ch) (nt_address_map nt), nt_pool := p,
           nt_channels := (nt_channels nt)(tok \<mapsto> (ch_shutdown ch)\<lparr>input_buffer := db\<rparr>)\<rparr>) \<and>
    Decode_Buffer.stream db = Decode_Buffer.stream (input_buffer ch)"
proof -
  have "is_free (te_locks env) (from_chunk [] (te_fresh env))" by (simp add: is_free_def from_chunk_def)
  moreover have "input_buffer (ch_shutdown ch) = input_buffer ch" by (simp add: ch_shutdown_def ch_kill_def Let_def split: channel_state.splits)
  ultimately obtain db where "swap_buffer (te_locks env) (from_chunk [] (te_fresh env)) (input_buffer (ch_shutdown ch)) =
      Ok (db, lock_chunk (db_buffer (input_buffer ch)))" "Decode_Buffer.stream db = Decode_Buffer.stream (input_buffer ch)"
    using swap_buffer_spec [OF assms(2)] by metis
  then show ?thesis using assms(1)
    by (auto simp: drop_channel_def Let_def deregister_channel_def set_channel_def intro!: exI [of _ db])
qed

text \<open>Rejected frames are told to the dispatcher in the order of the queue.\<close>

definition rejections :: "socket_addr \<Rightarrow> serialised_frame list \<Rightarrow> ('v dispatch_data, 'n) dispatcher_event list" where
  "rejections addr fs = map (\<lambda>f. RejectedData addr (DD_Serialised f)) fs"

lemma fold_reject: "fold (\<lambda>f. reject_dispatch_data addr (DD_Serialised f)) fs nt = nt\<lparr>nt_notified := nt_notified nt @ rejections addr fs\<rparr>"
  by (induction fs arbitrary: nt) (simp_all add: reject_dispatch_data_def rejections_def)

lemma reject_outbound_spec:
  "nt_channels nt tok = Some ch \<Longrightarrow> reject_outbound_for_channel tok nt =
     Ok (nt\<lparr>nt_channels := (nt_channels nt)(tok \<mapsto> ch\<lparr>outbound_queue := []\<rparr>),
            nt_notified := nt_notified nt @ rejections (ch_address ch) (outbound_queue ch)\<rparr>)"
  by (simp add: reject_outbound_for_channel_def take_outbound_def fold_reject set_channel_def)

lemma send_bye_empty:
  assumes "bytes_documented ops" "outbound_queue ch = []"
  shows "\<exists>b ch'. send_bye ops ch = Ok (b, ch')"
proof -
  have "queue_ok ch" using assms(2) by (simp add: queue_ok_def)
  then show ?thesis using send_frame_emits [OF assms(1), of ch Bye] by (auto simp: send_bye_def)
qed

lemma shutdown_facts [simp]:
  "outbound_queue (ch_shutdown ch) = outbound_queue ch" "accepted (ch_stream (ch_shutdown ch)) = accepted (ch_stream ch)"
  "\<not> connected (ch_shutdown ch)" "ch_address (ch_shutdown ch) = ch_address ch"
  by (auto simp: ch_shutdown_def ch_kill_def Let_def connected_def split: channel_state.splits)

text \<open>A socket never takes back what it has accepted.\<close>

lemma write_serialized_grows: "write_serialized f s = (r, s') \<Longrightarrow> \<exists>more. accepted s' = accepted s @ more"
  by (auto simp: write_serialized_def stream_write_def split: rresult.splits list.splits write_outcome.splits)

lemma drain_loop_grows: "drain_loop i b q s = (r, q', s') \<Longrightarrow> \<exists>more. accepted s' = accepted s @ more"
proof (induction i b q s arbitrary: r q' s' rule: drain_loop.induct)
  case (1 i b q s)
  show ?case
  proof (cases q)
    case (Cons f rest)
    obtain w s1 where w: "write_serialized f s = (w, s1)" by fastforce
    obtain m1 where m1: "accepted s1 = accepted s @ m1" using write_serialized_grows [OF w] by blast
    show ?thesis
      using "1.prems" "1.IH"(1) [OF Cons w [symmetric]] "1.IH"(2) [OF Cons w [symmetric]] Cons w m1
      by (cases w) (fastforce simp: drain_loop.simps [of i b "f # rest" s] split: if_splits)+
  qed (use "1.prems" in \<open>simp add: drain_loop.simps\<close>)
qed

lemma send_frame_grows: "send_frame ops f ch = Ok ch' \<Longrightarrow> \<exists>more. accepted (ch_stream ch') = accepted (ch_stream ch) @ more"
proof -
  assume a: "send_frame ops f ch = Ok ch'"
  then obtain bs where "encode_control ops f = Ok bs" by (auto simp: send_frame_def rbind_eq_Ok)
  moreover obtain r q str where d: "drain_loop 0 0 (outbound_queue ch @ [SF_Bytes bs]) (ch_stream ch) = (r, q, str)" by (metis prod_cases3)
  ultimately have "ch_stream ch' = str" using a by (cases r) (auto simp: send_frame_def try_drain_def enqueue_serialised_def)
  then show ?thesis using drain_loop_grows [OF d] by simp
qed

text \<open>
  Losing a connection reports it, gives back what was queued, in order, and takes the channel out of the
  cache; what the socket had accepted stays accepted, followed by what it takes of the goodbye.
\<close>

lemma lost_connection_spec:
  assumes "bytes_documented (te_ops env)" "nt_channels nt tok = Some ch" "ch_session_id ch = Some sid" "ch_token ch = tok"
  shows "\<exists>ch'. lost_connection env tok nt =
    Ok (nt\<lparr>nt_channels := (nt_channels nt)(tok \<mapsto> ch'), nt_token_map := lru_pop (te_lru env) tok (nt_token_map nt),
           nt_notified := nt_notified nt @ NetworkEvent (ConnectionLost (system_path_with_socket Tcp (ch_address ch)) sid) #
             rejections (ch_address ch) (outbound_queue ch)\<rparr>) \<and>
    \<not> connected ch' \<and> ch_token ch' = tok \<and> (\<exists>bye. accepted (ch_stream ch') = accepted (ch_stream ch) @ bye)"
proof -
  let ?ch2 = "ch\<lparr>outbound_queue := []\<rparr>"
  have "queue_ok ?ch2" by (simp add: queue_ok_def)
  from send_frame_emits [OF assms(1) this, of Bye] obtain ch3 where sf: "send_frame (te_ops env) Bye ?ch2 = Ok ch3" by auto
  have "ch_token ch3 = tok" using send_frame_fields(3) [OF sf] assms(4) by simp
  moreover obtain bye where "accepted (ch_stream ch3) = accepted (ch_stream ch) @ bye" using send_frame_grows [OF sf] by auto
  ultimately show ?thesis using assms(2,3) sf
    by (intro exI [of _ "ch_shutdown ch3"])
      (simp add: lost_connection_def send_bye_def reject_outbound_spec notify_network_status_def deregister_channel_def set_channel_def)
qed

subsection \<open>Simultaneous connections\<close>

text \<open>The session of the channel that is registered for an address.\<close>

definition session_at :: "('v, 'r, 't, 'n4, 'r4, 'n6, 'r6, 'c) network_thread \<Rightarrow> socket_addr \<Rightarrow> uuid option" where
  "session_at nt addr =
     (case map_of (nt_address_map nt) addr of
        Some tok \<Rightarrow> (case nt_channels nt tok of Some ch \<Rightarrow> ch_session_id ch | None \<Rightarrow> None)
      | None \<Rightarrow> None)"

text \<open>
  A thread that has requested a connection to \<open>addr\<close>, with the session \<open>ours\<close>, and meanwhile has accepted one, on the
  channel \<open>tok\<close>, from the same system. Sockets are in order and no limit is exceeded.
\<close>

definition crossing ::
    "('v, 't, 'n4, 'r4, 'n6, 'r6, 'c) thread_env \<Rightarrow> event_with_retries \<Rightarrow> nat \<Rightarrow> socket_addr \<Rightarrow> uuid \<Rightarrow>
     ('v, 'r, 't, 'n4, 'r4, 'n6, 'r6, 'c) network_thread \<Rightarrow> bool" where
  "crossing env ev tok addr ours nt \<longleftrightarrow>
     (\<exists>ch other och.
        nt_channels nt tok = Some ch \<and> ch_state ch = Initialising \<and> map_of (nt_address_map nt) (ch_address ch) = Some tok \<and>
        db_wf (input_buffer ch) \<and> queue_ok ch \<and> \<not> nodelay_refused (ch_stream ch) \<and>
        nt_channels nt other = Some och \<and> (\<exists>a. ch_state och = Requested a ours \<or> ch_state och = Initialised a ours) \<and>
        map_of (nt_address_map nt) addr = Some other \<and> ch_address och = addr \<and> db_wf (input_buffer och) \<and>
        pending_error (ch_stream och) = None \<and> other \<noteq> tok) \<and>
     \<not> socket_addr_is_blocked (te_nets env) addr (nt_block_list nt) \<and> bytes_documented (te_ops env) \<and> lru_documented (te_lru env) \<and>
     ev_retries ev \<le> nc_max_connection_retry_attempts (nt_config nt) \<and> ev_retries ev < 255 \<and>
     length (lru_iter (te_lru env) (nt_token_map nt)) \<le> unat (nc_soft_connection_limit (nt_config nt))"

lemma start_channel_spec:
  assumes "bytes_documented (te_ops env)" "nt_channels nt tok = Some ch" "ch_state ch = Initialising" "queue_ok ch"
    and "\<not> nodelay_refused (ch_stream ch)" "map_of (nt_address_map nt) (ch_address ch) = Some tok"
    and "ev_retries ev \<le> nc_max_connection_retry_attempts (nt_config nt)" "ev_retries ev < 255"
    and "length (lru_iter (te_lru env) (nt_token_map nt)) \<le> unat (nc_soft_connection_limit (nt_config nt))"
  shows "\<exists>nt'. start_channel env ev tok addr sid nt = Ok nt' \<and> session_at nt' addr = Some sid"
proof -
  obtain q s where sf: "send_frame (te_ops env) Ack ch = Ok (ch\<lparr>outbound_queue := q, ch_stream := s\<rparr>)"
    using send_frame_emits [OF assms(1,4), of Ack] by auto
  let ?ch1 = "ch\<lparr>outbound_queue := q, ch_stream := s, ch_state := ChConnected addr sid, ch_address := addr\<rparr>"
  have hs: "ch_handle_start (te_ops env) addr sid ch = Ok ?ch1"
    using assms(3,5) sf by (simp add: ch_handle_start_def set_nodelay_def)
  let ?nt1 = "set_channel tok ?ch1 (reregister_channel_address (ch_address ch) addr nt)"
  let ?nt2 = "?nt1\<lparr>nt_retry_queue := nt_retry_queue ?nt1 @ [ev\<lparr>ev_retries := ev_retries ev + 1\<rparr>]\<rparr>"
  have reg: "reregister_channel_address (ch_address ch) addr nt =
      nt\<lparr>nt_address_map := AList.update addr tok (AList.delete (ch_address ch) (nt_address_map nt))\<rparr>"
    using assms(6) by (simp add: reregister_channel_address_def)
  have "retry_event env {tok} ev ?nt1 = Ok ?nt2"
    using assms(7,8) by (auto simp: retry_event_def get_retry_event_def reg set_channel_def)
  moreover have "check_soft_connection_limit env {tok} ?nt2 = Ok ?nt2"
    using assms(9) by (simp add: check_soft_connection_limit_def Let_def reg set_channel_def)
  ultimately have "start_channel env ev tok addr sid nt =
      Ok (notify_network_status (ConnectionEstablished (system_path_with_socket Tcp addr) sid) ?nt2)"
    using assms(2) hs by (simp add: start_channel_def)
  moreover have "session_at (notify_network_status (ConnectionEstablished (system_path_with_socket Tcp addr) sid) ?nt2) addr = Some sid"
    by (simp add: session_at_def notify_network_status_def reg set_channel_def update_conv' ch_session_id_def)
  ultimately show ?thesis by blast
qed

lemma crossing_keeps_greater:
  assumes "crossing env ev tok addr ours nt"
  shows "\<exists>nt'. handle_start env ev tok addr theirs nt = Ok nt' \<and> session_at nt' addr = Some (max ours theirs)"
proof -
  obtain ch other och a where ch: "nt_channels nt tok = Some ch" "ch_state ch = Initialising"
      "map_of (nt_address_map nt) (ch_address ch) = Some tok" "db_wf (input_buffer ch)" "queue_ok ch" "\<not> nodelay_refused (ch_stream ch)"
    and och: "nt_channels nt other = Some och" "ch_state och = Requested a ours \<or> ch_state och = Initialised a ours"
      "map_of (nt_address_map nt) addr = Some other" "ch_address och = addr" "db_wf (input_buffer och)" "pending_error (ch_stream och) = None" "other \<noteq> tok"
    using assms unfolding crossing_def by blast
  have rest: "\<not> socket_addr_is_blocked (te_nets env) addr (nt_block_list nt)" "bytes_documented (te_ops env)" "lru_documented (te_lru env)"
      "ev_retries ev \<le> nc_max_connection_retry_attempts (nt_config nt)" "ev_retries ev < 255"
      "length (lru_iter (te_lru env) (nt_token_map nt)) \<le> unat (nc_soft_connection_limit (nt_config nt))"
    using assms unfolding crossing_def by blast+
  have ne: "ch_address ch \<noteq> addr" using ch(3) och(3,7) by auto
  have rs: "read_state och = (ch_state och, och)" using och(6) by (simp add: read_state_def)
  have same: "set_channel other och nt = nt" using och(1) by (simp add: set_channel_def fun_upd_idem)
  show ?thesis
  proof (cases "ours > theirs")
    case True
    obtain db p where d: "drop_channel env tok nt =
        Ok (nt\<lparr>nt_token_map := lru_pop (te_lru env) (ch_token ch) (nt_token_map nt),
           nt_address_map := AList.delete (ch_address ch) (nt_address_map nt), nt_pool := p,
           nt_channels := (nt_channels nt)(tok \<mapsto> (ch_shutdown ch)\<lparr>input_buffer := db\<rparr>)\<rparr>)"
      using drop_channel_spec [OF ch(1,4)] by blast
    then show ?thesis using True och rest(1) rs ne
      by (auto simp: handle_start_def merge_channels_def get_channel_by_address_def borrow_mut_def Let_def same session_at_def
          ch_session_id_def max_def)
  next
    case False
    obtain db p where d: "drop_channel env other nt =
        Ok (nt\<lparr>nt_token_map := lru_pop (te_lru env) (ch_token och) (nt_token_map nt),
           nt_address_map := AList.delete (ch_address och) (nt_address_map nt), nt_pool := p,
           nt_channels := (nt_channels nt)(other \<mapsto> (ch_shutdown och)\<lparr>input_buffer := db\<rparr>)\<rparr>)" (is "_ = Ok ?nt1")
      using drop_channel_spec [OF och(1,5)] by blast
    have "handle_start env ev tok addr theirs nt = start_channel env ev tok addr theirs ?nt1"
      using False och rest(1) rs d
      by (auto simp: handle_start_def merge_channels_def get_channel_by_address_def borrow_mut_def Let_def same)
    moreover have "length (lru_iter (te_lru env) (nt_token_map ?nt1)) \<le> unat (nc_soft_connection_limit (nt_config ?nt1))"
      using lru_cache.pop_keeps(2) [OF lru_cache.intro [OF rest(3)], where k = "ch_token och" and c = "nt_token_map nt"] rest(6) by simp
    ultimately show ?thesis
      using start_channel_spec [OF rest(2), of ?nt1 tok ch ev addr theirs] ch och(4,7) rest(4,5) ne False
      by (auto simp: max_def)
  qed
qed

text \<open>
  C8: Two systems that connect to each other at the same time keep the same connection: when each has requested a
  channel of its own and gets the start of the other's, both end up with the channel whose session id is
  greater registered for the other system, whatever else their tables hold.
\<close>

theorem simultaneous_connects_agree:
  assumes "crossing env1 ev1 tok1 addr2 id1 nt1" "crossing env2 ev2 tok2 addr1 id2 nt2"
  shows "\<exists>nt1' nt2'. handle_start env1 ev1 tok1 addr2 id2 nt1 = Ok nt1' \<and> handle_start env2 ev2 tok2 addr1 id1 nt2 = Ok nt2' \<and>
    session_at nt1' addr2 = Some (max id1 id2) \<and> session_at nt2' addr1 = Some (max id1 id2)"
  using crossing_keeps_greater [OF assms(1), of id2] crossing_keeps_greater [OF assms(2), of id1] by (auto simp: max.commute)

definition idle_stream :: tcp_stream where
  "idle_stream = \<lparr>write_outcomes = [], read_outcomes = [], accepted = [], is_shutdown = False, nodelay_refused = False, pending_error = None\<rparr>"

definition crossed_thread ::
    "socket_addr \<Rightarrow> socket_addr \<Rightarrow> uuid \<Rightarrow>
     (unit, nat, nat, u32 \<times> nat, (bool \<times> u32 \<times> nat) list, u128 \<times> nat, (bool \<times> u128 \<times> nat) list, nat \<times> nat list) network_thread" where
  "crossed_thread own peer ours =
     (let guest = \<lparr>sock_ip = V4 77, sock_port = 1\<rparr>;
          channel = (\<lambda>tok addr st. channel_new idle_stream tok addr (from_chunk (replicate 128 0) tok) st own buffer_config_default True)
      in \<lparr>nt_addr = own, nt_lookup = store_new, nt_accepts = [], nt_connects = [], nt_udp = None,
          nt_channels = [3 \<mapsto> channel 3 peer (Requested peer ours), 4 \<mapsto> channel 4 guest Initialising],
          nt_address_map = [(peer, 3), (guest, 4)], nt_token_map = (2, [4, 3]), nt_token = 5, nt_input = [], nt_pool = small_pool,
          nt_stopped = False, nt_promise = True, nt_config = two_channel_config, nt_retry_queue = [], nt_out_of_buffers = False,
          nt_encode_buffer = big_encode_buffer, nt_block_list = block_list_default prefix_nets, nt_told = [], nt_notified = []\<rparr>)"

lemma list_lru_iter: "lru_iter list_lru (n, ks) = ks"
  by (simp add: list_lru_def)

lemma crossed_thread_crossing:
  "peer \<noteq> \<lparr>sock_ip = V4 77, sock_port = 1\<rparr> \<Longrightarrow> crossing sample_thread_env (event_from 4 True False) 4 peer ours (crossed_thread own peer ours)"
proof -
  assume ne: "peer \<noteq> \<lparr>sock_ip = V4 77, sock_port = 1\<rparr>"
  have nb: "\<not> socket_addr_is_blocked (te_nets sample_thread_env) peer (block_list_default prefix_nets)"
    by (cases "sock_ip peer") (simp_all add: sample_thread_env_def socket_addr_is_blocked_def block_list_default_def prefix_nets_def prefix_ranges_def Let_def)
  show ?thesis using ne nb
    unfolding crossing_def crossed_thread_def Let_def
    by (auto simp: channel_new_def idle_stream_def db_wf_def decode_buffer_new_def from_chunk_def queue_ok_def event_from_def
        two_channel_config_def network_config_default_def MAX_RETRY_ATTEMPTS_def SOFT_CONNECTION_LIMIT_def sample_thread_env_def
        be_buf_ops_documented list_lru_iter intro!: exI [of _ 3])
qed

theorem simultaneous_connects_agree_witness:
  "\<exists>nt1' nt2'.
     handle_start sample_thread_env (event_from 4 True False) 4 \<lparr>sock_ip = V4 2, sock_port = 9\<rparr> 20
       (crossed_thread \<lparr>sock_ip = V4 1, sock_port = 9\<rparr> \<lparr>sock_ip = V4 2, sock_port = 9\<rparr> 10) = Ok nt1' \<and>
     handle_start sample_thread_env (event_from 4 True False) 4 \<lparr>sock_ip = V4 1, sock_port = 9\<rparr> 10
       (crossed_thread \<lparr>sock_ip = V4 2, sock_port = 9\<rparr> \<lparr>sock_ip = V4 1, sock_port = 9\<rparr> 20) = Ok nt2' \<and>
     session_at nt1' \<lparr>sock_ip = V4 2, sock_port = 9\<rparr> = Some 20 \<and> session_at nt2' \<lparr>sock_ip = V4 1, sock_port = 9\<rparr> = Some 20"
proof -
  have "max (10 :: uuid) 20 = 20" by simp
  then show ?thesis
    using simultaneous_connects_agree [OF crossed_thread_crossing crossed_thread_crossing,
        of "\<lparr>sock_ip = V4 2, sock_port = 9\<rparr>" "\<lparr>sock_ip = V4 1, sock_port = 9\<rparr>" 20 "\<lparr>sock_ip = V4 1, sock_port = 9\<rparr>" 10 "\<lparr>sock_ip = V4 2, sock_port = 9\<rparr>"]
    by simp
qed

subsection \<open>The frames of a connection\<close>

text \<open>What happens to a connection: the dispatcher sends a frame over it, or its socket becomes writeable.\<close>

datatype link_event = LinkSend serialised_frame | LinkWrite

fun link_step :: "('v, 't, 'n4, 'r4, 'n6, 'r6, 'c) thread_env \<Rightarrow> socket_addr \<Rightarrow> nat \<Rightarrow> link_event \<Rightarrow>
    ('v, 'r, 't, 'n4, 'r4, 'n6, 'r6, 'c) network_thread \<Rightarrow> ('v, 'r, 't, 'n4, 'r4, 'n6, 'r6, 'c) thread_result" where
  "link_step env addr tok (LinkSend f) nt = handle_dispatch_event env (SendTcp addr (DD_Serialised f)) nt"
| "link_step env addr tok LinkWrite nt = handle_event env (writeable_with_token tok) nt"

fun run_link :: "('v, 't, 'n4, 'r4, 'n6, 'r6, 'c) thread_env \<Rightarrow> socket_addr \<Rightarrow> nat \<Rightarrow> link_event list \<Rightarrow>
    ('v, 'r, 't, 'n4, 'r4, 'n6, 'r6, 'c) network_thread \<Rightarrow> ('v, 'r, 't, 'n4, 'r4, 'n6, 'r6, 'c) thread_result" where
  "run_link env addr tok [] nt = Ok nt"
| "run_link env addr tok (st # sts) nt = rbind (link_step env addr tok st nt) (run_link env addr tok sts)"

fun frames_sent :: "link_event list \<Rightarrow> serialised_frame list" where
  "frames_sent [] = []" | "frames_sent (LinkSend f # sts) = f # frames_sent sts" | "frames_sent (LinkWrite # sts) = frames_sent sts"

text \<open>The channel of the connection is up: everything so far is accepted by the socket or queued.\<close>

definition link_up :: "('v, 't, 'n4, 'r4, 'n6, 'r6, 'c) thread_env \<Rightarrow> socket_addr \<Rightarrow> nat \<Rightarrow> u8 list \<Rightarrow>
    ('v, 'r, 't, 'n4, 'r4, 'n6, 'r6, 'c) network_thread \<Rightarrow> bool" where
  "link_up env addr tok bytes nt \<longleftrightarrow>
     map_of (nt_address_map nt) addr = Some tok \<and> tok \<in> set (lru_iter (te_lru env) (nt_token_map nt)) \<and> START_TOKEN \<le> tok \<and>
     (\<exists>ch. nt_channels nt tok = Some ch \<and> connected ch \<and> ch_address ch = addr \<and> ch_token ch = tok \<and> queue_ok ch \<and> emitted ch = bytes)"

text \<open>It is lost: what the socket had accepted before the goodbye and the frames given back are everything.\<close>

definition link_down :: "('v, 't, 'n4, 'r4, 'n6, 'r6, 'c) thread_env \<Rightarrow> socket_addr \<Rightarrow> nat \<Rightarrow> u8 list \<Rightarrow>
    ('v dispatch_data, ('n4, 'n6) ip_net) dispatcher_event list \<Rightarrow> ('v, 'r, 't, 'n4, 'r4, 'n6, 'r6, 'c) network_thread \<Rightarrow> bool" where
  "link_down env addr tok bytes told nt \<longleftrightarrow>
     map_of (nt_address_map nt) addr = Some tok \<and> tok \<notin> set (lru_iter (te_lru env) (nt_token_map nt)) \<and> START_TOKEN \<le> tok \<and>
     (\<exists>ch sid wire returned. nt_channels nt tok = Some ch \<and> \<not> connected ch \<and> ch_token ch = tok \<and>
        (\<exists>bye. accepted (ch_stream ch) = wire @ bye) \<and> wire @ queue_bytes returned = bytes \<and>
        nt_notified nt = told @ NetworkEvent (ConnectionLost (system_path_with_socket Tcp addr) sid) # rejections addr returned)"

lemma link_downI:
  assumes "map_of (nt_address_map nt) addr = Some tok" "tok \<notin> set (lru_iter (te_lru env) (nt_token_map nt))" "START_TOKEN \<le> tok"
    and "nt_channels nt tok = Some ch" "\<not> connected ch" "ch_token ch = tok" "accepted (ch_stream ch) = wire @ bye"
    and "wire @ queue_bytes returned = bytes"
    and "nt_notified nt = told @ NetworkEvent (ConnectionLost (system_path_with_socket Tcp addr) sid) # rejections addr returned"
  shows "link_down env addr tok bytes told nt"
  using assms unfolding link_down_def by blast

lemma connected_session: "connected ch \<Longrightarrow> \<exists>sid. ch_session_id ch = Some sid"
  by (cases "ch_state ch") (simp_all add: connected_def ch_session_id_def)

context thread_tables begin

lemma get_present:
  assumes "tok \<in> set (lru_iter (te_lru env) (nt_token_map nt))"
  shows "\<exists>c. get_channel_by_token env tok nt = (True, nt\<lparr>nt_token_map := c\<rparr>) \<and>
    set (lru_iter (te_lru env) c) = set (lru_iter (te_lru env) (nt_token_map nt)) \<and> (cache_ok (te_lru env) (nt_token_map nt) \<longrightarrow> cache_ok (te_lru env) c)"
  using cache.get_found [of tok "nt_token_map nt"] cache.get_keeps [where k = tok and c = "nt_token_map nt"] assms
  by (cases "lru_get (te_lru env) tok (nt_token_map nt)") (auto simp: get_channel_by_token_def)

lemma get_absent:
  assumes "tok \<notin> set (lru_iter (te_lru env) (nt_token_map nt))"
  shows "\<exists>c. get_channel_by_token env tok nt = (False, nt\<lparr>nt_token_map := c\<rparr>) \<and>
    set (lru_iter (te_lru env) c) = set (lru_iter (te_lru env) (nt_token_map nt)) \<and> (cache_ok (te_lru env) (nt_token_map nt) \<longrightarrow> cache_ok (te_lru env) c)"
  using cache.get_found [of tok "nt_token_map nt"] cache.get_keeps [where k = tok and c = "nt_token_map nt"] assms
  by (cases "lru_get (te_lru env) tok (nt_token_map nt)") (auto simp: get_channel_by_token_def)

lemma link_up_send:
  assumes "link_up env addr tok bytes nt" "sf_pending f" "cache_ok (te_lru env) (nt_token_map nt)"
  shows "\<exists>nt'. link_step env addr tok (LinkSend f) nt = Ok nt' \<and> link_up env addr tok (bytes @ sf_unread f) nt' \<and>
    nt_notified nt' = nt_notified nt \<and> cache_ok (te_lru env) (nt_token_map nt')"
proof -
  obtain ch where ch: "nt_channels nt tok = Some ch" "connected ch" "ch_address ch = addr" "ch_token ch = tok" "queue_ok ch" "emitted ch = bytes"
    using assms(1) by (auto simp: link_up_def)
  have reg: "map_of (nt_address_map nt) addr = Some tok" "tok \<in> set (lru_iter (te_lru env) (nt_token_map nt))" "START_TOKEN \<le> tok"
    using assms(1) by (auto simp: link_up_def)
  obtain c where c: "get_channel_by_token env tok nt = (True, nt\<lparr>nt_token_map := c\<rparr>)"
    "set (lru_iter (te_lru env) c) = set (lru_iter (te_lru env) (nt_token_map nt))" "cache_ok (te_lru env) c"
    using get_present [OF reg(2)] assms(3) by auto
  have "connected (enqueue_serialised f ch)" "queue_ok (enqueue_serialised f ch)" "emitted (enqueue_serialised f ch) = bytes @ sf_unread f"
    "ch_address (enqueue_serialised f ch) = addr"
    using ch assms(2) by (simp_all add: enqueue_serialised_def connected_def queue_ok_def emitted_def queue_bytes_def)
  then show ?thesis using ch reg c
    by (simp add: send_tcp_message_def get_channel_by_address_def borrow_mut_def update_lru_def serialise_dispatch_data_def Let_def
        link_up_def enqueue_writeable_event_def set_channel_def)
qed

lemma link_up_write:
  assumes "bytes_documented (te_ops env)" "link_up env addr tok bytes nt" "cache_ok (te_lru env) (nt_token_map nt)"
  shows "\<exists>nt'. link_step env addr tok LinkWrite nt = Ok nt' \<and> cache_ok (te_lru env) (nt_token_map nt') \<and>
    (link_up env addr tok bytes nt' \<and> nt_notified nt' = nt_notified nt \<or> link_down env addr tok bytes (nt_notified nt) nt')"
proof -
  obtain ch where ch: "nt_channels nt tok = Some ch" "connected ch" "ch_address ch = addr" "ch_token ch = tok" "queue_ok ch" "emitted ch = bytes"
    using assms(2) by (auto simp: link_up_def)
  have reg: "map_of (nt_address_map nt) addr = Some tok" "tok \<in> set (lru_iter (te_lru env) (nt_token_map nt))" "START_TOKEN \<le> tok"
    using assms(2) by (auto simp: link_up_def)
  obtain c where c: "get_channel_by_token env tok nt = (True, nt\<lparr>nt_token_map := c\<rparr>)"
    "set (lru_iter (te_lru env) c) = set (lru_iter (te_lru env) (nt_token_map nt))" "cache_ok (te_lru env) c"
    using get_present [OF reg(2)] assms(3) by auto
  obtain r q s where d: "try_drain ch = (r, ch\<lparr>outbound_queue := q, ch_stream := s\<rparr>)" "r \<noteq> Panic"
    "queue_ok (ch\<lparr>outbound_queue := q, ch_stream := s\<rparr>)" "emitted (ch\<lparr>outbound_queue := q, ch_stream := s\<rparr>) = bytes"
    using try_drain_emits [OF ch(5)] ch(6) by auto
  let ?ch1 = "ch\<lparr>outbound_queue := q, ch_stream := s\<rparr>"
  let ?nt1 = "set_channel tok ?ch1 (nt\<lparr>nt_token_map := c\<rparr>)"
  have con: "connected ?ch1" using ch(2) by (simp add: connected_def)
  have up: "link_up env addr tok bytes ?nt1" using reg c ch d con by (simp add: link_up_def set_channel_def)
  have ev: "link_step env addr tok LinkWrite nt = write_tcp env tok nt"
    using reg(3) by (cases "write_tcp env tok nt")
      (simp_all add: handle_event_def writeable_with_token_def TCP_SERVER_def UDP_SOCKET_def DISPATCHER_def START_TOKEN_def)
  show ?thesis
  proof (cases "r = Err IoBrokenPipe")
    case False
    moreover obtain a sid where "ch_state ch = ChConnected a sid" using ch(2) by (cases "ch_state ch") (simp_all add: connected_def)
    ultimately have "write_tcp env tok nt = Ok ?nt1"
      using d(1,2) c(1) ch(1) by (cases r) (simp_all add: write_tcp_def borrow_mut_def)
    then show ?thesis using ev up c(3) by (simp add: set_channel_def)
  next
    case True
    obtain sid where sid: "ch_session_id ?ch1 = Some sid" using connected_session [OF con] by blast
    obtain ch' where lost: "lost_connection env tok ?nt1 =
        Ok (?nt1\<lparr>nt_channels := (nt_channels ?nt1)(tok \<mapsto> ch'), nt_token_map := lru_pop (te_lru env) tok (nt_token_map ?nt1),
           nt_notified := nt_notified ?nt1 @ NetworkEvent (ConnectionLost (system_path_with_socket Tcp (ch_address ?ch1)) sid) #
             rejections (ch_address ?ch1) (outbound_queue ?ch1)\<rparr>)" (is "_ = Ok ?nt2")
      "\<not> connected ch'" "ch_token ch' = tok" "\<exists>bye. accepted (ch_stream ch') = accepted (ch_stream ?ch1) @ bye"
      using lost_connection_spec [OF assms(1) _ sid, of ?nt1 tok] ch(4) by (auto simp: set_channel_def)
    have "write_tcp env tok nt = Ok ?nt2" using True d(1) c(1) ch(1) lost(1) by (simp add: write_tcp_def borrow_mut_def)
    moreover have "accepted (ch_stream ?ch1) @ queue_bytes (outbound_queue ?ch1) = bytes" using d(4) by (simp add: emitted_def)
    moreover have "tok \<notin> set (lru_iter (te_lru env) (lru_pop (te_lru env) tok c))" "cache_ok (te_lru env) (lru_pop (te_lru env) tok c)"
      using cache.pop_keeps [where k = tok and c = c] c(3) by auto
    ultimately show ?thesis using ev lost reg ch(3) unfolding link_down_def
      by (auto simp: set_channel_def)
  qed
qed

lemma link_down_step:
  assumes "link_down env addr tok bytes told nt" "cache_ok (te_lru env) (nt_token_map nt)"
  shows "\<exists>nt'. link_step env addr tok st nt = Ok nt' \<and> cache_ok (te_lru env) (nt_token_map nt') \<and>
    link_down env addr tok (bytes @ queue_bytes (frames_sent [st])) told nt'"
proof -
  obtain ch sid wire returned bye where dn: "map_of (nt_address_map nt) addr = Some tok" "tok \<notin> set (lru_iter (te_lru env) (nt_token_map nt))"
    "START_TOKEN \<le> tok" "nt_channels nt tok = Some ch" "\<not> connected ch" "ch_token ch = tok" "accepted (ch_stream ch) = wire @ bye"
    "wire @ queue_bytes returned = bytes"
    "nt_notified nt = told @ NetworkEvent (ConnectionLost (system_path_with_socket Tcp addr) sid) # rejections addr returned"
    using assms(1) unfolding link_down_def by blast
  obtain c where c: "get_channel_by_token env tok nt = (False, nt\<lparr>nt_token_map := c\<rparr>)"
    "set (lru_iter (te_lru env) c) = set (lru_iter (te_lru env) (nt_token_map nt))" "cache_ok (te_lru env) c"
    using get_absent [OF dn(2)] assms(2) by auto
  show ?thesis
  proof (cases st)
    case (LinkSend f)
    have "link_step env addr tok st nt = Ok (reject_dispatch_data addr (DD_Serialised f) (nt\<lparr>nt_token_map := c\<rparr>))"
      using LinkSend dn c by (simp add: send_tcp_message_def get_channel_by_address_def borrow_mut_def update_lru_def)
    moreover have "link_down env addr tok (bytes @ sf_unread f) told (reject_dispatch_data addr (DD_Serialised f) (nt\<lparr>nt_token_map := c\<rparr>))"
      by (rule link_downI [where ch = ch and wire = wire and bye = bye and returned = "returned @ [f]" and sid = sid])
        (use dn c(2) in \<open>auto simp: reject_dispatch_data_def rejections_def queue_bytes_def\<close>)
    ultimately show ?thesis using LinkSend c(3) by (simp add: queue_bytes_def reject_dispatch_data_def)
  next
    case LinkWrite
    have "link_step env addr tok st nt = Ok (nt\<lparr>nt_token_map := c\<rparr>)"
      using LinkWrite dn(3) c(1)
      by (simp add: handle_event_def writeable_with_token_def TCP_SERVER_def UDP_SOCKET_def DISPATCHER_def START_TOKEN_def write_tcp_def)
    moreover have "link_down env addr tok bytes told (nt\<lparr>nt_token_map := c\<rparr>)" using assms(1) c(2) by (simp add: link_down_def)
    ultimately show ?thesis using LinkWrite c(3) by (simp add: queue_bytes_def)
  qed
qed


lemma link_down_run:
  assumes "link_down env addr tok bytes told nt" "cache_ok (te_lru env) (nt_token_map nt)"
  shows "\<exists>nt'. run_link env addr tok sts nt = Ok nt' \<and> link_down env addr tok (bytes @ queue_bytes (frames_sent sts)) told nt'"
  using assms
proof (induction sts arbitrary: bytes nt)
  case (Cons st sts)
  obtain nt1 where "link_step env addr tok st nt = Ok nt1" "cache_ok (te_lru env) (nt_token_map nt1)"
    "link_down env addr tok (bytes @ queue_bytes (frames_sent [st])) told nt1" using link_down_step [OF Cons.prems] by blast
  moreover have "queue_bytes (frames_sent (st # sts)) = queue_bytes (frames_sent [st]) @ queue_bytes (frames_sent sts)"
    by (cases st) (simp_all add: queue_bytes_def)
  ultimately show ?case using Cons.IH by fastforce
qed (simp add: queue_bytes_def)

lemma link_up_run:
  assumes "bytes_documented (te_ops env)"
  shows "link_up env addr tok bytes nt \<Longrightarrow> cache_ok (te_lru env) (nt_token_map nt) \<Longrightarrow> list_all sf_pending (frames_sent sts) \<Longrightarrow>
    \<exists>nt'. run_link env addr tok sts nt = Ok nt' \<and>
      (link_up env addr tok (bytes @ queue_bytes (frames_sent sts)) nt' \<and> nt_notified nt' = nt_notified nt \<or>
       link_down env addr tok (bytes @ queue_bytes (frames_sent sts)) (nt_notified nt) nt')"
proof (induction sts arbitrary: bytes nt)
  case (Cons st sts)
  show ?case
  proof (cases st)
    case (LinkSend f)
    then obtain nt1 where "link_step env addr tok st nt = Ok nt1" "link_up env addr tok (bytes @ sf_unread f) nt1"
      "nt_notified nt1 = nt_notified nt" "cache_ok (te_lru env) (nt_token_map nt1)" using link_up_send [OF Cons.prems(1) _ Cons.prems(2)] Cons.prems(3) by auto
    moreover note Cons.IH [OF this(2) this(4)]
    ultimately show ?thesis using LinkSend Cons.prems(3) by (simp add: queue_bytes_def)
  next
    case LinkWrite
    obtain nt1 where nt1: "link_step env addr tok st nt = Ok nt1" "cache_ok (te_lru env) (nt_token_map nt1)"
      "link_up env addr tok bytes nt1 \<and> nt_notified nt1 = nt_notified nt \<or> link_down env addr tok bytes (nt_notified nt) nt1"
      using link_up_write [OF assms Cons.prems(1,2)] LinkWrite by blast
    then show ?thesis using Cons.IH [OF _ nt1(2)] link_down_run [OF _ nt1(2)] Cons.prems(3) LinkWrite by fastforce
  qed
qed (simp add: queue_bytes_def)

end

text \<open>
  C5: No frame of a connection is lost, repeated or reordered by the network thread: whatever the sockets answer,
  after any sequence of frames sent over an established connection and write events, either the connection is still up, and the bytes the
  socket has accepted followed by those queued are the bytes of all frames; or its loss has been reported
  once, and the bytes accepted before the goodbye followed by those of the frames given back to the dispatcher, in order,
  are the bytes of all frames. Nothing of this panics.
\<close>

theorem frames_are_sent_or_returned:
  assumes "lru_documented (te_lru env)" "bytes_documented (te_ops env)"
    and "link_up env addr tok bytes nt" "cache_ok (te_lru env) (nt_token_map nt)" "list_all sf_pending (frames_sent sts)"
  shows "\<exists>nt'. run_link env addr tok sts nt = Ok nt' \<and>
      (link_up env addr tok (bytes @ queue_bytes (frames_sent sts)) nt' \<and> nt_notified nt' = nt_notified nt \<or>
       link_down env addr tok (bytes @ queue_bytes (frames_sent sts)) (nt_notified nt) nt')"
  using thread_tables.link_up_run [OF thread_tables.intro [OF assms(1)] assms(2-5)] .

definition linked_thread ::
    "(unit, nat, nat, u32 \<times> nat, (bool \<times> u32 \<times> nat) list, u128 \<times> nat, (bool \<times> u128 \<times> nat) list, nat \<times> nat list) network_thread" where
  "linked_thread =
     (let peer = \<lparr>sock_ip = V4 2, sock_port = 9\<rparr>; own = \<lparr>sock_ip = V4 1, sock_port = 9\<rparr>
      in (crossed_thread own peer 10)
           \<lparr>nt_channels := [3 \<mapsto> channel_new (idle_stream\<lparr>write_outcomes := [Wrote 1, WriteFails IoBrokenPipe]\<rparr>) 3 peer
              (from_chunk (replicate 128 0) 3) (ChConnected peer 10) own buffer_config_default True],
            nt_address_map := [(peer, 3)], nt_token_map := (2, [3])\<rparr>)"

theorem frames_are_sent_or_returned_witness:
  "\<exists>nt'. run_link sample_thread_env \<lparr>sock_ip = V4 2, sock_port = 9\<rparr> 3 [LinkSend (SF_Bytes [1, 2]), LinkWrite, LinkSend (SF_Bytes [3])] linked_thread = Ok nt' \<and>
     (link_up sample_thread_env \<lparr>sock_ip = V4 2, sock_port = 9\<rparr> 3 [1, 2, 3] nt' \<or>
      link_down sample_thread_env \<lparr>sock_ip = V4 2, sock_port = 9\<rparr> 3 [1, 2, 3] [] nt')"
proof -
  let ?sts = "[LinkSend (SF_Bytes [1, 2]), LinkWrite, LinkSend (SF_Bytes [3])]"
  have "link_up sample_thread_env \<lparr>sock_ip = V4 2, sock_port = 9\<rparr> 3 [] linked_thread"
    by (simp add: link_up_def linked_thread_def crossed_thread_def Let_def sample_thread_env_def list_lru_iter START_TOKEN_def channel_new_def
        connected_def queue_ok_def emitted_def queue_bytes_def idle_stream_def)
  moreover have "cache_ok (te_lru sample_thread_env) (nt_token_map linked_thread)" "nt_notified linked_thread = []"
    by (simp_all add: cache_ok_def linked_thread_def crossed_thread_def Let_def sample_thread_env_def list_lru_def)
  moreover have "list_all sf_pending (frames_sent ?sts)" "queue_bytes (frames_sent ?sts) = [1, 2, 3]"
    by (simp_all add: sf_pending_def queue_bytes_def)
  moreover have "lru_documented (te_lru sample_thread_env)" "bytes_documented (te_ops sample_thread_env)"
    by (simp_all add: sample_thread_env_def be_buf_ops_documented)
  ultimately show ?thesis using frames_are_sent_or_returned [of sample_thread_env "\<lparr>sock_ip = V4 2, sock_port = 9\<rparr>" 3 "[]" linked_thread ?sts] by auto
qed

subsection \<open>What a peer can break\<close>

text \<open>
  A channel is registered for the address of its peer once it has been started. Another \<open>Start\<close> from the same peer makes the thread
  borrow the channel it is reading from a second time, which panics.
\<close>

theorem second_start_panics:
  assumes "map_of (nt_address_map nt) addr = Some tok" "\<not> socket_addr_is_blocked (te_nets env) addr (nt_block_list nt)"
  shows "handle_start env ev tok addr sid nt = Panic"
  using assms by (simp add: handle_start_def get_channel_by_address_def merge_channels_def borrow_mut_def)

text \<open>
  So does the \<open>Start\<close> of a new connection when it is read on the last retry of an event, because the
  retry that follows loses the connection.
\<close>

theorem start_on_last_retry_panics:
  assumes "lru_documented (te_lru env)" "ev_token ev \<in> set (lru_iter (te_lru env) (nt_token_map nt))"
    and "nc_max_connection_retry_attempts (nt_config nt) < ev_retries ev"
  shows "retry_event env {ev_token ev} ev nt = Panic"
  using thread_tables.get_present [OF thread_tables.intro [OF assms(1)] assms(2)] assms(3)
  by (auto simp: retry_event_def borrow_mut_def)

text \<open>A data frame on a connection that has not been started panics: such a channel has no session.\<close>

theorem data_before_start_panics:
  assumes "nt_channels nt (ev_token ev) = Some ch" "ch_state ch1 = Initialising"
    and "read_frame (te_fuel env) (te_ops env) (te_fresh env) (te_locks env) (nt_pool nt) ch = Some (Ok (Some (DataFrame payload)), p, ch1)"
  shows "read_tcp_loop (Suc n) env ev nt = Panic"
  using assms by (simp add: ch_session_id_def)

text \<open>
  A \<open>Hello\<close> on an accepted connection moves its registration to any address the peer claims, also to one that is
  registered for another system's connection, which can not be sent to any more.
\<close>

theorem hello_takes_over_address:
  assumes "nt_channels nt tok = Some ch" "ch_state ch = Initialising" "map_of (nt_address_map nt) (ch_address ch) = Some tok"
    and "\<not> socket_addr_is_blocked (te_nets env) addr (nt_block_list nt)"
  shows "\<exists>nt'. handle_hello env tok addr nt = Ok nt' \<and> map_of (nt_address_map nt') addr = Some tok \<and>
    (\<forall>d. \<exists>nt''. send_tcp_message env addr d nt' = Ok nt'' \<and> nt_notified nt'' = nt_notified nt' @ [RejectedData addr d])"
proof -
  let ?nt' = "set_channel tok ch (reregister_channel_address (ch_address ch) addr nt)"
  have "handle_hello env tok addr nt = Ok ?nt'" using assms by (simp add: handle_hello_def ch_handle_hello_def)
  moreover have reg: "map_of (nt_address_map ?nt') addr = Some tok"
    using assms(3) by (simp add: reregister_channel_address_def set_channel_def update_conv')
  moreover have "\<exists>nt''. send_tcp_message env addr d ?nt' = Ok nt'' \<and> nt_notified nt'' = nt_notified ?nt' @ [RejectedData addr d]" for d
  proof -
    have "\<not> connected ch" using assms(2) by (simp add: connected_def)
    then have "send_tcp_message env addr d ?nt' = Ok (reject_dispatch_data addr d (update_lru env (ch_token ch) ?nt'))"
      using reg by (simp add: send_tcp_message_def get_channel_by_address_def borrow_mut_def)
    then show ?thesis by (simp add: reject_dispatch_data_def update_lru_def get_channel_by_token_def split: prod.splits)
  qed
  ultimately show ?thesis by blast
qed

text \<open>
  When a channel is dropped because its \<open>Hello\<close> names a blocked address, the loop goes on reading from it. Its buffer has been exchanged for
  an empty chunk; reading exchanges this for a chunk of the pool, and the pool gets the empty chunk, which it
  will hand out later.
\<close>

theorem dropped_channel_empties_pool:
  assumes "input_buffer ch = decode_buffer_new (from_chunk [] l) cfg" "get_buffer sc p = (Some b, p1)" "roomy (chunk b)"
    and "read_outcomes (ch_stream ch) = []"
  shows "\<exists>p' ch'. read_frame (Suc (Suc n)) ops fresh sc p ch = Some (Ok None, p', ch') \<and> [] \<in> chunk ` set (pool p')"
proof -
  have free: "\<not> locked b" using get_buffer_unlocked [OF assms(2)] .
  let ?db = "decode_buffer_new (from_chunk [] l) cfg"
  let ?db2 = "decode_buffer_new (b\<lparr>locked := False\<rparr>) cfg"
  have no: "has_frame ops fresh (decode_buffer_new c cfg) = (Ok False, decode_buffer_new c cfg)" for c
    by (simp add: has_frame_def decode_frame_head_def decode_buffer_new_def readable_len_def FRAME_HEAD_LEN_def)
  have rc: "receive (ch\<lparr>input_buffer := ?db\<rparr>) = (Err IoInvalidInput, ch\<lparr>input_buffer := ?db\<rparr>)"
    by (simp add: receive_def receive_loop.simps get_writeable_def is_writeable_def writeable_len_def decode_buffer_new_def from_chunk_def)
  have sw: "swap_buffer sc b ?db = Ok (?db2, lock_chunk (from_chunk [] l))"
    using free by (simp add: swap_buffer_def free_eq is_free_def get_overflow_def decode_buffer_new_def Let_def)
  have rc2: "receive (ch\<lparr>input_buffer := ?db2\<rparr>) = (Ok (), ch\<lparr>input_buffer := ?db2\<rparr>)"
    using assms(3,4) free roomy_not_Nil [OF assms(3)]
    by (simp add: receive_def receive_loop.simps get_writeable_def is_writeable_def writeable_len_def get_slice_def decode_buffer_new_def roomy_def
        FRAME_HEAD_LEN_def stream_read_def)
  have dec: "decode_and_react ops fresh (ch\<lparr>input_buffer := ?db2\<rparr>) = (Ok None, ch\<lparr>input_buffer := ?db2\<rparr>)"
    by (simp add: decode_and_react_def ch_decode_def get_frame_def decode_frame_head_def decode_buffer_new_def readable_len_def FRAME_HEAD_LEN_def)
  have "read_frame (Suc (Suc n)) ops fresh sc p ch =
      Some (Ok None, return_buffer (lock_chunk (from_chunk [] l)) p1, ch\<lparr>input_buffer := ?db2\<rparr>)"
    using assms(1,2) no rc sw rc2 dec by (simp add: Let_def)
  moreover have "[] \<in> chunk ` set (pool (return_buffer (lock_chunk (from_chunk [] l)) p1))"
    by (simp add: return_buffer_def lock_chunk_def from_chunk_def)
  ultimately show ?thesis by blast
qed

end
