(* ===== verification/Thread_Delivery.thy ===== *)
theory Thread_Delivery
  imports Thread_Connections
begin

text \<open>
  From the wire to the actors: what the network thread makes of the data frames of a connection
  (\<open>network_thread.rs\<close>, \<open>read_tcp\<close>, \<open>handle_data_frame\<close>, \<open>deliver_net_message\<close>), and with it the way of a message from
  the network thread of its sender to that of its receiver.
\<close>

subsection \<open>Data frames of messages\<close>

definition posted_frame :: "buf_ops \<Rightarrow> posted \<Rightarrow> frame" where
  "posted_frame ops = (\<lambda>(src, dst, sid, data). DataFrame (lease_new (envelope ops src dst sid data) 0))"

fun posted_receiver :: "posted \<Rightarrow> actor_path" where
  "posted_receiver (src, dst, sid, data) = dst"

definition received_as :: "uuid \<Rightarrow> posted \<Rightarrow> 'v net_message \<Rightarrow> bool" where
  "received_as ses pm m \<longleftrightarrow> (\<exists>m0. delivered pm m0 \<and> m = set_session ses m0)"

lemma new_leases: "leases bs (lease_new bs x)"
  by (simp add: leases_def comp_def)

lemma posted_frame_bytes: "frame_bytes (posted_frame ops pm) = posted_bytes ops pm"
  using data_frame_bytes_frame [OF new_leases] by (cases pm) (simp add: posted_frame_def)

lemma posted_frame_sendable:
  "bytes_documented ops \<Longrightarrow> length (posted_bytes ops pm) < 2 ^ 32 \<Longrightarrow> sendable (posted_frame ops pm)"
  using envelope_not_Nil [of ops] by (cases pm) (auto simp: posted_frame_def data_frame_bytes_def capacity_def)

lemma posted_peer_sends:
  assumes "bytes_documented ops" "list_all (\<lambda>pm. length (posted_bytes ops pm) < 2 ^ 32) ms" "bs @ future = concat (map (posted_bytes ops) ms)"
  shows "peer_sends (map (posted_frame ops) ms) bs future"
  using assms posted_frame_sendable [OF assms(1)]
  by (auto simp: peer_sends_def list_all_iff posted_frame_bytes comp_def)

lemma received_receiver: "received_as ses pm m \<Longrightarrow> nm_receiver m = posted_receiver pm"
  by (cases pm) (auto simp: received_as_def set_session_def with_chunk_ref_def net_message_with_def)

lemma data_frame_handled:
  fixes nt :: "('v, 'r, 't, 'n4, 'r4, 'n6, 'r6, 'c) network_thread"
  assumes "bytes_documented (te_ops env)" "posted_ok pm" "same_frame (posted_frame (te_ops env) pm) g"
  shows "\<exists>q m. g = DataFrame q \<and> handle_data_frame env q ses nt = deliver_net_message env m nt \<and> received_as ses pm m"
proof -
  obtain src dst sid data where pm: "pm = (src, dst, sid, data)" by (cases pm) auto
  obtain q where q: "g = DataFrame q" "lease_valid q" "lease_unread q = envelope (te_ops env) src dst sid data"
    using assms(3) leases_unread [OF new_leases] by (cases g) (auto simp: posted_frame_def pm)
  obtain cr where "deserialise_chunk_lease (debug_assertions (te_build env)) (te_ops env) (te_fresh env) q =
      Ok (with_chunk_ref sid src dst cr :: 'v net_message)" "ref_unread cr = data"
    using deserialise_chunk_lease_spec [OF assms(1) _ _ q(2,3), of "debug_assertions (te_build env)" "te_fresh env"] assms(2) pm by auto
  then have "handle_data_frame env q ses nt = deliver_net_message env (set_session ses (with_chunk_ref sid src dst cr)) nt"
    "received_as ses pm (set_session ses (with_chunk_ref sid src dst cr) :: 'v net_message)"
    using pm by (auto simp: handle_data_frame_def received_as_def)
  then show ?thesis using q(1) by blast
qed

subsection \<open>Reading a connection\<close>

definition routed ::
    "('v, 't, 'n4, 'r4, 'n6, 'r6, 'c) thread_env \<Rightarrow> (actor_path \<Rightarrow> 'r) \<Rightarrow> posted list \<Rightarrow> ('r, 'v net_message, 't) actor_store \<Rightarrow> bool" where
  "routed env route ms store \<longleftrightarrow>
     list_all (\<lambda>pm. get_by_actor_path (te_build env) (posted_receiver pm) store = Ok (LookupRef (route (posted_receiver pm)))) ms"

definition told_as :: "(actor_path \<Rightarrow> 'r) \<Rightarrow> uuid \<Rightarrow> posted list \<Rightarrow> ('r \<times> 'v net_message) list \<Rightarrow> bool" where
  "told_as route ses ms calls \<longleftrightarrow> list_all2 (\<lambda>pm (actor, m). actor = route (posted_receiver pm) \<and> received_as ses pm m) ms calls"

text \<open>A channel that receives messages, and what reading makes of the thread.\<close>

definition reader_ok ::
    "('v, 't, 'n4, 'r4, 'n6, 'r6, 'c) thread_env \<Rightarrow> nat \<Rightarrow> uuid \<Rightarrow> tcp_channel \<Rightarrow> ('v, 'r, 't, 'n4, 'r4, 'n6, 'r6, 'c) network_thread \<Rightarrow> bool" where
  "reader_ok env tok ses ch nt \<longleftrightarrow> pool_ok (nt_pool nt) \<and> nt_channels nt tok = Some ch \<and> channel_ok ch \<and> ch_session_id ch = Some ses \<and>
     clean (ch_stream ch) \<and> read_weight (ch_stream ch) + 1 < te_fuel env"

definition receives ::
    "('v, 't, 'n4, 'r4, 'n6, 'r6, 'c) thread_env \<Rightarrow> nat \<Rightarrow> uuid \<Rightarrow> posted list \<Rightarrow> u8 list \<Rightarrow> ('v, 'r, 't, 'n4, 'r4, 'n6, 'r6, 'c) network_thread \<Rightarrow> bool" where
  "receives env tok ses ms future nt \<longleftrightarrow>
     (\<exists>ch. reader_ok env tok ses ch nt \<and> arrived ch @ future = concat (map (posted_bytes (te_ops env)) ms))"

definition caught_up ::
    "('v, 't, 'n4, 'r4, 'n6, 'r6, 'c) thread_env \<Rightarrow> event_with_retries \<Rightarrow> posted list \<Rightarrow> u8 list \<Rightarrow>
     ('v, 'r, 't, 'n4, 'r4, 'n6, 'r6, 'c) network_thread \<Rightarrow> ('v, 'r, 't, 'n4, 'r4, 'n6, 'r6, 'c) network_thread \<Rightarrow> bool" where
  "caught_up env ev ms future nt nt' \<longleftrightarrow> exchanged (nt_pool nt) (nt_pool nt') \<and>
     (\<exists>ch'. nt_channels nt' (ev_token ev) = Some ch' \<and> arrived ch' @ future = concat (map (posted_bytes (te_ops env)) ms) \<and>
        (nt_out_of_buffers nt' \<and> exhausted (te_locks env) (nt_pool nt') \<and> nt_retry_queue nt' = nt_retry_queue nt @ [ev\<lparr>ev_retries := ev_retries ev + 1\<rparr>] \<or>
         nt_retry_queue nt' = nt_retry_queue nt \<and> (ms \<noteq> [] \<longrightarrow> length (arrived ch') < length (posted_bytes (te_ops env) (hd ms)))))"

lemma state_session: "ch_state ch' = ch_state ch \<Longrightarrow> ch_session_id ch' = ch_session_id ch"
  by (simp add: ch_session_id_def)

lemma read_loop_step:
  fixes nt :: "('v, 'r, 't, 'n4, 'r4, 'n6, 'r6, 'c) network_thread"
  assumes "bytes_documented (te_ops env)" "list_all posted_ok ms" "list_all (\<lambda>pm. length (posted_bytes (te_ops env) pm) < 2 ^ 32) ms"
    and "receives env (ev_token ev) ses ms future nt" "routed env route ms (nt_lookup nt)"
    and "ev_retries ev \<le> nc_max_connection_retry_attempts (nt_config nt)" "ev_retries ev \<noteq> 255"
  shows "(\<exists>nt'. read_tcp_loop (Suc n) env ev nt = Ok nt' \<and> nt_told nt' = nt_told nt \<and> caught_up env ev ms future nt nt') \<or>
    (\<exists>pm ms' m nt1. ms = pm # ms' \<and> read_tcp_loop (Suc n) env ev nt = read_tcp_loop n env ev nt1 \<and> received_as ses pm m \<and>
       receives env (ev_token ev) ses ms' future nt1 \<and> nt_told nt1 = nt_told nt @ [(route (posted_receiver pm), m)] \<and>
       nt_lookup nt1 = nt_lookup nt \<and> nt_config nt1 = nt_config nt \<and> nt_retry_queue nt1 = nt_retry_queue nt \<and>
       exchanged (nt_pool nt) (nt_pool nt1))"
proof -
  let ?tok = "ev_token ev" and ?ops = "te_ops env"
  obtain ch where ch: "nt_channels nt ?tok = Some ch" "channel_ok ch" "ch_session_id ch = Some ses" "clean (ch_stream ch)"
    "read_weight (ch_stream ch) + 1 < te_fuel env" "arrived ch @ future = concat (map (posted_bytes ?ops) ms)" "pool_ok (nt_pool nt)"
    using assms(4) by (auto simp: receives_def reader_ok_def)
  have sends: "peer_sends (map (posted_frame ?ops) ms) (arrived ch) future" using posted_peer_sends [OF assms(1,3) ch(6)] .
  obtain r p ch1 where x: "read_frame (te_fuel env) ?ops (te_fresh env) (te_locks env) (nt_pool nt) ch = Some (r, p, ch1)" "pool_ok p" "exchanged (nt_pool nt) p"
    and res: "(r = Ok None \<and> (\<forall>f fs'. map (posted_frame ?ops) ms = f # fs' \<longrightarrow> length (arrived ch) < length (frame_bytes f)) \<or>
        r = Err IoInvalidInput \<and> exhausted (te_locks env) p) \<and> arrived ch1 = arrived ch \<or>
      (\<exists>f fs' g. map (posted_frame ?ops) ms = f # fs' \<and> same_frame f g \<and> (r = Ok (Some g) \<or> r = Panic \<and> (f = Ack \<or> f = Bye)) \<and>
        peer_sends fs' (arrived ch1) future \<and> (is_data g \<longrightarrow> took_data ch ch1))"
    using read_frame_result [OF assms(1) ch(7,2) sends ch(5), of "te_fresh env" "te_locks env"] ch(4) by auto
  let ?nt1 = "set_channel ?tok ch1 (nt\<lparr>nt_pool := p\<rparr>)"
  from res consider
      "r = Ok None" "\<forall>f fs'. map (posted_frame ?ops) ms = f # fs' \<longrightarrow> length (arrived ch) < length (frame_bytes f)" "arrived ch1 = arrived ch"
    | "r = Err IoInvalidInput" "arrived ch1 = arrived ch" "exhausted (te_locks env) p"
    | "\<exists>f fs' g. map (posted_frame ?ops) ms = f # fs' \<and> same_frame f g \<and> (r = Ok (Some g) \<or> r = Panic \<and> (f = Ack \<or> f = Bye)) \<and>
        peer_sends fs' (arrived ch1) future \<and> (is_data g \<longrightarrow> took_data ch ch1)" by argo
  then show ?thesis
  proof cases
    case 1
    then have "read_tcp_loop (Suc n) env ev nt = Ok ?nt1" using ch(1) x(1) by (simp add: Let_def)
    moreover have "caught_up env ev ms future nt ?nt1" using 1(2,3) ch(6) x(3)
      by (cases ms) (auto simp: caught_up_def set_channel_def posted_frame_bytes)
    moreover have "nt_told ?nt1 = nt_told nt" by (simp add: set_channel_def)
    ultimately show ?thesis by blast
  next
    case 2
    let ?nt2 = "?nt1\<lparr>nt_out_of_buffers := True, nt_retry_queue := nt_retry_queue nt @ [ev\<lparr>ev_retries := ev_retries ev + 1\<rparr>]\<rparr>"
    have "read_tcp_loop (Suc n) env ev nt = Ok ?nt2"
      using 2 ch(1) x(1) assms(6,7) by (simp add: Let_def retry_event_def get_retry_event_def set_channel_def)
    moreover have "caught_up env ev ms future nt ?nt2" using 2 ch(6) x(3) by (auto simp: caught_up_def set_channel_def)
    moreover have "nt_told ?nt2 = nt_told nt" by (simp add: set_channel_def)
    ultimately show ?thesis by blast
  next
    case 3
    then obtain f fs' g where f: "map (posted_frame ?ops) ms = f # fs'" "same_frame f g" "r = Ok (Some g) \<or> r = Panic \<and> (f = Ack \<or> f = Bye)"
      "peer_sends fs' (arrived ch1) future" "is_data g \<longrightarrow> took_data ch ch1" by (elim exE conjE)
    obtain pm ms' where ms: "ms = pm # ms'" "f = posted_frame ?ops pm" "fs' = map (posted_frame ?ops) ms'" using f(1) by auto
    obtain q m where q: "g = DataFrame q" "handle_data_frame env q ses ?nt1 = deliver_net_message env m ?nt1" "received_as ses pm m"
      using data_frame_handled [OF assms(1) _ f(2) [unfolded ms(2)], where ses = ses and nt = ?nt1] assms(2) ms(1) by fastforce
    let ?nt2 = "?nt1\<lparr>nt_told := nt_told nt @ [(route (posted_receiver pm), m)]\<rparr>"
    have took: "took_data ch ch1" using f(5) q(1) by simp
    have "r = Ok (Some (DataFrame q))" using f(3) q(1) ms(2) by (cases pm) (auto simp: posted_frame_def)
    moreover have "ch_session_id ch1 = Some ses" using state_session [of ch1 ch] took ch(3) by (simp add: took_data_def)
    moreover have "deliver_net_message env m ?nt1 = Ok ?nt2"
      using assms(5) ms(1) received_receiver [OF q(3)] by (simp add: deliver_net_message_def routed_def set_channel_def)
    ultimately have "read_tcp_loop (Suc n) env ev nt = read_tcp_loop n env ev ?nt2" using ch(1) x(1) q(2) by (simp add: Let_def)
    moreover have "receives env ?tok ses ms' future ?nt2" using took x(2) ch(4,5) \<open>ch_session_id ch1 = Some ses\<close> f(4) ms(3)
      by (auto simp: receives_def reader_ok_def set_channel_def took_data_def peer_sends_def posted_frame_bytes comp_def)
    ultimately show ?thesis using ms(1) q(3) x(3) by (intro disjI2 exI [of _ pm] exI [of _ ms'] exI [of _ m] exI [of _ ?nt2]) (simp add: set_channel_def)
  qed
qed

lemma read_loop_delivers:
  assumes "bytes_documented (te_ops env)"
  shows "list_all posted_ok ms \<Longrightarrow> list_all (\<lambda>pm. length (posted_bytes (te_ops env) pm) < 2 ^ 32) ms \<Longrightarrow>
    receives env (ev_token ev) ses ms future nt \<Longrightarrow> routed env route ms (nt_lookup nt) \<Longrightarrow>
    ev_retries ev \<le> nc_max_connection_retry_attempts (nt_config nt) \<Longrightarrow> ev_retries ev \<noteq> 255 \<Longrightarrow> length ms < n \<Longrightarrow>
    \<exists>nt' k calls. read_tcp_loop n env ev nt = Ok nt' \<and> k \<le> length ms \<and> nt_told nt' = nt_told nt @ calls \<and>
      told_as route ses (take k ms) calls \<and> caught_up env ev (drop k ms) future nt nt'"
proof (induction n arbitrary: ms nt)
  case (Suc n)
  from read_loop_step [OF assms Suc.prems(1-6), of n] show ?case
  proof (elim disjE exE conjE)
    fix nt' assume "read_tcp_loop (Suc n) env ev nt = Ok nt'" "nt_told nt' = nt_told nt" "caught_up env ev ms future nt nt'"
    then show ?thesis by (intro exI [of _ nt'] exI [of _ 0] exI [of _ "[]"]) (simp add: told_as_def)
  next
    fix pm ms' m nt1
    assume step: "ms = pm # ms'" "read_tcp_loop (Suc n) env ev nt = read_tcp_loop n env ev nt1" "received_as ses pm m"
      "receives env (ev_token ev) ses ms' future nt1" "nt_told nt1 = nt_told nt @ [(route (posted_receiver pm), m)]"
      and same: "nt_lookup nt1 = nt_lookup nt" "nt_config nt1 = nt_config nt" "nt_retry_queue nt1 = nt_retry_queue nt"
      and pool: "exchanged (nt_pool nt) (nt_pool nt1)"
    have "routed env route ms' (nt_lookup nt1)" using Suc.prems(4) step(1) same(1) by (simp add: routed_def)
    then obtain nt' k calls where rest: "read_tcp_loop n env ev nt1 = Ok nt'" "k \<le> length ms'" "nt_told nt' = nt_told nt1 @ calls"
      "told_as route ses (take k ms') calls" "caught_up env ev (drop k ms') future nt1 nt'"
      using Suc.IH [of ms' nt1] step(1,4) same(2) Suc.prems by auto
    have "caught_up env ev (drop k ms') future nt nt'" using rest(5) same(3) exchanged_trans [OF pool] by (simp add: caught_up_def)
    then show ?thesis using rest step(1-3,5)
      by (intro exI [of _ nt'] exI [of _ "Suc k"] exI [of _ "(route (posted_receiver pm), m) # calls"]) (simp add: told_as_def)
  qed
qed simp

lemma read_tcp_delivers:
  assumes "lru_documented (te_lru env)" "bytes_documented (te_ops env)" "list_all posted_ok ms" "list_all (\<lambda>pm. length (posted_bytes (te_ops env) pm) < 2 ^ 32) ms"
    and "receives env (ev_token ev) ses ms future nt" "routed env route ms (nt_lookup nt)"
    and "ev_retries ev \<le> nc_max_connection_retry_attempts (nt_config nt)" "ev_retries ev \<noteq> 255" "length ms < te_fuel env"
    and "ev_token ev \<in> set (lru_iter (te_lru env) (nt_token_map nt))"
  shows "\<exists>nt' k calls. read_tcp env ev nt = Ok nt' \<and> k \<le> length ms \<and> nt_told nt' = nt_told nt @ calls \<and>
      told_as route ses (take k ms) calls \<and> caught_up env ev (drop k ms) future nt nt'"
proof -
  obtain c where c: "get_channel_by_token env (ev_token ev) nt = (True, nt\<lparr>nt_token_map := c\<rparr>)"
    using thread_tables.get_present [OF thread_tables.intro [OF assms(1)] assms(10)] by blast
  have "receives env (ev_token ev) ses ms future (nt\<lparr>nt_token_map := c\<rparr>)" using assms(5) by (simp add: receives_def reader_ok_def)
  from read_loop_delivers [OF assms(2-4) this, of route "te_fuel env"] assms(6-9) c show ?thesis
    by (simp add: read_tcp_def caught_up_def)
qed

subsection \<open>From one network thread to the other\<close>

text \<open>A frame that carries a message, as the encode buffer of the sending thread produces it.\<close>

definition carried_by :: "('v, 't, 'n4, 'r4, 'n6, 'r6, 'c) thread_env \<Rightarrow> serialised_frame \<Rightarrow> posted \<Rightarrow> bool" where
  "carried_by env f = (\<lambda>(src, dst, sid, data). \<exists>(ser :: 'v serialisable) eb e eb1 e'. eb_aligned eb \<and> get_buffer_encoder (te_locks env) eb = (Ok e, eb1) \<and>
     into_serialised (te_locks env) (te_ops env) (te_fresh env) (DD_Lazy ser src dst) e = Some (Ok f, e') \<and>
     sid = s_ser_id ser \<and> data = concat (s_slices ser))"

lemma carried_frame:
  fixes env :: "('v, 't, 'n4, 'r4, 'n6, 'r6, 'c) thread_env"
  assumes "bytes_documented (te_ops env)" "posted_ok pm" "carried_by env f pm"
  shows "sf_pending f \<and> sf_unread f = posted_bytes (te_ops env) pm"
proof -
  obtain src dst sid data where pm: "pm = (src, dst, sid, data)" by (cases pm) auto
  obtain ser :: "'v serialisable" and eb e eb1 e' where c: "eb_aligned eb" "get_buffer_encoder (te_locks env) eb = (Ok e, eb1)" "sid = s_ser_id ser" "data = concat (s_slices ser)"
    "into_serialised (te_locks env) (te_ops env) (te_fresh env) (DD_Lazy ser src dst) e = Some (Ok f, e')"
    using assms(3) unfolding pm carried_by_def prod.case by blast
  note e = fresh_encoder [OF c(1,2)]
  have w: "wire_path src" "wire_path dst" using assms(2) pm by simp_all
  obtain r e2 where r: "serialise_msg (te_locks env) (te_ops env) src dst ser e = Some (r, e2)"
    "case r of Ok l \<Rightarrow> eb_aligned (encoder_drop e2) \<and> leases (posted_bytes (te_ops env) pm) l | Err _ \<Rightarrow> eb_aligned (encoder_drop e2) | Panic \<Rightarrow> False"
    using tripleD [OF serialise_msg_triple [OF assms(1) w, of "te_locks env" ser], of e] e(1,2)
    unfolding pm c(3,4) posted_bytes.simps by blast
  then obtain l where l: "f = SF_ChunkLease l" "leases (posted_bytes (te_ops env) pm) l"
    using c(5) by (cases r) (auto simp: andthen_def yield_def)
  then show ?thesis using leases_unread [OF l(2)] posted_not_Nil [of "te_ops env" pm]
    by (auto simp: sf_pending_def leases_def lease_valid_def)
qed

text \<open>
  C1: What the network thread of one system sends over an established connection, the actors of the other system receive: the
  messages serialised into the frames that the sending thread is given are told, in this order, once, with their senders, serialisation ids and
  contents and the session of the connection, to the actors their receivers are looked up to, as far as their bytes have
  arrived. Only an exhausted pool can delay this, all of whose chunks are in use and which may not allocate another, and then
  the event is retried. It is for messages between wire paths (IPv4 addresses, valid and non-empty named paths with a text below
  2^16 bytes) of less than 2^32 bytes, whose receivers are each looked up to a single actor, for an event whose retries are not used up,
  a receiving buffer configuration that reserves at least eight bytes, and a receiving socket that delivers bytes until it would block.
  That the wire hands over the bytes that the socket of the sender has accepted, in this order, is assumed of TCP.
\<close>

theorem messages_cross_the_network:
  assumes "lru_documented (te_lru env1)" "lru_documented (te_lru env2)" "bytes_documented (te_ops env1)" "te_ops env2 = te_ops env1"
    and "link_up env1 addr tok sent nt1" "cache_ok (te_lru env1) (nt_token_map nt1)"
    and "list_all2 (carried_by env1) (frames_sent sts) ms" "list_all posted_ok ms"
    and "list_all (\<lambda>pm. length (posted_bytes (te_ops env1) pm) < 2 ^ 32) ms"
    and "run_link env1 addr tok sts nt1 = Ok nt1'" "nt_channels nt1' tok = Some ch1" "connected ch1"
    and "accepted (ch_stream ch1) = sent @ arrived ch2 @ under_way"
    and "reader_ok env2 (ev_token ev) ses ch2 nt2" "ev_token ev \<in> set (lru_iter (te_lru env2) (nt_token_map nt2))"
    and "routed env2 route ms (nt_lookup nt2)" "length ms < te_fuel env2"
    and "ev_retries ev \<le> nc_max_connection_retry_attempts (nt_config nt2)" "ev_retries ev \<noteq> 255"
  shows "\<exists>nt2' k calls. read_tcp env2 ev nt2 = Ok nt2' \<and> k \<le> length ms \<and> nt_told nt2' = nt_told nt2 @ calls \<and>
      told_as route ses (take k ms) calls \<and> caught_up env2 ev (drop k ms) (under_way @ queue_bytes (outbound_queue ch1)) nt2 nt2'"
proof -
  have frames: "list_all sf_pending (frames_sent sts) \<and> map sf_unread (frames_sent sts) = map (posted_bytes (te_ops env1)) ms"
    using assms(7,8) by (induction rule: list_all2_induct) (auto dest: carried_frame [OF assms(3)])
  then have "link_up env1 addr tok (sent @ queue_bytes (frames_sent sts)) nt1'"
    using thread_tables.link_up_run [OF thread_tables.intro [OF assms(1)] assms(3,5,6), of sts] assms(10-12) by (auto simp: link_down_def)
  then have "emitted ch1 = sent @ concat (map (posted_bytes (te_ops env1)) ms)"
    using assms(11) frames by (auto simp: link_up_def queue_bytes_def)
  then have "arrived ch2 @ under_way @ queue_bytes (outbound_queue ch1) = concat (map (posted_bytes (te_ops env2)) ms)"
    using assms(4,13) by (simp add: emitted_def)
  then have "receives env2 (ev_token ev) ses ms (under_way @ queue_bytes (outbound_queue ch1)) nt2"
    using assms(14) by (auto simp: receives_def)
  then show ?thesis using read_tcp_delivers [OF assms(2) _ assms(8) _ _ assms(16,18,19,17,15)] assms(3,4,9) by simp
qed

text \<open>A socket that takes at least a byte whenever it is written to ends up with everything.\<close>

lemma drain_loop_empties:
  "list_all sf_pending q \<Longrightarrow> list_all (\<lambda>oc. \<exists>n. oc = Wrote (Suc n)) (write_outcomes s) \<Longrightarrow> length (queue_bytes q) \<le> length (write_outcomes s) \<Longrightarrow>
     \<exists>n s'. drain_loop i b q s = (Ok n, [], s')"
proof (induction i b q s rule: drain_loop.induct)
  case (1 i b q s)
  note step = drain_loop.simps [of i b q s]
  show ?case
  proof (cases q)
    case (Cons f rest)
    have f: "sf_valid f" "sf_unread f \<noteq> []" "list_all sf_pending rest" using "1.prems"(1) Cons by (simp_all) (simp_all add: sf_pending_def)
    obtain c more where c: "frame_chunk f = Ok c" "c \<noteq> []" "sf_unread f = c @ more"
      using frame_buf.chunk_prefix [of f] f(1,2) by auto
    obtain n os where o: "write_outcomes s = Wrote (Suc n) # os" using "1.prems"(2,3) f(2) Cons
      by (cases "write_outcomes s") (auto simp: queue_bytes_def)
    let ?n = "min (Suc n) (length c)" and ?s = "s\<lparr>write_outcomes := os, accepted := accepted s @ take (Suc n) c\<rparr>"
    let ?q = "if ?n < frame_remaining f then frame_advance ?n f # rest else rest"
    have w: "write_serialized f s = (Ok ?n, ?s)" using c(1) o by (simp add: write_serialized_def stream_write_def)
    have rem: "frame_remaining f = length (sf_unread f)" using f(1) frame_buf.remaining_unread by simp
    have n: "0 < ?n" "?n \<le> length (sf_unread f)" using c(2,3) by auto
    have "list_all sf_pending ?q" "length (queue_bytes ?q) < length (queue_bytes q)"
      using f n rem frame_buf.advance_valid [of f ?n] frame_buf.advance_unread [of f ?n] Cons
      by (auto simp: sf_pending_def queue_bytes_def)
    then have "\<exists>m s'. drain_loop i (b + ?n) ?q ?s = (Ok m, [], s')"
      using "1.IH"(1) [OF Cons w [symmetric] refl] "1.prems"(2,3) o by simp
    then show ?thesis using step Cons w by simp
  qed (use step in simp)
qed

definition sample_posted :: posted where
  "sample_posted = (sample_path, sample_path, 42, [1, 2, 3])"

definition sending_thread ::
    "(unit, nat, nat, u32 \<times> nat, (bool \<times> u32 \<times> nat) list, u128 \<times> nat, (bool \<times> u128 \<times> nat) list, nat \<times> nat list) network_thread" where
  "sending_thread = linked_thread
     \<lparr>nt_channels := [3 \<mapsto> channel_new (idle_stream\<lparr>write_outcomes := replicate 66 (Wrote 1)\<rparr>) 3 \<lparr>sock_ip = V4 2, sock_port = 9\<rparr>
        (from_chunk (replicate 128 0) 3) (ChConnected \<lparr>sock_ip = V4 2, sock_port = 9\<rparr> 10) \<lparr>sock_ip = V4 1, sock_port = 9\<rparr> buffer_config_default True]\<rparr>"

definition receiving_thread ::
    "(unit, nat, nat, u32 \<times> nat, (bool \<times> u32 \<times> nat) list, u128 \<times> nat, (bool \<times> u128 \<times> nat) list, nat \<times> nat list) network_thread" where
  "receiving_thread = linked_thread
     \<lparr>nt_channels := [3 \<mapsto> channel_new (idle_stream\<lparr>read_outcomes := [Received (posted_bytes be_buf_ops sample_posted)]\<rparr>) 3 \<lparr>sock_ip = V4 1, sock_port = 9\<rparr>
        (from_chunk (replicate 128 0) 3) (ChConnected \<lparr>sock_ip = V4 1, sock_port = 9\<rparr> 10) \<lparr>sock_ip = V4 2, sock_port = 9\<rparr> buffer_config_default True],
      nt_lookup := store_new\<lparr>uuid_map := [(7, 5)]\<rparr>\<rparr>"

lemma sample_posted_facts:
  "posted_ok sample_posted" "length (posted_bytes be_buf_ops sample_posted) = 66"
  by (simp_all add: sample_posted_def sample_path_facts data_frame_bytes_def envelope_def FRAME_HEAD_LEN_def)

lemma sample_carried: "\<exists>f. carried_by sample_thread_env f sample_posted"
proof -
  let ?e = "\<lparr>encode_buffer = big_encode_buffer, en_chain_head = None, en_ser_error = None\<rparr>"
  have enc: "get_buffer_encoder (\<lambda>_. 1) big_encode_buffer = (Ok ?e, big_encode_buffer)"
    by (simp add: get_buffer_encoder_def big_encode_buffer_def eb_writeable_len_def from_chunk_def encoder_new_def)
  have al: "eb_aligned big_encode_buffer"
    by (simp add: eb_aligned_def eb_ok_def big_encode_buffer_def from_chunk_def pool_ok_def roomy_def FRAME_HEAD_LEN_def)
  have room: "eb_writeable_len big_encode_buffer = 80" by (simp add: big_encode_buffer_def eb_writeable_len_def from_chunk_def)
  have len: "66 = length (data_frame_bytes (envelope be_buf_ops sample_path sample_path (s_ser_id sample_message) (concat (s_slices sample_message))))"
    using sample_posted_facts(2) by (simp add: sample_message_def sample_posted_def)
  have "hint (s_size_hint sample_message) + hint (actor_path_size_hint sample_path) + hint (actor_path_size_hint sample_path) + FRAME_HEAD_LEN < 66 + 14"
    by (simp add: hint_def sample_path_facts sample_message_def FRAME_HEAD_LEN_def)
  from serialise_msg_total [OF be_buf_ops_documented sample_path_facts(1) sample_path_facts(1) _ len this, of "\<lambda>_. 1"]
  obtain l e' where "serialise_msg (\<lambda>_. 1) be_buf_ops sample_path sample_path sample_message ?e = Some (Ok l, e')"
    using fresh_encoder(3) [OF al enc] room by (auto simp: total_def sample_message_def)
  then have "carried_by sample_thread_env (SF_ChunkLease l) sample_posted"
    unfolding carried_by_def sample_posted_def prod.case using al enc
    by (intro exI [of _ sample_message] exI [of _ big_encode_buffer] exI [of _ ?e] exI [of _ e'])
      (auto simp: sample_thread_env_def andthen_def yield_def sample_message_def)
  then show ?thesis by blast
qed

lemma sending_thread_up:
  "link_up sample_thread_env \<lparr>sock_ip = V4 2, sock_port = 9\<rparr> 3 [] sending_thread" "cache_ok (te_lru sample_thread_env) (nt_token_map sending_thread)"
  by (simp_all add: link_up_def sending_thread_def linked_thread_def crossed_thread_def Let_def sample_thread_env_def list_lru_iter START_TOKEN_def
      channel_new_def connected_def queue_ok_def emitted_def queue_bytes_def idle_stream_def cache_ok_def list_lru_def)

lemma sending_thread_run:
  assumes "sf_pending f" "length (sf_unread f) = 66"
  shows "\<exists>nt' ch. run_link sample_thread_env \<lparr>sock_ip = V4 2, sock_port = 9\<rparr> 3 [LinkSend f, LinkWrite] sending_thread = Ok nt' \<and>
    nt_channels nt' 3 = Some ch \<and> connected ch \<and> accepted (ch_stream ch) = sf_unread f \<and> outbound_queue ch = []"
proof -
  let ?s = "idle_stream\<lparr>write_outcomes := replicate 66 (Wrote 1)\<rparr>"
  obtain n s' where d: "drain_loop 0 0 [f] ?s = (Ok n, [], s')"
    using drain_loop_empties [of "[f]" ?s 0 0] assms by (auto simp: queue_bytes_def list_all_iff)
  then have "accepted s' = sf_unread f" using drain_loop_bytes [OF _ d] assms by (simp add: queue_bytes_def idle_stream_def)
  then show ?thesis using d
    by (simp add: sending_thread_def linked_thread_def crossed_thread_def Let_def sample_thread_env_def send_tcp_message_def get_channel_by_address_def
        borrow_mut_def update_lru_def get_channel_by_token_def list_lru_def serialise_dispatch_data_def channel_new_def connected_def set_channel_def
        enqueue_serialised_def enqueue_writeable_event_def handle_event_def writeable_with_token_def TCP_SERVER_def UDP_SOCKET_def DISPATCHER_def
        write_tcp_def try_drain_def)
qed

theorem messages_cross_the_network_witness:
  "\<exists>f nt1' nt2' calls. carried_by sample_thread_env f sample_posted \<and>
     run_link sample_thread_env \<lparr>sock_ip = V4 2, sock_port = 9\<rparr> 3 [LinkSend f, LinkWrite] sending_thread = Ok nt1' \<and>
     read_tcp sample_thread_env (event_from 3 True False) receiving_thread = Ok nt2' \<and> nt_told nt2' = calls \<and>
     told_as (\<lambda>_. 5) 10 [sample_posted] calls"
proof -
  obtain f where f: "carried_by sample_thread_env f sample_posted" using sample_carried by blast
  have doc: "lru_documented (te_lru sample_thread_env)" "bytes_documented (te_ops sample_thread_env)" "te_ops sample_thread_env = be_buf_ops"
    by (simp_all add: sample_thread_env_def be_buf_ops_documented)
  have fr: "sf_pending f" "sf_unread f = posted_bytes be_buf_ops sample_posted"
    using carried_frame [OF doc(2) sample_posted_facts(1) f] doc(3) by simp_all
  obtain nt1' ch1 where run: "run_link sample_thread_env \<lparr>sock_ip = V4 2, sock_port = 9\<rparr> 3 [LinkSend f, LinkWrite] sending_thread = Ok nt1'"
    "nt_channels nt1' 3 = Some ch1" "connected ch1" "accepted (ch_stream ch1) = posted_bytes be_buf_ops sample_posted" "outbound_queue ch1 = []"
    using sending_thread_run [OF fr(1)] fr(2) sample_posted_facts(2) by auto
  let ?ev = "event_from 3 True False"
  obtain ch2 where ch2: "nt_channels receiving_thread 3 = Some ch2" by (simp add: receiving_thread_def)
  have arr: "arrived ch2 = posted_bytes be_buf_ops sample_posted" using ch2
    by (auto simp: receiving_thread_def channel_new_def arrived_def decode_buffer_new_def Decode_Buffer.stream_def unread_def arriving_def from_chunk_def idle_stream_def)
  have rd: "reader_ok sample_thread_env (ev_token ?ev) 10 ch2 receiving_thread" using ch2 sample_posted_facts(2)
    by (auto simp: reader_ok_def receiving_thread_def linked_thread_def crossed_thread_def Let_def event_from_def small_pool_def pool_ok_def roomy_def
        channel_new_def channel_ok_def db_wf_def decode_buffer_new_def from_chunk_def buffer_config_default_def FRAME_HEAD_LEN_def ch_session_id_def
        clean_def idle_stream_def read_weight_def sample_thread_env_def)
  have rest: "ev_token ?ev \<in> set (lru_iter (te_lru sample_thread_env) (nt_token_map receiving_thread))"
    "routed sample_thread_env (\<lambda>_. 5) [sample_posted] (nt_lookup receiving_thread)" "length [sample_posted] < te_fuel sample_thread_env"
    "ev_retries ?ev \<le> nc_max_connection_retry_attempts (nt_config receiving_thread)" "ev_retries ?ev \<noteq> 255"
    by (simp_all add: event_from_def receiving_thread_def linked_thread_def crossed_thread_def Let_def sample_thread_env_def list_lru_iter routed_def
        sample_posted_def sample_path_def get_by_uuid_def lookup_result_of_ref_def)
  have fs: "list_all2 (carried_by sample_thread_env) (frames_sent [LinkSend f, LinkWrite]) [sample_posted]"
    "list_all posted_ok [sample_posted]" "list_all (\<lambda>pm. length (posted_bytes (te_ops sample_thread_env) pm) < 2 ^ 32) [sample_posted]"
    "accepted (ch_stream ch1) = [] @ arrived ch2 @ []"
    using f sample_posted_facts run(4) arr doc(3) by simp_all
  from messages_cross_the_network [OF doc(1,1,2) refl sending_thread_up fs(1-3) run(1-3) fs(4) rd rest] obtain nt2' k calls where
    out: "read_tcp sample_thread_env ?ev receiving_thread = Ok nt2'" "k \<le> 1" "nt_told nt2' = nt_told receiving_thread @ calls"
      "told_as (\<lambda>_. 5) 10 (take k [sample_posted]) calls" "caught_up sample_thread_env ?ev (drop k [sample_posted]) [] receiving_thread nt2'"
    using run(5) by (auto simp: queue_bytes_def)
  have none: "nt_told receiving_thread = []" by (simp add: receiving_thread_def linked_thread_def crossed_thread_def Let_def)
  have "\<not> exhausted (\<lambda>_. 1) (nt_pool receiving_thread)"
    by (simp add: exhausted_def receiving_thread_def linked_thread_def crossed_thread_def Let_def small_pool_def)
  then have "\<not> exhausted (te_locks sample_thread_env) (nt_pool nt2')"
    using exchanged_not_exhausted out(5) by (auto simp: caught_up_def sample_thread_env_def)
  then have "told_as (\<lambda>_. 5) 10 [sample_posted] calls" using out(2,4,5) doc(3) by (cases k) (auto simp: caught_up_def)
  then show ?thesis using f run(1) out(1,3) none by auto
qed

end
